(* ===== verification/Prelude.thy ===== *)
theory Prelude
  imports Main "HOL-Library.AList" "HOL-Library.Char_ord" "HOL-Library.List_Lexorder"
    "HOL-Library.Product_Lexorder"
begin

text \<open>
  Shared vocabulary of the development: the Python values that travel through argument
  and result mappings, the exceptions of the program, actions that read and write a state and
  may raise, dictionaries that keep insertion order, the string helpers the source uses, and
  the interface (a locale) every in-memory registry of the program offers.
\<close>

named_theorems py_simps "evaluation rules of the Python helpers"

section \<open>Python values\<close>

text \<open>
  A float is written as \<open>m / 2 ^ e\<close> (every finite double has this form); infinities and NaN
  are \<open>VNonFinite\<close>. \<open>VObj\<close> is an instance of a class with its attributes in order.
\<close>

datatype pyval =
    VNone
  | VBool bool
  | VInt int
  | VFloat int nat
  | VNonFinite
  | VStr string
  | VList "pyval list"
  | VDict "(string \<times> pyval) list"
  | VObj string "(string \<times> pyval) list"

type_synonym args = "(string \<times> pyval) list"

fun truthy :: "pyval \<Rightarrow> bool" where
  "truthy VNone = False"
| "truthy (VBool b) = b"
| "truthy (VInt i) = (i \<noteq> 0)"
| "truthy (VFloat m e) = (m \<noteq> 0)"
| "truthy VNonFinite = True"
| "truthy (VStr s) = (s \<noteq> [])"
| "truthy (VList xs) = (xs \<noteq> [])"
| "truthy (VDict d) = (d \<noteq> [])"
| "truthy (VObj c as) = True"

text \<open>\<open>type(v).__name__\<close>.\<close>

fun class_name :: "pyval \<Rightarrow> string" where
  "class_name VNone = ''NoneType''"
| "class_name (VBool b) = ''bool''"
| "class_name (VInt i) = ''int''"
| "class_name (VFloat m e) = ''float''"
| "class_name VNonFinite = ''float''"
| "class_name (VStr s) = ''str''"
| "class_name (VList xs) = ''list''"
| "class_name (VDict d) = ''dict''"
| "class_name (VObj c as) = c"

text \<open>\<open>d.get(k)\<close> and \<open>d.get(k, dflt)\<close> on a mapping, \<open>k in d\<close>.\<close>

definition dget :: "args \<Rightarrow> string \<Rightarrow> pyval" where
  "dget d k = (case map_of d k of None \<Rightarrow> VNone | Some v \<Rightarrow> v)"

definition dget_or :: "args \<Rightarrow> string \<Rightarrow> pyval \<Rightarrow> pyval" where
  "dget_or d k dflt = (case map_of d k of None \<Rightarrow> dflt | Some v \<Rightarrow> v)"

definition has_key :: "string \<Rightarrow> args \<Rightarrow> bool" where
  "has_key k d = (map_of d k \<noteq> None)"

lemma dget_Cons [simp, py_simps]:
  "dget ((k, v) # d) k' = (if k' = k then v else dget d k')"
  "dget [] k' = VNone"
  by (simp_all add: dget_def)

lemma dget_or_Cons [simp, py_simps]:
  "dget_or ((k, v) # d) k' x = (if k' = k then v else dget_or d k' x)"
  "dget_or [] k' x = x"
  by (simp_all add: dget_or_def)

lemma has_key_Cons [simp, py_simps]:
  "has_key k' ((k, v) # d) = (k' = k \<or> has_key k' d)"
  "has_key k' [] = False"
  by (simp_all add: has_key_def)

text \<open>Attribute access by \<open>hasattr\<close>: only an object carries attributes.\<close>

fun attr :: "pyval \<Rightarrow> string \<Rightarrow> pyval option" where
  "attr (VObj c as) a = map_of as a"
| "attr v a = None"

section \<open>Exceptions\<close>

text \<open>
  One constructor for each exception class the source raises or catches, grouped by the package
  that defines it; the second argument of \<open>Exn\<close> is the message, \<open>str(e)\<close>.
\<close>

datatype py_exn = PyValueError | PyTypeError | PyKeyError | PyRuntimeError | PyAttributeError
  | PyTimeoutError | PyNotImplementedError | PyOther string
datatype container_exn = ContainerError | ContainerRegistrationError | ResolutionError
  | CircularDependencyError | ContainerValidationError
datatype lifecycle_exn = LifecycleError | StartupError | ShutdownError
  | LifecycleRegistrationError | HealthCheckError
datatype security_exn = SecurityError | PermissionValidationError | PolicyNotFoundError
  | PermissionDeniedError | PolicyEvaluationError
datatype runtime_exn = RuntimeSubsystemError | RuntimeValidationError | CapabilityNotFoundError
  | ExecutionFailedError
datatype mutation_exn = MutationError | ConfirmationRequired | MutationRejectedError | RollbackError
  | AuditError
datatype execution_exn = ExecutionServiceError | ExecutionValidationError
  | ExecutionPermissionDeniedError | ExecutionRuntimeError
datatype workflow_exn = WorkflowError | WorkflowValidationError | WorkflowNotFoundError
  | TaskExecutionError | WorkflowCancelledError
datatype planner_exn = PlannerError | PlanningError | GoalError | TaskError | CycleDetectedError
  | ExecutionGraphError
datatype memory_exn = MemoryError | MemoryNotFound | DuplicateMemory | MemoryValidationError | SearchError
datatype identity_exn = IdentityError | AuthenticationError | AuthorizationError | SessionExpiredError
  | IdentityRegistrationError | SessionRegistrationError
datatype plugin_exn = PluginError | PluginValidationError | PluginLoadError | PluginNotFoundError
  | PluginStateError
datatype config_exn = ConfigurationError | ConfigValidationError | SecretResolutionError
datatype android_exn = AndroidRuntimeError | AndroidAdapterError | AndroidCapabilityRegistrationError
  | CapabilityError | CapabilityPermissionDenied | ResourceUnavailableError | InvalidArgumentError | UnsupportedPlatformError | PlatformExecutionError
datatype brain_exn = BrainError | BrainValidationError | BrainIdentityResolutionError | BrainMemoryError
  | BrainPlannerError | BrainDecisionError | BrainProcessingError
datatype logging_exn = LoggingError | SinkError | FormatterError

datatype exn_class =
    Py py_exn
  | InContainer container_exn
  | InLifecycle lifecycle_exn
  | InSecurity security_exn
  | InRuntime runtime_exn
  | InMutation mutation_exn
  | InExecution execution_exn
  | InWorkflow workflow_exn
  | InPlanner planner_exn
  | InMemory memory_exn
  | InIdentity identity_exn
  | InPlugins plugin_exn
  | InConfig config_exn
  | InAndroid android_exn
  | InBrain brain_exn
  | InLogging logging_exn

datatype pyexn = Exn (exn_cls: exn_class) (exn_msg: string)

text \<open>The \<open>except\<close> clauses of the source that name a base class catch these classes.\<close>

fun is_resolution_error :: "exn_class \<Rightarrow> bool" where
  "is_resolution_error (InContainer c) = (c = ResolutionError \<or> c = CircularDependencyError)"
| "is_resolution_error _ = False"

fun is_security_error :: "exn_class \<Rightarrow> bool" where
  "is_security_error (InSecurity c) = True"
| "is_security_error _ = False"

fun is_runtime_subsystem_error :: "exn_class \<Rightarrow> bool" where
  "is_runtime_subsystem_error (InRuntime c) = True"
| "is_runtime_subsystem_error _ = False"

fun is_planner_error :: "exn_class \<Rightarrow> bool" where
  "is_planner_error (InPlanner c) = True"
| "is_planner_error _ = False"

fun is_capability_error :: "exn_class \<Rightarrow> bool" where
  "is_capability_error (InAndroid c) =
     (c \<notin> {AndroidRuntimeError, AndroidAdapterError, AndroidCapabilityRegistrationError})"
| "is_capability_error _ = False"

section \<open>Actions: state in, result or exception and state out\<close>

type_synonym ('s, 'a) act = "'s \<Rightarrow> (pyexn + 'a) \<times> 's"

definition ret :: "'a \<Rightarrow> ('s, 'a) act" where
  "ret x s = (Inr x, s)"

definition raise :: "exn_class \<Rightarrow> string \<Rightarrow> ('s, 'a) act" where
  "raise c m s = (Inl (Exn c m), s)"

definition bindA :: "('s, 'a) act \<Rightarrow> ('a \<Rightarrow> ('s, 'b) act) \<Rightarrow> ('s, 'b) act" where
  "bindA m f s = (case m s of (Inl e, s') \<Rightarrow> (Inl e, s') | (Inr x, s') \<Rightarrow> f x s')"

definition seqA :: "('s, 'a) act \<Rightarrow> ('s, 'b) act \<Rightarrow> ('s, 'b) act" where
  "seqA m n = bindA m (\<lambda>_. n)"

definition catchA :: "('s, 'a) act \<Rightarrow> (pyexn \<Rightarrow> ('s, 'a) act) \<Rightarrow> ('s, 'a) act" where
  "catchA m h s = (case m s of (Inl e, s') \<Rightarrow> h e s' | (Inr x, s') \<Rightarrow> (Inr x, s'))"

definition liftA :: "pyexn + 'a \<Rightarrow> ('s, 'a) act" where
  "liftA r s = (r, s)"

lemmas act_defs = ret_def raise_def bindA_def seqA_def catchA_def liftA_def

lemma bindA_simps [simp]:
  "bindA (ret x) f = f x"
  "bindA (raise c m) f = raise c m"
  by (simp_all add: act_defs fun_eq_iff)

lemma bind_lifted [simp]: "bindA (liftA (Inr x)) f = f x" "bindA (liftA (Inl e)) f = liftA (Inl e)"
  by (simp_all add: act_defs fun_eq_iff)

lemma bindA_step: "m s = (Inr x, t) \<Longrightarrow> bindA m f s = f x t"
  by (simp add: bindA_def)

lemma bindA_eq_Inr:
  "bindA m f s = (Inr y, t) \<longleftrightarrow> (\<exists>x s'. m s = (Inr x, s') \<and> f x s' = (Inr y, t))"
  by (auto simp: bindA_def split: prod.splits sum.splits)

lemma bindA_eq_Inl:
  "bindA m f s = (Inl e, t) \<longleftrightarrow>
     m s = (Inl e, t) \<or> (\<exists>x s'. m s = (Inr x, s') \<and> f x s' = (Inl e, t))"
  by (auto simp: bindA_def split: prod.splits sum.splits)

text \<open>A relation that every state change respects is respected by sequencing and handlers.\<close>

definition keepsA :: "('s \<Rightarrow> 's \<Rightarrow> bool) \<Rightarrow> ('s, 'a) act \<Rightarrow> bool" where
  "keepsA R m \<longleftrightarrow> (\<forall>s. R s (snd (m s)))"

lemma keepsAD: "keepsA R m \<Longrightarrow> m s = (r, t) \<Longrightarrow> R s t"
  by (metis keepsA_def snd_conv)

lemma keepsA_ret: "reflp R \<Longrightarrow> keepsA R (ret x)"
  by (simp add: keepsA_def ret_def reflpD)

lemma keepsA_raise: "reflp R \<Longrightarrow> keepsA R (raise c m)"
  by (simp add: keepsA_def raise_def reflpD)

lemma keepsA_bind:
  assumes "transp R" "keepsA R m" "\<And>x. keepsA R (f x)"
  shows "keepsA R (bindA m f)"
  unfolding keepsA_def
proof
  fix s
  show "R s (snd (bindA m f s))"
  proof (cases "m s")
    case (Pair r s')
    then have 1: "R s s'" using assms(2) by (metis keepsA_def snd_conv)
    show ?thesis
    proof (cases r)
      case (Inl e)
      with Pair 1 show ?thesis by (simp add: bindA_def)
    next
      case (Inr x)
      have "R s' (snd (f x s'))" using assms(3) by (simp add: keepsA_def)
      with 1 assms(1) have "R s (snd (f x s'))" by (blast dest: transpD)
      with Pair Inr show ?thesis by (simp add: bindA_def)
    qed
  qed
qed

lemma keepsA_seq:
  "transp R \<Longrightarrow> keepsA R m \<Longrightarrow> keepsA R n \<Longrightarrow> keepsA R (seqA m n)"
  by (simp add: seqA_def keepsA_bind)

lemma keepsA_catch:
  assumes "transp R" "keepsA R m" "\<And>e. keepsA R (h e)"
  shows "keepsA R (catchA m h)"
  unfolding keepsA_def
proof
  fix s
  show "R s (snd (catchA m h s))"
  proof (cases "m s")
    case (Pair r s')
    then have 1: "R s s'" using assms(2) by (metis keepsA_def snd_conv)
    show ?thesis
    proof (cases r)
      case (Inl e)
      have "R s' (snd (h e s'))" using assms(3) by (simp add: keepsA_def)
      with 1 assms(1) have "R s (snd (h e s'))" by (blast dest: transpD)
      with Pair Inl show ?thesis by (simp add: catchA_def)
    next
      case (Inr x)
      with Pair 1 show ?thesis by (simp add: catchA_def)
    qed
  qed
qed

lemma keepsA_lift: "reflp R \<Longrightarrow> keepsA R (liftA r)"
  by (simp add: keepsA_def liftA_def reflpD)

lemmas keepsA_intros = keepsA_ret keepsA_raise keepsA_bind keepsA_seq keepsA_catch
  keepsA_lift

section \<open>Strings\<close>

text \<open>
  \<open>str.lower\<close>, \<open>str.strip\<close>, \<open>str.split\<close> and \<open>x in y\<close> on ASCII text. Characters beyond
  ASCII are outside the model of text.
\<close>

definition lower_char :: "char \<Rightarrow> char" where
  "lower_char c = (let n = (of_char c :: nat) in if 65 \<le> n \<and> n \<le> 90 then char_of (n + 32) else c)"

definition lower :: "string \<Rightarrow> string" where
  "lower s = map lower_char s"

definition is_ws :: "char \<Rightarrow> bool" where
  "is_ws c = (let n = (of_char c :: nat) in n = 32 \<or> (9 \<le> n \<and> n \<le> 13) \<or> (28 \<le> n \<and> n \<le> 31))"

definition strip :: "string \<Rightarrow> string" where
  "strip s = rev (dropWhile is_ws (rev (dropWhile is_ws s)))"

fun is_prefix :: "string \<Rightarrow> string \<Rightarrow> bool" where
  "is_prefix [] s = True"
| "is_prefix (c # cs) [] = False"
| "is_prefix (c # cs) (d # ds) = (c = d \<and> is_prefix cs ds)"

fun contains :: "string \<Rightarrow> string \<Rightarrow> bool" where
  "contains p [] = (p = [])"
| "contains p (c # cs) = (is_prefix p (c # cs) \<or> contains p cs)"

lemma is_prefix_append [simp]: "is_prefix p (p @ s)"
  by (induction p) auto

lemma contains_append [simp]: "contains p (a @ p @ s)"
proof (induction a)
  case Nil
  show ?case
    by (cases "p @ s") (auto, metis is_prefix_append)
next
  case (Cons c a)
  then show ?case by simp
qed

text \<open>A string in single quotes, as the f-strings of the source print names.\<close>

definition quoted :: "string \<Rightarrow> string" where
  "quoted s = CHR 0x27 # s @ [CHR 0x27]"

fun join :: "string \<Rightarrow> string list \<Rightarrow> string" where
  "join sep [] = []"
| "join sep [x] = x"
| "join sep (x # xs) = x @ sep @ join sep xs"

fun str_of_nat :: "nat \<Rightarrow> string" where
  "str_of_nat n = (if n < 10 then [char_of (48 + n)]
                   else str_of_nat (n div 10) @ [char_of (48 + n mod 10)])"

declare str_of_nat.simps [simp del]

definition str_of_int :: "int \<Rightarrow> string" where
  "str_of_int i = (if i < 0 then ''-'' @ str_of_nat (nat (- i)) else str_of_nat (nat i))"

text \<open>\<open>int(s)\<close>: optional sign, digits, single underscores between digits.\<close>

definition is_digit :: "char \<Rightarrow> bool" where
  "is_digit c = (let n = (of_char c :: nat) in 48 \<le> n \<and> n \<le> 57)"

definition digit_val :: "char \<Rightarrow> int" where
  "digit_val c = int (of_char c) - 48"

fun parse_digits :: "int \<Rightarrow> string \<Rightarrow> int option" where
  "parse_digits acc [] = Some acc"
| "parse_digits acc (c # cs) =
     (if is_digit c then parse_digits (10 * acc + digit_val c) cs
      else if c = CHR ''_'' then
        (case cs of [] \<Rightarrow> None
         | d # ds \<Rightarrow> if is_digit d then parse_digits (10 * acc + digit_val d) ds else None)
      else None)"

definition parse_nat :: "string \<Rightarrow> int option" where
  "parse_nat s = (case s of [] \<Rightarrow> None
     | c # cs \<Rightarrow> if is_digit c then parse_digits (digit_val c) cs else None)"

definition parse_int :: "string \<Rightarrow> int option" where
  "parse_int s0 = (let s = strip s0 in
     case s of [] \<Rightarrow> None
     | c # cs \<Rightarrow> if c = CHR ''-'' then map_option uminus (parse_nat cs)
                else if c = CHR ''+'' then parse_nat cs else parse_nat s)"

text \<open>\<open>int(v)\<close> truncates a float towards zero and refuses what is not a number.\<close>

definition trunc_div :: "int \<Rightarrow> nat \<Rightarrow> int" where
  "trunc_div m e = (if m < 0 then - ((- m) div 2 ^ e) else m div 2 ^ e)"

fun py_int :: "pyval \<Rightarrow> pyexn + int" where
  "py_int (VBool b) = Inr (if b then 1 else 0)"
| "py_int (VInt i) = Inr i"
| "py_int (VFloat m e) = Inr (trunc_div m e)"
| "py_int VNonFinite = Inl (Exn (Py PyValueError) ''cannot convert float to integer'')"
| "py_int (VStr s) = (case parse_int s of Some i \<Rightarrow> Inr i
     | None \<Rightarrow> Inl (Exn (Py PyValueError) (''invalid literal for int() with base 10: '' @ s)))"
| "py_int v = Inl (Exn (Py PyTypeError) ''int() argument must be a string or a real number'')"

section \<open>Dictionaries that keep insertion order\<close>

text \<open>
  A Python \<open>dict\<close> is an association list with distinct keys: \<open>d[k] = v\<close> replaces in place or
  appends (\<^const>\<open>AList.update\<close>), \<open>d.pop(k, None)\<close> removes (\<^const>\<open>AList.delete\<close>).
\<close>

type_synonym ('k, 'v) pydict = "('k \<times> 'v) list"

definition dict_ok :: "('k, 'v) pydict \<Rightarrow> bool" where
  "dict_ok d \<longleftrightarrow> distinct (map fst d)"

abbreviation dict_values :: "('k, 'v) pydict \<Rightarrow> 'v list" where
  "dict_values d \<equiv> map snd d"

abbreviation dict_keys :: "('k, 'v) pydict \<Rightarrow> 'k list" where
  "dict_keys d \<equiv> map fst d"

lemma dict_ok_Nil [simp]: "dict_ok []"
  by (simp add: dict_ok_def)

lemma dict_ok_update [simp]: "dict_ok d \<Longrightarrow> dict_ok (AList.update k v d)"
  by (simp add: dict_ok_def AList.distinct_update)

lemma dict_ok_delete [simp]: "dict_ok d \<Longrightarrow> dict_ok (AList.delete k d)"
  by (simp add: dict_ok_def AList.distinct_delete)

lemma map_of_dict_update [simp]:
  "map_of (AList.update k v d) k' = (if k' = k then Some v else map_of d k')"
  by (simp add: AList.update_conv')

lemma map_of_dict_delete [simp]:
  "map_of (AList.delete k d) k' = (if k' = k then None else map_of d k')"
  by (simp add: AList.delete_conv')

lemma dict_keys_update:
  "set (map fst (AList.update k v d)) = insert k (set (map fst d))"
  using AList.dom_update[of k v d] by simp

lemma dict_keys_delete:
  "set (map fst (AList.delete k d)) = set (map fst d) - {k}"
  by (simp add: AList.delete_keys)

lemma dict_in_keys: "k \<in> set (map fst d) \<longleftrightarrow> map_of d k \<noteq> None"
  by (simp add: map_of_eq_None_iff)

lemma dict_mem_map_of: "dict_ok d \<Longrightarrow> (k, v) \<in> set d \<longleftrightarrow> map_of d k = Some v"
  by (auto simp: dict_ok_def map_of_eq_Some_iff)

lemma dict_values_mem:
  "dict_ok d \<Longrightarrow> v \<in> set (map snd d) \<longleftrightarrow> (\<exists>k. map_of d k = Some v)"
  by (force simp: dict_mem_map_of[symmetric])

section \<open>The interface of a registry\<close>

text \<open>
  Every in-memory registry of the program (capabilities, plugins, identities, sessions, goals,
  tasks, lifecycle components) answers look-ups by key, stores under a key and forgets a key.
  Its clients rely on the laws below only.
\<close>

locale keyed_registry =
  fixes look :: "'r \<Rightarrow> 'k \<Rightarrow> 'v option"
    and put :: "'k \<Rightarrow> 'v \<Rightarrow> 'r \<Rightarrow> 'r"
    and del :: "'k \<Rightarrow> 'r \<Rightarrow> 'r"
    and ok :: "'r \<Rightarrow> bool"
  assumes look_put: "ok r \<Longrightarrow> look (put k v r) k' = (if k' = k then Some v else look r k')"
    and look_del: "ok r \<Longrightarrow> look (del k r) k' = (if k' = k then None else look r k')"
    and ok_put: "ok r \<Longrightarrow> ok (put k v r)"
    and ok_del: "ok r \<Longrightarrow> ok (del k r)"
begin

lemma look_put_same: "ok r \<Longrightarrow> look (put k v r) k = Some v"
  by (simp add: look_put)

lemma look_put_other: "ok r \<Longrightarrow> k' \<noteq> k \<Longrightarrow> look (put k v r) k' = look r k'"
  by (simp add: look_put)

lemma look_put_put: "ok r \<Longrightarrow> look (put k v (put k w r)) = look (put k v r)"
  by (simp add: fun_eq_iff look_put ok_put)

lemma look_del_put: "ok r \<Longrightarrow> look r k = None \<Longrightarrow> look (del k (put k v r)) = look r"
  by (simp add: fun_eq_iff look_put look_del ok_put)

lemma look_puts:
  "ok r \<Longrightarrow> look (fold (\<lambda>(k, v). put k v) kvs r) k =
     (case map_of (rev kvs) k of Some v \<Rightarrow> Some v | None \<Rightarrow> look r k)"
proof (induction kvs arbitrary: r)
  case Nil
  then show ?case by simp
next
  case (Cons kv kvs)
  obtain k' v' where kv: "kv = (k', v')" by (cases kv)
  with Cons.IH[OF ok_put[OF Cons.prems]] Cons.prems show ?case
    by (auto simp: look_put map_add_def split: option.splits)
qed

end

interpretation dict: keyed_registry map_of AList.update AList.delete "\<lambda>_. True"
  by unfold_locales simp_all

text \<open>Updating a new key appends it.\<close>

lemma update_new_key: "k \<notin> fst ` set d \<Longrightarrow> AList.update k v d = d @ [(k, v)]"
  by (induction d) auto

end
