(* ===== verification/Graph.thy ===== *)
theory Graph
  imports Prelude "HOL-Library.Multiset"
begin

text \<open>
  The ready-list topological sort that two components of the program share: the lifecycle
  orchestrator orders components by it (core/lifecycle/orchestrator.py) and the planner orders
  tasks by it (core/planner/graph.py). The loop below is the one both write out; they differ in
  the moment they sort the ready list, which are its two optional sort keys. The locale
  \<open>dependency_graph\<close> is what a component has to provide, and its lemmas are what it gets.
\<close>

section \<open>The loop\<close>

definition resort :: "('a \<Rightarrow> 'k::linorder) option \<Rightarrow> 'a list \<Rightarrow> 'a list" where
  "resort k xs = (case k of None \<Rightarrow> xs | Some f \<Rightarrow> sort_key f xs)"

lemma length_resort [simp]: "length (resort k xs) = length xs"
  by (simp add: resort_def split: option.splits)

lemma set_resort [simp]: "set (resort k xs) = set xs"
  by (simp add: resort_def split: option.splits)

lemma distinct_resort [simp]: "distinct (resort k xs) = distinct xs"
  by (simp add: resort_def split: option.splits)

lemma resort_Nil_iff [simp]: "resort k xs = [] \<longleftrightarrow> xs = []"
  by (metis length_0_conv length_resort)

text \<open>
  The inner loop: every successor of the node just emitted loses one from its in-degree and
  becomes ready when nothing is left. A key that is not in the dictionary is skipped (the callers
  build the dictionary with every key they use).
\<close>

fun relax ::
  "('a \<Rightarrow> 'n) \<Rightarrow> ('a \<Rightarrow> 'k::linorder) option \<Rightarrow> 'a list \<Rightarrow> ('n, int) pydict \<Rightarrow> 'a list \<Rightarrow>
   ('n, int) pydict \<times> 'a list" where
  "relax key pushk [] indeg ready = (indeg, ready)"
| "relax key pushk (m # ms) indeg ready =
     (case map_of indeg (key m) of
        None \<Rightarrow> relax key pushk ms indeg ready
      | Some w \<Rightarrow>
          relax key pushk ms (AList.update (key m) (w - 1) indeg)
            (if w - 1 = 0 then resort pushk (ready @ [m]) else ready))"

definition positives :: "('n, int) pydict \<Rightarrow> nat" where
  "positives d = length (filter (\<lambda>kv. 0 < snd kv) d)"

lemma positives_update:
  "map_of d k = Some w \<Longrightarrow> positives (AList.update k v d) + (if 0 < w then 1 else 0) =
     positives d + (if 0 < v then 1 else 0)"
  by (induction d) (auto simp: positives_def)

lemma relax_measure:
  "relax key pushk ms indeg ready = (indeg', ready') \<Longrightarrow>
   length ready' + positives indeg' \<le> length ready + positives indeg"
proof (induction ms arbitrary: indeg ready)
  case Nil
  then show ?case by simp
next
  case (Cons m ms)
  show ?case
  proof (cases "map_of indeg (key m)")
    case None
    with Cons show ?thesis by simp
  next
    case (Some w)
    let ?r = "if w - 1 = 0 then resort pushk (ready @ [m]) else ready"
    have "length ready' + positives indeg' \<le>
        length ?r + positives (AList.update (key m) (w - 1) indeg)"
      using Cons.IH Cons.prems Some by simp
    moreover have "length ?r + positives (AList.update (key m) (w - 1) indeg) \<le>
        length ready + positives indeg"
      using positives_update[OF Some, of "w - 1"] by (cases "w = 1") (auto split: if_splits)
    ultimately show ?thesis by linarith
  qed
qed

function kahn ::
  "('a \<Rightarrow> 'n) \<Rightarrow> ('a \<Rightarrow> 'k::linorder) option \<Rightarrow> ('a \<Rightarrow> 'k) option \<Rightarrow> ('a \<Rightarrow> 'a list) \<Rightarrow>
   'a list \<Rightarrow> ('n, int) pydict \<Rightarrow> 'a list \<Rightarrow> 'a list" where
  "kahn key headk pushk succs ready indeg out =
     (case resort headk ready of
        [] \<Rightarrow> out
      | c # rest \<Rightarrow>
          (case relax key pushk (succs c) indeg rest of
             (indeg', ready') \<Rightarrow> kahn key headk pushk succs ready' indeg' (out @ [c])))"
  by pat_completeness auto
termination
proof (relation "measure (\<lambda>(key, headk, pushk, succs, ready, indeg, out).
    length ready + positives indeg)", goal_cases)
  case 1
  show ?case by simp
next
  case (2 key headk pushk succs ready indeg out c rest indeg' ready')
  have "length ready = Suc (length rest)"
    using 2(1) by (metis length_Cons length_resort)
  with relax_measure[of key pushk "succs c" indeg rest indeg' ready'] 2(2) show ?case by simp
qed

declare kahn.simps [simp del]

lemma kahn_Nil: "kahn key headk pushk succs [] indeg out = out"
  by (simp add: kahn.simps resort_def split: option.splits)

section \<open>Topological orders\<close>

text \<open>
  \<open>topo key deps xs\<close>: every element of \<open>xs\<close> stands after all of its dependencies.
\<close>

definition topo :: "('a \<Rightarrow> 'n) \<Rightarrow> ('a \<Rightarrow> 'n list) \<Rightarrow> 'a list \<Rightarrow> bool" where
  "topo key deps xs \<longleftrightarrow> (\<forall>i < length xs. set (deps (xs ! i)) \<subseteq> key ` set (take i xs))"

text \<open>How many dependencies of \<open>a\<close> are still open when \<open>out\<close> has been emitted.\<close>

definition open_deps :: "('a \<Rightarrow> 'n) \<Rightarrow> ('a \<Rightarrow> 'n list) \<Rightarrow> 'a list \<Rightarrow> 'a \<Rightarrow> nat" where
  "open_deps key deps out a = length (filter (\<lambda>d. d \<notin> key ` set out) (deps a))"

text \<open>
  \<open>greedy key deps sk items xs\<close>: whatever is emitted has the least sort key among the items
  whose dependencies had all been emitted by then.
\<close>

definition greedy ::
  "('a \<Rightarrow> 'n) \<Rightarrow> ('a \<Rightarrow> 'n list) \<Rightarrow> ('a \<Rightarrow> 'k::linorder) \<Rightarrow> 'a list \<Rightarrow> 'a list \<Rightarrow> bool" where
  "greedy key deps sk items xs \<longleftrightarrow> (\<forall>i < length xs. \<forall>b \<in> set items - set (take i xs).
     set (deps b) \<subseteq> key ` set (take i xs) \<longrightarrow> sk (xs ! i) \<le> sk b)"

lemma topo_Nil [simp]: "topo key deps []"
  by (simp add: topo_def)

lemma greedy_Nil [simp]: "greedy key deps sk items []"
  by (simp add: greedy_def)

lemma topo_snoc:
  "topo key deps (xs @ [a]) \<longleftrightarrow> topo key deps xs \<and> set (deps a) \<subseteq> key ` set xs"
  by (auto simp: topo_def less_Suc_eq nth_append)

lemma greedy_snoc:
  "greedy key deps sk items (xs @ [a]) \<longleftrightarrow> greedy key deps sk items xs \<and>
     (\<forall>b \<in> set items - set xs. set (deps b) \<subseteq> key ` set xs \<longrightarrow> sk a \<le> sk b)"
  by (auto simp: greedy_def less_Suc_eq nth_append)

lemma open_deps_zero: "open_deps key deps out a = 0 \<longleftrightarrow> set (deps a) \<subseteq> key ` set out"
  by (auto simp: open_deps_def filter_empty_conv)

lemma length_filter_split:
  "x \<notin> S \<Longrightarrow> length (filter (\<lambda>d. d \<notin> S) xs) =
     length (filter (\<lambda>d. d \<notin> insert x S) xs) + count_list xs x"
  by (induction xs) auto

lemma open_deps_snoc:
  "key c \<notin> key ` set out \<Longrightarrow>
   open_deps key deps out a = open_deps key deps (out @ [c]) a + count_list (deps a) (key c)"
  using length_filter_split[of "key c" "key ` set out" "deps a"] by (simp add: open_deps_def)

section \<open>The inner loop decrements by the number of occurrences\<close>

lemma relax_indeg:
  assumes "inj_on key (insert a (set ms))"
    and "\<And>m. m \<in> insert a (set ms) \<Longrightarrow> map_of indeg (key m) \<noteq> None"
    and "relax key pushk ms indeg ready = (indeg', ready')"
  shows "map_of indeg' (key a) = Some (the (map_of indeg (key a)) - int (count_list ms a))"
  using assms
proof (induction ms arbitrary: indeg ready)
  case Nil
  then show ?case by auto
next
  case (Cons m ms)
  obtain w where w: "map_of indeg (key m) = Some w" using Cons.prems(2) by fastforce
  let ?d = "AList.update (key m) (w - 1) indeg"
  have inj: "inj_on key (insert a (set ms))"
    by (rule inj_on_subset[OF Cons.prems(1)]) auto
  have "map_of indeg' (key a) = Some (the (map_of ?d (key a)) - int (count_list ms a))"
    by (rule Cons.IH[OF inj _ Cons.prems(3)[simplified w relax.simps option.case]])
       (use Cons.prems(2) in auto)
  moreover have "key a = key m \<longleftrightarrow> a = m"
    using Cons.prems(1) by (auto simp: inj_on_def)
  ultimately show ?case using w by auto
qed

lemma relax_ready:
  assumes "inj_on key (set ms)"
    and "\<And>m. m \<in> set ms \<Longrightarrow> \<exists>w. map_of indeg (key m) = Some w \<and> int (count_list ms m) \<le> w"
    and "relax key pushk ms indeg ready = (indeg', ready')"
  shows "set ready' = set ready \<union>
      {m \<in> set ms. map_of indeg (key m) = Some (int (count_list ms m))}"
    and "distinct ready \<Longrightarrow> set ready \<inter> set ms = {} \<Longrightarrow> distinct ready'"
proof -
  have "set ready' = set ready \<union> {m \<in> set ms. map_of indeg (key m) = Some (int (count_list ms m))}
    \<and> (distinct ready \<and>
        (set ready \<inter> {m \<in> set ms. map_of indeg (key m) = Some (int (count_list ms m))} = {}) \<longrightarrow>
        distinct ready')"
    using assms
  proof (induction ms arbitrary: indeg ready)
    case Nil
    then show ?case by simp
  next
    case (Cons m ms)
    obtain w where w: "map_of indeg (key m) = Some w" "int (count_list (m # ms) m) \<le> w"
      using Cons.prems(2)[of m] by auto
    let ?d = "AList.update (key m) (w - 1) indeg"
    let ?r = "if w - 1 = 0 then resort pushk (ready @ [m]) else ready"
    have eqk: "key x = key m \<longleftrightarrow> x = m" if "x \<in> set ms" for x
      using Cons.prems(1) that by (auto simp: inj_on_def)
    have inj: "inj_on key (set ms)" using Cons.prems(1) by simp
    have d: "map_of ?d (key x) = (if x = m then Some (w - 1) else map_of indeg (key x))"
      if "x \<in> set ms" for x using eqk[OF that] by simp
    have pre: "\<exists>v. map_of ?d (key x) = Some v \<and> int (count_list ms x) \<le> v" if x: "x \<in> set ms" for x
    proof (cases "x = m")
      case True
      with w(2) show ?thesis by simp
    next
      case False
      with Cons.prems(2)[of x] x d[OF x] show ?thesis by auto
    qed
    let ?Z = "{x \<in> set ms. map_of ?d (key x) = Some (int (count_list ms x))}"
    have IH: "set ready' = set ?r \<union> ?Z \<and>
        (distinct ?r \<and> set ?r \<inter> ?Z = {} \<longrightarrow> distinct ready')"
      by (rule Cons.IH[OF inj pre Cons.prems(3)[simplified w relax.simps option.case]])
    let ?Z' = "{x \<in> set (m # ms). map_of indeg (key x) = Some (int (count_list (m # ms) x))}"
    have Z: "?Z' = (if w - 1 = 0 then {m} else {}) \<union> ?Z"
    proof (rule set_eqI)
      fix x
      show "x \<in> ?Z' \<longleftrightarrow> x \<in> (if w - 1 = 0 then {m} else {}) \<union> ?Z"
      proof (cases "x = m")
        case True
        have c0: "m \<in> set ms \<longleftrightarrow> count_list ms m \<noteq> 0" by (simp add: count_list_0_iff)
        show ?thesis
        proof (cases "m \<in> set ms")
          case in_ms: True
          from d[OF in_ms] have "map_of ?d (key m) = Some (w - 1)" by simp
          with True w c0 in_ms show ?thesis by auto
        next
          case False
          with True w(1) c0 show ?thesis by simp
        qed
      next
        case False
        with eqk show ?thesis by auto
      qed
    qed
    have mZ: "w - 1 = 0 \<Longrightarrow> m \<notin> ?Z"
      using w d by (auto simp: count_list_0_iff)
    show ?case
      unfolding Z using IH mZ by (cases "w - 1 = 0") auto
  qed
  then show "set ready' = set ready \<union>
      {m \<in> set ms. map_of indeg (key m) = Some (int (count_list ms m))}"
    and "distinct ready \<Longrightarrow> set ready \<inter> set ms = {} \<Longrightarrow> distinct ready'"
    by auto
qed

lemma relax_sorted:
  "relax key (Some sk) ms indeg ready = (indeg', ready') \<Longrightarrow> sorted (map sk ready) \<Longrightarrow>
   sorted (map sk ready')"
  by (induction ms arbitrary: indeg ready)
     (auto simp: resort_def split: option.splits if_splits)

section \<open>The interface of a dependency graph\<close>

text \<open>
  Items with distinct keys, the keys each depends on (all of them items), and for every item the
  list of its dependents, with one entry for each time it is named as a dependency.
\<close>

locale dependency_graph =
  fixes items :: "'a list"
    and key :: "'a \<Rightarrow> 'n"
    and deps :: "'a \<Rightarrow> 'n list"
    and succs :: "'a \<Rightarrow> 'a list"
  assumes keys_distinct: "distinct (map key items)"
    and deps_closed: "a \<in> set items \<Longrightarrow> set (deps a) \<subseteq> key ` set items"
    and succs_items: "a \<in> set items \<Longrightarrow> set (succs a) \<subseteq> set items"
    and succs_count: "a \<in> set items \<Longrightarrow> b \<in> set items \<Longrightarrow>
      count_list (succs a) b = count_list (deps b) (key a)"
begin

lemma key_inj: "inj_on key (set items)"
  using keys_distinct by (simp add: distinct_map)

text \<open>What holds whenever the loop is entered.\<close>

definition loop_inv ::
  "('a \<Rightarrow> 'k::linorder) \<Rightarrow> 'a list \<Rightarrow> ('n, int) pydict \<Rightarrow> 'a list \<Rightarrow> bool" where
  "loop_inv sk ready indeg out \<longleftrightarrow>
     distinct (ready @ out) \<and> set (ready @ out) \<subseteq> set items \<and>
     (\<forall>a \<in> set items. map_of indeg (key a) = Some (int (open_deps key deps out a))) \<and>
     (\<forall>a \<in> set items. a \<in> set (ready @ out) \<longleftrightarrow> open_deps key deps out a = 0) \<and>
     topo key deps out \<and> greedy key deps sk items out"

lemma loop_inv_init:
  assumes "distinct ready" "set ready = {a \<in> set items. deps a = []}"
    and "\<And>a. a \<in> set items \<Longrightarrow> map_of indeg (key a) = Some (int (length (deps a)))"
  shows "loop_inv sk ready indeg []"
  using assms by (auto simp: loop_inv_def open_deps_def)

lemma loop_inv_step:
  assumes inv: "loop_inv sk ready indeg out"
    and c: "set ready = set (c # rest)" "distinct (c # rest)"
    and least: "\<And>b. b \<in> set rest \<Longrightarrow> sk c \<le> sk b"
    and relax: "relax key pushk (succs c) indeg rest = (indeg', ready')"
  shows "loop_inv sk ready' indeg' (out @ [c])"
proof -
  note I = inv[unfolded loop_inv_def]
  have citem: "c \<in> set items" and cout: "c \<notin> set out" using I c by auto
  have outitems: "set out \<subseteq> set items" using I by auto
  have keyout: "key c \<notin> key ` set out"
    using cout citem outitems key_inj by (auto dest: inj_onD)
  have ss: "set (succs c) \<subseteq> set items" using succs_items[OF citem] .
  have inj: "inj_on key (set (succs c))" by (rule inj_on_subset[OF key_inj ss])
  let ?o = "open_deps key deps out" and ?o' = "open_deps key deps (out @ [c])"
  have o: "?o a = ?o' a + count_list (succs c) a" if "a \<in> set items" for a
    using open_deps_snoc[of key c out deps a] keyout succs_count[OF citem that] by simp
  have indeg: "map_of indeg (key a) = Some (int (?o a))" if "a \<in> set items" for a
    using I that by blast
  have indeg': "map_of indeg' (key a) = Some (int (?o' a))" if a: "a \<in> set items" for a
  proof -
    have "map_of indeg' (key a) = Some (the (map_of indeg (key a)) - int (count_list (succs c) a))"
    proof (rule relax_indeg[OF _ _ relax])
      show "inj_on key (insert a (set (succs c)))"
        by (rule inj_on_subset[OF key_inj]) (use a ss in auto)
    qed (use a ss indeg in auto)
    then show ?thesis using indeg[OF a] o[OF a] by simp
  qed
  have bound: "\<exists>w. map_of indeg (key m) = Some w \<and> int (count_list (succs c) m) \<le> w"
    if "m \<in> set (succs c)" for m using that ss indeg o by auto
  have ready': "set ready' = set rest \<union> {m \<in> set (succs c). ?o' m = 0}"
    using relax_ready(1)[OF inj bound relax] ss indeg o by auto
  have pos: "?o m > 0" if "m \<in> set (succs c)" for m
    using o[of m] ss that by (metis add_gr_0 count_list_0_iff gr0I subset_iff)
  have new: "set (succs c) \<inter> set (ready @ out) = {}" using pos I ss by force
  have "distinct ready'"
    by (rule relax_ready(2)[OF inj bound relax]) (use c new in auto)
  moreover have "set ready' \<inter> set (out @ [c]) = {}"
    using ready' new I c by auto
  moreover have "distinct (out @ [c])" using I cout by simp
  moreover have "set (ready' @ out @ [c]) \<subseteq> set items"
    using ready' ss outitems citem I c by auto
  moreover have "a \<in> set (ready' @ out @ [c]) \<longleftrightarrow> ?o' a = 0" if a: "a \<in> set items" for a
  proof
    assume "a \<in> set (ready' @ out @ [c])"
    then consider "a \<in> set (ready @ out)" | "?o' a = 0" using ready' c by auto
    then show "?o' a = 0" using o[OF a] I a by cases auto
  next
    assume z: "?o' a = 0"
    show "a \<in> set (ready' @ out @ [c])"
    proof (cases "a \<in> set (succs c)")
      case True
      with z ready' show ?thesis by simp
    next
      case False
      then have "?o a = 0" using z o[OF a] by (simp add: count_list_0_iff)
      then have "a \<in> set (ready @ out)" using I a by blast
      with c ready' show ?thesis by auto
    qed
  qed
  moreover have "topo key deps (out @ [c])"
  proof -
    have "?o c = 0" using I citem c by auto
    with I show ?thesis by (simp add: topo_snoc open_deps_zero)
  qed
  moreover have "greedy key deps sk items (out @ [c])"
  proof -
    have "sk c \<le> sk b" if b: "b \<in> set items - set out" "set (deps b) \<subseteq> key ` set out" for b
    proof -
      have "b \<in> set (ready @ out) \<longleftrightarrow> open_deps key deps out b = 0" using I b by blast
      then have "b \<in> set (ready @ out)" using b by (simp add: open_deps_zero)
      then show ?thesis using b c least by auto
    qed
    with I show ?thesis by (simp add: greedy_snoc)
  qed
  ultimately show ?thesis
    using indeg' by (auto simp: loop_inv_def)
qed

text \<open>
  The loop sorts either when it takes the next element (\<open>headk\<close>) or when it adds one (\<open>pushk\<close>,
  on a list that is sorted already).
\<close>

lemma kahn_inv:
  assumes "loop_inv sk ready indeg out"
    and "headk = Some sk \<or> (headk = None \<and> pushk = Some sk \<and> sorted (map sk ready))"
  shows "\<exists>indeg'. loop_inv sk [] indeg' (kahn key headk pushk succs ready indeg out)"
  using assms
proof (induction "length ready + positives indeg" arbitrary: ready indeg out rule: less_induct)
  case less
  show ?case
  proof (cases "resort headk ready")
    case Nil
    then have "ready = []" by simp
    with less.prems show ?thesis by (auto simp: kahn_Nil)
  next
    case (Cons c rest)
    obtain indeg' ready' where r: "relax key pushk (succs c) indeg rest = (indeg', ready')"
      by fastforce
    have set: "set ready = set (c # rest)" using set_resort[of headk ready] Cons by simp
    have dist: "distinct (c # rest)"
      using less.prems(1) distinct_resort[of headk ready] Cons by (simp add: loop_inv_def)
    have "sorted (map sk (resort headk ready))"
      using less.prems(2) by (auto simp: resort_def)
    then have least: "sk c \<le> sk b" if "b \<in> set rest" for b using Cons that by auto
    have inv: "loop_inv sk ready' indeg' (out @ [c])"
      by (rule loop_inv_step[OF less.prems(1) set dist least r])
    have len: "length ready = Suc (length rest)"
      using Cons by (metis length_Cons length_resort)
    have meas: "length ready' + positives indeg' < length ready + positives indeg"
      using relax_measure[OF r] len by simp
    have mode: "headk = Some sk \<or> (headk = None \<and> pushk = Some sk \<and> sorted (map sk ready'))"
    proof (cases "headk = Some sk")
      case False
      with less.prems(2) have h: "headk = None" "pushk = Some sk" "sorted (map sk ready)" by auto
      with Cons have "sorted (map sk rest)" by (simp add: resort_def)
      with relax_sorted r h show ?thesis by blast
    qed simp
    from less.hyps[OF meas inv mode] Cons r show ?thesis
      by (simp add: kahn.simps[of key headk pushk succs ready])
  qed
qed

text \<open>
  Emitting every item is the same as the existence of a topological order, and the result is then
  such an order that prefers the least sort key at every position.
\<close>

lemma kahn_correct:
  assumes "loop_inv sk ready indeg []"
    and "headk = Some sk \<or> (headk = None \<and> pushk = Some sk \<and> sorted (map sk ready))"
  defines "out \<equiv> kahn key headk pushk succs ready indeg []"
  shows "distinct out" and "set out \<subseteq> set items" and "topo key deps out"
    and "greedy key deps sk items out"
    and "length out = length items \<Longrightarrow> mset out = mset items"
    and "length out = length items \<longleftrightarrow> (\<exists>ord. mset ord = mset items \<and> topo key deps ord)"
proof -
  obtain indeg' where inv: "loop_inv sk [] indeg' out"
    using kahn_inv[OF assms(1,2)] by (auto simp: out_def)
  note I = inv[unfolded loop_inv_def]
  show d: "distinct out" and s: "set out \<subseteq> set items" and t: "topo key deps out"
    and "greedy key deps sk items out" using I by auto
  have di: "distinct items" using keys_distinct by (simp add: distinct_map)
  show all: "mset out = mset items" if "length out = length items"
  proof -
    have "card (set out) = card (set items)" using that d di by (simp add: distinct_card)
    then have "set out = set items" using s by (simp add: card_subset_eq)
    then show ?thesis using d di by (simp add: set_eq_iff_mset_eq_distinct)
  qed
  show "length out = length items \<longleftrightarrow> (\<exists>ord. mset ord = mset items \<and> topo key deps ord)"
  proof
    assume "length out = length items"
    from all[OF this] t show "\<exists>ord. mset ord = mset items \<and> topo key deps ord" by blast
  next
    assume "\<exists>ord. mset ord = mset items \<and> topo key deps ord"
    then obtain ord where ord: "mset ord = mset items" "topo key deps ord" by blast
    have so: "set ord = set items" using ord(1) by (metis set_mset_mset)
    have "ord ! i \<in> set out" if "i < length ord" for i
      using that
    proof (induction i rule: less_induct)
      case (less i)
      have "set (take i ord) \<subseteq> set out"
        using less by (auto simp: in_set_conv_nth)
      moreover have "set (deps (ord ! i)) \<subseteq> key ` set (take i ord)"
        using ord(2) less.prems by (simp add: topo_def)
      ultimately have "open_deps key deps out (ord ! i) = 0"
        by (simp add: open_deps_zero) blast
      then show ?case using I less.prems so by (metis append_Nil nth_mem)
    qed
    then have "set items \<subseteq> set out" unfolding so[symmetric] by (auto simp: in_set_conv_nth)
    with s have "set out = set items" by blast
    with d di show "length out = length items" by (metis distinct_card)
  qed
qed

end

end
