(* ===== verification/Lifecycle.thy ===== *)
theory Lifecycle
  imports Graph
begin

text \<open>
  Lifecycle management (core/lifecycle): the component registry, the health monitor, the
  orchestrator with its execution order and its startup and shutdown phases, the manager facade
  and the kernel bootstrap. A component instance is code outside this package: it is the hooks it
  has, each an action on an environment state \<open>'s\<close> of its own, with the time it takes and what
  it leaves behind when a timeout cancels it.
\<close>

section \<open>States, health, registrations\<close>

datatype component_state = CREATED | BOOTING | BOOTED | STARTING | RUNNING | STOPPING | STOPPED
  | SHUTTING_DOWN | FAILED | RESTARTING

record component_health =
  h_state :: component_state
  h_details :: string

text \<open>
  The health checks of the managers name \<open>ComponentState.DEGRADED\<close>; the enumeration has no such
  member, so evaluating the name raises.
\<close>

definition degraded_state :: "pyexn + component_state" where
  "degraded_state = Inl (Exn (Py PyAttributeError)
     (''type object '' @ quoted ''ComponentState'' @ '' has no attribute '' @ quoted ''DEGRADED''))"

text \<open>The check three managers share: stopped, or missing dependencies, or running.\<close>

definition dependency_health ::
  "bool \<Rightarrow> string \<Rightarrow> string \<Rightarrow> string \<Rightarrow> (string \<times> bool) list \<Rightarrow> pyexn + component_health" where
  "dependency_health started stopped_text missing_text running_text deps =
     (if \<not> started then Inr \<lparr>h_state = STOPPED, h_details = stopped_text\<rparr>
      else let missing = map fst (filter (\<lambda>(n, present). \<not> present) deps) in
        if missing \<noteq> []
        then (case degraded_state of Inl e \<Rightarrow> Inl e
              | Inr s \<Rightarrow> Inr \<lparr>h_state = s, h_details = missing_text @ join '', '' missing @ ''.''\<rparr>)
        else Inr \<lparr>h_state = RUNNING, h_details = running_text\<rparr>)"

datatype 's hook =
    NoHook
  | SyncHook
  | AsyncHook (takes: "'s \<Rightarrow> nat") (body: "('s, unit) act") (cancelled: "'s \<Rightarrow> 's")

record 's registration =
  r_name :: string
  r_instance :: "string \<Rightarrow> 's hook"
  r_dependencies :: "string list"
  r_priority :: int
  r_enabled :: bool
  r_critical :: bool
  r_startup_timeout :: "nat option"
  r_shutdown_timeout :: "nat option"

record startup_report =
  sr_success :: bool
  sr_started :: "string list"
  sr_failed :: "string option"
  sr_error :: "string option"

record shutdown_report =
  sd_success :: bool
  sd_stopped :: "string list"
  sd_errors :: "(string, string) pydict"

text \<open>
  The state of a manager. \<open>lc_env\<close> is the state of the component instances and \<open>lc_hooks\<close> the
  hooks called so far (component, hook), in order.
\<close>

record 's lifecycle =
  lc_components :: "(string, 's registration) pydict"
  lc_health :: "(string, component_health) pydict"
  lc_env :: 's
  lc_hooks :: "(string \<times> string) list"

section \<open>The registry\<close>

definition lifecycle_registration_error :: "string \<Rightarrow> pyexn" where
  "lifecycle_registration_error m = Exn (InLifecycle LifecycleRegistrationError) m"

type_synonym 's components = "(string, 's registration) pydict"

definition reg_register :: "'s registration \<Rightarrow> 's components \<Rightarrow> pyexn + 's components" where
  "reg_register r d =
     (if map_of d (r_name r) \<noteq> None
      then Inl (lifecycle_registration_error
        (''Component '' @ quoted (r_name r) @ '' is already registered.''))
      else Inr (AList.update (r_name r) r d))"

definition reg_remove :: "string \<Rightarrow> 's components \<Rightarrow> 's components" where
  "reg_remove n d = AList.delete n d"

definition reg_replace ::
  "string \<Rightarrow> 's registration \<Rightarrow> 's components \<Rightarrow> pyexn + 's components" where
  "reg_replace n r d =
     (if n \<noteq> r_name r
      then Inl (lifecycle_registration_error
        ''Name mismatch when replacing component registration.'')
      else Inr (AList.update n r d))"

text \<open>The keyword arguments of \<open>update\<close>: the six fields that may change, and any other names.\<close>

record reg_kwargs =
  k_dependencies :: "string list option"
  k_priority :: "int option"
  k_enabled :: "bool option"
  k_critical :: "bool option"
  k_startup_timeout :: "nat option option"
  k_shutdown_timeout :: "nat option option"
  k_other :: "string list"

definition or_current :: "'a option \<Rightarrow> 'a \<Rightarrow> 'a" where
  "or_current k cur = (case k of None \<Rightarrow> cur | Some v \<Rightarrow> v)"

definition reg_update :: "string \<Rightarrow> reg_kwargs \<Rightarrow> 's components \<Rightarrow> pyexn + 's components" where
  "reg_update n k d = (case map_of d n of
     None \<Rightarrow> Inl (lifecycle_registration_error (''Component '' @ quoted n @ '' not found for update.''))
   | Some cur \<Rightarrow>
     (case k_other k of
        f # fs \<Rightarrow> Inl (lifecycle_registration_error
          (''Cannot update field '' @ quoted f @ '' on ComponentRegistration.''))
      | [] \<Rightarrow> Inr (AList.update n
          \<lparr>r_name = r_name cur, r_instance = r_instance cur,
           r_dependencies = or_current (k_dependencies k) (r_dependencies cur),
           r_priority = or_current (k_priority k) (r_priority cur),
           r_enabled = or_current (k_enabled k) (r_enabled cur),
           r_critical = or_current (k_critical k) (r_critical cur),
           r_startup_timeout = or_current (k_startup_timeout k) (r_startup_timeout cur),
           r_shutdown_timeout = or_current (k_shutdown_timeout k) (r_shutdown_timeout cur)\<rparr> d)))"

text \<open>Every registration is stored under its own name.\<close>

definition components_ok :: "'s components \<Rightarrow> bool" where
  "components_ok d \<longleftrightarrow> dict_ok d \<and> (\<forall>n r. map_of d n = Some r \<longrightarrow> r_name r = n)"

lemma components_ok_Nil [simp]: "components_ok []"
  by (simp add: components_ok_def)

lemma components_ok_ops:
  "components_ok d \<Longrightarrow> reg_register r d = Inr d' \<Longrightarrow> components_ok d'"
  "components_ok d \<Longrightarrow> components_ok (reg_remove n d)"
  "components_ok d \<Longrightarrow> reg_replace n r d = Inr d' \<Longrightarrow> components_ok d'"
  "components_ok d \<Longrightarrow> reg_update n k d = Inr d' \<Longrightarrow> components_ok d'"
  by (auto simp: components_ok_def reg_register_def reg_remove_def reg_replace_def reg_update_def
      split: if_splits option.splits list.splits)

section \<open>The health monitor\<close>

definition update_state ::
  "string \<Rightarrow> component_state \<Rightarrow> string \<Rightarrow> 's lifecycle \<Rightarrow> 's lifecycle" where
  "update_state n st det lc =
     lc\<lparr>lc_health := AList.update n \<lparr>h_state = st, h_details = det\<rparr> (lc_health lc)\<rparr>"

definition health_failed :: "string \<Rightarrow> string \<Rightarrow> 's lifecycle \<Rightarrow> 's lifecycle" where
  "health_failed n det = update_state n FAILED det"

definition health_stopped :: "string \<Rightarrow> string \<Rightarrow> 's lifecycle \<Rightarrow> 's lifecycle" where
  "health_stopped n det = update_state n STOPPED det"

definition health_shutting_down :: "string \<Rightarrow> string \<Rightarrow> 's lifecycle \<Rightarrow> 's lifecycle" where
  "health_shutting_down n det = update_state n SHUTTING_DOWN det"

definition health_created :: "string \<Rightarrow> string \<Rightarrow> 's lifecycle \<Rightarrow> 's lifecycle" where
  "health_created n det = update_state n CREATED det"

definition get_health :: "string \<Rightarrow> 's lifecycle \<Rightarrow> component_health option" where
  "get_health n lc = map_of (lc_health lc) n"

definition state_of :: "string \<Rightarrow> 's lifecycle \<Rightarrow> component_state option" where
  "state_of n lc = map_option h_state (get_health n lc)"

lemma state_of_update [simp]:
  "state_of m (update_state n st det lc) = (if m = n then Some st else state_of m lc)"
  by (simp add: state_of_def get_health_def update_state_def)

lemma update_state_frame [simp]:
  "lc_components (update_state n st det lc) = lc_components lc"
  "lc_hooks (update_state n st det lc) = lc_hooks lc"
  "lc_env (update_state n st det lc) = lc_env lc"
  by (simp_all add: update_state_def)

lemmas health_defs = health_failed_def health_stopped_def health_shutting_down_def
  health_created_def

section \<open>The execution order\<close>

type_synonym dep_graph = "(string, string list) pydict"

definition startup_error :: "string \<Rightarrow> pyexn" where
  "startup_error m = Exn (InLifecycle StartupError) m"

fun add_edges ::
  "string \<Rightarrow> string list \<Rightarrow> dep_graph \<Rightarrow> (string, int) pydict \<Rightarrow>
   pyexn + dep_graph \<times> (string, int) pydict" where
  "add_edges n [] graph in_degree = Inr (graph, in_degree)"
| "add_edges n (dep # ds) graph in_degree =
     (case map_of graph dep of
        None \<Rightarrow> Inl (startup_error
          (''Component '' @ quoted n @ '' depends on unknown component '' @ quoted dep))
      | Some ns \<Rightarrow> add_edges n ds (AList.update dep (ns @ [n]) graph)
          (AList.update n (the (map_of in_degree n) + 1) in_degree))"

fun build_graph ::
  "'s registration list \<Rightarrow> dep_graph \<Rightarrow> (string, int) pydict \<Rightarrow>
   pyexn + dep_graph \<times> (string, int) pydict" where
  "build_graph [] graph in_degree = Inr (graph, in_degree)"
| "build_graph (c # cs) graph in_degree =
     (case add_edges (r_name c) (r_dependencies c) graph in_degree of
        Inl e \<Rightarrow> Inl e
      | Inr (graph', in_degree') \<Rightarrow> build_graph cs graph' in_degree')"

definition priority_key :: "'s registration \<Rightarrow> int \<times> string" where
  "priority_key c = (r_priority c, r_name c)"

definition neighbors :: "'s components \<Rightarrow> dep_graph \<Rightarrow> 's registration \<Rightarrow> 's registration list" where
  "neighbors reg graph current = sort_key priority_key
     (map (\<lambda>n. the (map_of reg n)) (the (map_of graph (r_name current))))"

definition execution_order :: "'s components \<Rightarrow> pyexn + 's registration list" where
  "execution_order reg =
     (let components = dict_values reg in
      case build_graph components (map (\<lambda>c. (r_name c, [])) components)
             (map (\<lambda>c. (r_name c, 0)) components) of
        Inl e \<Rightarrow> Inl e
      | Inr (graph, in_degree) \<Rightarrow>
          let zero_in_degree = sort_key priority_key
                (filter (\<lambda>c. map_of in_degree (r_name c) = Some 0) components);
              order = kahn r_name None (Some priority_key) (neighbors reg graph)
                zero_in_degree in_degree []
          in if length order \<noteq> length components
             then Inl (startup_error ''Circular dependency detected in component registration'')
             else Inr order)"

subsection \<open>The dictionaries the order is computed from\<close>

lemma add_edges_Inl:
  "add_edges n ds g i = Inl e \<Longrightarrow>
     exn_cls e = InLifecycle StartupError \<and> (\<exists>d \<in> set ds. map_of g d = None)"
  by (induction n ds g i rule: add_edges.induct)
     (auto simp: startup_error_def split: option.splits if_splits)

lemma add_edges_Inr:
  "add_edges n ds g i = Inr (g', i') \<Longrightarrow> map_of i n = Some w \<Longrightarrow>
     (\<forall>d \<in> set ds. map_of g d \<noteq> None) \<and>
     (\<forall>m. map_of g' m = map_option (\<lambda>ns. ns @ replicate (count_list ds m) n) (map_of g m)) \<and>
     (\<forall>m. map_of i' m = (if m = n then Some (w + int (length ds)) else map_of i m))"
proof (induction n ds g i arbitrary: w rule: add_edges.induct)
  case (1 n graph in_degree)
  then show ?case by (auto simp: option.map_ident_strong)
next
  case (2 n dep ds graph in_degree)
  then obtain ns where ns: "map_of graph dep = Some ns" by (auto split: option.splits)
  with 2 have IH: "(\<forall>d \<in> set ds. map_of (AList.update dep (ns @ [n]) graph) d \<noteq> None) \<and>
     (\<forall>m. map_of g' m = map_option (\<lambda>xs. xs @ replicate (count_list ds m) n)
        (map_of (AList.update dep (ns @ [n]) graph) m)) \<and>
     (\<forall>m. map_of i' m = (if m = n then Some (w + 1 + int (length ds))
        else map_of (AList.update n (w + 1) in_degree) m))"
    by simp
  then show ?case
    using ns by (auto simp: replicate_append_same[symmetric] split: if_splits)
qed

lemma build_graph_Inl:
  "build_graph cs g i = Inl e \<Longrightarrow> (\<And>c. c \<in> set cs \<Longrightarrow> map_of i (r_name c) \<noteq> None) \<Longrightarrow>
     exn_cls e = InLifecycle StartupError \<and>
     (\<exists>c \<in> set cs. \<exists>d \<in> set (r_dependencies c). map_of g d = None)"
proof (induction cs g i rule: build_graph.induct)
  case (1 graph in_degree)
  then show ?case by simp
next
  case (2 c cs g i)
  show ?case
  proof (cases "add_edges (r_name c) (r_dependencies c) g i")
    case (Inl e')
    with 2(2) add_edges_Inl[OF Inl] show ?thesis by auto
  next
    case (Inr gi)
    obtain g' i' where gi: "gi = (g', i')" by (cases gi)
    obtain w where w: "map_of i (r_name c) = Some w" using 2(3)[of c] by auto
    note e = add_edges_Inr[OF Inr[unfolded gi] w]
    have "exn_cls e = InLifecycle StartupError \<and>
        (\<exists>c \<in> set cs. \<exists>d \<in> set (r_dependencies c). map_of g' d = None)"
      using 2(1)[OF Inr gi[symmetric]] 2(2,3) Inr gi e by auto
    with e show ?thesis by auto
  qed
qed

lemma build_graph_Inr:
  "build_graph cs g i = Inr (g', i') \<Longrightarrow> distinct (map r_name cs) \<Longrightarrow>
   (\<And>c. c \<in> set cs \<Longrightarrow> map_of i (r_name c) \<noteq> None) \<Longrightarrow>
     (\<forall>c \<in> set cs. \<forall>d \<in> set (r_dependencies c). map_of g d \<noteq> None) \<and>
     (\<forall>m. map_of g' m = map_option (\<lambda>ns. ns @
        concat (map (\<lambda>c. replicate (count_list (r_dependencies c) m) (r_name c)) cs)) (map_of g m)) \<and>
     (\<forall>c \<in> set cs. map_of i' (r_name c) =
        Some (the (map_of i (r_name c)) + int (length (r_dependencies c)))) \<and>
     (\<forall>m. m \<notin> r_name ` set cs \<longrightarrow> map_of i' m = map_of i m)"
proof (induction cs g i rule: build_graph.induct)
  case (1 graph in_degree)
  then show ?case by (auto simp: option.map_ident_strong)
next
  case (2 c cs g i)
  obtain g1 i1 where gi: "add_edges (r_name c) (r_dependencies c) g i = Inr (g1, i1)"
    using 2(2) by (auto split: sum.splits)
  obtain w where w: "map_of i (r_name c) = Some w" using 2(4)[of c] by auto
  note e = add_edges_Inr[OF gi w]
  have IH: "(\<forall>c \<in> set cs. \<forall>d \<in> set (r_dependencies c). map_of g1 d \<noteq> None) \<and>
     (\<forall>m. map_of g' m = map_option (\<lambda>ns. ns @
        concat (map (\<lambda>c. replicate (count_list (r_dependencies c) m) (r_name c)) cs)) (map_of g1 m)) \<and>
     (\<forall>c \<in> set cs. map_of i' (r_name c) =
        Some (the (map_of i1 (r_name c)) + int (length (r_dependencies c)))) \<and>
     (\<forall>m. m \<notin> r_name ` set cs \<longrightarrow> map_of i' m = map_of i1 m)"
    using 2(1)[OF gi refl] 2(2-4) gi e by auto
  have names: "r_name c' \<noteq> r_name c" if "c' \<in> set cs" for c'
    using 2(3) that by (metis distinct.simps(2) image_eqI list.simps(9) set_map)
  have "r_name c \<notin> r_name ` set cs" using 2(3) by (metis distinct.simps(2) list.simps(9) set_map)
  then show ?case
    using IH e w names by (auto simp: option.map_comp o_def)
qed

lemma count_concat_names:
  "distinct (map r_name cs) \<Longrightarrow> b \<in> set cs \<Longrightarrow>
   count_list (concat (map (\<lambda>c. replicate (f c) (r_name c)) cs)) (r_name b) = f b"
proof (induction cs)
  case Nil
  then show ?case by simp
next
  case (Cons c cs)
  have rep: "count_list (replicate k x) y = (if x = y then k else 0)" for k :: nat and x y :: string
    by (induction k) auto
  have none: "count_list (concat (map (\<lambda>c. replicate (f c) (r_name c)) cs)) n = 0"
    if "n \<notin> r_name ` set cs" for n using that by (induction cs) (auto simp: rep)
  show ?case
    using Cons none[of "r_name c"] by (cases "b = c") (auto simp: rep)
qed

lemma concat_names_subset:
  "set (concat (map (\<lambda>c. replicate (f c) (r_name c)) cs)) \<subseteq> r_name ` set cs"
  by (induction cs) auto

lemma count_list_map_inj_on:
  "inj_on f (insert x (set xs)) \<Longrightarrow> count_list (map f xs) (f x) = count_list xs x"
  by (induction xs) (auto simp: inj_on_def)

lemma count_list_sort_key: "count_list (sort_key k xs) x = count_list xs x"
  by (metis count_mset mset_sort)

lemma components_ok_values:
  assumes "components_ok reg"
  shows "distinct (map r_name (dict_values reg))"
    and "c \<in> set (dict_values reg) \<longleftrightarrow> map_of reg (r_name c) = Some c"
    and "map_of reg n = Some c \<Longrightarrow> c \<in> set (dict_values reg) \<and> r_name c = n"
proof -
  have k: "map (\<lambda>x. r_name (snd x)) reg = map fst reg"
    using assms by (auto simp: components_ok_def dict_mem_map_of[symmetric])
  then show "distinct (map r_name (dict_values reg))"
    using assms unfolding components_ok_def dict_ok_def by (metis (no_types, lifting) map_map map_eq_conv o_apply)
  show "c \<in> set (dict_values reg) \<longleftrightarrow> map_of reg (r_name c) = Some c"
    using assms by (subst dict_values_mem) (auto simp: components_ok_def)
  show "map_of reg n = Some c \<Longrightarrow> c \<in> set (dict_values reg) \<and> r_name c = n"
    using assms by (subst dict_values_mem) (auto simp: components_ok_def)
qed

lemma map_of_names:
  "map_of (map (\<lambda>c. (r_name c, v)) cs) n = (if n \<in> r_name ` set cs then Some v else None)"
  by (induction cs) auto

text \<open>So the orchestrator's dictionaries form a dependency graph in the sense of the locale.\<close>

lemma lifecycle_graph:
  assumes ok: "components_ok reg"
    and build: "build_graph (dict_values reg) (map (\<lambda>c. (r_name c, [])) (dict_values reg))
      (map (\<lambda>c. (r_name c, 0)) (dict_values reg)) = Inr (g, i)"
  shows "dependency_graph (dict_values reg) r_name r_dependencies (neighbors reg g)"
    and "c \<in> set (dict_values reg) \<Longrightarrow>
      map_of i (r_name c) = Some (int (length (r_dependencies c)))"
proof -
  let ?cs = "dict_values reg"
  note V = components_ok_values[OF ok]
  note B = build_graph_Inr[OF build V(1)]
  have pre: "map_of (map (\<lambda>c. (r_name c, 0::int)) ?cs) (r_name c) \<noteq> None" if "c \<in> set ?cs" for c
    using that by (simp add: map_of_names del: map_map)
  note B = B[OF pre]
  let ?L = "\<lambda>m. concat (map (\<lambda>c. replicate (count_list (r_dependencies c) m) (r_name c)) ?cs)"
  have g: "map_of g (r_name c) = Some (?L (r_name c))" if "c \<in> set ?cs" for c
    using B that by (simp add: map_of_names del: map_map)
  have inL: "set (?L m) \<subseteq> r_name ` set ?cs" for m
    by (rule concat_names_subset)
  show "c \<in> set ?cs \<Longrightarrow> map_of i (r_name c) = Some (int (length (r_dependencies c)))"
    using B by (auto simp: map_of_names simp del: map_map)
  show "dependency_graph ?cs r_name r_dependencies (neighbors reg g)"
  proof
    show "distinct (map r_name ?cs)" by (rule V(1))
    show "set (r_dependencies a) \<subseteq> r_name ` set ?cs" if "a \<in> set ?cs" for a
      using B that by (fastforce simp: map_of_names simp del: map_map split: if_splits)
    fix a assume a: "a \<in> set ?cs"
    have nb: "neighbors reg g a = sort_key priority_key (map (\<lambda>n. the (map_of reg n)) (?L (r_name a)))"
      using g[OF a] by (simp add: neighbors_def)
    show "set (neighbors reg g a) \<subseteq> set ?cs"
    proof
      fix x assume "x \<in> set (neighbors reg g a)"
      then obtain n where n: "n \<in> set (?L (r_name a))" "x = the (map_of reg n)"
        unfolding nb set_sort set_map image_iff by blast
      then obtain c where "c \<in> set ?cs" "n = r_name c" using inL by blast
      with V(2) n show "x \<in> set ?cs" by simp
    qed
    fix b assume b: "b \<in> set ?cs"
    have inj: "inj_on (\<lambda>n. the (map_of reg n)) (insert (r_name b) (set (?L (r_name a))))"
      by (rule inj_on_subset[of _ "r_name ` set ?cs"]) (use V(2) b inL in \<open>auto simp: inj_on_def\<close>)
    have "count_list (neighbors reg g a) b =
        count_list (map (\<lambda>n. the (map_of reg n)) (?L (r_name a))) (the (map_of reg (r_name b)))"
      using b V(2) by (simp add: nb count_list_sort_key)
    also have "\<dots> = count_list (?L (r_name a)) (r_name b)"
      by (rule count_list_map_inj_on[OF inj])
    also have "\<dots> = count_list (r_dependencies b) (r_name a)"
      by (rule count_concat_names[OF V(1) b])
    finally show "count_list (neighbors reg g a) b = count_list (r_dependencies b) (r_name a)" .
  qed
qed

section \<open>Hooks\<close>

text \<open>\<open>'boot' in hook_name or 'start' in hook_name\<close> picks the timeout.\<close>

definition hook_timeout :: "'s registration \<Rightarrow> string \<Rightarrow> nat option" where
  "hook_timeout c hook_name =
     (if contains ''boot'' hook_name \<or> contains ''start'' hook_name then r_startup_timeout c
      else if contains ''stop'' hook_name \<or> contains ''shutdown'' hook_name
      then r_shutdown_timeout c else None)"

definition timed_out_msg :: "'s registration \<Rightarrow> string \<Rightarrow> string" where
  "timed_out_msg c hook_name =
     ''Component '' @ quoted (r_name c) @ '' timed out during '' @ quoted hook_name @ ''.''"

text \<open>
  \<open>asyncio.wait_for\<close> cancels a hook that takes longer than a timeout that is set and not zero;
  a \<open>TimeoutError\<close>, also one the hook raises itself, is raised again with the component's name.
\<close>

definition execute_hook :: "'s registration \<Rightarrow> string \<Rightarrow> ('s lifecycle, unit) act" where
  "execute_hook c hook_name lc = (case r_instance c hook_name of
     NoHook \<Rightarrow> (Inr (), lc)
   | SyncHook \<Rightarrow> (Inl (Exn (Py PyTypeError) (''Lifecycle hook '' @ quoted hook_name @ '' on '' @
       quoted (r_name c) @ '' must be an async function.'')), lc)
   | AsyncHook tk bd cn \<Rightarrow>
       (let lc1 = lc\<lparr>lc_hooks := lc_hooks lc @ [(r_name c, hook_name)]\<rparr>;
            overrun = (case hook_timeout c hook_name of None \<Rightarrow> False
              | Some t \<Rightarrow> t \<noteq> 0 \<and> t < tk (lc_env lc)) in
        if overrun
        then (Inl (Exn (Py PyTimeoutError) (timed_out_msg c hook_name)),
              lc1\<lparr>lc_env := cn (lc_env lc)\<rparr>)
        else (case bd (lc_env lc) of
           (Inr u, env) \<Rightarrow> (Inr (), lc1\<lparr>lc_env := env\<rparr>)
         | (Inl e, env) \<Rightarrow>
             (Inl (if exn_cls e = Py PyTimeoutError
                   then Exn (Py PyTimeoutError) (timed_out_msg c hook_name) else e),
              lc1\<lparr>lc_env := env\<rparr>))))"

fun execute_hooks :: "'s registration \<Rightarrow> string list \<Rightarrow> ('s lifecycle, unit) act" where
  "execute_hooks c [] lc = (Inr (), lc)"
| "execute_hooks c (h # hs) lc = (case execute_hook c h lc of
     (Inl e, lc') \<Rightarrow> (Inl e, lc')
   | (Inr u, lc') \<Rightarrow> execute_hooks c hs lc')"

section \<open>Startup phases\<close>

text \<open>One component of a rollback; any failure is recorded and swallowed.\<close>

definition rollback_one :: "string \<Rightarrow> string \<Rightarrow> 's lifecycle \<Rightarrow> 's lifecycle" where
  "rollback_one phase n lc = (case map_of (lc_components lc) n of
     None \<Rightarrow> lc
   | Some c \<Rightarrow>
     (if phase = ''start'' then
        (case execute_hooks c [''before_stop'', ''stop'', ''after_stop'']
                (health_shutting_down n ''Rolling back start'' lc) of
           (Inr u, lc') \<Rightarrow> health_stopped n [] lc'
         | (Inl e, lc') \<Rightarrow> health_failed n (''Rollback failed: '' @ exn_msg e) lc')
      else if phase = ''boot'' then
        (case execute_hooks c [''before_shutdown'', ''shutdown'', ''after_shutdown'']
                (health_shutting_down n ''Rolling back boot'' lc) of
           (Inr u, lc') \<Rightarrow> health_stopped n [] lc'
         | (Inl e, lc') \<Rightarrow> health_failed n (''Rollback failed: '' @ exn_msg e) lc')
      else lc))"

definition rollback_started :: "string list \<Rightarrow> string \<Rightarrow> 's lifecycle \<Rightarrow> 's lifecycle" where
  "rollback_started started phase lc = fold (rollback_one phase) (rev started) lc"

fun startup_loop ::
  "string \<Rightarrow> string list \<Rightarrow> component_state \<Rightarrow> component_state \<Rightarrow> 's registration list \<Rightarrow>
   string list \<Rightarrow> 's lifecycle \<Rightarrow> startup_report \<times> 's lifecycle" where
  "startup_loop phase hooks in_progress success [] started lc =
     (\<lparr>sr_success = True, sr_started = started, sr_failed = None, sr_error = None\<rparr>, lc)"
| "startup_loop phase hooks in_progress success (c # cs) started lc =
     (if \<not> r_enabled c then startup_loop phase hooks in_progress success cs started lc
      else
        (case execute_hooks c hooks (update_state (r_name c) in_progress [] lc) of
           (Inr u, lc') \<Rightarrow> startup_loop phase hooks in_progress success cs
              (started @ [r_name c]) (update_state (r_name c) success [] lc')
         | (Inl e, lc') \<Rightarrow>
             (let lc'' = health_failed (r_name c) (exn_msg e) lc' in
              if r_critical c
              then (\<lparr>sr_success = False, sr_started = started, sr_failed = Some (r_name c),
                      sr_error = Some (exn_msg e)\<rparr>, rollback_started started phase lc'')
              else startup_loop phase hooks in_progress success cs started lc'')))"

definition run_startup_phase ::
  "string \<Rightarrow> string list \<Rightarrow> component_state \<Rightarrow> component_state \<Rightarrow> 's lifecycle \<Rightarrow>
   startup_report \<times> 's lifecycle" where
  "run_startup_phase phase hooks in_progress success lc =
     (case execution_order (lc_components lc) of
        Inl e \<Rightarrow> (\<lparr>sr_success = False, sr_started = [], sr_failed = None,
                   sr_error = Some (exn_msg e)\<rparr>, lc)
      | Inr order \<Rightarrow> startup_loop phase hooks in_progress success order [] lc)"

definition boot :: "'s lifecycle \<Rightarrow> startup_report \<times> 's lifecycle" where
  "boot = run_startup_phase ''boot'' [''before_boot'', ''boot'', ''after_boot''] BOOTING BOOTED"

definition start :: "'s lifecycle \<Rightarrow> startup_report \<times> 's lifecycle" where
  "start = run_startup_phase ''start'' [''before_start'', ''start'', ''after_start'']
     STARTING RUNNING"

section \<open>Shutdown phases\<close>

fun shutdown_loop ::
  "string \<Rightarrow> string list \<Rightarrow> component_state \<Rightarrow> component_state \<Rightarrow> 's registration list \<Rightarrow>
   string list \<Rightarrow> (string, string) pydict \<Rightarrow> 's lifecycle \<Rightarrow> shutdown_report \<times> 's lifecycle" where
  "shutdown_loop phase hooks in_progress success [] stopped errors lc =
     (\<lparr>sd_success = (length errors = 0), sd_stopped = stopped, sd_errors = errors\<rparr>, lc)"
| "shutdown_loop phase hooks in_progress success (c # cs) stopped errors lc =
     (if \<not> r_enabled c
      then shutdown_loop phase hooks in_progress success cs stopped errors lc
      else
        (case execute_hooks c hooks (update_state (r_name c) in_progress [] lc) of
           (Inr u, lc') \<Rightarrow> shutdown_loop phase hooks in_progress success cs
              (stopped @ [r_name c]) errors (update_state (r_name c) success [] lc')
         | (Inl e, lc') \<Rightarrow> shutdown_loop phase hooks in_progress success cs stopped
              (AList.update (r_name c) (exn_msg e) errors)
              (health_failed (r_name c) (''Failed to '' @ phase @ '': '' @ exn_msg e) lc')))"

definition shutdown_order :: "'s components \<Rightarrow> 's registration list" where
  "shutdown_order reg = rev (case execution_order reg of
     Inr order \<Rightarrow> order
   | Inl e \<Rightarrow> sort_key priority_key (dict_values reg))"

definition run_shutdown_phase ::
  "string \<Rightarrow> string list \<Rightarrow> component_state \<Rightarrow> component_state \<Rightarrow> 's lifecycle \<Rightarrow>
   shutdown_report \<times> 's lifecycle" where
  "run_shutdown_phase phase hooks in_progress success lc =
     shutdown_loop phase hooks in_progress success (shutdown_order (lc_components lc)) [] [] lc"

definition stop :: "'s lifecycle \<Rightarrow> shutdown_report \<times> 's lifecycle" where
  "stop = run_shutdown_phase ''stop'' [''before_stop'', ''stop'', ''after_stop'']
     STOPPING STOPPED"

definition shutdown :: "'s lifecycle \<Rightarrow> shutdown_report \<times> 's lifecycle" where
  "shutdown = run_shutdown_phase ''shutdown''
     [''before_shutdown'', ''shutdown'', ''after_shutdown''] SHUTTING_DOWN STOPPED"

definition restart :: "'s lifecycle \<Rightarrow> bool \<times> 's lifecycle" where
  "restart lc = (case stop lc of (rep, lc1) \<Rightarrow>
     if \<not> sd_success rep then (False, lc1)
     else (case start lc1 of (rep2, lc2) \<Rightarrow> (sr_success rep2, lc2)))"

section \<open>The manager and the bootstrap\<close>

definition new_manager :: "'s \<Rightarrow> 's lifecycle" where
  "new_manager env = \<lparr>lc_components = [], lc_health = [], lc_env = env, lc_hooks = []\<rparr>"

definition manager_register :: "'s registration \<Rightarrow> ('s lifecycle, unit) act" where
  "manager_register r lc = (case reg_register r (lc_components lc) of
     Inl e \<Rightarrow> (Inl e, lc)
   | Inr d \<Rightarrow> (Inr (), health_created (r_name r) [] (lc\<lparr>lc_components := d\<rparr>)))"

definition manager_remove :: "string \<Rightarrow> 's lifecycle \<Rightarrow> 's lifecycle" where
  "manager_remove n lc = lc\<lparr>lc_components := reg_remove n (lc_components lc)\<rparr>"

definition manager_update :: "string \<Rightarrow> reg_kwargs \<Rightarrow> ('s lifecycle, unit) act" where
  "manager_update n k lc = (case reg_update n k (lc_components lc) of
     Inl e \<Rightarrow> (Inl e, lc)
   | Inr d \<Rightarrow> (Inr (), lc\<lparr>lc_components := d\<rparr>))"

definition default_registration ::
  "string \<Rightarrow> (string \<Rightarrow> 's hook) \<Rightarrow> string list option \<Rightarrow> int \<Rightarrow> 's registration" where
  "default_registration n inst dependencies priority =
     \<lparr>r_name = n, r_instance = inst,
      r_dependencies = (case dependencies of None \<Rightarrow> [] | Some ds \<Rightarrow> ds),
      r_priority = priority, r_enabled = True, r_critical = True,
      r_startup_timeout = None, r_shutdown_timeout = None\<rparr>"

text \<open>\<open>Bootstrap.build\<close> registers the four kernel components; \<open>inst\<close> gives their instances.\<close>

definition bootstrap_components :: "(string \<Rightarrow> string \<Rightarrow> 's hook) \<Rightarrow> 's registration list" where
  "bootstrap_components inst =
     [default_registration ''Configuration'' (inst ''Configuration'') None 10,
      default_registration ''Logging'' (inst ''Logging'') (Some [''Configuration'']) 20,
      default_registration ''Container'' (inst ''Container'') (Some [''Logging'']) 30,
      default_registration ''EventBus'' (inst ''EventBus'') (Some [''Container'']) 40]"

fun register_each :: "'s registration list \<Rightarrow> ('s lifecycle, unit) act" where
  "register_each [] lc = (Inr (), lc)"
| "register_each (r # rs) lc = (case manager_register r lc of
     (Inl e, lc') \<Rightarrow> (Inl e, lc') | (Inr u, lc') \<Rightarrow> register_each rs lc')"

definition bootstrap_build ::
  "(string \<Rightarrow> string \<Rightarrow> 's hook) \<Rightarrow> 's \<Rightarrow> (pyexn + unit) \<times> 's lifecycle" where
  "bootstrap_build inst env = register_each (bootstrap_components inst) (new_manager env)"

section \<open>The order is topological\<close>

lemma order_facts:
  assumes ok: "components_ok reg"
  shows "case execution_order reg of
      Inr order \<Rightarrow> mset order = mset (dict_values reg) \<and> topo r_name r_dependencies order \<and>
        greedy r_name r_dependencies priority_key (dict_values reg) order
    | Inl e \<Rightarrow> exn_cls e = InLifecycle StartupError \<and>
        \<not> (\<exists>order. mset order = mset (dict_values reg) \<and> topo r_name r_dependencies order)"
proof -
  let ?cs = "dict_values reg"
  note V = components_ok_values[OF ok]
  show ?thesis
  proof (cases "build_graph ?cs (map (\<lambda>c. (r_name c, [])) ?cs) (map (\<lambda>c. (r_name c, 0)) ?cs)")
    case (Inl e)
    have "exn_cls e = InLifecycle StartupError \<and> (\<exists>c \<in> set ?cs. \<exists>d \<in> set (r_dependencies c).
        map_of (map (\<lambda>c. (r_name c, [] :: string list)) ?cs) d = None)"
      by (rule build_graph_Inl[OF Inl]) (simp add: map_of_names del: map_map)
    then obtain c d where c: "exn_cls e = InLifecycle StartupError" "c \<in> set ?cs"
      "d \<in> set (r_dependencies c)" "d \<notin> r_name ` set ?cs"
      by (auto simp: map_of_names simp del: map_map split: if_splits)
    have "\<not> topo r_name r_dependencies order" if "mset order = mset ?cs" for order
    proof
      assume t: "topo r_name r_dependencies order"
      from that have so: "set order = set ?cs" by (metis set_mset_mset)
      with c(2) obtain i where i: "i < length order" "order ! i = c" by (metis in_set_conv_nth)
      with t c(3) have "d \<in> r_name ` set (take i order)" by (auto simp: topo_def)
      with so c(4) show False using set_take_subset[of i order] by blast
    qed
    with c(1) Inl show ?thesis by (auto simp: execution_order_def Let_def)
  next
    case (Inr gi)
    obtain g i where gi: "gi = (g, i)" by (cases gi)
    note B = Inr[unfolded gi]
    note G = lifecycle_graph[OF ok B]
    let ?zero = "sort_key priority_key (filter (\<lambda>c. map_of i (r_name c) = Some 0) ?cs)"
    have "distinct ?cs" using V(1) unfolding distinct_map by blast
    then have inv: "dependency_graph.loop_inv ?cs r_name r_dependencies priority_key ?zero i []"
      by (intro dependency_graph.loop_inv_init[OF G(1)]) (auto simp: G(2) simp del: set_map)
    have mode: "(None :: ('a registration \<Rightarrow> int \<times> string) option) = Some priority_key \<or>
        ((None :: ('a registration \<Rightarrow> int \<times> string) option) = None \<and>
         Some priority_key = Some priority_key \<and> sorted (map priority_key ?zero))"
      by simp
    note K = dependency_graph.kahn_correct[OF G(1) inv mode]
    let ?order = "kahn r_name None (Some priority_key) (neighbors reg g) ?zero i []"
    have "execution_order reg = (if length ?order \<noteq> length ?cs
        then Inl (startup_error ''Circular dependency detected in component registration'')
        else Inr ?order)"
      by (simp add: execution_order_def Let_def B del: map_map)
    then show ?thesis
      using K(3-6) by (simp add: startup_error_def del: set_map)
  qed
qed

section \<open>What a phase does\<close>

text \<open>
  The reference for all phases, on the state of the component instances alone: \<open>hook_run\<close> calls
  the hooks of one component up to the first that raises, \<open>hook_attempts\<close> does so for each component
  of a list, whatever happened to the ones before. An attempt is the component, the hooks that
  were called on it and the exception, if any.
\<close>

type_synonym 's attempt = "'s registration \<times> string list \<times> pyexn option"

fun hook_run :: "'s registration \<Rightarrow> string list \<Rightarrow> 's \<Rightarrow> string list \<times> pyexn option \<times> 's" where
  "hook_run c [] s = ([], None, s)"
| "hook_run c (h # hs) s = (case r_instance c h of
     NoHook \<Rightarrow> hook_run c hs s
   | SyncHook \<Rightarrow> ([], Some (Exn (Py PyTypeError) (''Lifecycle hook '' @ quoted h @ '' on '' @
       quoted (r_name c) @ '' must be an async function.'')), s)
   | AsyncHook tk bd cn \<Rightarrow>
       (if \<exists>t \<in> set_option (hook_timeout c h). 0 < t \<and> t < tk s
        then ([h], Some (Exn (Py PyTimeoutError) (timed_out_msg c h)), cn s)
        else case bd s of
            (Inl e, s') \<Rightarrow> ([h], Some (if exn_cls e = Py PyTimeoutError
               then Exn (Py PyTimeoutError) (timed_out_msg c h) else e), s')
          | (Inr u, s') \<Rightarrow> (case hook_run c hs s' of (ks, r) \<Rightarrow> (h # ks, r))))"

primrec hook_attempts :: "string list \<Rightarrow> 's registration list \<Rightarrow> 's \<Rightarrow> 's attempt list \<times> 's" where
  "hook_attempts hks [] s = ([], s)"
| "hook_attempts hks (c # cs) s = (case hook_run c hks s of (hs, e, s1) \<Rightarrow>
     case hook_attempts hks cs s1 of (as, s2) \<Rightarrow> ((c, hs, e) # as, s2))"

definition hook_calls :: "'s attempt list \<Rightarrow> (string \<times> string) list" where
  "hook_calls as = concat (map (\<lambda>(c, hs, e). map (Pair (r_name c)) hs) as)"

definition went_well :: "'s attempt list \<Rightarrow> 's registration list" where
  "went_well as = map fst (filter (\<lambda>(c, hs, e). e = None) as)"

definition hook_errors :: "'s attempt list \<Rightarrow> (string \<times> string) list" where
  "hook_errors as = concat (map (\<lambda>(c, hs, e). case e of None \<Rightarrow> [] | Some x \<Rightarrow> [(r_name c, exn_msg x)]) as)"

definition fatal_attempt :: "'s attempt \<Rightarrow> bool" where
  "fatal_attempt = (\<lambda>(c, hs, e). e \<noteq> None \<and> r_critical c)"

text \<open>
  The manager has attempted the components \<open>cs\<close>, one after the other: exactly these hooks have
  been called, each component is in the state \<open>ok\<close> or failed, no other component has changed.
\<close>

definition worked ::
  "string list \<Rightarrow> component_state \<Rightarrow> 's registration list \<Rightarrow> 's attempt list \<Rightarrow>
   's lifecycle \<Rightarrow> 's lifecycle \<Rightarrow> bool" where
  "worked hks ok cs as lc lc' \<longleftrightarrow> hook_attempts hks cs (lc_env lc) = (as, lc_env lc') \<and>
     lc_hooks lc' = lc_hooks lc @ hook_calls as \<and> lc_components lc' = lc_components lc \<and>
     (\<forall>(c, hs, e) \<in> set as. state_of (r_name c) lc' = Some (if e = None then ok else FAILED)) \<and>
     (\<forall>n. n \<notin> r_name ` set cs \<longrightarrow> state_of n lc' = state_of n lc)"

lemma attempt_lists [simp]:
  "hook_calls [] = []" "went_well [] = []" "hook_errors [] = []"
  "hook_calls (as @ bs) = hook_calls as @ hook_calls bs"
  "went_well (as @ bs) = went_well as @ went_well bs"
  "hook_errors (as @ bs) = hook_errors as @ hook_errors bs"
  "hook_calls ((c, hs, e) # as) = map (Pair (r_name c)) hs @ hook_calls as"
  "went_well ((c, hs, e) # as) = (if e = None then [c] else []) @ went_well as"
  "hook_errors ((c, hs, e) # as) = (case e of None \<Rightarrow> [] | Some x \<Rightarrow> [(r_name c, exn_msg x)]) @ hook_errors as"
  "fatal_attempt (c, hs, e) \<longleftrightarrow> e \<noteq> None \<and> r_critical c"
  by (simp_all add: hook_calls_def went_well_def hook_errors_def fatal_attempt_def)

lemma attempts_append:
  "hook_attempts hks (cs @ ds) s = (case hook_attempts hks cs s of (as, s1) \<Rightarrow>
     case hook_attempts hks ds s1 of (bs, s2) \<Rightarrow> (as @ bs, s2))"
  by (induction cs arbitrary: s) (simp_all split: prod.split)

lemma attempts_map_fst: "hook_attempts hks cs s = (as, s') \<Longrightarrow> map fst as = cs"
  by (induction cs arbitrary: s as) (auto split: prod.splits)

lemma state_of_env [simp]: "state_of n (lc\<lparr>lc_hooks := hs, lc_env := s\<rparr>) = state_of n lc"
  by (simp add: state_of_def get_health_def)

lemma execute_hooks_run:
  "execute_hooks c hks lc = (case hook_run c hks (lc_env lc) of (hs, e, s) \<Rightarrow>
     ((case e of None \<Rightarrow> Inr () | Some x \<Rightarrow> Inl x),
      lc\<lparr>lc_hooks := lc_hooks lc @ map (Pair (r_name c)) hs, lc_env := s\<rparr>))"
proof (induction c hks lc rule: execute_hooks.induct)
  case (1 c lc)
  then show ?case by simp
next
  case (2 c h hs lc)
  show ?case
  proof (cases "r_instance c h")
    case (AsyncHook tk bd cn)
    show ?thesis
    proof (cases "\<exists>t \<in> set_option (hook_timeout c h). 0 < t \<and> t < tk (lc_env lc)")
      case True
      with AsyncHook show ?thesis
        by (auto simp: execute_hook_def Let_def)
    next
      case False
      then have late: "(case hook_timeout c h of None \<Rightarrow> False | Some t \<Rightarrow> t \<noteq> 0 \<and> t < tk (lc_env lc))
          = False"
        by (auto split: option.split)
      from False have run: "(\<exists>t \<in> set_option (hook_timeout c h). 0 < t \<and> t < tk (lc_env lc)) = False"
        by simp
      obtain r s1 where b: "bd (lc_env lc) = (r, s1)" by fastforce
      show ?thesis
      proof (cases r)
        case (Inl e)
        with AsyncHook b show ?thesis
          by (simp only: execute_hook_def execute_hooks.simps hook_run.simps hook.case run late)
            (simp add: Let_def)
      next
        case (Inr u)
        have e: "execute_hook c h lc =
            (Inr (), lc\<lparr>lc_hooks := lc_hooks lc @ [(r_name c, h)], lc_env := s1\<rparr>)"
          using AsyncHook b Inr by (simp only: execute_hook_def hook.case late) (simp add: Let_def)
        from 2[OF e[symmetric] refl] AsyncHook b Inr e show ?thesis
          by (simp only: execute_hooks.simps hook_run.simps hook.case run) (simp split: prod.split)
      qed
    qed
  qed (use 2 in \<open>simp_all add: execute_hook_def\<close>)
qed

lemma worked_none: "worked hks ok [] [] lc lc"
  by (simp add: worked_def)

lemma worked_one:
  assumes "hook_run c hks (lc_env lc) = (hs, e, s)"
  shows "worked hks ok [c] [(c, hs, e)] lc (update_state (r_name c) (if e = None then ok else FAILED) d
     ((update_state (r_name c) ip d0 lc)\<lparr>lc_hooks := lc_hooks lc @ map (Pair (r_name c)) hs, lc_env := s\<rparr>))"
  using assms by (simp add: worked_def)

lemma worked_fst: "worked hks ok cs as lc lc' \<Longrightarrow> map fst as = cs"
  unfolding worked_def by (blast dest: attempts_map_fst)

lemma worked_components: "worked hks ok cs as lc lc' \<Longrightarrow> lc_components lc' = lc_components lc"
  by (simp add: worked_def)

lemma worked_append:
  assumes "worked hks ok cs as lc lc1" "worked hks ok ds bs lc1 lc2"
    and "r_name ` set cs \<inter> r_name ` set ds = {}"
  shows "worked hks ok (cs @ ds) (as @ bs) lc lc2"
proof -
  have "r_name c \<notin> r_name ` set ds" if "(c, hs, e) \<in> set as" for c hs e
    using that worked_fst[OF assms(1), symmetric] assms(3) by force
  with assms show ?thesis by (auto simp: worked_def attempts_append image_Un)
qed

lemma succeeded_subset: "set (went_well as) \<subseteq> set (map fst as)"
  unfolding went_well_def set_map by (intro image_mono) auto

lemma distinct_succeeded: "distinct (map r_name (map fst as)) \<Longrightarrow> distinct (map r_name (went_well as))"
  unfolding went_well_def map_map by (rule distinct_map_filter)

text \<open>The hooks that undo a phase.\<close>

definition undo_hooks :: "string \<Rightarrow> string list" where
  "undo_hooks phase = (if phase = ''start'' then [''before_stop'', ''stop'', ''after_stop'']
     else [''before_shutdown'', ''shutdown'', ''after_shutdown''])"

lemma rollback_one_worked:
  assumes "phase = ''start'' \<or> phase = ''boot''" "map_of (lc_components lc) (r_name c) = Some c"
    and "hook_run c (undo_hooks phase) (lc_env lc) = (hs, e, s)"
  shows "worked (undo_hooks phase) STOPPED [c] [(c, hs, e)] lc (rollback_one phase (r_name c) lc)"
proof -
  obtain d0 d where "rollback_one phase (r_name c) lc =
      update_state (r_name c) (if e = None then STOPPED else FAILED) d
        ((update_state (r_name c) SHUTTING_DOWN d0 lc)
          \<lparr>lc_hooks := lc_hooks lc @ map (Pair (r_name c)) hs, lc_env := s\<rparr>)"
    using assms by (fastforce simp: rollback_one_def undo_hooks_def execute_hooks_run health_defs
        simp del: execute_hooks.simps hook_run.simps split: option.splits if_splits)
  with worked_one[OF assms(3), of STOPPED] show ?thesis by simp
qed

lemma rollback_worked:
  assumes "phase = ''start'' \<or> phase = ''boot''"
  shows "distinct (map r_name cs) \<Longrightarrow> \<forall>c \<in> set cs. map_of (lc_components lc) (r_name c) = Some c \<Longrightarrow>
    \<exists>as. worked (undo_hooks phase) STOPPED cs as lc (fold (rollback_one phase) (map r_name cs) lc)"
proof (induction cs arbitrary: lc)
  case Nil
  then show ?case by (auto intro: worked_none)
next
  case (Cons c cs)
  obtain hs e s where h: "hook_run c (undo_hooks phase) (lc_env lc) = (hs, e, s)"
    using prod_cases3 by blast
  have one: "worked (undo_hooks phase) STOPPED [c] [(c, hs, e)] lc (rollback_one phase (r_name c) lc)"
    using Cons.prems(2) by (intro rollback_one_worked[OF assms _ h]) simp
  with Cons obtain as where "worked (undo_hooks phase) STOPPED cs as (rollback_one phase (r_name c) lc)
      (fold (rollback_one phase) (map r_name cs) (rollback_one phase (r_name c) lc))"
    by (metis worked_components distinct.simps(2) list.set_intros(2) list.simps(9))
  from worked_append[OF one this] Cons.prems(1) show ?case by auto
qed

text \<open>The loops of the phases, over the enabled components.\<close>

lemma attempt_exists:
  assumes "execute_hooks c hks (update_state (r_name c) ip [] lc) = (r, lc1)"
  shows "\<exists>hs x. r = (case x of None \<Rightarrow> Inr () | Some e \<Rightarrow> Inl e) \<and>
    (\<forall>d ok. worked hks ok [c] [(c, hs, x)] lc
      (update_state (r_name c) (if x = None then ok else FAILED) d lc1))"
proof -
  obtain hs e s where h: "hook_run c hks (lc_env lc) = (hs, e, s)" using prod_cases3 by blast
  with assms worked_one[OF h] show ?thesis
    by (intro exI[of _ hs] exI[of _ e]) (auto simp: execute_hooks_run)
qed

lemma shutdown_loop_worked:
  "shutdown_loop phase hks ip ok cs stopped errors lc = (rep, lc') \<Longrightarrow>
   distinct (map r_name cs) \<Longrightarrow> fst ` set errors \<inter> r_name ` set cs = {} \<Longrightarrow>
   \<exists>as. worked hks ok (filter r_enabled cs) as lc lc' \<and>
     rep = \<lparr>sd_success = (errors @ hook_errors as = []),
        sd_stopped = stopped @ map r_name (went_well as), sd_errors = errors @ hook_errors as\<rparr>"
proof (induction phase hks ip ok cs stopped errors lc arbitrary: rep lc' rule: shutdown_loop.induct)
  case (1 phase hks ip ok stopped errors lc)
  then show ?case by (auto intro!: exI[of _ "[]"] worked_none)
next
  case (2 phase hks ip ok c cs stopped errors lc)
  from 2(5) have nin: "r_name ` set [c] \<inter> r_name ` set (filter r_enabled cs) = {}"
    and dist: "distinct (map r_name cs)" by auto
  show ?case
  proof (cases "r_enabled c")
    case False
    with 2 show ?thesis by simp
  next
    case True
    obtain r lc1 where e: "execute_hooks c hks (update_state (r_name c) ip [] lc) = (r, lc1)"
      by fastforce
    from attempt_exists[OF e] obtain hs x where a: "r = (case x of None \<Rightarrow> Inr () | Some x \<Rightarrow> Inl x)"
      "\<And>d ok. worked hks ok [c] [(c, hs, x)] lc
        (update_state (r_name c) (if x = None then ok else FAILED) d lc1)"
      by metis
    show ?thesis
    proof (cases x)
      case None
      then have r: "r = Inr ()" using a by simp
      have "shutdown_loop phase hks ip ok cs (stopped @ [r_name c]) errors
          (update_state (r_name c) ok [] lc1) = (rep, lc')"
        using 2(4) True e r by simp
      from 2(3)[OF _ e[symmetric] r this dist] True 2(6) obtain as where
        "worked hks ok (filter r_enabled cs) as (update_state (r_name c) ok [] lc1) lc'"
        "rep = \<lparr>sd_success = (errors @ hook_errors as = []),
          sd_stopped = (stopped @ [r_name c]) @ map r_name (went_well as), sd_errors = errors @ hook_errors as\<rparr>"
        by auto
      with worked_append[OF a(2)[of ok "[]", unfolded None] _ nin] True show ?thesis
        by (intro exI[of _ "[(c, hs, None)] @ as"]) simp
    next
      case (Some y)
      then have r: "r = Inl y" using a by simp
      let ?lc = "health_failed (r_name c) (''Failed to '' @ phase @ '': '' @ exn_msg y) lc1"
      have "AList.update (r_name c) (exn_msg y) errors = errors @ [(r_name c, exn_msg y)]"
        using 2(6) by (intro update_new_key) auto
      with 2(4) True e r have "shutdown_loop phase hks ip ok cs stopped
          (errors @ [(r_name c, exn_msg y)]) ?lc = (rep, lc')" by simp
      with 2(2)[OF _ e[symmetric] r _ dist, of rep lc'] True 2(5,6) 2(4) e r obtain as where
        "worked hks ok (filter r_enabled cs) as ?lc lc'"
        "rep = \<lparr>sd_success = ((errors @ [(r_name c, exn_msg y)]) @ hook_errors as = []),
          sd_stopped = stopped @ map r_name (went_well as),
          sd_errors = (errors @ [(r_name c, exn_msg y)]) @ hook_errors as\<rparr>"
        by (auto simp: update_new_key)
      with worked_append[OF a(2)[of ok, unfolded Some] _ nin] True show ?thesis
        by (intro exI[of _ "[(c, hs, Some y)] @ as"]) (simp add: health_defs)
    qed
  qed
qed

definition startup_result ::
  "string \<Rightarrow> string list \<Rightarrow> component_state \<Rightarrow> 's registration list \<Rightarrow> string list \<Rightarrow>
   's lifecycle \<Rightarrow> startup_report \<Rightarrow> 's lifecycle \<Rightarrow> bool" where
  "startup_result phase hks ok cs started lc rep lc' \<longleftrightarrow>
   (\<exists>as. worked hks ok (filter r_enabled cs) as lc lc' \<and> \<not> list_ex fatal_attempt as \<and>
      rep = \<lparr>sr_success = True, sr_started = started @ map r_name (went_well as),
        sr_failed = None, sr_error = None\<rparr>) \<or>
   (\<exists>xs c ys as hs e lc1. filter r_enabled cs = xs @ c # ys \<and>
      worked hks ok (xs @ [c]) (as @ [(c, hs, Some e)]) lc lc1 \<and> r_critical c \<and> \<not> list_ex fatal_attempt as \<and>
      lc' = rollback_started (started @ map r_name (went_well as)) phase lc1 \<and>
      rep = \<lparr>sr_success = False, sr_started = started @ map r_name (went_well as),
        sr_failed = Some (r_name c), sr_error = Some (exn_msg e)\<rparr>)"

lemma startup_loop_worked:
  "startup_loop phase hks ip ok cs started lc = (rep, lc') \<Longrightarrow> distinct (map r_name cs) \<Longrightarrow>
   startup_result phase hks ok cs started lc rep lc'"
proof (induction phase hks ip ok cs started lc arbitrary: rep lc' rule: startup_loop.induct)
  case (1 phase hks ip ok started lc)
  then show ?case by (auto simp: startup_result_def intro!: exI[of _ "[]"] worked_none)
next
  case (2 phase hks ip ok c cs started lc)
  from 2(5) have nin: "r_name ` set [c] \<inter> r_name ` set (filter r_enabled cs) = {}"
    and dist: "distinct (map r_name cs)" by auto
  show ?case
  proof (cases "r_enabled c")
    case False
    with 2 show ?thesis by (simp add: startup_result_def)
  next
    case True
    obtain r lc1 where e: "execute_hooks c hks (update_state (r_name c) ip [] lc) = (r, lc1)"
      by fastforce
    from attempt_exists[OF e] obtain hs x where a: "r = (case x of None \<Rightarrow> Inr () | Some x \<Rightarrow> Inl x)"
      "\<And>d ok. worked hks ok [c] [(c, hs, x)] lc
        (update_state (r_name c) (if x = None then ok else FAILED) d lc1)"
      by metis
    let ?lc = "update_state (r_name c) (if x = None then ok else FAILED)
      (case x of None \<Rightarrow> [] | Some y \<Rightarrow> exn_msg y) lc1"
    let ?started = "started @ map r_name (went_well [(c, hs, x)])"
    have more: "filter r_enabled (c # cs) = c # filter r_enabled cs" using True by simp
    show ?thesis
    proof (cases "fatal_attempt (c, hs, x)")
      case True
      then obtain y where y: "x = Some y" "r_critical c" by auto
      then have r: "r = Inl y" using a by simp
      from 2(4) \<open>r_enabled c\<close> e r y have "lc' = rollback_started started phase ?lc"
        "rep = \<lparr>sr_success = False, sr_started = started, sr_failed = Some (r_name c),
           sr_error = Some (exn_msg y)\<rparr>"
        by (auto simp: health_defs)
      with a(2)[of ok "exn_msg y"] y more show ?thesis unfolding startup_result_def
        by (intro disjI2 exI[of _ "[]"] exI[of _ c] exI[of _ "filter r_enabled cs"] exI[of _ hs]
            exI[of _ y] exI[of _ ?lc]) simp
    next
      case False
      have "startup_result phase hks ok cs ?started ?lc rep lc'"
      proof (cases x)
        case None
        with a have r: "r = Inr ()"
          and eq: "?started = started @ [r_name c]" "?lc = update_state (r_name c) ok [] lc1" by simp_all
        show ?thesis
          unfolding eq by (rule 2(3)[OF _ e[symmetric] r _ dist]) (use 2(4) True e r in simp_all)
      next
        case (Some y)
        with a False have r: "r = Inl y" "\<not> r_critical c"
          and eq: "?started = started" "?lc = health_failed (r_name c) (exn_msg y) lc1"
          by (simp_all add: health_defs)
        show ?thesis
          unfolding eq by (rule 2(2)[OF _ e[symmetric] r(1) refl r(2) _ dist])
            (use 2(4) True e r in simp_all)
      qed
      from this[unfolded startup_result_def] show ?thesis
      proof (elim disjE exE conjE)
        fix as
        assume "worked hks ok (filter r_enabled cs) as ?lc lc'" "\<not> list_ex fatal_attempt as"
          "rep = \<lparr>sr_success = True, sr_started = ?started @ map r_name (went_well as),
             sr_failed = None, sr_error = None\<rparr>"
        with worked_append[OF a(2) _ nin] False more show ?thesis unfolding startup_result_def
          by (intro disjI1 exI[of _ "[(c, hs, x)] @ as"]) simp
      next
        fix xs d ys as ks y lc2
        assume A: "filter r_enabled cs = xs @ d # ys" "\<not> list_ex fatal_attempt as"
          "worked hks ok (xs @ [d]) (as @ [(d, ks, Some y)]) ?lc lc2" "r_critical d"
          "lc' = rollback_started (?started @ map r_name (went_well as)) phase lc2"
          "rep = \<lparr>sr_success = False, sr_started = ?started @ map r_name (went_well as),
             sr_failed = Some (r_name d), sr_error = Some (exn_msg y)\<rparr>"
        then have "worked hks ok ([c] @ xs @ [d]) ([(c, hs, x)] @ as @ [(d, ks, Some y)]) lc lc2"
          using nin by (intro worked_append[OF a(2)]) auto
        with A False more show ?thesis unfolding startup_result_def
          by (intro disjI2 exI[of _ "c # xs"] exI[of _ d] exI[of _ ys] exI[of _ "(c, hs, x) # as"]
              exI[of _ ks] exI[of _ y] exI[of _ lc2]) simp
      qed
    qed
  qed
qed

text \<open>The components a phase works on are all registered ones, whichever order was found.\<close>

lemma execution_order_mset:
  "components_ok reg \<Longrightarrow> execution_order reg = Inr order \<Longrightarrow> mset order = mset (dict_values reg)"
  using order_facts[of reg] by simp

lemma shutdown_order_mset:
  "components_ok reg \<Longrightarrow> mset (shutdown_order reg) = mset (dict_values reg)"
  by (auto simp: shutdown_order_def execution_order_mset split: sum.splits)

lemma distinct_names_mset:
  assumes "components_ok reg" "mset order = mset (dict_values reg)"
  shows "distinct (map r_name order)" and "set order = set (dict_values reg)"
proof -
  have "mset (map r_name order) = mset (map r_name (dict_values reg))"
    by (simp only: mset_map assms(2))
  with components_ok_values(1)[OF assms(1)] show "distinct (map r_name order)"
    by (metis mset_eq_imp_distinct_iff)
  show "set order = set (dict_values reg)" by (metis assms(2) set_mset_mset)
qed

text \<open>
  C9. The execution order of the orchestrator is exactly right: it exists if and only if the
  registered components admit an order in which each stands after its dependencies; it is then
  such an order of all components, and it always starts a component of least (priority, name)
  among those whose dependencies have been started. Otherwise (an unknown dependency, or a cycle)
  the result is a \<open>StartupError\<close>.
\<close>

theorem execution_order_correct:
  assumes ok: "components_ok reg"
  shows "case execution_order reg of
      Inr order \<Rightarrow> mset order = mset (dict_values reg) \<and> topo r_name r_dependencies order \<and>
        greedy r_name r_dependencies priority_key (dict_values reg) order
    | Inl e \<Rightarrow> exn_cls e = InLifecycle StartupError \<and>
        \<not> (\<exists>order. mset order = mset (dict_values reg) \<and> topo r_name r_dependencies order)"
  using order_facts[OF ok] .

text \<open>
  Witness data: three components with a chain of dependencies, registered in the wrong order; the
  hooks of the one named \<open>bad\<close> raise, the environment counts the hook bodies that ran.
\<close>

definition counting_hooks :: "string \<Rightarrow> string \<Rightarrow> string \<Rightarrow> nat hook" where
  "counting_hooks bad n h = (if h \<in> {''start'', ''stop''}
     then AsyncHook (\<lambda>_. 0) (\<lambda>k. (if n = bad then Inl (Exn (Py PyValueError) ''boom'') else Inr (), Suc k)) id
     else NoHook)"

definition example_lifecycle :: "string \<Rightarrow> nat lifecycle" where
  "example_lifecycle bad = snd (register_each
     [default_registration ''C'' (counting_hooks bad ''C'') (Some [''B'']) 5,
      default_registration ''B'' (counting_hooks bad ''B'') (Some [''A'']) 1,
      default_registration ''A'' (counting_hooks bad ''A'') None 9] (new_manager 0))"

lemma example_lifecycle_components:
  "lc_components (example_lifecycle bad) =
     [(''C'', default_registration ''C'' (counting_hooks bad ''C'') (Some [''B'']) 5),
      (''B'', default_registration ''B'' (counting_hooks bad ''B'') (Some [''A'']) 1),
      (''A'', default_registration ''A'' (counting_hooks bad ''A'') None 9)]"
  by (simp add: example_lifecycle_def manager_register_def new_manager_def reg_register_def
      default_registration_def health_created_def update_state_def)

lemma example_lifecycle_ok: "components_ok (lc_components (example_lifecycle bad))"
  by (auto simp: components_ok_def dict_ok_def example_lifecycle_components
      default_registration_def)

theorem execution_order_correct_witness:
  "\<exists>order. execution_order (lc_components (example_lifecycle [])) = Inr order \<and>
     map r_name order = [''A'', ''B'', ''C''] \<and> topo r_name r_dependencies order"
proof -
  obtain order where o: "execution_order (lc_components (example_lifecycle [])) = Inr order"
    "map r_name order = [''A'', ''B'', ''C'']"
    by (simp add: execution_order_def example_lifecycle_components default_registration_def
        kahn.simps resort_def neighbors_def priority_key_def Let_def)
  with execution_order_correct[OF example_lifecycle_ok[of "[]"]] show ?thesis by auto
qed

text \<open>
  The order in which a phase takes the components: the one of the dependencies, or, when there is
  none, by priority and name.
\<close>

definition starts_in :: "'s components \<Rightarrow> 's registration list \<Rightarrow> bool" where
  "starts_in reg order \<longleftrightarrow> mset order = mset (dict_values reg) \<and>
     (if \<exists>cs. mset cs = mset (dict_values reg) \<and> topo r_name r_dependencies cs
      then topo r_name r_dependencies order \<and>
        greedy r_name r_dependencies priority_key (dict_values reg) order
      else sorted (map priority_key order))"

text \<open>
  C8. Startup is all or rolled back. If there is no execution order a phase (\<open>boot\<close> or \<open>start\<close>)
  changes nothing and reports it. Otherwise the enabled components are attempted in that order,
  each with its hooks up to the first that raises. A phase that reports success has attempted all
  of them, none that raised is critical, those that did not are reported as started. A phase that
  reports a failure has stopped at the first critical component that raised: nothing of the
  components after it has been called or changed, and every component that was started, in the
  reverse order, has had its hooks for stopping called (for shutting down after a boot) and is
  \<open>STOPPED\<close>, or \<open>FAILED\<close> if one of these raised.
\<close>

theorem startup_all_or_rolled_back:
  assumes "components_ok (lc_components lc)" and "phase = ''start'' \<or> phase = ''boot''"
    and "run_startup_phase phase hks ip ok lc = (rep, lc')"
  shows "case execution_order (lc_components lc) of
      Inl e \<Rightarrow> lc' = lc \<and> rep = \<lparr>sr_success = False, sr_started = [], sr_failed = None,
        sr_error = Some (exn_msg e)\<rparr>
    | Inr order \<Rightarrow>
      if sr_success rep
      then \<exists>as. worked hks ok (filter r_enabled order) as lc lc' \<and> \<not> list_ex fatal_attempt as \<and>
        rep = \<lparr>sr_success = True, sr_started = map r_name (went_well as), sr_failed = None,
          sr_error = None\<rparr>
      else \<exists>xs c ys as hs e lc1 undone. filter r_enabled order = xs @ c # ys \<and>
        worked hks ok (xs @ [c]) (as @ [(c, hs, Some e)]) lc lc1 \<and>
        r_critical c \<and> \<not> list_ex fatal_attempt as \<and>
        worked (undo_hooks phase) STOPPED (rev (went_well as)) undone lc1 lc' \<and>
        rep = \<lparr>sr_success = False, sr_started = map r_name (went_well as),
          sr_failed = Some (r_name c), sr_error = Some (exn_msg e)\<rparr>"
proof (cases "execution_order (lc_components lc)")
  case (Inl e)
  with assms(3) show ?thesis by (simp add: run_startup_phase_def)
next
  case (Inr order)
  note D = distinct_names_mset[OF assms(1) execution_order_mset[OF assms(1) Inr]]
  have "startup_loop phase hks ip ok order [] lc = (rep, lc')"
    using assms(3) Inr by (simp add: run_startup_phase_def)
  from startup_loop_worked[OF this D(1), unfolded startup_result_def] show ?thesis
  proof (elim disjE exE conjE)
    fix xs c ys as hs e lc1
    assume A: "filter r_enabled order = xs @ c # ys" "r_critical c" "\<not> list_ex fatal_attempt as"
      "worked hks ok (xs @ [c]) (as @ [(c, hs, Some e)]) lc lc1"
      "lc' = rollback_started ([] @ map r_name (went_well as)) phase lc1"
      "rep = \<lparr>sr_success = False, sr_started = [] @ map r_name (went_well as),
        sr_failed = Some (r_name c), sr_error = Some (exn_msg e)\<rparr>"
    have as: "map fst as = xs" using worked_fst[OF A(4)] by simp
    have "distinct (map r_name (filter r_enabled order))" by (intro distinct_map_filter D)
    then have "distinct (map r_name (went_well as))"
      using A(1) as by (intro distinct_succeeded) simp
    moreover have "set (went_well as) \<subseteq> set (dict_values (lc_components lc))"
      using succeeded_subset[of as] as D(2) arg_cong[OF A(1), of set] by auto
    then have "\<forall>d \<in> set (went_well as). map_of (lc_components lc1) (r_name d) = Some d"
      using components_ok_values(2)[OF assms(1)] worked_components[OF A(4)] by auto
    ultimately obtain undone where
      "worked (undo_hooks phase) STOPPED (rev (went_well as)) undone lc1 lc'"
      using rollback_worked[OF assms(2), of "rev (went_well as)" lc1] A(5)
      by (auto simp: rollback_started_def rev_map[symmetric])
    with A Inr show ?thesis
      by (simp del: append_eq_append_conv split del: if_split)
        (intro exI[of _ xs] exI[of _ c] exI[of _ ys] exI[of _ as] exI[of _ hs] exI[of _ e]
          exI[of _ lc1] exI[of _ undone] conjI; simp)
  next
    fix as
    assume "worked hks ok (filter r_enabled order) as lc lc'" "\<not> list_ex fatal_attempt as"
      "rep = \<lparr>sr_success = True, sr_started = [] @ map r_name (went_well as), sr_failed = None,
         sr_error = None\<rparr>"
    with Inr show ?thesis by auto
  qed
qed

lemma example_execution_order:
  "execution_order (lc_components (example_lifecycle bad)) =
     Inr [default_registration ''A'' (counting_hooks bad ''A'') None 9,
       default_registration ''B'' (counting_hooks bad ''B'') (Some [''A'']) 1,
       default_registration ''C'' (counting_hooks bad ''C'') (Some [''B'']) 5]"
  by (simp add: execution_order_def example_lifecycle_components default_registration_def
      kahn.simps resort_def neighbors_def priority_key_def Let_def)

lemma example_enabled: "r_enabled (default_registration n i ds p)"
  by (simp add: default_registration_def)

lemma example_name: "r_name (default_registration n i ds p) = n"
  by (simp add: default_registration_def)

lemma example_critical: "r_critical (default_registration n i ds p)"
  by (simp add: default_registration_def)

lemma example_instance: "r_instance (default_registration n i ds p) = i"
  by (simp add: default_registration_def)

lemma example_hooks: "lc_hooks (example_lifecycle bad) = []" "lc_env (example_lifecycle bad) = 0"
  by (simp_all add: example_lifecycle_def manager_register_def new_manager_def reg_register_def
      default_registration_def health_created_def update_state_def)

lemmas example_simps = example_execution_order example_enabled example_name example_instance
  example_critical example_hooks

lemma example_order_unique:
  assumes "starts_in (lc_components (example_lifecycle bad)) order"
  shows "order = [default_registration ''A'' (counting_hooks bad ''A'') None 9,
       default_registration ''B'' (counting_hooks bad ''B'') (Some [''A'']) 1,
       default_registration ''C'' (counting_hooks bad ''C'') (Some [''B'']) 5]"
    (is "_ = ?abc")
proof -
  let ?reg = "lc_components (example_lifecycle bad)"
  have "mset ?abc = mset (dict_values ?reg) \<and> topo r_name r_dependencies ?abc"
    using order_facts[OF example_lifecycle_ok[of bad]] by (simp add: example_execution_order)
  with assms have m: "mset order = mset ?abc" and t: "topo r_name r_dependencies order"
    by (auto simp: starts_in_def split: if_splits)
  from m have "length order = length ?abc" by (rule mset_eq_length)
  then obtain x y z where o: "order = [x, y, z]" by (auto simp: length_Suc_conv numeral_3_eq_3)
  note t = t[unfolded topo_def o, rule_format]
  from t[of 0] t[of 1] t[of 2] have d: "set (r_dependencies x) \<subseteq> {}"
    "set (r_dependencies y) \<subseteq> {r_name x}" "set (r_dependencies z) \<subseteq> {r_name x, r_name y}"
    by (simp_all add: take_Cons')
  have deps: "r_dependencies (default_registration n i None p) = []"
    "r_dependencies (default_registration n i (Some ds) p) = ds" for n i ds p
    by (simp_all add: default_registration_def)
  have "mset (map r_name order) = mset (map r_name ?abc)" by (simp only: mset_map m)
  from mset_eq_imp_distinct_iff[OF this] have n: "distinct (map r_name order)"
    by (simp add: example_name)
  have "set order = set ?abc" using m by (rule mset_eq_setD)
  then have mem: "x \<in> set ?abc" "y \<in> set ?abc" "z \<in> set ?abc" unfolding o by auto
  have x: "x = ?abc ! 0" using mem(1) d(1) by (auto simp: deps)
  then have y: "y = ?abc ! 1" using mem(2) d(2) n by (auto simp: deps o example_name)
  then have "z = ?abc ! 2" using mem(3) n x by (auto simp: deps o example_name)
  with x y show ?thesis by (simp add: o)
qed

lemma example_hook_run:
  "hook_run (default_registration n (counting_hooks bad n) ds p) [h1, h, h2] k =
     (if h \<in> {''start'', ''stop''} \<and> h1 \<notin> {''start'', ''stop''} \<and> h2 \<notin> {''start'', ''stop''}
      then ([h], if n = bad then Some (Exn (Py PyValueError) ''boom'') else None, Suc k)
      else hook_run (default_registration n (counting_hooks bad n) ds p) [h1, h, h2] k)"
  by (auto simp: example_instance counting_hooks_def)

theorem startup_all_or_rolled_back_witness:
  "let (rep, lc') = start (example_lifecycle ''B'')
   in \<not> sr_success rep \<and> sr_started rep = [''A''] \<and> state_of ''A'' lc' = Some STOPPED \<and>
      lc_hooks lc' = [(''A'', ''start''), (''B'', ''start''), (''A'', ''stop'')]"
proof -
  obtain rep lc' where r: "start (example_lifecycle ''B'') = (rep, lc')" by fastforce
  have "sr_failed (fst (start (example_lifecycle ''B''))) = Some ''B''"
    by (simp add: start_def run_startup_phase_def example_simps execute_hooks_run
        example_hook_run health_defs Let_def
        del: hook_run.simps execute_hooks.simps)
  with startup_all_or_rolled_back[OF example_lifecycle_ok _ r[unfolded start_def]] r
  show ?thesis
    by (auto simp: example_simps Cons_eq_append_conv worked_def undo_hooks_def example_hook_run
        split: if_splits simp del: hook_run.simps)
qed

text \<open>
  C39. Shutdown reaches every enabled component. Whichever hooks raise, and also when the
  dependencies are broken, a phase calls the hooks of every enabled component, each up to the
  first that raises, in the reverse of the order in which components start: a dependent before
  what it depends on. A component ends in the success state, or \<open>FAILED\<close> if one of its hooks
  raised; the report has the former in the order in which they stopped, the latter with their
  messages, and success means that there are none.
\<close>

theorem shutdown_reaches_all:
  assumes "components_ok (lc_components lc)"
    and "run_shutdown_phase phase hks ip ok lc = (rep, lc')"
  shows "\<exists>order as. starts_in (lc_components lc) order \<and>
    worked hks ok (filter r_enabled (rev order)) as lc lc' \<and>
    rep = \<lparr>sd_success = (hook_errors as = []), sd_stopped = map r_name (went_well as),
      sd_errors = hook_errors as\<rparr>"
proof -
  let ?order = "rev (shutdown_order (lc_components lc))"
  note D = distinct_names_mset[OF assms(1) shutdown_order_mset[OF assms(1)]]
  have "starts_in (lc_components lc) ?order"
    using order_facts[OF assms(1)]
    by (auto simp: starts_in_def shutdown_order_def split: sum.splits)
  moreover from assms(2) have "shutdown_loop phase hks ip ok (shutdown_order (lc_components lc)) [] []
      lc = (rep, lc')" by (simp add: run_shutdown_phase_def)
  from shutdown_loop_worked[OF this D(1)] have "\<exists>as. worked hks ok (filter r_enabled (rev ?order)) as lc lc' \<and>
    rep = \<lparr>sd_success = (hook_errors as = []), sd_stopped = map r_name (went_well as),
      sd_errors = hook_errors as\<rparr>" by simp
  ultimately show ?thesis by blast
qed

theorem shutdown_reaches_all_witness:
  "let (rep, lc') = stop (example_lifecycle ''B'')
   in rep = \<lparr>sd_success = False, sd_stopped = [''C'', ''A''], sd_errors = [(''B'', ''boom'')]\<rparr> \<and>
     lc_hooks lc' = [(''C'', ''stop''), (''B'', ''stop''), (''A'', ''stop'')] \<and>
     state_of ''B'' lc' = Some FAILED"
proof -
  let ?reg = "lc_components (example_lifecycle ''B'')"
  obtain rep lc' where r: "stop (example_lifecycle ''B'') = (rep, lc')" by fastforce
  from shutdown_reaches_all[OF example_lifecycle_ok r[unfolded stop_def]] obtain order as where
    O: "starts_in ?reg order"
    and W: "worked [''before_stop'', ''stop'', ''after_stop''] STOPPED (filter r_enabled (rev order)) as
      (example_lifecycle ''B'') lc'"
    and rep: "rep = \<lparr>sd_success = (hook_errors as = []), sd_stopped = map r_name (went_well as),
      sd_errors = hook_errors as\<rparr>" by auto
  have "order = [default_registration ''A'' (counting_hooks ''B'' ''A'') None 9,
       default_registration ''B'' (counting_hooks ''B'' ''B'') (Some [''A'']) 1,
       default_registration ''C'' (counting_hooks ''B'' ''C'') (Some [''B'']) 5]"
    using O by (rule example_order_unique)
  note W = W[unfolded this worked_def]
  then have "[(default_registration ''C'' (counting_hooks ''B'' ''C'') (Some [''B'']) 5, [''stop''], None),
      (default_registration ''B'' (counting_hooks ''B'' ''B'') (Some [''A'']) 1, [''stop''],
        Some (Exn (Py PyValueError) ''boom'')),
      (default_registration ''A'' (counting_hooks ''B'' ''A'') None 9, [''stop''], None)] = as"
    by (simp add: example_simps example_hook_run del: hook_run.simps)
  from this[symmetric] W rep r show ?thesis
    by (simp add: example_simps)
qed

section \<open>The kernel graph\<close>

lemma bootstrap_registers:
  "lc_components (snd (bootstrap_build inst env)) =
     map (\<lambda>c. (r_name c, c)) (bootstrap_components inst)"
  by (simp add: bootstrap_build_def bootstrap_components_def manager_register_def new_manager_def
      reg_register_def default_registration_def health_created_def update_state_def)

lemma bootstrap_ok: "components_ok (lc_components (snd (bootstrap_build inst env)))"
  unfolding bootstrap_registers
  by (auto simp: components_ok_def dict_ok_def bootstrap_components_def default_registration_def)

definition bootstrap_succs :: "(string \<Rightarrow> string \<Rightarrow> 's hook) \<Rightarrow> 's registration \<Rightarrow> 's registration list" where
  "bootstrap_succs inst c =
     filter (\<lambda>d. r_name c \<in> set (r_dependencies d)) (bootstrap_components inst)"

interpretation kernel: dependency_graph "bootstrap_components inst" r_name r_dependencies
  "bootstrap_succs inst"
proof
  let ?cs = "bootstrap_components inst"
  show "distinct (map r_name ?cs)"
    by (simp add: bootstrap_components_def default_registration_def)
  fix a assume "a \<in> set ?cs"
  then have a: "a = ?cs ! 0 \<or> a = ?cs ! 1 \<or> a = ?cs ! 2 \<or> a = ?cs ! 3"
    by (simp add: bootstrap_components_def numeral_2_eq_2 numeral_3_eq_3)
  show "set (r_dependencies a) \<subseteq> r_name ` set ?cs"
    using a by (elim disjE) (simp_all add: bootstrap_components_def default_registration_def)
  show "set (bootstrap_succs inst a) \<subseteq> set ?cs" by (simp add: bootstrap_succs_def)
  fix b assume "b \<in> set ?cs"
  then have b: "b = ?cs ! 0 \<or> b = ?cs ! 1 \<or> b = ?cs ! 2 \<or> b = ?cs ! 3"
    by (simp add: bootstrap_components_def numeral_2_eq_2 numeral_3_eq_3)
  show "count_list (bootstrap_succs inst a) b = count_list (r_dependencies b) (r_name a)"
    using a b by (elim disjE)
      (simp_all add: bootstrap_components_def bootstrap_succs_def default_registration_def)
qed

text \<open>
  The bootstrap registers without error, and its startup order is Configuration, Logging,
  Container, EventBus, whatever the instances are.
\<close>

theorem bootstrap_order:
  "fst (bootstrap_build inst env) = Inr () \<and>
   map_sum id (map r_name) (execution_order (lc_components (snd (bootstrap_build inst env)))) =
     Inr [''Configuration'', ''Logging'', ''Container'', ''EventBus'']"
  unfolding bootstrap_registers
  by (simp add: bootstrap_build_def bootstrap_components_def manager_register_def new_manager_def
      reg_register_def health_created_def update_state_def execution_order_def
      default_registration_def kahn.simps resort_def neighbors_def priority_key_def Let_def)

end
