(* ===== verification/Events.thy ===== *)
theory Events
  imports Prelude
begin

text \<open>
  The event system (core/events) and the event classes of every package (the events.py files).
  The first part models \<open>EventBus\<close> and \<open>Dispatcher\<close> in full generality: any event type, any
  middleware, any handlers. The second part is the world the other components run in: the
  events they handed to \<open>EventBus.publish\<close>, in order, and the supply of \<open>uuid4\<close> values.
  No code under core subscribes a handler or installs a middleware, so what a component can see
  of the bus is whether a middleware raised out of \<open>publish\<close>; that is the parameter \<open>mw\<close>.
\<close>

section \<open>The dispatcher\<close>

text \<open>
  An event type is \<open>None\<close> for the base class \<open>Event\<close> (the wildcard) and \<open>Some t\<close> otherwise.
  Handler sets are duplicate-free lists; the order in which the runtime iterates a set is not
  fixed by the language and is the parameter \<open>ord\<close>.
\<close>

record ('t, 'h) dispatcher =
  subscribers :: "('t, 'h list) pydict"
  wildcard_subscribers :: "'h list"

definition new_dispatcher :: "('t, 'h) dispatcher" where
  "new_dispatcher = \<lparr>subscribers = [], wildcard_subscribers = []\<rparr>"

definition set_add :: "'h \<Rightarrow> 'h list \<Rightarrow> 'h list" where
  "set_add h hs = (if h \<in> set hs then hs else hs @ [h])"

definition set_discard :: "'h \<Rightarrow> 'h list \<Rightarrow> 'h list" where
  "set_discard h hs = filter (\<lambda>x. x \<noteq> h) hs"

text \<open>\<open>defaultdict(set)\<close>: reading a missing key yields (and stores) the empty set.\<close>

definition subs_of :: "('t, 'h) dispatcher \<Rightarrow> 't \<Rightarrow> 'h list" where
  "subs_of d t = (case map_of (subscribers d) t of None \<Rightarrow> [] | Some hs \<Rightarrow> hs)"

definition subscribe :: "'t option \<Rightarrow> 'h \<Rightarrow> ('t, 'h) dispatcher \<Rightarrow> ('t, 'h) dispatcher" where
  "subscribe ty h d = (case ty of
     None \<Rightarrow> d\<lparr>wildcard_subscribers := set_add h (wildcard_subscribers d)\<rparr>
   | Some t \<Rightarrow> d\<lparr>subscribers := AList.update t (set_add h (subs_of d t)) (subscribers d)\<rparr>)"

definition unsubscribe :: "'t option \<Rightarrow> 'h \<Rightarrow> ('t, 'h) dispatcher \<Rightarrow> ('t, 'h) dispatcher" where
  "unsubscribe ty h d = (case ty of
     None \<Rightarrow> d\<lparr>wildcard_subscribers := set_discard h (wildcard_subscribers d)\<rparr>
   | Some t \<Rightarrow> d\<lparr>subscribers := AList.update t (set_discard h (subs_of d t)) (subscribers d)\<rparr>)"

text \<open>The handlers one event reaches: exact type first, then the wildcards, as one set.\<close>

definition handlers_for :: "('e \<Rightarrow> 't) \<Rightarrow> ('t, 'h) dispatcher \<Rightarrow> 'e \<Rightarrow> 'h list" where
  "handlers_for etype d e = fold set_add (wildcard_subscribers d) (subs_of d (etype e))"

text \<open>A failing handler becomes a \<open>DispatchError\<close>.\<close>

definition safe_invoke ::
  "('h \<Rightarrow> 'e \<Rightarrow> ('s, unit) act) \<Rightarrow> 'h \<Rightarrow> 'e \<Rightarrow> ('s, unit) act" where
  "safe_invoke invoke h e = catchA (invoke h e)
     (\<lambda>x. raise (Py (PyOther ''DispatchError'')) (''Handler failed: '' @ exn_msg x))"

text \<open>\<open>asyncio.gather(..., return_exceptions=True)\<close>: every task runs, failures are results.\<close>

fun gather :: "('s, 'a) act list \<Rightarrow> 's \<Rightarrow> (pyexn + 'a) list \<times> 's" where
  "gather [] s = ([], s)"
| "gather (t # ts) s = (let (r, s1) = t s; (rs, s2) = gather ts s1 in (r # rs, s2))"

definition dispatch ::
  "('e \<Rightarrow> 't) \<Rightarrow> ('h list \<Rightarrow> 'h list) \<Rightarrow> ('h \<Rightarrow> 'e \<Rightarrow> ('s, unit) act) \<Rightarrow>
   ('t, 'h) dispatcher \<Rightarrow> 'e \<Rightarrow> ('s, unit) act" where
  "dispatch etype ord invoke d e s =
     (let hs = handlers_for etype d e in
      if hs = [] then (Inr (), s)
      else let (results, s') = gather (map (\<lambda>h. safe_invoke invoke h e) (ord hs)) s
           in (Inr (), s'))"

section \<open>The bus: middlewares in front of the dispatcher\<close>

type_synonym ('e, 's) middleware = "'e \<Rightarrow> ('e \<Rightarrow> ('s, unit) act) \<Rightarrow> ('s, unit) act"

function run_middlewares ::
  "('e, 's) middleware list \<Rightarrow> ('e \<Rightarrow> ('s, unit) act) \<Rightarrow> 'e \<Rightarrow> nat \<Rightarrow> ('s, unit) act" where
  "run_middlewares mws disp ev i =
     (if i < length mws
      then (mws ! i) ev (\<lambda>e. run_middlewares mws disp e (i + 1))
      else disp ev)"
  by pat_completeness auto
termination
  by (relation "measure (\<lambda>(mws, disp, ev, i). length mws - i)") auto

declare run_middlewares.simps [simp del]

definition bus_publish ::
  "('e, 's) middleware list \<Rightarrow> ('e \<Rightarrow> ('s, unit) act) \<Rightarrow> 'e \<Rightarrow> ('s, unit) act" where
  "bus_publish mws disp ev = run_middlewares mws disp ev 0"

lemma run_middlewares_drop:
  "i \<le> length mws \<Longrightarrow>
   run_middlewares mws disp ev i = foldr (\<lambda>m k e. m e k) (drop i mws) disp ev"
proof (induction mws disp ev i rule: run_middlewares.induct)
  case (1 mws disp ev i)
  show ?case
  proof (cases "i < length mws")
    case True
    then have "drop i mws = mws ! i # drop (i + 1) mws"
      by (simp add: Cons_nth_drop_Suc)
    moreover have "(\<lambda>e. run_middlewares mws disp e (i + 1)) =
        foldr (\<lambda>m k e. m e k) (drop (i + 1) mws) disp"
      using "1.IH"[OF True] True by (simp add: fun_eq_iff)
    ultimately show ?thesis
      using True by (subst run_middlewares.simps) simp
  next
    case False
    with "1.prems" show ?thesis by (subst run_middlewares.simps) simp
  qed
qed

lemma bus_publish_foldr: "bus_publish mws disp = foldr (\<lambda>m k e. m e k) mws disp"
  by (simp add: bus_publish_def run_middlewares_drop fun_eq_iff)

subsection \<open>Handler sets\<close>

lemma set_set_add [simp]: "set (set_add h hs) = insert h (set hs)"
  by (auto simp: set_add_def)

lemma distinct_set_add [simp]: "distinct hs \<Longrightarrow> distinct (set_add h hs)"
  by (auto simp: set_add_def)

lemma set_set_discard [simp]: "set (set_discard h hs) = set hs - {h}"
  by (auto simp: set_discard_def)

lemma distinct_set_discard [simp]: "distinct hs \<Longrightarrow> distinct (set_discard h hs)"
  by (simp add: set_discard_def)

lemma set_fold_set_add: "set (fold set_add xs ys) = set xs \<union> set ys"
  by (induction xs arbitrary: ys) auto

lemma distinct_fold_set_add: "distinct ys \<Longrightarrow> distinct (fold set_add xs ys)"
  by (induction xs arbitrary: ys) auto

definition dispatcher_ok :: "('t, 'h) dispatcher \<Rightarrow> bool" where
  "dispatcher_ok d \<longleftrightarrow> distinct (wildcard_subscribers d) \<and> (\<forall>t. distinct (subs_of d t))"

lemma dispatcher_ok_new [simp]: "dispatcher_ok new_dispatcher"
  by (simp add: dispatcher_ok_def new_dispatcher_def subs_of_def)

lemma subs_of_subscribe:
  "subs_of (subscribe ty h d) t = (if ty = Some t then set_add h (subs_of d t) else subs_of d t)"
  by (auto simp: subs_of_def subscribe_def split: option.splits)

lemma subs_of_unsubscribe:
  "subs_of (unsubscribe ty h d) t =
     (if ty = Some t then set_discard h (subs_of d t) else subs_of d t)"
  by (auto simp: subs_of_def unsubscribe_def set_discard_def split: option.splits)

lemma wildcards_subscribe:
  "wildcard_subscribers (subscribe ty h d) =
     (if ty = None then set_add h (wildcard_subscribers d) else wildcard_subscribers d)"
  by (auto simp: subscribe_def split: option.splits)

lemma wildcards_unsubscribe:
  "wildcard_subscribers (unsubscribe ty h d) =
     (if ty = None then set_discard h (wildcard_subscribers d) else wildcard_subscribers d)"
  by (auto simp: unsubscribe_def split: option.splits)

lemma dispatcher_ok_subscribe [simp]: "dispatcher_ok d \<Longrightarrow> dispatcher_ok (subscribe ty h d)"
  by (simp add: dispatcher_ok_def subs_of_subscribe wildcards_subscribe)

lemma dispatcher_ok_unsubscribe [simp]:
  "dispatcher_ok d \<Longrightarrow> dispatcher_ok (unsubscribe ty h d)"
  by (simp add: dispatcher_ok_def subs_of_unsubscribe wildcards_unsubscribe)

lemma set_handlers_for:
  "set (handlers_for etype d e) = set (wildcard_subscribers d) \<union> set (subs_of d (etype e))"
  by (simp add: handlers_for_def set_fold_set_add)

lemma distinct_handlers_for: "dispatcher_ok d \<Longrightarrow> distinct (handlers_for etype d e)"
  by (simp add: handlers_for_def dispatcher_ok_def distinct_fold_set_add)

lemma snd_gather: "snd (gather ts s) = fold (\<lambda>t s. snd (t s)) ts s"
  by (induction ts arbitrary: s) (auto simp: Let_def split: prod.splits, metis snd_conv)

lemma snd_safe_invoke: "snd (safe_invoke invoke h e s) = snd (invoke h e s)"
  by (simp add: safe_invoke_def catchA_def raise_def split: prod.splits sum.splits)

text \<open>
  Dispatch never raises, and its effect on the state is that of every matching handler run
  once, whichever of them fail.
\<close>

lemma dispatch_runs_all:
  assumes "ord [] = []"
  shows "dispatch etype ord invoke d e s =
     (Inr (), fold (\<lambda>h s. snd (invoke h e s)) (ord (handlers_for etype d e)) s)"
proof -
  have "fold (\<lambda>t s. snd (t s)) (map (\<lambda>h. safe_invoke invoke h e) hs) s =
      fold (\<lambda>h s. snd (invoke h e s)) hs s" for hs
    by (induction hs arbitrary: s) (simp_all add: snd_safe_invoke)
  with snd_gather[of "map (\<lambda>h. safe_invoke invoke h e) (ord (handlers_for etype d e))" s] assms
  show ?thesis
    by (auto simp: dispatch_def Let_def split: prod.splits)
qed

text \<open>A handler that records its own invocation and then succeeds or fails, as \<open>res\<close> says.\<close>

definition recording :: "('h \<Rightarrow> pyexn option) \<Rightarrow> 'h \<Rightarrow> 'e \<Rightarrow> (('h \<times> 'e) list, unit) act" where
  "recording res h e s = (case res h of None \<Rightarrow> Inr () | Some x \<Rightarrow> Inl x, s @ [(h, e)])"

lemma fold_recording:
  "fold (\<lambda>h s. snd (recording res h e s)) hs s = s @ map (\<lambda>h. (h, e)) hs"
  by (induction hs arbitrary: s) (simp_all add: recording_def)

text \<open>
  Failure isolation of the event bus: publishing on a bus without middlewares never raises,
  and whichever handlers fail, exactly the handlers subscribed to the event's type or to the base
  class \<open>Event\<close> are invoked, each exactly once (also a handler subscribed both ways), whatever
  order the runtime iterates the handler set in.
\<close>

theorem publish_isolates_failures:
  assumes "dispatcher_ok d" and "\<And>hs. set (ord hs) = set hs \<and> (distinct hs \<longrightarrow> distinct (ord hs))"
  shows "\<exists>calls. bus_publish [] (dispatch etype ord (recording res) d) e s = (Inr (), s @ calls) \<and>
     distinct calls \<and>
     set calls = {(h, e) | h. h \<in> set (subs_of d (etype e)) \<or> h \<in> set (wildcard_subscribers d)}"
proof -
  let ?hs = "ord (handlers_for etype d e)"
  have "ord [] = []" using assms(2)[of "[]"] by simp
  then have "bus_publish [] (dispatch etype ord (recording res) d) e s =
      (Inr (), s @ map (\<lambda>h. (h, e)) ?hs)"
    by (simp add: bus_publish_foldr dispatch_runs_all fold_recording)
  moreover have "distinct ?hs"
    using assms distinct_handlers_for[of d etype e] by blast
  then have "distinct (map (\<lambda>h. (h, e)) ?hs)"
    by (simp add: distinct_map inj_on_def)
  moreover have "set (map (\<lambda>h. (h, e)) ?hs) =
      {(h, e) | h. h \<in> set (subs_of d (etype e)) \<or> h \<in> set (wildcard_subscribers d)}"
    using assms(2)[of "handlers_for etype d e"] by (auto simp: set_handlers_for)
  ultimately show ?thesis by blast
qed

theorem publish_isolates_failures_witness:
  "\<exists>calls. bus_publish [] (dispatch id rev (recording (\<lambda>h. if h = (1::nat)
        then Some (Exn (Py PyValueError) ''boom'') else None))
      (subscribe None 2 (subscribe (Some True) 1 new_dispatcher))) True [] = (Inr (), [] @ calls) \<and>
     distinct calls \<and>
     set calls = {(h, True) | h.
       h \<in> set (subs_of (subscribe None 2 (subscribe (Some True) 1 new_dispatcher)) (id True)) \<or>
       h \<in> set (wildcard_subscribers (subscribe None 2 (subscribe (Some True) 1 new_dispatcher)))}"
  by (rule publish_isolates_failures) simp_all

section \<open>Event classes\<close>

datatype execution_event =
    ExecutionRequested string string
  | ExecutionAuthorized string string
  | ExecutionDispatched string string
  | ExecutionSucceeded string string pyval
  | ExecutionDenied string string string
  | ExecutionFailed string string string

datatype runtime_event =
    RtExecutionStarted string string
  | RtExecutionCompleted string bool pyval
  | RtExecutionFailed string string
  | CapabilityRegistered string string
  | CapabilityUnregistered string

datatype security_event =
    PermissionRequested string string
  | PermissionGranted string string string
  | PermissionDenied string string string
  | PolicyLoaded string string
  | PolicyEvaluationCompleted string string string

datatype mutation_event =
    MutationRequested string string args
  | MutationConfirmed string
  | MutationRejected string string
  | MutationStarted string
  | MutationCompleted string pyval
  | MutationRolledBack string string
  | RollbackFailed string string
  | AuditRecorded string string

datatype workflow_event =
    WorkflowStarted string
  | WorkflowCompleted string pyval
  | WorkflowFailed string string
  | WorkflowCancelled string
  | WorkflowPaused string
  | WorkflowResumed string
  | TaskQueued string string
  | TaskStarted string string
  | TaskCompleted string string
  | TaskFailed string string string
  | RetryScheduled string string int int

datatype planner_event =
    GoalCreated string string int
  | PlanCreated string string nat
  | PlanFailed string string

datatype memory_event =
    MemoryStored string string string
  | MemoryUpdated string string string
  | MemoryDeleted string string string
  | MemoryAccessed string string string
  | MemoryForgotten string string string

datatype identity_event =
    IdentityRegistered string string
  | IdentityAuthenticated string string
  | IdentityLoggedOut string string
  | GrantPublished string string
  | RevokePublished string string

datatype plugin_event =
    PluginDiscovered string string string
  | PluginLoaded string
  | PluginEnabled string
  | PluginDisabled string
  | PluginUnloaded string
  | PluginRegistered string
  | PluginRemoved string
  | PluginValidationFailed string string

datatype android_event =
    AndroidRuntimeStarted
  | AndroidRuntimeStopped
  | AndroidCapabilityRegistered string string
  | AndroidCapabilityRemoved string
  | AndroidHealthChanged string string string

datatype brain_event =
    BrainRequestStarted string string
  | BrainRequestCompleted string bool
  | BrainRequestFailed string string

datatype event =
    EvExecution execution_event
  | EvRuntime runtime_event
  | EvSecurity security_event
  | EvMutation mutation_event
  | EvWorkflow workflow_event
  | EvPlanner planner_event
  | EvMemory memory_event
  | EvIdentity identity_event
  | EvPlugin plugin_event
  | EvAndroid android_event
  | EvBrain brain_event

section \<open>The world of the components\<close>

record world =
  w_trace :: "event list"
  w_uid :: nat

type_synonym bus = "event \<Rightarrow> pyexn option"

text \<open>The bus no middleware of which raises.\<close>

definition quiet :: bus where
  "quiet e = None"

definition publish :: "bus \<Rightarrow> event \<Rightarrow> ('w world_scheme, unit) act" where
  "publish mw e w = (case mw e of None \<Rightarrow> Inr () | Some x \<Rightarrow> Inl x,
     w\<lparr>w_trace := w_trace w @ [e]\<rparr>)"

text \<open>\<open>uuid.uuid4()\<close>: the next value of the supply \<open>uid\<close>.\<close>

definition fresh_uid :: "(nat \<Rightarrow> string) \<Rightarrow> ('w world_scheme, string) act" where
  "fresh_uid uid w = (Inr (uid (w_uid w)), w\<lparr>w_uid := Suc (w_uid w)\<rparr>)"

text \<open>\<open>uuid4().hex\<close>: the text without its dashes.\<close>

definition uuid_hex :: "string \<Rightarrow> string" where
  "uuid_hex u = filter (\<lambda>c. c \<noteq> CHR ''-'') u"

lemma quiet_apply [simp]: "quiet e = None"
  by (simp add: quiet_def)

lemma publish_quiet [simp]: "publish quiet e w = (Inr (), w\<lparr>w_trace := w_trace w @ [e]\<rparr>)"
  by (simp add: publish_def)

lemma snd_publish [simp]: "snd (publish mw e w) = w\<lparr>w_trace := w_trace w @ [e]\<rparr>"
  by (simp add: publish_def)

text \<open>
  The simplified \<open>publish\<close> is what the bus does when its only middleware records the event and
  raises where \<open>mw\<close> says so, and nobody is subscribed.
\<close>

lemma publish_is_bus_publish:
  "publish mw e w =
     bus_publish [\<lambda>e k w. let w' = w\<lparr>w_trace := w_trace w @ [e]\<rparr> in
                    case mw e of None \<Rightarrow> k e w' | Some x \<Rightarrow> (Inl x, w')]
       (dispatch etype ord invoke new_dispatcher) e w"
  by (simp add: bus_publish_foldr publish_def dispatch_def handlers_for_def subs_of_def
      new_dispatcher_def Let_def split: option.splits)

text \<open>Nothing published is ever taken back.\<close>

definition trace_grows :: "'w world_scheme \<Rightarrow> 'w world_scheme \<Rightarrow> bool" where
  "trace_grows w w' \<longleftrightarrow> (\<exists>es. w_trace w' = w_trace w @ es)"

lemma trace_grows_refl: "reflp trace_grows"
  by (simp add: reflp_def trace_grows_def)

lemma trace_grows_trans: "transp trace_grows"
  by (auto simp: transp_def trace_grows_def)

lemma trace_grows_publish: "keepsA trace_grows (publish mw e)"
  by (simp add: keepsA_def trace_grows_def)

lemma trace_grows_fresh_uid: "keepsA trace_grows (fresh_uid uid)"
  by (simp add: keepsA_def trace_grows_def fresh_uid_def)

end
