(* ===== verification/Security.thy ===== *)
theory Security
  imports Events Lifecycle
begin

text \<open>
  The permission kernel (core/security): trust levels and permission records, the deny-by-default
  policy evaluator, the request validator, the authorizer and the manager's pipeline with its
  events. Time stamps of decisions are not modelled (nothing reads them).
\<close>

section \<open>Models\<close>

datatype trust_level = UNTRUSTED | LOW | MEDIUM | HIGH | CRITICAL

fun trust_value :: "trust_level \<Rightarrow> string" where
  "trust_value UNTRUSTED = ''UNTRUSTED''"
| "trust_value LOW = ''LOW''"
| "trust_value MEDIUM = ''MEDIUM''"
| "trust_value HIGH = ''HIGH''"
| "trust_value CRITICAL = ''CRITICAL''"

datatype permission_state = PENDING | GRANTED | DENIED | REQUIRES_APPROVAL

fun permission_state_value :: "permission_state \<Rightarrow> string" where
  "permission_state_value PENDING = ''PENDING''"
| "permission_state_value GRANTED = ''GRANTED''"
| "permission_state_value DENIED = ''DENIED''"
| "permission_state_value REQUIRES_APPROVAL = ''REQUIRES_APPROVAL''"

record requirement =
  rq_capability :: string
  rq_trust :: trust_level
  rq_approval :: bool

record permission_policy =
  pp_id :: string
  pp_requirements :: "requirement list"

record security_context =
  sc_request :: string
  sc_capability :: string
  sc_trust :: trust_level

record permission_request =
  pr_permission :: string
  pr_capability :: string
  pr_context :: "security_context option"

record permission_decision =
  pd_permission :: string
  pd_capability :: string
  pd_state :: permission_state
  pd_trust :: trust_level
  pd_approval :: bool
  pd_reason :: "string option"

record permission_result =
  ps_permission :: string
  ps_capability :: string
  ps_granted :: bool
  ps_state :: permission_state
  ps_reason :: "string option"

text \<open>
  \<open>check_permission\<close> accepts anything: a \<open>PermissionRequest\<close>, or an object of another class, of
  which the pipeline reads the attributes \<open>permission_id\<close> and \<open>capability_id\<close> where it has them.
\<close>

datatype request_arg =
    IsRequest permission_request
  | NotRequest "string option" "string option"

section \<open>The policy evaluator\<close>

type_synonym policies = "(string, permission_policy) pydict"

definition security_error :: "security_exn \<Rightarrow> string \<Rightarrow> pyexn" where
  "security_error c m = Exn (InSecurity c) m"

definition load_policy :: "permission_policy option \<Rightarrow> policies \<Rightarrow> pyexn + policies" where
  "load_policy policy pol = (case policy of
     None \<Rightarrow> Inl (security_error PolicyEvaluationError ''Policy must have a valid policy_id.'')
   | Some p \<Rightarrow>
     if pp_id p = []
     then Inl (security_error PolicyEvaluationError ''Policy must have a valid policy_id.'')
     else Inr (AList.update (pp_id p) p pol))"

fun find_in_requirements :: "string \<Rightarrow> requirement list \<Rightarrow> requirement option" where
  "find_in_requirements cap [] = None"
| "find_in_requirements cap (r # rs) =
     (if rq_capability r = cap then Some r else find_in_requirements cap rs)"

fun find_in_policies :: "string \<Rightarrow> permission_policy list \<Rightarrow> requirement option" where
  "find_in_policies cap [] = None"
| "find_in_policies cap (p # ps) =
     (case find_in_requirements cap (pp_requirements p) of
        Some r \<Rightarrow> Some r
      | None \<Rightarrow> find_in_policies cap ps)"

definition find_requirement :: "policies \<Rightarrow> string \<Rightarrow> requirement option" where
  "find_requirement pol cap = find_in_policies cap (dict_values pol)"

text \<open>The position in the list \<open>[UNTRUSTED, LOW, MEDIUM, HIGH, CRITICAL]\<close>.\<close>

fun trust_index :: "trust_level \<Rightarrow> nat" where
  "trust_index UNTRUSTED = 0"
| "trust_index LOW = 1"
| "trust_index MEDIUM = 2"
| "trust_index HIGH = 3"
| "trust_index CRITICAL = 4"

definition trust_sufficient :: "trust_level \<Rightarrow> trust_level \<Rightarrow> bool" where
  "trust_sufficient provided required \<longleftrightarrow> trust_index required \<le> trust_index provided"

definition no_policy_msg :: "string \<Rightarrow> string" where
  "no_policy_msg cap = ''No policy found for capability '' @ quoted cap @
     ''. Deny-by-Default enforced.''"

definition low_trust_msg :: "trust_level \<Rightarrow> trust_level \<Rightarrow> string" where
  "low_trust_msg required provided = ''Insufficient trust level. Required: '' @
     trust_value required @ '', provided: '' @ trust_value provided @ ''.''"

text \<open>Every branch reads \<open>request.context.trust_level\<close>, which fails when there is no context.\<close>

definition evaluate :: "policies \<Rightarrow> permission_request \<Rightarrow> pyexn + permission_decision" where
  "evaluate pol r = (case pr_context r of
     None \<Rightarrow> Inl (Exn (Py PyAttributeError) ''NoneType object has no attribute trust_level'')
   | Some ctx \<Rightarrow>
     (let d = \<lparr>pd_permission = pr_permission r, pd_capability = pr_capability r,
               pd_state = DENIED, pd_trust = sc_trust ctx, pd_approval = False, pd_reason = None\<rparr> in
      case find_requirement pol (pr_capability r) of
        None \<Rightarrow> Inr (d\<lparr>pd_reason := Some (no_policy_msg (pr_capability r))\<rparr>)
      | Some q \<Rightarrow>
        if \<not> trust_sufficient (sc_trust ctx) (rq_trust q)
        then Inr (d\<lparr>pd_reason := Some (low_trust_msg (rq_trust q) (sc_trust ctx))\<rparr>)
        else if rq_approval q
        then Inr (d\<lparr>pd_state := REQUIRES_APPROVAL, pd_approval := True\<rparr>)
        else Inr (d\<lparr>pd_state := GRANTED\<rparr>)))"

section \<open>Validator and authorizer\<close>

definition validate_permission_request :: "permission_request \<Rightarrow> pyexn + unit" where
  "validate_permission_request r =
     (if pr_permission r = []
      then Inl (security_error PermissionValidationError
        ''PermissionRequest.permission_id must be provided.'')
      else if pr_capability r = []
      then Inl (security_error PermissionValidationError
        ''PermissionRequest.capability_id must be provided.'')
      else if pr_context r = None
      then Inl (security_error PermissionValidationError
        ''PermissionRequest.context must be provided.'')
      else Inr ())"

definition authorize :: "permission_decision \<Rightarrow> permission_result" where
  "authorize d = \<lparr>ps_permission = pd_permission d, ps_capability = pd_capability d,
     ps_granted = (pd_state d = GRANTED), ps_state = pd_state d, ps_reason = pd_reason d\<rparr>"

section \<open>The manager\<close>

record security_manager =
  sm_policies :: policies
  sm_started :: bool

definition security_start :: "security_manager \<Rightarrow> security_manager" where
  "security_start m = (if sm_started m then m else m\<lparr>sm_started := True\<rparr>)"

definition security_shutdown :: "security_manager \<Rightarrow> security_manager" where
  "security_shutdown m = (if \<not> sm_started m then m else m\<lparr>sm_started := False\<rparr>)"

text \<open>The flags say which of the four dependencies are present.\<close>

definition security_health ::
  "security_manager \<Rightarrow> bool \<Rightarrow> bool \<Rightarrow> bool \<Rightarrow> bool \<Rightarrow> pyexn + component_health" where
  "security_health m v p a b = dependency_health (sm_started m) ''Security kernel is stopped.''
     ''Security kernel missing dependencies: '' ''Security kernel is available.''
     [(''Validator'', v), (''PolicyEvaluator'', p), (''Authorizer'', a), (''EventBus'', b)]"

definition deny :: "bus \<Rightarrow> string \<Rightarrow> string \<Rightarrow> string \<Rightarrow> ('w world_scheme, permission_result) act" where
  "deny mw pid cap reason = seqA (publish mw (EvSecurity (PermissionDenied pid cap reason)))
     (ret \<lparr>ps_permission = pid, ps_capability = cap, ps_granted = False, ps_state = DENIED,
           ps_reason = Some reason\<rparr>)"

text \<open>\<open>x or dflt\<close> on an optional string.\<close>

definition or_else :: "string option \<Rightarrow> string \<Rightarrow> string" where
  "or_else x dflt = (case x of None \<Rightarrow> dflt | Some s \<Rightarrow> if s = [] then dflt else s)"

text \<open>The body of the \<open>try\<close> block.\<close>

definition permission_pipeline ::
  "bus \<Rightarrow> security_manager \<Rightarrow> request_arg \<Rightarrow> ('w world_scheme, permission_result) act" where
  "permission_pipeline mw m req = (case req of
     NotRequest pid cap \<Rightarrow>
       raise (InSecurity PermissionValidationError) ''Request is not a PermissionRequest.''
   | IsRequest r \<Rightarrow>
       seqA (liftA (validate_permission_request r))
       (seqA (publish mw (EvSecurity (PermissionRequested (pr_permission r) (pr_capability r))))
       (bindA (liftA (evaluate (sm_policies m) r)) (\<lambda>d.
       (seqA (publish mw (EvSecurity (PolicyEvaluationCompleted (pr_permission r) (pr_capability r)
                 (permission_state_value (pd_state d)))))
       (let res = authorize d in
        seqA (publish mw (EvSecurity
               (if ps_granted res
                then PermissionGranted (ps_permission res) (ps_capability res)
                       (trust_value (pd_trust d))
                else PermissionDenied (ps_permission res) (ps_capability res)
                       (or_else (ps_reason res) ''Permission denied.''))))
        (ret res)))))))"

definition request_permission_id :: "request_arg \<Rightarrow> string" where
  "request_permission_id req = (case req of IsRequest r \<Rightarrow> pr_permission r
     | NotRequest (Some p) cap \<Rightarrow> p | NotRequest None cap \<Rightarrow> ''unknown'')"

definition request_capability_id :: "request_arg \<Rightarrow> string" where
  "request_capability_id req = (case req of IsRequest r \<Rightarrow> pr_capability r
     | NotRequest pid (Some c) \<Rightarrow> c | NotRequest pid None \<Rightarrow> ''unknown'')"

definition check_permission ::
  "bus \<Rightarrow> security_manager \<Rightarrow> request_arg \<Rightarrow> ('w world_scheme, permission_result) act" where
  "check_permission mw m req =
     catchA (permission_pipeline mw m req)
       (\<lambda>exc. if is_security_error (exn_cls exc)
        then deny mw (request_permission_id req) (request_capability_id req) (exn_msg exc)
        else deny mw (request_permission_id req) (request_capability_id req)
          ''Permission check failed.'')"

section \<open>Lemmas\<close>

lemma evaluate_not_pending: "evaluate pol r = Inr d \<Longrightarrow> pd_state d \<noteq> PENDING"
  by (auto simp: evaluate_def Let_def split: option.splits if_splits)

lemma evaluate_allows:
  "evaluate pol r = Inr d \<Longrightarrow> pd_state d = GRANTED \<or> pd_state d = REQUIRES_APPROVAL \<Longrightarrow>
     \<exists>ctx q. pr_context r = Some ctx \<and> find_requirement pol (pr_capability r) = Some q \<and>
       trust_sufficient (sc_trust ctx) (rq_trust q) \<and>
       pd_state d = (if rq_approval q then REQUIRES_APPROVAL else GRANTED)"
  by (auto simp: evaluate_def Let_def split: option.splits if_splits)

lemma trust_sufficient_refl [simp]: "trust_sufficient t t"
  by (simp add: trust_sufficient_def)

lemma trust_sufficient_trans:
  "trust_sufficient c b \<Longrightarrow> trust_sufficient b a \<Longrightarrow> trust_sufficient c a"
  by (simp add: trust_sufficient_def)

lemma deny_result:
  "deny mw pid cap reason w = (Inr res, w') \<Longrightarrow> ps_state res = DENIED \<and> \<not> ps_granted res"
  by (auto simp: deny_def act_defs publish_def split: option.splits)

lemma snd_deny: "snd (deny mw pid cap reason w) =
  w\<lparr>w_trace := w_trace w @ [EvSecurity (PermissionDenied pid cap reason)]\<rparr>"
  by (simp add: deny_def act_defs publish_def split: option.splits)

text \<open>What a permissive result says about the policies, for the pipeline and for the whole check.\<close>

definition policy_allows ::
  "policies \<Rightarrow> string \<Rightarrow> trust_level \<Rightarrow> permission_state \<Rightarrow> bool" where
  "policy_allows pol cap trust st \<longleftrightarrow> (case find_requirement pol cap of
     None \<Rightarrow> False
   | Some q \<Rightarrow> trust_sufficient trust (rq_trust q) \<and>
       st = (if rq_approval q then REQUIRES_APPROVAL else GRANTED))"

lemma permission_pipeline_allows:
  assumes "permission_pipeline mw m req w = (Inr res, w')"
    and "ps_state res = GRANTED \<or> ps_state res = REQUIRES_APPROVAL"
  shows "\<exists>r ctx. req = IsRequest r \<and> pr_context r = Some ctx \<and>
    policy_allows (sm_policies m) (pr_capability r) (sc_trust ctx) (ps_state res)"
proof -
  from assms(1) obtain r where r: "req = IsRequest r"
    by (cases req) (auto simp: permission_pipeline_def raise_def)
  with assms(1) obtain d where d: "evaluate (sm_policies m) r = Inr d" "res = authorize d"
    by (auto simp: permission_pipeline_def seqA_def bindA_eq_Inr liftA_def Let_def ret_def)
  with assms(2) evaluate_allows[OF d(1)] r show ?thesis
    by (auto simp: authorize_def policy_allows_def split: if_splits)
qed

lemma check_permission_allows:
  assumes "check_permission mw m req w = (Inr res, w')"
    and "ps_state res = GRANTED \<or> ps_state res = REQUIRES_APPROVAL"
  shows "\<exists>r ctx. req = IsRequest r \<and> pr_context r = Some ctx \<and>
    policy_allows (sm_policies m) (pr_capability r) (sc_trust ctx) (ps_state res)"
proof (cases "permission_pipeline mw m req w")
  case (Pair x w1)
  show ?thesis
  proof (cases x)
    case (Inl e)
    with assms Pair deny_result show ?thesis
      by (fastforce simp: check_permission_def catchA_def split: if_splits)
  next
    case (Inr y)
    with assms(1) Pair have "permission_pipeline mw m req w = (Inr res, w')"
      by (simp add: check_permission_def catchA_def)
    from permission_pipeline_allows[OF this assms(2)] show ?thesis .
  qed
qed

lemma pipeline_result_consistent:
  "permission_pipeline mw m req w = (Inr res, w') \<Longrightarrow> ps_granted res \<longleftrightarrow> ps_state res = GRANTED"
  by (cases req) (auto simp: permission_pipeline_def seqA_def bindA_eq_Inr liftA_def Let_def ret_def
      raise_def authorize_def)

lemma check_result_consistent:
  "check_permission mw m req w = (Inr res, w') \<Longrightarrow> ps_granted res \<longleftrightarrow> ps_state res = GRANTED"
  by (auto simp: check_permission_def catchA_def split: prod.splits sum.splits if_splits
      dest: pipeline_result_consistent deny_result)

text \<open>The check changes nothing but the trace.\<close>

definition only_trace :: "'w world_scheme \<Rightarrow> 'w world_scheme \<Rightarrow> bool" where
  "only_trace w w' \<longleftrightarrow> (\<exists>es. w' = w\<lparr>w_trace := w_trace w @ es\<rparr>)"

lemma only_trace_refl: "reflp only_trace"
  by (auto simp: reflp_def only_trace_def intro: exI[of _ "[]"])

lemma only_trace_trans: "transp only_trace"
  by (auto simp: transp_def only_trace_def)

lemma only_trace_publish: "keepsA only_trace (publish mw e)"
  by (auto simp: keepsA_def only_trace_def)

lemmas only_trace_intros = keepsA_ret[OF only_trace_refl] keepsA_raise[OF only_trace_refl]
  keepsA_bind[OF only_trace_trans] keepsA_seq[OF only_trace_trans]
  keepsA_catch[OF only_trace_trans] keepsA_lift[OF only_trace_refl] only_trace_publish

lemma check_permission_only_trace: "keepsA only_trace (check_permission mw m req)"
  by (auto simp: check_permission_def permission_pipeline_def deny_def Let_def
      intro!: only_trace_intros split: request_arg.splits)

section \<open>Properties\<close>

text \<open>
  C20. The permission kernel fails closed: whatever any middleware raises and whatever object is
  passed, a result that grants (or asks for approval) comes from a loaded policy that names the
  capability, whose required trust the request has, and that does not (or does) demand approval;
  and \<open>granted\<close> is true for the state \<open>GRANTED\<close> only.
\<close>

theorem permission_fails_closed:
  assumes "check_permission mw m req w = (Inr res, w')"
  shows "(ps_granted res \<longleftrightarrow> ps_state res = GRANTED) \<and>
    (ps_state res = GRANTED \<or> ps_state res = REQUIRES_APPROVAL \<longrightarrow>
     (\<exists>r ctx q. req = IsRequest r \<and> pr_context r = Some ctx \<and>
        find_requirement (sm_policies m) (pr_capability r) = Some q \<and>
        trust_index (rq_trust q) \<le> trust_index (sc_trust ctx) \<and>
        (ps_state res = REQUIRES_APPROVAL \<longleftrightarrow> rq_approval q)))"
proof
  show "ps_granted res \<longleftrightarrow> ps_state res = GRANTED" by (rule check_result_consistent[OF assms])
  show "ps_state res = GRANTED \<or> ps_state res = REQUIRES_APPROVAL \<longrightarrow>
     (\<exists>r ctx q. req = IsRequest r \<and> pr_context r = Some ctx \<and>
        find_requirement (sm_policies m) (pr_capability r) = Some q \<and>
        trust_index (rq_trust q) \<le> trust_index (sc_trust ctx) \<and>
        (ps_state res = REQUIRES_APPROVAL \<longleftrightarrow> rq_approval q))"
    using check_permission_allows[OF assms]
    by (force simp: policy_allows_def trust_sufficient_def split: option.splits if_splits)
qed

definition example_security :: security_manager where
  "example_security = \<lparr>sm_policies = [(''p'', \<lparr>pp_id = ''p'', pp_requirements =
     [\<lparr>rq_capability = ''read'', rq_trust = LOW, rq_approval = False\<rparr>,
      \<lparr>rq_capability = ''pay'', rq_trust = HIGH, rq_approval = True\<rparr>]\<rparr>)], sm_started = False\<rparr>"

definition example_permission_request :: "string \<Rightarrow> trust_level \<Rightarrow> permission_request" where
  "example_permission_request cap t = \<lparr>pr_permission = ''1'', pr_capability = cap,
     pr_context = Some \<lparr>sc_request = ''c'', sc_capability = cap, sc_trust = t\<rparr>\<rparr>"

definition empty_world :: world where
  "empty_world = \<lparr>w_trace = [], w_uid = 0\<rparr>"

lemmas example_security_defs = example_security_def example_permission_request_def
  check_permission_def permission_pipeline_def act_defs validate_permission_request_def
  evaluate_def find_requirement_def trust_sufficient_def authorize_def publish_def or_else_def

theorem permission_fails_closed_witness:
  "\<exists>res w'. check_permission quiet example_security
       (IsRequest (example_permission_request ''read'' MEDIUM)) empty_world = (Inr res, w') \<and>
     ps_granted res \<and> ps_state res = GRANTED"
proof -
  obtain res w' where r: "check_permission quiet example_security
      (IsRequest (example_permission_request ''read'' MEDIUM)) empty_world = (Inr res, w')"
    "ps_state res = GRANTED" by (simp add: example_security_defs)
  with permission_fails_closed[OF r(1)] show ?thesis by auto
qed

text \<open>
  On a bus where no middleware raises, the check is a total function of the policies: a well
  formed request is answered with exactly the state the policies determine (denied without a
  policy, denied with too little trust, approval demanded, granted) and publishes exactly three
  events: requested, evaluated, and granted or denied.
\<close>

theorem check_permission_complete:
  assumes "pr_permission r \<noteq> []" and "pr_capability r \<noteq> []" and "pr_context r = Some ctx"
  shows "\<exists>res last. check_permission quiet m (IsRequest r) w =
      (Inr res, w\<lparr>w_trace := w_trace w @
        [EvSecurity (PermissionRequested (pr_permission r) (pr_capability r)),
         EvSecurity (PolicyEvaluationCompleted (pr_permission r) (pr_capability r)
           (permission_state_value (ps_state res))), EvSecurity last]\<rparr>) \<and>
    ps_state res = (case find_requirement (sm_policies m) (pr_capability r) of
        None \<Rightarrow> DENIED
      | Some q \<Rightarrow> if trust_index (sc_trust ctx) < trust_index (rq_trust q) then DENIED
                  else if rq_approval q then REQUIRES_APPROVAL else GRANTED) \<and>
    (if ps_state res = GRANTED
     then last = PermissionGranted (pr_permission r) (pr_capability r) (trust_value (sc_trust ctx))
     else \<exists>reason. last = PermissionDenied (pr_permission r) (pr_capability r) reason)"
proof -
  note defs = check_permission_def permission_pipeline_def act_defs
    validate_permission_request_def evaluate_def trust_sufficient_def authorize_def Let_def
  show ?thesis
  proof (cases "find_requirement (sm_policies m) (pr_capability r)")
    case None
    with assms show ?thesis by (auto simp: defs)
  next
    case (Some q)
    consider "trust_index (sc_trust ctx) < trust_index (rq_trust q)"
      | "trust_index (rq_trust q) \<le> trust_index (sc_trust ctx)" "rq_approval q"
      | "trust_index (rq_trust q) \<le> trust_index (sc_trust ctx)" "\<not> rq_approval q" by linarith
    then show ?thesis using assms Some by cases (auto simp: defs)
  qed
qed

theorem check_permission_complete_witness:
  "\<exists>res es. check_permission quiet example_security
       (IsRequest (example_permission_request ''pay'' MEDIUM)) empty_world =
         (Inr res, empty_world\<lparr>w_trace := es\<rparr>) \<and> length es = 3 \<and> ps_state res = DENIED"
proof -
  have r: "pr_permission (example_permission_request ''pay'' MEDIUM) \<noteq> []"
    "pr_capability (example_permission_request ''pay'' MEDIUM) \<noteq> []"
    "pr_context (example_permission_request ''pay'' MEDIUM) =
       Some \<lparr>sc_request = ''c'', sc_capability = ''pay'', sc_trust = MEDIUM\<rparr>"
    by (simp_all add: example_permission_request_def)
  from check_permission_complete[OF r, of example_security empty_world] show ?thesis
    by (auto simp: example_security_def example_permission_request_def find_requirement_def
        empty_world_def)
qed

end
