(* ===== verification/Runtime.thy ===== *)
theory Runtime
  imports Security
begin

text \<open>
  The tool runtime (core/runtime): capabilities and their metadata, the in-memory capability
  registry, the request validator, dispatcher and executor, and the manager's pipeline. A
  capability is code outside this package: its metadata, what executing it does to the device
  state \<open>'d\<close>, and, when it is a \<open>MutatingCapability\<close>, its rollback.
\<close>

section \<open>Class names of exceptions\<close>

fun py_exn_name :: "py_exn \<Rightarrow> string" where
  "py_exn_name PyValueError = ''ValueError''"
| "py_exn_name PyTypeError = ''TypeError''"
| "py_exn_name PyKeyError = ''KeyError''"
| "py_exn_name PyRuntimeError = ''RuntimeError''"
| "py_exn_name PyAttributeError = ''AttributeError''"
| "py_exn_name PyTimeoutError = ''TimeoutError''"
| "py_exn_name PyNotImplementedError = ''NotImplementedError''"
| "py_exn_name (PyOther n) = n"

fun android_exn_name :: "android_exn \<Rightarrow> string" where
  "android_exn_name AndroidRuntimeError = ''AndroidRuntimeError''"
| "android_exn_name AndroidAdapterError = ''AndroidAdapterError''"
| "android_exn_name AndroidCapabilityRegistrationError = ''AndroidCapabilityRegistrationError''"
| "android_exn_name CapabilityError = ''CapabilityError''"
| "android_exn_name CapabilityPermissionDenied = ''PermissionDeniedError''"
| "android_exn_name ResourceUnavailableError = ''ResourceUnavailableError''"
| "android_exn_name InvalidArgumentError = ''InvalidArgumentError''"
| "android_exn_name UnsupportedPlatformError = ''UnsupportedPlatformError''"
| "android_exn_name PlatformExecutionError = ''PlatformExecutionError''"

fun runtime_exn_name :: "runtime_exn \<Rightarrow> string" where
  "runtime_exn_name RuntimeSubsystemError = ''RuntimeSubsystemError''"
| "runtime_exn_name RuntimeValidationError = ''ValidationError''"
| "runtime_exn_name CapabilityNotFoundError = ''CapabilityNotFoundError''"
| "runtime_exn_name ExecutionFailedError = ''ExecutionFailedError''"

text \<open>
  \<open>type(exc).__name__\<close> for the exceptions a capability raises: built-in ones, those of the Android
  packages and of the runtime; the parameter names the classes of the other packages.
\<close>

definition type_name :: "(exn_class \<Rightarrow> string) \<Rightarrow> pyexn \<Rightarrow> string" where
  "type_name other e = (case exn_cls e of
     Py c \<Rightarrow> py_exn_name c
   | InAndroid c \<Rightarrow> android_exn_name c
   | InRuntime c \<Rightarrow> runtime_exn_name c
   | c \<Rightarrow> other c)"

section \<open>Models\<close>

datatype confirmation_level = NO_CONFIRMATION | USER | PIN | BIOMETRIC | OWNER_ONLY

fun confirmation_value :: "confirmation_level \<Rightarrow> string" where
  "confirmation_value NO_CONFIRMATION = ''NONE''"
| "confirmation_value USER = ''USER''"
| "confirmation_value PIN = ''PIN''"
| "confirmation_value BIOMETRIC = ''BIOMETRIC''"
| "confirmation_value OWNER_ONLY = ''OWNER_ONLY''"

text \<open>\<open>MutationMetadata\<close> of core/mutation/models.py with its defaults.\<close>

record mutation_metadata =
  mm_destructive :: bool
  mm_rollback :: bool
  mm_idempotent :: bool
  mm_audit :: bool
  mm_level :: confirmation_level

definition default_mutation_metadata :: mutation_metadata where
  "default_mutation_metadata = \<lparr>mm_destructive = False, mm_rollback = False,
     mm_idempotent = False, mm_audit = True, mm_level = NO_CONFIRMATION\<rparr>"

text \<open>
  \<open>CapabilityMetadata.mutation\<close> is untyped. It holds an instance of \<open>MutationMetadata\<close>, a class
  without an attribute \<open>is_mutation\<close>, or an object of some other class that offers the same
  attributes and also \<open>is_mutation\<close>, with the truth value given.
\<close>

datatype mutation_attr =
    CoreMeta mutation_metadata
  | MarkedMeta bool mutation_metadata

record capability_metadata =
  cm_id :: string
  cm_name :: string
  cm_description :: string
  cm_version :: string
  cm_mutation :: "mutation_attr option"

datatype execution_status = ExPENDING | ExRUNNING | ExCOMPLETED | ExFAILED

record execution_request =
  er_execution :: string
  er_capability :: string
  er_arguments :: pyval
  er_metadata :: args

record execution_result =
  ex_execution :: string
  ex_success :: bool
  ex_status :: execution_status
  ex_data :: pyval
  ex_error :: "string option"

record 'd mutating =
  mu_supports :: "args \<Rightarrow> pyexn + bool"
  mu_rollback :: "args \<Rightarrow> pyval \<Rightarrow> ('d, unit) act"

record 'd capability =
  cap_metadata :: "capability_metadata option"
  cap_execute :: "execution_request \<Rightarrow> ('d, pyval) act"
  cap_mutating :: "'d mutating option"

text \<open>The state the execution layers share: the world, the registry and the device.\<close>

record 'd sys = world +
  s_caps :: "(string, 'd capability) pydict"
  s_dev :: 'd

text \<open>An action on the device is an action on the system.\<close>

definition on_dev :: "('d, 'a) act \<Rightarrow> (('d, 'z) sys_scheme, 'a) act" where
  "on_dev m s = (case m (s_dev s) of (r, d) \<Rightarrow> (r, s\<lparr>s_dev := d\<rparr>))"

section \<open>The registry\<close>

definition rt_error :: "runtime_exn \<Rightarrow> string \<Rightarrow> pyexn" where
  "rt_error c m = Exn (InRuntime c) m"

definition already_registered_msg :: "string \<Rightarrow> string" where
  "already_registered_msg i = ''Capability with ID '' @ quoted i @ '' is already registered.''"

definition not_found_msg :: "string \<Rightarrow> string" where
  "not_found_msg i = ''Capability '' @ quoted i @ '' not found.''"

definition register_capability ::
  "bus \<Rightarrow> 'd capability option \<Rightarrow> (('d, 'z) sys_scheme, unit) act" where
  "register_capability mw capability s = (case capability of
     None \<Rightarrow> (Inl (rt_error RuntimeValidationError ''Capability cannot be None.''), s)
   | Some c \<Rightarrow>
     (case cap_metadata c of
        None \<Rightarrow> (Inl (rt_error RuntimeValidationError
                  ''Capability must have valid metadata and ID.''), s)
      | Some md \<Rightarrow>
        if cm_id md = [] then (Inl (rt_error RuntimeValidationError
                  ''Capability must have valid metadata and ID.''), s)
        else if map_of (s_caps s) (cm_id md) \<noteq> None
        then (Inl (rt_error RuntimeValidationError (already_registered_msg (cm_id md))), s)
        else publish mw (EvRuntime (CapabilityRegistered (cm_id md) (cm_name md)))
               (s\<lparr>s_caps := AList.update (cm_id md) c (s_caps s)\<rparr>)))"

definition unregister_capability :: "bus \<Rightarrow> string \<Rightarrow> (('d, 'z) sys_scheme, unit) act" where
  "unregister_capability mw i s =
     (if map_of (s_caps s) i = None
      then (Inl (rt_error CapabilityNotFoundError (not_found_msg i)), s)
      else publish mw (EvRuntime (CapabilityUnregistered i))
             (s\<lparr>s_caps := AList.delete i (s_caps s)\<rparr>))"

definition lookup :: "('d, 'z) sys_scheme \<Rightarrow> string \<Rightarrow> pyexn + 'd capability" where
  "lookup s i = (case map_of (s_caps s) i of
     None \<Rightarrow> Inl (rt_error CapabilityNotFoundError (not_found_msg i))
   | Some c \<Rightarrow> Inr c)"

definition all_capabilities :: "('d, 'z) sys_scheme \<Rightarrow> 'd capability list" where
  "all_capabilities s = dict_values (s_caps s)"

section \<open>Dispatcher, executor, validator\<close>

definition rt_dispatch :: "('d, 'z) sys_scheme \<Rightarrow> execution_request \<Rightarrow> pyexn + 'd capability" where
  "rt_dispatch s r = lookup s (er_capability r)"

definition rt_execute ::
  "(exn_class \<Rightarrow> string) \<Rightarrow> 'd capability \<Rightarrow> execution_request \<Rightarrow> (('d, 'z) sys_scheme, pyval) act" where
  "rt_execute names c r = catchA (on_dev (cap_execute c r))
     (\<lambda>exc. raise (InRuntime ExecutionFailedError)
       (''Capability execution failed: '' @ type_name names exc))"

fun is_dict :: "pyval \<Rightarrow> bool" where
  "is_dict (VDict d) = True"
| "is_dict _ = False"

definition validate_request :: "execution_request \<Rightarrow> pyexn + unit" where
  "validate_request r =
     (if er_execution r = []
      then Inl (rt_error RuntimeValidationError ''ExecutionRequest.execution_id must be provided.'')
      else if er_capability r = []
      then Inl (rt_error RuntimeValidationError ''ExecutionRequest.capability_id must be provided.'')
      else if \<not> is_dict (er_arguments r)
      then Inl (rt_error RuntimeValidationError ''ExecutionRequest.arguments must be a mapping.'')
      else Inr ())"

definition validate_arguments :: "'d capability \<Rightarrow> execution_request \<Rightarrow> pyexn + unit" where
  "validate_arguments c r = Inr ()"

section \<open>The manager\<close>

text \<open>\<open>execute\<close> accepts anything; of another object only \<open>execution_id\<close> is read.\<close>

datatype runtime_arg =
    IsExecution execution_request
  | NotExecution "string option"

definition runtime_arg_id :: "runtime_arg \<Rightarrow> string" where
  "runtime_arg_id a = (case a of IsExecution r \<Rightarrow> er_execution r
     | NotExecution (Some i) \<Rightarrow> i | NotExecution None \<Rightarrow> ''unknown'')"

definition rt_fail :: "bus \<Rightarrow> string \<Rightarrow> string \<Rightarrow> ('w world_scheme, execution_result) act" where
  "rt_fail mw i msg = seqA (publish mw (EvRuntime (RtExecutionFailed i msg)))
     (ret \<lparr>ex_execution = i, ex_success = False, ex_status = ExFAILED, ex_data = VNone,
           ex_error = Some msg\<rparr>)"

definition runtime_pipeline ::
  "bus \<Rightarrow> (exn_class \<Rightarrow> string) \<Rightarrow> runtime_arg \<Rightarrow> (('d, 'z) sys_scheme, execution_result) act" where
  "runtime_pipeline mw names a = (case a of
     NotExecution i \<Rightarrow> raise (InRuntime RuntimeValidationError) ''Request is not an ExecutionRequest.''
   | IsExecution r \<Rightarrow>
       seqA (liftA (validate_request r))
       (bindA (\<lambda>s. liftA (rt_dispatch s r) s) (\<lambda>c.
       (seqA (liftA (validate_arguments c r))
       (seqA (publish mw (EvRuntime (RtExecutionStarted (er_execution r) (er_capability r))))
       (bindA (rt_execute names c r) (\<lambda>data.
        seqA (publish mw (EvRuntime (RtExecutionCompleted (er_execution r) True data)))
          (ret \<lparr>ex_execution = er_execution r, ex_success = True, ex_status = ExCOMPLETED,
                ex_data = data, ex_error = None\<rparr>)))))))) "

definition runtime_execute ::
  "bus \<Rightarrow> (exn_class \<Rightarrow> string) \<Rightarrow> runtime_arg \<Rightarrow> (('d, 'z) sys_scheme, execution_result) act" where
  "runtime_execute mw names a =
     catchA (runtime_pipeline mw names a)
       (\<lambda>exc. if is_runtime_subsystem_error (exn_cls exc)
        then rt_fail mw (runtime_arg_id a) (exn_msg exc)
        else rt_fail mw (runtime_arg_id a) ''Execution failed due to unexpected error.'')"

definition runtime_start :: "bool \<Rightarrow> bool" where
  "runtime_start started = (if started then started else True)"

definition runtime_shutdown :: "bool \<Rightarrow> bool" where
  "runtime_shutdown started = (if \<not> started then started else False)"

definition runtime_health :: "bool \<Rightarrow> bool \<Rightarrow> bool \<Rightarrow> bool \<Rightarrow> bool \<Rightarrow> pyexn + component_health" where
  "runtime_health started r d e b = dependency_health started ''Runtime is stopped.''
     ''Missing runtime dependencies: '' ''Runtime is available.''
     [(''Registry'', r), (''Dispatcher'', d), (''Executor'', e), (''Event Bus'', b)]"

section \<open>The registry law\<close>

text \<open>Every capability is stored under the identifier of its metadata.\<close>

definition caps_ok :: "('d, 'z) sys_scheme \<Rightarrow> bool" where
  "caps_ok s \<longleftrightarrow> dict_ok (s_caps s) \<and> (\<forall>i c. map_of (s_caps s) i = Some c \<longrightarrow>
     (\<exists>md. cap_metadata c = Some md \<and> cm_id md = i))"

lemma publish_sys_frame [simp]:
  "s_caps (snd (publish mw e s)) = s_caps s" "s_dev (snd (publish mw e s)) = s_dev s"
  by (simp_all add: publish_def)

lemma caps_ok_publish [simp]: "caps_ok (snd (publish mw e s)) = caps_ok s"
  by (simp add: caps_ok_def publish_def)

lemma caps_ok_register: "caps_ok s \<Longrightarrow> caps_ok (snd (register_capability mw c s))"
  by (auto simp: register_capability_def caps_ok_def publish_def split: option.splits)

lemma caps_ok_unregister: "caps_ok s \<Longrightarrow> caps_ok (snd (unregister_capability mw i s))"
  by (auto simp: unregister_capability_def caps_ok_def publish_def)

section \<open>Properties\<close>

text \<open>
  The runtime manager normalises everything: on a bus where no middleware raises, \<open>execute\<close>
  never raises, whatever it is given and whatever the capability raises; the last event is the
  terminal event that agrees with the result, a capability that ran was announced by a started
  event immediately before, and a result that is not a success of a registered capability leaves
  \<open>result_data\<close> unset.
\<close>

theorem runtime_execute_total:
  "\<exists>res s' es. runtime_execute quiet names a s = (Inr res, s') \<and>
     w_trace s' = w_trace s @ es \<and> ex_execution res = runtime_arg_id a \<and>
     (if ex_success res
      then ex_status res = ExCOMPLETED \<and> ex_error res = None \<and>
        (\<exists>r c. a = IsExecution r \<and> map_of (s_caps s) (er_capability r) = Some c \<and>
           cap_execute c r (s_dev s) = (Inr (ex_data res), s_dev s') \<and>
           es = [EvRuntime (RtExecutionStarted (er_execution r) (er_capability r)),
                 EvRuntime (RtExecutionCompleted (er_execution r) True (ex_data res))])
      else ex_status res = ExFAILED \<and> ex_data res = VNone \<and>
        (\<exists>msg. ex_error res = Some msg \<and> last es = EvRuntime (RtExecutionFailed (runtime_arg_id a) msg) \<and>
           (length es = 1 \<and> s_dev s' = s_dev s \<or>
            (\<exists>r. a = IsExecution r \<and> butlast es =
              [EvRuntime (RtExecutionStarted (er_execution r) (er_capability r))]))))"
proof (cases a)
  case (NotExecution i)
  then show ?thesis
    by (simp add: runtime_execute_def runtime_pipeline_def act_defs rt_fail_def)
next
  case (IsExecution r)
  show ?thesis
  proof (cases "validate_request r")
    case (Inl e)
    have "is_runtime_subsystem_error (exn_cls e)"
      using Inl by (auto simp: validate_request_def rt_error_def split: if_splits)
    with Inl IsExecution show ?thesis
      by (simp add: runtime_execute_def runtime_pipeline_def act_defs rt_fail_def runtime_arg_id_def)
  next
    case (Inr u)
    show ?thesis
    proof (cases "map_of (s_caps s) (er_capability r)")
      case None
      with Inr IsExecution show ?thesis
        by (simp add: runtime_execute_def runtime_pipeline_def act_defs rt_fail_def
            rt_dispatch_def lookup_def rt_error_def runtime_arg_id_def)
    next
      case (Some c)
      obtain x d where x: "cap_execute c r (s_dev s) = (x, d)" by fastforce
      with Inr IsExecution Some show ?thesis
        by (cases x) (simp_all add: runtime_execute_def runtime_pipeline_def act_defs rt_fail_def
            rt_dispatch_def lookup_def rt_error_def runtime_arg_id_def validate_arguments_def
            rt_execute_def on_dev_def)
    qed
  qed
qed

text \<open>
  The capability registry is a faithful store: registering a capability with a fresh, non
  empty identifier makes \<open>lookup\<close> return it and changes no other answer; registering the same
  identifier again is refused and changes nothing; unregistering it afterwards restores every
  answer.
\<close>

theorem registry_roundtrip:
  assumes "cap_metadata c = Some md" and "cm_id md \<noteq> []" and "map_of (s_caps s) (cm_id md) = None"
    and "s' = snd (register_capability mw (Some c) s)"
  shows "lookup s' (cm_id md) = Inr c \<and>
    (\<forall>j. j \<noteq> cm_id md \<longrightarrow> lookup s' j = lookup s j) \<and>
    (\<forall>c'. cap_metadata c' = Some md \<longrightarrow> register_capability mw (Some c') s' =
       (Inl (rt_error RuntimeValidationError (already_registered_msg (cm_id md))), s')) \<and>
    (\<forall>j. lookup (snd (unregister_capability mw (cm_id md) s')) j = lookup s j)"
proof -
  have s': "s_caps s' = AList.update (cm_id md) c (s_caps s)"
    using assms by (simp add: register_capability_def)
  have l: "map_of (s_caps s') = (map_of (s_caps s))(cm_id md \<mapsto> c)"
    by (simp add: s' fun_eq_iff)
  have u: "map_of (s_caps (snd (unregister_capability mw (cm_id md) s'))) = map_of (s_caps s)"
    using dict.look_del_put[of "s_caps s" "cm_id md" c] assms(3) l
    by (simp add: unregister_capability_def s' fun_eq_iff)
  show ?thesis
    using assms(1,2) l u by (simp add: lookup_def register_capability_def)
qed

definition example_capability :: "string \<Rightarrow> mutation_attr option \<Rightarrow> int capability" where
  "example_capability i mut = \<lparr>cap_metadata = Some \<lparr>cm_id = i, cm_name = i, cm_description = [],
     cm_version = ''1'', cm_mutation = mut\<rparr>,
     cap_execute = (\<lambda>r d. (Inr (VInt d), d + 1)), cap_mutating = None\<rparr>"

definition empty_sys :: "int sys" where
  "empty_sys = \<lparr>w_trace = [], w_uid = 0, s_caps = [], s_dev = 0\<rparr>"

theorem registry_roundtrip_witness:
  "let s' = snd (register_capability quiet (Some (example_capability ''a'' None)) empty_sys)
   in lookup s' ''a'' = Inr (example_capability ''a'' None) \<and> lookup s' ''b'' = lookup empty_sys ''b''"
proof -
  have "cap_metadata (example_capability ''a'' None) = Some \<lparr>cm_id = ''a'', cm_name = ''a'',
      cm_description = [], cm_version = ''1'', cm_mutation = None\<rparr>"
    by (simp add: example_capability_def)
  from registry_roundtrip[OF this, of empty_sys _ quiet] show ?thesis
    by (simp add: empty_sys_def)
qed

end
