(* ===== verification/Logging.thy ===== *)
theory Logging
  imports Prelude
begin

text \<open>
  The logging package (core/logging): levels, the context of correlation identifiers, entries and
  their two formatters, sinks, loggers in their hierarchy, the factory that names them. Objects that
  are shared and changed (loggers, sinks) live in lists and are referred to by their position, a
  parent being an object that existed before its children. The environment says what the standard
  library answers: the clock, identifiers, the text of values and tracebacks, which writes to a
  stream fail, and the recursion limit, which bounds the walks up the hierarchy. Numbers are compared
  exactly; \<open>VNonFinite\<close> is read as NaN. Locks are not modelled: every operation is one step.
\<close>

section \<open>Levels\<close>

datatype log_level = TraceLevel | DebugLevel | InfoLevel | WarningLevel | ErrorLevel | CriticalLevel

fun level_value :: "log_level \<Rightarrow> int" where
  "level_value TraceLevel = 5"
| "level_value DebugLevel = 10"
| "level_value InfoLevel = 20"
| "level_value WarningLevel = 30"
| "level_value ErrorLevel = 40"
| "level_value CriticalLevel = 50"

fun level_name :: "log_level \<Rightarrow> string" where
  "level_name TraceLevel = ''TRACE''"
| "level_name DebugLevel = ''DEBUG''"
| "level_name InfoLevel = ''INFO''"
| "level_name WarningLevel = ''WARNING''"
| "level_name ErrorLevel = ''ERROR''"
| "level_name CriticalLevel = ''CRITICAL''"

instantiation log_level :: linorder
begin

definition less_eq_log_level :: "log_level \<Rightarrow> log_level \<Rightarrow> bool" where
  "less_eq_log_level a b \<longleftrightarrow> level_value a \<le> level_value b"

definition less_log_level :: "log_level \<Rightarrow> log_level \<Rightarrow> bool" where
  "less_log_level a b \<longleftrightarrow> level_value a < level_value b"

instance
proof
  fix a b c :: log_level
  show "a \<le> b \<Longrightarrow> b \<le> a \<Longrightarrow> a = b"
    by (cases a; cases b) (simp_all add: less_eq_log_level_def)
qed (auto simp: less_eq_log_level_def less_log_level_def)

end

text \<open>
  The threshold of a logger is any value its constructor was given; a level is the integer it is.
  \<open>level < threshold\<close> raises for a value that is not a number.
\<close>

definition threshold :: "log_level \<Rightarrow> pyval" where
  "threshold l = VInt (level_value l)"

definition not_comparable :: "pyval \<Rightarrow> pyexn" where
  "not_comparable v = Exn (Py PyTypeError)
     (quoted ''<'' @ '' not supported between instances of '' @ quoted ''LogLevel'' @ '' and '' @
      quoted (class_name v))"

fun level_below :: "log_level \<Rightarrow> pyval \<Rightarrow> pyexn + bool" where
  "level_below l (VInt i) = Inr (level_value l < i)"
| "level_below l (VBool b) = Inr (level_value l < (if b then 1 else 0))"
| "level_below l (VFloat m e) = Inr (level_value l * 2 ^ e < m)"
| "level_below l VNonFinite = Inr False"
| "level_below l v = Inl (not_comparable v)"

lemma level_below_threshold [simp]: "level_below l (threshold m) = Inr (l < m)"
  by (simp add: threshold_def less_log_level_def)

section \<open>Entries and context\<close>

record timestamp =
  ts_year :: nat
  ts_month :: nat
  ts_day :: nat
  ts_hour :: nat
  ts_minute :: nat
  ts_second :: nat
  ts_micro :: nat

text \<open>The argument \<open>exception\<close>: nothing, an exception, or a value that is none.\<close>

datatype exc_arg = NoException | Raised pyexn | NotAnException pyval

record log_entry =
  le_level :: log_level
  le_logger :: string
  le_message :: string
  le_timestamp :: timestamp
  le_correlation :: "string option"
  le_event :: "string option"
  le_exception :: exc_arg
  le_metadata :: args

record log_context =
  lc_correlation :: "string option"
  lc_event :: "string option"
  lc_scope :: "string option"

definition empty_context :: log_context where
  "empty_context = \<lparr>lc_correlation = None, lc_event = None, lc_scope = None\<rparr>"

section \<open>The state\<close>

datatype formatter = HumanFormatter bool | JsonFormatter

datatype sink_kind = NullSink | ConsoleSink formatter | FileSink string formatter

record log_sink =
  sk_kind :: sink_kind
  sk_closed :: bool
  sk_lines :: "string list"

record logger =
  lo_name :: string
  lo_level :: pyval
  lo_sinks :: "nat list"
  lo_parent :: "nat option"
  lo_bus :: bool
  lo_publish :: bool

record logsys =
  ls_loggers :: "logger list"
  ls_names :: "(string, nat) pydict"
  ls_sinks :: "log_sink list"
  ls_context :: log_context
  ls_clock :: nat
  ls_uid :: nat
  ls_tasks :: "log_entry list"

text \<open>What the factory was built with.\<close>

record log_factory =
  lf_level :: pyval
  lf_sinks :: "nat list"
  lf_bus :: bool
  lf_publish :: bool

record log_env =
  lv_str :: "pyval \<Rightarrow> string"
  lv_traceback :: "pyexn \<Rightarrow> string"
  lv_exn_name :: "exn_class \<Rightarrow> string"
  lv_now :: "nat \<Rightarrow> timestamp"
  lv_uid :: "nat \<Rightarrow> string"
  lv_write :: "nat \<Rightarrow> string \<Rightarrow> pyexn option"
  lv_open :: "string \<Rightarrow> pyexn option"
  lv_running :: bool
  lv_limit :: nat

definition recursion_error :: pyexn where
  "recursion_error = Exn (Py (PyOther ''RecursionError'')) ''maximum recursion depth exceeded''"

section \<open>The context\<close>

definition set_correlation_id :: "string \<Rightarrow> (logsys, unit) act" where
  "set_correlation_id i s = (Inr (), s\<lparr>ls_context := (ls_context s)\<lparr>lc_correlation := Some i\<rparr>\<rparr>)"

definition set_event_id :: "string \<Rightarrow> (logsys, unit) act" where
  "set_event_id i s = (Inr (), s\<lparr>ls_context := (ls_context s)\<lparr>lc_event := Some i\<rparr>\<rparr>)"

definition new_correlation_id :: "log_env \<Rightarrow> (logsys, string) act" where
  "new_correlation_id env s = (let i = lv_uid env (ls_uid s) in
     seqA (set_correlation_id i) (ret i) (s\<lparr>ls_uid := Suc (ls_uid s)\<rparr>))"

text \<open>\<open>a or b\<close> on optional texts: the empty text counts as none.\<close>

definition or_text :: "string option \<Rightarrow> string option \<Rightarrow> string option" where
  "or_text a b = (case a of Some x \<Rightarrow> if x = [] then b else a | None \<Rightarrow> b)"

text \<open>
  \<open>with LogScope(...)\<close>: entering returns the token, the context before; leaving, also by an
  exception, puts it back.
\<close>

definition scope_enter :: "string \<Rightarrow> string option \<Rightarrow> (logsys, log_context) act" where
  "scope_enter scope cid s = (let c = ls_context s in
     (Inr c, s\<lparr>ls_context := \<lparr>lc_correlation = or_text cid (lc_correlation c), lc_event = lc_event c,
       lc_scope = Some scope\<rparr>\<rparr>))"

definition scope_exit :: "log_context \<Rightarrow> (logsys, unit) act" where
  "scope_exit token s = (Inr (), s\<lparr>ls_context := token\<rparr>)"

definition with_scope :: "string \<Rightarrow> string option \<Rightarrow> (logsys, 'a) act \<Rightarrow> (logsys, 'a) act" where
  "with_scope scope cid m = bindA (scope_enter scope cid) (\<lambda>token.
     bindA (catchA m (\<lambda>e. seqA (scope_exit token) (liftA (Inl e)))) (\<lambda>x. seqA (scope_exit token) (ret x)))"

section \<open>Formatters\<close>

definition zero_pad :: "nat \<Rightarrow> nat \<Rightarrow> string" where
  "zero_pad w n = replicate (w - length (str_of_nat n)) CHR ''0'' @ str_of_nat n"

definition date_time :: "timestamp \<Rightarrow> string" where
  "date_time t = zero_pad 4 (ts_year t) @ ''-'' @ zero_pad 2 (ts_month t) @ ''-'' @
     zero_pad 2 (ts_day t) @ ''T'' @ zero_pad 2 (ts_hour t) @ '':'' @ zero_pad 2 (ts_minute t) @ '':'' @
     zero_pad 2 (ts_second t)"

text \<open>\<open>strftime("%Y-%m-%dT%H:%M:%S.%f")[:-3] + "Z"\<close> and \<open>isoformat()\<close> of a time in UTC.\<close>

definition human_time :: "timestamp \<Rightarrow> string" where
  "human_time t = (let x = date_time t @ ''.'' @ zero_pad 6 (ts_micro t) in
     take (length x - 3) x @ ''Z'')"

definition iso_time :: "timestamp \<Rightarrow> string" where
  "iso_time t = date_time t @ (if ts_micro t = 0 then [] else ''.'' @ zero_pad 6 (ts_micro t)) @ ''+00:00''"

definition color_of :: "log_level \<Rightarrow> string" where
  "color_of l = CHR 0x1B # (case l of
     TraceLevel \<Rightarrow> ''[90m'' | DebugLevel \<Rightarrow> ''[36m'' | InfoLevel \<Rightarrow> ''[32m''
   | WarningLevel \<Rightarrow> ''[33m'' | ErrorLevel \<Rightarrow> ''[31m'' | CriticalLevel \<Rightarrow> ''[1;31m'')"

definition level_column :: "bool \<Rightarrow> log_level \<Rightarrow> string" where
  "level_column colorize l = (let x = level_name l @ replicate (8 - length (level_name l)) CHR '' '' in
     if colorize then color_of l @ x @ CHR 0x1B # ''[0m'' else x)"

text \<open>The context of a line: the first eight characters of the identifiers that are not empty.\<close>

definition short_part :: "string \<Rightarrow> string option \<Rightarrow> string list" where
  "short_part name i = (case or_text i None of None \<Rightarrow> [] | Some x \<Rightarrow> [name @ ''='' @ take 8 x])"

definition context_part :: "log_entry \<Rightarrow> string" where
  "context_part e = (let ps = short_part ''cid'' (le_correlation e) @ short_part ''eid'' (le_event e) in
     if ps = [] then [] else '' ['' @ join '', '' ps @ '']'')"

definition rstrip :: "string \<Rightarrow> string" where
  "rstrip s = rev (dropWhile is_ws (rev s))"

text \<open>
  What there is to format of an exception: a value that is none has no traceback, and formatting it
  raises unless it is falsy.
\<close>

definition exception_of :: "exc_arg \<Rightarrow> pyexn + pyexn option" where
  "exception_of x = (case x of
     NoException \<Rightarrow> Inr None
   | Raised e \<Rightarrow> Inr (Some e)
   | NotAnException v \<Rightarrow> if truthy v
       then Inl (Exn (Py PyAttributeError) (quoted (class_name v) @ '' object has no attribute '' @
                  quoted ''__traceback__''))
       else Inr None)"

definition metadata_part :: "log_env \<Rightarrow> args \<Rightarrow> string" where
  "metadata_part env md = (if md = [] then []
     else '' | '' @ join ''  '' (map (\<lambda>(k, v). k @ ''='' @ (case v of VStr x \<Rightarrow> x | _ \<Rightarrow> lv_str env v)) md))"

definition human_line :: "log_env \<Rightarrow> bool \<Rightarrow> log_entry \<Rightarrow> pyexn + string" where
  "human_line env colorize e = (case exception_of (le_exception e) of
     Inl x \<Rightarrow> Inl x
   | Inr exc \<Rightarrow> Inr (human_time (le_timestamp e) @ '' '' @ level_column colorize (le_level e) @ '' '' @
       le_logger e @ context_part e @ '': '' @ le_message e @
       (case exc of None \<Rightarrow> [] | Some x \<Rightarrow> [CHR 0x0A] @ rstrip (lv_traceback env x)) @
       metadata_part env (le_metadata e)))"

text \<open>\<open>json.dumps(payload, default=str)\<close>: ASCII only, everything else escaped.\<close>

definition hex_char :: "nat \<Rightarrow> char" where
  "hex_char n = (if n < 10 then char_of (48 + n) else char_of (87 + n))"

definition json_char :: "char \<Rightarrow> string" where
  "json_char c = (let n = (of_char c :: nat) in
     if n = 34 then [CHR 0x5C, CHR 0x22] else if n = 92 then [CHR 0x5C, CHR 0x5C]
     else if n = 10 then [CHR 0x5C, CHR ''n''] else if n = 13 then [CHR 0x5C, CHR ''r'']
     else if n = 9 then [CHR 0x5C, CHR ''t''] else if n = 12 then [CHR 0x5C, CHR ''f'']
     else if n = 8 then [CHR 0x5C, CHR ''b'']
     else if 32 \<le> n \<and> n \<le> 126 then [c]
     else [CHR 0x5C, CHR ''u'', CHR ''0'', CHR ''0'', hex_char (n div 16), hex_char (n mod 16)])"

definition json_string :: "string \<Rightarrow> string" where
  "json_string s = [CHR 0x22] @ concat (map json_char s) @ [CHR 0x22]"

text \<open>\<open>NaN\<close> is what \<open>json.dumps\<close> writes for it; a float is written as \<open>str\<close> does, an object as its \<open>str\<close>.\<close>

fun json_text :: "(pyval \<Rightarrow> string) \<Rightarrow> pyval \<Rightarrow> string" where
  "json_text str_of VNone = ''null''"
| "json_text str_of (VBool b) = (if b then ''true'' else ''false'')"
| "json_text str_of (VInt i) = str_of_int i"
| "json_text str_of (VFloat m e) = str_of (VFloat m e)"
| "json_text str_of VNonFinite = ''NaN''"
| "json_text str_of (VStr s) = json_string s"
| "json_text str_of (VList xs) = ''['' @ join '', '' (map (json_text str_of) xs) @ '']''"
| "json_text str_of (VDict d) = ''{'' @ join '', ''
     (map (\<lambda>(k, v). json_string k @ '': '' @ json_text str_of v) d) @ ''}''"
| "json_text str_of (VObj c as) = json_string (str_of (VObj c as))"

definition optional_text :: "string \<Rightarrow> string option \<Rightarrow> args" where
  "optional_text k i = (case or_text i None of None \<Rightarrow> [] | Some x \<Rightarrow> [(k, VStr x)])"

definition json_payload :: "log_env \<Rightarrow> log_entry \<Rightarrow> pyexn option \<Rightarrow> args" where
  "json_payload env e exc = [(''timestamp'', VStr (iso_time (le_timestamp e))),
       (''level'', VStr (level_name (le_level e))), (''logger'', VStr (le_logger e)),
       (''message'', VStr (le_message e))] @
     optional_text ''correlation_id'' (le_correlation e) @ optional_text ''event_id'' (le_event e) @
     (if le_metadata e = [] then [] else [(''metadata'', VDict (le_metadata e))]) @
     (case exc of None \<Rightarrow> [] | Some x \<Rightarrow> [(''exception'', VDict
        [(''type'', VStr (lv_exn_name env (exn_cls x))), (''message'', VStr (exn_msg x)),
         (''traceback'', VStr (lv_traceback env x))])])"

definition json_line :: "log_env \<Rightarrow> log_entry \<Rightarrow> pyexn + string" where
  "json_line env e = (case exception_of (le_exception e) of
     Inl x \<Rightarrow> Inl x
   | Inr exc \<Rightarrow> Inr (json_text (lv_str env) (VDict (json_payload env e exc))))"

definition format_entry :: "log_env \<Rightarrow> formatter \<Rightarrow> log_entry \<Rightarrow> pyexn + string" where
  "format_entry env f e = (case f of
     HumanFormatter colorize \<Rightarrow> human_line env colorize e | JsonFormatter \<Rightarrow> json_line env e)"

section \<open>Sinks\<close>

definition sink_error :: "string \<Rightarrow> pyexn" where
  "sink_error m = Exn (InLogging SinkError) m"

definition closed_file :: pyexn where
  "closed_file = Exn (Py PyValueError) ''I/O operation on closed file.''"

text \<open>The line a sink writes for an entry, if it writes at all, and the message it fails with.\<close>

definition sink_format :: "sink_kind \<Rightarrow> (formatter \<times> string) option" where
  "sink_format k = (case k of
     NullSink \<Rightarrow> None
   | ConsoleSink f \<Rightarrow> Some (f, ''ConsoleSink failed to emit: '')
   | FileSink path f \<Rightarrow> Some (f, ''FileSink failed to emit to '' @ quoted path @ '': ''))"

definition written_line :: "log_env \<Rightarrow> nat \<Rightarrow> bool \<Rightarrow> formatter \<Rightarrow> log_entry \<Rightarrow> pyexn + string" where
  "written_line env i closed f e = (case format_entry env f e of
     Inl x \<Rightarrow> Inl x
   | Inr line \<Rightarrow> if closed then Inl closed_file
       else (case lv_write env i line of Some x \<Rightarrow> Inl x | None \<Rightarrow> Inr line))"

definition emit :: "log_env \<Rightarrow> log_entry \<Rightarrow> nat \<Rightarrow> (logsys, unit) act" where
  "emit env e i s = (let k = ls_sinks s ! i in
     case sink_format (sk_kind k) of
       None \<Rightarrow> (Inr (), s)
     | Some (f, msg) \<Rightarrow> (case written_line env i (sk_closed k) f e of
         Inl x \<Rightarrow> (Inl (sink_error (msg @ exn_msg x)), s)
       | Inr line \<Rightarrow> (Inr (), s\<lparr>ls_sinks := (ls_sinks s)[i := k\<lparr>sk_lines := sk_lines k @ [line]\<rparr>]\<rparr>)))"

text \<open>Flushing a closed file raises; closing the console only flushes it.\<close>

definition sink_flush :: "nat \<Rightarrow> (logsys, unit) act" where
  "sink_flush i s = (case sk_kind (ls_sinks s ! i) of
     FileSink path f \<Rightarrow> (if sk_closed (ls_sinks s ! i) then (Inl closed_file, s) else (Inr (), s))
   | _ \<Rightarrow> (Inr (), s))"

definition sink_close :: "nat \<Rightarrow> (logsys, unit) act" where
  "sink_close i = seqA (sink_flush i) (\<lambda>s. (Inr (), case sk_kind (ls_sinks s ! i) of
     FileSink path f \<Rightarrow> s\<lparr>ls_sinks := (ls_sinks s)[i := (ls_sinks s ! i)\<lparr>sk_closed := True\<rparr>]\<rparr>
   | _ \<Rightarrow> s))"

definition new_sink :: "log_env \<Rightarrow> sink_kind \<Rightarrow> (logsys, nat) act" where
  "new_sink env k s = (let add = (Inr (length (ls_sinks s)),
         s\<lparr>ls_sinks := ls_sinks s @ [\<lparr>sk_kind = k, sk_closed = False, sk_lines = []\<rparr>]\<rparr>) in
     case k of
       FileSink path f \<Rightarrow> (case lv_open env path of
           Some x \<Rightarrow> (Inl (sink_error (''FileSink could not open '' @ quoted path @ '': '' @ exn_msg x)), s)
         | None \<Rightarrow> add)
     | _ \<Rightarrow> add)"

section \<open>Loggers\<close>

text \<open>
  The level of a logger, its own or the nearest one above; each step up the hierarchy is a call, so
  a chain longer than the recursion limit raises.
\<close>

fun effective_within :: "nat \<Rightarrow> logger list \<Rightarrow> nat \<Rightarrow> pyexn + pyval" where
  "effective_within 0 ls i = Inl recursion_error"
| "effective_within (Suc n) ls i =
     (if lo_level (ls ! i) \<noteq> VNone then Inr (lo_level (ls ! i))
      else (case lo_parent (ls ! i) of
         None \<Rightarrow> Inr (threshold DebugLevel) | Some p \<Rightarrow> effective_within n ls p))"

definition effective_level :: "log_env \<Rightarrow> logsys \<Rightarrow> nat \<Rightarrow> pyexn + pyval" where
  "effective_level env s i = effective_within (lv_limit env) (ls_loggers s) i"

definition logger_set_level :: "nat \<Rightarrow> pyval \<Rightarrow> (logsys, unit) act" where
  "logger_set_level i v s = (Inr (), s\<lparr>ls_loggers := (ls_loggers s)[i := (ls_loggers s ! i)\<lparr>lo_level := v\<rparr>]\<rparr>)"

definition logger_add_sink :: "nat \<Rightarrow> nat \<Rightarrow> (logsys, unit) act" where
  "logger_add_sink i k s = (let l = ls_loggers s ! i in
     (Inr (), s\<lparr>ls_loggers := (ls_loggers s)[i := l\<lparr>lo_sinks := lo_sinks l @ [k]\<rparr>]\<rparr>))"

text \<open>An entry goes to the sinks of the logger, failures ignored, then to its parent.\<close>

primrec emit_all :: "log_env \<Rightarrow> log_entry \<Rightarrow> nat list \<Rightarrow> (logsys, unit) act" where
  "emit_all env e [] = ret ()"
| "emit_all env e (i # is) = seqA (catchA (emit env e i) (\<lambda>x. ret ())) (emit_all env e is)"

fun dispatch_within :: "log_env \<Rightarrow> nat \<Rightarrow> log_entry \<Rightarrow> nat \<Rightarrow> (logsys, unit) act" where
  "dispatch_within env 0 e i s = (Inl recursion_error, s)"
| "dispatch_within env (Suc n) e i s = (let l = ls_loggers s ! i in
     seqA (emit_all env e (lo_sinks l))
       (case lo_parent l of None \<Rightarrow> ret () | Some p \<Rightarrow> dispatch_within env n e p) s)"

definition build_entry ::
  "log_env \<Rightarrow> nat \<Rightarrow> log_level \<Rightarrow> string \<Rightarrow> exc_arg \<Rightarrow> args \<Rightarrow> (logsys, log_entry) act" where
  "build_entry env i l msg exc md s =
     (Inr \<lparr>le_level = l, le_logger = lo_name (ls_loggers s ! i), le_message = msg,
        le_timestamp = lv_now env (ls_clock s), le_correlation = lc_correlation (ls_context s),
        le_event = lc_event (ls_context s), le_exception = exc, le_metadata = md\<rparr>,
      s\<lparr>ls_clock := Suc (ls_clock s)\<rparr>)"

text \<open>Publishing is scheduled as a task of the running loop, if there is one.\<close>

definition schedule_publish :: "log_env \<Rightarrow> nat \<Rightarrow> log_entry \<Rightarrow> (logsys, unit) act" where
  "schedule_publish env i e s = (let l = ls_loggers s ! i in
     (Inr (), if lo_publish l \<and> lo_bus l \<and> lv_running env
        then s\<lparr>ls_tasks := ls_tasks s @ [e]\<rparr> else s))"

definition log_at ::
  "log_env \<Rightarrow> nat \<Rightarrow> log_level \<Rightarrow> string \<Rightarrow> exc_arg \<Rightarrow> args \<Rightarrow> (logsys, unit) act" where
  "log_at env i l msg exc md = (\<lambda>s.
     bindA (bindA (liftA (effective_level env s i)) (\<lambda>v. liftA (level_below l v))) (\<lambda>below.
       if below then ret ()
       else bindA (build_entry env i l msg exc md) (\<lambda>e.
         seqA (dispatch_within env (lv_limit env) e i) (schedule_publish env i e))) s)"

text \<open>
  The methods of the levels. A call gives a message (in its place or as a keyword \<open>message\<close>, which
  is the same), further arguments in their place (\<open>pos\<close>), maybe a keyword \<open>exception\<close> (\<open>kexc\<close>) and
  other keywords (\<open>md\<close>). Only \<open>error\<close> and \<open>critical\<close> have a parameter \<open>exception\<close>; the others pass a
  keyword of that name on, like all their keywords, and \<open>_log\<close> takes it. A keyword that meets an
  argument in its place, or \<open>self\<close>, makes the call a \<open>TypeError\<close>, and so do arguments that have no
  place; a keyword \<open>level\<close> meets the level the method passes itself. When several of these hold,
  Python names the first it finds; the model names them in a fixed order.
\<close>

definition takes_exception :: "log_level \<Rightarrow> bool" where
  "takes_exception l \<longleftrightarrow> l = ErrorLevel \<or> l = CriticalLevel"

definition clash_in :: "string \<Rightarrow> string \<Rightarrow> pyexn" where
  "clash_in m k = Exn (Py PyTypeError)
     (''Logger.'' @ m @ ''() got multiple values for argument '' @ quoted k)"

definition keyword_clash :: "string \<Rightarrow> pyexn" where
  "keyword_clash = clash_in ''_log''"

definition too_many :: "log_level \<Rightarrow> nat \<Rightarrow> pyexn" where
  "too_many l n = Exn (Py PyTypeError) (''Logger.'' @ lower (level_name l) @ ''() takes '' @
     (if takes_exception l then ''from 2 to 3'' else ''2'') @ '' positional arguments but '' @
     str_of_nat n @ '' were given'')"

definition logger_call ::
  "log_env \<Rightarrow> nat \<Rightarrow> log_level \<Rightarrow> string \<Rightarrow> exc_arg list \<Rightarrow> exc_arg option \<Rightarrow> args \<Rightarrow>
   (logsys, unit) act" where
  "logger_call env i l msg pos kexc md =
     (let m = lower (level_name l) in
      if has_key ''self'' md then liftA (Inl (clash_in m ''self''))
      else if has_key ''message'' md then liftA (Inl (clash_in m ''message''))
      else if takes_exception l \<and> pos \<noteq> [] \<and> kexc \<noteq> None then liftA (Inl (clash_in m ''exception''))
      else if (if takes_exception l then 1 else 0) < length pos
      then liftA (Inl (too_many l (2 + length pos)))
      else if has_key ''level'' md then liftA (Inl (keyword_clash ''level''))
      else log_at env i l msg (case pos of x # xs \<Rightarrow> x
          | [] \<Rightarrow> case kexc of Some x \<Rightarrow> x | None \<Rightarrow> NoException) md)"

text \<open>The calls whose arguments find their parameters, and the exception they give.\<close>

definition binds :: "log_level \<Rightarrow> exc_arg list \<Rightarrow> exc_arg option \<Rightarrow> args \<Rightarrow> bool" where
  "binds l pos kexc md \<longleftrightarrow> fst ` set md \<inter> {''self'', ''message'', ''level''} = {} \<and>
     (pos = [] \<or> l \<in> {ErrorLevel, CriticalLevel} \<and> length pos = 1 \<and> kexc = None)"

definition exception_given :: "exc_arg list \<Rightarrow> exc_arg option \<Rightarrow> exc_arg" where
  "exception_given pos kexc = (if pos \<noteq> [] then hd pos else if kexc = None then NoException else the kexc)"

lemma call_binds:
  "binds l pos kexc md \<Longrightarrow>
     logger_call env i l msg pos kexc md = log_at env i l msg (exception_given pos kexc) md"
  "\<not> binds l pos kexc md \<Longrightarrow>
     \<exists>m. logger_call env i l msg pos kexc md s = (Inl (Exn (Py PyTypeError) m), s)"
proof -
  have key: "has_key k md \<longleftrightarrow> k \<in> fst ` set md" for k
    by (auto simp: has_key_def map_of_eq_None_iff)
  show "binds l pos kexc md \<Longrightarrow>
     logger_call env i l msg pos kexc md = log_at env i l msg (exception_given pos kexc) md"
    by (auto simp: logger_call_def binds_def exception_given_def takes_exception_def key Let_def
        split: list.split option.split)
  show "\<exists>m. logger_call env i l msg pos kexc md s = (Inl (Exn (Py PyTypeError) m), s)"
    if "\<not> binds l pos kexc md"
  proof (cases "fst ` set md \<inter> {''self'', ''message'', ''level''} = {}")
    case True
    with that show ?thesis
      by (cases pos) (auto simp: logger_call_def binds_def takes_exception_def key Let_def liftA_def
          clash_in_def too_many_def)
  next
    case False
    then consider "has_key ''self'' md" | "has_key ''message'' md" | "has_key ''level'' md"
      unfolding key Int_insert_right by (auto simp del: image_iff split: if_splits)
    then show ?thesis
      by cases (auto simp: logger_call_def Let_def liftA_def clash_in_def keyword_clash_def too_many_def)
  qed
qed

definition logger_child :: "nat \<Rightarrow> string \<Rightarrow> (logsys, nat) act" where
  "logger_child i suffix s = (let l = ls_loggers s ! i in
     (Inr (length (ls_loggers s)), s\<lparr>ls_loggers := ls_loggers s @
        [l\<lparr>lo_name := lo_name l @ ''.'' @ suffix, lo_sinks := [], lo_parent := Some i\<rparr>]\<rparr>))"

text \<open>
  What the scheduled task does: it publishes an event made of the entry; \<open>bus\<close> says what publishing
  raises, which is ignored.
\<close>

record bus_event =
  be_source :: string
  be_payload :: args
  be_correlation :: "string option"

definition log_event :: "log_entry \<Rightarrow> bus_event" where
  "log_event e = \<lparr>be_source = le_logger e, be_payload = [(''level'', VStr (level_name (le_level e))),
     (''message'', VStr (le_message e))], be_correlation = le_correlation e\<rparr>"

definition publish_to_bus ::
  "(bus_event \<Rightarrow> pyexn option) \<Rightarrow> log_entry \<Rightarrow> (bus_event list, unit) act" where
  "publish_to_bus bus e = catchA (\<lambda>published. case bus (log_event e) of
       Some x \<Rightarrow> (Inl x, published) | None \<Rightarrow> (Inr (), published @ [log_event e]))
     (\<lambda>x. ret ())"

section \<open>The factory\<close>

text \<open>\<open>name.rsplit('.', 1)\<close>: what is before the last dot.\<close>

definition before_dot :: "string \<Rightarrow> string option" where
  "before_dot name = (case dropWhile (\<lambda>c. c \<noteq> CHR ''.'') (rev name) of
     [] \<Rightarrow> None | c # r \<Rightarrow> Some (rev r))"

fun find_parent_within :: "nat \<Rightarrow> (string, nat) pydict \<Rightarrow> string \<Rightarrow> pyexn + nat option" where
  "find_parent_within 0 names name = Inl recursion_error"
| "find_parent_within (Suc n) names name = (case before_dot name of
     None \<Rightarrow> Inr None
   | Some p \<Rightarrow> (case map_of names p of
       Some i \<Rightarrow> Inr (Some i) | None \<Rightarrow> find_parent_within n names p))"

text \<open>A root logger gets the sinks of the factory, any other a parent and no sinks; both get its level.\<close>

definition make_logger :: "log_factory \<Rightarrow> string \<Rightarrow> nat option \<Rightarrow> logger" where
  "make_logger fa name parent = \<lparr>lo_name = name, lo_level = lf_level fa,
     lo_sinks = (if parent = None then lf_sinks fa else []), lo_parent = parent, lo_bus = lf_bus fa,
     lo_publish = lf_publish fa\<rparr>"

definition factory_get :: "log_env \<Rightarrow> log_factory \<Rightarrow> string \<Rightarrow> (logsys, nat) act" where
  "factory_get env fa name s = (case map_of (ls_names s) name of
     Some i \<Rightarrow> (Inr i, s)
   | None \<Rightarrow> bindA (liftA (find_parent_within (lv_limit env) (ls_names s) name)) (\<lambda>parent s.
       (Inr (length (ls_loggers s)), s\<lparr>ls_loggers := ls_loggers s @ [make_logger fa name parent],
          ls_names := AList.update name (length (ls_loggers s)) (ls_names s)\<rparr>)) s)"

definition factory_set_level :: "log_env \<Rightarrow> log_factory \<Rightarrow> string \<Rightarrow> pyval \<Rightarrow> (logsys, unit) act" where
  "factory_set_level env fa name v = bindA (factory_get env fa name) (\<lambda>i. logger_set_level i v)"

definition factory_add_sink :: "log_env \<Rightarrow> log_factory \<Rightarrow> string \<Rightarrow> nat \<Rightarrow> (logsys, unit) act" where
  "factory_add_sink env fa name k = bindA (factory_get env fa name) (\<lambda>i. logger_add_sink i k)"

text \<open>A new factory; without sinks, or with an empty list of them, it makes a console sink.\<close>

definition empty_logsys :: logsys where
  "empty_logsys = \<lparr>ls_loggers = [], ls_names = [], ls_sinks = [], ls_context = empty_context,
     ls_clock = 0, ls_uid = 0, ls_tasks = []\<rparr>"

definition new_factory :: "log_env \<Rightarrow> pyval \<Rightarrow> nat list \<Rightarrow> bool \<Rightarrow> bool \<Rightarrow> (logsys, log_factory) act" where
  "new_factory env v sinks bus pub = bindA
     (if sinks \<noteq> [] then ret sinks
      else bindA (new_sink env (ConsoleSink (HumanFormatter True))) (\<lambda>i. ret [i]))
     (\<lambda>ks. ret \<lparr>lf_level = v, lf_sinks = ks, lf_bus = bus, lf_publish = pub\<rparr>)"

text \<open>\<open>LoggingModule.from_config\<close> up to the factory it wraps, and the loggers \<open>configure\<close> registers.\<close>

definition module_sinks ::
  "log_env \<Rightarrow> string \<Rightarrow> bool \<Rightarrow> string option \<Rightarrow> (logsys, nat list) act" where
  "module_sinks env formatter_type console path =
     (let f = if formatter_type = ''json'' then JsonFormatter else HumanFormatter console in
      bindA (if console then bindA (new_sink env (ConsoleSink f)) (\<lambda>i. ret [i]) else ret []) (\<lambda>xs.
      bindA (case or_text path None of
          None \<Rightarrow> ret xs
        | Some p \<Rightarrow> bindA (new_sink env (FileSink p (HumanFormatter False))) (\<lambda>i. ret (xs @ [i]))) (\<lambda>ys.
      if ys = [] then bindA (new_sink env NullSink) (\<lambda>i. ret [i]) else ret ys)))"

definition from_config ::
  "log_env \<Rightarrow> pyval \<Rightarrow> string \<Rightarrow> bool \<Rightarrow> string option \<Rightarrow> bool \<Rightarrow> bool \<Rightarrow> (logsys, log_factory) act" where
  "from_config env v formatter_type console path bus pub =
     bindA (module_sinks env formatter_type console path) (\<lambda>ks. new_factory env v ks bus pub)"

definition logging_configure :: "log_env \<Rightarrow> log_factory \<Rightarrow> (logsys, nat) act" where
  "logging_configure env fa = factory_get env fa ''ira''"

section \<open>What emitting an entry does\<close>

definition sink_output :: "log_env \<Rightarrow> log_entry \<Rightarrow> nat \<Rightarrow> log_sink \<Rightarrow> string list" where
  "sink_output env e i k = (case sink_format (sk_kind k) of
     None \<Rightarrow> []
   | Some (f, msg) \<Rightarrow> (case written_line env i (sk_closed k) f e of Inl x \<Rightarrow> [] | Inr line \<Rightarrow> [line]))"

lemma sink_output_lines [simp]: "sink_output env e i (k\<lparr>sk_lines := ls\<rparr>) = sink_output env e i k"
  by (cases "sink_format (sk_kind k)") (auto simp: sink_output_def)

definition sinks_after :: "log_env \<Rightarrow> log_entry \<Rightarrow> nat list \<Rightarrow> log_sink list \<Rightarrow> log_sink list" where
  "sinks_after env e is ks = map (\<lambda>j. (ks ! j)\<lparr>sk_lines := sk_lines (ks ! j) @
     concat (replicate (count_list is j) (sink_output env e j (ks ! j)))\<rparr>) [0..<length ks]"

lemma emit_state:
  assumes "i < length (ls_sinks s)"
  shows "snd (emit env e i s) = s\<lparr>ls_sinks := sinks_after env e [i] (ls_sinks s)\<rparr>"
proof -
  let ?k = "ls_sinks s ! i"
  have "(ls_sinks s)[i := ?k\<lparr>sk_lines := sk_lines ?k @ sink_output env e i ?k\<rparr>] =
      sinks_after env e [i] (ls_sinks s)"
    using assms by (auto simp: sinks_after_def intro!: nth_equalityI simp: nth_list_update)
  moreover have "snd (emit env e i s) =
      s\<lparr>ls_sinks := (ls_sinks s)[i := ?k\<lparr>sk_lines := sk_lines ?k @ sink_output env e i ?k\<rparr>]\<rparr>"
    by (simp add: emit_def sink_output_def Let_def split: option.split sum.split prod.split)
  ultimately show ?thesis by simp
qed

lemma sinks_after_simps:
  "length (sinks_after env e is ks) = length ks"
  "sinks_after env e [] ks = ks"
  "sinks_after env e js (sinks_after env e is ks) = sinks_after env e (is @ js) ks"
  by (auto simp: sinks_after_def count_list_append replicate_add intro!: nth_equalityI)

lemma emit_all_state:
  assumes "set is \<subseteq> {..<length (ls_sinks s)}"
  shows "emit_all env e is s = (Inr (), s\<lparr>ls_sinks := sinks_after env e is (ls_sinks s)\<rparr>)"
  using assms
proof (induction "is" arbitrary: s)
  case Nil
  then show ?case by (simp add: ret_def sinks_after_simps)
next
  case (Cons i "is")
  obtain r t where t: "emit env e i s = (r, t)" by fastforce
  with emit_state[of i s env e] Cons.prems
  have "t = s\<lparr>ls_sinks := sinks_after env e [i] (ls_sinks s)\<rparr>" by simp
  with Cons.IH[of t] Cons.prems t show ?case
    by (cases r) (simp_all add: seqA_def bindA_def catchA_def ret_def sinks_after_simps)
qed

section \<open>Chains of loggers\<close>

text \<open>Parents are older than their children, and every sink exists.\<close>

definition loggers_ok :: "nat \<Rightarrow> logger list \<Rightarrow> bool" where
  "loggers_ok m ls \<longleftrightarrow> (\<forall>i < length ls. (\<forall>p. lo_parent (ls ! i) = Some p \<longrightarrow> p < i) \<and>
     set (lo_sinks (ls ! i)) \<subseteq> {..<m})"

fun logger_chain :: "nat \<Rightarrow> logger list \<Rightarrow> nat \<Rightarrow> nat list" where
  "logger_chain 0 ls i = []"
| "logger_chain (Suc n) ls i = i # (case lo_parent (ls ! i) of None \<Rightarrow> [] | Some p \<Rightarrow> logger_chain n ls p)"

definition chain_sinks :: "nat \<Rightarrow> logger list \<Rightarrow> nat \<Rightarrow> nat list" where
  "chain_sinks n ls i = concat (map (\<lambda>j. lo_sinks (ls ! j)) (logger_chain n ls i))"

lemma chain_sinks_Suc: "chain_sinks (Suc n) ls i = lo_sinks (ls ! i) @
    (case lo_parent (ls ! i) of None \<Rightarrow> [] | Some p \<Rightarrow> chain_sinks n ls p)"
  by (simp add: chain_sinks_def split: option.split)

lemma dispatch_emits:
  assumes "loggers_ok (length (ls_sinks s)) (ls_loggers s)" "i < length (ls_loggers s)" "i < n"
  shows "dispatch_within env n e i s =
    (Inr (), s\<lparr>ls_sinks := sinks_after env e (chain_sinks n (ls_loggers s) i) (ls_sinks s)\<rparr>)"
  using assms
proof (induction n arbitrary: i s)
  case (Suc n)
  let ?l = "ls_loggers s ! i"
  have l: "set (lo_sinks ?l) \<subseteq> {..<length (ls_sinks s)}" and p: "\<And>p. lo_parent ?l = Some p \<Longrightarrow> p < i"
    using Suc.prems(1,2) by (auto simp: loggers_ok_def)
  let ?t = "s\<lparr>ls_sinks := sinks_after env e (lo_sinks ?l) (ls_sinks s)\<rparr>"
  show ?case
  proof (cases "lo_parent ?l")
    case None
    then show ?thesis by (simp add: Let_def seqA_def bindA_def ret_def emit_all_state[OF l] chain_sinks_Suc)
  next
    case (Some q)
    have "dispatch_within env n e q ?t =
        (Inr (), ?t\<lparr>ls_sinks := sinks_after env e (chain_sinks n (ls_loggers ?t) q) (ls_sinks ?t)\<rparr>)"
      by (rule Suc.IH) (use Suc.prems p[OF Some] in \<open>auto simp: sinks_after_simps\<close>)
    with Some show ?thesis
      by (simp add: Let_def seqA_def bindA_def emit_all_state[OF l] chain_sinks_Suc sinks_after_simps)
  qed
qed simp

section \<open>Histories of a factory\<close>

text \<open>What a program does with a factory, by the names of the loggers; a sink is added when it is made.\<close>

datatype log_op =
    OpGet string
  | OpLevel string log_level
  | OpSink string sink_kind
  | OpLog string log_level string "exc_arg list" "exc_arg option" args
  | OpCorrelation string
  | OpEvent string

fun op_name :: "log_op \<Rightarrow> string" where
  "op_name (OpGet n) = n"
| "op_name (OpLevel n l) = n"
| "op_name (OpSink n k) = n"
| "op_name (OpLog n l msg pos kexc md) = n"
| "op_name _ = []"

fun run_log_op :: "log_env \<Rightarrow> log_factory \<Rightarrow> log_op \<Rightarrow> (logsys, unit) act" where
  "run_log_op env fa (OpGet n) = seqA (factory_get env fa n) (ret ())"
| "run_log_op env fa (OpLevel n l) = factory_set_level env fa n (threshold l)"
| "run_log_op env fa (OpSink n k) = bindA (new_sink env k) (factory_add_sink env fa n)"
| "run_log_op env fa (OpLog n l msg pos kexc md) =
     bindA (factory_get env fa n) (\<lambda>i. logger_call env i l msg pos kexc md)"
| "run_log_op env fa (OpCorrelation i) = set_correlation_id i"
| "run_log_op env fa (OpEvent i) = set_event_id i"

fun run_log :: "log_env \<Rightarrow> log_factory \<Rightarrow> log_op list \<Rightarrow> logsys \<Rightarrow> logsys" where
  "run_log env fa [] s = s"
| "run_log env fa (c # cs) s = run_log env fa cs (snd (run_log_op env fa c s))"

text \<open>
  The invariant: loggers are well-formed and named once, a logger without parent has the sinks of
  the factory first, and no sink of the factory is anywhere else.
\<close>

definition own_sinks :: "nat list \<Rightarrow> logger \<Rightarrow> bool" where
  "own_sinks ks l \<longleftrightarrow> (\<exists>extra. set extra \<inter> set ks = {} \<and>
     lo_sinks l = (if lo_parent l = None then ks else []) @ extra)"

definition factory_ok :: "log_factory \<Rightarrow> logsys \<Rightarrow> bool" where
  "factory_ok fa s \<longleftrightarrow> loggers_ok (length (ls_sinks s)) (ls_loggers s) \<and>
     set (lf_sinks fa) \<subseteq> {..<length (ls_sinks s)} \<and>
     (\<forall>n i. map_of (ls_names s) n = Some i \<longrightarrow> i < length (ls_loggers s) \<and> lo_name (ls_loggers s ! i) = n) \<and>
     (\<forall>i < length (ls_loggers s). own_sinks (lf_sinks fa) (ls_loggers s ! i))"

lemma make_logger_sel [simp]:
  "lo_parent (make_logger fa n p) = p" "lo_name (make_logger fa n p) = n"
  "lo_level (make_logger fa n p) = lf_level fa"
  "lo_sinks (make_logger fa n p) = (if p = None then lf_sinks fa else [])"
  by (simp_all add: make_logger_def)

lemma own_sinks_simps [simp]:
  "own_sinks ks (l\<lparr>lo_level := v\<rparr>) = own_sinks ks l"
  "k \<notin> set ks \<Longrightarrow> own_sinks ks l \<Longrightarrow> own_sinks ks (l\<lparr>lo_sinks := lo_sinks l @ [k]\<rparr>)"
  "own_sinks (lf_sinks fa) (make_logger fa n p)"
proof -
  assume "k \<notin> set ks" "own_sinks ks l"
  then obtain extra where "set (extra @ [k]) \<inter> set ks = {}"
    "lo_sinks l @ [k] = (if lo_parent l = None then ks else []) @ extra @ [k]"
    by (auto simp: own_sinks_def)
  then show "own_sinks ks (l\<lparr>lo_sinks := lo_sinks l @ [k]\<rparr>)"
    unfolding own_sinks_def by (intro exI[of _ "extra @ [k]"]) simp
qed (simp_all add: own_sinks_def make_logger_def)

lemma before_dot_shorter: "before_dot name = Some p \<Longrightarrow> length p < length name"
proof -
  assume "before_dot name = Some p"
  then obtain c r where "dropWhile (\<lambda>c. c \<noteq> CHR ''.'') (rev name) = c # r" "p = rev r"
    by (auto simp: before_dot_def split: list.splits)
  moreover have "length (dropWhile (\<lambda>c. c \<noteq> CHR ''.'') (rev name)) \<le> length name"
    by (metis length_dropWhile_le length_rev)
  ultimately show ?thesis by simp
qed

lemma find_parent_total:
  "length name < n \<Longrightarrow> \<exists>r. find_parent_within n names name = Inr r"
proof (induction n arbitrary: name)
  case (Suc n)
  then show ?case
    by (cases "before_dot name") (auto dest: before_dot_shorter split: option.split)
qed simp

lemma find_parent_known: "find_parent_within n names name = Inr (Some i) \<Longrightarrow> \<exists>p. map_of names p = Some i"
  by (induction n arbitrary: name) (auto split: option.splits)

lemma factory_get_cases:
  assumes "factory_get env fa name s = (r, t)"
  obtains (found) i where "map_of (ls_names s) name = Some i" "r = Inr i" "t = s"
  | (made) parent where "map_of (ls_names s) name = None" "r = Inr (length (ls_loggers s))"
      "find_parent_within (lv_limit env) (ls_names s) name = Inr parent"
      "t = s\<lparr>ls_loggers := ls_loggers s @ [make_logger fa name parent],
         ls_names := AList.update name (length (ls_loggers s)) (ls_names s)\<rparr>"
  | (deep) e where "r = Inl e" "t = s" "lv_limit env \<le> length name"
  using assms find_parent_total[of name "lv_limit env" "ls_names s"]
  by (cases "map_of (ls_names s) name"; cases "find_parent_within (lv_limit env) (ls_names s) name")
    (auto simp: factory_get_def not_le[symmetric] liftA_def)

lemma factory_get_ok:
  assumes "factory_ok fa s"
  shows "factory_ok fa (snd (factory_get env fa name s))"
proof -
  obtain r t where g: "factory_get env fa name s = (r, t)" by fastforce
  then show ?thesis
  proof (cases rule: factory_get_cases)
    case (made parent)
    have par: "p < length (ls_loggers s)" if "parent = Some p" for p
      using find_parent_known made(3) that assms by (force simp: factory_ok_def)
    show ?thesis
      unfolding g snd_conv made(4)
      using assms par
      by (auto simp: factory_ok_def loggers_ok_def nth_append less_Suc_eq subset_eq
          split: if_splits)
  qed (use g assms in simp_all)
qed

text \<open>Logging leaves the loggers and the number of sinks alone.\<close>

definition log_frame :: "logsys \<Rightarrow> logsys \<Rightarrow> bool" where
  "log_frame s t \<longleftrightarrow> ls_loggers t = ls_loggers s \<and> ls_names t = ls_names s \<and>
     length (ls_sinks t) = length (ls_sinks s)"

lemma log_frame_refl: "reflp log_frame" and log_frame_trans: "transp log_frame"
  by (auto simp: log_frame_def reflp_def transp_def)

lemma log_frame_emit: "keepsA log_frame (emit env e i)"
  by (auto simp: keepsA_def log_frame_def emit_def Let_def split: option.split sum.split)

lemma log_frame_emit_all: "keepsA log_frame (emit_all env e is)"
  by (induction "is") (auto intro!: keepsA_ret keepsA_seq keepsA_catch log_frame_refl log_frame_trans log_frame_emit)

lemma log_frame_dispatch: "keepsA log_frame (dispatch_within env n e i)"
proof (induction n arbitrary: i)
  case 0
  then show ?case using log_frame_refl by (simp add: keepsA_def reflp_def)
next
  case (Suc n)
  have k: "keepsA log_frame (seqA (emit_all env e ks)
      (case p of None \<Rightarrow> ret () | Some q \<Rightarrow> dispatch_within env n e q))" for ks p
    by (auto intro!: keepsA_seq log_frame_trans log_frame_emit_all keepsA_ret log_frame_refl Suc split: option.split)
  show ?case unfolding keepsA_def
  proof
    fix s show "log_frame s (snd (dispatch_within env (Suc n) e i s))"
      using k[of "lo_sinks (ls_loggers s ! i)" "lo_parent (ls_loggers s ! i)"]
      by (simp add: keepsA_def Let_def)
  qed
qed

lemma log_frame_call: "log_frame s (snd (logger_call env i l msg pos kexc md s))"
proof -
  have "keepsA log_frame (\<lambda>s. bindA (bindA (liftA (effective_level env s0 i)) (\<lambda>v. liftA (level_below l v)))
      (\<lambda>below. if below then ret () else bindA (build_entry env i l msg exc md) (\<lambda>e.
         seqA (dispatch_within env (lv_limit env) e i) (schedule_publish env i e))) s)" for s0 exc
    by (auto intro!: keepsA_bind keepsA_seq keepsA_ret keepsA_lift log_frame_refl log_frame_trans log_frame_dispatch)
      (auto simp: keepsA_def log_frame_def build_entry_def schedule_publish_def Let_def)
  then have "log_frame s (snd (log_at env i l msg exc md s))" for exc by (simp add: keepsA_def log_at_def)
  moreover have "log_frame s s" using log_frame_refl by (simp add: reflp_def)
  ultimately show ?thesis by (simp add: logger_call_def liftA_def Let_def)
qed

lemma factory_ok_frame: "factory_ok fa s \<Longrightarrow> log_frame s t \<Longrightarrow> factory_ok fa t"
  by (simp add: factory_ok_def log_frame_def)

lemma set_level_ok: "factory_ok fa s \<Longrightarrow> factory_ok fa (snd (logger_set_level i v s))"
  by (cases "i < length (ls_loggers s)")
    (auto simp: factory_ok_def loggers_ok_def logger_set_level_def nth_list_update list_update_beyond)

lemma add_sink_ok:
  assumes "factory_ok fa s" "k < length (ls_sinks s)" "k \<notin> set (lf_sinks fa)"
  shows "factory_ok fa (snd (logger_add_sink i k s))"
proof (cases "i < length (ls_loggers s)")
  case True
  with assms show ?thesis
    unfolding factory_ok_def loggers_ok_def logger_add_sink_def Let_def
    by (auto simp: nth_list_update)
next
  case False
  with assms(1) show ?thesis by (simp add: logger_add_sink_def Let_def list_update_beyond)
qed

lemma new_sink_cases:
  assumes "new_sink env k s = (r, t)"
  shows "(\<exists>e. r = Inl e \<and> t = s) \<or> (r = Inr (length (ls_sinks s)) \<and>
    t = s\<lparr>ls_sinks := ls_sinks s @ [\<lparr>sk_kind = k, sk_closed = False, sk_lines = []\<rparr>]\<rparr>)"
  using assms by (auto simp: new_sink_def Let_def split: sink_kind.splits option.splits)

lemma sinks_grow: "factory_ok fa s \<Longrightarrow> factory_ok fa (s\<lparr>ls_sinks := ls_sinks s @ xs\<rparr>)"
  by (fastforce simp: factory_ok_def loggers_ok_def subset_eq)

lemma factory_get_sinks: "ls_sinks (snd (factory_get env fa n s)) = ls_sinks s"
proof -
  obtain r t where g: "factory_get env fa n s = (r, t)" by fastforce
  then show ?thesis by (cases rule: factory_get_cases) (simp_all add: g)
qed

lemma run_log_op_ok:
  assumes "factory_ok fa s"
  shows "factory_ok fa (snd (run_log_op env fa c s))"
proof -
  note get = factory_get_ok[OF assms, of env]
  show ?thesis
  proof (cases c)
    case (OpGet n)
    with get[of n] show ?thesis
      by (cases "factory_get env fa n s"; cases "fst (factory_get env fa n s)")
        (simp_all add: seqA_def bindA_def ret_def)
  next
    case (OpLevel n l)
    with get[of n] set_level_ok show ?thesis
      by (cases "factory_get env fa n s"; cases "fst (factory_get env fa n s)")
        (simp_all add: factory_set_level_def bindA_def)
  next
    case (OpSink n k)
    obtain r t where t: "new_sink env k s = (r, t)" by fastforce
    from new_sink_cases[OF t] show ?thesis
    proof (elim disjE exE conjE)
      fix e assume "r = Inl e" "t = s"
      with t OpSink assms show ?thesis by (simp add: bindA_def)
    next
      assume r: "r = Inr (length (ls_sinks s))"
        and tt: "t = s\<lparr>ls_sinks := ls_sinks s @ [\<lparr>sk_kind = k, sk_closed = False, sk_lines = []\<rparr>]\<rparr>"
      have "factory_ok fa t" unfolding tt by (rule sinks_grow[OF assms])
      obtain x u where u: "factory_get env fa n t = (x, u)" by fastforce
      have "factory_ok fa u" "ls_sinks u = ls_sinks t"
        using factory_get_ok[OF \<open>factory_ok fa t\<close>, of env n] factory_get_sinks[of env fa n t] u by simp_all
      moreover have "length (ls_sinks s) \<notin> set (lf_sinks fa)" using assms by (auto simp: factory_ok_def)
      ultimately show ?thesis
        using OpSink t r u tt add_sink_ok[of fa u "length (ls_sinks s)"]
        by (cases x) (simp_all add: bindA_def factory_add_sink_def)
    qed
  next
    case (OpLog n l msg pos kexc md)
    with get[of n] factory_ok_frame[OF _ log_frame_call] show ?thesis
      by (cases "factory_get env fa n s"; cases "fst (factory_get env fa n s)") (simp_all add: bindA_def)
  qed (use assms in \<open>simp_all add: set_correlation_id_def set_event_id_def factory_ok_def\<close>)
qed

lemma run_log_ok: "factory_ok fa s \<Longrightarrow> factory_ok fa (run_log env fa cs s)"
  by (induction cs arbitrary: s) (simp_all add: run_log_op_ok)

section \<open>Levels are those last set by name\<close>

fun last_levels :: "(string \<Rightarrow> pyval) \<Rightarrow> log_op list \<Rightarrow> string \<Rightarrow> pyval" where
  "last_levels f [] = f"
| "last_levels f (OpLevel n l # cs) = last_levels (f(n := threshold l)) cs"
| "last_levels f (c # cs) = last_levels f cs"

definition levels_are :: "log_factory \<Rightarrow> (string \<Rightarrow> pyval) \<Rightarrow> logsys \<Rightarrow> bool" where
  "levels_are fa f s \<longleftrightarrow> (\<forall>n i. map_of (ls_names s) n = Some i \<longrightarrow> lo_level (ls_loggers s ! i) = f n) \<and>
     (\<forall>n. map_of (ls_names s) n = None \<longrightarrow> f n = lf_level fa)"

lemma levels_are_get:
  assumes "factory_ok fa s" "levels_are fa f s"
  shows "levels_are fa f (snd (factory_get env fa name s))"
proof -
  obtain r t where g: "factory_get env fa name s = (r, t)" by fastforce
  then show ?thesis
  proof (cases rule: factory_get_cases)
    case (made parent)
    have "i < length (ls_loggers s)" if "map_of (ls_names s) n = Some i" for n i
      using that assms(1) by (auto simp: factory_ok_def)
    with assms(2) made(1) show ?thesis
      unfolding g snd_conv made(4)
      by (auto simp: levels_are_def nth_append)
  qed (use g assms in simp_all)
qed

lemma factory_get_named:
  assumes "factory_ok fa s" "factory_get env fa name s = (Inr i, t)"
  shows "map_of (ls_names t) name = Some i \<and> i < length (ls_loggers t)"
  using assms(2,1) by (cases rule: factory_get_cases) (auto simp: factory_ok_def)

lemma factory_get_short:
  assumes "length name < lv_limit env"
  shows "\<exists>i. fst (factory_get env fa name s) = Inr i"
proof -
  obtain r t where g: "factory_get env fa name s = (r, t)" by fastforce
  then show ?thesis by (cases rule: factory_get_cases) (use assms g in simp_all)
qed

lemma levels_are_set:
  assumes "factory_ok fa s" "levels_are fa f s" "map_of (ls_names s) n = Some i"
  shows "levels_are fa (f(n := v)) (snd (logger_set_level i v s))"
proof -
  have names: "map_of (ls_names s) m = Some j \<Longrightarrow> j < length (ls_loggers s) \<and> lo_name (ls_loggers s ! j) = m" for m j
    using assms(1) by (simp add: factory_ok_def)
  have "lo_level ((ls_loggers s)[i := (ls_loggers s ! i)\<lparr>lo_level := v\<rparr>] ! j) = (f(n := v)) m"
    if "map_of (ls_names s) m = Some j" for m j
    using names[OF that] names[OF assms(3)] assms(2,3) that
    by (cases "m = n") (auto simp: levels_are_def nth_list_update)
  moreover have "(f(n := v)) m = lf_level fa" if "map_of (ls_names s) m = None" for m
    using that assms(2,3) by (auto simp: levels_are_def)
  ultimately show ?thesis by (simp add: levels_are_def logger_set_level_def)
qed

lemma levels_are_frame: "levels_are fa f s \<Longrightarrow> log_frame s t \<Longrightarrow> levels_are fa f t"
  by (simp add: levels_are_def log_frame_def)

lemma levels_are_sink: "levels_are fa f s \<Longrightarrow> levels_are fa f (snd (logger_add_sink i k s))"
  by (cases "i < length (ls_loggers s)")
    (auto simp: levels_are_def logger_add_sink_def Let_def nth_list_update list_update_beyond)

lemma run_log_op_levels:
  assumes ok: "factory_ok fa s" and "levels_are fa f s" and "length (op_name c) < lv_limit env"
  shows "levels_are fa (last_levels f [c]) (snd (run_log_op env fa c s))"
proof -
  note get = levels_are_get[OF assms(1,2), of env]
  show ?thesis
  proof (cases c)
    case (OpGet n)
    with get[of n] show ?thesis
      by (cases "factory_get env fa n s"; cases "fst (factory_get env fa n s)")
        (simp_all add: seqA_def bindA_def ret_def)
  next
    case (OpLevel n l)
    then obtain i t where t: "factory_get env fa n s = (Inr i, t)"
      using factory_get_short[of n env fa s] assms(3) by (auto simp: fst_def split: prod.splits)
    have "factory_ok fa t" "levels_are fa f t" "map_of (ls_names t) n = Some i"
      using factory_get_ok[OF ok, of env n] get[of n] factory_get_named[OF ok t] t by simp_all
    from levels_are_set[OF this] OpLevel t show ?thesis by (simp add: factory_set_level_def bindA_def)
  next
    case (OpSink n k)
    obtain r t where t: "new_sink env k s = (r, t)" by fastforce
    have s: "factory_ok fa t \<and> levels_are fa f t"
      using new_sink_cases[OF t] assms(1,2) sinks_grow[OF ok] by (auto simp: levels_are_def)
    obtain x u where u: "factory_get env fa n t = (x, u)" by fastforce
    have "levels_are fa f u" using levels_are_get[of fa t f env n] s u by simp
    with OpSink t u s show ?thesis
      by (cases r; cases x) (simp_all add: bindA_def factory_add_sink_def levels_are_sink)
  next
    case (OpLog n l msg pos kexc md)
    with get[of n] levels_are_frame[OF _ log_frame_call] show ?thesis
      by (cases "factory_get env fa n s"; cases "fst (factory_get env fa n s)") (simp_all add: bindA_def)
  qed (use assms in \<open>simp_all add: set_correlation_id_def set_event_id_def levels_are_def\<close>)
qed

lemma last_levels_Cons: "last_levels f (c # cs) = last_levels (last_levels f [c]) cs"
  by (cases c) simp_all

lemma run_log_levels:
  assumes "factory_ok fa s" "levels_are fa f s" "list_all (\<lambda>c. length (op_name c) < lv_limit env) cs"
  shows "levels_are fa (last_levels f cs) (run_log env fa cs s)"
  using assms
proof (induction cs arbitrary: s f)
  case (Cons c cs)
  have "levels_are fa (last_levels (last_levels f [c]) cs) (run_log env fa cs (snd (run_log_op env fa c s)))"
    by (rule Cons.IH) (use Cons.prems run_log_op_ok run_log_op_levels in auto)
  then show ?case by (simp add: last_levels_Cons[of f c cs])
qed simp

section \<open>Every sink of the factory hears every logger once\<close>

lemma chain_default:
  assumes "factory_ok fa s" "i < length (ls_loggers s)" "i < n" "k \<in> set (lf_sinks fa)"
  shows "count_list (chain_sinks n (ls_loggers s) i) k = count_list (lf_sinks fa) k"
  using assms(2,3)
proof (induction n arbitrary: i)
  case (Suc n)
  let ?l = "ls_loggers s ! i"
  have own: "own_sinks (lf_sinks fa) ?l" and older: "\<And>p. lo_parent ?l = Some p \<Longrightarrow> p < i"
    using assms(1) Suc.prems by (auto simp: factory_ok_def loggers_ok_def)
  then obtain extra where extra: "set extra \<inter> set (lf_sinks fa) = {}"
    "lo_sinks ?l = (if lo_parent ?l = None then lf_sinks fa else []) @ extra"
    by (auto simp: own_sinks_def)
  have "count_list extra k = 0" using extra(1) assms(4) by (auto simp: count_list_0_iff)
  with extra(2) Suc older show ?case
    by (cases "lo_parent ?l") (simp_all add: chain_sinks_Suc count_list_append)
qed simp

text \<open>The sinks of the whole chain exist.\<close>

lemma sinks_after_nth:
  "k < length ks \<Longrightarrow> sk_lines (sinks_after env e is ks ! k) =
    sk_lines (ks ! k) @ concat (replicate (count_list is k) (sink_output env e k (ks ! k)))"
  by (simp add: sinks_after_def)

lemma log_at_quiet:
  assumes "effective_level env s i = Inr v" "level_below l v = Inr True"
  shows "log_at env i l msg exc md s = (Inr (), s)"
  using assms by (simp add: log_at_def ret_def)

lemma log_at_heard:
  assumes "effective_level env s i = Inr v" "level_below l v = Inr False"
    and "loggers_ok (length (ls_sinks s)) (ls_loggers s)" "i < length (ls_loggers s)" "i < lv_limit env"
    and "e = \<lparr>le_level = l, le_logger = lo_name (ls_loggers s ! i), le_message = msg,
        le_timestamp = lv_now env (ls_clock s), le_correlation = lc_correlation (ls_context s),
        le_event = lc_event (ls_context s), le_exception = exc, le_metadata = md\<rparr>"
  shows "\<exists>t. log_at env i l msg exc md s = (Inr (), t) \<and>
    ls_sinks t = sinks_after env e (chain_sinks (lv_limit env) (ls_loggers s) i) (ls_sinks s)"
proof -
  let ?s = "s\<lparr>ls_clock := Suc (ls_clock s)\<rparr>"
  have "dispatch_within env (lv_limit env) e i ?s =
      (Inr (), ?s\<lparr>ls_sinks := sinks_after env e (chain_sinks (lv_limit env) (ls_loggers ?s) i) (ls_sinks ?s)\<rparr>)"
    by (rule dispatch_emits) (use assms(3-5) in simp_all)
  with assms(1,2,6) show ?thesis
    by (simp add: log_at_def build_entry_def bindA_def seqA_def liftA_def schedule_publish_def Let_def)
qed

definition fresh_factory :: "log_factory \<Rightarrow> logsys \<Rightarrow> bool" where
  "fresh_factory fa s \<longleftrightarrow> ls_loggers s = [] \<and> ls_names s = [] \<and> set (lf_sinks fa) \<subseteq> {..<length (ls_sinks s)}"

lemma fresh_factory_ok:
  "fresh_factory fa s \<Longrightarrow> factory_ok fa s" "fresh_factory fa s \<Longrightarrow> levels_are fa (\<lambda>n. lf_level fa) s"
  by (simp_all add: fresh_factory_def factory_ok_def levels_are_def loggers_ok_def)

lemma last_levels_threshold:
  "(\<And>n. \<exists>d. f n = threshold d) \<Longrightarrow> \<exists>d. last_levels f cs n = threshold d"
proof (induction cs arbitrary: f)
  case (Cons c cs)
  have "\<exists>d. last_levels f [c] m = threshold d" for m
    using Cons.prems by (cases c) auto
  from Cons.IH[OF this] show ?case by (simp add: last_levels_Cons[of f c cs])
qed simp

lemma count_distinct: "distinct xs \<Longrightarrow> x \<in> set xs \<Longrightarrow> count_list xs x = 1"
  by (induction xs) (auto simp: count_list_0_iff)


definition example_log_env :: log_env where
  "example_log_env = \<lparr>lv_str = (\<lambda>v. ''?''), lv_traceback = (\<lambda>e. []), lv_exn_name = (\<lambda>c. ''Error''),
     lv_now = (\<lambda>n. \<lparr>ts_year = 2024, ts_month = 1, ts_day = 2, ts_hour = 3, ts_minute = 4, ts_second = 5,
       ts_micro = n\<rparr>), lv_uid = (\<lambda>n. ''u''), lv_write = (\<lambda>i x. None), lv_open = (\<lambda>p. None),
     lv_running = False, lv_limit = 1000\<rparr>"

definition example_factory :: log_factory where
  "example_factory = \<lparr>lf_level = threshold InfoLevel, lf_sinks = [0], lf_bus = False, lf_publish = False\<rparr>"

definition example_logsys :: logsys where
  "example_logsys = empty_logsys\<lparr>ls_sinks :=
     [\<lparr>sk_kind = ConsoleSink (HumanFormatter False), sk_closed = False, sk_lines = []\<rparr>]\<rparr>"

text \<open>The child is made before its parent, and the level of the parent is raised afterwards.\<close>

definition example_ops :: "log_op list" where
  "example_ops = [OpGet ''a.b'', OpLevel ''a'' CriticalLevel]"


section \<open>JSON lines can be read back\<close>

text \<open>Reading a JSON string: one character or escape sequence, then all up to the closing quote.\<close>

definition hex_value :: "char \<Rightarrow> nat" where
  "hex_value c = (let n = of_char c in if n < 58 then n - 48 else n - 87)"

definition unescape :: "char \<Rightarrow> char" where
  "unescape d = (if d = CHR ''n'' then CHR 0x0A else if d = CHR ''r'' then CHR 0x0D
     else if d = CHR ''t'' then CHR 0x09 else if d = CHR ''f'' then CHR 0x0C
     else if d = CHR ''b'' then CHR 0x08 else d)"

definition next_char :: "string \<Rightarrow> (char \<times> string) option" where
  "next_char s = (case s of [] \<Rightarrow> None
     | c # cs \<Rightarrow> if c \<noteq> CHR 0x5C then Some (c, cs) else
         (case cs of [] \<Rightarrow> None
          | d # r \<Rightarrow> if d = CHR ''u''
              then Some (char_of (16 * hex_value (r ! 2) + hex_value (r ! 3)), drop 4 r)
              else Some (unescape d, r)))"

lemma next_char_shorter: "next_char s = Some (c, r) \<Longrightarrow> length r < length s"
  by (auto simp: next_char_def split: list.splits if_splits)

function scan_string :: "string \<Rightarrow> (string \<times> string) option" where
  "scan_string s = (case s of [] \<Rightarrow> None
     | q # r \<Rightarrow> if q = CHR 0x22 then Some ([], r)
         else (case next_char s of None \<Rightarrow> None
           | Some (c, r) \<Rightarrow> map_option (\<lambda>(x, y). (c # x, y)) (scan_string r)))"
  by pat_completeness auto
termination by (relation "measure length") (auto dest: next_char_shorter)

declare scan_string.simps [simp del]

lemma hex_value_digit: "n < 16 \<Longrightarrow> hex_value (hex_char n) = n"
  by (simp add: hex_value_def hex_char_def Let_def)

lemma json_char_cases:
  obtains (esc) d where "json_char c = [CHR 0x5C, d]" "d \<noteq> CHR ''u''" "unescape d = c"
  | (plain) "json_char c = [c]" "c \<noteq> CHR 0x5C" "c \<noteq> CHR 0x22" "32 \<le> (of_char c :: nat)" "(of_char c :: nat) \<le> 126"
  | (hex) "json_char c = [CHR 0x5C, CHR ''u'', CHR ''0'', CHR ''0'', hex_char (of_char c div 16), hex_char (of_char c mod 16)]"
proof -
  let ?n = "of_char c :: nat"
  let ?special = "[CHR 0x22, CHR 0x5C, CHR 0x0A, CHR 0x0D, CHR 0x09, CHR 0x0C, CHR 0x08]"
  show thesis
  proof (cases "c \<in> set ?special")
    case True
    then have "json_char c = [CHR 0x5C, json_char c ! 1] \<and> json_char c ! 1 \<noteq> CHR ''u'' \<and>
        unescape (json_char c ! 1) = c"
      unfolding set_simps insert_iff empty_iff
      by (elim disjE FalseE) (simp_all add: json_char_def unescape_def)
    then show thesis by (intro esc) blast+
  next
    case False
    have ne: "?n \<noteq> of_char d" if "d \<in> set ?special" for d
      using that False by auto
    have "?n \<noteq> 34" "?n \<noteq> 92" "?n \<noteq> 10" "?n \<noteq> 13" "?n \<noteq> 9" "?n \<noteq> 12" "?n \<noteq> 8"
      using ne[of "CHR 0x22"] ne[of "CHR 0x5C"] ne[of "CHR 0x0A"] ne[of "CHR 0x0D"] ne[of "CHR 0x09"]
        ne[of "CHR 0x0C"] ne[of "CHR 0x08"] by simp_all
    then have "json_char c = (if 32 \<le> ?n \<and> ?n \<le> 126 then [c]
        else [CHR 0x5C, CHR ''u'', CHR ''0'', CHR ''0'', hex_char (?n div 16), hex_char (?n mod 16)])"
      by (simp add: json_char_def Let_def)
    with False plain hex show thesis by (cases "32 \<le> ?n \<and> ?n \<le> 126") auto
  qed
qed

lemma next_json_char: "next_char (json_char c @ r) = Some (c, r)" and json_char_head: "hd (json_char c) \<noteq> CHR 0x22"
  and json_char_some: "json_char c \<noteq> []"
proof -
  have "(of_char c :: nat) div 16 < 16" by (rule less_mult_imp_div_less) simp
  then have "char_of (16 * hex_value (hex_char (of_char c div 16)) + hex_value (hex_char (of_char c mod 16))) = c"
    by (subst (1 2) hex_value_digit) auto
  then show "next_char (json_char c @ r) = Some (c, r)" "hd (json_char c) \<noteq> CHR 0x22" "json_char c \<noteq> []"
    by (cases c rule: json_char_cases; simp add: next_char_def numeral_2_eq_2 numeral_3_eq_3)+
qed

lemma scan_escaped: "scan_string (concat (map json_char s) @ CHR 0x22 # r) = Some (s, r)"
proof (induction s)
  case Nil
  then show ?case by (simp add: scan_string.simps)
next
  case (Cons c s)
  let ?t = "concat (map json_char s) @ CHR 0x22 # r"
  obtain d x where d: "json_char c = d # x" "d \<noteq> CHR 0x22"
    using json_char_some json_char_head by (metis list.exhaust_sel)
  with Cons.IH next_json_char[of c ?t] show ?case
    by (subst scan_string.simps) simp
qed

text \<open>Everything a JSON line contains is printable ASCII, if the texts of floats are.\<close>

definition printable :: "char \<Rightarrow> bool" where
  "printable c \<longleftrightarrow> 32 \<le> (of_char c :: nat) \<and> (of_char c :: nat) \<le> 126"

lemma printable_hex: "n < 16 \<Longrightarrow> printable (hex_char n)"
  by (simp add: printable_def hex_char_def)

lemma printable_json_char: "\<forall>d \<in> set (json_char c). printable d"
proof (cases c rule: json_char_cases)
  case (esc d)
  have "printable (json_char c ! 1)"
    using esc(1) by (auto simp: json_char_def Let_def printable_def split: if_splits)
  with esc(1) show ?thesis by (simp add: printable_def)
next
  case plain
  then show ?thesis by (simp add: printable_def)
next
  case hex
  have "(of_char c :: nat) div 16 < 16" by (rule less_mult_imp_div_less) simp
  with hex printable_hex show ?thesis by (simp add: printable_def)
qed

lemma printable_json_string: "\<forall>d \<in> set (json_string s). printable d"
  using printable_json_char by (auto simp: json_string_def printable_def)

lemma printable_nat: "\<forall>d \<in> set (str_of_nat n). printable d"
proof (induction n rule: str_of_nat.induct)
  case (1 n)
  then show ?case by (subst str_of_nat.simps) (auto simp: printable_def)
qed

lemma join_all:
  "\<forall>c \<in> set sep. P c \<Longrightarrow> \<forall>x \<in> set xs. \<forall>c \<in> set x. P c \<Longrightarrow> \<forall>c \<in> set (join sep xs). P c"
  by (induction sep xs rule: join.induct) auto

lemma printable_signs [simp]:
  "printable CHR '',''" "printable CHR '' ''" "printable CHR '':''" "printable CHR ''['' " "printable CHR '']''"
  "printable CHR ''{''" "printable CHR ''}''" "printable CHR ''-''"
  by (simp_all add: printable_def)

lemma printable_json:
  assumes "\<And>m e. \<forall>d \<in> set (str_of (VFloat m e)). printable d"
  shows "\<forall>d \<in> set (json_text str_of v). printable d"
  using assms
proof (induction str_of v rule: json_text.induct)
  case (3 str_of i)
  then show ?case using printable_nat by (simp add: str_of_int_def printable_def)
next
  case (7 str_of xs)
  have "\<forall>c \<in> set (json_text str_of x). printable c" if "x \<in> set xs" for x
    by (rule 7(1)[OF that 7(2)])
  then have "\<forall>c \<in> set (join '', '' (map (json_text str_of) xs)). printable c"
    by (intro join_all) simp_all
  then show ?case by auto
next
  case (8 str_of d)
  have "\<forall>c \<in> set (json_string k @ '': '' @ json_text str_of v). printable c" if "(k, v) \<in> set d" for k v
    using 8(1)[OF that refl 8(2)] printable_json_string[of k] by auto
  then have "\<forall>c \<in> set (join '', '' (map (\<lambda>(k, v). json_string k @ '': '' @ json_text str_of v) d)). printable c"
    by (intro join_all) auto
  then show ?case by auto
qed (use printable_json_string in \<open>auto simp: printable_def\<close>)

text \<open>Reading the fields of a line in a given order: key, value, separator.\<close>

definition read_field :: "string \<Rightarrow> string \<Rightarrow> (string \<times> string) option" where
  "read_field k s = (let p = json_string k @ '': '' @ [CHR 0x22] in
     if is_prefix p s then scan_string (drop (length p) s) else None)"

fun read_fields :: "string list \<Rightarrow> string \<Rightarrow> (string list \<times> string) option" where
  "read_fields [] s = Some ([], s)"
| "read_fields (k # ks) s = (case read_field k s of
     None \<Rightarrow> None
   | Some (v, r) \<Rightarrow> map_option (\<lambda>(vs, y). (v # vs, y)) (read_fields ks (drop 2 r)))"

lemma read_field_text: "read_field k (json_string k @ '': '' @ json_string v @ r) = Some (v, r)"
proof -
  have "read_field k ((json_string k @ '': '' @ [CHR 0x22]) @ q) = scan_string q" for q
    unfolding read_field_def Let_def by (simp only: is_prefix_append append_eq_conv_conj if_True) simp
  from this[of "concat (map json_char v) @ CHR 0x22 # r"] show ?thesis
    by (simp add: json_string_def scan_escaped)
qed

lemma read_fields_text:
  "read_fields (k # ks) (json_string k @ '': '' @ json_string v @ '', '' @ r) =
     map_option (\<lambda>(vs, y). (v # vs, y)) (read_fields ks r)"
  "read_fields [k] (json_string k @ '': '' @ json_string v @ r) = Some ([v], drop 2 r)"
  by (simp_all only: read_fields.simps read_field_text option.case prod.case) simp_all

lemma join_Cons: "xs \<noteq> [] \<Longrightarrow> join sep (x # xs) = x @ sep @ join sep xs"
  by (cases xs) simp_all

text \<open>
  C32. A JSON log line is one line and says what was logged: it consists of printable ASCII only, so
  no message, metadata or traceback can break or forge a line, and reading its first four fields gives
  back the time, the level, the name of the logger and the message, whatever characters they contain.
\<close>

theorem json_line_readable:
  assumes "json_line env e = Inr line" and "\<And>m x. \<forall>c \<in> set (lv_str env (VFloat m x)). printable c"
  shows "(\<forall>c \<in> set line. printable c) \<and>
    (\<exists>rest. read_fields [''timestamp'', ''level'', ''logger'', ''message''] (tl line) =
       Some ([iso_time (le_timestamp e), level_name (le_level e), le_logger e, le_message e], rest))"
proof -
  obtain exc where line: "line = json_text (lv_str env) (VDict (json_payload env e exc))"
    using assms(1) by (auto simp: json_line_def split: sum.splits)
  let ?f = "\<lambda>(k, v). json_string k @ '': '' @ json_text (lv_str env) v"
  let ?others = "drop 4 (json_payload env e exc)"
  have "tl line = join '', '' (map ?f (json_payload env e exc)) @ ''}''" by (simp add: line)
  moreover have "json_payload env e exc = [(''timestamp'', VStr (iso_time (le_timestamp e))),
       (''level'', VStr (level_name (le_level e))), (''logger'', VStr (le_logger e)),
       (''message'', VStr (le_message e))] @ ?others"
    by (simp add: json_payload_def)
  ultimately obtain r where shape: "tl line = json_string ''timestamp'' @ '': '' @ json_string (iso_time (le_timestamp e)) @ '', '' @
      json_string ''level'' @ '': '' @ json_string (level_name (le_level e)) @ '', '' @
      json_string ''logger'' @ '': '' @ json_string (le_logger e) @ '', '' @
      json_string ''message'' @ '': '' @ json_string (le_message e) @ r"
    by (cases ?others) (auto simp: join_Cons)
  have "\<exists>rest. read_fields [''timestamp'', ''level'', ''logger'', ''message''] (tl line) =
       Some ([iso_time (le_timestamp e), level_name (le_level e), le_logger e, le_message e], rest)"
    unfolding shape by (simp only: read_fields_text option.map prod.case) blast
  moreover have "\<forall>c \<in> set line. printable c" unfolding line by (rule printable_json) (rule assms(2))
  ultimately show ?thesis by blast
qed

theorem json_line_readable_witness:
  "\<exists>line rest. json_line example_log_env \<lparr>le_level = ErrorLevel, le_logger = ''a'', le_message = [CHR 0x22, CHR 0x0A],
      le_timestamp = lv_now example_log_env 0, le_correlation = None, le_event = None,
      le_exception = NoException, le_metadata = []\<rparr> = Inr line \<and>
    read_fields [''timestamp'', ''level'', ''logger'', ''message''] (tl line) =
      Some ([iso_time (lv_now example_log_env 0), ''ERROR'', ''a'', [CHR 0x22, CHR 0x0A]], rest) \<and>
    CHR 0x0A \<notin> set line"
proof -
  let ?e = "\<lparr>le_level = ErrorLevel, le_logger = ''a'', le_message = [CHR 0x22, CHR 0x0A],
      le_timestamp = lv_now example_log_env 0, le_correlation = None, le_event = None,
      le_exception = NoException, le_metadata = []\<rparr>"
  obtain line where line: "json_line example_log_env ?e = Inr line"
    by (simp add: json_line_def exception_of_def)
  have "\<forall>c \<in> set (lv_str example_log_env (VFloat m x)). printable c" for m x
    by (simp add: example_log_env_def printable_def)
  from json_line_readable[OF line this] show ?thesis
    using line by (auto simp: printable_def)
qed

section \<open>Scopes\<close>

text \<open>A scope gives the context back as it was, however its body ends and whatever it sets.\<close>

lemma scope_restores: "ls_context (snd (with_scope scope cid m s)) = ls_context s"
  by (simp add: with_scope_def scope_enter_def scope_exit_def act_defs Let_def split: prod.split sum.split)

text \<open>A logger whose threshold is no number raises at every call.\<close>

lemma bad_threshold_raises:
  assumes "effective_level env s i = Inr v" "level_below l v = Inl x"
  shows "\<exists>e. logger_call env i l msg pos kexc md s = (Inl e, s) \<and> (e = x \<or> exn_cls e = Py PyTypeError)"
proof (cases "binds l pos kexc md")
  case True
  with assms show ?thesis by (simp add: call_binds log_at_def liftA_def bindA_def)
next
  case False
  from call_binds(2)[OF False] show ?thesis by (metis pyexn.sel(1))
qed

end
