(* ===== verification/Mutation.thy ===== *)
theory Mutation
  imports Runtime Logging
begin

text \<open>
  The mutation lifecycle (core/mutation): metadata and contexts, confirmation providers and their
  manager, audit sinks and their manager, the policies, and \<open>DefaultMutationManager\<close>. The
  commands and outcomes of core/execution/models.py, which this package imports, come first. The
  execution a mutation wraps is a parameter of \<open>process_mutation\<close>, as in the source.
\<close>

section \<open>Commands and outcomes\<close>

datatype outcome_status = OUT_SUCCEEDED | OUT_DENIED | OUT_FAILED

record command =
  c_id :: string
  c_capability :: string
  c_arguments :: args
  c_metadata :: args

record outcome =
  o_command :: string
  o_capability :: string
  o_status :: outcome_status
  o_data :: pyval
  o_denial :: "string option"
  o_error :: "string option"

definition succeeded :: "outcome \<Rightarrow> bool" where
  "succeeded oc \<longleftrightarrow> o_status oc = OUT_SUCCEEDED"

definition denied :: "outcome \<Rightarrow> bool" where
  "denied oc \<longleftrightarrow> o_status oc = OUT_DENIED"

definition failed :: "outcome \<Rightarrow> bool" where
  "failed oc \<longleftrightarrow> o_status oc = OUT_FAILED"

section \<open>Contexts and audit records\<close>

datatype mutation_state = M_REQUESTED | M_WAITING_CONFIRMATION | M_CONFIRMED | M_EXECUTING
  | M_COMPLETED | M_FAILED | M_ROLLING_BACK | M_ROLLED_BACK | M_REJECTED

record mutation_context =
  mc_mutation :: string
  mc_workflow :: pyval
  mc_execution :: string
  mc_capability :: string
  mc_user :: pyval

text \<open>Times are in microseconds.\<close>

record audit_record =
  au_id :: string
  au_mutation :: string
  au_capability :: string
  au_action :: string
  au_arguments :: args
  au_status :: mutation_state
  au_started :: int
  au_completed :: "int option"
  au_data :: pyval
  au_error :: "string option"
  au_workflow :: pyval
  au_user :: pyval

text \<open>\<open>int\<close> truncates towards zero.\<close>

definition duration_ms :: "audit_record \<Rightarrow> int option" where
  "duration_ms a = (case au_completed a of None \<Rightarrow> None
     | Some t \<Rightarrow> let us = t - au_started a in
         Some (if us < 0 then - ((- us) div 1000) else us div 1000))"

section \<open>Confirmation\<close>

text \<open>
  A provider is a pair of functions; the answer is a value or an exception. \<open>DenyByDefaultProvider\<close>
  is the one the module installs.
\<close>

record provider =
  pv_supports :: "confirmation_level \<Rightarrow> bool"
  pv_confirm :: "mutation_context \<Rightarrow> confirmation_level \<Rightarrow> pyexn + bool"

definition deny_by_default_provider :: provider where
  "deny_by_default_provider = \<lparr>pv_supports = (\<lambda>level. True), pv_confirm = (\<lambda>ctx level. Inr False)\<rparr>"

definition register_provider :: "provider \<Rightarrow> provider list \<Rightarrow> provider list" where
  "register_provider p ps = ps @ [p]"

text \<open>
  When no provider supports the level the manager logs a warning with the keyword argument \<open>level\<close>,
  which the logger's method passes on next to its own \<open>level\<close>: the call raises before anything is
  logged (theory Logging), so this branch raises instead of answering no.
\<close>

definition level_twice :: pyexn where
  "level_twice = keyword_clash ''level''"

lemma warning_raises:
  "logger_call env i WarningLevel msg [] None [(''level'', v)] s = (Inl level_twice, s)"
  by (simp add: logger_call_def level_twice_def liftA_def has_key_def Let_def)

fun ask_providers :: "provider list \<Rightarrow> mutation_context \<Rightarrow> confirmation_level \<Rightarrow> pyexn + bool" where
  "ask_providers [] ctx level = Inl level_twice"
| "ask_providers (p # ps) ctx level =
     (if pv_supports p level
      then (case pv_confirm p ctx level of Inr b \<Rightarrow> Inr b | Inl e \<Rightarrow> Inr False)
      else ask_providers ps ctx level)"

definition request_confirmation ::
  "provider list \<Rightarrow> mutation_context \<Rightarrow> confirmation_level \<Rightarrow> pyexn + bool" where
  "request_confirmation ps ctx level =
     (if level = NO_CONFIRMATION then Inr True else ask_providers ps ctx level)"

text \<open>The manager answers exactly when no confirmation is demanded or some provider supports the level.\<close>

definition answered :: "provider list \<Rightarrow> confirmation_level \<Rightarrow> bool" where
  "answered ps level \<longleftrightarrow> level = NO_CONFIRMATION \<or> list_ex (\<lambda>p. pv_supports p level) ps"

lemma request_answered:
  "if answered ps level then \<exists>b. request_confirmation ps ctx level = Inr b
   else request_confirmation ps ctx level = Inl level_twice"
proof -
  have "if list_ex (\<lambda>p. pv_supports p level) ps then \<exists>b. ask_providers ps ctx level = Inr b
    else ask_providers ps ctx level = Inl level_twice"
    by (induction ps) (auto split: sum.splits)
  then show ?thesis
    by (cases "level = NO_CONFIRMATION") (auto simp: request_confirmation_def answered_def)
qed

section \<open>Audit\<close>

text \<open>
  A sink is the in-memory one, which keeps the record, or an external one that may raise. The
  records of the in-memory sinks are in \<open>s_audit\<close>, each with the position of its sink.
\<close>

datatype sink = InMemorySink | ExternalSink "audit_record \<Rightarrow> pyexn option"

record 'd msys = "'d sys" +
  s_audit :: "(nat \<times> audit_record) list"

definition register_sink :: "sink \<Rightarrow> sink list \<Rightarrow> sink list" where
  "register_sink k ks = ks @ [k]"

definition sink_record ::
  "nat \<Rightarrow> sink \<Rightarrow> audit_record \<Rightarrow> (('d, 'z) msys_scheme, unit) act" where
  "sink_record n k r s = (case k of
     InMemorySink \<Rightarrow> (Inr (), s\<lparr>s_audit := s_audit s @ [(n, r)]\<rparr>)
   | ExternalSink f \<Rightarrow> (case f r of None \<Rightarrow> (Inr (), s) | Some e \<Rightarrow> (Inl e, s)))"

text \<open>The loop over the sinks counts the failures.\<close>

fun record_to_sinks ::
  "nat \<Rightarrow> sink list \<Rightarrow> audit_record \<Rightarrow> ('d, 'z) msys_scheme \<Rightarrow> nat \<times> ('d, 'z) msys_scheme" where
  "record_to_sinks n [] r s = (0, s)"
| "record_to_sinks n (k # ks) r s =
     (case sink_record n k r s of
        (Inr u, s1) \<Rightarrow> record_to_sinks (n + 1) ks r s1
      | (Inl e, s1) \<Rightarrow> (case record_to_sinks (n + 1) ks r s1 of (f, s2) \<Rightarrow> (f + 1, s2)))"

definition all_sinks_failed_msg :: "nat \<Rightarrow> string \<Rightarrow> string" where
  "all_sinks_failed_msg n i = ''All '' @ str_of_nat n @
     '' AuditSinks failed to record audit_id: '' @ i"

definition audit_record_all ::
  "sink list \<Rightarrow> audit_record \<Rightarrow> (('d, 'z) msys_scheme, unit) act" where
  "audit_record_all ks r s =
     (if ks = [] then (Inr (), s)
      else (case record_to_sinks 0 ks r s of (failures, s') \<Rightarrow>
        if failures = length ks
        then (Inl (Exn (InMutation AuditError) (all_sinks_failed_msg failures (au_id r))), s')
        else (Inr (), s')))"

section \<open>Policies\<close>

datatype mutation_policy = ExecuteImmediatelyPolicy | RequireConfirmationPolicy | RejectPolicy

fun policy_evaluate :: "mutation_policy \<Rightarrow> command \<Rightarrow> mutation_state" where
  "policy_evaluate ExecuteImmediatelyPolicy c = M_EXECUTING"
| "policy_evaluate RequireConfirmationPolicy c = M_WAITING_CONFIRMATION"
| "policy_evaluate RejectPolicy c = M_REJECTED"

section \<open>The mutation manager\<close>

text \<open>
  What the manager is built with: confirmation providers, audit sinks, the bus (what middlewares
  raise), the \<open>uuid4\<close> supply and the clock.
\<close>

record 's mutation_env =
  me_mw :: bus
  me_uid :: "nat \<Rightarrow> string"
  me_now :: "'s \<Rightarrow> int"
  me_providers :: "provider list"
  me_sinks :: "sink list"

definition map_outcome_to_state :: "outcome \<Rightarrow> mutation_state" where
  "map_outcome_to_state oc = (if succeeded oc then M_COMPLETED
     else if denied oc then M_REJECTED else M_FAILED)"

definition build_outcome ::
  "command \<Rightarrow> outcome_status \<Rightarrow> string option \<Rightarrow> string option \<Rightarrow> outcome" where
  "build_outcome c st denial err = \<lparr>o_command = c_id c, o_capability = c_capability c,
     o_status = st, o_data = VNone, o_denial = denial, o_error = err\<rparr>"

text \<open>Failures to record are logged only.\<close>

definition record_audit ::
  "('d, 'z) msys_scheme mutation_env \<Rightarrow> mutation_context \<Rightarrow> command \<Rightarrow> mutation_state \<Rightarrow> int \<Rightarrow>
   pyval \<Rightarrow> string option \<Rightarrow> (('d, 'z) msys_scheme, unit) act" where
  "record_audit env ctx c st t0 data err =
     bindA (fresh_uid (me_uid env)) (\<lambda>i s.
       let r = \<lparr>au_id = i, au_mutation = mc_mutation ctx, au_capability = mc_capability ctx,
                au_action = ''execute'', au_arguments = c_arguments c, au_status = st,
                au_started = t0, au_completed = Some (me_now env s), au_data = data,
                au_error = err, au_workflow = mc_workflow ctx, au_user = mc_user ctx\<rparr> in
       catchA (seqA (audit_record_all (me_sinks env) r)
                 (publish (me_mw env) (EvMutation (AuditRecorded i (mc_mutation ctx)))))
         (\<lambda>e. ret ()) s)"

text \<open>\<open>getattr(capability.metadata, "mutation", MutationMetadata())\<close>; \<open>None\<close> is Python's.\<close>

definition mutation_meta_of :: "'d capability \<Rightarrow> mutation_metadata option" where
  "mutation_meta_of c = (case cap_metadata c of
     None \<Rightarrow> Some default_mutation_metadata
   | Some md \<Rightarrow> (case cm_mutation md of
       None \<Rightarrow> None
     | Some (CoreMeta m) \<Rightarrow> Some m
     | Some (MarkedMeta b m) \<Rightarrow> Some m))"

definition confirmation_denied_msg :: "confirmation_level \<Rightarrow> string" where
  "confirmation_denied_msg l = ''Confirmation denied for level '' @ confirmation_value l"

definition rollback_failed_msg :: "pyexn \<Rightarrow> string" where
  "rollback_failed_msg e = ''Rollback failed: '' @ exn_msg e"

definition capability_missing_msg :: string where
  "capability_missing_msg = ''Capability not found.''"

text \<open>\<open>f"\{outcome.error\} | \{error_msg\}"\<close>, where a missing error prints as None.\<close>

definition with_rollback_error :: "outcome \<Rightarrow> string \<Rightarrow> string" where
  "with_rollback_error oc m =
     (case o_error oc of None \<Rightarrow> ''None'' | Some e \<Rightarrow> e) @ '' | '' @ m"

text \<open>Step 5: the rollback of a failed execution; its result is the outcome from then on.\<close>

definition handle_failure ::
  "('d, 'z) msys_scheme mutation_env \<Rightarrow> string \<Rightarrow> command \<Rightarrow> 'd capability \<Rightarrow> mutation_metadata \<Rightarrow>
   outcome \<Rightarrow> (('d, 'z) msys_scheme, outcome) act" where
  "handle_failure env mid c cap meta oc =
     (if failed oc \<and> mm_rollback meta then
       (case cap_mutating cap of
          None \<Rightarrow> ret oc
        | Some mu \<Rightarrow>
          bindA (liftA (mu_supports mu (c_arguments c))) (\<lambda>supported.
            if \<not> supported then ret oc
            else catchA
              (seqA (on_dev (mu_rollback mu (c_arguments c) (o_data oc)))
               (seqA (publish (me_mw env) (EvMutation (MutationRolledBack mid
                  (or_else (o_error oc) ''Execution failed''))))
                (ret oc)))
              (\<lambda>e. seqA (publish (me_mw env) (EvMutation (RollbackFailed mid (rollback_failed_msg e))))
                (ret (build_outcome c OUT_FAILED None
                   (Some (with_rollback_error oc (rollback_failed_msg e))))))))
      else ret oc)"

text \<open>\<open>outcome.error or outcome.denial_reason\<close>.\<close>

definition error_or_denial :: "outcome \<Rightarrow> string option" where
  "error_or_denial oc = (case o_error oc of
     None \<Rightarrow> o_denial oc | Some e \<Rightarrow> if e = [] then o_denial oc else Some e)"

text \<open>Steps 6 and 7.\<close>

definition finish_mutation ::
  "('d, 'z) msys_scheme mutation_env \<Rightarrow> mutation_context \<Rightarrow> command \<Rightarrow> mutation_metadata \<Rightarrow> int \<Rightarrow>
   outcome \<Rightarrow> (('d, 'z) msys_scheme, outcome) act" where
  "finish_mutation env ctx c meta t0 oc =
     seqA (if mm_audit meta
           then record_audit env ctx c (map_outcome_to_state oc) t0 (o_data oc) (error_or_denial oc)
           else ret ())
     (seqA (if succeeded oc
            then publish (me_mw env) (EvMutation (MutationCompleted (mc_mutation ctx) (o_data oc)))
            else ret ())
      (ret oc))"

text \<open>Steps 4 to 7.\<close>

definition run_mutation ::
  "('d, 'z) msys_scheme mutation_env \<Rightarrow> mutation_context \<Rightarrow> command \<Rightarrow> 'd capability \<Rightarrow>
   mutation_metadata \<Rightarrow> int \<Rightarrow> (command \<Rightarrow> (('d, 'z) msys_scheme, outcome) act) \<Rightarrow>
   (('d, 'z) msys_scheme, outcome) act" where
  "run_mutation env ctx c cap meta t0 execute_delegate =
     seqA (publish (me_mw env) (EvMutation (MutationStarted (mc_mutation ctx))))
     (bindA (execute_delegate c) (\<lambda>oc.
      bindA (handle_failure env (mc_mutation ctx) c cap meta oc) (\<lambda>oc'.
      finish_mutation env ctx c meta t0 oc')))"

text \<open>Step 3 in the case of a refusal.\<close>

definition reject_mutation ::
  "('d, 'z) msys_scheme mutation_env \<Rightarrow> mutation_context \<Rightarrow> command \<Rightarrow> mutation_metadata \<Rightarrow> int \<Rightarrow>
   (('d, 'z) msys_scheme, outcome) act" where
  "reject_mutation env ctx c meta t0 =
     (let reason = confirmation_denied_msg (mm_level meta) in
      seqA (publish (me_mw env) (EvMutation (MutationRejected (mc_mutation ctx) reason)))
      (seqA (if mm_audit meta
             then record_audit env ctx c M_REJECTED t0 VNone (Some reason) else ret ())
       (ret (build_outcome c OUT_DENIED (Some reason) None))))"

definition process_mutation ::
  "('d, 'z) msys_scheme mutation_env \<Rightarrow> command \<Rightarrow>
   (command \<Rightarrow> (('d, 'z) msys_scheme, outcome) act) \<Rightarrow> (('d, 'z) msys_scheme, outcome) act" where
  "process_mutation env c execute_delegate =
     bindA (fresh_uid (me_uid env)) (\<lambda>mid s0.
       let ctx = \<lparr>mc_mutation = mid, mc_workflow = dget (c_metadata c) ''workflow_id'',
                  mc_execution = c_id c, mc_capability = c_capability c,
                  mc_user = dget (c_metadata c) ''user_id''\<rparr>;
           t0 = me_now env s0 in
       case lookup s0 (c_capability c) of
         Inl e \<Rightarrow> ret (build_outcome c OUT_FAILED None (Some capability_missing_msg)) s0
       | Inr cap \<Rightarrow>
         seqA (publish (me_mw env) (EvMutation (MutationRequested mid (c_capability c) (c_arguments c))))
         (case mutation_meta_of cap of
            None \<Rightarrow> raise (Py PyAttributeError) ''NoneType object has no attribute confirmation_level''
          | Some meta \<Rightarrow>
            (if mm_level meta \<noteq> NO_CONFIRMATION then
               bindA (liftA (request_confirmation (me_providers env) ctx (mm_level meta))) (\<lambda>ok.
                 if \<not> ok then reject_mutation env ctx c meta t0
                 else seqA (publish (me_mw env) (EvMutation (MutationConfirmed mid)))
                        (run_mutation env ctx c cap meta t0 execute_delegate))
             else run_mutation env ctx c cap meta t0 execute_delegate)) s0)"

section \<open>Lemmas\<close>

text \<open>The device and the registry are left alone.\<close>

definition same_device :: "('d, 'z) sys_scheme \<Rightarrow> ('d, 'z) sys_scheme \<Rightarrow> bool" where
  "same_device s s' \<longleftrightarrow> s_dev s' = s_dev s \<and> s_caps s' = s_caps s"

lemma same_device_refl: "reflp same_device"
  by (simp add: reflp_def same_device_def)

lemma same_device_trans: "transp same_device"
  by (auto simp: transp_def same_device_def)

lemma same_device_publish: "keepsA same_device (publish mw e)"
  by (simp add: keepsA_def same_device_def publish_def)

lemma same_device_fresh: "keepsA same_device (fresh_uid uid)"
  by (simp add: keepsA_def same_device_def fresh_uid_def)

lemma same_device_sinks: "same_device s (snd (record_to_sinks n ks r s))"
proof (induction n ks r s rule: record_to_sinks.induct)
  case (1 n r s)
  then show ?case by (simp add: same_device_def)
next
  case (2 n k ks r s)
  obtain x s1 where e: "sink_record n k r s = (x, s1)" by fastforce
  have s1: "same_device s s1"
    using e by (auto simp: sink_record_def same_device_def split: sink.splits option.splits)
  show ?case
    using 2 e s1 by (cases x) (auto split: prod.splits intro: transpD[OF same_device_trans])
qed

lemma same_device_audit: "keepsA same_device (audit_record_all ks r)"
  unfolding keepsA_def
proof
  fix s :: "('a, 'b) msys_scheme"
  show "same_device s (snd (audit_record_all ks r s))"
    using same_device_sinks[of s 0 ks r] reflpD[OF same_device_refl, of s]
    by (cases "record_to_sinks 0 ks r s") (simp add: audit_record_all_def)
qed

lemmas same_device_intros = keepsA_ret[OF same_device_refl] keepsA_raise[OF same_device_refl]
  keepsA_bind[OF same_device_trans] keepsA_seq[OF same_device_trans]
  keepsA_catch[OF same_device_trans] keepsA_lift[OF same_device_refl] same_device_publish
  same_device_fresh same_device_audit

lemma same_device_record_audit: "keepsA same_device (record_audit env ctx c st t0 data err)"
proof -
  have "keepsA same_device (\<lambda>s.
      let r = \<lparr>au_id = i, au_mutation = mc_mutation ctx, au_capability = mc_capability ctx,
                au_action = ''execute'', au_arguments = c_arguments c, au_status = st,
                au_started = t0, au_completed = Some (me_now env s), au_data = data,
                au_error = err, au_workflow = mc_workflow ctx, au_user = mc_user ctx\<rparr> in
       catchA (seqA (audit_record_all (me_sinks env) r)
                 (publish (me_mw env) (EvMutation (AuditRecorded i (mc_mutation ctx)))))
         (\<lambda>e. ret ()) s)" for i
    unfolding keepsA_def Let_def
    by (intro allI, rule keepsA_def[THEN iffD1, rule_format]) (intro same_device_intros)
  then show ?thesis unfolding record_audit_def by (intro same_device_intros)
qed

lemma same_device_reject: "keepsA same_device (reject_mutation env ctx c meta t0)"
  by (auto simp: reject_mutation_def Let_def intro!: same_device_intros same_device_record_audit)

lemma same_device_finish: "keepsA same_device (finish_mutation env ctx c meta t0 oc)"
  by (auto simp: finish_mutation_def intro!: same_device_intros same_device_record_audit)

text \<open>The first provider that supports the level decides.\<close>

lemma ask_providers_first:
  "\<not> list_ex (\<lambda>p. pv_supports p level) ps \<Longrightarrow> pv_supports q level \<Longrightarrow>
   ask_providers (ps @ q # qs) ctx level =
     (case pv_confirm q ctx level of Inr b \<Rightarrow> Inr b | Inl e \<Rightarrow> Inr False)"
  by (induction ps) auto

lemma process_mutation_found:
  assumes "lookup s (c_capability c) = Inr cap"
  shows "process_mutation env c d s =
    (let mid = me_uid env (w_uid s); s0 = s\<lparr>w_uid := Suc (w_uid s)\<rparr>;
         ctx = \<lparr>mc_mutation = mid, mc_workflow = dget (c_metadata c) ''workflow_id'',
                  mc_execution = c_id c, mc_capability = c_capability c,
                  mc_user = dget (c_metadata c) ''user_id''\<rparr>;
         t0 = me_now env s0 in
     seqA (publish (me_mw env) (EvMutation (MutationRequested mid (c_capability c) (c_arguments c))))
         (case mutation_meta_of cap of
            None \<Rightarrow> raise (Py PyAttributeError) ''NoneType object has no attribute confirmation_level''
          | Some meta \<Rightarrow>
            (if mm_level meta \<noteq> NO_CONFIRMATION then
               bindA (liftA (request_confirmation (me_providers env) ctx (mm_level meta))) (\<lambda>ok.
                 if \<not> ok then reject_mutation env ctx c meta t0
                 else seqA (publish (me_mw env) (EvMutation (MutationConfirmed mid)))
                        (run_mutation env ctx c cap meta t0 d))
             else run_mutation env ctx c cap meta t0 d)) s0)"
  using assms by (simp add: process_mutation_def bindA_def fresh_uid_def Let_def lookup_def)

text \<open>The context \<open>process_mutation\<close> builds in a state.\<close>

definition mutation_context_of ::
  "('d, 'z) msys_scheme mutation_env \<Rightarrow> command \<Rightarrow> ('d, 'z) msys_scheme \<Rightarrow> mutation_context" where
  "mutation_context_of env c s = \<lparr>mc_mutation = me_uid env (w_uid s),
     mc_workflow = dget (c_metadata c) ''workflow_id'', mc_execution = c_id c,
     mc_capability = c_capability c, mc_user = dget (c_metadata c) ''user_id''\<rparr>"

lemma process_mutation_staged:
  assumes "lookup s (c_capability c) = Inr cap" and "mutation_meta_of cap = Some meta"
  shows "process_mutation env c d s =
    seqA (publish (me_mw env) (EvMutation (MutationRequested (me_uid env (w_uid s)) (c_capability c)
        (c_arguments c))))
      (bindA (liftA (request_confirmation (me_providers env) (mutation_context_of env c s) (mm_level meta)))
        (\<lambda>ok. if \<not> ok
          then reject_mutation env (mutation_context_of env c s) c meta
            (me_now env (s\<lparr>w_uid := Suc (w_uid s)\<rparr>))
          else seqA (if mm_level meta = NO_CONFIRMATION then ret ()
              else publish (me_mw env) (EvMutation (MutationConfirmed (me_uid env (w_uid s)))))
            (run_mutation env (mutation_context_of env c s) c cap meta
              (me_now env (s\<lparr>w_uid := Suc (w_uid s)\<rparr>)) d))) (s\<lparr>w_uid := Suc (w_uid s)\<rparr>)"
  unfolding process_mutation_found[OF assms(1)] mutation_context_of_def Let_def
  using assms(2)
  by (cases "mm_level meta = NO_CONFIRMATION")
    (simp_all add: request_confirmation_def act_defs)

lemma reject_denied:
  "reject_mutation env ctx c meta t0 s = (Inr oc, s') \<Longrightarrow> o_status oc = OUT_DENIED"
  by (auto simp: reject_mutation_def Let_def seqA_def bindA_eq_Inr ret_def build_outcome_def
      split: if_splits)

lemma unconfirmed_rejects:
  assumes "lookup s (c_capability c) = Inr cap" and "mutation_meta_of cap = Some meta"
    and "mm_level meta \<noteq> NO_CONFIRMATION"
    and "request_confirmation (me_providers env) (mutation_context_of env c s) (mm_level meta) \<noteq> Inr True"
  shows "process_mutation env c d s =
    seqA (publish (me_mw env) (EvMutation (MutationRequested (me_uid env (w_uid s))
        (c_capability c) (c_arguments c))))
      (bindA (liftA (request_confirmation (me_providers env) (mutation_context_of env c s) (mm_level meta)))
        (\<lambda>ok. reject_mutation env (mutation_context_of env c s) c meta
          (me_now env (s\<lparr>w_uid := Suc (w_uid s)\<rparr>)))) (s\<lparr>w_uid := Suc (w_uid s)\<rparr>)"
  using assms
  by (cases "request_confirmation (me_providers env) (mutation_context_of env c s) (mm_level meta)")
    (simp_all add: process_mutation_found mutation_context_of_def Let_def)

lemma unconfirmed_same_device:
  assumes "lookup s (c_capability c) = Inr cap" and "mutation_meta_of cap = Some meta"
    and "mm_level meta \<noteq> NO_CONFIRMATION"
    and "request_confirmation (me_providers env) (mutation_context_of env c s) (mm_level meta) \<noteq> Inr True"
    and "process_mutation env c d s = (r, s')"
  shows "same_device s s'" and "r = Inr oc \<Longrightarrow> o_status oc = OUT_DENIED"
proof -
  have "keepsA same_device (seqA (publish (me_mw env) (EvMutation (MutationRequested
      (me_uid env (w_uid s)) (c_capability c) (c_arguments c))))
      (bindA (liftA (request_confirmation (me_providers env) (mutation_context_of env c s) (mm_level meta)))
        (\<lambda>ok. reject_mutation env (mutation_context_of env c s) c meta
          (me_now env (s\<lparr>w_uid := Suc (w_uid s)\<rparr>)))))"
    by (intro same_device_intros same_device_reject)
  from keepsAD[OF this] assms(5) unconfirmed_rejects[OF assms(1-4)] show "same_device s s'"
    by (fastforce simp: same_device_def)
  show "r = Inr oc \<Longrightarrow> o_status oc = OUT_DENIED"
    using assms(5) unconfirmed_rejects[OF assms(1-4)]
    by (auto simp: seqA_def bindA_eq_Inr dest: reject_denied)
qed

text \<open>
  What an audit record leaves in the in-memory sinks: one copy in each of them, under the position
  the sink was registered at. External sinks keep their own copies.
\<close>

definition kept :: "sink list \<Rightarrow> audit_record \<Rightarrow> (nat \<times> audit_record) list" where
  "kept ks r = map (\<lambda>n. (n, r))
     (filter (\<lambda>n. case ks ! n of InMemorySink \<Rightarrow> True | ExternalSink f \<Rightarrow> False) [0..<length ks])"

text \<open>The record agrees with the outcome, the mutation and the command.\<close>

definition agrees :: "mutation_context \<Rightarrow> command \<Rightarrow> outcome \<Rightarrow> audit_record \<Rightarrow> bool" where
  "agrees ctx c oc r \<longleftrightarrow> au_status r = map_outcome_to_state oc \<and> au_data r = o_data oc \<and>
     au_error r = error_or_denial oc \<and> au_mutation r = mc_mutation ctx \<and>
     au_capability r = c_capability c \<and> au_arguments r = c_arguments c \<and>
     au_workflow r = mc_workflow ctx \<and> au_user r = mc_user ctx"

text \<open>
  The audit trail after a run: one agreeing record when an outcome is returned; when the run raises,
  none, or the one of a completed mutation (then what raised is the announcement of its completion).
\<close>

definition one_record ::
  "sink list \<Rightarrow> mutation_context \<Rightarrow> command \<Rightarrow> pyexn + outcome \<Rightarrow> (nat \<times> audit_record) list \<Rightarrow>
   (nat \<times> audit_record) list \<Rightarrow> bool" where
  "one_record ks ctx c x old new = (case x of
     Inr oc \<Rightarrow> \<exists>r. new = old @ kept ks r \<and> agrees ctx c oc r
   | Inl e \<Rightarrow> new = old \<or> (\<exists>oc r. new = old @ kept ks r \<and> agrees ctx c oc r \<and> succeeded oc))"

definition same_audit :: "('d, 'z) msys_scheme \<Rightarrow> ('d, 'z) msys_scheme \<Rightarrow> bool" where
  "same_audit s s' \<longleftrightarrow> s_audit s' = s_audit s"

lemma same_audit_refl: "reflp same_audit"
  by (simp add: reflp_def same_audit_def)

lemma same_audit_trans: "transp same_audit"
  by (auto simp: transp_def same_audit_def)

lemma same_audit_publish: "keepsA same_audit (publish mw e)"
  by (simp add: keepsA_def same_audit_def publish_def)

lemma same_audit_on_dev: "keepsA same_audit (on_dev f)"
  by (simp add: keepsA_def same_audit_def on_dev_def split: prod.splits)

lemmas same_audit_intros = keepsA_ret[OF same_audit_refl] keepsA_raise[OF same_audit_refl]
  keepsA_bind[OF same_audit_trans] keepsA_seq[OF same_audit_trans]
  keepsA_catch[OF same_audit_trans] keepsA_lift[OF same_audit_refl] same_audit_publish
  same_audit_on_dev

lemma same_audit_failure: "keepsA same_audit (handle_failure env mid c cap meta oc)"
  by (auto simp: handle_failure_def split: option.splits intro!: same_audit_intros)

text \<open>The audit step always returns and leaves exactly one record, whatever sinks and bus do.\<close>

lemma kept_from:
  "snd (record_to_sinks n ks r s) = s\<lparr>s_audit := s_audit s @
     map (\<lambda>m. (n + fst m, snd m)) (kept ks r)\<rparr>"
proof (induction n ks r s rule: record_to_sinks.induct)
  case (1 n r s)
  then show ?case by (simp add: kept_def)
next
  case (2 n k ks r s)
  have "kept (k # ks) r = (case k of InMemorySink \<Rightarrow> [(0, r)] | ExternalSink f \<Rightarrow> []) @
      map (\<lambda>m. (Suc (fst m), snd m)) (kept ks r)"
    by (simp add: kept_def upt_conv_Cons map_Suc_upt[symmetric] filter_map comp_def
        del: upt_Suc split: sink.split)
  with 2 show ?case
    by (auto simp: sink_record_def comp_def split: sink.splits option.splits prod.splits)
qed

lemma record_audit_keeps:
  "\<exists>s' r. record_audit env ctx c st t0 data err s = (Inr (), s') \<and>
    s_audit s' = s_audit s @ kept (me_sinks env) r \<and> au_status r = st \<and> au_data r = data \<and>
    au_error r = err \<and> au_mutation r = mc_mutation ctx \<and> au_capability r = mc_capability ctx \<and>
    au_arguments r = c_arguments c \<and> au_workflow r = mc_workflow ctx \<and> au_user r = mc_user ctx"
proof -
  have all: "s_audit (snd (audit_record_all ks r s1)) = s_audit s1 @ kept ks r" for ks r s1
    using kept_from[of 0 ks r s1]
    by (auto simp: audit_record_all_def kept_def split: prod.splits)
  have written: "\<exists>s2. catchA (seqA (audit_record_all ks r) (publish mw e)) (\<lambda>e. ret ()) s1 = (Inr (), s2) \<and>
      s_audit s2 = s_audit s1 @ kept ks r" for ks r mw e s1
  proof -
    obtain x s2 where a: "audit_record_all ks r s1 = (x, s2)" by fastforce
    obtain y s3 where b: "publish mw e s2 = (y, s3)" by fastforce
    have "s_audit s3 = s_audit s2" using keepsAD[OF same_audit_publish b] by (simp add: same_audit_def)
    with a b all[of ks r s1] show ?thesis
      by (cases x; cases y) (simp_all add: catchA_def seqA_def bindA_def ret_def)
  qed
  let ?s1 = "s\<lparr>w_uid := Suc (w_uid s)\<rparr>"
  let ?r = "\<lparr>au_id = me_uid env (w_uid s), au_mutation = mc_mutation ctx,
    au_capability = mc_capability ctx, au_action = ''execute'', au_arguments = c_arguments c,
    au_status = st, au_started = t0, au_completed = Some (me_now env ?s1), au_data = data,
    au_error = err, au_workflow = mc_workflow ctx, au_user = mc_user ctx\<rparr>"
  obtain s2 where "record_audit env ctx c st t0 data err s = (Inr (), s2)"
    "s_audit s2 = s_audit ?s1 @ kept (me_sinks env) ?r"
    using written[of "me_sinks env" ?r "me_mw env"
      "EvMutation (AuditRecorded (me_uid env (w_uid s)) (mc_mutation ctx))" ?s1]
    by (auto simp: record_audit_def bindA_def fresh_uid_def Let_def)
  then show ?thesis by (intro exI[of _ s2] exI[of _ ?r]) simp
qed

lemma finish_one_record:
  assumes "mm_audit meta" and "mc_capability ctx = c_capability c"
    and "finish_mutation env ctx c meta t0 oc s = (x, s')"
  shows "one_record (me_sinks env) ctx c x (s_audit s) (s_audit s')"
proof -
  obtain s1 r where a: "record_audit env ctx c (map_outcome_to_state oc) t0 (o_data oc)
      (error_or_denial oc) s = (Inr (), s1)"
    and k: "s_audit s1 = s_audit s @ kept (me_sinks env) r" "agrees ctx c oc r"
    using record_audit_keeps[of env ctx c "map_outcome_to_state oc" t0 "o_data oc"
      "error_or_denial oc" s] assms(2) by (auto simp: agrees_def)
  let ?done = "EvMutation (MutationCompleted (mc_mutation ctx) (o_data oc))"
  obtain y s2 where b: "publish (me_mw env) ?done s1 = (y, s2)" by fastforce
  have "s_audit s2 = s_audit s1" using keepsAD[OF same_audit_publish b] by (simp add: same_audit_def)
  with a b k assms(1,3) show ?thesis
    by (cases y) (auto simp: finish_mutation_def seqA_def bindA_def ret_def one_record_def
        split: if_splits)
qed

lemma run_one_record:
  assumes "mm_audit meta" and "mc_capability ctx = c_capability c"
    and "keepsA same_audit (d c)" and "run_mutation env ctx c cap meta t0 d s = (x, s')"
  shows "one_record (me_sinks env) ctx c x (s_audit s) (s_audit s')"
proof -
  let ?go = "EvMutation (MutationStarted (mc_mutation ctx))"
  obtain y s1 where p: "publish (me_mw env) ?go s = (y, s1)" by fastforce
  obtain z s2 where d: "d c s1 = (z, s2)" by fastforce
  have s1: "s_audit s1 = s_audit s" using keepsAD[OF same_audit_publish p] by (simp add: same_audit_def)
  have s2: "s_audit s2 = s_audit s1" using keepsAD[OF assms(3) d] by (simp add: same_audit_def)
  show ?thesis
  proof (cases "\<exists>u oc. y = Inr u \<and> z = Inr oc")
    case False
    with p d s1 s2 assms(4) show ?thesis
      by (cases y; cases z) (auto simp: run_mutation_def seqA_def bindA_def one_record_def)
  next
    case True
    then obtain oc where yz: "y = Inr ()" "z = Inr oc" by auto
    obtain w s3 where h: "handle_failure env (mc_mutation ctx) c cap meta oc s2 = (w, s3)" by fastforce
    have s3: "s_audit s3 = s_audit s2" using keepsAD[OF same_audit_failure h] by (simp add: same_audit_def)
    from p d yz h s1 s2 s3 assms(4) show ?thesis
      by (cases w) (auto simp: run_mutation_def seqA_def bindA_def one_record_def[of _ _ _ "Inl _"]
          dest: finish_one_record[OF assms(1,2)])
  qed
qed

lemma reject_one_record:
  assumes "mm_audit meta" and "mc_capability ctx = c_capability c"
    and "reject_mutation env ctx c meta t0 s = (x, s')"
  shows "one_record (me_sinks env) ctx c x (s_audit s) (s_audit s')"
proof -
  let ?reason = "confirmation_denied_msg (mm_level meta)"
  let ?no = "EvMutation (MutationRejected (mc_mutation ctx) ?reason)"
  obtain y s1 where p: "publish (me_mw env) ?no s = (y, s1)" by fastforce
  have s1: "s_audit s1 = s_audit s" using keepsAD[OF same_audit_publish p] by (simp add: same_audit_def)
  obtain s2 r where "record_audit env ctx c M_REJECTED t0 VNone (Some ?reason) s1 = (Inr (), s2)"
    "s_audit s2 = s_audit s1 @ kept (me_sinks env) r"
    "agrees ctx c (build_outcome c OUT_DENIED (Some ?reason) None) r"
    using record_audit_keeps[of env ctx c M_REJECTED t0 VNone "Some ?reason" s1] assms(2)
    by (auto simp: agrees_def build_outcome_def map_outcome_to_state_def succeeded_def denied_def
        error_or_denial_def)
  with p s1 assms(1,3) show ?thesis
    by (cases y) (auto simp: reject_mutation_def Let_def seqA_def bindA_def ret_def one_record_def)
qed

text \<open>On a quiet bus the steps around the delegate return.\<close>

lemma handle_failure_quiet:
  assumes "me_mw env = quiet"
    and "\<And>mu. cap_mutating cap = Some mu \<Longrightarrow> \<exists>b. mu_supports mu (c_arguments c) = Inr b"
  shows "\<exists>oc' s'. handle_failure env mid c cap meta oc s = (Inr oc', s')"
proof (cases "failed oc \<and> mm_rollback meta \<and> cap_mutating cap \<noteq> None")
  case False
  then show ?thesis by (auto simp: handle_failure_def ret_def)
next
  case True
  then obtain mu where mu: "cap_mutating cap = Some mu" by auto
  with assms(2) obtain b where b: "mu_supports mu (c_arguments c) = Inr b" by blast
  obtain x d where x: "mu_rollback mu (c_arguments c) (o_data oc) (s_dev s) = (x, d)" by fastforce
  from True mu b x assms(1) show ?thesis
    by (cases x) (auto simp: handle_failure_def act_defs on_dev_def)
qed

lemma finish_quiet:
  assumes "me_mw env = quiet"
  shows "\<exists>s'. finish_mutation env ctx c meta t0 oc s = (Inr oc, s')"
proof -
  obtain s1 where "record_audit env ctx c (map_outcome_to_state oc) t0 (o_data oc)
      (error_or_denial oc) s = (Inr (), s1)" using record_audit_keeps by blast
  with assms show ?thesis by (simp add: finish_mutation_def seqA_def bindA_def ret_def)
qed

lemma run_quiet:
  assumes "me_mw env = quiet"
    and "\<And>mu. cap_mutating cap = Some mu \<Longrightarrow> \<exists>b. mu_supports mu (c_arguments c) = Inr b"
    and "\<And>s1. \<exists>oc s2. d c s1 = (Inr oc, s2)"
  shows "\<exists>oc s'. run_mutation env ctx c cap meta t0 d s = (Inr oc, s')"
proof -
  let ?s1 = "s\<lparr>w_trace := w_trace s @ [EvMutation (MutationStarted (mc_mutation ctx))]\<rparr>"
  obtain oc s2 where d: "d c ?s1 = (Inr oc, s2)" using assms(3) by blast
  obtain oc' s3 where h: "handle_failure env (mc_mutation ctx) c cap meta oc s2 = (Inr oc', s3)"
    using handle_failure_quiet[OF assms(1,2)] by blast
  obtain s4 where "finish_mutation env ctx c meta t0 oc' s3 = (Inr oc', s4)"
    using finish_quiet[OF assms(1)] by blast
  with assms(1) d h show ?thesis by (simp add: run_mutation_def seqA_def bindA_def)
qed

lemma reject_quiet:
  assumes "me_mw env = quiet"
  shows "\<exists>oc s'. reject_mutation env ctx c meta t0 s = (Inr oc, s')"
proof -
  let ?reason = "confirmation_denied_msg (mm_level meta)"
  let ?s1 = "s\<lparr>w_trace := w_trace s @ [EvMutation (MutationRejected (mc_mutation ctx) ?reason)]\<rparr>"
  obtain s2 where "record_audit env ctx c M_REJECTED t0 VNone (Some ?reason) ?s1 = (Inr (), s2)"
    using record_audit_keeps by blast
  with assms show ?thesis by (simp add: reject_mutation_def Let_def seqA_def bindA_def ret_def)
qed

section \<open>Properties\<close>

text \<open>
  C18. No unconfirmed execution: when the capability demands a confirmation and the confirmation
  manager does not answer yes (the provider refuses or raises, or nobody supports the level and the
  manager itself raises), the execution delegate is never called (the whole run is the same for any two delegates), device
  and registry are unchanged, and the outcome, if one is returned, is a denial. This holds for
  any middleware and any audit sinks.
\<close>

theorem unconfirmed_never_executes:
  assumes "lookup s (c_capability c) = Inr cap" and "mutation_meta_of cap = Some meta"
    and "mm_level meta \<noteq> NO_CONFIRMATION"
    and "request_confirmation (me_providers env) (mutation_context_of env c s) (mm_level meta) \<noteq> Inr True"
  shows "process_mutation env c d1 s = process_mutation env c d2 s \<and>
    s_dev (snd (process_mutation env c d1 s)) = s_dev s \<and>
    s_caps (snd (process_mutation env c d1 s)) = s_caps s \<and>
    (\<forall>oc. fst (process_mutation env c d1 s) = Inr oc \<longrightarrow> o_status oc = OUT_DENIED)"
proof -
  obtain r s' where p: "process_mutation env c d1 s = (r, s')" by fastforce
  from unconfirmed_same_device[OF assms p] p unconfirmed_rejects[OF assms] show ?thesis
    by (simp add: same_device_def)
qed

definition example_env :: "provider list \<Rightarrow> (int, unit) msys_scheme mutation_env" where
  "example_env ps = \<lparr>me_mw = quiet, me_uid = str_of_nat, me_now = (\<lambda>s. int (length (w_trace s))),
     me_providers = ps, me_sinks = [InMemorySink]\<rparr>"

definition example_meta :: "confirmation_level \<Rightarrow> mutation_metadata" where
  "example_meta l = default_mutation_metadata\<lparr>mm_level := l, mm_rollback := True\<rparr>"

definition example_msys :: "int capability \<Rightarrow> int msys" where
  "example_msys cap = \<lparr>w_trace = [], w_uid = 0, s_caps = [(''a'', cap)], s_dev = 0, s_audit = []\<rparr>"

definition example_command :: command where
  "example_command = \<lparr>c_id = ''1'', c_capability = ''a'', c_arguments = [], c_metadata = []\<rparr>"

definition example_delegate :: "outcome_status \<Rightarrow> command \<Rightarrow> (int msys, outcome) act" where
  "example_delegate st c s =
     (Inr ((build_outcome c st None None)\<lparr>o_data := VInt 5\<rparr>), s\<lparr>s_dev := s_dev s + 10\<rparr>)"

theorem unconfirmed_never_executes_witness:
  "s_dev (snd (process_mutation (example_env []) example_command (example_delegate OUT_SUCCEEDED)
     (example_msys (example_capability ''a'' (Some (CoreMeta (example_meta PIN))))))) = 0"
proof -
  let ?s = "example_msys (example_capability ''a'' (Some (CoreMeta (example_meta PIN))))"
  have "lookup ?s (c_capability example_command) =
      Inr (example_capability ''a'' (Some (CoreMeta (example_meta PIN))))"
    "mutation_meta_of (example_capability ''a'' (Some (CoreMeta (example_meta PIN)))) =
      Some (example_meta PIN)"
    "mm_level (example_meta PIN) \<noteq> NO_CONFIRMATION"
    "request_confirmation (me_providers (example_env [])) (mutation_context_of (example_env [])
       example_command ?s) (mm_level (example_meta PIN)) \<noteq> Inr True"
    by (simp_all add: lookup_def example_msys_def example_command_def mutation_meta_of_def
        example_capability_def example_meta_def request_confirmation_def example_env_def)
  from unconfirmed_never_executes[OF this] show ?thesis by (simp add: example_msys_def)
qed

text \<open>
  The module's default is final: \<open>MutationModule\<close> registers the provider that denies all
  requests first, and the manager asks the first provider that supports the level, so whatever
  providers are registered afterwards, every mutation that demands a confirmation is denied
  without being executed.
\<close>

theorem default_provider_denies_all:
  assumes "lookup s (c_capability c) = Inr cap" and "mutation_meta_of cap = Some meta"
    and "mm_level meta \<noteq> NO_CONFIRMATION"
    and "me_providers env = fold register_provider later [deny_by_default_provider]"
  shows "s_dev (snd (process_mutation env c d s)) = s_dev s \<and>
    (\<forall>oc. fst (process_mutation env c d s) = Inr oc \<longrightarrow> o_status oc = OUT_DENIED)"
proof -
  have "fold register_provider later ps = ps @ later" for ps
    by (induction later arbitrary: ps) (simp_all add: register_provider_def)
  then have "request_confirmation (me_providers env) (mutation_context_of env c s) (mm_level meta) \<noteq> Inr True"
    using assms(3,4) by (simp add: request_confirmation_def deny_by_default_provider_def)
  note U = assms(1-3) this
  obtain r s' where p: "process_mutation env c d s = (r, s')" by fastforce
  from unconfirmed_same_device[OF U p] p show ?thesis by (simp add: same_device_def)
qed

theorem default_provider_denies_all_witness:
  "s_dev (snd (process_mutation (example_env [deny_by_default_provider,
       \<lparr>pv_supports = (\<lambda>l. True), pv_confirm = (\<lambda>ctx l. Inr True)\<rparr>]) example_command
     (example_delegate OUT_SUCCEEDED)
     (example_msys (example_capability ''a'' (Some (CoreMeta (example_meta USER))))))) = 0"
proof -
  let ?s = "example_msys (example_capability ''a'' (Some (CoreMeta (example_meta USER))))"
  let ?env = "example_env [deny_by_default_provider,
     \<lparr>pv_supports = (\<lambda>l. True), pv_confirm = (\<lambda>ctx l. Inr True)\<rparr>]"
  have "lookup ?s (c_capability example_command) =
      Inr (example_capability ''a'' (Some (CoreMeta (example_meta USER))))"
    "mutation_meta_of (example_capability ''a'' (Some (CoreMeta (example_meta USER)))) =
      Some (example_meta USER)"
    "mm_level (example_meta USER) \<noteq> NO_CONFIRMATION"
    "me_providers ?env = fold register_provider
       [\<lparr>pv_supports = (\<lambda>l. True), pv_confirm = (\<lambda>ctx l. Inr True)\<rparr>] [deny_by_default_provider]"
    by (simp_all add: lookup_def example_msys_def example_command_def mutation_meta_of_def
        example_capability_def example_meta_def example_env_def register_provider_def)
  from default_provider_denies_all[OF this] show ?thesis by (simp add: example_msys_def)
qed

text \<open>
  C12. The audit trail is exact: take a capability whose metadata requires auditing, any bus (its
  middlewares may raise), any audit sinks (external ones may raise) and any delegate that does not
  write to the in-memory sinks itself. A mutation that returns an outcome has left exactly one audit
  record, one copy in each in-memory sink, and the record has the status (completed, rejected or
  failed), data and error of that outcome, which is the one after the rollback, and the mutation,
  command, workflow and user. A mutation that raises has left none, except that the record of a
  completed one is already there when the announcement of its completion raises. Where no middleware
  raises and the delegate and the capability's \<open>supports_rollback\<close> return, a mutation returns exactly
  when its confirmation level needs no answer or some provider supports it; otherwise it raises the
  \<open>TypeError\<close> of the confirmation manager's warning, with no record, before anything is executed.
\<close>

theorem audited_exactly_once:
  assumes "lookup s (c_capability c) = Inr cap" and "mutation_meta_of cap = Some meta"
    and "mm_audit meta" and "\<And>s1. s_audit (snd (d c s1)) = s_audit s1"
  shows "(case process_mutation env c d s of (x, s') \<Rightarrow>
      one_record (me_sinks env) (mutation_context_of env c s) c x (s_audit s) (s_audit s')) \<and>
    (me_mw env = quiet \<and> (\<forall>s1. \<exists>oc s2. d c s1 = (Inr oc, s2)) \<and>
       (\<forall>mu. cap_mutating cap = Some mu \<longrightarrow> (\<exists>b. mu_supports mu (c_arguments c) = Inr b)) \<longrightarrow>
     (if answered (me_providers env) (mm_level meta)
      then \<exists>oc s'. process_mutation env c d s = (Inr oc, s')
      else \<exists>s'. process_mutation env c d s = (Inl level_twice, s') \<and> s_audit s' = s_audit s \<and>
        s_dev s' = s_dev s))"
proof -
  let ?ctx = "mutation_context_of env c s"
  let ?ask = "request_confirmation (me_providers env) ?ctx (mm_level meta)"
  let ?s0 = "s\<lparr>w_uid := Suc (w_uid s)\<rparr>"
  let ?t0 = "me_now env ?s0"
  let ?mid = "me_uid env (w_uid s)"
  let ?asked = "EvMutation (MutationRequested ?mid (c_capability c) (c_arguments c))"
  let ?yes = "if mm_level meta = NO_CONFIRMATION then ret ()
    else publish (me_mw env) (EvMutation (MutationConfirmed ?mid))"
  have cap: "mc_capability ?ctx = c_capability c" by (simp add: mutation_context_of_def)
  have d: "keepsA same_audit (d c)" using assms(4) by (simp add: keepsA_def same_audit_def)
  note pm = process_mutation_staged[OF assms(1,2), of env d]
  obtain y s1 where p: "publish (me_mw env) ?asked ?s0 = (y, s1)" by fastforce
  obtain z s2 where q: "?yes s1 = (z, s2)" by fastforce
  have s1: "s_audit s1 = s_audit s" using keepsAD[OF same_audit_publish p] by (simp add: same_audit_def)
  have "keepsA same_audit ?yes" by (auto intro: same_audit_intros)
  from keepsAD[OF this q] s1 have s2: "s_audit s2 = s_audit s" by (simp add: same_audit_def)
  obtain xc sc where rc: "run_mutation env ?ctx c cap meta ?t0 d s2 = (xc, sc)" by fastforce
  obtain xj sj where j: "reject_mutation env ?ctx c meta ?t0 s1 = (xj, sj)" by fastforce
  note ones = run_one_record[OF assms(3) cap d rc, unfolded s2] reject_one_record[OF assms(3) cap j, unfolded s1]
  have 1: "case process_mutation env c d s of (x, s') \<Rightarrow>
      one_record (me_sinks env) ?ctx c x (s_audit s) (s_audit s')"
    unfolding pm using p q rc j ones s1 s2
    by (cases y; cases z; cases ?ask)
      (simp_all add: seqA_def bindA_def liftA_def one_record_def[of _ _ _ "Inl _"])
  have 2: "if answered (me_providers env) (mm_level meta)
      then \<exists>oc s'. process_mutation env c d s = (Inr oc, s')
      else \<exists>s'. process_mutation env c d s = (Inl level_twice, s') \<and> s_audit s' = s_audit s \<and>
        s_dev s' = s_dev s"
    if "me_mw env = quiet" "\<forall>s1. \<exists>oc s2. d c s1 = (Inr oc, s2)"
      "\<forall>mu. cap_mutating cap = Some mu \<longrightarrow> (\<exists>b. mu_supports mu (c_arguments c) = Inr b)"
  proof -
    have run: "\<exists>oc s'. run_mutation env ?ctx c cap meta ?t0 d s2 = (Inr oc, s')"
      using that by (intro run_quiet) auto
    have rej: "\<exists>oc s'. reject_mutation env ?ctx c meta ?t0 s1 = (Inr oc, s')"
      using that(1) by (rule reject_quiet)
    have "y = Inr ()" "z = Inr ()" "s_dev s1 = s_dev s"
      using p q that(1) by (auto simp: ret_def split: if_splits)
    with p q run rej s1 request_answered[of "me_providers env" "mm_level meta" ?ctx] show ?thesis
      unfolding pm by (cases ?ask) (auto simp: seqA_def bindA_def liftA_def split: if_splits)
  qed
  from 1 2 show ?thesis by blast
qed

theorem audited_exactly_once_witness:
  "\<exists>oc s' r. process_mutation ((example_env [])\<lparr>me_sinks :=
       [ExternalSink (\<lambda>r. Some (Exn (Py PyValueError) '''')), InMemorySink]\<rparr>)
     example_command (example_delegate OUT_FAILED)
     (example_msys (example_capability ''a'' (Some (CoreMeta (example_meta NO_CONFIRMATION))))) =
       (Inr oc, s') \<and> s_audit s' = [(1, r)] \<and> au_status r = map_outcome_to_state oc \<and>
     au_data r = o_data oc \<and> au_mutation r = str_of_nat 0 \<and> au_capability r = ''a''"
proof -
  let ?cap = "example_capability ''a'' (Some (CoreMeta (example_meta NO_CONFIRMATION)))"
  let ?env = "(example_env [])\<lparr>me_sinks :=
    [ExternalSink (\<lambda>r. Some (Exn (Py PyValueError) '''')), InMemorySink]\<rparr>"
  let ?run = "process_mutation ?env example_command (example_delegate OUT_FAILED) (example_msys ?cap)"
  have 1: "lookup (example_msys ?cap) (c_capability example_command) = Inr ?cap"
    "mutation_meta_of ?cap = Some (example_meta NO_CONFIRMATION)"
    "mm_audit (example_meta NO_CONFIRMATION)"
    "\<And>s1. s_audit (snd (example_delegate OUT_FAILED example_command s1)) = s_audit s1"
    "me_mw ?env = quiet" "cap_mutating ?cap = None" "me_sinks ?env =
      [ExternalSink (\<lambda>r. Some (Exn (Py PyValueError) '''')), InMemorySink]"
    "answered (me_providers ?env) (mm_level (example_meta NO_CONFIRMATION))"
    "mc_mutation (mutation_context_of ?env example_command (example_msys ?cap)) = str_of_nat 0"
    "c_capability example_command = ''a''" "s_audit (example_msys ?cap) = []"
    by (simp_all add: example_env_def lookup_def example_msys_def example_command_def
        example_capability_def mutation_meta_of_def example_meta_def default_mutation_metadata_def
        example_delegate_def answered_def mutation_context_of_def)
  have kept: "kept [ExternalSink f, InMemorySink] r = [(1, r)]" for f r
    by (simp add: kept_def upt_conv_Cons)
  note both = audited_exactly_once[where d = "example_delegate OUT_FAILED", OF 1(1-4), of ?env]
  have "\<exists>oc s2. example_delegate OUT_FAILED example_command s1 = (Inr oc, s2)" for s1
    by (simp add: example_delegate_def)
  with conjunct2[OF both] 1 obtain oc s' where r: "?run = (Inr oc, s')" by auto
  from conjunct1[OF both] r obtain r where
    "s_audit s' = [] @ kept (me_sinks ?env) r"
    "agrees (mutation_context_of ?env example_command (example_msys ?cap)) example_command oc r"
    by (auto simp: one_record_def 1)
  with r show ?thesis unfolding 1(7) kept agrees_def 1(9,10) by auto
qed

text \<open>
  A failed execution is rolled back: when the delegate returns a failed outcome, the metadata
  and the capability support rollback and no middleware raises, the capability's rollback runs
  exactly once, on the device the delegate left, with the arguments of the command and the data of
  the failed outcome. If it succeeds the failed outcome is returned unchanged and the last event
  says rolled back; if it raises, the outcome is failed with both errors and the last event says
  so (auditing switched off, so that the events are these).
\<close>

theorem rollback_after_failure:
  assumes "me_mw env = quiet" and "lookup s (c_capability c) = Inr cap"
    and "mutation_meta_of cap = Some meta" and "mm_level meta = NO_CONFIRMATION"
    and "mm_rollback meta" and "\<not> mm_audit meta"
    and "cap_mutating cap = Some mu" and "mu_supports mu (c_arguments c) = Inr True"
    and "\<And>s1. s_dev s1 = s_dev s \<Longrightarrow> \<exists>s2. d c s1 = (Inr oc, s2) \<and> s_dev s2 = dev" and "failed oc"
    and "mu_rollback mu (c_arguments c) (o_data oc) dev = (r, dev')"
  shows "\<exists>s'. process_mutation env c d s = (Inr (case r of Inr u \<Rightarrow> oc
        | Inl e \<Rightarrow> build_outcome c OUT_FAILED None
            (Some (with_rollback_error oc (rollback_failed_msg e)))), s') \<and> s_dev s' = dev' \<and>
    last (w_trace s') = EvMutation (case r of
        Inr u \<Rightarrow> MutationRolledBack (me_uid env (w_uid s)) (or_else (o_error oc) ''Execution failed'')
      | Inl e \<Rightarrow> RollbackFailed (me_uid env (w_uid s)) (rollback_failed_msg e))"
proof -
  let ?mid = "me_uid env (w_uid s)"
  let ?s1 = "s\<lparr>w_uid := Suc (w_uid s), w_trace := w_trace s @
    [EvMutation (MutationRequested ?mid (c_capability c) (c_arguments c)),
     EvMutation (MutationStarted ?mid)]\<rparr>"
  obtain s2 where d: "d c ?s1 = (Inr oc, s2)" "s_dev s2 = dev" using assms(9)[of ?s1] by auto
  have ns: "\<not> succeeded oc" using assms(10) by (simp add: failed_def succeeded_def)
  show ?thesis
    using assms d ns
    by (cases r) (simp_all add: process_mutation_found Let_def run_mutation_def act_defs
        handle_failure_def finish_mutation_def on_dev_def build_outcome_def succeeded_def)
qed

theorem rollback_after_failure_witness:
  "let cap = (example_capability ''a'' (Some (CoreMeta ((example_meta NO_CONFIRMATION)\<lparr>mm_audit := False\<rparr>))))
         \<lparr>cap_mutating := Some \<lparr>mu_supports = (\<lambda>a. Inr True), mu_rollback = (\<lambda>a v dev. (Inr (), dev - 10))\<rparr>\<rparr>
   in s_dev (snd (process_mutation (example_env []) example_command (example_delegate OUT_FAILED)
        (example_msys cap))) = 0"
proof -
  let ?cap = "(example_capability ''a'' (Some (CoreMeta ((example_meta NO_CONFIRMATION)\<lparr>mm_audit := False\<rparr>))))
         \<lparr>cap_mutating := Some \<lparr>mu_supports = (\<lambda>a. Inr True), mu_rollback = (\<lambda>a v dev. (Inr (), dev - 10))\<rparr>\<rparr>"
  let ?oc = "(build_outcome example_command OUT_FAILED None None)\<lparr>o_data := VInt 5\<rparr>"
  have "\<exists>s'. process_mutation (example_env []) example_command (example_delegate OUT_FAILED)
      (example_msys ?cap) = (Inr (case Inr () of Inr u \<Rightarrow> ?oc
        | Inl e \<Rightarrow> build_outcome example_command OUT_FAILED None
            (Some (with_rollback_error ?oc (rollback_failed_msg e)))), s') \<and> s_dev s' = 0 \<and>
    last (w_trace s') = EvMutation (case Inr () of
        Inr u \<Rightarrow> MutationRolledBack (me_uid (example_env []) (w_uid (example_msys ?cap)))
          (or_else (o_error ?oc) ''Execution failed'')
      | Inl e \<Rightarrow> RollbackFailed (me_uid (example_env []) (w_uid (example_msys ?cap)))
          (rollback_failed_msg e))"
    by (rule rollback_after_failure[where cap = ?cap and dev = 10
          and meta = "(example_meta NO_CONFIRMATION)\<lparr>mm_audit := False\<rparr>"
          and mu = "\<lparr>mu_supports = (\<lambda>a. Inr True), mu_rollback = (\<lambda>a v dev. (Inr (), dev - 10))\<rparr>"])
      (simp_all add: example_env_def lookup_def example_msys_def example_command_def
        example_capability_def mutation_meta_of_def example_meta_def default_mutation_metadata_def
        example_delegate_def failed_def build_outcome_def)
  then show ?thesis by (auto simp: Let_def)
qed

end
