(* ===== verification/Execution.thy ===== *)
theory Execution
  imports Mutation
begin

text \<open>
  The execution service (core/execution): the classifier, the protected dispatcher that puts the
  permission kernel in front of every capability, and the service that routes mutations through
  the mutation manager. The dispatcher's trust level comes from the command's metadata.
\<close>

section \<open>The classifier\<close>

datatype execution_type = READ | MUTATION

text \<open>
  \<open>getattr(mutation_meta, "is_mutation", False)\<close>: an instance of the core class has no such
  attribute.
\<close>

fun is_mutation_attr :: "mutation_attr \<Rightarrow> bool" where
  "is_mutation_attr (CoreMeta m) = False"
| "is_mutation_attr (MarkedMeta b m) = b"

definition classify :: "('d, 'z) sys_scheme \<Rightarrow> command \<Rightarrow> execution_type" where
  "classify s c = (case lookup s (c_capability c) of
     Inl e \<Rightarrow> READ
   | Inr cap \<Rightarrow>
     (case cap_metadata cap of
        None \<Rightarrow> READ
      | Some md \<Rightarrow> (case cm_mutation md of
          None \<Rightarrow> READ
        | Some m \<Rightarrow> if is_mutation_attr m then MUTATION else READ)))"

section \<open>The protected dispatcher\<close>

text \<open>
  What the dispatcher is built with. \<open>xe_confirmation\<close> is \<open>None\<close> when no confirmation manager was
  injected.
\<close>

record exec_env =
  xe_mw :: bus
  xe_uid :: "nat \<Rightarrow> string"
  xe_names :: "exn_class \<Rightarrow> string"
  xe_security :: security_manager
  xe_confirmation :: "provider list option"

text \<open>
  \<open>TrustLevel(value)\<close>, and \<open>UNTRUSTED\<close> for any value that is not one (a member of the enumeration
  is passed as the object of that class with its value).
\<close>

definition parse_trust :: "string \<Rightarrow> trust_level option" where
  "parse_trust v = find (\<lambda>t. trust_value t = v) [UNTRUSTED, LOW, MEDIUM, HIGH, CRITICAL]"

fun trust_of_value :: "pyval \<Rightarrow> trust_level" where
  "trust_of_value (VStr v) = (case parse_trust v of Some t \<Rightarrow> t | None \<Rightarrow> UNTRUSTED)"
| "trust_of_value (VObj cls as) =
     (if cls = ''TrustLevel''
      then (case map_of as ''value'' of
              Some (VStr v) \<Rightarrow> (case parse_trust v of Some t \<Rightarrow> t | None \<Rightarrow> UNTRUSTED)
            | _ \<Rightarrow> UNTRUSTED)
      else UNTRUSTED)"
| "trust_of_value v = UNTRUSTED"

definition command_trust :: "command \<Rightarrow> trust_level" where
  "command_trust c = trust_of_value (dget_or (c_metadata c) ''trust_level'' (VStr ''UNTRUSTED''))"

definition publish_denial :: "bus \<Rightarrow> string \<Rightarrow> string \<Rightarrow> string \<Rightarrow> ('w world_scheme, outcome) act" where
  "publish_denial mw cmd cap reason =
     seqA (publish mw (EvExecution (ExecutionDenied cmd cap reason)))
       (ret \<lparr>o_command = cmd, o_capability = cap, o_status = OUT_DENIED, o_data = VNone,
             o_denial = Some reason, o_error = None\<rparr>)"

definition no_confirmation_msg :: string where
  "no_confirmation_msg = ''Security requires approval, but ConfirmationManager is not injected.''"

definition user_denied_msg :: string where
  "user_denied_msg = ''User denied required security approval.''"

definition kernel_denied_msg :: string where
  "kernel_denied_msg = ''Permission denied by Security Kernel.''"

definition approval_context :: "command \<Rightarrow> string \<Rightarrow> mutation_context" where
  "approval_context c mid = \<lparr>mc_mutation = mid, mc_workflow = dget (c_metadata c) ''workflow_id'',
     mc_execution = c_id c, mc_capability = c_capability c,
     mc_user = dget (c_metadata c) ''user_id''\<rparr>"

text \<open>
  Authorization: \<open>None\<close> means authorized, \<open>Some reason\<close> that the denial was decided.
\<close>

definition authorization ::
  "exec_env \<Rightarrow> command \<Rightarrow> ('w world_scheme, string option) act" where
  "authorization env c =
     bindA (fresh_uid (xe_uid env)) (\<lambda>pid.
     bindA (check_permission (xe_mw env) (xe_security env)
       (IsRequest \<lparr>pr_permission = pid, pr_capability = c_capability c,
          pr_context = Some \<lparr>sc_request = c_id c, sc_capability = c_capability c,
                             sc_trust = command_trust c\<rparr>\<rparr>)) (\<lambda>res.
     if permission_state_value (ps_state res) = ''REQUIRES_APPROVAL'' then
       (case xe_confirmation env of
          None \<Rightarrow> ret (Some no_confirmation_msg)
        | Some providers \<Rightarrow>
          bindA (fresh_uid (xe_uid env)) (\<lambda>mid.
            bindA (liftA (request_confirmation providers (approval_context c mid) USER)) (\<lambda>confirmed.
              if \<not> confirmed then ret (Some user_denied_msg) else ret None)))
     else if \<not> ps_granted res then ret (Some (or_else (ps_reason res) kernel_denied_msg))
     else ret None))"

definition runtime_failed_msg :: "pyexn \<Rightarrow> string" where
  "runtime_failed_msg e = ''Runtime execution failed: '' @ exn_msg e"

text \<open>The \<open>try\<close> block that looks the capability up, announces the dispatch and executes.\<close>

definition run_capability ::
  "exec_env \<Rightarrow> command \<Rightarrow> (('d, 'z) sys_scheme, pyval) act" where
  "run_capability env c =
     (let r = \<lparr>er_execution = c_id c, er_capability = c_capability c,
               er_arguments = VDict (c_arguments c), er_metadata = c_metadata c\<rparr> in
      bindA (\<lambda>s. liftA (rt_dispatch s r) s) (\<lambda>cap.
      seqA (publish (xe_mw env) (EvExecution (ExecutionDispatched (c_id c) (c_capability c))))
        (rt_execute (xe_names env) cap r)))"

text \<open>What is published and returned after the block: a failure text or the result data.\<close>

definition report_result ::
  "exec_env \<Rightarrow> command \<Rightarrow> string + pyval \<Rightarrow> ('w world_scheme, outcome) act" where
  "report_result env c x = (case x of
     Inl msg \<Rightarrow>
       seqA (publish (xe_mw env) (EvExecution (ExecutionFailed (c_id c) (c_capability c) msg)))
        (ret \<lparr>o_command = c_id c, o_capability = c_capability c, o_status = OUT_FAILED,
              o_data = VNone, o_denial = None, o_error = Some msg\<rparr>)
   | Inr v \<Rightarrow>
       seqA (publish (xe_mw env) (EvExecution (ExecutionSucceeded (c_id c) (c_capability c) v)))
        (ret \<lparr>o_command = c_id c, o_capability = c_capability c, o_status = OUT_SUCCEEDED,
              o_data = v, o_denial = None, o_error = None\<rparr>))"

definition dispatch_authorized ::
  "exec_env \<Rightarrow> command \<Rightarrow> (('d, 'z) sys_scheme, outcome) act" where
  "dispatch_authorized env c =
     seqA (publish (xe_mw env) (EvExecution (ExecutionAuthorized (c_id c) (c_capability c))))
     (bindA (catchA (bindA (run_capability env c) (\<lambda>v. ret (Inr v)))
               (\<lambda>exc. ret (Inl (runtime_failed_msg exc))))
       (report_result env c))"

definition protected_dispatch ::
  "exec_env \<Rightarrow> command \<Rightarrow> (('d, 'z) sys_scheme, outcome) act" where
  "protected_dispatch env c =
     bindA (authorization env c) (\<lambda>denial.
       case denial of
         Some reason \<Rightarrow> publish_denial (xe_mw env) (c_id c) (c_capability c) reason
       | None \<Rightarrow> dispatch_authorized env c)"

section \<open>The service\<close>

definition invalid_command_msg :: string where
  "invalid_command_msg = ''ExecutionCommand must have a command_id and capability_id.''"

definition no_manager_msg :: string where
  "no_manager_msg = ''MutationManager is required for MUTATION execution.''"

text \<open>\<open>menv = None\<close> is a service without a mutation manager.\<close>

definition execute ::
  "exec_env \<Rightarrow> ('d, 'z) msys_scheme mutation_env option \<Rightarrow> command option \<Rightarrow>
   (('d, 'z) msys_scheme, outcome) act" where
  "execute env menv command = (case command of
     None \<Rightarrow> raise (InExecution ExecutionValidationError) invalid_command_msg
   | Some c \<Rightarrow>
     if c_id c = [] \<or> c_capability c = []
     then raise (InExecution ExecutionValidationError) invalid_command_msg
     else seqA (publish (xe_mw env) (EvExecution (ExecutionRequested (c_id c) (c_capability c))))
      (\<lambda>s. (case classify s c of
         MUTATION \<Rightarrow>
           (case menv of
              None \<Rightarrow> raise (InExecution ExecutionRuntimeError) no_manager_msg
            | Some me \<Rightarrow> process_mutation me c (\<lambda>cmd. protected_dispatch env cmd))
       | READ \<Rightarrow> protected_dispatch env c) s))"

section \<open>Authorization is decided by the policies\<close>

text \<open>
  \<open>permitted env c\<close>: a loaded policy names the capability, the command's trust suffices, and if
  approval is demanded a confirmation manager is there and says yes to some approval request.
\<close>

definition permitted :: "exec_env \<Rightarrow> command \<Rightarrow> bool" where
  "permitted env c \<longleftrightarrow> (\<exists>q. find_requirement (sm_policies (xe_security env)) (c_capability c) = Some q \<and>
     trust_sufficient (command_trust c) (rq_trust q) \<and>
     (rq_approval q \<longrightarrow> (\<exists>ps mid. xe_confirmation env = Some ps \<and>
        request_confirmation ps (approval_context c mid) USER = Inr True)))"

lemma state_value_approval [simp]:
  "permission_state_value st = ''REQUIRES_APPROVAL'' \<longleftrightarrow> st = REQUIRES_APPROVAL"
  by (cases st) simp_all

lemma authorization_permitted:
  assumes "authorization env c s = (Inr None, s')"
  shows "permitted env c"
proof -
  from assms obtain pid s1 res s2 where
    chk: "check_permission (xe_mw env) (xe_security env)
       (IsRequest \<lparr>pr_permission = pid, pr_capability = c_capability c,
          pr_context = Some \<lparr>sc_request = c_id c, sc_capability = c_capability c,
                             sc_trust = command_trust c\<rparr>\<rparr>) s1 = (Inr res, s2)"
    and rest: "(if ps_state res = REQUIRES_APPROVAL then
       (case xe_confirmation env of
          None \<Rightarrow> ret (Some no_confirmation_msg)
        | Some providers \<Rightarrow>
          bindA (fresh_uid (xe_uid env)) (\<lambda>mid.
            bindA (liftA (request_confirmation providers (approval_context c mid) USER)) (\<lambda>confirmed.
              if \<not> confirmed then ret (Some user_denied_msg) else ret None)))
     else if \<not> ps_granted res then ret (Some (or_else (ps_reason res) kernel_denied_msg))
     else ret None) s2 = (Inr None, s')"
    by (auto simp: authorization_def bindA_eq_Inr)
  have "ps_state res = GRANTED \<or> ps_state res = REQUIRES_APPROVAL"
    using rest check_result_consistent[OF chk] by (auto simp: ret_def split: if_splits)
  from check_permission_allows[OF chk this] have allow:
    "policy_allows (sm_policies (xe_security env)) (c_capability c) (command_trust c) (ps_state res)"
    by simp
  then obtain q where q: "find_requirement (sm_policies (xe_security env)) (c_capability c) = Some q"
    "trust_sufficient (command_trust c) (rq_trust q)"
    "ps_state res = (if rq_approval q then REQUIRES_APPROVAL else GRANTED)"
    by (auto simp: policy_allows_def split: option.splits)
  have "\<exists>ps mid. xe_confirmation env = Some ps \<and> request_confirmation ps (approval_context c mid) USER = Inr True"
    if "rq_approval q"
    using that rest q(3)
    by (auto simp: bindA_def fresh_uid_def ret_def liftA_def split: option.splits if_splits sum.splits)
  with q show ?thesis by (auto simp: permitted_def)
qed

lemma check_permission_same_device:
  "keepsA same_device (check_permission mw m req :: (('d, 'z) sys_scheme, _) act)"
  unfolding keepsA_def
proof
  fix s :: "('d, 'z) sys_scheme"
  have "only_trace s (snd (check_permission mw m req s))"
    by (rule check_permission_only_trace[unfolded keepsA_def, rule_format])
  then show "same_device s (snd (check_permission mw m req s))"
    by (auto simp: only_trace_def same_device_def)
qed

lemma authorization_same_device: "keepsA same_device (authorization env c :: (('d, 'z) sys_scheme, _) act)"
  by (auto simp: authorization_def intro!: same_device_intros check_permission_same_device
      split: option.splits)

lemma publish_denial_same_device:
  "keepsA same_device (publish_denial mw i cap reason :: (('d, 'z) sys_scheme, _) act)"
  by (auto simp: publish_denial_def intro!: same_device_intros)

text \<open>A dispatch that is not permitted touches neither device nor registry and never fails over.\<close>

lemma unpermitted_dispatch:
  assumes "\<not> permitted env c" and "protected_dispatch env c s = (r, s')"
  shows "same_device s s'" and "r = Inr oc \<Longrightarrow> o_status oc = OUT_DENIED"
proof -
  obtain x s1 where a: "authorization env c s = (x, s1)" by fastforce
  have s1: "same_device s s1" using keepsAD[OF authorization_same_device a] .
  have x: "x \<noteq> Inr None" using authorization_permitted assms(1) a by blast
  show "same_device s s'"
  proof (cases x)
    case (Inl e)
    with assms(2) a s1 show ?thesis by (simp add: protected_dispatch_def bindA_def)
  next
    case (Inr y)
    with x obtain reason where y: "y = Some reason" by auto
    with Inr a assms(2) have
      "publish_denial (xe_mw env) (c_id c) (c_capability c) reason s1 = (r, s')"
      by (simp add: protected_dispatch_def bindA_def)
    from keepsAD[OF publish_denial_same_device this] s1 show ?thesis
      by (blast intro: transpD[OF same_device_trans])
  qed
  show "o_status oc = OUT_DENIED" if "r = Inr oc"
    using that assms(2) a x
    by (cases x) (auto simp: protected_dispatch_def publish_denial_def seqA_def bindA_def ret_def
        publish_def split: option.splits sum.splits prod.splits)
qed

section \<open>A mutation around a harmless delegate\<close>

text \<open>
  A delegate that leaves the device alone and never reports a failure keeps the whole mutation
  harmless: the rollback, the only other step that touches the device, needs a failed outcome.
\<close>

lemma handle_failure_not_failed: "\<not> failed oc \<Longrightarrow> handle_failure env mid c cap meta oc = ret oc"
  by (simp add: handle_failure_def)

lemma run_mutation_same_device:
  assumes "\<And>s r s'. d c s = (r, s') \<Longrightarrow> same_device s s' \<and> (\<forall>oc. r = Inr oc \<longrightarrow> \<not> failed oc)"
  shows "keepsA same_device (run_mutation env ctx c cap meta t0 d)"
proof -
  have "keepsA same_device (bindA (d c) (\<lambda>oc.
      bindA (handle_failure env (mc_mutation ctx) c cap meta oc) (\<lambda>oc'.
      finish_mutation env ctx c meta t0 oc')))"
    unfolding keepsA_def
  proof
    fix s
    obtain r s1 where d: "d c s = (r, s1)" by fastforce
    note D = assms[OF d]
    show "same_device s (snd (bindA (d c) (\<lambda>oc.
      bindA (handle_failure env (mc_mutation ctx) c cap meta oc) (\<lambda>oc'.
      finish_mutation env ctx c meta t0 oc')) s))"
    proof (cases r)
      case (Inl e)
      with d D show ?thesis by (simp add: bindA_def)
    next
      case (Inr oc)
      have "same_device s1 (snd (finish_mutation env ctx c meta t0 oc s1))"
        using same_device_finish[of env ctx c meta t0 oc] by (simp add: keepsA_def)
      with D d Inr show ?thesis
        by (auto simp: bindA_def handle_failure_not_failed ret_def
            intro: transpD[OF same_device_trans])
    qed
  qed
  from keepsA_seq[OF same_device_trans same_device_publish this]
  show ?thesis unfolding run_mutation_def .
qed

lemma run_mutation_denied:
  assumes "\<And>s oc s'. d c s = (Inr oc, s') \<Longrightarrow> o_status oc = OUT_DENIED"
    and "run_mutation env ctx c cap meta t0 d s = (Inr oc, s')"
  shows "o_status oc = OUT_DENIED"
proof -
  from assms(2) obtain s1 oc1 s2 where d: "d c s1 = (Inr oc1, s2)"
    and rest: "bindA (handle_failure env (mc_mutation ctx) c cap meta oc1)
      (\<lambda>oc'. finish_mutation env ctx c meta t0 oc') s2 = (Inr oc, s')"
    unfolding run_mutation_def seqA_def bindA_eq_Inr by blast
  from assms(1)[OF d] have "o_status oc1 = OUT_DENIED" .
  moreover from this rest have "finish_mutation env ctx c meta t0 oc1 s2 = (Inr oc, s')"
    by (simp add: handle_failure_not_failed failed_def)
  then have "oc = oc1" by (auto simp: finish_mutation_def seqA_def bindA_eq_Inr ret_def)
  ultimately show ?thesis by simp
qed

lemma process_mutation_denied:
  assumes "\<And>s oc s'. d c s = (Inr oc, s') \<Longrightarrow> o_status oc = OUT_DENIED"
    and "lookup s (c_capability c) = Inr cap"
    and "process_mutation env c d s = (Inr oc, s')"
  shows "o_status oc = OUT_DENIED"
  using assms(3) run_mutation_denied[of d c, OF assms(1)]
  by (auto simp: process_mutation_found[OF assms(2)] Let_def seqA_def bindA_eq_Inr raise_def liftA_def
      dest: reject_denied split: option.splits if_splits)

lemma process_mutation_same_device:
  fixes d :: "command \<Rightarrow> (('d, 'z) msys_scheme, outcome) act"
  assumes "\<And>s r s'. d c s = (r, s') \<Longrightarrow> same_device s s' \<and> (\<forall>oc. r = Inr oc \<longrightarrow> \<not> failed oc)"
  shows "keepsA same_device (process_mutation env c d)"
  unfolding keepsA_def
proof
  fix s :: "('d, 'z) msys_scheme"
  let ?s0 = "s\<lparr>w_uid := Suc (w_uid s)\<rparr>"
  have s0: "same_device s ?s0" by (simp add: same_device_def)
  show "same_device s (snd (process_mutation env c d s))"
  proof (cases "lookup s (c_capability c)")
    case (Inl e)
    then have "lookup ?s0 (c_capability c) = Inl e" by (simp add: lookup_def)
    with s0 show ?thesis
      by (simp add: process_mutation_def bindA_def fresh_uid_def ret_def Let_def)
  next
    case (Inr cap)
    have "keepsA same_device
      (seqA (publish (me_mw env) (EvMutation (MutationRequested mid (c_capability c) (c_arguments c))))
         (case mutation_meta_of cap of
            None \<Rightarrow> raise (Py PyAttributeError) msg
          | Some meta \<Rightarrow>
            (if mm_level meta \<noteq> NO_CONFIRMATION then
               bindA (liftA (request_confirmation (me_providers env) ctx (mm_level meta))) (\<lambda>ok.
                 if \<not> ok then reject_mutation env ctx c meta t0
                 else seqA (publish (me_mw env) (EvMutation (MutationConfirmed mid)))
                        (run_mutation env ctx c cap meta t0 d))
             else run_mutation env ctx c cap meta t0 d)))" for mid msg ctx t0
      by (auto intro!: same_device_intros same_device_reject run_mutation_same_device assms
          split: option.splits)
    then have "same_device ?s0 (snd (process_mutation env c d s))"
      by (simp add: process_mutation_found[OF Inr] Let_def keepsA_def)
    with s0 show ?thesis by (rule transpD[OF same_device_trans])
  qed
qed

section \<open>Dispatching writes no mutation events\<close>

definition no_mutation :: "('d, 'z) msys_scheme \<Rightarrow> ('d, 'z) msys_scheme \<Rightarrow> bool" where
  "no_mutation s s' \<longleftrightarrow> s_audit s' = s_audit s \<and>
     (\<exists>es. w_trace s' = w_trace s @ es \<and> (\<forall>ev. EvMutation ev \<notin> set es))"

lemma no_mutation_refl: "reflp no_mutation"
  by (simp add: reflp_def no_mutation_def)

lemma no_mutation_trans: "transp no_mutation"
  by (auto simp: transp_def no_mutation_def)

lemma no_mutation_publish: "(\<And>ev. e \<noteq> EvMutation ev) \<Longrightarrow> keepsA no_mutation (publish mw e)"
  by (auto simp: keepsA_def no_mutation_def publish_def)

lemma no_mutation_fresh: "keepsA no_mutation (fresh_uid uid)"
  by (simp add: keepsA_def no_mutation_def fresh_uid_def)

lemma no_mutation_on_dev: "keepsA no_mutation (on_dev m)"
  by (simp add: keepsA_def no_mutation_def on_dev_def split: prod.splits)

lemma no_mutation_reader: "keepsA no_mutation (\<lambda>s. liftA (f s) s)"
  by (simp add: keepsA_def no_mutation_def liftA_def)

lemmas no_mutation_intros = keepsA_ret[OF no_mutation_refl] keepsA_raise[OF no_mutation_refl]
  keepsA_bind[OF no_mutation_trans] keepsA_seq[OF no_mutation_trans]
  keepsA_catch[OF no_mutation_trans] keepsA_lift[OF no_mutation_refl] no_mutation_publish
  no_mutation_fresh no_mutation_on_dev no_mutation_reader

lemma no_mutation_check: "keepsA no_mutation (check_permission mw m req)"
  by (auto simp: check_permission_def permission_pipeline_def deny_def Let_def
      intro!: no_mutation_intros split: request_arg.splits)

lemma no_mutation_authorization: "keepsA no_mutation (authorization env c)"
  by (auto simp: authorization_def intro!: no_mutation_intros no_mutation_check
      split: option.splits)

lemma no_mutation_run: "keepsA no_mutation (run_capability env c)"
  by (auto simp: run_capability_def rt_execute_def Let_def intro!: no_mutation_intros)

lemma no_mutation_dispatch: "keepsA no_mutation (protected_dispatch env c)"
  by (auto simp: protected_dispatch_def dispatch_authorized_def publish_denial_def report_result_def
      intro!: no_mutation_intros no_mutation_authorization no_mutation_run
      split: option.splits sum.splits)

lemma failed_dispatch_data:
  assumes "protected_dispatch env c s = (Inr oc, s')" and "failed oc"
  shows "o_data oc = VNone" and "o_error oc \<noteq> None"
proof -
  from assms(1) obtain x s1 where x: "(case x of
         Some reason \<Rightarrow> publish_denial (xe_mw env) (c_id c) (c_capability c) reason
       | None \<Rightarrow> dispatch_authorized env c) s1 = (Inr oc, s')"
    unfolding protected_dispatch_def bindA_eq_Inr by blast
  have "o_data oc = VNone \<and> o_error oc \<noteq> None"
  proof (cases x)
    case (Some reason)
    with x have "o_status oc = OUT_DENIED"
      by (auto simp: publish_denial_def seqA_def bindA_eq_Inr ret_def)
    with assms(2) show ?thesis by (simp add: failed_def)
  next
    case None
    with x obtain y s2 where "report_result env c y s2 = (Inr oc, s')"
      by (auto simp: dispatch_authorized_def seqA_def bindA_eq_Inr)
    with assms(2) show ?thesis
      by (cases y) (auto simp: report_result_def seqA_def bindA_eq_Inr ret_def failed_def)
  qed
  then show "o_data oc = VNone" and "o_error oc \<noteq> None" by blast+
qed

lemma unpermitted_command_harmless:
  assumes "\<not> permitted env c"
  shows "s_dev (snd (execute env menv (Some c) s)) = s_dev s \<and>
    s_caps (snd (execute env menv (Some c) s)) = s_caps s \<and>
    (\<forall>oc. fst (execute env menv (Some c) s) = Inr oc \<longrightarrow> o_status oc = OUT_DENIED)"
proof -
  let ?pub = "publish (xe_mw env) (EvExecution (ExecutionRequested (c_id c) (c_capability c)))"
  let ?m = "\<lambda>s. (case classify s c of
         MUTATION \<Rightarrow>
           (case menv of
              None \<Rightarrow> raise (InExecution ExecutionRuntimeError) no_manager_msg
            | Some me \<Rightarrow> process_mutation me c (\<lambda>cmd. protected_dispatch env cmd))
       | READ \<Rightarrow> protected_dispatch env c) s"
  note U = unpermitted_dispatch[OF assms]
  have harmless: "same_device s s' \<and> (\<forall>oc. r = Inr oc \<longrightarrow> \<not> failed oc)"
    if "protected_dispatch env c s = (r, s')" for s s' :: "('a, 'b) msys_scheme" and r
    using U[OF that] by (auto simp: failed_def)
  have M: "same_device s (snd (?m s)) \<and> (\<forall>oc. fst (?m s) = Inr oc \<longrightarrow> o_status oc = OUT_DENIED)"
    for s :: "('a, 'b) msys_scheme"
  proof (cases "classify s c")
    case READ
    obtain r s' where p: "protected_dispatch env c s = (r, s')" by fastforce
    from READ U(1)[OF p] U(2)[OF p] p show ?thesis by simp
  next
    case MUTATION
    then obtain cap where cap: "lookup s (c_capability c) = Inr cap"
      by (auto simp: classify_def split: sum.splits)
    have "same_device s (snd (process_mutation me c (\<lambda>cmd. protected_dispatch env cmd) s))" for me
      using process_mutation_same_device[of "\<lambda>cmd. protected_dispatch env cmd" c me] harmless
      by (simp add: keepsA_def)
    moreover have "o_status oc = OUT_DENIED"
      if "fst (process_mutation me c (\<lambda>cmd. protected_dispatch env cmd) s) = Inr oc" for me oc
      using that process_mutation_denied[OF _ cap, of "\<lambda>cmd. protected_dispatch env cmd"] U(2)
      by (metis prod.collapse)
    ultimately show ?thesis
      using MUTATION by (auto simp: raise_def same_device_def split: option.splits)
  qed
  show ?thesis
  proof (cases "c_id c = [] \<or> c_capability c = []")
    case True
    then show ?thesis by (simp add: execute_def raise_def)
  next
    case False
    obtain x s1 where p: "?pub s = (x, s1)" by fastforce
    have s1: "same_device s s1" using keepsAD[OF same_device_publish p] .
    have ex: "execute env menv (Some c) s = (case x of Inl e \<Rightarrow> (Inl e, s1) | Inr u \<Rightarrow> ?m s1)"
      using False p by (simp add: execute_def seqA_def bindA_def split: sum.splits)
    show ?thesis
    proof (cases x)
      case (Inl e)
      with ex s1 show ?thesis by (simp add: same_device_def)
    next
      case (Inr u)
      from Inr ex have "execute env menv (Some c) s = ?m s1" by simp
      with M[of s1] s1 show ?thesis by (simp only: same_device_def) simp
    qed
  qed
qed

section \<open>Properties\<close>

text \<open>
  C1. No execution without permission. Unless a loaded policy names the capability, the command's
  trust level suffices and a demanded approval is given, executing a command leaves the device
  state and the registry unchanged, and whatever outcome is returned is a denial. This covers
  reads and mutations, and any behaviour of middlewares, confirmation providers, audit sinks and
  capabilities, a capability's rollback included.
\<close>

theorem unpermitted_never_executes:
  assumes "\<not> permitted env c"
  shows "s_dev (snd (execute env menv (Some c) s)) = s_dev s \<and>
    s_caps (snd (execute env menv (Some c) s)) = s_caps s \<and>
    (\<forall>oc. fst (execute env menv (Some c) s) = Inr oc \<longrightarrow> o_status oc = OUT_DENIED)"
  by (rule unpermitted_command_harmless[OF assms])

definition example_exec_env :: "exec_env" where
  "example_exec_env = \<lparr>xe_mw = quiet, xe_uid = str_of_nat, xe_names = (\<lambda>c. ''Error''),
     xe_security = \<lparr>sm_policies = [(''p'', \<lparr>pp_id = ''p'', pp_requirements =
       [\<lparr>rq_capability = ''a'', rq_trust = LOW, rq_approval = False\<rparr>]\<rparr>)], sm_started = True\<rparr>,
     xe_confirmation = None\<rparr>"

definition trusted_command :: "string \<Rightarrow> command" where
  "trusted_command t = example_command\<lparr>c_metadata := [(''trust_level'', VStr t)]\<rparr>"

lemma example_command_sel [simp]:
  "c_id example_command = ''1''" "c_capability example_command = ''a''"
  "c_id (trusted_command t) = ''1''" "c_capability (trusted_command t) = ''a''"
  by (simp_all add: example_command_def trusted_command_def)

lemma example_exec_requirement:
  "find_requirement (sm_policies (xe_security example_exec_env)) ''a'' =
     Some \<lparr>rq_capability = ''a'', rq_trust = LOW, rq_approval = False\<rparr>"
  by (simp add: example_exec_env_def find_requirement_def)

lemma example_trust:
  "command_trust example_command = UNTRUSTED" "command_trust (trusted_command ''HIGH'') = HIGH"
  by (simp_all add: command_trust_def example_command_def trusted_command_def parse_trust_def)

theorem unpermitted_never_executes_witness:
  "s_dev (snd (execute example_exec_env None (Some example_command)
     (example_msys (example_capability ''a'' None)))) = 0"
proof -
  have "\<not> permitted example_exec_env example_command"
    using example_exec_requirement
    by (auto simp: permitted_def example_trust(1) trust_sufficient_def)
  from unpermitted_never_executes[OF this, of None "example_msys (example_capability ''a'' None)"]
  show ?thesis by (simp add: example_msys_def)
qed

text \<open>What a permitted dispatch does, on a quiet bus and without a demanded approval.\<close>

lemma authorization_granted:
  assumes "xe_mw env = quiet" and "c_capability c \<noteq> []" and "xe_uid env (w_uid s) \<noteq> []"
    and "find_requirement (sm_policies (xe_security env)) (c_capability c) = Some q"
    and "trust_sufficient (command_trust c) (rq_trust q)" and "\<not> rq_approval q"
  shows "authorization env c s = (Inr None, s\<lparr>w_uid := Suc (w_uid s), w_trace := w_trace s @
     [EvSecurity (PermissionRequested (xe_uid env (w_uid s)) (c_capability c)),
      EvSecurity (PolicyEvaluationCompleted (xe_uid env (w_uid s)) (c_capability c) ''GRANTED''),
      EvSecurity (PermissionGranted (xe_uid env (w_uid s)) (c_capability c)
        (trust_value (command_trust c)))]\<rparr>)"
  using assms
  by (simp add: authorization_def fresh_uid_def bindA_def check_permission_def catchA_def
      permission_pipeline_def seqA_def liftA_def validate_permission_request_def evaluate_def
      authorize_def ret_def Let_def)

lemma permitted_read_runs:
  assumes "xe_mw env = quiet" and "c_id c \<noteq> []" and "c_capability c \<noteq> []"
    and "xe_uid env (w_uid s) \<noteq> []"
    and "find_requirement (sm_policies (xe_security env)) (c_capability c) = Some q"
    and "trust_sufficient (command_trust c) (rq_trust q)" and "\<not> rq_approval q"
    and "lookup s (c_capability c) = Inr cap" and "classify s c = READ"
    and "cap_execute cap \<lparr>er_execution = c_id c, er_capability = c_capability c,
           er_arguments = VDict (c_arguments c), er_metadata = c_metadata c\<rparr> (s_dev s) = (r, dev)"
  shows "\<exists>oc s' last. execute env menv (Some c) s = (Inr oc, s') \<and> s_dev s' = dev \<and>
    w_trace s' = w_trace s @
     [EvExecution (ExecutionRequested (c_id c) (c_capability c)),
      EvSecurity (PermissionRequested (xe_uid env (w_uid s)) (c_capability c)),
      EvSecurity (PolicyEvaluationCompleted (xe_uid env (w_uid s)) (c_capability c) ''GRANTED''),
      EvSecurity (PermissionGranted (xe_uid env (w_uid s)) (c_capability c)
        (trust_value (command_trust c))),
      EvExecution (ExecutionAuthorized (c_id c) (c_capability c)),
      EvExecution (ExecutionDispatched (c_id c) (c_capability c)), EvExecution last] \<and>
    (case r of
       Inr v \<Rightarrow> o_status oc = OUT_SUCCEEDED \<and> o_data oc = v \<and>
         last = ExecutionSucceeded (c_id c) (c_capability c) v
     | Inl e \<Rightarrow> o_status oc = OUT_FAILED \<and> o_data oc = VNone \<and>
         (\<exists>msg. o_error oc = Some msg \<and> last = ExecutionFailed (c_id c) (c_capability c) msg))"
proof -
  let ?s0 = "s\<lparr>w_trace := w_trace s @ [EvExecution (ExecutionRequested (c_id c) (c_capability c))]\<rparr>"
  have cl: "classify ?s0 c = READ" using assms(9) by (simp add: classify_def lookup_def)
  have u: "xe_uid env (w_uid ?s0) \<noteq> []" using assms(4) by simp
  note A = authorization_granted[OF assms(1,3) u assms(5-7)]
  have ex: "execute env menv (Some c) s = protected_dispatch env c ?s0"
    using assms(1-3) cl by (simp add: execute_def seqA_def bindA_def)
  note defs = protected_dispatch_def dispatch_authorized_def report_result_def run_capability_def seqA_def bindA_def
    catchA_def liftA_def ret_def raise_def rt_dispatch_def rt_execute_def on_dev_def Let_def
  show ?thesis
    using A assms(1,8,10) by (cases r) (simp_all add: ex defs lookup_def split: option.splits)
qed

text \<open>
  C3. A permitted read runs the capability exactly once and reports what happened: with a policy
  that grants, no approval demanded and no middleware raising, executing a read command publishes
  requested, the three permission events, authorized, dispatched and succeeded or failed, in this
  order; the device is what the capability's \<open>execute\<close> made of it; a returned value gives a
  succeeded outcome with that value, an exception a failed outcome without data.
\<close>

theorem permitted_read_executes:
  assumes "xe_mw env = quiet" and "c_id c \<noteq> []" and "c_capability c \<noteq> []"
    and "xe_uid env (w_uid s) \<noteq> []"
    and "find_requirement (sm_policies (xe_security env)) (c_capability c) = Some q"
    and "trust_sufficient (command_trust c) (rq_trust q)" and "\<not> rq_approval q"
    and "lookup s (c_capability c) = Inr cap" and "classify s c = READ"
    and "cap_execute cap \<lparr>er_execution = c_id c, er_capability = c_capability c,
           er_arguments = VDict (c_arguments c), er_metadata = c_metadata c\<rparr> (s_dev s) = (r, dev)"
  shows "\<exists>oc s' last. execute env menv (Some c) s = (Inr oc, s') \<and> s_dev s' = dev \<and>
    w_trace s' = w_trace s @
     [EvExecution (ExecutionRequested (c_id c) (c_capability c)),
      EvSecurity (PermissionRequested (xe_uid env (w_uid s)) (c_capability c)),
      EvSecurity (PolicyEvaluationCompleted (xe_uid env (w_uid s)) (c_capability c) ''GRANTED''),
      EvSecurity (PermissionGranted (xe_uid env (w_uid s)) (c_capability c)
        (trust_value (command_trust c))),
      EvExecution (ExecutionAuthorized (c_id c) (c_capability c)),
      EvExecution (ExecutionDispatched (c_id c) (c_capability c)), EvExecution last] \<and>
    (case r of
       Inr v \<Rightarrow> o_status oc = OUT_SUCCEEDED \<and> o_data oc = v \<and>
         last = ExecutionSucceeded (c_id c) (c_capability c) v
     | Inl e \<Rightarrow> o_status oc = OUT_FAILED \<and> o_data oc = VNone \<and>
         (\<exists>msg. o_error oc = Some msg \<and> last = ExecutionFailed (c_id c) (c_capability c) msg))"
  by (rule permitted_read_runs[OF assms])

theorem permitted_read_executes_witness:
  "\<exists>oc s'. execute example_exec_env None (Some (trusted_command ''HIGH''))
     (example_msys (example_capability ''a'' None)) = (Inr oc, s') \<and> s_dev s' = 1 \<and>
     o_status oc = OUT_SUCCEEDED \<and> o_data oc = VInt 0 \<and> length (w_trace s') = 7"
proof -
  let ?c = "trusted_command ''HIGH''" and ?s = "example_msys (example_capability ''a'' None)"
  have "str_of_nat n \<noteq> []" for n by (subst str_of_nat.simps) simp
  then have 1: "xe_mw example_exec_env = quiet" "c_id ?c \<noteq> []" "c_capability ?c \<noteq> []"
    "xe_uid example_exec_env (w_uid ?s) \<noteq> []"
    by (simp_all add: example_exec_env_def)
  have 2: "find_requirement (sm_policies (xe_security example_exec_env)) (c_capability ?c) =
      Some \<lparr>rq_capability = ''a'', rq_trust = LOW, rq_approval = False\<rparr>"
    "trust_sufficient (command_trust ?c)
      (rq_trust \<lparr>rq_capability = ''a'', rq_trust = LOW, rq_approval = False\<rparr>)"
    "\<not> rq_approval \<lparr>rq_capability = ''a'', rq_trust = LOW, rq_approval = False\<rparr>"
    using example_exec_requirement
    by (simp_all add: trust_sufficient_def example_trust(2))
  have 3: "lookup ?s (c_capability ?c) = Inr (example_capability ''a'' None)" "classify ?s ?c = READ"
    by (simp_all add: lookup_def classify_def example_msys_def example_capability_def)
  have 4: "cap_execute (example_capability ''a'' None) \<lparr>er_execution = c_id ?c,
      er_capability = c_capability ?c, er_arguments = VDict (c_arguments ?c),
      er_metadata = c_metadata ?c\<rparr> (s_dev ?s) = (Inr (VInt 0), 1)"
    by (simp add: example_capability_def example_msys_def)
  from permitted_read_executes[OF 1 2 3 4, of None] show ?thesis
    by (auto simp: example_msys_def)
qed

text \<open>A command that is classified as a read never meets the mutation manager.\<close>

lemma read_skips_manager:
  assumes "classify s c = READ"
  shows "execute env menv (Some c) s = execute env None (Some c) s"
    and "no_mutation s (snd (execute env menv (Some c) s))"
proof -
  let ?run = "if c_id c = [] \<or> c_capability c = []
    then raise (InExecution ExecutionValidationError) invalid_command_msg
    else seqA (publish (xe_mw env) (EvExecution (ExecutionRequested (c_id c) (c_capability c))))
      (protected_dispatch env c)"
  have cl: "classify s1 c = READ" if "s_caps s1 = s_caps s" for s1
    using assms that by (simp add: classify_def lookup_def split: option.splits)
  have eq: "execute env me (Some c) s = ?run s" for me
    by (simp add: execute_def seqA_def bindA_def publish_def cl split: option.splits)
  show "execute env menv (Some c) s = execute env None (Some c) s" by (simp only: eq)
  have "keepsA no_mutation ?run" by (auto intro!: no_mutation_intros no_mutation_dispatch)
  then show "no_mutation s (snd (execute env menv (Some c) s))" by (auto simp: keepsA_def eq)
qed

lemma core_metadata_reads:
  assumes "lookup s (c_capability c) = Inr cap" and "cap_metadata cap = Some md"
    and "cm_mutation md = None \<or> (\<exists>meta. cm_mutation md = Some (CoreMeta meta))"
  shows "classify s c = READ"
  using assms by (auto simp: classify_def)

text \<open>
  A capability whose metadata is an instance of the core \<open>MutationMetadata\<close> class (what the
  Android adapter builds for every mutating capability) is never classified as a mutation: the
  service never runs the mutation lifecycle for it, so no confirmation is asked for however high
  its confirmation level is, no mutation event is published and no audit record is written.
\<close>

theorem core_metadata_bypasses_lifecycle:
  assumes "lookup s (c_capability c) = Inr cap" and "cap_metadata cap = Some md"
    and "cm_mutation md = Some (CoreMeta meta)"
  shows "classify s c = READ \<and> execute env (Some me) (Some c) s = execute env None (Some c) s \<and>
    s_audit (snd (execute env (Some me) (Some c) s)) = s_audit s \<and>
    (\<forall>ev. EvMutation ev \<in> set (w_trace (snd (execute env (Some me) (Some c) s))) \<longrightarrow>
       EvMutation ev \<in> set (w_trace s))"
proof -
  have cl: "classify s c = READ" using core_metadata_reads[OF assms(1,2)] assms(3) by blast
  from read_skips_manager[OF this, of env "Some me"] cl show ?thesis by (auto simp: no_mutation_def)
qed

theorem core_metadata_bypasses_lifecycle_witness:
  "classify (example_msys (example_capability ''a'' (Some (CoreMeta (example_meta OWNER_ONLY)))))
     example_command = READ"
proof -
  let ?cap = "example_capability ''a'' (Some (CoreMeta (example_meta OWNER_ONLY)))"
  have "lookup (example_msys ?cap) (c_capability example_command) = Inr ?cap"
    "cap_metadata ?cap = Some \<lparr>cm_id = ''a'', cm_name = ''a'', cm_description = [],
       cm_version = ''1'', cm_mutation = Some (CoreMeta (example_meta OWNER_ONLY))\<rparr>"
    "cm_mutation \<lparr>cm_id = ''a'', cm_name = ''a'', cm_description = [],
       cm_version = ''1'', cm_mutation = Some (CoreMeta (example_meta OWNER_ONLY))\<rparr> =
     Some (CoreMeta (example_meta OWNER_ONLY))"
    by (simp_all add: lookup_def example_msys_def example_capability_def)
  from core_metadata_bypasses_lifecycle[OF this] show ?thesis by blast
qed

text \<open>
  The rollback of a mutation never sees the data of the execution: a dispatch that fails
  returns an outcome without data, so when the protected dispatcher is the delegate, the
  capability's rollback is called with \<open>original_result = None\<close> in every state.
\<close>

theorem failed_dispatch_has_no_data:
  assumes "protected_dispatch env c s = (Inr oc, s')" and "failed oc"
  shows "o_data oc = VNone \<and> o_error oc \<noteq> None \<and>
    (cap_mutating cap = Some mu \<and> mm_rollback meta \<and> mu_supports mu (c_arguments c) = Inr True \<longrightarrow>
     s_dev (snd (handle_failure menv mid c cap meta oc s1)) =
       snd (mu_rollback mu (c_arguments c) VNone (s_dev s1)))"
proof -
  note d = failed_dispatch_data[OF assms]
  obtain r dv where "mu_rollback mu (c_arguments c) VNone (s_dev s1) = (r, dv)" by fastforce
  with d assms(2) show ?thesis
    by (cases r) (auto simp: handle_failure_def act_defs on_dev_def publish_def
        split: option.splits prod.splits sum.splits)
qed

theorem failed_dispatch_has_no_data_witness:
  "let cap = (example_capability ''a'' None)\<lparr>cap_execute :=
       (\<lambda>r d. (Inl (Exn (Py PyValueError) ''boom''), d + 7))\<rparr>;
     oc = fst (protected_dispatch example_exec_env (trusted_command ''HIGH'') (example_msys cap))
   in \<exists>x. oc = Inr x \<and> o_data x = VNone"
proof -
  let ?cap = "(example_capability ''a'' None)\<lparr>cap_execute :=
       (\<lambda>r d. (Inl (Exn (Py PyValueError) ''boom''), d + 7))\<rparr>"
  let ?c = "trusted_command ''HIGH''"
  let ?s = "example_msys ?cap"
  have "str_of_nat n \<noteq> []" for n by (subst str_of_nat.simps) simp
  then have 1: "xe_mw example_exec_env = quiet" "c_capability ?c \<noteq> []"
    "xe_uid example_exec_env (w_uid ?s) \<noteq> []"
    by (simp_all add: example_exec_env_def)
  have 2: "find_requirement (sm_policies (xe_security example_exec_env)) (c_capability ?c) =
      Some \<lparr>rq_capability = ''a'', rq_trust = LOW, rq_approval = False\<rparr>"
    "trust_sufficient (command_trust ?c)
      (rq_trust \<lparr>rq_capability = ''a'', rq_trust = LOW, rq_approval = False\<rparr>)"
    "\<not> rq_approval \<lparr>rq_capability = ''a'', rq_trust = LOW, rq_approval = False\<rparr>"
    using example_exec_requirement
    by (simp_all add: trust_sufficient_def example_trust(2))
  have "\<exists>x s'. protected_dispatch example_exec_env ?c ?s = (Inr x, s') \<and> failed x"
    unfolding protected_dispatch_def bindA_def authorization_granted[OF 1 2]
    using 1(1) by (simp add: dispatch_authorized_def report_result_def run_capability_def seqA_def bindA_def
        catchA_def liftA_def ret_def raise_def rt_dispatch_def rt_execute_def on_dev_def Let_def
        lookup_def example_msys_def failed_def)
  then obtain x s' where x: "protected_dispatch example_exec_env ?c ?s = (Inr x, s')" "failed x"
    by blast
  from failed_dispatch_has_no_data[OF x, of ?cap] have "o_data x = VNone" by blast
  with x(1) show ?thesis by (simp add: Let_def)
qed

end
