(* ===== verification/Workflow.thy ===== *)
theory Workflow
  imports Execution
begin

text \<open>
  The workflow engine (core/workflow): requests and tasks, the scheduler, the task queue, the
  executor that turns a task into an execution command, and the manager's submit, cancel, pause,
  resume and status operations. The execution service the executor calls is a parameter of the
  definitions; the properties put \<open>Execution.execute\<close> there.
\<close>

section \<open>Models\<close>

datatype workflow_status = WF_PENDING | WF_RUNNING | WF_PAUSED | WF_COMPLETED | WF_FAILED
  | WF_CANCELLED

datatype task_priority = TP_LOW | TP_NORMAL | TP_HIGH | TP_CRITICAL

record workflow_request =
  wr_workflow :: string
  wr_capability :: string
  wr_arguments :: args
  wr_priority :: task_priority

record workflow_task =
  wt_task :: string
  wt_workflow :: string
  wt_capability :: string
  wt_arguments :: args
  wt_priority :: task_priority
  wt_status :: workflow_status
  wt_retries :: nat

record workflow_result =
  wres_workflow :: string
  wres_success :: bool
  wres_status :: workflow_status
  wres_data :: pyval
  wres_error :: "string option"

section \<open>The queue\<close>

record task_queue =
  q_queue :: "workflow_task list"
  q_lookup :: "(string, workflow_task) pydict"

definition new_queue :: task_queue where
  "new_queue = \<lparr>q_queue = [], q_lookup = []\<rparr>"

definition enqueue :: "workflow_task \<Rightarrow> task_queue \<Rightarrow> task_queue" where
  "enqueue t q = \<lparr>q_queue = q_queue q @ [t], q_lookup = AList.update (wt_task t) t (q_lookup q)\<rparr>"

definition dequeue :: "task_queue \<Rightarrow> workflow_task option \<times> task_queue" where
  "dequeue q = (case q_queue q of
     [] \<Rightarrow> (None, q)
   | t # ts \<Rightarrow> (Some t, \<lparr>q_queue = ts, q_lookup = AList.delete (wt_task t) (q_lookup q)\<rparr>))"

definition peek :: "task_queue \<Rightarrow> workflow_task option" where
  "peek q = (case q_queue q of [] \<Rightarrow> None | t # ts \<Rightarrow> Some t)"

definition queue_remove :: "string \<Rightarrow> task_queue \<Rightarrow> bool \<times> task_queue" where
  "queue_remove i q = (case map_of (q_lookup q) i of
     Some t \<Rightarrow> (True, \<lparr>q_queue = filter (\<lambda>t. wt_task t \<noteq> i) (q_queue q),
                       q_lookup = AList.delete i (q_lookup q)\<rparr>)
   | None \<Rightarrow> (False, q\<lparr>q_lookup := AList.delete i (q_lookup q)\<rparr>))"

definition queue_lookup :: "string \<Rightarrow> task_queue \<Rightarrow> workflow_task option" where
  "queue_lookup i q = map_of (q_lookup q) i"

definition queue_status :: "task_queue \<Rightarrow> nat \<times> nat" where
  "queue_status q = (length (q_queue q), length (q_lookup q))"

text \<open>The interface the manager uses of a queue, and what follows from its laws.\<close>

locale fifo =
  fixes contents :: "'q \<Rightarrow> 'a list"
    and enq :: "'a \<Rightarrow> 'q \<Rightarrow> 'q"
    and deq :: "'q \<Rightarrow> 'a option \<times> 'q"
  assumes contents_enq: "contents (enq x q) = contents q @ [x]"
    and deq_Nil: "contents q = [] \<Longrightarrow> deq q = (None, q)"
    and deq_Cons: "contents q = x # xs \<Longrightarrow> fst (deq q) = Some x \<and> contents (snd (deq q)) = xs"
begin

lemma contents_enq_all: "contents (fold enq xs q) = contents q @ xs"
  by (induction xs arbitrary: q) (simp_all add: contents_enq)

lemma deq_enq_Nil: "contents q = [] \<Longrightarrow> fst (deq (enq x q)) = Some x \<and> contents (snd (deq (enq x q))) = []"
  using deq_Cons[of "enq x q" x "[]"] by (simp add: contents_enq)

lemma deq_enq_Cons:
  "contents q = y # ys \<Longrightarrow>
   fst (deq (enq x q)) = Some y \<and> contents (snd (deq (enq x q))) = ys @ [x]"
  using deq_Cons[of "enq x q" y "ys @ [x]"] by (simp add: contents_enq)

lemma deq_none_iff: "fst (deq q) = None \<longleftrightarrow> contents q = []"
  by (cases "contents q") (auto simp: deq_Nil dest: deq_Cons)

text \<open>Taking as many elements as are there yields them in the order they were put.\<close>

primrec take_out :: "nat \<Rightarrow> 'q \<Rightarrow> 'a list" where
  "take_out 0 q = []"
| "take_out (Suc n) q = (case deq q of (None, q') \<Rightarrow> [] | (Some x, q') \<Rightarrow> x # take_out n q')"

lemma take_out_contents: "take_out n q = take n (contents q)"
proof (induction n arbitrary: q)
  case 0
  then show ?case by simp
next
  case (Suc n)
  show ?case
  proof (cases "contents q")
    case Nil
    then show ?thesis by (simp add: deq_Nil)
  next
    case (Cons x xs)
    obtain y q' where d: "deq q = (y, q')" by (cases "deq q")
    with deq_Cons[OF Cons] Suc[of q'] Cons show ?thesis by simp
  qed
qed

end

interpretation wq: fifo q_queue enqueue dequeue
  by unfold_locales (auto simp: enqueue_def dequeue_def)

text \<open>Queue and look-up table agree as long as task identifiers are distinct.\<close>

definition queue_ok :: "task_queue \<Rightarrow> bool" where
  "queue_ok q \<longleftrightarrow> distinct (map wt_task (q_queue q)) \<and> dict_ok (q_lookup q) \<and>
     (\<forall>i. map_of (q_lookup q) i = find (\<lambda>t. wt_task t = i) (q_queue q))"

lemma find_append: "find P (xs @ ys) = (case find P xs of None \<Rightarrow> find P ys | Some x \<Rightarrow> Some x)"
  by (induction xs) auto

lemma find_filter_key:
  "find (\<lambda>t. f t = j) (filter (\<lambda>t. f t \<noteq> i) xs) = (if i = j then None else find (\<lambda>t. f t = j) xs)"
  by (induction xs) auto

lemma find_key_None: "find (\<lambda>t. f t = i) xs = None \<longleftrightarrow> i \<notin> f ` set xs"
  by (auto simp: find_None_iff)

lemma queue_ok_new: "queue_ok new_queue"
  by (simp add: queue_ok_def new_queue_def)

lemma queue_ok_enqueue: "queue_ok q \<Longrightarrow> queue_lookup (wt_task t) q = None \<Longrightarrow> queue_ok (enqueue t q)"
  by (auto simp: queue_ok_def enqueue_def queue_lookup_def find_append
      simp flip: find_key_None split: option.splits)

lemma queue_ok_dequeue: "queue_ok q \<Longrightarrow> queue_ok (snd (dequeue q))"
  by (auto simp: queue_ok_def dequeue_def find_key_None[symmetric] split: list.splits)

lemma queue_ok_remove: "queue_ok q \<Longrightarrow> queue_ok (snd (queue_remove i q))"
  by (auto simp: queue_ok_def queue_remove_def find_filter_key distinct_map inj_on_def
      split: option.splits)

section \<open>Scheduler and executor\<close>

definition schedule ::
  "(nat \<Rightarrow> string) \<Rightarrow> workflow_request \<Rightarrow> ('w world_scheme, workflow_task) act" where
  "schedule uid r = bindA (fresh_uid uid) (\<lambda>u. ret
     \<lparr>wt_task = ''task-'' @ take 8 (uuid_hex u), wt_workflow = wr_workflow r,
      wt_capability = wr_capability r, wt_arguments = wr_arguments r,
      wt_priority = wr_priority r, wt_status = WF_PENDING, wt_retries = 0\<rparr>)"

definition show_opt :: "string option \<Rightarrow> string" where
  "show_opt x = (case x of None \<Rightarrow> ''None'' | Some s \<Rightarrow> s)"

definition task_denied_msg :: "workflow_task \<Rightarrow> outcome \<Rightarrow> string" where
  "task_denied_msg t oc = ''Execution denied for capability '' @ quoted (wt_capability t) @ '': '' @
     show_opt (o_denial oc)"

definition task_failed_msg :: "workflow_task \<Rightarrow> outcome \<Rightarrow> string" where
  "task_failed_msg t oc = ''Runtime failure for capability '' @ quoted (wt_capability t) @ '': '' @
     show_opt (o_error oc)"

definition task_invalid_msg :: "pyexn \<Rightarrow> string" where
  "task_invalid_msg e = ''Invalid execution command: '' @ exn_msg e"

definition task_unexpected_msg :: "workflow_task \<Rightarrow> pyexn \<Rightarrow> string" where
  "task_unexpected_msg t e = ''Unexpected error dispatching task '' @ quoted (wt_task t) @ '': '' @
     exn_msg e"

text \<open>The command carries no metadata.\<close>

definition task_command :: "workflow_task \<Rightarrow> command" where
  "task_command t = \<lparr>c_id = wt_task t, c_capability = wt_capability t,
     c_arguments = wt_arguments t, c_metadata = []\<rparr>"

definition workflow_dispatch ::
  "(command option \<Rightarrow> ('s, outcome) act) \<Rightarrow> workflow_task \<Rightarrow> ('s, pyval) act" where
  "workflow_dispatch svc t = catchA
     (bindA (svc (Some (task_command t))) (\<lambda>oc.
        if denied oc then raise (InWorkflow TaskExecutionError) (task_denied_msg t oc)
        else if failed oc then raise (InWorkflow TaskExecutionError) (task_failed_msg t oc)
        else ret (o_data oc)))
     (\<lambda>e. if exn_cls e = InWorkflow TaskExecutionError then liftA (Inl e)
          else if exn_cls e = InExecution ExecutionValidationError
          then raise (InWorkflow TaskExecutionError) (task_invalid_msg e)
          else raise (InWorkflow TaskExecutionError) (task_unexpected_msg t e))"

section \<open>The manager\<close>

record 'd wsys = "'d msys" +
  wf_queue :: task_queue
  wf_statuses :: "(string, workflow_status) pydict"
  wf_started :: bool

definition workflow_start :: "('d, 'z) wsys_scheme \<Rightarrow> ('d, 'z) wsys_scheme" where
  "workflow_start s = (if wf_started s then s else s\<lparr>wf_started := True\<rparr>)"

definition workflow_shutdown :: "('d, 'z) wsys_scheme \<Rightarrow> ('d, 'z) wsys_scheme" where
  "workflow_shutdown s = (if \<not> wf_started s then s else s\<lparr>wf_started := False\<rparr>)"

definition workflow_health :: "('d, 'z) wsys_scheme \<Rightarrow> component_health" where
  "workflow_health s = (if \<not> wf_started s
     then \<lparr>h_state = STOPPED, h_details = ''Workflow Engine is stopped.''\<rparr>
     else \<lparr>h_state = RUNNING, h_details = ''Workflow Engine is available.''\<rparr>)"

definition set_status :: "string \<Rightarrow> workflow_status \<Rightarrow> (('d, 'z) wsys_scheme, unit) act" where
  "set_status i st s = (Inr (), s\<lparr>wf_statuses := AList.update i st (wf_statuses s)\<rparr>)"

definition put_task :: "workflow_task \<Rightarrow> (('d, 'z) wsys_scheme, unit) act" where
  "put_task t s = (Inr (), s\<lparr>wf_queue := enqueue t (wf_queue s)\<rparr>)"

definition take_task :: "(('d, 'z) wsys_scheme, workflow_task option) act" where
  "take_task s = (case dequeue (wf_queue s) of (t, q) \<Rightarrow> (Inr t, s\<lparr>wf_queue := q\<rparr>))"

definition wf_event :: "bus \<Rightarrow> workflow_event \<Rightarrow> ('w world_scheme, unit) act" where
  "wf_event mw e = publish mw (EvWorkflow e)"

text \<open>The body of the \<open>try\<close> block of \<open>submit\<close>.\<close>

definition submit_body ::
  "bus \<Rightarrow> (nat \<Rightarrow> string) \<Rightarrow> (command option \<Rightarrow> (('d, 'z) wsys_scheme, outcome) act) \<Rightarrow>
   workflow_request \<Rightarrow> (('d, 'z) wsys_scheme, workflow_result) act" where
  "submit_body mw uid svc r =
     bindA (schedule uid r) (\<lambda>task.
     seqA (put_task task)
     (seqA (wf_event mw (TaskQueued (wt_task task) (wr_workflow r)))
     (seqA (wf_event mw (WorkflowStarted (wr_workflow r)))
     (seqA (set_status (wr_workflow r) WF_RUNNING)
     (bindA take_task (\<lambda>next.
       case next of
         None \<Rightarrow> raise (InWorkflow WorkflowError) ''Queue empty immediately after enqueue.''
       | Some t \<Rightarrow>
         seqA (wf_event mw (TaskStarted (wt_task t) (wr_workflow r)))
         (bindA (workflow_dispatch svc t) (\<lambda>data.
          seqA (wf_event mw (TaskCompleted (wt_task t) (wr_workflow r)))
          (seqA (wf_event mw (WorkflowCompleted (wr_workflow r) data))
          (seqA (set_status (wr_workflow r) WF_COMPLETED)
           (ret \<lparr>wres_workflow = wr_workflow r, wres_success = True, wres_status = WF_COMPLETED,
                 wres_data = data, wres_error = None\<rparr>)))))))))))"

text \<open>\<open>None\<close> is a request of another type.\<close>

definition submit ::
  "bus \<Rightarrow> (nat \<Rightarrow> string) \<Rightarrow> (command option \<Rightarrow> (('d, 'z) wsys_scheme, outcome) act) \<Rightarrow>
   workflow_request option \<Rightarrow> (('d, 'z) wsys_scheme, workflow_result) act" where
  "submit mw uid svc request = (case request of
     None \<Rightarrow> raise (InWorkflow WorkflowValidationError) ''Invalid request type.''
   | Some r \<Rightarrow>
     seqA (set_status (wr_workflow r) WF_PENDING)
     (catchA (submit_body mw uid svc r)
       (\<lambda>e. seqA (set_status (wr_workflow r) WF_FAILED)
         (seqA (wf_event mw (WorkflowFailed (wr_workflow r) (exn_msg e)))
          (ret \<lparr>wres_workflow = wr_workflow r, wres_success = False, wres_status = WF_FAILED,
                wres_data = VNone, wres_error = Some (exn_msg e)\<rparr>)))))"

definition workflow_missing_msg :: "string \<Rightarrow> string" where
  "workflow_missing_msg i = ''Workflow '' @ i @ '' not found.''"

definition require_workflow ::
  "string \<Rightarrow> (workflow_status \<Rightarrow> (('d, 'z) wsys_scheme, 'a) act) \<Rightarrow> (('d, 'z) wsys_scheme, 'a) act" where
  "require_workflow i k s = (case map_of (wf_statuses s) i of
     None \<Rightarrow> (Inl (Exn (InWorkflow WorkflowNotFoundError) (workflow_missing_msg i)), s)
   | Some st \<Rightarrow> k st s)"

definition cancel :: "bus \<Rightarrow> string \<Rightarrow> (('d, 'z) wsys_scheme, unit) act" where
  "cancel mw i = require_workflow i (\<lambda>st.
     seqA (set_status i WF_CANCELLED) (wf_event mw (WorkflowCancelled i)))"

definition pause :: "bus \<Rightarrow> string \<Rightarrow> (('d, 'z) wsys_scheme, unit) act" where
  "pause mw i = require_workflow i (\<lambda>st.
     seqA (set_status i WF_PAUSED) (wf_event mw (WorkflowPaused i)))"

definition resume :: "bus \<Rightarrow> string \<Rightarrow> (('d, 'z) wsys_scheme, unit) act" where
  "resume mw i = require_workflow i (\<lambda>st.
     if st = WF_PAUSED
     then seqA (set_status i WF_RUNNING) (wf_event mw (WorkflowResumed i))
     else ret ())"

definition workflow_status_of :: "string \<Rightarrow> (('d, 'z) wsys_scheme, workflow_status) act" where
  "workflow_status_of i = require_workflow i (\<lambda>st. ret st)"

lemmas manager_defs = set_status_def put_task_def take_task_def wf_event_def require_workflow_def

section \<open>The execution service leaves the engine's own state alone\<close>

definition ext_frame :: "('d, 'z) msys_scheme \<Rightarrow> ('d, 'z) msys_scheme \<Rightarrow> bool" where
  "ext_frame s s' \<longleftrightarrow> msys.more s' = msys.more s \<and> trace_grows s s'"

lemma ext_frame_refl: "reflp ext_frame"
  using reflpD[OF trace_grows_refl] by (auto simp: reflp_def ext_frame_def)

lemma ext_frame_trans: "transp ext_frame"
  using transpD[OF trace_grows_trans] by (fastforce simp: transp_def ext_frame_def)

lemma ext_frame_publish: "keepsA ext_frame (publish mw e)"
  by (simp add: keepsA_def ext_frame_def publish_def trace_grows_def)

lemma ext_frame_fresh: "keepsA ext_frame (fresh_uid uid)"
  by (simp add: keepsA_def ext_frame_def fresh_uid_def trace_grows_def)

lemma ext_frame_on_dev: "keepsA ext_frame (on_dev m)"
  by (simp add: keepsA_def ext_frame_def on_dev_def trace_grows_def split: prod.splits)

lemma ext_frame_reader: "keepsA ext_frame (\<lambda>s. liftA (f s) s)"
  by (simp add: keepsA_def liftA_def reflpD[OF ext_frame_refl])

lemma ext_frame_sinks: "ext_frame s (snd (record_to_sinks n ks r s))"
proof (induction n ks r s rule: record_to_sinks.induct)
  case (1 n r s)
  then show ?case by (simp add: reflpD[OF ext_frame_refl])
next
  case (2 n k ks r s)
  obtain x s1 where e: "sink_record n k r s = (x, s1)" by fastforce
  have s1: "ext_frame s s1"
    using e by (auto simp: sink_record_def ext_frame_def trace_grows_def
        split: sink.splits option.splits)
  show ?case
    using 2 e s1 by (cases x) (auto split: prod.splits intro: transpD[OF ext_frame_trans])
qed

lemma ext_frame_audit: "keepsA ext_frame (audit_record_all ks r)"
  unfolding keepsA_def
proof
  fix s :: "('a, 'b) msys_scheme"
  show "ext_frame s (snd (audit_record_all ks r s))"
    using ext_frame_sinks[of s 0 ks r] reflpD[OF ext_frame_refl, of s]
    by (cases "record_to_sinks 0 ks r s") (simp add: audit_record_all_def)
qed

lemmas ext_frame_intros = keepsA_ret[OF ext_frame_refl] keepsA_raise[OF ext_frame_refl]
  keepsA_bind[OF ext_frame_trans] keepsA_seq[OF ext_frame_trans]
  keepsA_catch[OF ext_frame_trans] keepsA_lift[OF ext_frame_refl] ext_frame_publish
  ext_frame_fresh ext_frame_on_dev ext_frame_reader ext_frame_audit

lemma ext_frame_check: "keepsA ext_frame (check_permission mw m req)"
  by (auto simp: check_permission_def permission_pipeline_def deny_def Let_def
      intro!: ext_frame_intros split: request_arg.splits)

lemma ext_frame_dispatch: "keepsA ext_frame (protected_dispatch env c)"
  by (auto simp: protected_dispatch_def authorization_def dispatch_authorized_def
      run_capability_def rt_execute_def report_result_def publish_denial_def Let_def
      intro!: ext_frame_intros ext_frame_check split: option.splits sum.splits)

lemma ext_frame_record_audit: "keepsA ext_frame (record_audit env ctx c st t0 data err)"
proof -
  have "keepsA ext_frame (\<lambda>s.
      let r = \<lparr>au_id = i, au_mutation = mc_mutation ctx, au_capability = mc_capability ctx,
                au_action = ''execute'', au_arguments = c_arguments c, au_status = st,
                au_started = t0, au_completed = Some (me_now env s), au_data = data,
                au_error = err, au_workflow = mc_workflow ctx, au_user = mc_user ctx\<rparr> in
       catchA (seqA (audit_record_all (me_sinks env) r)
                 (publish (me_mw env) (EvMutation (AuditRecorded i (mc_mutation ctx)))))
         (\<lambda>e. ret ()) s)" for i
    unfolding keepsA_def Let_def
    by (intro allI, rule keepsA_def[THEN iffD1, rule_format]) (intro ext_frame_intros)
  then show ?thesis unfolding record_audit_def by (intro ext_frame_intros)
qed

lemma ext_frame_mutation:
  assumes "\<And>c. keepsA ext_frame (d c)"
  shows "keepsA ext_frame (process_mutation env c d)"
proof -
  have hf: "keepsA ext_frame (handle_failure env mid c cap meta oc)" for mid cap meta oc
    by (auto simp: handle_failure_def intro!: ext_frame_intros split: option.splits)
  have fin: "keepsA ext_frame (finish_mutation env ctx c meta t0 oc)" for ctx meta t0 oc
    by (auto simp: finish_mutation_def intro!: ext_frame_intros ext_frame_record_audit)
  have run: "keepsA ext_frame (run_mutation env ctx c cap meta t0 d)" for ctx cap meta t0
    unfolding run_mutation_def by (intro ext_frame_intros assms hf fin)
  have rej: "keepsA ext_frame (reject_mutation env ctx c meta t0)" for ctx meta t0
    by (auto simp: reject_mutation_def Let_def intro!: ext_frame_intros ext_frame_record_audit)
  show ?thesis
    unfolding keepsA_def
  proof
    fix s :: "('a, 'b) msys_scheme"
    let ?s0 = "s\<lparr>w_uid := Suc (w_uid s)\<rparr>"
    have s0: "ext_frame s ?s0" by (simp add: ext_frame_def trace_grows_def)
    show "ext_frame s (snd (process_mutation env c d s))"
    proof (cases "lookup s (c_capability c)")
      case (Inl e)
      then have "lookup ?s0 (c_capability c) = Inl e" by (simp add: lookup_def)
      with s0 show ?thesis
        by (simp add: process_mutation_def bindA_def fresh_uid_def ret_def Let_def)
    next
      case (Inr cap)
      have "keepsA ext_frame
        (seqA (publish (me_mw env) (EvMutation (MutationRequested mid (c_capability c) (c_arguments c))))
         (case mutation_meta_of cap of
            None \<Rightarrow> raise (Py PyAttributeError) msg
          | Some meta \<Rightarrow>
            (if mm_level meta \<noteq> NO_CONFIRMATION then
               bindA (liftA (request_confirmation (me_providers env) ctx (mm_level meta))) (\<lambda>ok.
                 if \<not> ok then reject_mutation env ctx c meta t0
                 else seqA (publish (me_mw env) (EvMutation (MutationConfirmed mid)))
                        (run_mutation env ctx c cap meta t0 d))
             else run_mutation env ctx c cap meta t0 d)))" for mid msg ctx t0
        by (auto intro!: ext_frame_intros rej run split: option.splits)
      then have "ext_frame ?s0 (snd (process_mutation env c d s))"
        by (simp add: process_mutation_found[OF Inr] Let_def keepsA_def)
      with s0 show ?thesis by (rule transpD[OF ext_frame_trans])
    qed
  qed
qed

lemma ext_frame_execute:
  fixes menv :: "('d, 'z) msys_scheme mutation_env option"
  shows "keepsA ext_frame (execute env menv c)"
proof (cases c)
  case None
  then show ?thesis by (auto simp: execute_def intro!: ext_frame_intros)
next
  case (Some cmd)
  have "keepsA ext_frame (\<lambda>s. (case classify s cmd of
         MUTATION \<Rightarrow>
           (case menv of
              None \<Rightarrow> raise (InExecution ExecutionRuntimeError) no_manager_msg
            | Some me \<Rightarrow> process_mutation me cmd (\<lambda>cmd. protected_dispatch env cmd))
       | READ \<Rightarrow> protected_dispatch env cmd) s)"
    unfolding keepsA_def
  proof
    fix s :: "('d, 'z) msys_scheme"
    have "ext_frame s (snd (protected_dispatch env cmd s))"
      by (rule ext_frame_dispatch[unfolded keepsA_def, rule_format])
    moreover have "ext_frame s (snd (process_mutation me cmd (\<lambda>cmd. protected_dispatch env cmd) s))"
      for me
      by (rule ext_frame_mutation[OF ext_frame_dispatch, unfolded keepsA_def, rule_format])
    ultimately show "ext_frame s (snd ((case classify s cmd of
         MUTATION \<Rightarrow>
           (case menv of
              None \<Rightarrow> raise (InExecution ExecutionRuntimeError) no_manager_msg
            | Some me \<Rightarrow> process_mutation me cmd (\<lambda>cmd. protected_dispatch env cmd))
       | READ \<Rightarrow> protected_dispatch env cmd) s))"
      by (simp add: raise_def reflpD[OF ext_frame_refl] split: execution_type.splits option.splits)
  qed
  with Some show ?thesis by (auto simp: execute_def intro!: ext_frame_intros)
qed

text \<open>In terms of the engine: queue and statuses are unchanged and the trace grows.\<close>

lemma execute_keeps_engine:
  assumes "execute env menv c s = (r, s')"
  shows "wf_statuses s' = wf_statuses s \<and> wf_queue s' = wf_queue s \<and> trace_grows s s'"
proof -
  have "ext_frame s s'" by (rule keepsAD[OF ext_frame_execute assms])
  then show ?thesis by (cases s, cases s') (simp add: ext_frame_def)
qed

section \<open>What submit does on a quiet bus\<close>

definition scheduled_task :: "(nat \<Rightarrow> string) \<Rightarrow> workflow_request \<Rightarrow> nat \<Rightarrow> workflow_task" where
  "scheduled_task uid r n = \<lparr>wt_task = ''task-'' @ take 8 (uuid_hex (uid n)),
     wt_workflow = wr_workflow r, wt_capability = wr_capability r, wt_arguments = wr_arguments r,
     wt_priority = wr_priority r, wt_status = WF_PENDING, wt_retries = 0\<rparr>"

text \<open>
  The state in which the dispatched task runs: the head of the queue after the new task has been
  appended, announced as started under the identifier of the submitted workflow.
\<close>

definition submit_head :: "task_queue \<Rightarrow> workflow_task \<Rightarrow> workflow_task" where
  "submit_head q t = (case q_queue q of [] \<Rightarrow> t | x # xs \<Rightarrow> x)"

definition submit_prepared ::
  "(nat \<Rightarrow> string) \<Rightarrow> workflow_request \<Rightarrow> ('d, 'z) wsys_scheme \<Rightarrow> ('d, 'z) wsys_scheme" where
  "submit_prepared uid r s =
     (let t = scheduled_task uid r (w_uid s) in
      s\<lparr>w_uid := Suc (w_uid s), wf_queue := snd (dequeue (enqueue t (wf_queue s))),
        wf_statuses := AList.update (wr_workflow r) WF_RUNNING
          (AList.update (wr_workflow r) WF_PENDING (wf_statuses s)),
        w_trace := w_trace s @ [EvWorkflow (TaskQueued (wt_task t) (wr_workflow r)),
          EvWorkflow (WorkflowStarted (wr_workflow r)),
          EvWorkflow (TaskStarted (wt_task (submit_head (wf_queue s) t)) (wr_workflow r))]\<rparr>)"

lemma schedule_eq:
  "schedule uid r s = (Inr (scheduled_task uid r (w_uid s)), s\<lparr>w_uid := Suc (w_uid s)\<rparr>)"
  by (simp add: schedule_def bindA_def fresh_uid_def ret_def scheduled_task_def)

lemma dequeue_enqueue: "fst (dequeue (enqueue t q)) = Some (submit_head q t)"
  by (cases "q_queue q") (simp_all add: wq.deq_enq_Nil wq.deq_enq_Cons submit_head_def)

lemma bind_schedule:
  "bindA (schedule uid r) f s = f (scheduled_task uid r (w_uid s)) (s\<lparr>w_uid := Suc (w_uid s)\<rparr>)"
  by (simp add: bindA_def schedule_eq)

lemma seq_steps:
  "seqA (put_task t) m s = m (snd (put_task t s))"
  "seqA (set_status i st) m s = m (snd (set_status i st s))"
  "seqA (wf_event quiet e) m s = m (snd (wf_event quiet e s))"
  "bindA take_task f s = f (fst (dequeue (wf_queue s))) (snd (take_task s))"
  by (simp_all add: seqA_def bindA_def manager_defs split: prod.splits)

lemma step_queue:
  "wf_queue (snd (put_task t s)) = enqueue t (wf_queue s)"
  "wf_queue (snd (set_status i st s)) = wf_queue s"
  "wf_queue (snd (wf_event quiet e s)) = wf_queue s"
  "w_uid (snd (set_status i st s)) = w_uid s"
  by (simp_all add: manager_defs publish_def)

lemma submit_quiet:
  "submit quiet uid svc (Some r) s =
     (case workflow_dispatch svc (submit_head (wf_queue s) (scheduled_task uid r (w_uid s)))
             (submit_prepared uid r s) of
        (Inr data, s1) \<Rightarrow>
          (Inr \<lparr>wres_workflow = wr_workflow r, wres_success = True, wres_status = WF_COMPLETED,
                wres_data = data, wres_error = None\<rparr>,
           s1\<lparr>w_trace := w_trace s1 @ [EvWorkflow (TaskCompleted
                  (wt_task (submit_head (wf_queue s) (scheduled_task uid r (w_uid s)))) (wr_workflow r)),
                EvWorkflow (WorkflowCompleted (wr_workflow r) data)],
              wf_statuses := AList.update (wr_workflow r) WF_COMPLETED (wf_statuses s1)\<rparr>)
      | (Inl e, s1) \<Rightarrow>
          (Inr \<lparr>wres_workflow = wr_workflow r, wres_success = False, wres_status = WF_FAILED,
                wres_data = VNone, wres_error = Some (exn_msg e)\<rparr>,
           s1\<lparr>wf_statuses := AList.update (wr_workflow r) WF_FAILED (wf_statuses s1),
              w_trace := w_trace s1 @ [EvWorkflow (WorkflowFailed (wr_workflow r) (exn_msg e))]\<rparr>))"
proof -
  let ?t = "scheduled_task uid r (w_uid s)"
  obtain q where q: "dequeue (enqueue ?t (wf_queue s)) = (Some (submit_head (wf_queue s) ?t), q)"
    using dequeue_enqueue[of ?t "wf_queue s"] by (cases "dequeue (enqueue ?t (wf_queue s))") simp
  have body: "submit_body quiet uid svc r (snd (set_status (wr_workflow r) WF_PENDING s)) =
     bindA (workflow_dispatch svc (submit_head (wf_queue s) ?t)) (\<lambda>data.
          seqA (wf_event quiet (TaskCompleted (wt_task (submit_head (wf_queue s) ?t)) (wr_workflow r)))
          (seqA (wf_event quiet (WorkflowCompleted (wr_workflow r) data))
          (seqA (set_status (wr_workflow r) WF_COMPLETED)
           (ret \<lparr>wres_workflow = wr_workflow r, wres_success = True, wres_status = WF_COMPLETED,
                 wres_data = data, wres_error = None\<rparr>)))) (submit_prepared uid r s)"
  proof -
    have "submit_body quiet uid svc r (snd (set_status (wr_workflow r) WF_PENDING s)) =
      bindA (workflow_dispatch svc (submit_head (wf_queue s) ?t)) (\<lambda>data.
          seqA (wf_event quiet (TaskCompleted (wt_task (submit_head (wf_queue s) ?t)) (wr_workflow r)))
          (seqA (wf_event quiet (WorkflowCompleted (wr_workflow r) data))
          (seqA (set_status (wr_workflow r) WF_COMPLETED)
           (ret \<lparr>wres_workflow = wr_workflow r, wres_success = True, wres_status = WF_COMPLETED,
                 wres_data = data, wres_error = None\<rparr>))))
        (snd (wf_event quiet (TaskStarted (wt_task (submit_head (wf_queue s) ?t)) (wr_workflow r))
        (snd (take_task (snd (set_status (wr_workflow r) WF_RUNNING
        (snd (wf_event quiet (WorkflowStarted (wr_workflow r))
        (snd (wf_event quiet (TaskQueued (wt_task ?t) (wr_workflow r))
        (snd (put_task ?t ((snd (set_status (wr_workflow r) WF_PENDING s))
           \<lparr>w_uid := Suc (w_uid s)\<rparr>)))))))))))))"
      (is "_ = bindA _ _ ?st")
      using q by (simp add: submit_body_def bind_schedule seq_steps step_queue)
    moreover have "?st = submit_prepared uid r s"
      by (cases s) (simp add: manager_defs q submit_prepared_def Let_def split: prod.splits)
    ultimately show ?thesis by simp
  qed
  have sub: "submit quiet uid svc (Some r) s =
     catchA (submit_body quiet uid svc r)
       (\<lambda>e. seqA (set_status (wr_workflow r) WF_FAILED)
         (seqA (wf_event quiet (WorkflowFailed (wr_workflow r) (exn_msg e)))
          (ret \<lparr>wres_workflow = wr_workflow r, wres_success = False, wres_status = WF_FAILED,
                wres_data = VNone, wres_error = Some (exn_msg e)\<rparr>)))
       (snd (set_status (wr_workflow r) WF_PENDING s))"
    by (simp add: submit_def seqA_def bindA_def set_status_def)
  show ?thesis
    by (cases "workflow_dispatch svc (submit_head (wf_queue s) ?t) (submit_prepared uid r s)")
       (simp add: sub catchA_def body, simp add: seqA_def bindA_def ret_def manager_defs
         split: sum.splits)
qed

section \<open>Properties\<close>

text \<open>
  C17. Submitting never raises on a quiet bus, whatever the execution service returns or raises:
  the workflow ends \<open>COMPLETED\<close> with the data of a successful execution or \<open>FAILED\<close> with a
  message, its stored status is the one of the result, and the last event published says so.
\<close>

theorem submit_total:
  "\<exists>res s'. submit quiet uid svc (Some r) s = (Inr res, s') \<and> wres_workflow res = wr_workflow r \<and>
     map_of (wf_statuses s') (wr_workflow r) = Some (wres_status res) \<and>
     (if wres_success res
      then wres_status res = WF_COMPLETED \<and>
        last (w_trace s') = EvWorkflow (WorkflowCompleted (wr_workflow r) (wres_data res))
      else wres_status res = WF_FAILED \<and> (\<exists>msg. wres_error res = Some msg \<and>
        last (w_trace s') = EvWorkflow (WorkflowFailed (wr_workflow r) msg)))"
proof (cases "workflow_dispatch svc (submit_head (wf_queue s) (scheduled_task uid r (w_uid s)))
             (submit_prepared uid r s)")
  case (Pair x s1)
  then show ?thesis by (cases x) (simp_all add: submit_quiet)
qed

text \<open>
  Tasks run in the order they were queued: a submit executes the oldest queued task, which is
  the submitted one only when the queue was empty; then it leaves the queue as it was, with the
  head replaced by the new task at the end. So a task that an earlier, failed submit left in the
  queue is executed by the next workflow, which gets its result.
\<close>

theorem submit_runs_oldest_task:
  assumes "\<And>s1. svc1 (Some (task_command (submit_head (wf_queue s) (scheduled_task uid r (w_uid s))))) s1 =
      svc2 (Some (task_command (submit_head (wf_queue s) (scheduled_task uid r (w_uid s))))) s1"
  shows "submit quiet uid svc1 (Some r) s = submit quiet uid svc2 (Some r) s \<and>
    q_queue (wf_queue (submit_prepared uid r s)) =
      tl (q_queue (wf_queue s) @ [scheduled_task uid r (w_uid s)]) \<and>
    submit_head (wf_queue s) (scheduled_task uid r (w_uid s)) =
      hd (q_queue (wf_queue s) @ [scheduled_task uid r (w_uid s)])"
proof -
  have "workflow_dispatch svc1 (submit_head (wf_queue s) (scheduled_task uid r (w_uid s))) =
      workflow_dispatch svc2 (submit_head (wf_queue s) (scheduled_task uid r (w_uid s)))"
    using assms by (simp add: workflow_dispatch_def fun_eq_iff catchA_def bindA_def)
  then show ?thesis
    by (cases "q_queue (wf_queue s)")
      (simp_all add: submit_quiet submit_prepared_def submit_head_def Let_def
        wq.deq_enq_Nil wq.deq_enq_Cons)
qed

definition example_request :: workflow_request where
  "example_request = \<lparr>wr_workflow = ''w'', wr_capability = ''a'', wr_arguments = [],
     wr_priority = TP_NORMAL\<rparr>"

definition example_wsys :: "int capability \<Rightarrow> workflow_task list \<Rightarrow> int wsys" where
  "example_wsys cap ts = \<lparr>w_trace = [], w_uid = 0, s_caps = [(''a'', cap)], s_dev = 0, s_audit = [],
     wf_queue = fold enqueue ts new_queue, wf_statuses = [], wf_started = True\<rparr>"

definition stale_task :: workflow_task where
  "stale_task = \<lparr>wt_task = ''old'', wt_workflow = ''v'', wt_capability = ''b'', wt_arguments = [],
     wt_priority = TP_LOW, wt_status = WF_PENDING, wt_retries = 0\<rparr>"

theorem submit_runs_oldest_task_witness:
  "submit quiet str_of_nat (\<lambda>c s. (if c = Some (task_command stale_task)
       then Inr (build_outcome (the c) OUT_SUCCEEDED None None)
       else Inl (Exn (Py PyValueError) ''wrong task''), s)) (Some example_request)
     (example_wsys (example_capability ''a'' None) [stale_task]) =
   submit quiet str_of_nat (\<lambda>c s. (Inr (build_outcome (the c) OUT_SUCCEEDED None None), s))
     (Some example_request) (example_wsys (example_capability ''a'' None) [stale_task])"
proof -
  have h: "submit_head (wf_queue (example_wsys (example_capability ''a'' None) [stale_task])) t =
      stale_task" for t
    by (simp add: example_wsys_def submit_head_def enqueue_def new_queue_def)
  show ?thesis
    by (rule submit_runs_oldest_task[THEN conjunct1]) (simp add: h)
qed

text \<open>
  Workflows run untrusted: the executor's command carries no metadata, so its trust level is
  \<open>UNTRUSTED\<close>. When no policy grants the capability to untrusted callers, a submit on an empty
  queue ends \<open>FAILED\<close> and leaves the device unchanged, whatever the workflow asks for.
\<close>

theorem workflow_is_untrusted:
  assumes "q_queue (wf_queue s) = []"
    and "\<And>q. find_requirement (sm_policies (xe_security env)) (wr_capability r) = Some q \<Longrightarrow>
      rq_trust q \<noteq> UNTRUSTED"
  shows "\<exists>res s'. submit quiet uid (execute env menv) (Some r) s = (Inr res, s') \<and>
    wres_status res = WF_FAILED \<and> s_dev s' = s_dev s"
proof -
  let ?t = "scheduled_task uid r (w_uid s)"
  let ?s1 = "submit_prepared uid r s"
  have t: "submit_head (wf_queue s) ?t = ?t" using assms(1) by (simp add: submit_head_def)
  have "command_trust (task_command ?t) = UNTRUSTED"
    by (simp add: command_trust_def task_command_def parse_trust_def)
  moreover have "trust_sufficient UNTRUSTED l \<longleftrightarrow> l = UNTRUSTED" for l
    by (cases l) (simp_all add: trust_sufficient_def)
  ultimately have np: "\<not> permitted env (task_command ?t)"
    using assms(2) by (auto simp: permitted_def task_command_def scheduled_task_def)
  obtain x s2 where x: "execute env menv (Some (task_command ?t)) ?s1 = (x, s2)" by fastforce
  have dev: "s_dev s2 = s_dev s"
    using unpermitted_command_harmless[OF np, of menv ?s1] x
    by (simp add: submit_prepared_def Let_def)
  have "\<And>oc. x = Inr oc \<Longrightarrow> denied oc"
    using unpermitted_command_harmless[OF np, of menv ?s1] x by (simp add: denied_def)
  then have "\<exists>e. workflow_dispatch (execute env menv) ?t ?s1 = (Inl e, s2)"
    using x by (cases x) (auto simp: workflow_dispatch_def catchA_def bindA_def liftA_def raise_def)
  then show ?thesis using dev by (auto simp: submit_quiet t)
qed

theorem workflow_is_untrusted_witness:
  "\<exists>res s'. submit quiet str_of_nat (execute example_exec_env None) (Some example_request)
     (example_wsys (example_capability ''a'' None) []) = (Inr res, s') \<and>
     wres_status res = WF_FAILED \<and> s_dev s' = 0"
proof -
  have 1: "q_queue (wf_queue (example_wsys (example_capability ''a'' None) [])) = []"
    by (simp add: example_wsys_def new_queue_def)
  have 2: "rq_trust q \<noteq> UNTRUSTED"
    if "find_requirement (sm_policies (xe_security example_exec_env))
      (wr_capability example_request) = Some q" for q
    using that example_exec_requirement by (auto simp: example_request_def)
  from workflow_is_untrusted[where uid = str_of_nat and menv = None, OF 1 2] show ?thesis
    by (simp add: example_wsys_def)
qed

section \<open>The status machine\<close>

text \<open>
  The states reachable by any sequence of manager operations on a quiet bus, with the real
  execution service.
\<close>

inductive wf_reachable ::
  "(nat \<Rightarrow> string) \<Rightarrow> exec_env \<Rightarrow> ('d, 'z) wsys_scheme mutation_env option \<Rightarrow>
   ('d, 'z) wsys_scheme \<Rightarrow> bool" for uid env menv where
  initial: "wf_statuses s = [] \<Longrightarrow> wf_reachable uid env menv s"
| submitted: "wf_reachable uid env menv s \<Longrightarrow>
    wf_reachable uid env menv (snd (submit quiet uid (execute env menv) (Some r) s))"
| cancelled: "wf_reachable uid env menv s \<Longrightarrow> wf_reachable uid env menv (snd (cancel quiet i s))"
| paused: "wf_reachable uid env menv s \<Longrightarrow> wf_reachable uid env menv (snd (pause quiet i s))"
| resumed: "wf_reachable uid env menv s \<Longrightarrow> wf_reachable uid env menv (snd (resume quiet i s))"

text \<open>The event that justifies a status.\<close>

fun justifies :: "string \<Rightarrow> workflow_status \<Rightarrow> workflow_event \<Rightarrow> bool" where
  "justifies i WF_COMPLETED (WorkflowCompleted j d) = (i = j)"
| "justifies i WF_FAILED (WorkflowFailed j e) = (i = j)"
| "justifies i WF_CANCELLED (WorkflowCancelled j) = (i = j)"
| "justifies i WF_PAUSED (WorkflowPaused j) = (i = j)"
| "justifies i WF_RUNNING (WorkflowResumed j) = (i = j)"
| "justifies i _ _ = False"

definition statuses_justified :: "('d, 'z) wsys_scheme \<Rightarrow> bool" where
  "statuses_justified s \<longleftrightarrow> (\<forall>i st. map_of (wf_statuses s) i = Some st \<longrightarrow>
     (\<exists>ev. EvWorkflow ev \<in> set (w_trace s) \<and> justifies i st ev))"

lemma justified_update:
  assumes "statuses_justified s" "justifies i st ev"
    and "w_trace s' = w_trace s @ es" "EvWorkflow ev \<in> set es"
    and "map_of (wf_statuses s') = (map_of (wf_statuses s))(i \<mapsto> st)"
  shows "statuses_justified s'"
  using assms by (fastforce simp: statuses_justified_def)

lemma dispatch_state: "snd (workflow_dispatch svc t s) = snd (svc (Some (task_command t)) s)"
  by (simp add: workflow_dispatch_def catchA_def bindA_def liftA_def raise_def ret_def
      split: prod.splits sum.splits)

lemma justified_submit:
  assumes "statuses_justified s"
  shows "statuses_justified (snd (submit quiet uid (execute env menv) (Some r) s))"
proof -
  let ?t = "submit_head (wf_queue s) (scheduled_task uid r (w_uid s))"
  let ?s1 = "submit_prepared uid r s"
  obtain x s2 where x: "execute env menv (Some (task_command ?t)) ?s1 = (x, s2)" by fastforce
  obtain y where y: "workflow_dispatch (execute env menv) ?t ?s1 = (y, s2)"
    using dispatch_state[of "execute env menv" ?t ?s1] x
    by (cases "workflow_dispatch (execute env menv) ?t ?s1") simp
  from execute_keeps_engine[OF x] obtain es where
    f: "wf_statuses s2 = wf_statuses ?s1" "w_trace s2 = w_trace ?s1 @ es"
    by (auto simp: trace_grows_def)
  have st: "map_of (wf_statuses ?s1) = (map_of (wf_statuses s))(wr_workflow r \<mapsto> WF_RUNNING)"
    by (auto simp: submit_prepared_def Let_def fun_eq_iff)
  obtain es1 where tr: "w_trace ?s1 = w_trace s @ es1"
    by (auto simp: submit_prepared_def Let_def)
  show ?thesis
  proof (cases y)
    case (Inl e)
    show ?thesis
      by (rule justified_update[OF assms, of "wr_workflow r" WF_FAILED
            "WorkflowFailed (wr_workflow r) (exn_msg e)" _
            "es1 @ es @ [EvWorkflow (WorkflowFailed (wr_workflow r) (exn_msg e))]"])
        (simp_all add: submit_quiet y Inl f tr st fun_eq_iff)
  next
    case (Inr d)
    show ?thesis
      by (rule justified_update[OF assms, of "wr_workflow r" WF_COMPLETED
            "WorkflowCompleted (wr_workflow r) d" _
            "es1 @ es @ [EvWorkflow (TaskCompleted (wt_task ?t) (wr_workflow r)),
               EvWorkflow (WorkflowCompleted (wr_workflow r) d)]"])
        (simp_all add: submit_quiet y Inr f tr st fun_eq_iff)
  qed
qed

lemma justified_cancel:
  assumes "statuses_justified s"
  shows "statuses_justified (snd (cancel quiet i s))"
proof (cases "map_of (wf_statuses s) i")
  case None
  with assms show ?thesis by (simp add: cancel_def require_workflow_def)
next
  case (Some st)
  then show ?thesis
    by (intro justified_update[OF assms, of i WF_CANCELLED "WorkflowCancelled i" _
          "[EvWorkflow (WorkflowCancelled i)]"])
      (simp_all add: cancel_def seqA_def bindA_def manager_defs fun_eq_iff)
qed

lemma justified_pause:
  assumes "statuses_justified s"
  shows "statuses_justified (snd (pause quiet i s))"
proof (cases "map_of (wf_statuses s) i")
  case None
  with assms show ?thesis by (simp add: pause_def require_workflow_def)
next
  case (Some st)
  then show ?thesis
    by (intro justified_update[OF assms, of i WF_PAUSED "WorkflowPaused i" _
          "[EvWorkflow (WorkflowPaused i)]"])
      (simp_all add: pause_def seqA_def bindA_def manager_defs fun_eq_iff)
qed

lemma justified_resume:
  assumes "statuses_justified s"
  shows "statuses_justified (snd (resume quiet i s))"
proof (cases "map_of (wf_statuses s) i = Some WF_PAUSED")
  case False
  with assms show ?thesis
    by (auto simp: resume_def require_workflow_def ret_def split: option.splits)
next
  case True
  then show ?thesis
    by (intro justified_update[OF assms, of i WF_RUNNING "WorkflowResumed i" _
          "[EvWorkflow (WorkflowResumed i)]"])
      (simp_all add: resume_def seqA_def bindA_def manager_defs fun_eq_iff)
qed

text \<open>
  C29. Every status is backed by an event. In every state reachable by submitting, cancelling,
  pausing and resuming workflows in any order, a stored status has its event in the trace:
  \<open>COMPLETED\<close> a completion, \<open>FAILED\<close> a failure, \<open>CANCELLED\<close> a cancellation, \<open>PAUSED\<close> a pause,
  \<open>RUNNING\<close> a resumption; in particular no workflow is ever left \<open>PENDING\<close>, and one is
  \<open>RUNNING\<close> only because it was resumed.
\<close>

theorem reachable_statuses_justified:
  assumes "wf_reachable uid env menv s"
  shows "statuses_justified s"
  using assms
proof (induction rule: wf_reachable.induct)
  case (initial s)
  then show ?case by (simp add: statuses_justified_def)
next
  case (submitted s r)
  show ?case by (rule justified_submit[OF submitted.IH])
next
  case (cancelled s i)
  show ?case by (rule justified_cancel[OF cancelled.IH])
next
  case (paused s i)
  show ?case by (rule justified_pause[OF paused.IH])
next
  case (resumed s i)
  show ?case by (rule justified_resume[OF resumed.IH])
qed

theorem reachable_statuses_justified_witness:
  "statuses_justified (snd (resume quiet ''w'' (snd (pause quiet ''w''
     (snd (submit quiet str_of_nat (execute example_exec_env None) (Some example_request)
       (example_wsys (example_capability ''a'' None) [])))))))"
proof -
  have "wf_reachable str_of_nat example_exec_env None (example_wsys (example_capability ''a'' None) [])"
    by (rule wf_reachable.initial) (simp add: example_wsys_def)
  then show ?thesis
    by (intro reachable_statuses_justified[of str_of_nat example_exec_env None]
        wf_reachable.resumed wf_reachable.paused wf_reachable.submitted)
qed

text \<open>
  A finished workflow can be revived: \<open>pause\<close> and \<open>resume\<close> check only that the workflow is
  known, so pausing and then resuming a completed, failed or cancelled workflow leaves it
  \<open>RUNNING\<close>, although nothing is executed (the queue and the device do not change).
\<close>

theorem pause_resume_revives:
  assumes "map_of (wf_statuses s) i = Some st"
    and "s' = snd (resume quiet i (snd (pause quiet i s)))"
  shows "map_of (wf_statuses s') i = Some WF_RUNNING \<and> wf_queue s' = wf_queue s \<and>
    s_dev s' = s_dev s \<and> (\<forall>j. j \<noteq> i \<longrightarrow> map_of (wf_statuses s') j = map_of (wf_statuses s) j)"
  using assms
  by (simp add: pause_def resume_def seqA_def bindA_def manager_defs)

theorem pause_resume_revives_witness:
  "map_of (wf_statuses (snd (resume quiet ''w'' (snd (pause quiet ''w''
     ((example_wsys (example_capability ''a'' None) [])\<lparr>wf_statuses := [(''w'', WF_COMPLETED)]\<rparr>))))))
     ''w'' = Some WF_RUNNING"
  by (rule pause_resume_revives[where st = WF_COMPLETED, OF _ refl, THEN conjunct1]) simp

end
