(* ===== verification/Memory.thy ===== *)
theory Memory
  imports Events
begin

text \<open>
  The memory engine (core/memory): records and their validation, the index, the store, the search
  engine, the retention policies and the manager's operations. Python sets of identifiers are
  duplicate-free lists; the order in which a set is iterated is the parameter \<open>ord\<close>. Times are
  integers in microseconds, the clock of a call is the parameter \<open>now\<close>.
\<close>

section \<open>Text of values\<close>

text \<open>
  \<open>repr\<close> and \<open>str\<close> of the JSON-like values. The text of a float and of an object (whose class
  defines it) is the parameter \<open>txt\<close>.
\<close>

definition hex_digit :: "nat \<Rightarrow> char" where
  "hex_digit n = (if n < 10 then char_of (48 + n) else char_of (87 + n))"

definition repr_char :: "char \<Rightarrow> char \<Rightarrow> string" where
  "repr_char q c = (let n = (of_char c :: nat) in
     if c = q \<or> n = 92 then [char_of (92::nat), c]
     else if n = 10 then [char_of (92::nat), CHR ''n'']
     else if n = 13 then [char_of (92::nat), CHR ''r'']
     else if n = 9 then [char_of (92::nat), CHR ''t'']
     else if n < 32 \<or> n = 127 then [char_of (92::nat), CHR ''x'', hex_digit (n div 16), hex_digit (n mod 16)]
     else [c])"

definition repr_str :: "string \<Rightarrow> string" where
  "repr_str s = (let q = (if CHR 0x27 \<in> set s \<and> CHR 0x22 \<notin> set s then CHR 0x22 else CHR 0x27) in
     q # concat (map (repr_char q) s) @ [q])"

primrec py_repr :: "(pyval \<Rightarrow> string) \<Rightarrow> pyval \<Rightarrow> string" where
  "py_repr txt VNone = ''None''"
| "py_repr txt (VBool b) = (if b then ''True'' else ''False'')"
| "py_repr txt (VInt i) = str_of_int i"
| "py_repr txt (VFloat m e) = txt (VFloat m e)"
| "py_repr txt VNonFinite = txt VNonFinite"
| "py_repr txt (VStr s) = repr_str s"
| "py_repr txt (VList xs) = ''['' @ join '', '' (map (py_repr txt) xs) @ '']''"
| "py_repr txt (VDict d) = ''{'' @ join '', ''
     (map (\<lambda>(k, r). repr_str k @ '': '' @ r) (map (map_prod id (py_repr txt)) d)) @ ''}''"
| "py_repr txt (VObj c as) = txt (VObj c as)"

definition py_str :: "(pyval \<Rightarrow> string) \<Rightarrow> pyval \<Rightarrow> string" where
  "py_str txt v = (case v of VStr s \<Rightarrow> s | _ \<Rightarrow> py_repr txt v)"

text \<open>\<open>json.dumps\<close> accepts everything but objects.\<close>

primrec json_ok :: "pyval \<Rightarrow> bool" where
  "json_ok VNone = True"
| "json_ok (VBool b) = True"
| "json_ok (VInt i) = True"
| "json_ok (VFloat m e) = True"
| "json_ok VNonFinite = True"
| "json_ok (VStr s) = True"
| "json_ok (VList xs) = list_all id (map json_ok xs)"
| "json_ok (VDict d) = list_all snd (map (map_prod id json_ok) d)"
| "json_ok (VObj c as) = False"

section \<open>Records\<close>

record memory_record =
  mr_id :: string
  mr_owner :: string
  mr_namespace :: string
  mr_title :: string
  mr_content :: pyval
  mr_metadata :: args
  mr_tags :: "string list"
  mr_importance :: int
  mr_created :: int
  mr_updated :: int
  mr_accessed :: int
  mr_count :: int

text \<open>The arguments of the constructor, before \<open>__post_init__\<close> has checked them.\<close>

record raw_record =
  rw_id :: string
  rw_owner :: string
  rw_namespace :: pyval
  rw_title :: pyval
  rw_content :: pyval
  rw_metadata :: pyval
  rw_tags :: pyval
  rw_importance :: int
  rw_created :: int
  rw_updated :: int
  rw_accessed :: int
  rw_count :: int

definition invalid :: "string \<Rightarrow> pyexn + 'a" where
  "invalid msg = Inl (Exn (InMemory MemoryValidationError) msg)"

definition not_iterable :: "pyexn + 'a" where
  "not_iterable = Inl (Exn (Py PyTypeError) ''object is not iterable'')"

definition normalize_tags :: "(pyval \<Rightarrow> string) \<Rightarrow> pyval \<Rightarrow> pyexn + string list" where
  "normalize_tags txt v = (case v of
     VNone \<Rightarrow> Inr []
   | VStr s \<Rightarrow> invalid ''Tags must be an iterable of strings, not a single string.''
   | VList xs \<Rightarrow> Inr (map (py_str txt) xs)
   | VDict d \<Rightarrow> Inr (map fst d)
   | _ \<Rightarrow> not_iterable)"

definition normalize_metadata :: "pyval \<Rightarrow> pyexn + args" where
  "normalize_metadata v = (case v of
     VNone \<Rightarrow> Inr []
   | VDict d \<Rightarrow> Inr d
   | _ \<Rightarrow> invalid ''Metadata must be a mapping.'')"

text \<open>\<open>MemoryRecord(...)\<close>, the checks in the order of \<open>__post_init__\<close>.\<close>

definition make_record :: "(pyval \<Rightarrow> string) \<Rightarrow> raw_record \<Rightarrow> pyexn + memory_record" where
  "make_record txt r =
     (if rw_id r = [] then invalid ''MemoryRecord.id must not be empty.''
      else if rw_owner r = [] then invalid ''MemoryRecord.owner_id must not be empty.''
      else case rw_namespace r of
        VStr ns \<Rightarrow>
          (if ns = [] then invalid ''MemoryRecord.namespace must be a non-empty string.''
           else case rw_title r of
             VStr ti \<Rightarrow>
               (case normalize_metadata (rw_metadata r) of
                  Inl e \<Rightarrow> Inl e
                | Inr md \<Rightarrow>
                  (case normalize_tags txt (rw_tags r) of
                     Inl e \<Rightarrow> Inl e
                   | Inr tags \<Rightarrow>
                     (if json_ok (rw_content r)
                      then Inr \<lparr>mr_id = rw_id r, mr_owner = rw_owner r, mr_namespace = ns,
                        mr_title = ti, mr_content = rw_content r, mr_metadata = md, mr_tags = tags,
                        mr_importance = rw_importance r, mr_created = rw_created r,
                        mr_updated = rw_updated r, mr_accessed = rw_accessed r,
                        mr_count = rw_count r\<rparr>
                      else invalid ''MemoryRecord content must be JSON-serializable.'')))
           | _ \<Rightarrow> invalid ''MemoryRecord.title must be a string.'')
      | _ \<Rightarrow> invalid ''MemoryRecord.namespace must be a non-empty string.'')"

text \<open>What every constructed record satisfies.\<close>

definition record_ok :: "memory_record \<Rightarrow> bool" where
  "record_ok r \<longleftrightarrow> mr_id r \<noteq> [] \<and> mr_owner r \<noteq> [] \<and> mr_namespace r \<noteq> [] \<and> json_ok (mr_content r)"

definition raw_of :: "memory_record \<Rightarrow> raw_record" where
  "raw_of r = \<lparr>rw_id = mr_id r, rw_owner = mr_owner r, rw_namespace = VStr (mr_namespace r),
     rw_title = VStr (mr_title r), rw_content = mr_content r, rw_metadata = VDict (mr_metadata r),
     rw_tags = VList (map VStr (mr_tags r)), rw_importance = mr_importance r,
     rw_created = mr_created r, rw_updated = mr_updated r, rw_accessed = mr_accessed r,
     rw_count = mr_count r\<rparr>"

text \<open>The keyword arguments of \<open>with_update\<close>.\<close>

datatype memory_field = FId string | FOwner string | FNamespace pyval | FTitle pyval
  | FContent pyval | FMetadata pyval | FTags pyval | FImportance int | FCreated int
  | FUpdated int | FAccessed int | FCount int | FUnknown string

fun set_field :: "memory_field \<Rightarrow> raw_record \<Rightarrow> raw_record" where
  "set_field (FId v) r = r\<lparr>rw_id := v\<rparr>"
| "set_field (FOwner v) r = r\<lparr>rw_owner := v\<rparr>"
| "set_field (FNamespace v) r = r\<lparr>rw_namespace := v\<rparr>"
| "set_field (FTitle v) r = r\<lparr>rw_title := v\<rparr>"
| "set_field (FContent v) r = r\<lparr>rw_content := v\<rparr>"
| "set_field (FMetadata v) r = r\<lparr>rw_metadata := v\<rparr>"
| "set_field (FTags v) r = r\<lparr>rw_tags := v\<rparr>"
| "set_field (FImportance v) r = r\<lparr>rw_importance := v\<rparr>"
| "set_field (FCreated v) r = r\<lparr>rw_created := v\<rparr>"
| "set_field (FUpdated v) r = r\<lparr>rw_updated := v\<rparr>"
| "set_field (FAccessed v) r = r\<lparr>rw_accessed := v\<rparr>"
| "set_field (FCount v) r = r\<lparr>rw_count := v\<rparr>"
| "set_field (FUnknown x) r = r"

fun unknown_field :: "memory_field \<Rightarrow> bool" where
  "unknown_field (FUnknown x) = True"
| "unknown_field _ = False"

definition replace_fields ::
  "(pyval \<Rightarrow> string) \<Rightarrow> memory_field list \<Rightarrow> memory_record \<Rightarrow> pyexn + memory_record" where
  "replace_fields txt fs r = (if list_ex unknown_field fs
     then Inl (Exn (Py PyTypeError) ''got an unexpected keyword argument'')
     else make_record txt (fold set_field fs (raw_of r)))"

definition with_access :: "(pyval \<Rightarrow> string) \<Rightarrow> int \<Rightarrow> memory_record \<Rightarrow> pyexn + memory_record" where
  "with_access txt now r = replace_fields txt [FAccessed now, FCount (mr_count r + 1)] r"

definition with_update ::
  "(pyval \<Rightarrow> string) \<Rightarrow> int \<Rightarrow> memory_field list \<Rightarrow> memory_record \<Rightarrow> pyexn + memory_record" where
  "with_update txt now fs r = (case replace_fields txt fs r of
     Inl e \<Rightarrow> Inl e
   | Inr u \<Rightarrow> replace_fields txt [FUpdated now] u)"

record search_query =
  sq_text :: string
  sq_tags :: "string list"
  sq_namespace :: "string option"
  sq_limit :: int

text \<open>The \<open>tags\<close> argument: absent, a single string or a sequence of strings.\<close>

datatype tags_arg = NoTags | StrTags string | SeqTags "string list"

definition make_query ::
  "string \<Rightarrow> tags_arg \<Rightarrow> string option \<Rightarrow> int \<Rightarrow> pyexn + search_query" where
  "make_query text tags ns lim =
     (if lim \<le> 0 then invalid ''SearchQuery.limit must be greater than zero.''
      else case tags of
        NoTags \<Rightarrow> Inr \<lparr>sq_text = text, sq_tags = [], sq_namespace = ns, sq_limit = lim\<rparr>
      | StrTags s \<Rightarrow> invalid ''SearchQuery.tags must be an iterable of strings.''
      | SeqTags ts \<Rightarrow> Inr \<lparr>sq_text = text, sq_tags = ts, sq_namespace = ns, sq_limit = lim\<rparr>)"

text \<open>The score is kept in halves: every summand of the source is a multiple of 0.5.\<close>

record search_result =
  sr_record :: memory_record
  sr_score :: int

record memory_stats =
  st_records :: nat
  st_namespaces :: nat
  st_tags :: nat

section \<open>The index\<close>

record memory_index =
  ix_by_id :: "(string, memory_record) pydict"
  ix_by_namespace :: "(string, string list) pydict"
  ix_by_tags :: "(string, string list) pydict"
  ix_by_owner :: "(string, string list) pydict"

definition new_index :: memory_index where
  "new_index = \<lparr>ix_by_id = [], ix_by_namespace = [], ix_by_tags = [], ix_by_owner = []\<rparr>"

text \<open>A \<open>defaultdict(set)\<close>: reading, adding, and discarding with removal of an emptied set.\<close>

definition bucket :: "('k, 'i list) pydict \<Rightarrow> 'k \<Rightarrow> 'i list" where
  "bucket d k = (case map_of d k of None \<Rightarrow> [] | Some xs \<Rightarrow> xs)"

definition bucket_add :: "'i \<Rightarrow> 'k \<Rightarrow> ('k, 'i list) pydict \<Rightarrow> ('k, 'i list) pydict" where
  "bucket_add i k d = AList.update k (set_add i (bucket d k)) d"

definition bucket_discard :: "'i \<Rightarrow> 'k \<Rightarrow> ('k, 'i list) pydict \<Rightarrow> ('k, 'i list) pydict" where
  "bucket_discard i k d = (let d' = AList.update k (set_discard i (bucket d k)) d in
     if bucket d' k = [] then AList.delete k d' else d')"

definition index_add :: "memory_record \<Rightarrow> memory_index \<Rightarrow> memory_index" where
  "index_add r ix = \<lparr>ix_by_id = AList.update (mr_id r) r (ix_by_id ix),
     ix_by_namespace = bucket_add (mr_id r) (mr_namespace r) (ix_by_namespace ix),
     ix_by_tags = fold (bucket_add (mr_id r)) (mr_tags r) (ix_by_tags ix),
     ix_by_owner = bucket_add (mr_id r) (mr_owner r) (ix_by_owner ix)\<rparr>"

definition index_remove :: "string \<Rightarrow> memory_index \<Rightarrow> memory_index" where
  "index_remove i ix = (case map_of (ix_by_id ix) i of
     None \<Rightarrow> ix\<lparr>ix_by_id := AList.delete i (ix_by_id ix)\<rparr>
   | Some r \<Rightarrow> \<lparr>ix_by_id = AList.delete i (ix_by_id ix),
       ix_by_namespace = bucket_discard i (mr_namespace r) (ix_by_namespace ix),
       ix_by_tags = fold (bucket_discard i) (mr_tags r) (ix_by_tags ix),
       ix_by_owner = bucket_discard i (mr_owner r) (ix_by_owner ix)\<rparr>)"

definition index_update :: "memory_record \<Rightarrow> memory_record \<Rightarrow> memory_index \<Rightarrow> memory_index" where
  "index_update old new ix = index_add new (index_remove (mr_id old) ix)"

definition all_ids :: "memory_index \<Rightarrow> string list" where
  "all_ids ix = map fst (ix_by_id ix)"

definition get_by_namespace :: "string \<Rightarrow> memory_index \<Rightarrow> string list" where
  "get_by_namespace ns ix = bucket (ix_by_namespace ix) ns"

definition get_by_owner :: "string \<Rightarrow> memory_index \<Rightarrow> string list" where
  "get_by_owner w ix = bucket (ix_by_owner ix) w"

definition get_by_tag :: "string \<Rightarrow> memory_index \<Rightarrow> string list" where
  "get_by_tag t ix = bucket (ix_by_tags ix) t"

definition namespace_count :: "memory_index \<Rightarrow> nat" where
  "namespace_count ix = length (ix_by_namespace ix)"

definition tag_count :: "memory_index \<Rightarrow> nat" where
  "tag_count ix = length (ix_by_tags ix)"

text \<open>\<open>ids &= other\<close> and \<open>[by_id[i] for i in ids]\<close>, which raises on an unknown key.\<close>

definition set_meet :: "'i list \<Rightarrow> 'i list \<Rightarrow> 'i list" where
  "set_meet xs ys = filter (\<lambda>x. x \<in> set ys) xs"

primrec fetch_all :: "memory_index \<Rightarrow> string list \<Rightarrow> pyexn + memory_record list" where
  "fetch_all ix [] = Inr []"
| "fetch_all ix (i # is) = (case map_of (ix_by_id ix) i of
     None \<Rightarrow> Inl (Exn (Py PyKeyError) i)
   | Some r \<Rightarrow> (case fetch_all ix is of Inl e \<Rightarrow> Inl e | Inr rs \<Rightarrow> Inr (r # rs)))"

section \<open>The store\<close>

record memsys = world +
  ms_index :: memory_index

definition on_index :: "(memory_index \<Rightarrow> memory_index) \<Rightarrow> ('z memsys_scheme, unit) act" where
  "on_index f s = (Inr (), s\<lparr>ms_index := f (ms_index s)\<rparr>)"

definition missing_memory_msg :: "string \<Rightarrow> string" where
  "missing_memory_msg i = ''Memory record with id '' @ quoted i @ '' does not exist.''"

definition duplicate_memory_msg :: "string \<Rightarrow> string" where
  "duplicate_memory_msg i = ''Memory record with id '' @ quoted i @ '' already exists.''"

definition store_exists :: "string \<Rightarrow> memory_index \<Rightarrow> bool" where
  "store_exists i ix = (i \<in> set (all_ids ix))"

definition store_add :: "memory_record \<Rightarrow> ('z memsys_scheme, unit) act" where
  "store_add r s = (if mr_id r \<in> set (all_ids (ms_index s))
     then raise (InMemory DuplicateMemory) (duplicate_memory_msg (mr_id r)) s
     else on_index (index_add r) s)"

definition store_get :: "string \<Rightarrow> ('z memsys_scheme, memory_record) act" where
  "store_get i s = (if i \<notin> set (all_ids (ms_index s))
     then raise (InMemory MemoryNotFound) (missing_memory_msg i) s
     else case map_of (ix_by_id (ms_index s)) i of
        None \<Rightarrow> raise (Py PyKeyError) i s
      | Some r \<Rightarrow> (Inr r, s))"

definition store_update ::
  "(pyval \<Rightarrow> string) \<Rightarrow> int \<Rightarrow> string \<Rightarrow> memory_field list \<Rightarrow> ('z memsys_scheme, memory_record) act" where
  "store_update txt now i fs = bindA (store_get i) (\<lambda>current.
     bindA (liftA (with_update txt now fs current)) (\<lambda>updated.
       seqA (on_index (index_update current updated)) (ret updated)))"

definition store_replace :: "memory_record \<Rightarrow> ('z memsys_scheme, unit) act" where
  "store_replace r s = (if mr_id r \<notin> set (all_ids (ms_index s))
     then raise (InMemory MemoryNotFound) (missing_memory_msg (mr_id r)) s
     else bindA (store_get (mr_id r)) (\<lambda>existing. on_index (index_update existing r)) s)"

definition store_delete :: "string \<Rightarrow> ('z memsys_scheme, unit) act" where
  "store_delete i s = (if i \<notin> set (all_ids (ms_index s))
     then raise (InMemory MemoryNotFound) (missing_memory_msg i) s
     else on_index (index_remove i) s)"

text \<open>The identifiers of \<open>list(namespace, owner_id)\<close>, a set, and the records in iteration order.\<close>

definition list_ids :: "string option \<Rightarrow> string option \<Rightarrow> memory_index \<Rightarrow> string list" where
  "list_ids ns w ix =
     (let ids = all_ids ix;
          ids1 = (case ns of None \<Rightarrow> ids | Some n \<Rightarrow> set_meet ids (get_by_namespace n ix))
      in case w of None \<Rightarrow> ids1 | Some u \<Rightarrow> set_meet ids1 (get_by_owner u ix))"

definition store_list ::
  "(string list \<Rightarrow> string list) \<Rightarrow> string option \<Rightarrow> string option \<Rightarrow> memory_index \<Rightarrow>
   pyexn + memory_record list" where
  "store_list ord ns w ix = fetch_all ix (ord (list_ids ns w ix))"

definition store_clear :: "(string list \<Rightarrow> string list) \<Rightarrow> ('z memsys_scheme, unit) act" where
  "store_clear ord s = on_index (fold index_remove (ord (all_ids (ms_index s)))) s"

definition store_stats :: "memory_index \<Rightarrow> memory_stats" where
  "store_stats ix = \<lparr>st_records = length (all_ids ix), st_namespaces = namespace_count ix,
     st_tags = tag_count ix\<rparr>"

section \<open>Search\<close>

definition metadata_hits :: "(pyval \<Rightarrow> string) \<Rightarrow> string \<Rightarrow> args \<Rightarrow> nat" where
  "metadata_hits txt t md = length (filter (\<lambda>kv. contains t (lower (py_str txt (snd kv)))) md)"

definition score_record :: "(pyval \<Rightarrow> string) \<Rightarrow> memory_record \<Rightarrow> search_query \<Rightarrow> int" where
  "score_record txt r q =
     (let t = lower (strip (sq_text q));
          text_score = (if t \<noteq> []
            then (if contains t (lower (mr_title r)) then 4 else 0) +
                 (if contains t (lower (py_str txt (mr_content r))) then 2 else 0) +
                 (if contains t (lower (mr_namespace r)) then 1 else 0) +
                 int (metadata_hits txt t (mr_metadata r))
            else 0);
          tag_score = (if sq_tags q \<noteq> []
            then 2 * int (length (remdups (set_meet (sq_tags q) (mr_tags r)))) else 0)
      in text_score + tag_score)"

definition candidates :: "search_query \<Rightarrow> memory_index \<Rightarrow> string list" where
  "candidates q ix = (case sq_namespace q of
     None \<Rightarrow> all_ids ix
   | Some ns \<Rightarrow> (if ns = [] then all_ids ix else get_by_namespace ns ix))"

definition rank :: "search_result \<Rightarrow> int \<times> int" where
  "rank x = (- sr_score x, mr_updated (sr_record x))"

definition hits ::
  "(pyval \<Rightarrow> string) \<Rightarrow> search_query \<Rightarrow> memory_index \<Rightarrow> string list \<Rightarrow> search_result list" where
  "hits txt q ix ids = concat (map (\<lambda>i. case map_of (ix_by_id ix) i of
       None \<Rightarrow> []
     | Some r \<Rightarrow> (let sc = score_record txt r q in
         if sc > 0 \<or> sq_text q = [] then [\<lparr>sr_record = r, sr_score = sc\<rparr>] else [])) ids)"

definition search_memory ::
  "(pyval \<Rightarrow> string) \<Rightarrow> (string list \<Rightarrow> string list) \<Rightarrow> search_query \<Rightarrow> memory_index \<Rightarrow>
   pyexn + search_result list" where
  "search_memory txt ord q ix = (if sq_limit q \<le> 0
     then Inl (Exn (InMemory SearchError) ''Search limit must be at least 1.'')
     else Inr (take (nat (sq_limit q)) (sort_key rank (hits txt q ix (ord (candidates q ix))))))"

definition result_of :: "int \<Rightarrow> memory_record \<Rightarrow> search_result" where
  "result_of sc r = \<lparr>sr_record = r, sr_score = sc\<rparr>"

definition map_result :: "('a \<Rightarrow> 'b) \<Rightarrow> pyexn + 'a \<Rightarrow> pyexn + 'b" where
  "map_result f x = (case x of Inl e \<Rightarrow> Inl e | Inr y \<Rightarrow> Inr (f y))"

definition search_tags ::
  "(string list \<Rightarrow> string list) \<Rightarrow> string list \<Rightarrow> string option \<Rightarrow> memory_index \<Rightarrow>
   pyexn + search_result list" where
  "search_tags ord tags ns ix =
     (let ids0 = (case ns of None \<Rightarrow> all_ids ix | Some n \<Rightarrow> set_meet (all_ids ix) (get_by_namespace n ix));
          ids = fold (\<lambda>t ids. set_meet ids (get_by_tag t ix)) tags ids0
      in map_result (\<lambda>rs. sort_key (\<lambda>x. - mr_updated (sr_record x)) (map (result_of 2) rs))
           (fetch_all ix (ord ids)))"

definition search_namespace ::
  "(string list \<Rightarrow> string list) \<Rightarrow> string \<Rightarrow> memory_index \<Rightarrow> pyexn + search_result list" where
  "search_namespace ord ns ix = map_result (map (result_of 2)) (fetch_all ix (ord (get_by_namespace ns ix)))"

definition recent ::
  "(string list \<Rightarrow> string list) \<Rightarrow> int \<Rightarrow> memory_index \<Rightarrow> pyexn + search_result list" where
  "recent ord lim ix = (if lim \<le> 0
     then Inl (Exn (InMemory SearchError) ''Recent result limit must be at least 1.'')
     else map_result (\<lambda>rs. map (result_of 2) (take (nat lim) (sort_key (\<lambda>r. - mr_accessed r) rs)))
            (fetch_all ix (ord (all_ids ix))))"

text \<open>\<open>float(importance)\<close> is exact below 2^53 in absolute value.\<close>

definition important ::
  "(string list \<Rightarrow> string list) \<Rightarrow> int \<Rightarrow> memory_index \<Rightarrow> pyexn + search_result list" where
  "important ord lim ix = (if lim \<le> 0
     then Inl (Exn (InMemory SearchError) ''Important result limit must be at least 1.'')
     else map_result (\<lambda>rs. map (\<lambda>r. result_of (2 * mr_importance r) r)
            (take (nat lim) (sort_key (\<lambda>r. (- mr_importance r, mr_updated r)) rs)))
            (fetch_all ix (ord (all_ids ix))))"

section \<open>Retention\<close>

datatype retention_policy = NeverForget | TTL int | LeastRecentlyUsed int | ImportanceThreshold int

text \<open>The constructors check their argument.\<close>

definition make_ttl :: "int \<Rightarrow> pyexn + retention_policy" where
  "make_ttl n = (if n \<le> 0 then Inl (Exn (Py PyValueError) ''TTL must be greater than zero.'')
     else Inr (TTL n))"

definition make_lru :: "int \<Rightarrow> pyexn + retention_policy" where
  "make_lru n = (if n < 0 then Inl (Exn (Py PyValueError) ''max_records must be non-negative.'')
     else Inr (LeastRecentlyUsed n))"

fun select_candidates :: "int \<Rightarrow> retention_policy \<Rightarrow> memory_record list \<Rightarrow> string list" where
  "select_candidates now NeverForget rs = []"
| "select_candidates now (TTL n) rs = map mr_id (filter (\<lambda>r. now - mr_updated r > 1000000 * n) rs)"
| "select_candidates now (LeastRecentlyUsed n) rs =
     (let overflow = int (length rs) - n in
      if overflow \<le> 0 then []
      else map mr_id (take (nat overflow) (sort_key mr_accessed rs)))"
| "select_candidates now (ImportanceThreshold t) rs = map mr_id (filter (\<lambda>r. mr_importance r < t) rs)"

definition should_forget :: "int \<Rightarrow> retention_policy \<Rightarrow> memory_record \<Rightarrow> bool" where
  "should_forget now p r = (mr_id r \<in> set (select_candidates now p [r]))"

section \<open>The manager\<close>

text \<open>\<open>if self._event_bus: await self._event_bus.publish(...)\<close>\<close>

definition notify :: "bus option \<Rightarrow> event \<Rightarrow> ('w world_scheme, unit) act" where
  "notify mb e = (case mb of None \<Rightarrow> ret () | Some mw \<Rightarrow> publish mw e)"

definition memory_shutdown :: "(string list \<Rightarrow> string list) \<Rightarrow> ('z memsys_scheme, unit) act" where
  "memory_shutdown ord = store_clear ord"

definition remember :: "bus option \<Rightarrow> memory_record \<Rightarrow> ('z memsys_scheme, unit) act" where
  "remember mb r = seqA (store_add r)
     (notify mb (EvMemory (MemoryStored (mr_id r) (mr_owner r) (mr_namespace r))))"

definition recall ::
  "(pyval \<Rightarrow> string) \<Rightarrow> int \<Rightarrow> bus option \<Rightarrow> string \<Rightarrow> ('z memsys_scheme, memory_record) act" where
  "recall txt now mb i = bindA (store_get i) (\<lambda>r.
     bindA (liftA (with_access txt now r)) (\<lambda>updated.
     seqA (store_replace updated)
     (seqA (notify mb (EvMemory (MemoryAccessed i (mr_owner r) (mr_namespace r))))
      (ret updated))))"

definition forget :: "bus option \<Rightarrow> string \<Rightarrow> ('z memsys_scheme, unit) act" where
  "forget mb i = bindA (store_get i) (\<lambda>r. seqA (store_delete i)
     (notify mb (EvMemory (MemoryForgotten i (mr_owner r) (mr_namespace r)))))"

definition delete_memory :: "bus option \<Rightarrow> string \<Rightarrow> ('z memsys_scheme, unit) act" where
  "delete_memory mb i = bindA (store_get i) (\<lambda>r. seqA (store_delete i)
     (notify mb (EvMemory (MemoryDeleted i (mr_owner r) (mr_namespace r)))))"

definition update_memory ::
  "(pyval \<Rightarrow> string) \<Rightarrow> int \<Rightarrow> bus option \<Rightarrow> string \<Rightarrow> memory_field list \<Rightarrow>
   ('z memsys_scheme, memory_record) act" where
  "update_memory txt now mb i fs = bindA (store_update txt now i fs) (\<lambda>u.
     seqA (notify mb (EvMemory (MemoryUpdated (mr_id u) (mr_owner u) (mr_namespace u)))) (ret u))"

definition replace_memory :: "bus option \<Rightarrow> memory_record \<Rightarrow> ('z memsys_scheme, unit) act" where
  "replace_memory mb r = seqA (store_replace r)
     (notify mb (EvMemory (MemoryUpdated (mr_id r) (mr_owner r) (mr_namespace r))))"

primrec forget_all :: "bus option \<Rightarrow> string list \<Rightarrow> ('z memsys_scheme, unit) act" where
  "forget_all mb [] = ret ()"
| "forget_all mb (i # is) = seqA (forget mb i) (forget_all mb is)"

text \<open>\<open>cleanup\<close>; \<open>expire\<close> does the same.\<close>

definition cleanup ::
  "int \<Rightarrow> retention_policy \<Rightarrow> (string list \<Rightarrow> string list) \<Rightarrow> bus option \<Rightarrow>
   ('z memsys_scheme, unit) act" where
  "cleanup now p ord mb s =
     bindA (liftA (map_result (select_candidates now p) (store_list ord None None (ms_index s))))
       (forget_all mb) s"


section \<open>The index invariant\<close>

lemma set_add_absorb [simp]: "set_add x (set_add x xs) = set_add x xs"
  by (simp add: set_add_def)

lemma set_discard_absorb [simp]: "set_discard x (set_discard x xs) = set_discard x xs"
  by (simp add: set_discard_def)

lemma set_add_not_Nil [simp]: "set_add x xs \<noteq> []"
  by (auto simp: set_add_def)

lemma bucket_update [simp]: "bucket (AList.update k v d) k' = (if k' = k then v else bucket d k')"
  by (simp add: bucket_def)

lemma bucket_delete [simp]: "bucket (AList.delete k d) k' = (if k' = k then [] else bucket d k')"
  by (simp add: bucket_def)

lemma bucket_bucket_add: "bucket (bucket_add i k d) k' = (if k' = k then set_add i (bucket d k) else bucket d k')"
  by (simp add: bucket_add_def)

lemma bucket_bucket_discard:
  "bucket (bucket_discard i k d) k' = (if k' = k then set_discard i (bucket d k) else bucket d k')"
  by (simp add: bucket_discard_def Let_def)

lemma bucket_add_all:
  "bucket (fold (bucket_add i) ks d) k = (if k \<in> set ks then set_add i (bucket d k) else bucket d k)"
  by (induction ks arbitrary: d) (auto simp: bucket_bucket_add)

lemma bucket_discard_all:
  "bucket (fold (bucket_discard i) ks d) k =
     (if k \<in> set ks then set_discard i (bucket d k) else bucket d k)"
  by (induction ks arbitrary: d) (auto simp: bucket_bucket_discard)

text \<open>A dictionary of sets none of which is empty.\<close>

definition buckets_wf :: "('k, 'i list) pydict \<Rightarrow> bool" where
  "buckets_wf d \<longleftrightarrow> dict_ok d \<and> (\<forall>k. map_of d k \<noteq> Some [])"

lemma buckets_wf_add: "buckets_wf d \<Longrightarrow> buckets_wf (fold (bucket_add i) ks d)"
  by (induction ks arbitrary: d) (simp_all add: buckets_wf_def bucket_add_def)

lemma buckets_wf_discard: "buckets_wf d \<Longrightarrow> buckets_wf (fold (bucket_discard i) ks d)"
  by (induction ks arbitrary: d) (simp_all add: buckets_wf_def bucket_discard_def Let_def)

text \<open>One inverted index: under each key the identifiers of the records that carry it.\<close>

definition inverted ::
  "('i, 'r) pydict \<Rightarrow> ('r \<Rightarrow> 'k list) \<Rightarrow> ('k, 'i list) pydict \<Rightarrow> bool" where
  "inverted m keys d \<longleftrightarrow> buckets_wf d \<and> (\<forall>k. distinct (bucket d k)) \<and>
     (\<forall>k i. i \<in> set (bucket d k) \<longleftrightarrow> (\<exists>r. map_of m i = Some r \<and> k \<in> set (keys r)))"

lemma inverted_add:
  "inverted m keys d \<Longrightarrow> map_of m i = None \<Longrightarrow>
   inverted (AList.update i r m) keys (fold (bucket_add i) (keys r) d)"
  by (auto simp: inverted_def buckets_wf_add bucket_add_all)

lemma inverted_remove:
  "inverted m keys d \<Longrightarrow> map_of m i = Some r \<Longrightarrow>
   inverted (AList.delete i m) keys (fold (bucket_discard i) (keys r) d)"
  by (auto simp: inverted_def buckets_wf_discard bucket_discard_all)

definition index_ok :: "memory_index \<Rightarrow> bool" where
  "index_ok ix \<longleftrightarrow> dict_ok (ix_by_id ix) \<and>
     (\<forall>i r. map_of (ix_by_id ix) i = Some r \<longrightarrow> mr_id r = i \<and> record_ok r) \<and>
     inverted (ix_by_id ix) (\<lambda>r. [mr_namespace r]) (ix_by_namespace ix) \<and>
     inverted (ix_by_id ix) (\<lambda>r. [mr_owner r]) (ix_by_owner ix) \<and>
     inverted (ix_by_id ix) mr_tags (ix_by_tags ix)"

text \<open>What the store promises: a finite map from identifiers to records.\<close>

definition memory_map :: "memory_index \<Rightarrow> string \<Rightarrow> memory_record option" where
  "memory_map ix = map_of (ix_by_id ix)"

lemma index_ok_new: "index_ok new_index"
  by (simp add: index_ok_def new_index_def inverted_def buckets_wf_def bucket_def)

lemma all_ids_iff: "i \<in> set (all_ids ix) \<longleftrightarrow> memory_map ix i \<noteq> None"
  using dict_in_keys[of i "ix_by_id ix"] by (simp add: all_ids_def memory_map_def del: set_map)

lemma distinct_all_ids: "index_ok ix \<Longrightarrow> distinct (all_ids ix)"
  by (simp add: index_ok_def all_ids_def dict_ok_def)

lemma memory_map_id: "index_ok ix \<Longrightarrow> memory_map ix i = Some r \<Longrightarrow> mr_id r = i \<and> record_ok r"
  by (simp add: index_ok_def memory_map_def)

lemma memory_map_add: "memory_map (index_add r ix) = (memory_map ix)(mr_id r \<mapsto> r)"
  by (simp add: memory_map_def index_add_def fun_eq_iff)

lemma memory_map_remove: "memory_map (index_remove i ix) = (memory_map ix)(i := None)"
  by (auto simp: memory_map_def index_remove_def fun_eq_iff split: option.splits)

lemma index_ok_add:
  assumes "index_ok ix" "memory_map ix (mr_id r) = None" "record_ok r"
  shows "index_ok (index_add r ix)"
proof -
  note add = inverted_add[where i = "mr_id r" and r = r, OF _ assms(2)[unfolded memory_map_def]]
  show ?thesis
    using assms add[where keys = "\<lambda>r. [mr_namespace r]"] add[where keys = "\<lambda>r. [mr_owner r]"]
      add[where keys = mr_tags]
    by (auto simp: index_ok_def index_add_def)
qed

lemma index_ok_remove:
  assumes "index_ok ix"
  shows "index_ok (index_remove i ix)"
proof (cases "map_of (ix_by_id ix) i")
  case None
  then have "AList.delete i (ix_by_id ix) = ix_by_id ix"
    by (simp add: map_of_eq_None_iff)
  with None assms show ?thesis by (simp add: index_remove_def)
next
  case (Some r)
  note rem = inverted_remove[OF _ Some]
  show ?thesis
    using Some assms rem[where keys = "\<lambda>r. [mr_namespace r]"] rem[where keys = "\<lambda>r. [mr_owner r]"]
      rem[where keys = mr_tags]
    by (auto simp: index_ok_def index_remove_def)
qed


text \<open>
  Replacing a record keeps the index consistent when the new record keeps the identifier or takes
  one that is not in use.
\<close>

lemma memory_map_update:
  "memory_map (index_update old new ix) = ((memory_map ix)(mr_id old := None))(mr_id new \<mapsto> new)"
  by (simp add: index_update_def memory_map_add memory_map_remove)

lemma index_ok_update:
  "index_ok ix \<Longrightarrow> record_ok new \<Longrightarrow> mr_id new = mr_id old \<or> memory_map ix (mr_id new) = None \<Longrightarrow>
   index_ok (index_update old new ix)"
  by (auto simp: index_update_def memory_map_remove intro!: index_ok_add index_ok_remove)

lemma fold_index_remove:
  "index_ok ix \<Longrightarrow> index_ok (fold index_remove is ix) \<and>
     memory_map (fold index_remove is ix) = memory_map ix |` (- set is)"
proof (induction "is" arbitrary: ix)
  case Nil
  then show ?case by (auto simp: restrict_map_def)
next
  case (Cons i "is")
  from Cons.IH[OF index_ok_remove[OF Cons.prems, of i]] show ?case
    by (auto simp: memory_map_remove restrict_map_def fun_eq_iff)
qed

lemma fetch_all_ok:
  "(\<And>i. i \<in> set is \<Longrightarrow> memory_map ix i \<noteq> None) \<Longrightarrow>
   fetch_all ix is = Inr (map (\<lambda>i. the (memory_map ix i)) is)"
  by (induction "is") (force simp: memory_map_def)+

section \<open>Records survive their own copies\<close>

lemma normalize_raw [simp]:
  "normalize_tags txt (VList (map VStr ts)) = Inr ts"
  "normalize_metadata (VDict md) = Inr md"
  by (simp_all add: normalize_tags_def normalize_metadata_def py_str_def comp_def)

lemma make_record_ok: "make_record txt r = Inr m \<Longrightarrow> record_ok m"
  by (auto simp: make_record_def invalid_def record_ok_def split: if_splits pyval.splits sum.splits)

lemma make_record_id: "make_record txt r = Inr m \<Longrightarrow> mr_id m = rw_id r"
  by (auto simp: make_record_def invalid_def split: if_splits pyval.splits sum.splits)

lemma make_record_raw_of: "record_ok r \<Longrightarrow> make_record txt (raw_of r) = Inr r"
  by (simp add: make_record_def record_ok_def raw_of_def)

lemma with_access_ok:
  "record_ok r \<Longrightarrow>
   with_access txt now r = Inr (r\<lparr>mr_accessed := now, mr_count := mr_count r + 1\<rparr>)"
  by (simp add: with_access_def replace_fields_def make_record_def record_ok_def raw_of_def)

lemma with_update_ok:
  "with_update txt now fs r =
     (if list_ex unknown_field fs then Inl (Exn (Py PyTypeError) ''got an unexpected keyword argument'')
      else map_result (\<lambda>u. u\<lparr>mr_updated := now\<rparr>) (make_record txt (fold set_field fs (raw_of r))))"
proof (cases "make_record txt (fold set_field fs (raw_of r))")
  case (Inl e)
  then show ?thesis by (simp add: with_update_def replace_fields_def map_result_def)
next
  case (Inr u)
  from make_record_ok[OF Inr] have "replace_fields txt [FUpdated now] u = Inr (u\<lparr>mr_updated := now\<rparr>)"
    by (simp add: replace_fields_def make_record_def record_ok_def raw_of_def)
  with Inr show ?thesis by (simp add: with_update_def replace_fields_def map_result_def)
qed

lemma with_update_record_ok: "with_update txt now fs r = Inr u \<Longrightarrow> record_ok u"
  by (auto simp: with_update_ok map_result_def record_ok_def dest!: make_record_ok
      split: if_splits sum.splits)

text \<open>Without a field \<open>id\<close> the update keeps the identifier.\<close>

fun is_id_field :: "memory_field \<Rightarrow> bool" where
  "is_id_field (FId v) = True"
| "is_id_field _ = False"

lemma set_field_id: "\<not> is_id_field f \<Longrightarrow> rw_id (set_field f r) = rw_id r"
  by (cases f) simp_all

lemma set_fields_id: "\<not> list_ex is_id_field fs \<Longrightarrow> rw_id (fold set_field fs r) = rw_id r"
  by (induction fs arbitrary: r) (simp_all add: set_field_id)

lemma with_update_id:
  "with_update txt now fs r = Inr u \<Longrightarrow> \<not> list_ex is_id_field fs \<Longrightarrow> mr_id u = mr_id r"
  by (auto simp: with_update_ok map_result_def set_fields_id raw_of_def dest!: make_record_id
      split: if_splits sum.splits)


section \<open>The store refines a finite map\<close>

text \<open>
  The operations of the manager that change the store, as data. The answer of a run is the record
  that \<open>recall\<close> and \<open>update\<close> return, and Python's \<open>None\<close> for the others.
\<close>

datatype memory_op = Remember memory_record | Recall string | Forget string | Delete string
  | Update string "memory_field list" | Replace memory_record | Clear

text \<open>\<open>Remember\<close> and \<open>Replace\<close> take a constructed record.\<close>

fun op_ok :: "memory_op \<Rightarrow> bool" where
  "op_ok (Remember r) = record_ok r"
| "op_ok (Replace r) = record_ok r"
| "op_ok _ = True"

fun run_op ::
  "(pyval \<Rightarrow> string) \<Rightarrow> int \<Rightarrow> (string list \<Rightarrow> string list) \<Rightarrow> bus option \<Rightarrow> memory_op \<Rightarrow>
   ('z memsys_scheme, memory_record option) act" where
  "run_op txt now ord mb (Remember r) = seqA (remember mb r) (ret None)"
| "run_op txt now ord mb (Recall i) = bindA (recall txt now mb i) (\<lambda>r. ret (Some r))"
| "run_op txt now ord mb (Forget i) = seqA (forget mb i) (ret None)"
| "run_op txt now ord mb (Delete i) = seqA (delete_memory mb i) (ret None)"
| "run_op txt now ord mb (Update i fs) = bindA (update_memory txt now mb i fs) (\<lambda>r. ret (Some r))"
| "run_op txt now ord mb (Replace r) = seqA (replace_memory mb r) (ret None)"
| "run_op txt now ord mb Clear = seqA (store_clear ord) (ret None)"

text \<open>The specification: error or answer, map afterwards, events.\<close>

type_synonym memory_spec =
  "(pyexn + memory_record option) \<times> (string \<Rightarrow> memory_record option) \<times> memory_event list"

definition not_found :: "string \<Rightarrow> pyexn" where
  "not_found i = Exn (InMemory MemoryNotFound) (missing_memory_msg i)"

definition with_found ::
  "(string \<Rightarrow> memory_record option) \<Rightarrow> string \<Rightarrow> (memory_record \<Rightarrow> memory_spec) \<Rightarrow> memory_spec" where
  "with_found m i k = (case m i of None \<Rightarrow> (Inl (not_found i), m, []) | Some r \<Rightarrow> k r)"

text \<open>The record with the fields given, as the constructor takes it, and a new update time.\<close>

definition updated_record ::
  "(pyval \<Rightarrow> string) \<Rightarrow> int \<Rightarrow> memory_field list \<Rightarrow> memory_record \<Rightarrow> pyexn + memory_record" where
  "updated_record txt now fs r =
     (if list_ex unknown_field fs then Inl (Exn (Py PyTypeError) ''got an unexpected keyword argument'')
      else map_result (\<lambda>u. u\<lparr>mr_updated := now\<rparr>) (make_record txt (fold set_field fs (raw_of r))))"

fun spec_op ::
  "(pyval \<Rightarrow> string) \<Rightarrow> int \<Rightarrow> memory_op \<Rightarrow> (string \<Rightarrow> memory_record option) \<Rightarrow> memory_spec" where
  "spec_op txt now (Remember r) m =
     (if m (mr_id r) \<noteq> None
      then (Inl (Exn (InMemory DuplicateMemory) (duplicate_memory_msg (mr_id r))), m, [])
      else (Inr None, m(mr_id r \<mapsto> r), [MemoryStored (mr_id r) (mr_owner r) (mr_namespace r)]))"
| "spec_op txt now (Recall i) m = with_found m i (\<lambda>r.
     let u = r\<lparr>mr_accessed := now, mr_count := mr_count r + 1\<rparr> in
     (Inr (Some u), m(i \<mapsto> u), [MemoryAccessed i (mr_owner r) (mr_namespace r)]))"
| "spec_op txt now (Forget i) m = with_found m i (\<lambda>r.
     (Inr None, m(i := None), [MemoryForgotten i (mr_owner r) (mr_namespace r)]))"
| "spec_op txt now (Delete i) m = with_found m i (\<lambda>r.
     (Inr None, m(i := None), [MemoryDeleted i (mr_owner r) (mr_namespace r)]))"
| "spec_op txt now (Update i fs) m = with_found m i (\<lambda>r. case updated_record txt now fs r of
       Inl e \<Rightarrow> (Inl e, m, [])
     | Inr u \<Rightarrow> (Inr (Some u), (m(i := None))(mr_id u \<mapsto> u),
                 [MemoryUpdated (mr_id u) (mr_owner u) (mr_namespace u)]))"
| "spec_op txt now (Replace r) m = with_found m (mr_id r) (\<lambda>old.
     (Inr None, m(mr_id r \<mapsto> r), [MemoryUpdated (mr_id r) (mr_owner r) (mr_namespace r)]))"
| "spec_op txt now Clear m = (Inr None, Map.empty, [])"

text \<open>
  The operations that keep the inverted indexes consistent: all but an update that gives the
  record an identifier in use, unless the record that loses its place has the same namespace and
  owner and no tag of its own.
\<close>

definition covers :: "memory_record \<Rightarrow> memory_record \<Rightarrow> bool" where
  "covers u x \<longleftrightarrow> mr_namespace x = mr_namespace u \<and> mr_owner x = mr_owner u \<and>
     set (mr_tags x) \<subseteq> set (mr_tags u)"

definition displaces_nothing ::
  "(string \<Rightarrow> memory_record option) \<Rightarrow> string \<Rightarrow> memory_record \<Rightarrow> bool" where
  "displaces_nothing m i u \<longleftrightarrow> mr_id u = i \<or> pred_option (covers u) (m (mr_id u))"

fun keeps_indexes ::
  "(pyval \<Rightarrow> string) \<Rightarrow> int \<Rightarrow> memory_op \<Rightarrow> (string \<Rightarrow> memory_record option) \<Rightarrow> bool" where
  "keeps_indexes txt now (Update i fs) m = (case m i of None \<Rightarrow> True
     | Some r \<Rightarrow> case updated_record txt now fs r of Inl e \<Rightarrow> True
     | Inr u \<Rightarrow> displaces_nothing m i u)"
| "keeps_indexes txt now _ m = True"

lemma store_get_eq:
  "store_get i s = (case memory_map (ms_index s) i of
     None \<Rightarrow> (Inl (not_found i), s) | Some r \<Rightarrow> (Inr r, s))"
  using all_ids_iff[of i "ms_index s"]
  by (auto simp: store_get_def raise_def not_found_def memory_map_def split: option.splits)

lemma store_add_eq:
  "store_add r s = (if memory_map (ms_index s) (mr_id r) \<noteq> None
     then (Inl (Exn (InMemory DuplicateMemory) (duplicate_memory_msg (mr_id r))), s)
     else (Inr (), s\<lparr>ms_index := index_add r (ms_index s)\<rparr>))"
  using all_ids_iff[of "mr_id r" "ms_index s"]
  by (auto simp: store_add_def raise_def on_index_def)

lemma store_delete_eq:
  "store_delete i s = (if memory_map (ms_index s) i = None then (Inl (not_found i), s)
     else (Inr (), s\<lparr>ms_index := index_remove i (ms_index s)\<rparr>))"
  using all_ids_iff[of i "ms_index s"]
  by (auto simp: store_delete_def raise_def on_index_def not_found_def)

lemma store_replace_eq:
  "store_replace r s = (case memory_map (ms_index s) (mr_id r) of
     None \<Rightarrow> (Inl (not_found (mr_id r)), s)
   | Some old \<Rightarrow> (Inr (), s\<lparr>ms_index := index_update old r (ms_index s)\<rparr>))"
  using all_ids_iff[of "mr_id r" "ms_index s"]
  by (auto simp: store_replace_def raise_def on_index_def not_found_def bindA_def store_get_eq
      split: option.splits)

lemmas store_eqs = store_get_eq store_add_eq store_delete_eq store_replace_eq

lemma notify_quiet [simp]:
  "notify (Some quiet) e s = (Inr (), s\<lparr>w_trace := w_trace s @ [e]\<rparr>)"
  by (simp add: notify_def)

text \<open>
  The table of the records alone, which every operation keeps, whatever it does to the inverted
  indexes.
\<close>

definition table_ok :: "memory_index \<Rightarrow> bool" where
  "table_ok ix \<longleftrightarrow> dict_ok (ix_by_id ix) \<and>
     (\<forall>i r. memory_map ix i = Some r \<longrightarrow> mr_id r = i \<and> record_ok r)"

lemma index_ok_table: "index_ok ix \<Longrightarrow> table_ok ix"
  by (simp add: index_ok_def table_ok_def memory_map_def)

lemma table_ok_id: "table_ok ix \<Longrightarrow> memory_map ix i = Some r \<Longrightarrow> mr_id r = i \<and> record_ok r"
  by (simp add: table_ok_def)

lemma table_ok_add: "table_ok ix \<Longrightarrow> record_ok r \<Longrightarrow> table_ok (index_add r ix)"
  by (simp add: table_ok_def memory_map_add) (simp add: index_add_def)

lemma table_ok_remove: "table_ok ix \<Longrightarrow> table_ok (index_remove i ix)"
  by (simp add: table_ok_def memory_map_remove) (simp add: index_remove_def split: option.splits)

lemma table_ok_update: "table_ok ix \<Longrightarrow> record_ok new \<Longrightarrow> table_ok (index_update old new ix)"
  by (simp add: index_update_def table_ok_add table_ok_remove)

lemma fold_remove_table:
  "table_ok ix \<Longrightarrow> table_ok (fold index_remove is ix) \<and>
     memory_map (fold index_remove is ix) = memory_map ix |` (- set is)"
proof (induction "is" arbitrary: ix)
  case Nil
  then show ?case by (auto simp: restrict_map_def)
next
  case (Cons i "is")
  from Cons.IH[OF table_ok_remove[OF Cons.prems, of i]] show ?case
    by (auto simp: memory_map_remove restrict_map_def fun_eq_iff)
qed

text \<open>Overwriting a record leaves its keys in an inverted index, harmless when the new record has them.\<close>

lemma inverted_overwrite:
  assumes "inverted m keys d" "map_of m i = Some x"
  shows "inverted (AList.update i r m) keys (fold (bucket_add i) (keys r) d) \<longleftrightarrow>
    set (keys x) \<subseteq> set (keys r)"
  using assms by (auto simp: inverted_def buckets_wf_add bucket_add_all)

lemma index_ok_overwrite:
  assumes "index_ok ix" "memory_map ix (mr_id r) = Some x" "record_ok r"
  shows "index_ok (index_add r ix) \<longleftrightarrow> covers r x"
proof -
  note over = inverted_overwrite[where i = "mr_id r" and r = r, OF _ assms(2)[unfolded memory_map_def]]
  show ?thesis
    using assms over[where keys = "\<lambda>r. [mr_namespace r]"] over[where keys = "\<lambda>r. [mr_owner r]"]
      over[where keys = mr_tags]
    by (auto simp: index_ok_def index_add_def covers_def)
qed

lemma index_ok_update_iff:
  assumes "index_ok ix" "record_ok new"
  shows "index_ok (index_update old new ix) \<longleftrightarrow> displaces_nothing (memory_map ix) (mr_id old) new"
proof (cases "mr_id new = mr_id old \<or> memory_map ix (mr_id new) = None")
  case True
  with assms show ?thesis by (auto simp: displaces_nothing_def intro: index_ok_update)
next
  case False
  with index_ok_overwrite[OF index_ok_remove[OF assms(1), of "mr_id old"], of new] assms(2)
  show ?thesis by (auto simp: displaces_nothing_def index_update_def memory_map_remove)
qed

text \<open>
  What relates an operation to its specification: the answer or the error, the map and the events
  afterwards, a well-formed table, and from consistent indexes consistent ones exactly when
  \<open>kept\<close> holds.
\<close>

definition implements ::
  "memory_spec \<Rightarrow> bool \<Rightarrow> 'z memsys_scheme \<Rightarrow> (pyexn + memory_record option) \<times> 'z memsys_scheme \<Rightarrow> bool" where
  "implements sp kept s res \<longleftrightarrow> (case sp of (r, m, es) \<Rightarrow> fst res = r \<and>
     memory_map (ms_index (snd res)) = m \<and> w_trace (snd res) = w_trace s @ map EvMemory es) \<and>
     table_ok (ms_index (snd res)) \<and>
     (index_ok (ms_index s) \<longrightarrow> (index_ok (ms_index (snd res)) \<longleftrightarrow> kept))"

lemma forget_eq:
  "forget (Some quiet) i s = (case memory_map (ms_index s) i of
     None \<Rightarrow> (Inl (not_found i), s)
   | Some r \<Rightarrow> (Inr (), s\<lparr>ms_index := index_remove i (ms_index s),
        w_trace := w_trace s @ [EvMemory (MemoryForgotten i (mr_owner r) (mr_namespace r))]\<rparr>))"
  by (simp add: forget_def bindA_def seqA_def store_eqs split: option.splits)

lemma implements_remember:
  assumes "table_ok (ms_index s)" "record_ok r"
  shows "implements (spec_op txt now (Remember r) (memory_map (ms_index s))) True s
    (run_op txt now ord (Some quiet) (Remember r) s)"
  using assms by (auto simp: implements_def remember_def seqA_def bindA_def ret_def store_eqs
      memory_map_add table_ok_add intro: index_ok_add)

lemma implements_recall:
  assumes "table_ok (ms_index s)"
  shows "implements (spec_op txt now (Recall i) (memory_map (ms_index s))) True s
    (run_op txt now ord (Some quiet) (Recall i) s)"
proof (cases "memory_map (ms_index s) i")
  case None
  with assms show ?thesis
    by (simp add: implements_def recall_def bindA_def store_eqs with_found_def)
next
  case (Some r)
  with table_ok_id[OF assms] have r: "mr_id r = i" "record_ok r" by auto
  have "record_ok (r\<lparr>mr_accessed := now, mr_count := mr_count r + 1\<rparr>)"
    using r by (simp add: record_ok_def)
  with Some r assms show ?thesis
    by (simp add: implements_def recall_def bindA_def seqA_def liftA_def ret_def store_eqs
        with_found_def with_access_ok memory_map_update table_ok_update index_ok_update Let_def)
qed

lemma implements_update:
  assumes "table_ok (ms_index s)"
  shows "implements (spec_op txt now (Update i fs) (memory_map (ms_index s)))
    (keeps_indexes txt now (Update i fs) (memory_map (ms_index s))) s
    (run_op txt now ord (Some quiet) (Update i fs) s)"
proof (cases "memory_map (ms_index s) i")
  case None
  with assms show ?thesis
    by (simp add: implements_def update_memory_def store_update_def bindA_def store_eqs
        with_found_def)
next
  case (Some r)
  note eqs = implements_def update_memory_def store_update_def bindA_def seqA_def liftA_def ret_def
    on_index_def store_eqs with_found_def updated_record_def[folded with_update_ok]
  show ?thesis
  proof (cases "with_update txt now fs r")
    case (Inl e)
    with Some assms show ?thesis by (simp add: eqs)
  next
    case (Inr u)
    moreover have "record_ok u" using with_update_record_ok[OF Inr] .
    moreover have "mr_id r = i" using table_ok_id[OF assms Some] by simp
    ultimately show ?thesis
      using Some assms by (simp add: eqs memory_map_update table_ok_update index_ok_update_iff)
  qed
qed

lemma implements_replace:
  assumes "table_ok (ms_index s)" "record_ok r"
  shows "implements (spec_op txt now (Replace r) (memory_map (ms_index s))) True s
    (run_op txt now ord (Some quiet) (Replace r) s)"
proof (cases "memory_map (ms_index s) (mr_id r)")
  case None
  with assms show ?thesis
    by (simp add: implements_def replace_memory_def seqA_def bindA_def store_eqs with_found_def)
next
  case (Some old)
  with table_ok_id[OF assms(1)] have "mr_id old = mr_id r" by auto
  with Some assms show ?thesis
    by (simp add: implements_def replace_memory_def seqA_def bindA_def ret_def store_eqs
        with_found_def memory_map_update table_ok_update index_ok_update)
qed

lemma implements_clear:
  assumes "table_ok (ms_index s)" "\<And>is. set (ord is) = set is"
  shows "implements (spec_op txt now Clear (memory_map (ms_index s))) True s
    (run_op txt now ord (Some quiet) Clear s)"
proof -
  have "i \<notin> set (all_ids (ms_index s)) \<Longrightarrow> memory_map (ms_index s) i = None" for i
    using all_ids_iff[of i "ms_index s"] by auto
  then have "memory_map (ms_index s) |` (- set (all_ids (ms_index s))) = Map.empty"
    by (auto simp: restrict_map_def fun_eq_iff)
  with fold_remove_table[OF assms(1), of "ord (all_ids (ms_index s))"]
    fold_index_remove[of "ms_index s" "ord (all_ids (ms_index s))"] assms(2) show ?thesis
    by (simp add: implements_def store_clear_def on_index_def seqA_def bindA_def ret_def)
qed

text \<open>
  C7. The memory store refines a finite map. On a bus without middlewares and subscribers every
  operation of the manager with constructed records answers, changes the stored records and
  publishes exactly as the specification on the map from identifiers to records says: the
  record that \<open>recall\<close> and \<open>update\<close> return and the errors included. The table of the records
  stays well-formed, even if the inverted indexes are not; and from consistent indexes the four
  indexes are consistent afterwards exactly if the operation is no update that gives the record
  an identifier in use, or the record that loses its place has the same namespace and owner and
  only tags of the new one.
\<close>

theorem memory_refines_map:
  assumes "table_ok (ms_index s)" and "op_ok op" and "\<And>is. set (ord is) = set is"
  shows "implements (spec_op txt now op (memory_map (ms_index s)))
    (keeps_indexes txt now op (memory_map (ms_index s))) s (run_op txt now ord (Some quiet) op s)"
proof (cases op)
  case (Forget i)
  with assms(1) show ?thesis
    by (simp add: implements_def forget_eq seqA_def bindA_def ret_def with_found_def
        memory_map_remove table_ok_remove index_ok_remove split: option.splits)
next
  case (Delete i)
  with assms(1) show ?thesis
    by (simp add: implements_def delete_memory_def bindA_def seqA_def ret_def store_eqs
        with_found_def memory_map_remove table_ok_remove index_ok_remove split: option.splits)
next
  case (Update i fs)
  then show ?thesis by (simp only: implements_update[OF assms(1)])
qed (use assms in \<open>simp_all only: op_ok.simps keeps_indexes.simps implements_remember
    implements_recall implements_replace implements_clear\<close>)

definition example_record :: "string \<Rightarrow> string \<Rightarrow> int \<Rightarrow> memory_record" where
  "example_record i ns t = \<lparr>mr_id = i, mr_owner = ''o'', mr_namespace = ns, mr_title = ''Note'',
     mr_content = VStr ''text'', mr_metadata = [], mr_tags = [''a''], mr_importance = t,
     mr_created = 0, mr_updated = t, mr_accessed = t, mr_count = 0\<rparr>"

definition example_memsys :: "memory_record list \<Rightarrow> memsys" where
  "example_memsys rs = \<lparr>w_trace = [], w_uid = 0, ms_index = fold index_add rs new_index\<rparr>"

lemma example_record_ok: "i \<noteq> [] \<Longrightarrow> ns \<noteq> [] \<Longrightarrow> record_ok (example_record i ns t)"
  by (simp add: record_ok_def example_record_def)

lemma example_index_ok:
  "index_ok (fold index_add [example_record ''x'' ''n'' 1, example_record ''y'' ''m'' 2] new_index)"
  by (auto intro!: index_ok_add index_ok_new example_record_ok simp: memory_map_add)
    (simp_all add: example_record_def memory_map_def new_index_def)

lemma example_updated_record:
  "j \<noteq> [] \<Longrightarrow> updated_record (\<lambda>v. []) 5 [FId j] (example_record i ''n'' 1) =
     Inr (example_record j ''n'' 1\<lparr>mr_updated := 5\<rparr>)"
  by (simp add: updated_record_def make_record_def raw_of_def example_record_def map_result_def
      normalize_tags_def py_str_def)

text \<open>
  The witness: renaming a record to an identifier in use answers with the renamed record and
  drops the other one, whose namespace index keeps an entry.
\<close>

theorem memory_refines_map_witness:
  "let s = example_memsys [example_record ''x'' ''n'' 1, example_record ''y'' ''m'' 2];
     u = example_record ''y'' ''n'' 1\<lparr>mr_updated := 5\<rparr>;
     res = run_op (\<lambda>v. []) 5 rev (Some quiet) (Update ''x'' [FId ''y'']) s
   in fst res = Inr (Some u) \<and> memory_map (ms_index (snd res)) = [''y'' \<mapsto> u] \<and>
     index_ok (ms_index s) \<and> \<not> index_ok (ms_index (snd res))"
proof -
  let ?s = "example_memsys [example_record ''x'' ''n'' 1, example_record ''y'' ''m'' 2]"
  have ok: "index_ok (ms_index ?s)" using example_index_ok by (simp add: example_memsys_def)
  have m: "memory_map (ms_index ?s) =
      [''x'' \<mapsto> example_record ''x'' ''n'' 1, ''y'' \<mapsto> example_record ''y'' ''m'' 2]"
    by (simp add: example_memsys_def memory_map_add)
      (simp add: example_record_def memory_map_def new_index_def fun_eq_iff)
  have "\<not> displaces_nothing (memory_map (ms_index ?s)) ''x'' (example_record ''y'' ''n'' 1\<lparr>mr_updated := 5\<rparr>)"
    by (simp add: m displaces_nothing_def covers_def) (simp add: example_record_def)
  with memory_refines_map[OF index_ok_table[OF ok], of "Update ''x'' [FId ''y'']" rev "\<lambda>v. []" 5] ok
  show ?thesis
    by (simp add: implements_def with_found_def example_updated_record m Let_def)
      (simp add: example_record_def fun_eq_iff)
qed


section \<open>Listing and search are exact\<close>

text \<open>A set iterated in any order.\<close>

definition enumerates :: "(string list \<Rightarrow> string list) \<Rightarrow> bool" where
  "enumerates ord \<longleftrightarrow> (\<forall>is. set (ord is) = set is \<and> (distinct is \<longrightarrow> distinct (ord is)))"

lemma enumerates_set: "enumerates ord \<Longrightarrow> set (ord is) = set is"
  by (simp add: enumerates_def)

lemma enumerates_distinct: "enumerates ord \<Longrightarrow> distinct is \<Longrightarrow> distinct (ord is)"
  by (simp add: enumerates_def)

lemma set_set_meet [simp]: "set (set_meet xs ys) = set xs \<inter> set ys"
  by (auto simp: set_meet_def)

lemma distinct_set_meet [simp]: "distinct xs \<Longrightarrow> distinct (set_meet xs ys)"
  by (simp add: set_meet_def)

lemma get_by_namespace_iff:
  "index_ok ix \<Longrightarrow> i \<in> set (get_by_namespace ns ix) \<longleftrightarrow>
     (\<exists>r. memory_map ix i = Some r \<and> mr_namespace r = ns)"
  by (auto simp: index_ok_def inverted_def get_by_namespace_def memory_map_def)

lemma get_by_owner_iff:
  "index_ok ix \<Longrightarrow> i \<in> set (get_by_owner w ix) \<longleftrightarrow>
     (\<exists>r. memory_map ix i = Some r \<and> mr_owner r = w)"
  by (auto simp: index_ok_def inverted_def get_by_owner_def memory_map_def)

lemma distinct_get_by_namespace: "index_ok ix \<Longrightarrow> distinct (get_by_namespace ns ix)"
  by (simp add: index_ok_def inverted_def get_by_namespace_def)

lemma distinct_list_ids: "index_ok ix \<Longrightarrow> distinct (list_ids ns w ix)"
  by (simp add: list_ids_def Let_def distinct_all_ids split: option.splits)

lemma list_ids_iff:
  "index_ok ix \<Longrightarrow> i \<in> set (list_ids ns w ix) \<longleftrightarrow>
     (\<exists>r. memory_map ix i = Some r \<and> (\<forall>n. ns = Some n \<longrightarrow> mr_namespace r = n) \<and>
          (\<forall>u. w = Some u \<longrightarrow> mr_owner r = u))"
  by (auto simp: list_ids_def Let_def all_ids_iff get_by_namespace_iff get_by_owner_iff
      split: option.splits)

text \<open>The records behind distinct stored identifiers are distinct.\<close>

lemma distinct_records:
  assumes "index_ok ix" "distinct is" "\<And>i. i \<in> set is \<Longrightarrow> memory_map ix i \<noteq> None"
  shows "distinct (map (\<lambda>i. the (memory_map ix i)) is)"
    and "map mr_id (map (\<lambda>i. the (memory_map ix i)) is) = is"
proof -
  show *: "map mr_id (map (\<lambda>i. the (memory_map ix i)) is) = is"
    using assms(3) memory_map_id[OF assms(1)] by (fastforce intro!: map_idI)
  show "distinct (map (\<lambda>i. the (memory_map ix i)) is)"
    using assms(2) * by (metis distinct_map)
qed

lemma store_list_exact:
  assumes "index_ok ix" "enumerates ord"
  obtains rs where "store_list ord ns w ix = Inr rs" "distinct (map mr_id rs)"
    and "set rs = {r. memory_map ix (mr_id r) = Some r \<and> (\<forall>n. ns = Some n \<longrightarrow> mr_namespace r = n) \<and>
          (\<forall>u. w = Some u \<longrightarrow> mr_owner r = u)}"
proof -
  let ?ids = "ord (list_ids ns w ix)"
  let ?rs = "map (\<lambda>i. the (memory_map ix i)) ?ids"
  have ids: "i \<in> set ?ids \<longleftrightarrow> (\<exists>r. memory_map ix i = Some r \<and>
      (\<forall>n. ns = Some n \<longrightarrow> mr_namespace r = n) \<and> (\<forall>u. w = Some u \<longrightarrow> mr_owner r = u))" for i
    by (simp add: enumerates_set[OF assms(2)] list_ids_iff[OF assms(1)])
  then have some: "i \<in> set ?ids \<Longrightarrow> memory_map ix i \<noteq> None" for i by auto
  have d: "distinct ?ids" by (simp add: assms distinct_list_ids enumerates_distinct)
  have "set ?rs = {r. memory_map ix (mr_id r) = Some r \<and>
      (\<forall>n. ns = Some n \<longrightarrow> mr_namespace r = n) \<and> (\<forall>u. w = Some u \<longrightarrow> mr_owner r = u)}"
  proof (intro set_eqI iffI)
    fix r
    assume "r \<in> set ?rs"
    then obtain i where i: "i \<in> set ?ids" "r = the (memory_map ix i)" by auto
    with ids[of i] memory_map_id[OF assms(1), of i] show "r \<in> {r. memory_map ix (mr_id r) = Some r \<and>
      (\<forall>n. ns = Some n \<longrightarrow> mr_namespace r = n) \<and> (\<forall>u. w = Some u \<longrightarrow> mr_owner r = u)}"
      by auto
  next
    fix r
    assume "r \<in> {r. memory_map ix (mr_id r) = Some r \<and>
      (\<forall>n. ns = Some n \<longrightarrow> mr_namespace r = n) \<and> (\<forall>u. w = Some u \<longrightarrow> mr_owner r = u)}"
    with ids[of "mr_id r"] show "r \<in> set ?rs"
      by (auto intro!: image_eqI[where x = "mr_id r"] simp del: set_map simp: list.set_map)
  qed
  moreover have "store_list ord ns w ix = Inr ?rs"
    using some by (simp add: store_list_def fetch_all_ok)
  moreover have "distinct (map mr_id ?rs)"
    using distinct_records(2)[OF assms(1) d some] d by metis
  ultimately show ?thesis using that by blast
qed

text \<open>
  Listing is exact: with consistent indexes \<open>list(namespace, owner_id)\<close> never raises and
  returns exactly the stored records with that namespace and owner (each once), whatever order
  the identifier sets are iterated in.
\<close>

theorem list_exact:
  assumes "index_ok ix" "enumerates ord"
  shows "\<exists>rs. store_list ord ns w ix = Inr rs \<and> distinct (map mr_id rs) \<and>
    set rs = {r. memory_map ix (mr_id r) = Some r \<and> (\<forall>n. ns = Some n \<longrightarrow> mr_namespace r = n) \<and>
      (\<forall>u. w = Some u \<longrightarrow> mr_owner r = u)}"
  by (rule store_list_exact[OF assms, of ns w]) blast

lemma enumerates_rev: "enumerates rev"
  by (simp add: enumerates_def)

theorem list_exact_witness:
  "\<exists>rs. store_list rev (Some ''n'') None
      (fold index_add [example_record ''x'' ''n'' 1, example_record ''y'' ''m'' 2] new_index) = Inr rs \<and>
    distinct (map mr_id rs) \<and> set rs = {r. memory_map
      (fold index_add [example_record ''x'' ''n'' 1, example_record ''y'' ''m'' 2] new_index) (mr_id r) =
        Some r \<and> (\<forall>n. Some ''n'' = Some n \<longrightarrow> mr_namespace r = n) \<and>
      (\<forall>u. None = Some u \<longrightarrow> mr_owner r = u)}"
  by (rule list_exact[OF example_index_ok enumerates_rev])

definition in_scope :: "search_query \<Rightarrow> memory_record \<Rightarrow> bool" where
  "in_scope q r \<longleftrightarrow> (case sq_namespace q of None \<Rightarrow> True | Some n \<Rightarrow> n = [] \<or> mr_namespace r = n)"

text \<open>A hit is a stored record of the namespace with a positive score, or any when there is no text.\<close>

definition matches :: "(pyval \<Rightarrow> string) \<Rightarrow> search_query \<Rightarrow> memory_index \<Rightarrow> memory_record \<Rightarrow> bool" where
  "matches txt q ix r \<longleftrightarrow> memory_map ix (mr_id r) = Some r \<and>
     in_scope q r \<and>
     (score_record txt r q > 0 \<or> sq_text q = [])"

lemma candidates_iff:
  "index_ok ix \<Longrightarrow> i \<in> set (candidates q ix) \<longleftrightarrow> (\<exists>r. memory_map ix i = Some r \<and>
     in_scope q r)"
  by (auto simp: candidates_def in_scope_def all_ids_iff get_by_namespace_iff split: option.splits)

lemma distinct_candidates: "index_ok ix \<Longrightarrow> distinct (candidates q ix)"
  by (simp add: candidates_def distinct_all_ids distinct_get_by_namespace split: option.splits)

lemma hits_records:
  "(\<And>i. i \<in> set is \<Longrightarrow> memory_map ix i \<noteq> None) \<Longrightarrow>
   hits txt q ix is = map (\<lambda>r. result_of (score_record txt r q) r)
     (filter (\<lambda>r. score_record txt r q > 0 \<or> sq_text q = []) (map (\<lambda>i. the (memory_map ix i)) is))"
proof (induction "is")
  case Nil
  then show ?case by (simp add: hits_def)
next
  case (Cons i "is")
  then obtain r where "memory_map ix i = Some r" by fastforce
  with Cons show ?case by (simp add: hits_def memory_map_def Let_def result_of_def)
qed

lemma set_hits:
  assumes "index_ok ix" "enumerates ord"
  shows "set (hits txt q ix (ord (candidates q ix))) =
      (\<lambda>r. result_of (score_record txt r q) r) ` {r. matches txt q ix r}"
    and "distinct (hits txt q ix (ord (candidates q ix)))"
proof -
  let ?ids = "ord (candidates q ix)"
  let ?rs = "map (\<lambda>i. the (memory_map ix i)) ?ids"
  have some: "i \<in> set ?ids \<Longrightarrow> memory_map ix i \<noteq> None" for i
    by (auto simp: enumerates_set[OF assms(2)] candidates_iff[OF assms(1)])
  have "r \<in> set ?rs \<longleftrightarrow> memory_map ix (mr_id r) = Some r \<and>
      in_scope q r" for r
  proof
    assume "r \<in> set ?rs"
    then obtain i where "i \<in> set (candidates q ix)" "r = the (memory_map ix i)"
      by (auto simp: enumerates_set[OF assms(2)])
    then show "memory_map ix (mr_id r) = Some r \<and> in_scope q r"
      using memory_map_id[OF assms(1), of i] candidates_iff[OF assms(1), of i q] by auto
  next
    assume "memory_map ix (mr_id r) = Some r \<and>
      in_scope q r"
    then show "r \<in> set ?rs"
      by (auto simp: enumerates_set[OF assms(2)] candidates_iff[OF assms(1)]
          intro!: image_eqI[where x = "mr_id r"])
  qed
  note rs = this
  have h: "hits txt q ix ?ids = map (\<lambda>r. result_of (score_record txt r q) r)
     (filter (\<lambda>r. score_record txt r q > 0 \<or> sq_text q = []) ?rs)"
    by (rule hits_records) (rule some)
  have "set (filter (\<lambda>r. score_record txt r q > 0 \<or> sq_text q = []) ?rs) = {r. matches txt q ix r}"
    unfolding set_filter rs by (auto simp: matches_def)
  then show "set (hits txt q ix ?ids) = (\<lambda>r. result_of (score_record txt r q) r) ` {r. matches txt q ix r}"
    unfolding h list.set_map(1) by (rule arg_cong)
  have "distinct ?ids" by (simp add: assms distinct_candidates enumerates_distinct)
  from distinct_records(1)[OF assms(1) this some] show "distinct (hits txt q ix ?ids)"
    unfolding h by (auto simp: distinct_map inj_on_def result_of_def simp del: map_map)
qed


lemma sorted_key_split:
  fixes k :: "'a \<Rightarrow> 'b::linorder"
  assumes "x \<in> set (take n (sort_key k xs))" "y \<in> set (drop n (sort_key k xs))"
  shows "k x \<le> k y"
proof -
  have "sorted (map k (take n (sort_key k xs) @ drop n (sort_key k xs)))"
    by (simp del: append_take_drop_id add: append_take_drop_id[of n "sort_key k xs"])
  then have "sorted (map k (take n (sort_key k xs)) @ map k (drop n (sort_key k xs)))"
    by (simp only: map_append)
  with assms show ?thesis by (fastforce simp: sorted_append)
qed

text \<open>
  C36. Search is sound, complete and ranked. With consistent indexes and a positive limit the
  search never raises; it returns at most the limit, each matching record at most once with its
  score, best score first and the older update first among equals; a match is left out only when
  the limit is full, and then it ranks no better than any result.
\<close>

theorem search_exact:
  assumes "index_ok ix" "enumerates ord" "sq_limit q > 0"
  shows "\<exists>rs. search_memory txt ord q ix = Inr rs \<and> distinct rs \<and> sorted (map rank rs) \<and>
    int (length rs) \<le> sq_limit q \<and>
    (\<forall>x \<in> set rs. matches txt q ix (sr_record x) \<and>
       x = result_of (score_record txt (sr_record x) q) (sr_record x)) \<and>
    (\<forall>r. matches txt q ix r \<longrightarrow> result_of (score_record txt r q) r \<in> set rs \<or>
       (int (length rs) = sq_limit q \<and>
        (\<forall>x \<in> set rs. rank x \<le> rank (result_of (score_record txt r q) r))))"
proof -
  let ?hs = "sort_key rank (hits txt q ix (ord (candidates q ix)))"
  let ?n = "nat (sq_limit q)"
  let ?rs = "take ?n ?hs"
  note hs = set_hits[OF assms(1,2), of "txt" q]
  have set: "set ?hs = (\<lambda>r. result_of (score_record txt r q) r) ` {r. matches txt q ix r}"
    using hs(1) by simp
  have "distinct ?rs" using hs(2) by (simp add: distinct_sort)
  moreover have "sorted (map rank ?rs)" by (simp add: take_map[symmetric] sorted_wrt_take)
  moreover have "int (length ?rs) \<le> sq_limit q" using assms(3) by simp
  moreover have "matches txt q ix (sr_record x) \<and>
       x = result_of (score_record txt (sr_record x) q) (sr_record x)" if "x \<in> set ?rs" for x
    using that set in_set_takeD[of x ?n ?hs] by (auto simp: result_of_def)
  moreover have "result_of (score_record txt r q) r \<in> set ?rs \<or>
       (int (length ?rs) = sq_limit q \<and>
        (\<forall>x \<in> set ?rs. rank x \<le> rank (result_of (score_record txt r q) r)))"
    if "matches txt q ix r" for r
  proof (cases "result_of (score_record txt r q) r \<in> set ?rs")
    case False
    have "result_of (score_record txt r q) r \<in> set (?rs @ drop ?n ?hs)"
      using that set by (simp only: append_take_drop_id) blast
    with False have d: "result_of (score_record txt r q) r \<in> set (drop ?n ?hs)"
      unfolding set_append by blast
    then have "?n < length ?hs" by (metis drop_all empty_iff leI list.set(1))
    then have "int (length ?rs) = sq_limit q" using assms(3) by simp
    with sorted_key_split[OF _ d] show ?thesis by blast
  qed simp
  ultimately show ?thesis using assms(3) by (intro exI[of _ ?rs]) (simp add: search_memory_def)
qed

theorem search_exact_witness:
  "\<exists>rs. search_memory (\<lambda>v. []) rev \<lparr>sq_text = ''note'', sq_tags = [], sq_namespace = None, sq_limit = 1\<rparr>
      (fold index_add [example_record ''x'' ''n'' 1, example_record ''y'' ''m'' 2] new_index) = Inr rs \<and>
    int (length rs) \<le> 1"
  using search_exact[OF example_index_ok enumerates_rev,
    of "\<lparr>sq_text = ''note'', sq_tags = [], sq_namespace = None, sq_limit = 1\<rparr>" "\<lambda>v. []"]
  by (simp del: fold_simps) blast


section \<open>Renaming onto another record\<close>

text \<open>
  Renaming onto an identifier in use corrupts the indexes: updating record \<open>i\<close> with the
  identifier \<open>j\<close> of another record raises nothing, silently replaces that record, and leaves the
  namespace index claiming that \<open>j\<close> is in the namespace of the record that is gone; if the
  namespaces differ the index is no longer consistent.
\<close>

theorem rename_leaves_stale_index:
  assumes "index_ok (ms_index s)" and "memory_map (ms_index s) i = Some ri"
    and "memory_map (ms_index s) j = Some rj" and "i \<noteq> j"
    and "mr_namespace ri \<noteq> mr_namespace rj"
  shows "\<exists>u s'. update_memory txt now (Some quiet) i [FId j] s = (Inr u, s') \<and>
    memory_map (ms_index s') = (memory_map (ms_index s))(i := None, j \<mapsto> ri\<lparr>mr_id := j, mr_updated := now\<rparr>) \<and>
    j \<in> set (get_by_namespace (mr_namespace rj) (ms_index s')) \<and> \<not> index_ok (ms_index s')"
proof -
  let ?u = "ri\<lparr>mr_id := j, mr_updated := now\<rparr>"
  let ?ix = "index_update ri ?u (ms_index s)"
  have ids: "mr_id ri = i" "record_ok ri" "mr_id rj = j" "record_ok rj"
    using memory_map_id[OF assms(1)] assms(2,3) by auto
  then have "j \<noteq> []" by (auto simp: record_ok_def)
  with ids have u: "with_update txt now [FId j] ri = Inr ?u"
    by (simp add: with_update_ok make_record_def record_ok_def raw_of_def map_result_def)
  have j: "j \<in> set (get_by_namespace (mr_namespace rj) (ms_index s))"
    using assms(3) get_by_namespace_iff[OF assms(1)] by auto
  have "get_by_namespace (mr_namespace rj) ?ix = get_by_namespace (mr_namespace rj) (ms_index s)"
    using assms(2,5) ids(1)
    by (simp add: get_by_namespace_def index_update_def index_add_def index_remove_def
        memory_map_def bucket_bucket_add bucket_bucket_discard)
  with j have st: "j \<in> set (get_by_namespace (mr_namespace rj) ?ix)" by simp
  have "memory_map ?ix j = Some ?u" by (simp add: memory_map_update)
  with st assms(5) have "\<not> index_ok ?ix"
    using get_by_namespace_iff[of ?ix j "mr_namespace rj"] by auto
  moreover have "update_memory txt now (Some quiet) i [FId j] s =
      (Inr ?u, s\<lparr>ms_index := ?ix, w_trace := w_trace s @
         [EvMemory (MemoryUpdated j (mr_owner ri) (mr_namespace ri))]\<rparr>)"
    using assms(2) u by (simp add: update_memory_def store_update_def bindA_def seqA_def liftA_def
        ret_def on_index_def store_eqs)
  ultimately show ?thesis
    using st ids by (simp add: memory_map_update)
qed

theorem rename_leaves_stale_index_witness:
  "\<exists>u s'. update_memory (\<lambda>v. []) 7 (Some quiet) ''x'' [FId ''y'']
      (example_memsys [example_record ''x'' ''n'' 1, example_record ''y'' ''m'' 2]) = (Inr u, s') \<and>
    \<not> index_ok (ms_index s')"
proof -
  have 1: "index_ok (ms_index (example_memsys
      [example_record ''x'' ''n'' 1, example_record ''y'' ''m'' 2]))"
    using example_index_ok by (simp add: example_memsys_def)
  have 2: "memory_map (ms_index (example_memsys
      [example_record ''x'' ''n'' 1, example_record ''y'' ''m'' 2])) =
      [''x'' \<mapsto> example_record ''x'' ''n'' 1, ''y'' \<mapsto> example_record ''y'' ''m'' 2]"
    by (simp add: example_memsys_def memory_map_add)
      (simp add: example_record_def memory_map_def new_index_def)
  show ?thesis
    using rename_leaves_stale_index[OF 1, of "''x''" "example_record ''x'' ''n'' 1" "''y''"
        "example_record ''y'' ''m'' 2" "\<lambda>v. []" 7]
    by (simp add: 2) (auto simp: example_record_def)
qed

section \<open>Retention\<close>

text \<open>
  The interface of a retention policy (\<open>select_candidates\<close>), and what clean-up makes of it: the
  candidates come from the records it was shown, none twice.
\<close>

locale retention =
  fixes select :: "memory_record list \<Rightarrow> string list"
  assumes select_subset: "set (select rs) \<subseteq> mr_id ` set rs"
    and select_distinct: "distinct (map mr_id rs) \<Longrightarrow> distinct (select rs)"
begin

lemma select_Nil: "select [] = []"
  using select_subset[of "[]"] by simp

lemma select_stored:
  "(\<And>r. r \<in> set rs \<Longrightarrow> m (mr_id r) = Some r) \<Longrightarrow> i \<in> set (select rs) \<Longrightarrow> m i \<noteq> None"
  using select_subset[of rs] by auto

lemma select_length: "distinct (map mr_id rs) \<Longrightarrow> length (select rs) \<le> length rs"
  using card_mono[OF _ select_subset[of rs]] card_image_le[of "set rs" mr_id]
    distinct_card[OF select_distinct] distinct_card[of "map mr_id rs"] by auto

end

interpretation policy: retention "select_candidates now p" for now p
proof
  fix rs
  show "set (select_candidates now p rs) \<subseteq> mr_id ` set rs"
    by (cases p) (auto simp: Let_def dest: in_set_takeD)
  assume d: "distinct (map mr_id rs)"
  show "distinct (select_candidates now p rs)"
  proof (cases p)
    case (LeastRecentlyUsed n)
    have "distinct (map mr_id (sort_key mr_accessed rs))"
      using d by (simp add: distinct_map distinct_sort)
    then show ?thesis by (simp add: LeastRecentlyUsed Let_def take_map[symmetric])
  qed (use d in \<open>auto simp: distinct_map_filter\<close>)
qed

lemma forget_all_eq:
  assumes "distinct is" "\<And>i. i \<in> set is \<Longrightarrow> memory_map (ms_index s) i \<noteq> None"
  shows "\<exists>es. forget_all (Some quiet) is s =
    (Inr (), s\<lparr>ms_index := fold index_remove is (ms_index s), w_trace := w_trace s @ es\<rparr>)"
  using assms
proof (induction "is" arbitrary: s)
  case Nil
  then show ?case by (intro exI[of _ "[]"]) (simp add: ret_def)
next
  case (Cons i "is")
  then obtain r where r: "memory_map (ms_index s) i = Some r" by fastforce
  let ?s = "s\<lparr>ms_index := index_remove i (ms_index s),
     w_trace := w_trace s @ [EvMemory (MemoryForgotten i (mr_owner r) (mr_namespace r))]\<rparr>"
  have "\<And>j. j \<in> set is \<Longrightarrow> memory_map (ms_index ?s) j \<noteq> None"
    using Cons.prems by (auto simp: memory_map_remove)
  with Cons.prems(1) obtain es where "forget_all (Some quiet) is ?s =
      (Inr (), ?s\<lparr>ms_index := fold index_remove is (ms_index ?s), w_trace := w_trace ?s @ es\<rparr>)"
    using Cons.IH[of ?s] by (auto simp del: quiet_apply)
  with r show ?case
    by (intro exI[of _ "EvMemory (MemoryForgotten i (mr_owner r) (mr_namespace r)) # es"])
      (simp add: seqA_def bindA_def forget_eq del: quiet_apply)
qed

lemma cleanup_eq:
  assumes "index_ok (ms_index s)" "store_list ord None None (ms_index s) = Inr rs"
    and "distinct (map mr_id rs)" "\<And>r. r \<in> set rs \<Longrightarrow> memory_map (ms_index s) (mr_id r) = Some r"
  shows "\<exists>s'. cleanup now p ord (Some quiet) s = (Inr (), s') \<and> index_ok (ms_index s') \<and>
    memory_map (ms_index s') = memory_map (ms_index s) |` (- set (select_candidates now p rs))"
proof -
  let ?is = "select_candidates now p rs"
  have "\<And>i. i \<in> set ?is \<Longrightarrow> memory_map (ms_index s) i \<noteq> None"
    using policy.select_stored[of rs "memory_map (ms_index s)"] assms(4) by blast
  from forget_all_eq[OF policy.select_distinct[OF assms(3)] this]
  obtain es where "forget_all (Some quiet) ?is s =
      (Inr (), s\<lparr>ms_index := fold index_remove ?is (ms_index s), w_trace := w_trace s @ es\<rparr>)"
    by blast
  then show ?thesis
    using fold_index_remove[OF assms(1), of ?is]
    by (simp add: cleanup_def bindA_def liftA_def map_result_def assms(2) del: quiet_apply)
qed

text \<open>What is left of the stored records, in terms of the records the policy saw.\<close>

lemma selected_filter:
  assumes "index_ok ix" "set rs = {r. memory_map ix (mr_id r) = Some r}" "memory_map ix i = Some r"
  shows "i \<in> set (map mr_id (filter P rs)) \<longleftrightarrow> P r"
proof -
  have "mr_id r = i" using memory_map_id[OF assms(1,3)] by simp
  moreover have "r \<in> set rs"
    unfolding assms(2) using \<open>mr_id r = i\<close> assms(3) by simp
  moreover have "x = r" if "x \<in> set rs" "mr_id x = i" for x
    using that assms(3) unfolding assms(2) by simp
  moreover have "i \<in> set (map mr_id (filter P rs)) \<longleftrightarrow> (\<exists>x \<in> set rs. mr_id x = i \<and> P x)"
    by auto
  ultimately show ?thesis using \<open>mr_id r = i\<close> by blast
qed

lemma length_all_ids: "index_ok ix \<Longrightarrow> length (all_ids ix) = card (dom (memory_map ix))"
proof -
  assume ok: "index_ok ix"
  have "dom (memory_map ix) = set (all_ids ix)" by (auto simp: all_ids_iff)
  then show ?thesis using distinct_card[OF distinct_all_ids[OF ok]] by simp
qed

lemma capacity_count:
  assumes "index_ok ix" "set rs = {r. memory_map ix (mr_id r) = Some r}" "distinct (map mr_id rs)"
    and "index_ok ix'" "memory_map ix' = memory_map ix |` (- set (select_candidates now p rs))"
  shows "length (all_ids ix') + length (select_candidates now p rs) = length (all_ids ix)"
    and "length rs = length (all_ids ix)"
proof -
  let ?is = "select_candidates now p rs"
  have dom: "dom (memory_map ix) = mr_id ` set rs"
  proof (intro set_eqI iffI)
    fix i
    assume "i \<in> dom (memory_map ix)"
    then obtain r where r: "memory_map ix i = Some r" by blast
    then have "mr_id r = i" using memory_map_id[OF assms(1)] by simp
    with r assms(2) show "i \<in> mr_id ` set rs" by (intro image_eqI[of _ _ r]) simp_all
  next
    fix i
    assume "i \<in> mr_id ` set rs"
    with assms(2) show "i \<in> dom (memory_map ix)" by auto
  qed
  have fin: "finite (dom (memory_map ix))" by (simp add: dom)
  have sub: "set ?is \<subseteq> dom (memory_map ix)" using policy.select_subset dom by blast
  have "dom (memory_map ix') = dom (memory_map ix) - set ?is"
    by (auto simp: assms(5))
  then have "card (dom (memory_map ix')) = card (dom (memory_map ix)) - card (set ?is)"
    using sub by (simp add: card_Diff_subset)
  moreover have "card (set ?is) \<le> card (dom (memory_map ix))" using sub fin by (simp add: card_mono)
  moreover have "card (set ?is) = length ?is"
    by (rule distinct_card[OF policy.select_distinct[OF assms(3)]])
  ultimately show "length (all_ids ix') + length ?is = length (all_ids ix)"
    using assms(1,4) by (simp add: length_all_ids)
  show "length rs = length (all_ids ix)"
    using distinct_card[OF assms(3)] dom assms(1) by (simp add: length_all_ids)
qed

lemma lru_order:
  assumes "r \<in> set rs" "r' \<in> set rs" "distinct (map mr_id rs)"
    and "mr_id r \<in> set (select_candidates now (LeastRecentlyUsed n) rs)"
    and "mr_id r' \<notin> set (select_candidates now (LeastRecentlyUsed n) rs)"
  shows "mr_accessed r \<le> mr_accessed r'"
proof -
  let ?k = "nat (int (length rs) - n)" and ?ss = "sort_key mr_accessed rs"
  have sel: "set (select_candidates now (LeastRecentlyUsed n) rs) = mr_id ` set (take ?k ?ss)"
    using assms(4) by (auto simp: Let_def split: if_splits)
  then obtain x where x: "x \<in> set (take ?k ?ss)" "mr_id x = mr_id r" using assms(4) by auto
  moreover have "x \<in> set rs" using in_set_takeD[OF x(1)] by simp
  ultimately have "r \<in> set (take ?k ?ss)"
    using assms(1,3) by (metis distinct_map inj_onD)
  moreover have "r' \<in> set (take ?k ?ss @ drop ?k ?ss)"
    using assms(2) unfolding append_take_drop_id by simp
  then have "r' \<in> set (drop ?k ?ss)" using assms(5) sel unfolding set_append by blast
  ultimately show ?thesis by (rule sorted_key_split)
qed

text \<open>What every clean-up does, and the part of the statement below that depends on the policy.\<close>

definition cleaned ::
  "int \<Rightarrow> retention_policy \<Rightarrow> memory_record list \<Rightarrow> memory_index \<Rightarrow> memory_index \<Rightarrow> bool" where
  "cleaned now p rs ix ix' \<longleftrightarrow> index_ok ix \<and> index_ok ix' \<and> distinct (map mr_id rs) \<and>
     set rs = {r. memory_map ix (mr_id r) = Some r} \<and>
     memory_map ix' = memory_map ix |` (- set (select_candidates now p rs))"

lemma cleanup_cleans:
  assumes "index_ok (ms_index s)" "enumerates ord"
  shows "\<exists>s' rs. cleanup now p ord (Some quiet) s = (Inr (), s') \<and> cleaned now p rs (ms_index s) (ms_index s')"
proof -
  obtain rs where rs: "store_list ord None None (ms_index s) = Inr rs" "distinct (map mr_id rs)"
    and set: "set rs = {r. memory_map (ms_index s) (mr_id r) = Some r}"
    by (rule store_list_exact[OF assms, of None None]) simp
  from cleanup_eq[OF assms(1) rs, of now p] set assms(1) rs(2) show ?thesis
    unfolding cleaned_def by blast
qed

lemma cleaned_gone:
  "cleaned now p rs ix ix' \<Longrightarrow> memory_map ix i = Some r \<Longrightarrow>
   memory_map ix' i = None \<longleftrightarrow> i \<in> set (select_candidates now p rs)"
  by (simp add: cleaned_def restrict_map_def)

lemma cleaned_sub: "cleaned now p rs ix ix' \<Longrightarrow> memory_map ix' i = Some r \<Longrightarrow> memory_map ix i = Some r"
  by (auto simp: cleaned_def restrict_map_def split: if_splits)

text \<open>The two policies that test each record on its own.\<close>

lemma cleaned_filter:
  assumes "cleaned now p rs ix ix'" "select_candidates now p rs = map mr_id (filter P rs)"
    and "memory_map ix i = Some r"
  shows "memory_map ix' i = None \<longleftrightarrow> P r"
proof -
  have ix: "index_ok ix" "set rs = {r. memory_map ix (mr_id r) = Some r}"
    using assms(1) unfolding cleaned_def by blast+
  from cleaned_gone[OF assms(1,3)] selected_filter[OF ix assms(3), of P] assms(2)
  show ?thesis by (simp only:)
qed

lemma cleaned_lru:
  assumes c: "cleaned now (LeastRecentlyUsed n) rs ix ix'"
  shows "n \<ge> 0 \<Longrightarrow> int (length (all_ids ix')) = min n (int (length (all_ids ix)))"
    and "memory_map ix i = Some r \<Longrightarrow> memory_map ix' i = None \<Longrightarrow> memory_map ix' j = Some r' \<Longrightarrow>
      mr_accessed r \<le> mr_accessed r'"
proof -
  have ix: "index_ok ix" "set rs = {r. memory_map ix (mr_id r) = Some r}" "distinct (map mr_id rs)"
    "index_ok ix'" "memory_map ix' = memory_map ix |` (- set (select_candidates now (LeastRecentlyUsed n) rs))"
    using c unfolding cleaned_def by blast+
  show "n \<ge> 0 \<Longrightarrow> int (length (all_ids ix')) = min n (int (length (all_ids ix)))"
    using capacity_count[OF ix] by (auto simp: Let_def split: if_splits)
  assume that: "memory_map ix i = Some r" "memory_map ix' i = None" "memory_map ix' j = Some r'"
  note sub = cleaned_sub[OF c that(3)]
  have ids: "mr_id r = i" "mr_id r' = j" using that(1) sub memory_map_id[OF ix(1)] by auto
  show "mr_accessed r \<le> mr_accessed r'"
  proof (rule lru_order[OF _ _ ix(3)])
    show "mr_id r \<in> set (select_candidates now (LeastRecentlyUsed n) rs)"
      "mr_id r' \<notin> set (select_candidates now (LeastRecentlyUsed n) rs)"
      using cleaned_gone[OF c that(1)] cleaned_gone[OF c sub] that(2,3) ids
      by (simp_all del: select_candidates.simps)
    show "r \<in> set rs" "r' \<in> set rs" unfolding ix(2) using ids that(1) sub by simp_all
  qed
qed

text \<open>
  C38. Clean-up forgets what the policy says and nothing else. It never raises on a quiet bus and
  keeps the indexes consistent; with the time-to-live policy exactly the records not updated
  within the window are gone, with the importance policy exactly those below the threshold, and
  with the capacity policy the number of records is brought down to the capacity and no
  surviving record was accessed earlier than a forgotten one.
\<close>

theorem cleanup_exact:
  assumes "index_ok (ms_index s)" "enumerates ord"
  shows "\<exists>s'. cleanup now p ord (Some quiet) s = (Inr (), s') \<and> index_ok (ms_index s') \<and>
    (\<forall>i r. memory_map (ms_index s') i = Some r \<longrightarrow> memory_map (ms_index s) i = Some r) \<and>
    (case p of
       NeverForget \<Rightarrow> memory_map (ms_index s') = memory_map (ms_index s)
     | TTL n \<Rightarrow> (\<forall>i r. memory_map (ms_index s) i = Some r \<longrightarrow>
         (memory_map (ms_index s') i = None) = (now - mr_updated r > 1000000 * n))
     | ImportanceThreshold t \<Rightarrow> (\<forall>i r. memory_map (ms_index s) i = Some r \<longrightarrow>
         (memory_map (ms_index s') i = None) = (mr_importance r < t))
     | LeastRecentlyUsed n \<Rightarrow>
         (n \<ge> 0 \<longrightarrow> int (length (all_ids (ms_index s'))) = min n (int (length (all_ids (ms_index s))))) \<and>
         (\<forall>i r j r'. memory_map (ms_index s) i = Some r \<and> memory_map (ms_index s') i = None \<and>
            memory_map (ms_index s') j = Some r' \<longrightarrow> mr_accessed r \<le> mr_accessed r'))"
proof -
  obtain s' rs where s': "cleanup now p ord (Some quiet) s = (Inr (), s')"
    and c: "cleaned now p rs (ms_index s) (ms_index s')"
    using cleanup_cleans[OF assms] by blast
  have base: "index_ok (ms_index s')" using c unfolding cleaned_def by blast
  note base = s' base cleaned_sub[OF c]
  show ?thesis
  proof (cases p)
    case NeverForget
    with c have "memory_map (ms_index s') = memory_map (ms_index s)"
      by (simp add: cleaned_def restrict_map_def)
    with NeverForget base show ?thesis by (intro exI[of _ s']) simp
  next
    case (TTL n)
    with base cleaned_filter[OF c, of "\<lambda>r. now - mr_updated r > 1000000 * n"] show ?thesis
      by (intro exI[of _ s']) simp
  next
    case (LeastRecentlyUsed n)
    with base cleaned_lru[OF c[unfolded LeastRecentlyUsed]] show ?thesis
      by (intro exI[of _ s']) (simp del: length_map, blast)
  next
    case (ImportanceThreshold t)
    with base cleaned_filter[OF c, of "\<lambda>r. mr_importance r < t"] show ?thesis
      by (intro exI[of _ s']) simp
  qed
qed

theorem cleanup_exact_witness:
  "\<exists>s'. cleanup 9 (LeastRecentlyUsed 1) rev (Some quiet)
      (example_memsys [example_record ''x'' ''n'' 1, example_record ''y'' ''m'' 2]) = (Inr (), s') \<and>
    int (length (all_ids (ms_index s'))) = 1"
proof -
  have 1: "index_ok (ms_index (example_memsys
      [example_record ''x'' ''n'' 1, example_record ''y'' ''m'' 2]))"
    using example_index_ok by (simp add: example_memsys_def)
  have "length (all_ids (ms_index (example_memsys
      [example_record ''x'' ''n'' 1, example_record ''y'' ''m'' 2]))) = 2"
    by (simp add: example_memsys_def all_ids_def index_add_def new_index_def example_record_def)
  with cleanup_exact[OF 1 enumerates_rev, of 9 "LeastRecentlyUsed 1"] show ?thesis
    by auto
qed

end
