(* ===== verification/Planner.thy ===== *)
theory Planner
  imports Memory Graph
begin

text \<open>
  The planner (core/planner): goals and tasks and their managers, the execution graph with its
  cycle check and topological sort, the rule-based planner and the manager's \<open>build_plan\<close>, which
  stores the plan in the memory engine. The interpreter's recursion limit is not modelled: the
  cycle check is the recursive search of the source without a bound on its depth.
\<close>

section \<open>Models\<close>

datatype goal_state = GS_NEW | GS_PLANNING | GS_READY | GS_RUNNING | GS_COMPLETED | GS_FAILED
  | GS_CANCELLED

datatype task_state = TS_PENDING | TS_READY | TS_RUNNING | TS_WAITING | TS_SUCCESS | TS_FAILED
  | TS_SKIPPED

datatype priority = P_LOW | P_NORMAL | P_HIGH | P_CRITICAL

fun goal_state_value :: "goal_state \<Rightarrow> string" where
  "goal_state_value GS_NEW = ''NEW''"
| "goal_state_value GS_PLANNING = ''PLANNING''"
| "goal_state_value GS_READY = ''READY''"
| "goal_state_value GS_RUNNING = ''RUNNING''"
| "goal_state_value GS_COMPLETED = ''COMPLETED''"
| "goal_state_value GS_FAILED = ''FAILED''"
| "goal_state_value GS_CANCELLED = ''CANCELLED''"

fun priority_value :: "priority \<Rightarrow> int" where
  "priority_value P_LOW = 1"
| "priority_value P_NORMAL = 2"
| "priority_value P_HIGH = 3"
| "priority_value P_CRITICAL = 4"

record goal =
  g_id :: string
  g_title :: string
  g_description :: string
  g_priority :: priority
  g_state :: goal_state
  g_metadata :: args
  g_created :: int
  g_updated :: int

record task =
  t_id :: string
  t_goal :: string
  t_name :: string
  t_description :: string
  t_deps :: "string list"
  t_priority :: priority
  t_state :: task_state
  t_retries :: int
  t_metadata :: args
  t_created :: int
  t_updated :: int

definition goal_error :: "string \<Rightarrow> pyexn" where
  "goal_error m = Exn (InPlanner GoalError) m"

definition task_error :: "string \<Rightarrow> pyexn" where
  "task_error m = Exn (InPlanner TaskError) m"

text \<open>\<open>__post_init__\<close> of the two classes.\<close>

definition make_goal :: "goal \<Rightarrow> pyexn + goal" where
  "make_goal g = (if g_id g = [] then Inl (goal_error ''Goal.id must not be empty.'')
     else if g_title g = [] then Inl (goal_error ''Goal.title must not be empty.'')
     else Inr g)"

definition make_task :: "task \<Rightarrow> pyexn + task" where
  "make_task t = (if t_id t = [] then Inl (task_error ''Task.id must not be empty.'')
     else if t_goal t = [] then Inl (task_error ''Task.goal_id must not be empty.'')
     else if t_name t = [] then Inl (task_error ''Task.name must not be empty.'')
     else Inr t)"

datatype goal_field = GfId string | GfTitle string | GfDescription string | GfPriority priority
  | GfState goal_state | GfMetadata args | GfCreated int | GfUpdated int | GfUnknown string

fun set_goal_field :: "goal_field \<Rightarrow> goal \<Rightarrow> goal" where
  "set_goal_field (GfId v) g = g\<lparr>g_id := v\<rparr>"
| "set_goal_field (GfTitle v) g = g\<lparr>g_title := v\<rparr>"
| "set_goal_field (GfDescription v) g = g\<lparr>g_description := v\<rparr>"
| "set_goal_field (GfPriority v) g = g\<lparr>g_priority := v\<rparr>"
| "set_goal_field (GfState v) g = g\<lparr>g_state := v\<rparr>"
| "set_goal_field (GfMetadata v) g = g\<lparr>g_metadata := v\<rparr>"
| "set_goal_field (GfCreated v) g = g\<lparr>g_created := v\<rparr>"
| "set_goal_field (GfUpdated v) g = g\<lparr>g_updated := v\<rparr>"
| "set_goal_field (GfUnknown x) g = g"

text \<open>\<open>replace(self, **kwargs, updated_at=...)\<close> refuses a second \<open>updated_at\<close> and unknown names.\<close>

fun refused_goal_field :: "goal_field \<Rightarrow> bool" where
  "refused_goal_field (GfUpdated v) = True"
| "refused_goal_field (GfUnknown x) = True"
| "refused_goal_field _ = False"

definition goal_with_state :: "int \<Rightarrow> goal_state \<Rightarrow> goal \<Rightarrow> pyexn + goal" where
  "goal_with_state now st g = make_goal (g\<lparr>g_state := st, g_updated := now\<rparr>)"

definition goal_with_update :: "int \<Rightarrow> goal_field list \<Rightarrow> goal \<Rightarrow> pyexn + goal" where
  "goal_with_update now fs g = (if list_ex refused_goal_field fs
     then Inl (Exn (Py PyTypeError) ''unexpected keyword argument'')
     else make_goal ((fold set_goal_field fs g)\<lparr>g_updated := now\<rparr>))"

definition task_with_state :: "int \<Rightarrow> task_state \<Rightarrow> task \<Rightarrow> pyexn + task" where
  "task_with_state now st t = make_task (t\<lparr>t_state := st, t_updated := now\<rparr>)"

definition task_with_retries :: "int \<Rightarrow> int \<Rightarrow> task \<Rightarrow> pyexn + task" where
  "task_with_retries now n t = (if n < 0 then Inl (task_error ''Retries must not be negative.'')
     else make_task (t\<lparr>t_retries := n, t_updated := now\<rparr>))"

record execution_plan =
  pl_goal :: goal
  pl_tasks :: "task list"
  pl_graph :: "(string, string list) pydict"
  pl_steps :: nat
  pl_created :: int

record plan_result =
  pr_success :: bool
  pr_plan :: "execution_plan option"
  pr_error :: "string option"

section \<open>The execution graph\<close>

type_synonym task_graph = "(string, string list) pydict"

definition dict_of :: "('k \<times> 'v) list \<Rightarrow> ('k, 'v) pydict" where
  "dict_of kvs = fold (\<lambda>(k, v). AList.update k v) kvs []"

definition unknown_dependency_msg :: "string \<Rightarrow> string \<Rightarrow> string" where
  "unknown_dependency_msg t d = ''Task '' @ quoted t @ '' depends on unknown task '' @ quoted d @ ''.''"

definition cycle_msg :: "string \<Rightarrow> string" where
  "cycle_msg n = ''Cycle detected involving task '' @ quoted n @ ''.''"

fun collect_graph :: "string list \<Rightarrow> task list \<Rightarrow> task_graph \<Rightarrow> pyexn + task_graph" where
  "collect_graph ids [] g = Inr g"
| "collect_graph ids (t # ts) g = (case find (\<lambda>d. d \<notin> set ids) (t_deps t) of
     Some d \<Rightarrow> Inl (Exn (InPlanner ExecutionGraphError) (unknown_dependency_msg (t_id t) d))
   | None \<Rightarrow> collect_graph ids ts (AList.update (t_id t) (t_deps t) g))"

text \<open>
  \<open>visit\<close> applied to each node of a list, with the current stack; it returns the visited set (in
  the order of visiting) or the node at which a cycle was found.
\<close>

function visit_all ::
  "task_graph \<Rightarrow> string list \<Rightarrow> string list \<Rightarrow> string list \<Rightarrow> string + string list" where
  "visit_all g stack [] visited = Inr visited"
| "visit_all g stack (n # ns) visited =
     (if n \<in> set stack then Inl n
      else if n \<in> set visited then visit_all g stack ns visited
      else (case map_of g n of
          None \<Rightarrow> visit_all g stack ns (visited @ [n])
        | Some nbs \<Rightarrow> (case visit_all g (n # stack) nbs visited of
              Inl c \<Rightarrow> Inl c
            | Inr visited' \<Rightarrow> visit_all g stack ns (visited' @ [n]))))"
  by pat_completeness auto

termination
proof (relation "measures [\<lambda>(g, stack, ns, visited). card (fst ` set g - set stack),
    \<lambda>(g, stack, ns, visited). length ns]", goal_cases)
  case 1
  show ?case by simp
next
  case (2 g stack n ns visited)
  then show ?case by simp
next
  case (3 g stack n ns visited)
  then show ?case by simp
next
  case (4 g stack n ns visited nbs)
  then have "n \<in> fst ` set g - set stack" by (force dest: map_of_SomeD)
  then have "card (fst ` set g - set (n # stack)) < card (fst ` set g - set stack)"
    by (intro psubset_card_mono) auto
  then show ?case by simp
next
  case (5 g stack n ns visited nbs visited')
  then show ?case by simp
qed

definition validate_no_cycle :: "task_graph \<Rightarrow> pyexn + unit" where
  "validate_no_cycle g = (case visit_all g [] (map fst g) [] of
     Inl n \<Rightarrow> Inl (Exn (InPlanner CycleDetectedError) (cycle_msg n))
   | Inr visited \<Rightarrow> Inr ())"

definition build_execution_graph :: "task list \<Rightarrow> pyexn + task_graph" where
  "build_execution_graph tasks = (case collect_graph (map t_id tasks) tasks [] of
     Inl e \<Rightarrow> Inl e
   | Inr g \<Rightarrow> (case validate_no_cycle g of Inl e \<Rightarrow> Inl e | Inr u \<Rightarrow> Inr g))"

text \<open>The loop that fills \<open>in_degree\<close> and \<open>dependents\<close>.\<close>

definition link ::
  "string \<Rightarrow> string \<Rightarrow> (string, int) pydict \<times> task_graph \<Rightarrow> (string, int) pydict \<times> task_graph" where
  "link tid dep = (\<lambda>(in_degree, dependents).
     (AList.update tid (the (map_of in_degree tid) + 1) in_degree,
      AList.update dep (bucket dependents dep @ [tid]) dependents))"

definition link_all ::
  "task_graph \<Rightarrow> (string, int) pydict \<times> task_graph \<Rightarrow> (string, int) pydict \<times> task_graph" where
  "link_all g = fold (\<lambda>(tid, deps). fold (link tid) deps) g"

definition ready_key :: "(string, task) pydict \<Rightarrow> string \<Rightarrow> int \<times> string" where
  "ready_key task_map i = (- priority_value (t_priority (the (map_of task_map i))), i)"

definition topological_sort :: "task list \<Rightarrow> pyexn + task list" where
  "topological_sort tasks = (case build_execution_graph tasks of
     Inl e \<Rightarrow> Inl e
   | Inr g \<Rightarrow>
      (let task_map = dict_of (map (\<lambda>t. (t_id t, t)) tasks);
           (in_degree, dependents) = link_all g (dict_of (map (\<lambda>t. (t_id t, 0)) tasks), []);
           ready = map fst (filter (\<lambda>(i, n). n = 0) in_degree);
           ordered = kahn id (Some (ready_key task_map)) None (bucket dependents) ready in_degree []
       in if length ordered \<noteq> length task_map
          then Inl (Exn (InPlanner CycleDetectedError) ''Cycle detected during topological sort.'')
          else Inr (map (\<lambda>i. the (map_of task_map i)) ordered)))"

section \<open>Strategy and planner\<close>

definition create_plan :: "int \<Rightarrow> goal \<Rightarrow> task list \<Rightarrow> pyexn + execution_plan" where
  "create_plan now g tasks = (case build_execution_graph tasks of
     Inl e \<Rightarrow> Inl e
   | Inr graph \<Rightarrow> (case topological_sort tasks of
       Inl e \<Rightarrow> Inl e
     | Inr sorted_tasks \<Rightarrow> Inr \<lparr>pl_goal = g, pl_tasks = sorted_tasks, pl_graph = graph,
         pl_steps = length sorted_tasks, pl_created = now\<rparr>))"

definition planner_plan :: "int \<Rightarrow> goal \<Rightarrow> task list \<Rightarrow> pyexn + execution_plan" where
  "planner_plan now g tasks =
     (if g_state g = GS_CANCELLED
      then Inl (Exn (InPlanner PlanningError) ''Cannot plan a cancelled goal.'')
      else if tasks = [] then Inl (Exn (InPlanner PlanningError) ''No tasks provided for planning.'')
      else create_plan now g tasks)"

section \<open>Goals, tasks and the manager\<close>

record plansys = memsys +
  ps_goals :: "(string, goal) pydict"
  ps_tasks :: "(string, task) pydict"

definition goal_exists_msg :: "string \<Rightarrow> string" where
  "goal_exists_msg i = ''Goal '' @ quoted i @ '' already exists.''"

definition goal_missing_msg :: "string \<Rightarrow> string" where
  "goal_missing_msg i = ''Goal '' @ quoted i @ '' does not exist.''"

definition task_exists_msg :: "string \<Rightarrow> string" where
  "task_exists_msg i = ''Task '' @ quoted i @ '' already exists.''"

definition task_missing_msg :: "string \<Rightarrow> string" where
  "task_missing_msg i = ''Task '' @ quoted i @ '' does not exist.''"

definition goal_create :: "goal \<Rightarrow> ('z plansys_scheme, goal) act" where
  "goal_create g s = (if map_of (ps_goals s) (g_id g) \<noteq> None
     then (Inl (goal_error (goal_exists_msg (g_id g))), s)
     else (Inr g, s\<lparr>ps_goals := AList.update (g_id g) g (ps_goals s)\<rparr>))"

definition goal_get :: "string \<Rightarrow> ('z plansys_scheme, goal) act" where
  "goal_get i s = (case map_of (ps_goals s) i of
     None \<Rightarrow> (Inl (goal_error (goal_missing_msg i)), s) | Some g \<Rightarrow> (Inr g, s))"

definition goal_store :: "string \<Rightarrow> pyexn + goal \<Rightarrow> ('z plansys_scheme, goal) act" where
  "goal_store i r s = (case r of Inl e \<Rightarrow> (Inl e, s)
     | Inr g \<Rightarrow> (Inr g, s\<lparr>ps_goals := AList.update i g (ps_goals s)\<rparr>))"

definition goal_update :: "int \<Rightarrow> string \<Rightarrow> goal_field list \<Rightarrow> ('z plansys_scheme, goal) act" where
  "goal_update now i fs = bindA (goal_get i) (\<lambda>g. goal_store i (goal_with_update now fs g))"

definition goal_cancel :: "int \<Rightarrow> string \<Rightarrow> ('z plansys_scheme, goal) act" where
  "goal_cancel now i = bindA (goal_get i) (\<lambda>g. goal_store i (goal_with_state now GS_CANCELLED g))"

text \<open>A goal state is a string enumeration, compared with the text of the filter.\<close>

definition goal_list :: "string option \<Rightarrow> ('z plansys_scheme) \<Rightarrow> goal list" where
  "goal_list st s = (case st of None \<Rightarrow> dict_values (ps_goals s)
     | Some x \<Rightarrow> filter (\<lambda>g. goal_state_value (g_state g) = x) (dict_values (ps_goals s)))"

definition task_create :: "task \<Rightarrow> ('z plansys_scheme, task) act" where
  "task_create t s = (if map_of (ps_tasks s) (t_id t) \<noteq> None
     then (Inl (task_error (task_exists_msg (t_id t))), s)
     else (Inr t, s\<lparr>ps_tasks := AList.update (t_id t) t (ps_tasks s)\<rparr>))"

definition task_get :: "string \<Rightarrow> ('z plansys_scheme, task) act" where
  "task_get i s = (case map_of (ps_tasks s) i of
     None \<Rightarrow> (Inl (task_error (task_missing_msg i)), s) | Some t \<Rightarrow> (Inr t, s))"

definition task_transition :: "int \<Rightarrow> task_state \<Rightarrow> string \<Rightarrow> ('z plansys_scheme, task) act" where
  "task_transition now st i = bindA (task_get i) (\<lambda>t s. case task_with_state now st t of
     Inl e \<Rightarrow> (Inl e, s)
   | Inr u \<Rightarrow> (Inr u, s\<lparr>ps_tasks := AList.update i u (ps_tasks s)\<rparr>))"

definition task_complete :: "int \<Rightarrow> string \<Rightarrow> ('z plansys_scheme, task) act" where
  "task_complete now = task_transition now TS_SUCCESS"

definition task_fail :: "int \<Rightarrow> string \<Rightarrow> ('z plansys_scheme, task) act" where
  "task_fail now = task_transition now TS_FAILED"

definition task_skip :: "int \<Rightarrow> string \<Rightarrow> ('z plansys_scheme, task) act" where
  "task_skip now = task_transition now TS_SKIPPED"

definition task_ready :: "int \<Rightarrow> string \<Rightarrow> ('z plansys_scheme, task) act" where
  "task_ready now = task_transition now TS_READY"

definition task_pending :: "int \<Rightarrow> string \<Rightarrow> ('z plansys_scheme, task) act" where
  "task_pending now = task_transition now TS_PENDING"

definition task_list :: "'z plansys_scheme \<Rightarrow> task list" where
  "task_list s = dict_values (ps_tasks s)"

definition create_goal :: "bus option \<Rightarrow> goal \<Rightarrow> ('z plansys_scheme, goal) act" where
  "create_goal mb g = bindA (goal_create g) (\<lambda>c.
     seqA (notify mb (EvPlanner (GoalCreated (g_id c) (g_title c) (priority_value (g_priority c)))))
       (ret c))"

text \<open>The record under which a plan is remembered; \<open>time_text\<close> is the text of a time.\<close>

definition plan_record ::
  "(int \<Rightarrow> string) \<Rightarrow> int \<Rightarrow> string \<Rightarrow> goal \<Rightarrow> execution_plan \<Rightarrow> string \<Rightarrow> raw_record" where
  "plan_record time_text now i g plan u = \<lparr>
     rw_id = ''planner:'' @ i @ '':'' @ uuid_hex u,
     rw_owner = i,
     rw_namespace = VStr ''planner'',
     rw_title = VStr (''Execution plan for goal '' @ quoted (g_title g)),
     rw_content = VDict [
       (''goal_id'', VStr i),
       (''task_ids'', VList (map (\<lambda>t. VStr (t_id t)) (pl_tasks plan))),
       (''graph'', VDict (map (\<lambda>(t, ds). (t, VList (map VStr ds))) (pl_graph plan))),
       (''estimated_steps'', VInt (int (pl_steps plan))),
       (''created_at'', VStr (time_text (pl_created plan)))],
     rw_metadata = VDict [(''goal_state'', VStr (goal_state_value (g_state g))),
       (''priority'', VInt (priority_value (g_priority g)))],
     rw_tags = VList [VStr ''planner'', VStr ''goal''],
     rw_importance = priority_value (g_priority g),
     rw_created = now, rw_updated = now, rw_accessed = now, rw_count = 0\<rparr>"

definition plan_for :: "int \<Rightarrow> string \<Rightarrow> ('z plansys_scheme, goal \<times> execution_plan) act" where
  "plan_for now i = bindA (goal_get i) (\<lambda>g s.
     (case planner_plan now g (filter (\<lambda>t. t_goal t = i) (task_list s)) of
        Inl e \<Rightarrow> (Inl e, s) | Inr plan \<Rightarrow> (Inr (g, plan), s)))"

definition plan_failure :: "bus option \<Rightarrow> string \<Rightarrow> pyexn \<Rightarrow> ('z plansys_scheme, plan_result) act" where
  "plan_failure mb i e = seqA (notify mb (EvPlanner (PlanFailed i (exn_msg e))))
     (ret \<lparr>pr_success = False, pr_plan = None, pr_error = Some (exn_msg e)\<rparr>)"

definition store_plan ::
  "(nat \<Rightarrow> string) \<Rightarrow> (pyval \<Rightarrow> string) \<Rightarrow> (int \<Rightarrow> string) \<Rightarrow> int \<Rightarrow> bus option \<Rightarrow> string \<Rightarrow>
   goal \<Rightarrow> execution_plan \<Rightarrow> ('z plansys_scheme, plan_result) act" where
  "store_plan uid txt time_text now mb i g plan =
     bindA (fresh_uid uid) (\<lambda>u.
     bindA (liftA (make_record txt (plan_record time_text now i g plan u))) (\<lambda>r.
     seqA (remember mb r)
     (seqA (notify mb (EvPlanner (PlanCreated i (mr_id r) (pl_steps plan))))
      (ret \<lparr>pr_success = True, pr_plan = Some plan, pr_error = None\<rparr>))))"

text \<open>Only a \<open>PlannerError\<close> of the planning part is caught.\<close>

definition build_plan ::
  "(nat \<Rightarrow> string) \<Rightarrow> (pyval \<Rightarrow> string) \<Rightarrow> (int \<Rightarrow> string) \<Rightarrow> int \<Rightarrow> bus option \<Rightarrow> string \<Rightarrow>
   ('z plansys_scheme, plan_result) act" where
  "build_plan uid txt time_text now mb i s = (case plan_for now i s of
     (Inl e, s1) \<Rightarrow> (if is_planner_error (exn_cls e) then plan_failure mb i e s1 else (Inl e, s1))
   | (Inr (g, plan), s1) \<Rightarrow> store_plan uid txt time_text now mb i g plan s1)"

definition cancel_goal :: "int \<Rightarrow> string \<Rightarrow> ('z plansys_scheme, goal) act" where
  "cancel_goal now = goal_cancel now"

definition goal_status :: "string \<Rightarrow> ('z plansys_scheme, goal) act" where
  "goal_status = goal_get"

definition goal_history :: "'z plansys_scheme \<Rightarrow> goal list" where
  "goal_history = goal_list None"

section \<open>The cycle check\<close>

definition nbs :: "task_graph \<Rightarrow> string \<Rightarrow> string list" where
  "nbs g n = (case map_of g n of None \<Rightarrow> [] | Some ds \<Rightarrow> ds)"

definition edges :: "task_graph \<Rightarrow> (string \<times> string) set" where
  "edges g = {(a, b). b \<in> set (nbs g a)}"

lemma visit_all_step:
  "visit_all g stack (n # ns) visited =
     (if n \<in> set stack then Inl n
      else if n \<in> set visited then visit_all g stack ns visited
      else (case visit_all g (n # stack) (nbs g n) visited of
              Inl c \<Rightarrow> Inl c
            | Inr visited' \<Rightarrow> visit_all g stack ns (visited' @ [n])))"
  by (auto simp: nbs_def split: option.splits)

text \<open>The visited list is a topological order of what has been visited.\<close>

lemma visit_all_topo:
  "visit_all g stack ns visited = Inr vs \<Longrightarrow> topo id (nbs g) visited \<Longrightarrow> distinct visited \<Longrightarrow>
   set visited \<inter> set stack = {} \<Longrightarrow>
   topo id (nbs g) vs \<and> distinct vs \<and> set vs \<inter> set stack = {} \<and> set visited \<union> set ns \<subseteq> set vs \<and>
   (\<forall>S. set visited \<union> set ns \<subseteq> S \<and> (\<forall>a \<in> S. set (nbs g a) \<subseteq> S) \<longrightarrow> set vs \<subseteq> S)"
proof (induction g stack ns visited arbitrary: vs rule: visit_all.induct)
  case (1 g stack visited)
  then show ?case by auto
next
  case (2 g stack n ns visited)
  show ?case
  proof (cases "n \<in> set visited")
    case True
    with 2(1)[of vs] 2(4-) show ?thesis by (auto simp: visit_all_step split: if_splits)
  next
    case False
    have n: "n \<notin> set stack" using 2(5) by (auto split: if_splits)
    obtain ws where ws: "visit_all g (n # stack) (nbs g n) visited = Inr ws"
      and vs: "visit_all g stack ns (ws @ [n]) = Inr vs"
      using 2(5) False n by (auto simp: visit_all_step simp del: visit_all.simps split: sum.splits)
    have IH1: "topo id (nbs g) ws \<and> distinct ws \<and> set ws \<inter> set (n # stack) = {} \<and>
        set visited \<union> set (nbs g n) \<subseteq> set ws \<and>
        (\<forall>S. set visited \<union> set (nbs g n) \<subseteq> S \<and> (\<forall>a \<in> S. set (nbs g a) \<subseteq> S) \<longrightarrow> set ws \<subseteq> S)"
    proof (cases "map_of g n")
      case None
      then have "nbs g n = []" by (simp add: nbs_def)
      with ws 2(6-8) False show ?thesis by (auto simp del: id_apply)
    next
      case (Some ds)
      then have ds: "nbs g n = ds" by (simp add: nbs_def)
      have "set visited \<inter> set (n # stack) = {}" using 2(8) False by auto
      from 2(3)[OF n False Some _ 2(6,7) this, of ws] ws show ?thesis unfolding ds by blast
    qed
    have t: "topo id (nbs g) (ws @ [n])" "distinct (ws @ [n])" "set (ws @ [n]) \<inter> set stack = {}"
      using IH1 n by (auto simp: topo_snoc)
    have IH2: "topo id (nbs g) vs \<and> distinct vs \<and> set vs \<inter> set stack = {} \<and>
        set (ws @ [n]) \<union> set ns \<subseteq> set vs \<and>
        (\<forall>S. set (ws @ [n]) \<union> set ns \<subseteq> S \<and> (\<forall>a \<in> S. set (nbs g a) \<subseteq> S) \<longrightarrow> set vs \<subseteq> S)"
    proof (cases "map_of g n")
      case None
      then have "nbs g n = []" by (simp add: nbs_def)
      with ws have "ws = visited" by simp
      with 2(2)[OF n False None, of vs] vs t show ?thesis by (simp del: id_apply)
    next
      case (Some ds)
      then have "nbs g n = ds" by (simp add: nbs_def)
      with 2(4)[OF n False Some, of ws vs] ws vs t show ?thesis by (simp del: id_apply)
    qed
    have least: "set vs \<subseteq> S"
      if "set visited \<union> set (n # ns) \<subseteq> S" "\<forall>a \<in> S. set (nbs g a) \<subseteq> S" for S
    proof -
      from that have s: "set (nbs g n) \<subseteq> S" "set visited \<subseteq> S" "n \<in> S" "set ns \<subseteq> S" by simp_all
      have "set ws \<subseteq> S" using IH1 s that(2) by blast
      with s have "set (ws @ [n]) \<union> set ns \<subseteq> S" by simp
      then show ?thesis using IH2 that(2) by blast
    qed
    have sub: "set visited \<union> set (n # ns) \<subseteq> set vs"
    proof -
      have "set visited \<subseteq> set ws" using IH1 by blast
      moreover have "set ws \<union> {n} \<union> set ns \<subseteq> set vs" using IH2 by simp
      ultimately show ?thesis by auto
    qed
    have "topo id (nbs g) vs" "distinct vs" "set vs \<inter> set stack = {}" using IH2 by blast+
    with sub least show ?thesis by blast
  qed
qed

text \<open>What it reports as a cycle is one.\<close>

lemma visit_all_cycle:
  "visit_all g stack ns visited = Inl c \<Longrightarrow>
   (\<And>a b. a \<in> set stack \<Longrightarrow> b \<in> set ns \<Longrightarrow> (a, b) \<in> (edges g)\<^sup>+) \<Longrightarrow> (c, c) \<in> (edges g)\<^sup>+"
proof (induction g stack ns visited rule: visit_all.induct)
  case (1 g stack visited)
  then show ?case by simp
next
  case (2 g stack n ns visited)
  show ?case
  proof (cases "n \<in> set stack")
    case True
    with 2(5) 2(6)[OF True, of n] show ?thesis by simp
  next
    case n: False
    show ?thesis
    proof (cases "n \<in> set visited")
      case True
      with 2(1)[OF n True] 2(5,6) n show ?thesis by (simp del: visit_all.simps add: visit_all_step)
    next
      case v: False
      have reach: "(a, b) \<in> (edges g)\<^sup>+" if "a \<in> set (n # stack)" "b \<in> set (nbs g n)" for a b
      proof -
        have e: "(n, b) \<in> edges g" using that by (simp add: edges_def)
        show ?thesis
        proof (cases "a = n")
          case False
          with that have "(a, n) \<in> (edges g)\<^sup>+" using 2(6) by simp
          then show ?thesis by (rule trancl_into_trancl[OF _ e])
        qed (use e in auto)
      qed
      show ?thesis
      proof (cases "map_of g n")
        case None
        with 2(2)[OF n v None] 2(5,6) n v show ?thesis by simp
      next
        case (Some ds)
        then have d: "nbs g n = ds" by (simp add: nbs_def)
        show ?thesis
        proof (cases "visit_all g (n # stack) ds visited")
          case (Inl c')
          with 2(3)[OF n v Some] reach 2(5) n v Some d show ?thesis by auto
        next
          case (Inr ws)
          with 2(4)[OF n v Some Inr] 2(5,6) n v Some show ?thesis by simp
        qed
      qed
    qed
  qed
qed


text \<open>A graph every neighbour of which is a node.\<close>

definition closed_graph :: "task_graph \<Rightarrow> bool" where
  "closed_graph g \<longleftrightarrow> dict_ok g \<and> (\<forall>n ds. map_of g n = Some ds \<longrightarrow> set ds \<subseteq> fst ` set g)"

lemma closed_nbs: "closed_graph g \<Longrightarrow> set (nbs g n) \<subseteq> fst ` set g"
  by (cases "map_of g n") (simp_all add: closed_graph_def nbs_def)

text \<open>In a topological order every edge leads strictly backwards.\<close>

lemma topo_edges_back:
  assumes "topo id (nbs g) ord" "(a, b) \<in> (edges g)\<^sup>+"
  shows "i < length ord \<Longrightarrow> ord ! i = a \<Longrightarrow> \<exists>j < i. ord ! j = b"
  using assms(2)
proof (induction rule: trancl_induct)
  case (base b)
  then have "b \<in> set (take i ord)" using assms(1) by (auto simp: topo_def edges_def)
  then show ?case by (auto simp: in_set_conv_nth)
next
  case (step b c)
  then obtain j where j: "j < i" "ord ! j = b" by blast
  have "j < length ord" "c \<in> set (nbs g (ord ! j))"
    using j step.prems(1) step.hyps(2) by (auto simp: edges_def)
  then have "c \<in> set (take j ord)" using assms(1) by (auto simp: topo_def)
  then obtain k where "k < j" "ord ! k = c" by (auto simp: in_set_conv_nth)
  with j show ?case by (auto intro: exI[of _ k])
qed

lemma no_cycle_in_order:
  assumes "topo id (nbs g) ord" "distinct ord" "a \<in> set ord"
  shows "(a, a) \<notin> (edges g)\<^sup>+"
proof
  assume c: "(a, a) \<in> (edges g)\<^sup>+"
  from assms(3) obtain i where i: "i < length ord" "ord ! i = a" by (auto simp: in_set_conv_nth)
  from topo_edges_back[OF assms(1) c i] obtain j where "j < i" "ord ! j = a" by blast
  with i assms(2) show False by (auto simp: nth_eq_iff_index_eq)
qed

lemma edge_node: "(a, b) \<in> edges g \<Longrightarrow> a \<in> fst ` set g"
  by (cases "map_of g a") (auto simp: edges_def nbs_def dest!: map_of_SomeD intro: image_eqI[rotated])

lemma cycle_node: "(a, b) \<in> (edges g)\<^sup>+ \<Longrightarrow> a \<in> fst ` set g"
  by (induction rule: trancl_induct) (simp_all add: edge_node)

lemma validate_facts:
  assumes "closed_graph g"
  shows "case validate_no_cycle g of
      Inr u \<Rightarrow> acyclic (edges g) \<and> (\<exists>ord. mset ord = mset (map fst g) \<and> topo id (nbs g) ord)
    | Inl e \<Rightarrow> exn_cls e = InPlanner CycleDetectedError \<and> \<not> acyclic (edges g) \<and>
        \<not> (\<exists>ord. mset ord = mset (map fst g) \<and> topo id (nbs g) ord)"
proof (cases "visit_all g [] (map fst g) []")
  case (Inl c)
  have c: "(c, c) \<in> (edges g)\<^sup>+" by (rule visit_all_cycle[OF Inl]) simp
  have "\<not> topo id (nbs g) ord" if "mset ord = mset (map fst g)" for ord
  proof
    assume t: "topo id (nbs g) ord"
    have "distinct ord" "set ord = set (map fst g)"
      using that assms mset_eq_imp_distinct_iff[OF that] mset_eq_setD[OF that]
      by (auto simp: closed_graph_def dict_ok_def)
    with no_cycle_in_order[OF t] cycle_node[OF c] c show False by auto
  qed
  with Inl c show ?thesis by (auto simp: validate_no_cycle_def acyclic_def)
next
  case (Inr vs)
  have V: "topo id (nbs g) vs \<and> distinct vs \<and> set vs \<inter> set [] = {} \<and>
      set [] \<union> set (map fst g) \<subseteq> set vs \<and>
      (\<forall>S. set [] \<union> set (map fst g) \<subseteq> S \<and> (\<forall>a \<in> S. set (nbs g a) \<subseteq> S) \<longrightarrow> set vs \<subseteq> S)"
    by (rule visit_all_topo[OF Inr]) simp_all
  then have "set vs \<subseteq> set (map fst g)" using closed_nbs[OF assms] by auto
  with V have s: "set vs = set (map fst g)" by auto
  have d: "distinct (map fst g)" using assms by (simp add: closed_graph_def dict_ok_def)
  have m: "mset vs = mset (map fst g)" using set_eq_iff_mset_eq_distinct[of vs "map fst g"] V s d by blast
  have "(a, a) \<notin> (edges g)\<^sup>+" for a
  proof
    assume "(a, a) \<in> (edges g)\<^sup>+"
    with no_cycle_in_order[of g vs a] V s cycle_node[of a a g] show False by auto
  qed
  then show ?thesis using Inr m V by (auto simp: validate_no_cycle_def acyclic_def)
qed

text \<open>
  The depth-first cycle check decides acyclicity: on a graph whose dependencies are all nodes
  it raises \<open>CycleDetectedError\<close> exactly when the dependency relation has a cycle, which is
  exactly when the nodes have no topological order.
\<close>

theorem cycle_check_decides:
  assumes "closed_graph g"
  shows "((\<exists>msg. validate_no_cycle g = Inl (Exn (InPlanner CycleDetectedError) msg)) \<longleftrightarrow>
      \<not> acyclic (edges g)) \<and>
    (validate_no_cycle g = Inr () \<longleftrightarrow> acyclic (edges g)) \<and>
    (acyclic (edges g) \<longleftrightarrow> (\<exists>ord. mset ord = mset (map fst g) \<and> topo id (nbs g) ord))"
proof (cases "validate_no_cycle g")
  case (Inl e)
  then show ?thesis using validate_facts[OF assms] by (cases e) simp
next
  case (Inr u)
  then show ?thesis using validate_facts[OF assms] by simp
qed

theorem cycle_check_decides_witness:
  "\<exists>msg. validate_no_cycle [(''a'', [''b'']), (''b'', [''c'']), (''c'', [''a''])] =
     Inl (Exn (InPlanner CycleDetectedError) msg)"
proof -
  let ?g = "[(''a'', [''b'']), (''b'', [''c'']), (''c'', [''a''])]"
  have c: "closed_graph ?g" by (simp add: closed_graph_def dict_ok_def)
  have "(''a'', ''b'') \<in> edges ?g" "(''b'', ''c'') \<in> edges ?g" "(''c'', ''a'') \<in> edges ?g"
    by (simp_all add: edges_def nbs_def)
  then have "(''a'', ''a'') \<in> (edges ?g)\<^sup>+" by (meson trancl.simps)
  then have "\<not> acyclic (edges ?g)" by (auto simp: acyclic_def)
  with cycle_check_decides[OF c] show ?thesis by blast
qed


section \<open>The dictionaries of the sort\<close>

lemma dict_of_distinct: "distinct (map fst kvs) \<Longrightarrow> dict_of kvs = kvs"
proof (induction kvs rule: rev_induct)
  case Nil
  then show ?case by (simp add: dict_of_def)
next
  case (snoc kv kvs)
  then have "AList.update (fst kv) (snd kv) kvs = kvs @ [kv]"
    by (simp add: update_new_key)
  with snoc show ?case by (cases kv) (simp add: dict_of_def)
qed

text \<open>The declared dependencies of a list of tasks.\<close>

definition declared :: "task list \<Rightarrow> task_graph" where
  "declared ts = map (\<lambda>t. (t_id t, t_deps t)) ts"

definition deps_known :: "task list \<Rightarrow> bool" where
  "deps_known ts \<longleftrightarrow> (\<forall>t \<in> set ts. set (t_deps t) \<subseteq> t_id ` set ts)"

lemma keys_declared [simp]: "map fst (declared ts) = map t_id ts"
  by (simp add: declared_def)

lemma declared_mem: "distinct (map t_id ts) \<Longrightarrow> t \<in> set ts \<Longrightarrow> nbs (declared ts) (t_id t) = t_deps t"
  by (induction ts) (auto simp: declared_def nbs_def image_iff)

lemma collect_graph_eq:
  "\<forall>t \<in> set ts. set (t_deps t) \<subseteq> set ids \<Longrightarrow>
   collect_graph ids ts g = Inr (fold (\<lambda>(k, v). AList.update k v) (declared ts) g)"
proof (induction ids ts g rule: collect_graph.induct)
  case (1 ids g)
  then show ?case by (simp add: declared_def)
next
  case (2 ids t ts g)
  then have "find (\<lambda>d. d \<notin> set ids) (t_deps t) = None" by (auto simp: find_None_iff)
  with 2 show ?case by (simp add: declared_def)
qed

lemma collect_graph_error:
  "\<not> (\<forall>t \<in> set ts. set (t_deps t) \<subseteq> set ids) \<Longrightarrow>
   \<exists>e. collect_graph ids ts g = Inl e \<and> exn_cls e = InPlanner ExecutionGraphError"
  by (induction ids ts g rule: collect_graph.induct)
    (auto simp: find_None_iff split: option.splits)

lemma collect_graph_ok:
  "distinct (map t_id ts) \<Longrightarrow> deps_known ts \<Longrightarrow> collect_graph (map t_id ts) ts [] = Inr (declared ts)"
  using collect_graph_eq[of ts "map t_id ts" "[]"] dict_of_distinct[of "declared ts"]
  by (simp add: deps_known_def dict_of_def)


lemma fold_link:
  "fold (link tid) deps (i, d) = (i', d') \<Longrightarrow> map_of i tid = Some w \<Longrightarrow>
   (\<forall>m. map_of i' m = (if m = tid then Some (w + int (length deps)) else map_of i m)) \<and>
   (\<forall>a. bucket d' a = bucket d a @ replicate (count_list deps a) tid) \<and> map fst i' = map fst i"
proof (induction deps arbitrary: i d w)
  case Nil
  then show ?case by auto
next
  case (Cons dep deps)
  let ?i = "AList.update tid (w + 1) i" and ?d = "AList.update dep (bucket d dep @ [tid]) d"
  have link_eq: "link tid dep (i, d) = (?i, ?d)" using Cons.prems by (simp add: link_def)
  have "fold (link tid) deps (?i, ?d) = (i', d')"
    using Cons.prems link_eq by simp
  from Cons.IH[OF this, of "w + 1"]
  have IH: "(\<forall>m. map_of i' m = (if m = tid then Some (w + 1 + int (length deps)) else map_of ?i m)) \<and>
     (\<forall>a. bucket d' a = bucket ?d a @ replicate (count_list deps a) tid) \<and> map fst i' = map fst ?i"
    by simp
  have "map fst ?i = map fst i"
    using Cons.prems(2) by (auto simp: update_keys dest!: map_of_SomeD intro: image_eqI[rotated])
  with IH show ?case by (auto simp: replicate_append_same[symmetric])
qed

lemma link_all_facts:
  "link_all g (i, d) = (i', d') \<Longrightarrow> distinct (map fst g) \<Longrightarrow> (\<forall>m \<in> fst ` set g. map_of i m = Some 0) \<Longrightarrow>
   (\<forall>m ds. (m, ds) \<in> set g \<longrightarrow> map_of i' m = Some (int (length ds))) \<and>
   (\<forall>m. m \<notin> fst ` set g \<longrightarrow> map_of i' m = map_of i m) \<and>
   (\<forall>a. bucket d' a = bucket d a @ concat (map (\<lambda>(t, ds). replicate (count_list ds a) t) g)) \<and>
   map fst i' = map fst i"
proof (induction g arbitrary: i d)
  case Nil
  then show ?case by (simp add: link_all_def)
next
  case (Cons kv g)
  obtain t ds where kv: "kv = (t, ds)" by (cases kv)
  obtain i1 d1 where l: "fold (link t) ds (i, d) = (i1, d1)" by fastforce
  have rest: "link_all g (i1, d1) = (i', d')" using Cons.prems(1) kv l by (simp add: link_all_def)
  have "map_of i t = Some 0" using Cons.prems(3) kv by simp
  note F = fold_link[OF l this]
  have t: "t \<notin> fst ` set g" using Cons.prems(2) kv by simp
  have "\<forall>m \<in> fst ` set g. map_of i1 m = Some 0" using F Cons.prems(3) t by auto
  with Cons.IH[OF rest] Cons.prems(2)
  have IH: "(\<forall>m ds. (m, ds) \<in> set g \<longrightarrow> map_of i' m = Some (int (length ds))) \<and>
   (\<forall>m. m \<notin> fst ` set g \<longrightarrow> map_of i' m = map_of i1 m) \<and>
   (\<forall>a. bucket d' a = bucket d1 a @ concat (map (\<lambda>(t, ds). replicate (count_list ds a) t) g)) \<and>
   map fst i' = map fst i1" by simp
  have "map_of i' t = Some (int (length ds))" using IH F t by simp
  then have "\<forall>m ds. (m, ds) \<in> set (kv # g) \<longrightarrow> map_of i' m = Some (int (length ds))"
    using IH kv by auto
  with IH F kv show ?case by simp
qed

section \<open>The tasks form a dependency graph\<close>

text \<open>
  Tasks with distinct identifiers and known dependencies; any other list stands for the empty
  graph, so that the interpretation below holds of every list.
\<close>

definition sound :: "task list \<Rightarrow> task list" where
  "sound ts = (if distinct (map t_id ts) \<and> deps_known ts then ts else [])"

definition dependents_of :: "task list \<Rightarrow> string \<Rightarrow> string list" where
  "dependents_of ts a = concat (map (\<lambda>t. replicate (count_list (t_deps t) a) (t_id t)) ts)"

lemma count_replicate: "count_list (replicate n x) y = (if x = y then n else 0)"
  by (induction n) auto

lemma count_dependents:
  "distinct (map t_id ts) \<Longrightarrow> b \<in> t_id ` set ts \<Longrightarrow>
   count_list (dependents_of ts a) b = count_list (nbs (declared ts) b) a"
proof (induction ts)
  case Nil
  then show ?case by simp
next
  case (Cons t ts)
  have none: "count_list (dependents_of ts a) (t_id t) = 0"
    using Cons.prems(1) by (auto simp: dependents_of_def count_list_0_iff)
  show ?case
  proof (cases "b = t_id t")
    case True
    with none show ?thesis by (simp add: dependents_of_def nbs_def declared_def count_replicate)
  next
    case False
    with Cons.prems(2) have "b \<in> t_id ` set ts" by auto
    with Cons False show ?thesis by (simp add: dependents_of_def nbs_def declared_def count_replicate)
  qed
qed

interpretation plan_graph: dependency_graph "map t_id (sound ts)" id "nbs (declared (sound ts))"
  "dependents_of (sound ts)" for ts
proof
  let ?ts = "sound ts"
  have d: "distinct (map t_id ?ts)" and k: "deps_known ?ts" by (auto simp: sound_def deps_known_def)
  show "distinct (map id (map t_id ?ts))" using d by simp
  show "set (nbs (declared ?ts) a) \<subseteq> id ` set (map t_id ?ts)" if "a \<in> set (map t_id ?ts)" for a
  proof -
    from that obtain t where "t \<in> set ?ts" "a = t_id t" by auto
    with declared_mem[OF d] k show ?thesis by (auto simp: deps_known_def)
  qed
  show "set (dependents_of ?ts a) \<subseteq> set (map t_id ?ts)" for a
    by (auto simp: dependents_of_def)
  show "count_list (dependents_of ?ts a) b = count_list (nbs (declared ?ts) b) (id a)"
    if "b \<in> set (map t_id ?ts)" for a b
    using count_dependents[OF d, of b a] that by simp
qed


lemma topo_map:
  assumes "\<And>i. i \<in> set is \<Longrightarrow> key (f i) = i \<and> deps (f i) = nb i"
  shows "topo key deps (map f is) \<longleftrightarrow> topo id nb is"
proof -
  have "key ` set (take k (map f is)) = set (take k is)" for k
    using assms by (force simp: take_map image_image dest: in_set_takeD)
  then show ?thesis using assms by (simp add: topo_def)
qed

lemma greedy_map:
  assumes "\<And>i. i \<in> set items \<Longrightarrow> key (f i) = i \<and> deps (f i) = nb i" "set is \<subseteq> set items"
    and "greedy id nb (\<lambda>i. sk (f i)) items is"
  shows "greedy key deps sk (map f items) (map f is)"
  unfolding greedy_def
proof (intro allI impI ballI)
  fix k b
  assume k: "k < length (map f is)" and b: "b \<in> set (map f items) - set (take k (map f is))"
    and d: "set (deps b) \<subseteq> key ` set (take k (map f is))"
  from b obtain j where j: "j \<in> set items" "b = f j" by auto
  have "key ` set (take k (map f is)) = set (take k is)"
    using assms(1,2) by (force simp: take_map image_image dest: in_set_takeD)
  with d j assms(1) have "set (nb j) \<subseteq> id ` set (take k is)" by simp
  moreover have "j \<notin> set (take k is)" using b j by (auto simp: take_map)
  ultimately have "sk (f (is ! k)) \<le> sk (f j)"
    using assms(3) k j by (simp add: greedy_def)
  with k j show "sk (map f is ! k) \<le> sk b" by simp
qed

definition plan_key :: "task \<Rightarrow> int \<times> string" where
  "plan_key t = (- priority_value (t_priority t), t_id t)"

definition task_of :: "task list \<Rightarrow> string \<Rightarrow> task" where
  "task_of ts i = the (map_of (map (\<lambda>t. (t_id t, t)) ts) i)"

lemma task_of_id: "distinct (map t_id ts) \<Longrightarrow> t \<in> set ts \<Longrightarrow> task_of ts (t_id t) = t"
  by (induction ts) (auto simp: task_of_def image_iff)

lemma map_task_of: "distinct (map t_id ts) \<Longrightarrow> map (task_of ts) (map t_id ts) = ts"
  by (simp add: task_of_id map_idI)

lemma closed_declared:
  assumes "distinct (map t_id ts)" "deps_known ts"
  shows "closed_graph (declared ts)"
proof -
  have "set ds \<subseteq> fst ` set (declared ts)" if "map_of (declared ts) n = Some ds" for n ds
  proof -
    from map_of_SomeD[OF that] obtain t where "t \<in> set ts" "ds = t_deps t"
      by (auto simp: declared_def)
    with assms(2) show ?thesis by (force simp: deps_known_def declared_def)
  qed
  with assms(1) show ?thesis by (simp add: closed_graph_def dict_ok_def)
qed

text \<open>An order of the tasks and an order of their identifiers are the same thing.\<close>

lemma order_of_ids:
  assumes "distinct (map t_id ts)"
  shows "(\<exists>ord. mset ord = mset (map t_id ts) \<and> topo id (nbs (declared ts)) ord) \<longleftrightarrow>
    (\<exists>ord. mset ord = mset ts \<and> topo t_id t_deps ord)"
proof
  assume "\<exists>ord. mset ord = mset (map t_id ts) \<and> topo id (nbs (declared ts)) ord"
  then obtain ord where o: "mset ord = mset (map t_id ts)" "topo id (nbs (declared ts)) ord" by blast
  have "set ord = t_id ` set ts" using mset_eq_setD[OF o(1)] by simp
  then have "topo t_id t_deps (map (task_of ts) ord)"
    using o(2) assms by (subst topo_map[where nb = "nbs (declared ts)"])
      (auto simp: task_of_id declared_mem)
  moreover have "mset (map (task_of ts) ord) = mset ts"
    using o(1) map_task_of[OF assms] by (metis mset_map)
  ultimately show "\<exists>ord. mset ord = mset ts \<and> topo t_id t_deps ord" by blast
next
  assume "\<exists>ord. mset ord = mset ts \<and> topo t_id t_deps ord"
  then obtain ord where o: "mset ord = mset ts" "topo t_id t_deps ord" by blast
  have s: "set ord = set ts" using mset_eq_setD[OF o(1)] .
  have "map (task_of ts) (map t_id ord) = ord" using s assms by (auto simp: task_of_id intro: map_idI)
  moreover have "topo t_id t_deps (map (task_of ts) (map t_id ord)) \<longleftrightarrow>
      topo id (nbs (declared ts)) (map t_id ord)"
    by (rule topo_map) (use s assms in \<open>auto simp: task_of_id declared_mem\<close>)
  ultimately have "topo id (nbs (declared ts)) (map t_id ord)" using o(2) by simp
  moreover have "mset (map t_id ord) = mset (map t_id ts)" using o(1) by simp
  ultimately show "\<exists>ord. mset ord = mset (map t_id ts) \<and> topo id (nbs (declared ts)) ord" by blast
qed

lemma sort_facts:
  assumes d: "distinct (map t_id ts)" and k: "deps_known ts"
    and ok: "validate_no_cycle (declared ts) = Inr ()"
  shows "\<exists>out. topological_sort ts = Inr out \<and> mset out = mset ts \<and> topo t_id t_deps out \<and>
    greedy t_id t_deps plan_key ts out"
proof -
  let ?g = "declared ts"
  let ?M = "map (\<lambda>t. (t_id t, t)) ts" and ?Z = "map (\<lambda>t. (t_id t, 0::int)) ts"
  have s: "sound ts = ts" using d k by (simp add: sound_def)
  have dicts: "dict_of ?M = ?M" "dict_of ?Z = ?Z" using d by (simp_all add: dict_of_distinct comp_def)
  obtain i' d' where l: "link_all ?g (?Z, []) = (i', d')" by fastforce
  have zero: "\<forall>m \<in> fst ` set ?g. map_of ?Z m = Some 0"
    by (auto simp: declared_def map_of_eq_Some_iff d comp_def)
  have L: "(\<forall>m ds. (m, ds) \<in> set ?g \<longrightarrow> map_of i' m = Some (int (length ds))) \<and>
     (\<forall>m. m \<notin> fst ` set ?g \<longrightarrow> map_of i' m = map_of ?Z m) \<and>
     (\<forall>a. bucket d' a = bucket [] a @ concat (map (\<lambda>(t, ds). replicate (count_list ds a) t) ?g)) \<and>
     map fst i' = map fst ?Z"
    by (rule link_all_facts[OF l _ zero]) (simp add: d)
  have succs: "bucket d' = dependents_of ts"
    using L by (simp add: fun_eq_iff dependents_of_def declared_def bucket_def comp_def)
  have keys: "map fst i' = map t_id ts" using L by (simp add: comp_def)
  have val: "map_of i' (t_id t) = Some (int (length (t_deps t)))" if "t \<in> set ts" for t
  proof -
    have "(t_id t, t_deps t) \<in> set ?g" using that by (auto simp: declared_def)
    with L show ?thesis by blast
  qed
  let ?ready = "map fst (filter (\<lambda>(i, n). n = 0) i')"
  have di: "distinct (map fst i')" using keys d by simp
  have ready_d: "distinct ?ready" using di by (simp add: distinct_map_filter)
  have "a \<in> set ?ready \<longleftrightarrow> map_of i' a = Some 0" for a
    using map_of_eq_Some_iff[OF di, of a 0] by (force simp: image_iff)
  moreover have "map_of i' a = Some 0 \<longleftrightarrow> a \<in> t_id ` set ts \<and> nbs ?g a = []" for a
  proof (cases "a \<in> t_id ` set ts")
    case True
    then obtain t where "t \<in> set ts" "a = t_id t" by blast
    with val[of t] declared_mem[OF d, of t] show ?thesis by auto
  next
    case False
    then have "a \<notin> set (map fst i')" using keys by simp
    then have "map_of i' a = None" by (simp add: map_of_eq_None_iff)
    with False show ?thesis by simp
  qed
  ultimately have ready: "set ?ready = {a \<in> set (map t_id ts). nbs ?g a = []}" by auto
  let ?sk = "ready_key ?M"
  have inv: "plan_graph.loop_inv ts ?sk ?ready i' []"
  proof (rule plan_graph.loop_inv_init)
    show "distinct ?ready" by (rule ready_d)
    show "set ?ready = {a \<in> set (map t_id (sound ts)). nbs (declared (sound ts)) a = []}"
      unfolding s by (rule ready)
  qed (use s in \<open>auto simp: val declared_mem[OF d]\<close>)
  note K = plan_graph.kahn_correct[OF inv disjI1[OF refl], of None, unfolded s]
  let ?out = "kahn id (Some ?sk) None (dependents_of ts) ?ready i' []"
  have "\<exists>ord. mset ord = mset (map t_id ts) \<and> topo id (nbs ?g) ord"
    using validate_facts[OF closed_declared[OF d k]] ok by simp
  with K(6) have len: "length ?out = length (map t_id ts)" by blast
  with K(5) have m: "mset ?out = mset (map t_id ts)" by blast
  have f: "t_id (task_of ts i) = i \<and> t_deps (task_of ts i) = nbs ?g i" if "i \<in> set (map t_id ts)" for i
    using that d by (auto simp: task_of_id declared_mem)
  have sub: "set ?out \<subseteq> set (map t_id ts)" by (rule K(2))
  have "topo t_id t_deps (map (task_of ts) ?out)"
    by (rule iffD2[OF topo_map[where nb = "nbs ?g"] K(3)]) (rule f[OF subsetD[OF sub]])
  moreover have "mset (map (task_of ts) ?out) = mset ts"
  proof -
    have "mset (map (task_of ts) ?out) = mset (map (task_of ts) (map t_id ts))"
      by (simp only: mset_map m)
    then show ?thesis by (simp only: map_task_of[OF d])
  qed
  moreover have "greedy t_id t_deps plan_key (map (task_of ts) (map t_id ts)) (map (task_of ts) ?out)"
  proof (rule greedy_map[where nb = "nbs ?g", OF _ sub])
    show "t_id (task_of ts i) = i \<and> t_deps (task_of ts i) = nbs ?g i" if "i \<in> set (map t_id ts)" for i
      by (rule f[OF that])
    have sk: "plan_key (task_of ts i) = ?sk i" if "i \<in> set (map t_id ts)" for i
      using f[OF that] by (simp add: plan_key_def ready_key_def task_of_def)
    have "?out ! k \<in> set (map t_id ts)" if "k < length ?out" for k using sub that nth_mem by blast
    with K(4) sk show "greedy id (nbs ?g) (\<lambda>i. plan_key (task_of ts i)) (map t_id ts) ?out"
      by (simp add: greedy_def)
  qed
  moreover have "topological_sort ts = Inr (map (task_of ts) ?out)"
    using len l by (simp add: topological_sort_def build_execution_graph_def collect_graph_ok[OF d k] ok
        dicts succs task_of_def Let_def)
  ultimately show ?thesis using map_task_of[OF d] by auto
qed


section \<open>Properties of plans\<close>

lemma plan_facts:
  assumes "distinct (map t_id ts)" and "\<not> (g_state g = GS_CANCELLED \<or> ts = [])"
  shows "case planner_plan now g ts of
      Inr p \<Rightarrow> deps_known ts \<and> mset (pl_tasks p) = mset ts \<and> topo t_id t_deps (pl_tasks p) \<and>
        greedy t_id t_deps plan_key ts (pl_tasks p) \<and> pl_graph p = declared ts \<and>
        pl_steps p = length ts \<and> pl_goal p = g
    | Inl e \<Rightarrow> (if deps_known ts
        then exn_cls e = InPlanner CycleDetectedError \<and>
          \<not> (\<exists>ord. mset ord = mset ts \<and> topo t_id t_deps ord)
        else exn_cls e = InPlanner ExecutionGraphError)"
proof (cases "deps_known ts")
  case False
  then have "\<not> (\<forall>t \<in> set ts. set (t_deps t) \<subseteq> set (map t_id ts))" by (simp add: deps_known_def)
  from collect_graph_error[OF this, of "[]"] False assms(2) show ?thesis
    by (auto simp: planner_plan_def create_plan_def build_execution_graph_def)
next
  case True
  note C = closed_declared[OF assms(1) True] and G = collect_graph_ok[OF assms(1) True]
  show ?thesis
  proof (cases "validate_no_cycle (declared ts)")
    case (Inl e)
    with validate_facts[OF C] have "exn_cls e = InPlanner CycleDetectedError"
      "\<not> (\<exists>ord. mset ord = mset (map t_id ts) \<and> topo id (nbs (declared ts)) ord)" by auto
    with order_of_ids[OF assms(1)] True Inl assms(2) show ?thesis
      by (simp add: planner_plan_def create_plan_def build_execution_graph_def G)
  next
    case (Inr u)
    obtain out where out: "topological_sort ts = Inr out" "mset out = mset ts"
      "topo t_id t_deps out" "greedy t_id t_deps plan_key ts out"
      using sort_facts[OF assms(1) True] Inr by auto
    from out(2) have "length out = length ts" by (rule mset_eq_length)
    with out True Inr assms(2) show ?thesis
      by (simp add: planner_plan_def create_plan_def build_execution_graph_def G)
  qed
qed

text \<open>
  C13. Plans are correct. For tasks with distinct identifiers, planning an uncancelled goal
  succeeds exactly when every dependency names a task and the tasks have a topological order; the
  plan then is a permutation of the tasks in which each stands after its dependencies and, among
  the tasks ready at that point, has the highest priority (the smallest identifier among equals).
  Otherwise the error tells the two cases apart: \<open>ExecutionGraphError\<close> for an unknown
  dependency, \<open>CycleDetectedError\<close> when there is no such order.
\<close>

theorem plan_correct:
  assumes "distinct (map t_id ts)" and "ts \<noteq> []" and "g_state g \<noteq> GS_CANCELLED"
  shows "case planner_plan now g ts of
      Inr p \<Rightarrow> deps_known ts \<and> mset (pl_tasks p) = mset ts \<and> topo t_id t_deps (pl_tasks p) \<and>
        greedy t_id t_deps plan_key ts (pl_tasks p) \<and> pl_graph p = declared ts \<and>
        pl_steps p = length ts \<and> pl_goal p = g
    | Inl e \<Rightarrow> (if deps_known ts
        then exn_cls e = InPlanner CycleDetectedError \<and>
          \<not> (\<exists>ord. mset ord = mset ts \<and> topo t_id t_deps ord)
        else exn_cls e = InPlanner ExecutionGraphError)"
  using assms by (intro plan_facts) simp_all

definition example_task :: "string \<Rightarrow> string list \<Rightarrow> priority \<Rightarrow> task" where
  "example_task i ds p = \<lparr>t_id = i, t_goal = ''g'', t_name = i, t_description = [], t_deps = ds,
     t_priority = p, t_state = TS_PENDING, t_retries = 0, t_metadata = [], t_created = 0,
     t_updated = 0\<rparr>"

definition example_goal :: goal where
  "example_goal = \<lparr>g_id = ''g'', g_title = ''Goal'', g_description = [], g_priority = P_NORMAL,
     g_state = GS_NEW, g_metadata = [], g_created = 0, g_updated = 0\<rparr>"

theorem plan_correct_witness:
  "\<exists>p. planner_plan 0 example_goal [example_task ''a'' [''b''] P_HIGH, example_task ''b'' [] P_LOW] = Inr p \<and>
     topo t_id t_deps (pl_tasks p) \<and> pl_steps p = 2"
proof -
  let ?ts = "[example_task ''a'' [''b''] P_HIGH, example_task ''b'' [] P_LOW]"
  have d: "distinct (map t_id ?ts)" by (simp add: example_task_def)
  have s: "g_state example_goal \<noteq> GS_CANCELLED" by (simp add: example_goal_def)
  have k: "deps_known ?ts" by (simp add: deps_known_def example_task_def)
  have "topo t_id t_deps (rev ?ts)" "mset (rev ?ts) = mset ?ts"
    by (simp_all add: topo_def example_task_def less_Suc_eq)
  with plan_correct[OF d _ s, of 0] k show ?thesis
    by (auto split: sum.splits)
qed

text \<open>What the managers keep: every task and goal is stored under an identifier, tasks under their own.\<close>

definition planner_ok :: "'z plansys_scheme \<Rightarrow> bool" where
  "planner_ok s \<longleftrightarrow> index_ok (ms_index s) \<and> dict_ok (ps_tasks s) \<and> dict_ok (ps_goals s) \<and>
     (\<forall>i t. map_of (ps_tasks s) i = Some t \<longrightarrow> t_id t = i \<and> make_task t = Inr t) \<and>
     (\<forall>i g. map_of (ps_goals s) i = Some g \<longrightarrow> i \<noteq> [] \<and> make_goal g = Inr g)"

lemma make_goal_Inr: "make_goal g = Inr g' \<longleftrightarrow> g' = g \<and> g_id g \<noteq> [] \<and> g_title g \<noteq> []"
  by (auto simp: make_goal_def split: if_splits)

lemma make_task_Inr: "make_task t = Inr t' \<longleftrightarrow> t' = t \<and> t_id t \<noteq> [] \<and> t_goal t \<noteq> [] \<and> t_name t \<noteq> []"
  by (auto simp: make_task_def split: if_splits)

lemma planner_ok_goal_create:
  "planner_ok s \<Longrightarrow> make_goal g = Inr g \<Longrightarrow> planner_ok (snd (goal_create g s))"
  by (auto simp: planner_ok_def goal_create_def make_goal_Inr)

lemma planner_ok_goal_update: "planner_ok s \<Longrightarrow> planner_ok (snd (goal_update now i fs s))"
  by (auto simp: planner_ok_def goal_update_def goal_store_def goal_get_def bindA_def
      goal_with_update_def make_goal_Inr split: option.splits sum.splits if_splits)

lemma planner_ok_goal_cancel: "planner_ok s \<Longrightarrow> planner_ok (snd (goal_cancel now i s))"
  by (auto simp: planner_ok_def goal_cancel_def goal_store_def goal_get_def bindA_def
      goal_with_state_def make_goal_Inr split: option.splits sum.splits if_splits)

lemma planner_ok_task_create:
  "planner_ok s \<Longrightarrow> make_task t = Inr t \<Longrightarrow> planner_ok (snd (task_create t s))"
  by (auto simp: planner_ok_def task_create_def)

lemma planner_ok_task_transition: "planner_ok s \<Longrightarrow> planner_ok (snd (task_transition now st i s))"
  by (auto simp: planner_ok_def task_transition_def task_get_def bindA_def task_with_state_def
      make_task_Inr split: option.splits sum.splits if_splits)

definition goal_tasks :: "string \<Rightarrow> 'z plansys_scheme \<Rightarrow> task list" where
  "goal_tasks i s = filter (\<lambda>t. t_goal t = i) (task_list s)"

lemma goal_tasks_distinct: "planner_ok s \<Longrightarrow> distinct (map t_id (goal_tasks i s))"
proof -
  assume ok: "planner_ok s"
  have "map (\<lambda>x. t_id (snd x)) (ps_tasks s) = map fst (ps_tasks s)"
    using ok by (auto simp: planner_ok_def dict_mem_map_of[symmetric])
  then have "map t_id (task_list s) = map fst (ps_tasks s)" by (simp add: task_list_def comp_def)
  then have "distinct (map t_id (task_list s))" using ok by (simp add: planner_ok_def dict_ok_def)
  then show ?thesis unfolding goal_tasks_def by (rule distinct_map_filter)
qed

lemma json_plan: "json_ok (VDict [
       (''goal_id'', VStr i), (''task_ids'', VList (map (\<lambda>t. VStr (t_id t)) ts)),
       (''graph'', VDict (map (\<lambda>(t, ds). (t, VList (map VStr ds))) g)),
       (''estimated_steps'', VInt n), (''created_at'', VStr c)])"
  by (auto simp: list_all_iff)

lemma make_record_Inr:
  assumes "rw_id w \<noteq> []" "rw_owner w \<noteq> []" "rw_namespace w = VStr ns" "ns \<noteq> []" "rw_title w = VStr ti"
    and "rw_metadata w = VDict md" "rw_tags w = VList (map VStr ts)" "json_ok (rw_content w)"
  shows "\<exists>r. make_record txt w = Inr r \<and> mr_id r = rw_id w \<and> mr_owner r = rw_owner w \<and>
    mr_namespace r = ns \<and> mr_content r = rw_content w"
  using assms by (simp add: make_record_def)

lemma plan_record_made:
  assumes "i \<noteq> []"
  shows "\<exists>r. make_record txt (plan_record time_text now i g p u) = Inr r \<and>
    mr_namespace r = ''planner'' \<and> mr_owner r = i \<and> mr_id r = ''planner:'' @ i @ '':'' @ uuid_hex u \<and>
    mr_content r = rw_content (plan_record time_text now i g p u)"
proof -
  let ?w = "plan_record time_text now i g p u"
  have "\<exists>r. make_record txt ?w = Inr r \<and> mr_id r = rw_id ?w \<and> mr_owner r = rw_owner ?w \<and>
      mr_namespace r = ''planner'' \<and> mr_content r = rw_content ?w"
  proof (rule make_record_Inr)
    show "rw_tags ?w = VList (map VStr [''planner'', ''goal''])" by (simp add: plan_record_def)
    show "json_ok (rw_content ?w)"
      unfolding plan_record_def raw_record.simps by (rule json_plan)
  qed (use assms in \<open>simp_all add: plan_record_def\<close>)
  moreover have "rw_id ?w = ''planner:'' @ i @ '':'' @ uuid_hex u" "rw_owner ?w = i"
    by (simp_all add: plan_record_def)
  ultimately show ?thesis by metis
qed

text \<open>The condition under which a goal can be planned.\<close>

definition plannable :: "string \<Rightarrow> 'z plansys_scheme \<Rightarrow> bool" where
  "plannable i s \<longleftrightarrow> (\<exists>g. map_of (ps_goals s) i = Some g \<and> g_state g \<noteq> GS_CANCELLED) \<and>
     goal_tasks i s \<noteq> [] \<and> deps_known (goal_tasks i s) \<and>
     (\<exists>ord. mset ord = mset (goal_tasks i s) \<and> topo t_id t_deps ord)"

lemma plan_for_cases:
  assumes "planner_ok s"
  shows "(plannable i s \<and> (\<exists>g p. map_of (ps_goals s) i = Some g \<and> plan_for now i s = (Inr (g, p), s) \<and>
       mset (pl_tasks p) = mset (goal_tasks i s) \<and> topo t_id t_deps (pl_tasks p) \<and>
       greedy t_id t_deps plan_key (goal_tasks i s) (pl_tasks p) \<and>
       pl_steps p = length (goal_tasks i s) \<and> pl_goal p = g)) \<or>
    (\<not> plannable i s \<and> (\<exists>e. plan_for now i s = (Inl e, s) \<and> is_planner_error (exn_cls e)))"
proof (cases "map_of (ps_goals s) i")
  case None
  then show ?thesis by (simp add: plannable_def plan_for_def goal_get_def bindA_def goal_error_def)
next
  case (Some g)
  have pf: "plan_for now i s = (case planner_plan now g (goal_tasks i s) of
      Inl e \<Rightarrow> (Inl e, s) | Inr plan \<Rightarrow> (Inr (g, plan), s))"
    using Some by (simp add: plan_for_def goal_get_def bindA_def goal_tasks_def)
  show ?thesis
  proof (cases "g_state g = GS_CANCELLED \<or> goal_tasks i s = []")
    case True
    with Some pf show ?thesis by (auto simp: plannable_def planner_plan_def)
  next
    case False
    note P = goal_tasks_distinct[OF assms, of i] False
    show ?thesis
    proof (cases "planner_plan now g (goal_tasks i s)")
      case (Inl e)
      have "\<not> plannable i s \<and> is_planner_error (exn_cls e)"
        using plan_facts[OF P(1), of g now] False Inl by (auto simp: plannable_def split: if_splits)
      with Inl pf show ?thesis by simp
    next
      case (Inr p)
      have "deps_known (goal_tasks i s) \<and> mset (pl_tasks p) = mset (goal_tasks i s) \<and>
          topo t_id t_deps (pl_tasks p) \<and> greedy t_id t_deps plan_key (goal_tasks i s) (pl_tasks p) \<and>
          pl_steps p = length (goal_tasks i s) \<and> pl_goal p = g"
        using plan_facts[OF P(1), of g now] False Inr by auto
      with Inr pf Some False show ?thesis by (auto simp: plannable_def)
    qed
  qed
qed

lemma build_plan_refused:
  assumes "planner_ok s" "\<not> plannable i s"
  shows "\<exists>msg. build_plan uid txt time_text now (Some quiet) i s =
    (Inr \<lparr>pr_success = False, pr_plan = None, pr_error = Some msg\<rparr>,
     s\<lparr>w_trace := w_trace s @ [EvPlanner (PlanFailed i msg)]\<rparr>)"
proof -
  from plan_for_cases[OF assms(1), of i now] assms(2) obtain e where
    "plan_for now i s = (Inl e, s)" "is_planner_error (exn_cls e)" by blast
  then show ?thesis
    by (simp add: build_plan_def plan_failure_def seqA_def bindA_def ret_def del: quiet_apply)
qed

text \<open>What the record of a plan for the tasks says: whose plan it is, the order and the number of steps.\<close>

definition remembers :: "string \<Rightarrow> task list \<Rightarrow> execution_plan \<Rightarrow> memory_record \<Rightarrow> bool" where
  "remembers i ts p r \<longleftrightarrow> mr_namespace r = ''planner'' \<and> mr_owner r = i \<and>
     (\<exists>content. mr_content r = VDict content \<and> map_of content ''goal_id'' = Some (VStr i) \<and>
        map_of content ''task_ids'' = Some (VList (map (\<lambda>t. VStr (t_id t)) (pl_tasks p))) \<and>
        map_of content ''estimated_steps'' = Some (VInt (int (length ts))))"

text \<open>\<open>plan_stored\<close>: the state after a plan has been stored as the record \<open>r\<close>.\<close>

definition plan_stored ::
  "string \<Rightarrow> memory_record \<Rightarrow> execution_plan \<Rightarrow> 'z plansys_scheme \<Rightarrow> 'z plansys_scheme" where
  "plan_stored i r p s = s\<lparr>w_uid := Suc (w_uid s), ms_index := index_add r (ms_index s),
     w_trace := w_trace s @ [EvMemory (MemoryStored (mr_id r) i ''planner''),
       EvPlanner (PlanCreated i (mr_id r) (pl_steps p))]\<rparr>"

lemma build_plan_runs:
  assumes "planner_ok s" "plannable i s"
    and "memory_map (ms_index s) (''planner:'' @ i @ '':'' @ uuid_hex (uid (w_uid s))) = None"
  obtains p r where "build_plan uid txt time_text now (Some quiet) i s =
      (Inr \<lparr>pr_success = True, pr_plan = Some p, pr_error = None\<rparr>, plan_stored i r p s)"
    and "mset (pl_tasks p) = mset (goal_tasks i s)" "topo t_id t_deps (pl_tasks p)"
    and "pl_steps p = length (goal_tasks i s)" "g_id (pl_goal p) \<noteq> []"
    and "mr_namespace r = ''planner''" "mr_owner r = i" "planner_ok (plan_stored i r p s)"
    and "memory_map (index_add r (ms_index s)) = (memory_map (ms_index s))(mr_id r \<mapsto> r)"
    and "greedy t_id t_deps plan_key (goal_tasks i s) (pl_tasks p)"
    and "remembers i (goal_tasks i s) p r"
proof -
  from plan_for_cases[OF assms(1), of i now] assms(2) obtain g p where
    g: "map_of (ps_goals s) i = Some g" "plan_for now i s = (Inr (g, p), s)" and
    p: "mset (pl_tasks p) = mset (goal_tasks i s)" "topo t_id t_deps (pl_tasks p)"
       "pl_steps p = length (goal_tasks i s)" "pl_goal p = g"
       "greedy t_id t_deps plan_key (goal_tasks i s) (pl_tasks p)" by blast
  from g(1) assms(1) have i: "i \<noteq> []" "make_goal g = Inr g" by (simp_all add: planner_ok_def)
  then have goal: "g_id (pl_goal p) \<noteq> []" using p(4) by (simp add: make_goal_Inr)
  obtain r where r: "make_record txt (plan_record time_text now i g p (uid (w_uid s))) = Inr r"
    "mr_namespace r = ''planner''" "mr_owner r = i"
    "mr_id r = ''planner:'' @ i @ '':'' @ uuid_hex (uid (w_uid s))"
    "mr_content r = rw_content (plan_record time_text now i g p (uid (w_uid s)))"
    using plan_record_made[OF i(1), of "txt" time_text now g p "uid (w_uid s)"] by blast
  have new: "memory_map (ms_index s) (mr_id r) = None" using assms(3) r(4) by simp
  have "index_ok (index_add r (ms_index s))"
    using assms(1) new make_record_ok[OF r(1)] by (simp add: planner_ok_def index_ok_add)
  then have ok: "planner_ok (plan_stored i r p s)"
    using assms(1) by (simp add: planner_ok_def plan_stored_def)
  have "build_plan uid txt time_text now (Some quiet) i s =
      (Inr \<lparr>pr_success = True, pr_plan = Some p, pr_error = None\<rparr>, plan_stored i r p s)"
    using new by (simp add: build_plan_def g(2) store_plan_def bindA_def seqA_def fresh_uid_def
        liftA_def r ret_def remember_def store_add_eq plan_stored_def del: quiet_apply)
  moreover have "remembers i (goal_tasks i s) p r"
    using r(2,3,5) p(3) by (simp add: remembers_def plan_record_def)
  ultimately show thesis
    using that p(1-3,5) goal r(2,3) ok by (simp add: memory_map_add)
qed

text \<open>
  C23. Building a plan is all or nothing: in a consistent planner, on a bus where no middleware
  raises, and when the identifier drawn for the memory record is new, \<open>build_plan\<close> never raises,
  keeps the planner consistent and touches no goal and no task. It succeeds exactly when the goal is
  known and not cancelled and has tasks, with known dependencies and a topological order. Then the
  plan has exactly the goal's tasks, each after its dependencies and by priority among those ready,
  and exactly one record, owned by the goal, with the identifiers of the tasks in the order of the
  plan, is added to the memory, announced by a storage and a plan event. Otherwise nothing is
  stored and the only event is one failure with the error of the result.
\<close>

theorem build_plan_total:
  assumes "planner_ok s"
    and "memory_map (ms_index s) (''planner:'' @ i @ '':'' @ uuid_hex (uid (w_uid s))) = None"
  shows "\<exists>res s'. build_plan uid txt time_text now (Some quiet) i s = (Inr res, s') \<and> planner_ok s' \<and>
    ps_goals s' = ps_goals s \<and> ps_tasks s' = ps_tasks s \<and> pr_success res = plannable i s \<and>
    (if plannable i s
     then \<exists>p r. pr_plan res = Some p \<and> pr_error res = None \<and>
       mset (pl_tasks p) = mset (goal_tasks i s) \<and> topo t_id t_deps (pl_tasks p) \<and>
       greedy t_id t_deps plan_key (goal_tasks i s) (pl_tasks p) \<and> remembers i (goal_tasks i s) p r \<and>
       memory_map (ms_index s') = (memory_map (ms_index s))(mr_id r \<mapsto> r) \<and>
       w_trace s' = w_trace s @ [EvMemory (MemoryStored (mr_id r) i ''planner''),
         EvPlanner (PlanCreated i (mr_id r) (length (goal_tasks i s)))]
     else \<exists>msg. pr_plan res = None \<and> pr_error res = Some msg \<and>
       memory_map (ms_index s') = memory_map (ms_index s) \<and>
       w_trace s' = w_trace s @ [EvPlanner (PlanFailed i msg)])"
proof (cases "plannable i s")
  case False
  with build_plan_refused[OF assms(1) False, of uid "txt" time_text now] assms(1) show ?thesis
    by (auto simp: planner_ok_def)
next
  case True
  obtain p r where "build_plan uid txt time_text now (Some quiet) i s =
      (Inr \<lparr>pr_success = True, pr_plan = Some p, pr_error = None\<rparr>, plan_stored i r p s)"
    "mset (pl_tasks p) = mset (goal_tasks i s)" "topo t_id t_deps (pl_tasks p)"
    "pl_steps p = length (goal_tasks i s)"
    "mr_namespace r = ''planner''" "mr_owner r = i" "planner_ok (plan_stored i r p s)"
    "memory_map (index_add r (ms_index s)) = (memory_map (ms_index s))(mr_id r \<mapsto> r)"
    "greedy t_id t_deps plan_key (goal_tasks i s) (pl_tasks p)" "remembers i (goal_tasks i s) p r"
    by (rule build_plan_runs[where uid = uid and i = i, OF assms(1) True assms(2), of "txt" time_text now]) blast
  with True show ?thesis by (auto simp: plan_stored_def)
qed

definition example_plansys :: plansys where
  "example_plansys = \<lparr>w_trace = [], w_uid = 0, ms_index = new_index,
     ps_goals = [(''g'', example_goal)],
     ps_tasks = [(''a'', example_task ''a'' [''b''] P_HIGH), (''b'', example_task ''b'' [] P_LOW)]\<rparr>"

lemma example_planner_ok: "planner_ok example_plansys"
  by (simp add: planner_ok_def example_plansys_def index_ok_new dict_ok_def example_task_def
      example_goal_def make_task_Inr make_goal_Inr)

lemma example_plannable: "plannable ''g'' example_plansys"
proof -
  let ?ts = "[example_task ''a'' [''b''] P_HIGH, example_task ''b'' [] P_LOW]"
  have ts: "goal_tasks ''g'' example_plansys = ?ts"
    by (simp add: goal_tasks_def task_list_def example_plansys_def example_task_def)
  have "mset (rev ?ts) = mset ?ts \<and> topo t_id t_deps (rev ?ts)" "deps_known ?ts"
    by (simp_all add: topo_def example_task_def less_Suc_eq deps_known_def)
  then show ?thesis
    unfolding plannable_def ts by (intro conjI exI[of _ "rev ?ts"])
      (simp_all add: example_plansys_def example_goal_def)
qed

theorem build_plan_total_witness:
  "\<exists>res s'. build_plan str_of_nat (\<lambda>v. []) (\<lambda>t. []) 3 (Some quiet) ''g'' example_plansys = (Inr res, s') \<and>
     pr_success res"
proof -
  have fresh: "memory_map (ms_index example_plansys)
      (''planner:'' @ ''g'' @ '':'' @ uuid_hex (str_of_nat (w_uid example_plansys))) = None"
    by (simp add: example_plansys_def memory_map_def new_index_def)
  with build_plan_total[of example_plansys "''g''" str_of_nat "\<lambda>v. []" "\<lambda>t. []" 3]
    example_planner_ok example_plannable
  show ?thesis by blast
qed

end
