(* ===== verification/Identity.thy ===== *)
theory Identity
  imports Memory
begin

text \<open>
  The identity system (core/identity): the identity and session registries, authentication with
  its per-task context (the context variables and their stack of tokens), authorization by roles
  and explicit grants, and the manager's operations. The model is of one task: the context
  variables are fields of the state, and resetting a token restores the value the variable had
  before the \<open>set\<close> that issued it. The clock is a supply \<open>clk\<close> of readings.
\<close>

section \<open>Models\<close>

datatype role = OWNER | ADMIN | ASSISTANT | GUEST | AUTOMATION | DEVELOPER

datatype permission = READ_MEMORY | WRITE_MEMORY | OPEN_APPLICATION | CONTROL_DEVICE | SEND_MESSAGE
  | MAKE_CALL | READ_FILES | WRITE_FILES | VOICE_OUTPUT | MICROPHONE | CAMERA | LOCATION | PAYMENTS
  | NETWORK | SYSTEM

fun permission_name :: "permission \<Rightarrow> string" where
  "permission_name READ_MEMORY = ''READ_MEMORY''"
| "permission_name WRITE_MEMORY = ''WRITE_MEMORY''"
| "permission_name OPEN_APPLICATION = ''OPEN_APPLICATION''"
| "permission_name CONTROL_DEVICE = ''CONTROL_DEVICE''"
| "permission_name SEND_MESSAGE = ''SEND_MESSAGE''"
| "permission_name MAKE_CALL = ''MAKE_CALL''"
| "permission_name READ_FILES = ''READ_FILES''"
| "permission_name WRITE_FILES = ''WRITE_FILES''"
| "permission_name VOICE_OUTPUT = ''VOICE_OUTPUT''"
| "permission_name MICROPHONE = ''MICROPHONE''"
| "permission_name CAMERA = ''CAMERA''"
| "permission_name LOCATION = ''LOCATION''"
| "permission_name PAYMENTS = ''PAYMENTS''"
| "permission_name NETWORK = ''NETWORK''"
| "permission_name SYSTEM = ''SYSTEM''"

definition all_permissions :: "permission list" where
  "all_permissions = [READ_MEMORY, WRITE_MEMORY, OPEN_APPLICATION, CONTROL_DEVICE, SEND_MESSAGE,
     MAKE_CALL, READ_FILES, WRITE_FILES, VOICE_OUTPUT, MICROPHONE, CAMERA, LOCATION, PAYMENTS,
     NETWORK, SYSTEM]"

text \<open>\<open>DefaultPermissionPolicy\<close>.\<close>

fun default_policy :: "role \<Rightarrow> permission list" where
  "default_policy OWNER = all_permissions"
| "default_policy ADMIN = [READ_MEMORY, WRITE_MEMORY, OPEN_APPLICATION, READ_FILES, WRITE_FILES,
     NETWORK, SYSTEM]"
| "default_policy ASSISTANT = [READ_MEMORY, WRITE_MEMORY, OPEN_APPLICATION, SEND_MESSAGE,
     VOICE_OUTPUT, NETWORK]"
| "default_policy GUEST = [READ_MEMORY, OPEN_APPLICATION]"
| "default_policy AUTOMATION = [READ_MEMORY, WRITE_MEMORY, CONTROL_DEVICE, READ_FILES,
     WRITE_FILES, NETWORK]"
| "default_policy DEVELOPER = all_permissions"

record identity =
  i_id :: string
  i_username :: string
  i_display :: string
  i_email :: "string option"
  i_roles :: "role list"
  i_metadata :: args
  i_active :: bool

record session =
  se_id :: string
  se_identity :: string
  se_device :: "string option"
  se_started :: int
  se_expires :: "int option"
  se_authenticated :: bool

text \<open>
  A frame of the context stack: the session it was pushed for, and the values the two tokens
  restore.
\<close>

record frame =
  fr_session :: string
  fr_prev_session :: "session option"
  fr_prev_identity :: "identity option"

record idsys = world +
  is_by_id :: "(string, identity) pydict"
  is_by_username :: "(string, identity) pydict"
  is_sessions :: "(string, session) pydict"
  is_session :: "session option"
  is_identity :: "identity option"
  is_stack :: "frame list"
  is_grants :: "(string, permission list) pydict"
  is_tick :: nat

definition read_clock :: "(nat \<Rightarrow> int) \<Rightarrow> ('z idsys_scheme, int) act" where
  "read_clock clk s = (Inr (clk (is_tick s)), s\<lparr>is_tick := Suc (is_tick s)\<rparr>)"

section \<open>Identity registry\<close>

definition identity_error :: "string \<Rightarrow> pyexn" where
  "identity_error m = Exn (InIdentity IdentityRegistrationError) m"

definition id_taken_msg :: "string \<Rightarrow> string" where
  "id_taken_msg i = ''Identity with ID '' @ quoted i @ '' already exists.''"

definition username_exists_msg :: "string \<Rightarrow> string" where
  "username_exists_msg u = ''Identity with username '' @ quoted u @ '' already exists.''"

definition replace_missing_msg :: "string \<Rightarrow> string" where
  "replace_missing_msg i = ''Identity with ID '' @ quoted i @ '' does not exist to replace.''"

definition username_taken_msg :: "string \<Rightarrow> string" where
  "username_taken_msg u = ''Username '' @ quoted u @ '' is already taken.''"

definition id_register :: "identity \<Rightarrow> ('z idsys_scheme, unit) act" where
  "id_register i s =
     (if map_of (is_by_id s) (i_id i) \<noteq> None then (Inl (identity_error (id_taken_msg (i_id i))), s)
      else if map_of (is_by_username s) (i_username i) \<noteq> None
      then (Inl (identity_error (username_exists_msg (i_username i))), s)
      else (Inr (), s\<lparr>is_by_id := AList.update (i_id i) i (is_by_id s),
              is_by_username := AList.update (i_username i) i (is_by_username s)\<rparr>))"

definition id_remove :: "string \<Rightarrow> ('z idsys_scheme, unit) act" where
  "id_remove k s = (case map_of (is_by_id s) k of
     None \<Rightarrow> (Inr (), s\<lparr>is_by_id := AList.delete k (is_by_id s)\<rparr>)
   | Some i \<Rightarrow> (Inr (), s\<lparr>is_by_id := AList.delete k (is_by_id s),
                   is_by_username := AList.delete (i_username i) (is_by_username s)\<rparr>))"

definition id_replace :: "identity \<Rightarrow> ('z idsys_scheme, unit) act" where
  "id_replace i s = (case map_of (is_by_id s) (i_id i) of
     None \<Rightarrow> (Inl (identity_error (replace_missing_msg (i_id i))), s)
   | Some old \<Rightarrow>
      (if i_username old \<noteq> i_username i \<and> map_of (is_by_username s) (i_username i) \<noteq> None
       then (Inl (identity_error (username_taken_msg (i_username i))), s)
       else (let names = (if i_username old \<noteq> i_username i
                then AList.delete (i_username old) (is_by_username s) else is_by_username s)
             in (Inr (), s\<lparr>is_by_id := AList.update (i_id i) i (is_by_id s),
                    is_by_username := AList.update (i_username i) i names\<rparr>))))"

definition id_get :: "string \<Rightarrow> 'z idsys_scheme \<Rightarrow> identity option" where
  "id_get k s = map_of (is_by_id s) k"

definition id_get_by_username :: "string \<Rightarrow> 'z idsys_scheme \<Rightarrow> identity option" where
  "id_get_by_username u s = map_of (is_by_username s) u"

definition id_exists :: "string \<Rightarrow> 'z idsys_scheme \<Rightarrow> bool" where
  "id_exists k s = (map_of (is_by_id s) k \<noteq> None)"

definition id_list :: "'z idsys_scheme \<Rightarrow> identity list" where
  "id_list s = dict_values (is_by_id s)"

definition id_clear :: "('z idsys_scheme, unit) act" where
  "id_clear s = (Inr (), s\<lparr>is_by_id := [], is_by_username := []\<rparr>)"

section \<open>Session registry\<close>

definition session_taken_msg :: "string \<Rightarrow> string" where
  "session_taken_msg i = ''Session '' @ quoted i @ '' already exists.''"

definition session_register :: "session \<Rightarrow> ('z idsys_scheme, unit) act" where
  "session_register x s = (if map_of (is_sessions s) (se_id x) \<noteq> None
     then (Inl (Exn (InIdentity SessionRegistrationError) (session_taken_msg (se_id x))), s)
     else (Inr (), s\<lparr>is_sessions := AList.update (se_id x) x (is_sessions s)\<rparr>))"

definition session_remove :: "string \<Rightarrow> ('z idsys_scheme, unit) act" where
  "session_remove i s = (Inr (), s\<lparr>is_sessions := AList.delete i (is_sessions s)\<rparr>)"

definition session_get :: "string \<Rightarrow> 'z idsys_scheme \<Rightarrow> session option" where
  "session_get i s = map_of (is_sessions s) i"

definition list_by_identity :: "string \<Rightarrow> 'z idsys_scheme \<Rightarrow> session list" where
  "list_by_identity i s = filter (\<lambda>x. se_identity x = i) (dict_values (is_sessions s))"

definition session_clear :: "('z idsys_scheme, unit) act" where
  "session_clear s = (Inr (), s\<lparr>is_sessions := []\<rparr>)"

section \<open>Authentication\<close>

definition is_expired :: "(nat \<Rightarrow> int) \<Rightarrow> session option \<Rightarrow> ('z idsys_scheme, bool) act" where
  "is_expired clk x = (case x of
     None \<Rightarrow> ret False
   | Some se \<Rightarrow> (case se_expires se of
       None \<Rightarrow> ret False
     | Some t \<Rightarrow> bindA (read_clock clk) (\<lambda>now. ret (now \<ge> t))))"

definition push_context :: "session \<Rightarrow> identity \<Rightarrow> ('z idsys_scheme, unit) act" where
  "push_context x i s = (Inr (), s\<lparr>is_session := Some x, is_identity := Some i,
     is_stack := is_stack s @ [\<lparr>fr_session = se_id x, fr_prev_session = is_session s,
       fr_prev_identity = is_identity s\<rparr>]\<rparr>)"

text \<open>
  The last frame of the session is removed; only when it is the top frame are the context
  variables reset. \<open>None\<close> is the call with no session, which no frame matches.
\<close>

definition restore_context :: "string option \<Rightarrow> ('z idsys_scheme, bool) act" where
  "restore_context sid s =
     (let frames = rev (is_stack s);
          above = takeWhile (\<lambda>f. Some (fr_session f) \<noteq> sid) frames
      in case dropWhile (\<lambda>f. Some (fr_session f) \<noteq> sid) frames of
        [] \<Rightarrow> (Inr False, s)
      | f # below \<Rightarrow>
          (let s1 = (if above = []
              then s\<lparr>is_session := fr_prev_session f, is_identity := fr_prev_identity f\<rparr> else s)
           in (Inr True, s1\<lparr>is_stack := rev (above @ below)\<rparr>)))"

definition inactive_msg :: "string \<Rightarrow> string" where
  "inactive_msg i = ''Identity '' @ quoted i @ '' is not active.''"

definition unregistered_msg :: "string \<Rightarrow> string" where
  "unregistered_msg i = ''Identity '' @ quoted i @ '' is not registered.''"

definition expired_early_msg :: "string \<Rightarrow> string" where
  "expired_early_msg i = ''Session '' @ quoted i @ '' has expired before authentication completed.''"

definition expired_msg :: "string \<Rightarrow> string" where
  "expired_msg i = ''Session '' @ quoted i @ '' has expired.''"

text \<open>\<open>cfg\<close> is what reading the configured timeout (in seconds) gives; times are microseconds.\<close>

definition session_timeout :: "pyexn + int \<Rightarrow> int" where
  "session_timeout cfg = (case cfg of Inr n \<Rightarrow> n | Inl e \<Rightarrow> 86400)"

definition authenticate ::
  "(nat \<Rightarrow> int) \<Rightarrow> (nat \<Rightarrow> string) \<Rightarrow> pyexn + int \<Rightarrow> bus option \<Rightarrow> identity \<Rightarrow> string option \<Rightarrow>
   ('z idsys_scheme, session) act" where
  "authenticate clk uid cfg mb i device s =
     (if \<not> i_active i then (Inl (Exn (InIdentity AuthenticationError) (inactive_msg (i_id i))), s)
      else if \<not> id_exists (i_id i) s
      then (Inl (Exn (InIdentity AuthenticationError) (unregistered_msg (i_id i))), s)
      else if session_timeout cfg \<le> 0
      then (Inl (Exn (InIdentity SessionExpiredError) ''Session timeout is not positive.''), s)
      else bindA (read_clock clk) (\<lambda>now.
        bindA (fresh_uid uid) (\<lambda>u.
        let x = \<lparr>se_id = uuid_hex u, se_identity = i_id i, se_device = device, se_started = now,
                 se_expires = Some (now + 1000000 * session_timeout cfg), se_authenticated = True\<rparr> in
        seqA (session_register x)
        (bindA (is_expired clk (Some x)) (\<lambda>late.
          if late then seqA (session_remove (se_id x))
            (raise (InIdentity SessionExpiredError) (expired_early_msg (se_id x)))
          else seqA (push_context x i)
            (seqA (notify mb (EvIdentity (IdentityAuthenticated (i_id i) (se_id x))))
             (ret x)))))) s)"

definition logout_target :: "string option \<Rightarrow> 'z idsys_scheme \<Rightarrow> string option" where
  "logout_target sid s = (case sid of
     Some (c # cs) \<Rightarrow> Some (c # cs)
   | _ \<Rightarrow> (case is_session s of None \<Rightarrow> None | Some x \<Rightarrow> Some (se_id x)))"

definition logout ::
  "(nat \<Rightarrow> int) \<Rightarrow> bus option \<Rightarrow> string option \<Rightarrow> ('z idsys_scheme, unit) act" where
  "logout clk mb sid s = (case logout_target sid s of
     None \<Rightarrow> (Inr (), s)
   | Some t \<Rightarrow>
      (if t = [] then (Inr (), s)
       else (case session_get t s of
          None \<Rightarrow> (Inr (), s)
        | Some x \<Rightarrow> bindA (is_expired clk (Some x)) (\<lambda>late.
            if late then seqA (session_remove t) (bindA (restore_context (Some t)) (\<lambda>b.
              raise (InIdentity SessionExpiredError) (expired_msg t)))
            else seqA (session_remove t) (bindA (restore_context (Some t)) (\<lambda>b.
              notify mb (EvIdentity (IdentityLoggedOut (se_identity x) t))))) s)))"

definition current_session :: "(nat \<Rightarrow> int) \<Rightarrow> ('z idsys_scheme, session option) act" where
  "current_session clk s = (case is_session s of
     None \<Rightarrow> (Inr None, s)
   | Some x \<Rightarrow> bindA (is_expired clk (Some x)) (\<lambda>late.
       if late then seqA (session_remove (se_id x))
         (bindA (restore_context (Some (se_id x))) (\<lambda>b. ret None))
       else ret (Some x)) s)"

definition current_identity :: "(nat \<Rightarrow> int) \<Rightarrow> ('z idsys_scheme, identity option) act" where
  "current_identity clk = bindA (current_session clk) (\<lambda>x s. (case x of
     None \<Rightarrow> (Inr None, s) | Some y \<Rightarrow> (Inr (is_identity s), s)))"

definition set_context ::
  "session option \<Rightarrow> identity option \<Rightarrow> ('z idsys_scheme, unit) act" where
  "set_context x i = (case (x, i) of
     (None, None) \<Rightarrow> bindA (restore_context None) (\<lambda>b. ret ())
   | (Some y, Some j) \<Rightarrow> push_context y j
   | _ \<Rightarrow> ret ())"

primrec prune_expired ::
  "(nat \<Rightarrow> int) \<Rightarrow> session list \<Rightarrow> ('z idsys_scheme, session list) act" where
  "prune_expired clk [] = ret []"
| "prune_expired clk (x # xs) = bindA (is_expired clk (Some x)) (\<lambda>late.
     if late then seqA (session_remove (se_id x)) (prune_expired clk xs)
     else bindA (prune_expired clk xs) (\<lambda>ys. ret (x # ys)))"

definition active_sessions :: "(nat \<Rightarrow> int) \<Rightarrow> string \<Rightarrow> ('z idsys_scheme, session list) act" where
  "active_sessions clk i s = prune_expired clk (list_by_identity i s) s"

section \<open>Authorization\<close>

text \<open>Reading the explicit grants of an identity creates its (empty) set.\<close>

definition explicit_grants :: "string \<Rightarrow> ('z idsys_scheme, permission list) act" where
  "explicit_grants i s = (case map_of (is_grants s) i of
     None \<Rightarrow> (Inr [], s\<lparr>is_grants := AList.update i [] (is_grants s)\<rparr>)
   | Some ps \<Rightarrow> (Inr ps, s))"

definition effective_permissions ::
  "(role \<Rightarrow> permission list) \<Rightarrow> identity \<Rightarrow> ('z idsys_scheme, permission list) act" where
  "effective_permissions pol i =
     (let from_roles = fold (\<lambda>r ps. fold set_add (pol r) ps) (i_roles i) []
      in bindA (explicit_grants (i_id i)) (\<lambda>gs. ret (fold set_add gs from_roles)))"

definition has_permission ::
  "(role \<Rightarrow> permission list) \<Rightarrow> identity \<Rightarrow> permission \<Rightarrow> ('z idsys_scheme, bool) act" where
  "has_permission pol i p = (if \<not> i_active i then ret False
     else bindA (effective_permissions pol i) (\<lambda>ps. ret (p \<in> set ps)))"

definition lacks_msg :: "string \<Rightarrow> permission \<Rightarrow> string" where
  "lacks_msg i p = ''Identity '' @ quoted i @ '' lacks permission '' @ quoted (permission_name p)"

definition authorize_identity ::
  "(role \<Rightarrow> permission list) \<Rightarrow> identity \<Rightarrow> permission \<Rightarrow> ('z idsys_scheme, unit) act" where
  "authorize_identity pol i p = bindA (has_permission pol i p) (\<lambda>b.
     if b then ret () else raise (InIdentity AuthorizationError) (lacks_msg (i_id i) p))"

definition set_grants :: "string \<Rightarrow> permission list \<Rightarrow> ('z idsys_scheme, unit) act" where
  "set_grants i ps s = (Inr (), s\<lparr>is_grants := AList.update i ps (is_grants s)\<rparr>)"

definition grant :: "bus option \<Rightarrow> identity \<Rightarrow> permission \<Rightarrow> ('z idsys_scheme, unit) act" where
  "grant mb i p = bindA (explicit_grants (i_id i)) (\<lambda>ps.
     if p \<notin> set ps then seqA (set_grants (i_id i) (set_add p ps))
       (notify mb (EvIdentity (GrantPublished (i_id i) (permission_name p))))
     else ret ())"

definition revoke :: "bus option \<Rightarrow> identity \<Rightarrow> permission \<Rightarrow> ('z idsys_scheme, unit) act" where
  "revoke mb i p = bindA (explicit_grants (i_id i)) (\<lambda>ps.
     if p \<in> set ps then seqA (set_grants (i_id i) (set_discard p ps))
       (notify mb (EvIdentity (RevokePublished (i_id i) (permission_name p))))
     else ret ())"

section \<open>The manager\<close>

definition identity_shutdown :: "('z idsys_scheme, unit) act" where
  "identity_shutdown = session_clear"

definition register_identity :: "bus option \<Rightarrow> identity \<Rightarrow> ('z idsys_scheme, unit) act" where
  "register_identity mb i = seqA (id_register i)
     (notify mb (EvIdentity (IdentityRegistered (i_id i) (i_username i))))"

text \<open>
  Without a session identifier the manager asks twice for the current session, once as condition
  and once for its identifier; it may expire in between.
\<close>

definition manager_logout ::
  "(nat \<Rightarrow> int) \<Rightarrow> bus option \<Rightarrow> string option \<Rightarrow> ('z idsys_scheme, unit) act" where
  "manager_logout clk mb sid = (case sid of
     Some (c # cs) \<Rightarrow> logout clk mb (Some (c # cs))
   | _ \<Rightarrow> bindA (current_session clk) (\<lambda>x. case x of
        None \<Rightarrow> ret ()
      | Some y \<Rightarrow> bindA (current_session clk) (\<lambda>z. case z of
           None \<Rightarrow> raise (Py PyAttributeError) ''NoneType object has no attribute session_id''
         | Some w \<Rightarrow> (if se_id w = [] then ret () else logout clk mb (Some (se_id w))))))"


section \<open>The registry is consistent\<close>

definition registry_ok :: "'z idsys_scheme \<Rightarrow> bool" where
  "registry_ok s \<longleftrightarrow> dict_ok (is_by_id s) \<and> dict_ok (is_by_username s) \<and>
     (\<forall>k i. map_of (is_by_id s) k = Some i \<longrightarrow>
        i_id i = k \<and> map_of (is_by_username s) (i_username i) = Some i) \<and>
     (\<forall>u i. map_of (is_by_username s) u = Some i \<longrightarrow>
        i_username i = u \<and> map_of (is_by_id s) (i_id i) = Some i)"

lemma registry_by_id:
  "registry_ok s \<Longrightarrow> map_of (is_by_id s) k = Some i \<Longrightarrow>
   i_id i = k \<and> map_of (is_by_username s) (i_username i) = Some i"
  unfolding registry_ok_def by blast

lemma registry_by_username:
  "registry_ok s \<Longrightarrow> map_of (is_by_username s) u = Some i \<Longrightarrow>
   i_username i = u \<and> map_of (is_by_id s) (i_id i) = Some i"
  unfolding registry_ok_def by blast

text \<open>A user name belongs to one stored identity only.\<close>

lemma registry_name_unique:
  "registry_ok s \<Longrightarrow> map_of (is_by_id s) k = Some i \<Longrightarrow> map_of (is_by_id s) l = Some j \<Longrightarrow>
   i_username i = i_username j \<Longrightarrow> i = j"
  using registry_by_id[of s k i] registry_by_id[of s l j] by (metis option.inject)

lemma registry_names:
  "registry_ok s \<Longrightarrow> id_get_by_username u s = Some i \<longleftrightarrow>
     i_username i = u \<and> map_of (is_by_id s) (i_id i) = Some i"
  using registry_by_id[of s "i_id i" i] registry_by_username[of s u i]
  unfolding id_get_by_username_def by blast

datatype registry_op = RegisterId identity | RemoveId string | ReplaceId identity | ClearIds

fun run_registry_op :: "registry_op \<Rightarrow> ('z idsys_scheme, unit) act" where
  "run_registry_op (RegisterId i) = id_register i"
| "run_registry_op (RemoveId k) = id_remove k"
| "run_registry_op (ReplaceId i) = id_replace i"
| "run_registry_op ClearIds = id_clear"

text \<open>
  The specification on the map from identifiers to identities: a user name is free when no other
  identity has it.
\<close>

definition name_free :: "(string \<Rightarrow> identity option) \<Rightarrow> identity \<Rightarrow> bool" where
  "name_free m i \<longleftrightarrow> (\<forall>k j. m k = Some j \<and> k \<noteq> i_id i \<longrightarrow> i_username j \<noteq> i_username i)"

fun spec_registry_op ::
  "registry_op \<Rightarrow> (string \<Rightarrow> identity option) \<Rightarrow> (string \<Rightarrow> identity option) option" where
  "spec_registry_op (RegisterId i) m =
     (if m (i_id i) = None \<and> name_free m i then Some (m(i_id i \<mapsto> i)) else None)"
| "spec_registry_op (RemoveId k) m = Some (m(k := None))"
| "spec_registry_op (ReplaceId i) m =
     (if m (i_id i) \<noteq> None \<and> name_free m i then Some (m(i_id i \<mapsto> i)) else None)"
| "spec_registry_op ClearIds m = Some Map.empty"

lemma username_taken_iff:
  assumes "registry_ok s" "map_of (is_by_id s) (i_id i) = None"
  shows "map_of (is_by_username s) (i_username i) = None \<longleftrightarrow> name_free (map_of (is_by_id s)) i"
proof (cases "map_of (is_by_username s) (i_username i)")
  case None
  have "i_username j \<noteq> i_username i" if "map_of (is_by_id s) k = Some j" for k j
    using registry_by_id[OF assms(1) that] None by auto
  with None show ?thesis by (simp add: name_free_def) blast
next
  case (Some j)
  from registry_by_username[OF assms(1) Some]
  have "i_username j = i_username i" "map_of (is_by_id s) (i_id j) = Some j" by simp_all
  moreover from this assms(2) have "i_id j \<noteq> i_id i" by auto
  ultimately have "\<not> name_free (map_of (is_by_id s)) i" unfolding name_free_def by blast
  with Some show ?thesis by simp
qed

lemma username_kept_iff:
  assumes "registry_ok s" "map_of (is_by_id s) (i_id i) = Some old"
  shows "(i_username old \<noteq> i_username i \<and> map_of (is_by_username s) (i_username i) \<noteq> None) \<longleftrightarrow>
    \<not> name_free (map_of (is_by_id s)) i"
proof (cases "map_of (is_by_username s) (i_username i)")
  case None
  have "i_username j \<noteq> i_username i" if "map_of (is_by_id s) k = Some j" for k j
    using registry_by_id[OF assms(1) that] None by auto
  with None show ?thesis by (simp add: name_free_def)
next
  case (Some j)
  from registry_by_username[OF assms(1) Some]
  have j: "i_username j = i_username i" "map_of (is_by_id s) (i_id j) = Some j" by simp_all
  show ?thesis
  proof (cases "i_id j = i_id i")
    case True
    with j assms(2) have "j = old" by simp
    moreover have "k = i_id i" if "map_of (is_by_id s) k = Some l" "i_username l = i_username i" for k l
      using registry_name_unique[OF assms(1) that(1) j(2)] that(2) j(1) True
        registry_by_id[OF assms(1) that(1)] by simp
    then have "name_free (map_of (is_by_id s)) i" unfolding name_free_def by blast
    ultimately show ?thesis using j by simp
  next
    case False
    with j have "\<not> name_free (map_of (is_by_id s)) i" unfolding name_free_def by blast
    moreover have "i_username old \<noteq> i_username i"
      using registry_name_unique[OF assms(1,2) j(2)] j(1) False registry_by_id[OF assms] by auto
    ultimately show ?thesis using Some by simp
  qed
qed

lemma registry_ok_register:
  assumes "registry_ok s" "map_of (is_by_id s) (i_id i) = None"
    and "map_of (is_by_username s) (i_username i) = None"
  shows "registry_ok (s\<lparr>is_by_id := AList.update (i_id i) i (is_by_id s),
    is_by_username := AList.update (i_username i) i (is_by_username s)\<rparr>)"
proof -
  have "i_username j \<noteq> i_username i" if "map_of (is_by_id s) k = Some j" for k j
    using registry_by_id[OF assms(1) that] assms(3) by auto
  moreover have "i_id j \<noteq> i_id i" if "map_of (is_by_username s) u = Some j" for u j
    using registry_by_username[OF assms(1) that] assms(2) by auto
  ultimately show ?thesis
    using assms(1) registry_by_id[OF assms(1)] registry_by_username[OF assms(1)]
    unfolding registry_ok_def by simp
qed

lemma registry_ok_remove:
  assumes ok: "registry_ok s"
  shows "registry_ok (snd (id_remove k s))"
proof (cases "map_of (is_by_id s) k")
  case None
  then have "AList.delete k (is_by_id s) = is_by_id s" by (simp add: map_of_eq_None_iff)
  with None ok show ?thesis by (simp add: id_remove_def)
next
  case (Some i)
  note i = registry_by_id[OF ok Some]
  have "i_username j \<noteq> i_username i" if "map_of (is_by_id s) l = Some j" "l \<noteq> k" for l j
    using registry_name_unique[OF ok that(1) Some] registry_by_id[OF ok that(1)] i that(2) by auto
  moreover have "i_id j \<noteq> k" if "map_of (is_by_username s) u = Some j" "u \<noteq> i_username i" for u j
    using registry_by_username[OF ok that(1)] Some that(2) by auto
  ultimately show ?thesis
    using Some ok registry_by_id[OF ok] registry_by_username[OF ok]
    unfolding registry_ok_def by (simp add: id_remove_def)
qed

lemma registry_ok_replace:
  assumes ok: "registry_ok s" and old: "map_of (is_by_id s) (i_id i) = Some old"
    and free: "name_free (map_of (is_by_id s)) i"
  shows "registry_ok (snd (id_replace i s))"
proof -
  note o = registry_by_id[OF ok old]
  have new: "i_username j \<noteq> i_username i \<and> i_username j \<noteq> i_username old"
    if "map_of (is_by_id s) k = Some j" "k \<noteq> i_id i" for k j
    using free that registry_name_unique[OF ok that(1) old] registry_by_id[OF ok that(1)] o
    unfolding name_free_def by metis
  have un: "i_id j \<noteq> i_id i"
    if "map_of (is_by_username s) u = Some j" "u \<noteq> i_username old" for u j
    using registry_by_username[OF ok that(1)] old that(2) by auto
  have "\<not> (i_username old \<noteq> i_username i \<and> map_of (is_by_username s) (i_username i) \<noteq> None)"
    using username_kept_iff[OF ok old] free by blast
  then have run: "snd (id_replace i s) = s\<lparr>is_by_id := AList.update (i_id i) i (is_by_id s),
      is_by_username := AList.update (i_username i) i
        (if i_username old \<noteq> i_username i then AList.delete (i_username old) (is_by_username s)
         else is_by_username s)\<rparr>"
    using old by (auto simp: id_replace_def Let_def)
  show ?thesis
  proof (cases "i_username old = i_username i")
    case True
    with run ok registry_by_id[OF ok] registry_by_username[OF ok] new un show ?thesis
      unfolding registry_ok_def by simp
  next
    case False
    with run ok registry_by_id[OF ok] registry_by_username[OF ok] new un show ?thesis
      unfolding registry_ok_def by simp
  qed
qed

text \<open>
  C15. The identity registry refines a map from identifiers to identities with unique user names.
  From a consistent registry every operation succeeds exactly when the specification allows it
  (registering needs a new identifier and a free user name, replacing an existing identifier and
  a user name no other identity has), has exactly the specified effect, leaves everything
  unchanged when it fails, and keeps the two dictionaries consistent: looking a user name up
  gives the identity that is stored under its identifier.
\<close>

theorem identity_registry_refines_map:
  assumes "registry_ok s"
  shows "case spec_registry_op op (map_of (is_by_id s)) of
      None \<Rightarrow> \<exists>e. run_registry_op op s = (Inl e, s) \<and> exn_cls e = InIdentity IdentityRegistrationError
    | Some m \<Rightarrow> fst (run_registry_op op s) = Inr () \<and> registry_ok (snd (run_registry_op op s)) \<and>
        map_of (is_by_id (snd (run_registry_op op s))) = m \<and>
        (\<forall>u i. id_get_by_username u (snd (run_registry_op op s)) = Some i \<longleftrightarrow>
           i_username i = u \<and> m (i_id i) = Some i)"
proof (cases op)
  case (RegisterId i)
  note reg = registry_ok_register[OF assms, of i]
  have ok: "registry_ok (snd (id_register i s)) \<and> fst (id_register i s) = Inr () \<and>
      map_of (is_by_id (snd (id_register i s))) = (map_of (is_by_id s))(i_id i \<mapsto> i)"
    if "map_of (is_by_id s) (i_id i) = None" "name_free (map_of (is_by_id s)) i"
    using reg that username_taken_iff[OF assms that(1)] by (simp add: id_register_def fun_eq_iff)
  show ?thesis
  proof (cases "map_of (is_by_id s) (i_id i) = None \<and> name_free (map_of (is_by_id s)) i")
    case True
    with RegisterId ok registry_names[of "snd (id_register i s)"] show ?thesis by simp
  next
    case False
    with RegisterId username_taken_iff[OF assms, of i] show ?thesis
      by (auto simp: id_register_def identity_error_def)
  qed
next
  case (RemoveId k)
  note ok = registry_ok_remove[OF assms, of k]
  have "map_of (is_by_id (snd (id_remove k s))) = (map_of (is_by_id s))(k := None)"
    "fst (id_remove k s) = Inr ()"
    by (simp_all add: id_remove_def fun_eq_iff split: option.splits)
  with RemoveId registry_names[OF ok] ok show ?thesis by simp
next
  case (ReplaceId i)
  show ?thesis
  proof (cases "map_of (is_by_id s) (i_id i)")
    case None
    with ReplaceId show ?thesis by (simp add: id_replace_def identity_error_def)
  next
    case (Some old)
    note kept = username_kept_iff[OF assms Some]
    show ?thesis
    proof (cases "name_free (map_of (is_by_id s)) i")
      case True
      note ok = registry_ok_replace[OF assms Some True]
      have "fst (id_replace i s) = Inr () \<and>
          map_of (is_by_id (snd (id_replace i s))) = (map_of (is_by_id s))(i_id i \<mapsto> i)"
        using Some True kept by (auto simp: id_replace_def fun_eq_iff Let_def)
      with ReplaceId Some True ok registry_names[OF ok] show ?thesis by simp
    next
      case False
      with ReplaceId Some kept show ?thesis by (simp add: id_replace_def identity_error_def)
    qed
  qed
next
  case ClearIds
  then show ?thesis by (simp add: id_clear_def registry_ok_def id_get_by_username_def)
qed


definition example_identity :: "string \<Rightarrow> string \<Rightarrow> role list \<Rightarrow> identity" where
  "example_identity i u rs = \<lparr>i_id = i, i_username = u, i_display = u, i_email = None, i_roles = rs,
     i_metadata = [], i_active = True\<rparr>"

definition example_idsys :: idsys where
  "example_idsys = \<lparr>w_trace = [], w_uid = 0,
     is_by_id = [(''1'', example_identity ''1'' ''ann'' [GUEST]), (''2'', example_identity ''2'' ''bob'' [OWNER])],
     is_by_username = [(''ann'', example_identity ''1'' ''ann'' [GUEST]),
       (''bob'', example_identity ''2'' ''bob'' [OWNER])],
     is_sessions = [], is_session = None, is_identity = None, is_stack = [], is_grants = [], is_tick = 0\<rparr>"

lemma example_registry_ok: "registry_ok example_idsys"
  by (simp add: registry_ok_def example_idsys_def example_identity_def dict_ok_def)

theorem identity_registry_refines_map_witness:
  "id_get_by_username ''eve'' (snd (id_replace (example_identity ''1'' ''eve'' []) example_idsys)) =
     Some (example_identity ''1'' ''eve'' []) \<and>
   id_get_by_username ''ann'' (snd (id_replace (example_identity ''1'' ''eve'' []) example_idsys)) = None"
proof -
  have "spec_registry_op (ReplaceId (example_identity ''1'' ''eve'' [])) (map_of (is_by_id example_idsys)) =
      Some ((map_of (is_by_id example_idsys))(''1'' \<mapsto> example_identity ''1'' ''eve'' []))"
    by (auto simp: example_idsys_def name_free_def example_identity_def split: if_splits)
  from identity_registry_refines_map[OF example_registry_ok, of "ReplaceId (example_identity ''1'' ''eve'' [])",
      unfolded this]
  have names: "\<And>u i. id_get_by_username u (snd (id_replace (example_identity ''1'' ''eve'' []) example_idsys)) = Some i
      \<longleftrightarrow> i_username i = u \<and> ((map_of (is_by_id example_idsys))(''1'' \<mapsto> example_identity ''1'' ''eve'' [])) (i_id i) = Some i"
    by simp
  have "id_get_by_username ''ann'' (snd (id_replace (example_identity ''1'' ''eve'' []) example_idsys)) \<noteq> Some i" for i
    using names[of "''ann''" i] by (auto simp: example_idsys_def example_identity_def split: if_splits)
  moreover have "id_get_by_username ''eve'' (snd (id_replace (example_identity ''1'' ''eve'' []) example_idsys)) =
     Some (example_identity ''1'' ''eve'' [])"
    using names[of "''eve''" "example_identity ''1'' ''eve'' []"] by (simp add: example_identity_def)
  ultimately show ?thesis by blast
qed

section \<open>The context stack\<close>

text \<open>The session that \<open>authenticate\<close> issues, and what it leaves when nothing goes wrong.\<close>

definition issued ::
  "(nat \<Rightarrow> int) \<Rightarrow> (nat \<Rightarrow> string) \<Rightarrow> pyexn + int \<Rightarrow> identity \<Rightarrow> string option \<Rightarrow> 'z idsys_scheme \<Rightarrow> session" where
  "issued clk uid cfg i device s = \<lparr>se_id = uuid_hex (uid (w_uid s)), se_identity = i_id i,
     se_device = device, se_started = clk (is_tick s),
     se_expires = Some (clk (is_tick s) + 1000000 * session_timeout cfg), se_authenticated = True\<rparr>"

text \<open>
  An identity that can log in: active, registered, the next session identifier is new and not
  empty; and a clock no session of which expires.
\<close>

definition can_login :: "(nat \<Rightarrow> string) \<Rightarrow> identity \<Rightarrow> 'z idsys_scheme \<Rightarrow> bool" where
  "can_login uid i s \<longleftrightarrow> i_active i \<and> id_exists (i_id i) s \<and> uuid_hex (uid (w_uid s)) \<noteq> [] \<and>
     map_of (is_sessions s) (uuid_hex (uid (w_uid s))) = None"

definition never_expires :: "(nat \<Rightarrow> int) \<Rightarrow> pyexn + int \<Rightarrow> bool" where
  "never_expires clk cfg \<longleftrightarrow> session_timeout cfg > 0 \<and>
     (\<forall>m n. clk n < clk m + 1000000 * session_timeout cfg)"

definition logged_in ::
  "(nat \<Rightarrow> int) \<Rightarrow> (nat \<Rightarrow> string) \<Rightarrow> pyexn + int \<Rightarrow> identity \<Rightarrow> string option \<Rightarrow>
   'z idsys_scheme \<Rightarrow> 'z idsys_scheme" where
  "logged_in clk uid cfg i device s = (let x = issued clk uid cfg i device s in
     s\<lparr>w_trace := w_trace s @ [EvIdentity (IdentityAuthenticated (i_id i) (se_id x))],
       w_uid := Suc (w_uid s), is_sessions := AList.update (se_id x) x (is_sessions s),
       is_session := Some x, is_identity := Some i,
       is_stack := is_stack s @ [\<lparr>fr_session = se_id x, fr_prev_session = is_session s,
         fr_prev_identity = is_identity s\<rparr>],
       is_tick := is_tick s + 2\<rparr>)"

lemma authenticate_eq:
  assumes "can_login uid i s" "never_expires clk cfg"
  shows "authenticate clk uid cfg (Some quiet) i device s =
    (Inr (issued clk uid cfg i device s), logged_in clk uid cfg i device s)"
proof -
  have e: "\<not> clk n \<ge> clk m + 1000000 * session_timeout cfg" for m n
    using assms(2) by (simp add: never_expires_def not_le)
  have t: "\<not> session_timeout cfg \<le> 0" using assms(2) by (simp add: never_expires_def)
  show ?thesis
    using assms(1) e t
    by (cases s) (simp add: authenticate_def can_login_def bindA_def seqA_def ret_def read_clock_def
        fresh_uid_def session_register_def is_expired_def push_context_def logged_in_def issued_def
        Let_def del: quiet_apply)
qed

lemma restore_returns: "\<exists>b s'. restore_context t s = (Inr b, s') \<and> w_trace s' = w_trace s"
  by (cases "dropWhile (\<lambda>f. Some (fr_session f) \<noteq> t) (rev (is_stack s))")
    (auto simp add: restore_context_def Let_def simp del: dropWhile_eq_Nil_conv)

text \<open>Logging a stored session out, when it has not expired.\<close>

lemma logout_eq:
  assumes "session_get t s = Some x" "t \<noteq> []" "se_expires x = Some e" "\<not> clk (is_tick s) \<ge> e"
  shows "logout clk (Some quiet) (Some t) s =
    (Inr (), (snd (restore_context (Some t) (s\<lparr>is_tick := Suc (is_tick s),
        is_sessions := AList.delete t (is_sessions s)\<rparr>)))
      \<lparr>w_trace := w_trace s @ [EvIdentity (IdentityLoggedOut (se_identity x) t)]\<rparr>)"
proof -
  have "logout_target (Some t) s = Some t" using assms(2) by (cases t) (simp_all add: logout_target_def)
  moreover obtain b s2 where "restore_context (Some t) (s\<lparr>is_tick := Suc (is_tick s),
      is_sessions := AList.delete t (is_sessions s)\<rparr>) = (Inr b, s2)" "w_trace s2 = w_trace s"
    using restore_returns[of "Some t" "s\<lparr>is_tick := Suc (is_tick s),
      is_sessions := AList.delete t (is_sessions s)\<rparr>"] by auto
  ultimately show ?thesis
    using assms by (simp add: logout_def bindA_def seqA_def ret_def is_expired_def read_clock_def
        session_remove_def del: quiet_apply)
qed

lemma restore_top:
  "is_stack s = fs @ [\<lparr>fr_session = t, fr_prev_session = ps, fr_prev_identity = pi\<rparr>] \<Longrightarrow>
   restore_context (Some t) s = (Inr True, s\<lparr>is_session := ps, is_identity := pi, is_stack := fs\<rparr>)"
  by (simp add: restore_context_def Let_def)

lemma restore_below:
  "is_stack s = fs @ [\<lparr>fr_session = t, fr_prev_session = ps, fr_prev_identity = pi\<rparr>, g] \<Longrightarrow>
   fr_session g \<noteq> t \<Longrightarrow> restore_context (Some t) s = (Inr True, s\<lparr>is_stack := fs @ [g]\<rparr>)"
  by (simp add: restore_context_def Let_def)

text \<open>Logging in a list of identities, then out in the opposite order.\<close>

fun nested ::
  "(nat \<Rightarrow> int) \<Rightarrow> (nat \<Rightarrow> string) \<Rightarrow> pyexn + int \<Rightarrow> identity list \<Rightarrow> ('z idsys_scheme, unit) act" where
  "nested clk uid cfg [] = ret ()"
| "nested clk uid cfg (i # is) = bindA (authenticate clk uid cfg (Some quiet) i None) (\<lambda>x.
     seqA (nested clk uid cfg is) (logout clk (Some quiet) (Some (se_id x))))"

text \<open>The part of the state that belongs to the context and the sessions.\<close>

definition same_context :: "'z idsys_scheme \<Rightarrow> 'z idsys_scheme \<Rightarrow> bool" where
  "same_context s s' \<longleftrightarrow> is_session s' = is_session s \<and> is_identity s' = is_identity s \<and>
     is_stack s' = is_stack s \<and> map_of (is_sessions s') = map_of (is_sessions s) \<and>
     is_by_id s' = is_by_id s \<and> w_uid s \<le> w_uid s'"

definition fresh_supply :: "(nat \<Rightarrow> string) \<Rightarrow> 'z idsys_scheme \<Rightarrow> bool" where
  "fresh_supply uid s \<longleftrightarrow> (\<forall>m n. w_uid s \<le> m \<longrightarrow> m < n \<longrightarrow> uuid_hex (uid m) \<noteq> uuid_hex (uid n)) \<and>
     (\<forall>n. w_uid s \<le> n \<longrightarrow> uuid_hex (uid n) \<noteq> [] \<and> map_of (is_sessions s) (uuid_hex (uid n)) = None)"

text \<open>
  C34. Nested logins restore the context: as long as no session expires and the identifiers drawn
  are new, logging in any sequence of registered, active identities and logging them out in the
  opposite order never raises and restores the current session, the current identity, the
  context stack and the stored sessions.
\<close>

theorem nested_logins_restore:
  assumes "never_expires clk cfg" and "fresh_supply uid s"
    and "\<And>i. i \<in> set is \<Longrightarrow> i_active i \<and> id_exists (i_id i) s"
  shows "\<exists>s'. nested clk uid cfg is s = (Inr (), s') \<and> same_context s s'"
  using assms(2,3)
proof (induction "is" arbitrary: s)
  case Nil
  then show ?case by (simp add: ret_def same_context_def)
next
  case (Cons i "is")
  have can: "can_login uid i s" using Cons.prems by (simp add: can_login_def fresh_supply_def)
  note auth = authenticate_eq[OF can assms(1), of None]
  let ?x = "issued clk uid cfg i None s" and ?s1 = "logged_in clk uid cfg i None s"
  have "uuid_hex (uid n) \<noteq> uuid_hex (uid (w_uid s))" if "Suc (w_uid s) \<le> n" for n
    using Cons.prems(1) that unfolding fresh_supply_def by (metis Suc_le_lessD order_refl)
  then have "fresh_supply uid ?s1"
    using Cons.prems(1) by (simp add: fresh_supply_def logged_in_def issued_def Let_def)
  moreover have "\<And>j. j \<in> set is \<Longrightarrow> i_active j \<and> id_exists (i_id j) ?s1"
    using Cons.prems(2) by (simp add: logged_in_def id_exists_def Let_def)
  ultimately obtain s2 where s2: "nested clk uid cfg is ?s1 = (Inr (), s2)" "same_context ?s1 s2"
    using Cons.IH by blast
  have got: "session_get (se_id ?x) s2 = Some ?x"
    using s2(2) by (simp add: same_context_def session_get_def logged_in_def Let_def)
  have id: "se_id ?x \<noteq> []" "map_of (is_sessions s) (se_id ?x) = None"
    using can by (simp_all add: can_login_def issued_def)
  have ex: "se_expires ?x = Some (clk (is_tick s) + 1000000 * session_timeout cfg)"
    by (simp add: issued_def)
  have late: "\<not> clk (is_tick s2) \<ge> clk (is_tick s) + 1000000 * session_timeout cfg"
    using assms(1) by (simp add: never_expires_def not_le)
  have top: "is_stack s2 = is_stack s @ [\<lparr>fr_session = se_id ?x, fr_prev_session = is_session s,
      fr_prev_identity = is_identity s\<rparr>]"
    using s2(2) by (simp add: same_context_def logged_in_def Let_def)
  let ?s3 = "s2\<lparr>is_tick := Suc (is_tick s2), is_sessions := AList.delete (se_id ?x) (is_sessions s2)\<rparr>"
  have run: "nested clk uid cfg (i # is) s = (Inr (), (snd (restore_context (Some (se_id ?x)) ?s3))
      \<lparr>w_trace := w_trace s2 @ [EvIdentity (IdentityLoggedOut (se_identity ?x) (se_id ?x))]\<rparr>)"
    using auth s2(1) logout_eq[where clk = clk and t = "se_id ?x" and s = s2 and x = ?x, OF got id(1) ex late]
    by (simp add: bindA_def seqA_def del: quiet_apply)
  have "restore_context (Some (se_id ?x)) ?s3 = (Inr True, ?s3\<lparr>is_session := is_session s,
      is_identity := is_identity s, is_stack := is_stack s\<rparr>)"
    by (rule restore_top) (simp add: top)
  with run s2(2) id(2) show ?case
    by (auto simp: same_context_def logged_in_def Let_def fun_eq_iff)
qed

text \<open>Identifiers drawn from a concrete supply: strings of growing length.\<close>

definition example_uid :: "nat \<Rightarrow> string" where
  "example_uid n = replicate (Suc n) CHR ''a''"

lemma example_uid_hex: "uuid_hex (example_uid n) = replicate (Suc n) CHR ''a''"
  by (simp add: uuid_hex_def example_uid_def)

lemma example_never_expires: "never_expires (\<lambda>n. 0) (Inr 60)"
  by (simp add: never_expires_def session_timeout_def)

theorem nested_logins_restore_witness:
  "\<exists>s'. nested (\<lambda>n. 0) example_uid (Inr 60)
      [example_identity ''1'' ''ann'' [GUEST], example_identity ''2'' ''bob'' [OWNER]] example_idsys =
      (Inr (), s') \<and> same_context example_idsys s'"
proof (rule nested_logins_restore[OF example_never_expires])
  show "fresh_supply example_uid example_idsys"
    unfolding fresh_supply_def example_uid_hex
    by (auto simp: example_idsys_def dest!: arg_cong[where f = length])
next
  show "\<And>i. i \<in> set [example_identity ''1'' ''ann'' [GUEST], example_identity ''2'' ''bob'' [OWNER]] \<Longrightarrow>
      i_active i \<and> id_exists (i_id i) example_idsys"
    by (auto simp: id_exists_def example_idsys_def example_identity_def)
qed

text \<open>Logging two identities in, then out in the same order.\<close>

definition interleaved ::
  "(nat \<Rightarrow> int) \<Rightarrow> (nat \<Rightarrow> string) \<Rightarrow> pyexn + int \<Rightarrow> identity \<Rightarrow> identity \<Rightarrow>
   ('z idsys_scheme, session) act" where
  "interleaved clk uid cfg i j = bindA (authenticate clk uid cfg (Some quiet) i None) (\<lambda>x.
     bindA (authenticate clk uid cfg (Some quiet) j None) (\<lambda>y.
     seqA (logout clk (Some quiet) (Some (se_id x)))
      (seqA (logout clk (Some quiet) (Some (se_id y))) (ret x))))"

lemma fresh_supply_logged_in:
  assumes "fresh_supply uid s"
  shows "fresh_supply uid (logged_in clk uid cfg i d s)"
proof -
  have "uuid_hex (uid n) \<noteq> uuid_hex (uid (w_uid s))" if "Suc (w_uid s) \<le> n" for n
    using assms that unfolding fresh_supply_def by (metis Suc_le_lessD order_refl)
  then show ?thesis using assms by (simp add: fresh_supply_def logged_in_def issued_def Let_def)
qed

lemma can_login_fresh:
  "fresh_supply uid s \<Longrightarrow> i_active i \<Longrightarrow> id_exists (i_id i) s \<Longrightarrow> can_login uid i s"
  by (simp add: can_login_def fresh_supply_def)

text \<open>
  Logging out in the order of login leaves a logged-out session in force: when two registered,
  active identities log in and the first logs out before the second, nothing raises, both sessions
  are gone from the session registry, but the context still holds the first session and the first
  identity, \<open>current_identity\<close> returns that identity, and no frame is left that would
  ever reset it.
\<close>

theorem ordered_logout_leaves_session:
  assumes clk: "never_expires clk cfg" and uid: "fresh_supply uid s"
    and i: "i_active i" "id_exists (i_id i) s" and j: "i_active j" "id_exists (i_id j) s"
    and "is_stack s = []"
  shows "\<exists>x s'. interleaved clk uid cfg i j s = (Inr x, s') \<and> se_identity x = i_id i \<and>
    session_get (se_id x) s' = None \<and> map_of (is_sessions s') = map_of (is_sessions s) \<and>
    is_stack s' = [] \<and> fst (current_identity clk s') = Inr (Some i)"
proof -
  let ?x = "issued clk uid cfg i None s" and ?s1 = "logged_in clk uid cfg i None s"
  let ?y = "issued clk uid cfg j None ?s1" and ?s2 = "logged_in clk uid cfg j None ?s1"
  note can_i = can_login_fresh[OF uid i]
  note auth_i = authenticate_eq[OF can_i clk, of None]
  have uid1: "fresh_supply uid ?s1" by (rule fresh_supply_logged_in[OF uid])
  have "id_exists (i_id j) ?s1" using j(2) by (simp add: logged_in_def id_exists_def Let_def)
  note can_j = can_login_fresh[OF uid1 j(1) this]
  note auth_j = authenticate_eq[OF can_j clk, of None]
  have ids: "se_id ?x \<noteq> []" "se_id ?y \<noteq> []" "se_id ?y \<noteq> se_id ?x"
      "map_of (is_sessions s) (se_id ?x) = None" "map_of (is_sessions s) (se_id ?y) = None"
    using can_i can_j by (auto simp: can_login_def issued_def logged_in_def Let_def split: if_splits)
  have late: "\<not> clk m \<ge> clk n + 1000000 * session_timeout cfg" for m n
    using clk by (simp add: never_expires_def not_le)
  have got_x: "session_get (se_id ?x) ?s2 = Some ?x"
    using ids(3) by (simp add: session_get_def logged_in_def Let_def)
  let ?s3 = "?s2\<lparr>is_tick := Suc (is_tick ?s2), is_sessions := AList.delete (se_id ?x) (is_sessions ?s2),
    is_stack := [\<lparr>fr_session = se_id ?y, fr_prev_session = Some ?x, fr_prev_identity = Some i\<rparr>],
    w_trace := w_trace ?s2 @ [EvIdentity (IdentityLoggedOut (se_identity ?x) (se_id ?x))]\<rparr>"
  have out_x: "logout clk (Some quiet) (Some (se_id ?x)) ?s2 = (Inr (), ?s3)"
    using ids(3) assms(7)
    by (subst logout_eq[OF got_x ids(1) _ late])
      (simp_all add: issued_def logged_in_def Let_def restore_context_def)
  have got_y: "session_get (se_id ?y) ?s3 = Some ?y"
    using ids(3) by (simp add: session_get_def logged_in_def Let_def)
  let ?s4 = "?s3\<lparr>is_tick := Suc (is_tick ?s3), is_sessions := AList.delete (se_id ?y) (is_sessions ?s3),
    is_session := Some ?x, is_identity := Some i, is_stack := [],
    w_trace := w_trace ?s3 @ [EvIdentity (IdentityLoggedOut (se_identity ?y) (se_id ?y))]\<rparr>"
  have out_y: "logout clk (Some quiet) (Some (se_id ?y)) ?s3 = (Inr (), ?s4)"
    by (subst logout_eq[OF got_y ids(2) _ late])
      (simp_all add: issued_def restore_context_def Let_def)
  have "interleaved clk uid cfg i j s = (Inr ?x, ?s4)"
    using auth_i auth_j out_x out_y by (simp add: interleaved_def bindA_def seqA_def ret_def del: quiet_apply)
  moreover have "map_of (is_sessions ?s4) = map_of (is_sessions s)"
    using ids by (auto simp: logged_in_def Let_def fun_eq_iff)
  moreover have "fst (current_identity clk ?s4) = Inr (Some i)"
    using late by (simp add: current_identity_def current_session_def is_expired_def bindA_def ret_def
        read_clock_def issued_def)
  ultimately show ?thesis using ids(4) by (simp add: issued_def session_get_def)
qed

theorem ordered_logout_leaves_session_witness:
  "\<exists>x s'. interleaved (\<lambda>n. 0) example_uid (Inr 60) (example_identity ''1'' ''ann'' [GUEST])
      (example_identity ''2'' ''bob'' [OWNER]) example_idsys = (Inr x, s') \<and>
    fst (current_identity (\<lambda>n. 0) s') = Inr (Some (example_identity ''1'' ''ann'' [GUEST]))"
proof -
  have "fresh_supply example_uid example_idsys"
    unfolding fresh_supply_def example_uid_hex
    by (auto simp: example_idsys_def dest!: arg_cong[where f = length])
  from ordered_logout_leaves_session[OF example_never_expires this,
      of "example_identity ''1'' ''ann'' [GUEST]" "example_identity ''2'' ''bob'' [OWNER]"]
  show ?thesis by (auto simp: id_exists_def example_idsys_def example_identity_def)
qed

section \<open>Permissions\<close>

datatype grant_op = Grant identity permission | Revoke identity permission

fun run_grant :: "grant_op \<Rightarrow> ('z idsys_scheme, unit) act" where
  "run_grant (Grant i p) = grant (Some quiet) i p"
| "run_grant (Revoke i p) = revoke (Some quiet) i p"

primrec run_grants :: "grant_op list \<Rightarrow> ('z idsys_scheme, unit) act" where
  "run_grants [] = ret ()"
| "run_grants (g # gs) = seqA (run_grant g) (run_grants gs)"

text \<open>The specification: who holds which permission explicitly.\<close>

fun spec_grant :: "grant_op \<Rightarrow> (string \<times> permission) set \<Rightarrow> (string \<times> permission) set" where
  "spec_grant (Grant i p) g = insert (i_id i, p) g"
| "spec_grant (Revoke i p) g = g - {(i_id i, p)}"

definition granted :: "'z idsys_scheme \<Rightarrow> (string \<times> permission) set" where
  "granted s = {(i, p). case map_of (is_grants s) i of None \<Rightarrow> False | Some ps \<Rightarrow> p \<in> set ps}"

lemma granted_iff:
  "(i, p) \<in> granted s \<longleftrightarrow> (\<exists>ps. map_of (is_grants s) i = Some ps \<and> p \<in> set ps)"
  by (auto simp: granted_def split: option.splits)

lemma run_grant_spec:
  "\<exists>s'. run_grant g s = (Inr (), s') \<and> granted s' = spec_grant g (granted s)"
proof (cases g)
  case (Grant i p)
  then show ?thesis
    by (cases "map_of (is_grants s) (i_id i)")
      (auto simp: grant_def explicit_grants_def bindA_def seqA_def ret_def set_grants_def granted_iff
        simp del: quiet_apply split: if_splits)
next
  case (Revoke i p)
  then show ?thesis
    by (cases "map_of (is_grants s) (i_id i)")
      (auto simp: revoke_def explicit_grants_def bindA_def seqA_def ret_def set_grants_def granted_iff
        simp del: quiet_apply split: if_splits)
qed

lemma run_grants_spec:
  "\<exists>s'. run_grants gs s = (Inr (), s') \<and> granted s' = fold spec_grant gs (granted s)"
proof (induction gs arbitrary: s)
  case Nil
  then show ?case by (simp add: ret_def)
next
  case (Cons g gs)
  from run_grant_spec[of g s] obtain s1 where "run_grant g s = (Inr (), s1)"
    "granted s1 = spec_grant g (granted s)" by blast
  with Cons.IH[of s1] show ?case by (auto simp: seqA_def bindA_def)
qed

lemma set_role_permissions:
  "set (fold (\<lambda>r ps. fold set_add (pol r) ps) rs acc) = (\<Union>r\<in>set rs. set (pol r)) \<union> set acc"
  by (induction rs arbitrary: acc) (auto simp: set_fold_set_add)

lemma has_permission_spec:
  "fst (has_permission pol i p s) = Inr (i_active i \<and>
     ((\<exists>r\<in>set (i_roles i). p \<in> set (pol r)) \<or> (i_id i, p) \<in> granted s))"
  by (cases "map_of (is_grants s) (i_id i)")
    (auto simp: has_permission_def effective_permissions_def explicit_grants_def bindA_def ret_def
      Let_def set_fold_set_add set_role_permissions granted_iff)

text \<open>
  Authorization is exactly role policy plus explicit grants: after any sequence of grants and
  revocations, none of which raises, \<open>has_permission\<close> answers True precisely when the identity
  is active and either the default policy gives the permission to one of its roles or the
  permission is in the set that the sequence of grants and revocations specifies, and
  \<open>authorize\<close> succeeds in exactly these cases and raises \<open>AuthorizationError\<close> otherwise.
\<close>

theorem permission_exact:
  "\<exists>s'. run_grants gs s = (Inr (), s') \<and>
    (let holds = (i_active i \<and> ((\<exists>r\<in>set (i_roles i). p \<in> set (default_policy r)) \<or>
        (i_id i, p) \<in> fold spec_grant gs (granted s)))
     in fst (has_permission default_policy i p s') = Inr holds \<and>
        fst (authorize_identity default_policy i p s') = (if holds then Inr ()
          else Inl (Exn (InIdentity AuthorizationError) (lacks_msg (i_id i) p))))"
proof -
  obtain s' where s': "run_grants gs s = (Inr (), s')" "granted s' = fold spec_grant gs (granted s)"
    using run_grants_spec by blast
  have "fst (authorize_identity default_policy i p s') =
      (case fst (has_permission default_policy i p s') of Inr True \<Rightarrow> Inr () | Inl e \<Rightarrow> Inl e
       | Inr False \<Rightarrow> Inl (Exn (InIdentity AuthorizationError) (lacks_msg (i_id i) p)))"
    by (auto simp: authorize_identity_def bindA_def ret_def raise_def split: sum.splits prod.splits bool.splits)
  with s' show ?thesis by (auto simp: has_permission_spec Let_def)
qed


end
