(* ===== verification/Android.thy ===== *)
theory Android
  imports Runtime
begin

text \<open>
  The Android runtime (core/android without bridges and capabilities): descriptors, the base
  class of all capabilities, the adapter that makes a capability of the tool runtime out of an
  Android capability, the Android registry, health tracker and runtime manager. A capability
  gives its own step \<open>_execute_internal\<close> and, if it has them, \<open>supports_rollback\<close> and
  \<open>rollback\<close>; \<open>'d\<close> is the state of the device behind the bridges, and \<open>str_of\<close> is the text
  Python's \<open>str\<close> gives a value.
\<close>

section \<open>Models\<close>

datatype runtime_status = RtINITIALIZING | RtRUNNING | RtDEGRADED | RtSTOPPED

fun runtime_status_value :: "runtime_status \<Rightarrow> string" where
  "runtime_status_value RtINITIALIZING = ''INITIALIZING''"
| "runtime_status_value RtRUNNING = ''RUNNING''"
| "runtime_status_value RtDEGRADED = ''DEGRADED''"
| "runtime_status_value RtSTOPPED = ''STOPPED''"

datatype capability_category = CatDEVICE | CatDISPLAY | CatAUDIO | CatNETWORK | CatFILES
  | CatCOMMUNICATION | CatMEDIA | CatSENSORS | CatAPPLICATIONS

datatype security_level = SecLOW | SecNORMAL | SecHIGH | SecCRITICAL | SecSYSTEM

record descriptor =
  cd_id :: string
  cd_name :: string
  cd_description :: string
  cd_version :: string
  cd_category :: capability_category
  cd_security :: security_level
  cd_permissions :: "string list"
  cd_requires_confirmation :: bool
  cd_actions :: "string list"
  cd_dependencies :: "string list"
  cd_conflicts :: "string list"
  cd_mutation :: bool
  cd_rollback :: bool
  cd_audit :: bool
  cd_level :: confirmation_level
  cd_idempotent :: bool

record cap_result =
  cr_capability :: string
  cr_success :: bool
  cr_data :: pyval
  cr_code :: string
  cr_message :: string

text \<open>The result as the object that travels through the runtime.\<close>

definition result_value :: "cap_result \<Rightarrow> pyval" where
  "result_value r = VObj ''CapabilityResult'' [(''capability_id'', VStr (cr_capability r)),
     (''success'', VBool (cr_success r)), (''data'', cr_data r), (''error_code'', VStr (cr_code r)),
     (''error_message'', VStr (cr_message r))]"

record 'd android_cap =
  ac_descriptor :: descriptor
  ac_internal :: "string \<Rightarrow> args \<Rightarrow> ('d, pyval) act"
  ac_supports :: "(args \<Rightarrow> pyexn + bool) option"
  ac_rollback :: "(args \<Rightarrow> pyval \<Rightarrow> ('d, unit) act) option"

section \<open>The base class\<close>

text \<open>\<open>action in names\<close> for a set of strings: a list or dict has no hash.\<close>

fun in_strings :: "pyval \<Rightarrow> string list \<Rightarrow> pyexn + bool" where
  "in_strings (VStr a) names = Inr (a \<in> set names)"
| "in_strings (VList xs) names = Inl (Exn (Py PyTypeError) ''unhashable type: list'')"
| "in_strings (VDict d) names = Inl (Exn (Py PyTypeError) ''unhashable type: dict'')"
| "in_strings v names = Inr False"

text \<open>The actions a capability lets through; \<open>default\<close> always passes.\<close>

fun accepted_action :: "descriptor \<Rightarrow> pyval \<Rightarrow> string option" where
  "accepted_action d (VStr a) = (if a \<in> set (cd_actions d) \<or> a = ''default'' then Some a else None)"
| "accepted_action d v = None"

definition unsupported_msg :: "(pyval \<Rightarrow> string) \<Rightarrow> pyval \<Rightarrow> string \<Rightarrow> string" where
  "unsupported_msg str_of v i = ''Action '' @ quoted (str_of v) @ '' is not supported by '' @ i @ ''.''"

definition capability_error_code :: "exn_class \<Rightarrow> string" where
  "capability_error_code c = (case c of
     InAndroid a \<Rightarrow> if is_capability_error c then android_exn_name a else ''PlatformExecutionError''
   | _ \<Rightarrow> ''PlatformExecutionError'')"

definition cap_failure :: "string \<Rightarrow> pyexn \<Rightarrow> cap_result" where
  "cap_failure i e = \<lparr>cr_capability = i, cr_success = False, cr_data = VDict [],
     cr_code = capability_error_code (exn_cls e),
     cr_message = (if is_capability_error (exn_cls e) then exn_msg e
       else ''Unhandled platform exception: '' @ exn_msg e)\<rparr>"

definition execute_action ::
  "(pyval \<Rightarrow> string) \<Rightarrow> 'd android_cap \<Rightarrow> args \<Rightarrow> ('d, cap_result) act" where
  "execute_action str_of cap a =
     (let d = ac_descriptor cap; action = dget_or a ''action'' (VStr ''default'')
      in catchA
        (case accepted_action d action of
           None \<Rightarrow> raise (InAndroid InvalidArgumentError) (unsupported_msg str_of action (cd_id d))
         | Some name \<Rightarrow> bindA (ac_internal cap name a) (\<lambda>v.
             ret \<lparr>cr_capability = cd_id d, cr_success = True, cr_data = v, cr_code = [],
                  cr_message = []\<rparr>))
        (\<lambda>e. ret (cap_failure (cd_id d) e)))"

section \<open>The adapter\<close>

definition adapter_metadata :: "descriptor \<Rightarrow> capability_metadata" where
  "adapter_metadata d = \<lparr>cm_id = cd_id d, cm_name = cd_name d, cm_description = cd_description d,
     cm_version = cd_version d,
     cm_mutation = (if cd_mutation d
       then Some (CoreMeta \<lparr>mm_destructive = False, mm_rollback = cd_rollback d,
         mm_idempotent = cd_idempotent d, mm_audit = cd_audit d, mm_level = cd_level d\<rparr>)
       else None)\<rparr>"

text \<open>
  Arguments that are not a mapping have no \<open>get\<close>: the base class turns the attribute error into a
  failed result like any other exception.
\<close>

definition adapter_execute ::
  "(pyval \<Rightarrow> string) \<Rightarrow> 'd android_cap \<Rightarrow> execution_request \<Rightarrow> ('d, pyval) act" where
  "adapter_execute str_of cap r = catchA
     (bindA (case er_arguments r of
         VDict a \<Rightarrow> execute_action str_of cap a
       | _ \<Rightarrow> ret (cap_failure (cd_id (ac_descriptor cap))
                (Exn (Py PyAttributeError) ''object has no attribute get'')))
       (\<lambda>x. ret (result_value x)))
     (\<lambda>e. raise (InAndroid AndroidAdapterError)
       (''Adapter failed to execute Android capability: '' @ exn_msg e))"

definition adapter_supports :: "'d android_cap \<Rightarrow> args \<Rightarrow> pyexn + bool" where
  "adapter_supports cap a = (case ac_supports cap of None \<Rightarrow> Inr False | Some f \<Rightarrow> f a)"

definition adapter_rollback :: "'d android_cap \<Rightarrow> args \<Rightarrow> pyval \<Rightarrow> ('d, unit) act" where
  "adapter_rollback cap a original = (case ac_rollback cap of
     None \<Rightarrow> raise (Py PyNotImplementedError) ''Underlying capability does not support rollback''
   | Some f \<Rightarrow> f a original)"

definition android_adapter :: "(pyval \<Rightarrow> string) \<Rightarrow> 'd android_cap \<Rightarrow> 'd capability" where
  "android_adapter str_of cap = \<lparr>cap_metadata = Some (adapter_metadata (ac_descriptor cap)),
     cap_execute = adapter_execute str_of cap,
     cap_mutating = Some \<lparr>mu_supports = adapter_supports cap, mu_rollback = adapter_rollback cap\<rparr>\<rparr>"

section \<open>Registry, health tracker, manager\<close>

record 'd asys = "'d sys" +
  an_caps :: "(string, 'd android_cap) pydict"
  an_status :: runtime_status
  an_started :: bool

definition android_error :: "string \<Rightarrow> pyexn" where
  "android_error m = Exn (InAndroid AndroidCapabilityRegistrationError) m"

definition duplicate_android_msg :: "string \<Rightarrow> string" where
  "duplicate_android_msg i = ''Capability '' @ quoted i @ '' already registered.''"

text \<open>The Android registry stores the capability before the tool registry is asked.\<close>

definition android_register ::
  "bus \<Rightarrow> (pyval \<Rightarrow> string) \<Rightarrow> 'd android_cap \<Rightarrow> (('d, 'z) asys_scheme, unit) act" where
  "android_register mw str_of cap s =
     (let d = ac_descriptor cap in
      if cd_id d = [] then (Inl (android_error ''Capability descriptor or ID is invalid.''), s)
      else if map_of (an_caps s) (cd_id d) \<noteq> None
      then (Inl (android_error (duplicate_android_msg (cd_id d))), s)
      else seqA (register_capability mw (Some (android_adapter str_of cap)))
             (publish mw (EvAndroid (AndroidCapabilityRegistered (cd_id d) (cd_name d))))
           (s\<lparr>an_caps := AList.update (cd_id d) cap (an_caps s)\<rparr>))"

definition android_unregister :: "bus \<Rightarrow> string \<Rightarrow> (('d, 'z) asys_scheme, unit) act" where
  "android_unregister mw i s =
     (if map_of (an_caps s) i = None then (Inl (android_error (not_found_msg i)), s)
      else seqA (unregister_capability mw i) (publish mw (EvAndroid (AndroidCapabilityRemoved i)))
             (s\<lparr>an_caps := AList.delete i (an_caps s)\<rparr>))"

definition android_lookup :: "('d, 'z) asys_scheme \<Rightarrow> string \<Rightarrow> pyexn + 'd android_cap" where
  "android_lookup s i = (case map_of (an_caps s) i of
     None \<Rightarrow> Inl (android_error (not_found_msg i)) | Some c \<Rightarrow> Inr c)"

definition android_all :: "('d, 'z) asys_scheme \<Rightarrow> 'd android_cap list" where
  "android_all s = dict_values (an_caps s)"

definition update_status :: "bus \<Rightarrow> runtime_status \<Rightarrow> string \<Rightarrow> (('d, 'z) asys_scheme, unit) act" where
  "update_status mw st details s =
     (if an_status s = st then (Inr (), s)
      else publish mw (EvAndroid (AndroidHealthChanged (runtime_status_value (an_status s))
             (runtime_status_value st) details)) (s\<lparr>an_status := st\<rparr>))"

definition android_health :: "('d, 'z) asys_scheme \<Rightarrow> component_health" where
  "android_health s = (if an_status s = RtSTOPPED
     then \<lparr>h_state = STOPPED, h_details = ''Android Runtime is stopped.''\<rparr>
     else \<lparr>h_state = RUNNING, h_details = ''Android Runtime is running with '' @
       str_of_nat (length (android_all s)) @ '' capabilities.''\<rparr>)"

text \<open>Starting registers every capability; an exception of one is logged only.\<close>

primrec register_all ::
  "bus \<Rightarrow> (pyval \<Rightarrow> string) \<Rightarrow> 'd android_cap list \<Rightarrow> (('d, 'z) asys_scheme, unit) act" where
  "register_all mw str_of [] = ret ()"
| "register_all mw str_of (c # cs) =
     seqA (catchA (android_register mw str_of c) (\<lambda>e. ret ())) (register_all mw str_of cs)"

definition set_started :: "bool \<Rightarrow> (('d, 'z) asys_scheme, unit) act" where
  "set_started b s = (Inr (), s\<lparr>an_started := b\<rparr>)"

definition android_start ::
  "bus \<Rightarrow> (pyval \<Rightarrow> string) \<Rightarrow> 'd android_cap list \<Rightarrow> (('d, 'z) asys_scheme, unit) act" where
  "android_start mw str_of cs s = (if an_started s then (Inr (), s)
     else seqA (update_status mw RtINITIALIZING ''Starting up...'')
       (seqA (register_all mw str_of cs)
       (seqA (set_started True)
       (seqA (update_status mw RtRUNNING ''Started successfully.'')
         (publish mw (EvAndroid AndroidRuntimeStarted))))) s)"

definition android_shutdown :: "bus \<Rightarrow> (('d, 'z) asys_scheme, unit) act" where
  "android_shutdown mw s = (if \<not> an_started s then (Inr (), s)
     else seqA (set_started False)
       (seqA (update_status mw RtSTOPPED ''Shut down successfully.'')
         (publish mw (EvAndroid AndroidRuntimeStopped))) s)"

section \<open>Compensable steps\<close>

text \<open>
  Running a list of steps until one fails, with a log of the results (latest first), and undoing
  the log.
\<close>

fun run_steps :: "('op \<Rightarrow> 's \<Rightarrow> 'r option \<times> 's) \<Rightarrow> 'op list \<Rightarrow> ('op \<times> 'r) list \<Rightarrow> 's \<Rightarrow>
    ('op \<times> 'r) list \<times> 's" where
  "run_steps step [] lg s = (lg, s)"
| "run_steps step (p # ps) lg s = (case step p s of
     (None, t) \<Rightarrow> (lg, t) | (Some r, t) \<Rightarrow> run_steps step ps ((p, r) # lg) t)"

definition undo_steps :: "('op \<Rightarrow> 'r \<Rightarrow> 's \<Rightarrow> 's) \<Rightarrow> ('op \<times> 'r) list \<Rightarrow> 's \<Rightarrow> 's" where
  "undo_steps undo lg s = fold (\<lambda>(p, r). undo p r) lg s"

text \<open>The steps that are executed satisfy \<open>P\<close> in the state they start from.\<close>

fun steps_satisfy :: "('op \<Rightarrow> 's \<Rightarrow> 'r option \<times> 's) \<Rightarrow> ('op \<Rightarrow> 's \<Rightarrow> bool) \<Rightarrow> 'op list \<Rightarrow> 's \<Rightarrow> bool" where
  "steps_satisfy step P [] s = True"
| "steps_satisfy step P (p # ps) s = (P p s \<and> (case step p s of
     (None, t) \<Rightarrow> True | (Some r, t) \<Rightarrow> steps_satisfy step P ps t))"

text \<open>
  The interface a capability offers to a client that undoes what it has done: on the part \<open>obs\<close> of
  the state, undoing an exact step with its result takes any state that agrees with the state
  after it to one that agrees with the state before it, and a failed step changes nothing.
\<close>

locale compensable =
  fixes step :: "'op \<Rightarrow> 's \<Rightarrow> 'r option \<times> 's"
    and undo :: "'op \<Rightarrow> 'r \<Rightarrow> 's \<Rightarrow> 's"
    and exact :: "'op \<Rightarrow> 's \<Rightarrow> bool"
    and inv :: "'s \<Rightarrow> bool"
    and obs :: "'s \<Rightarrow> 'o"
  assumes undo_step: "inv s \<Longrightarrow> exact p s \<Longrightarrow> step p s = (Some r, t) \<Longrightarrow> inv u \<Longrightarrow> obs u = obs t \<Longrightarrow>
      inv (undo p r u) \<and> obs (undo p r u) = obs s"
    and step_inv: "inv s \<Longrightarrow> exact p s \<Longrightarrow> inv (snd (step p s))"
    and step_fail: "inv s \<Longrightarrow> exact p s \<Longrightarrow> step p s = (None, t) \<Longrightarrow> obs t = obs s"
begin

lemma undo_run:
  assumes "inv s" "steps_satisfy step exact ps s" "run_steps step ps lg s = (lg', t)"
  shows "\<exists>new. lg' = new @ lg \<and> inv t \<and>
    (\<forall>u. inv u \<longrightarrow> obs u = obs t \<longrightarrow> inv (undo_steps undo new u) \<and> obs (undo_steps undo new u) = obs s)"
  using assms
proof (induction ps arbitrary: s lg)
  case Nil
  then show ?case by (auto simp: undo_steps_def)
next
  case (Cons p ps)
  obtain x s1 where x: "step p s = (x, s1)" by fastforce
  have inv: "inv s1" if "exact p s" using step_inv[OF Cons.prems(1) that] x by simp
  show ?case
  proof (cases x)
    case None
    with Cons.prems x inv step_fail[OF Cons.prems(1), of p s1] show ?thesis
      by (auto simp: undo_steps_def)
  next
    case (Some r)
    with Cons.prems x have ex: "exact p s" "steps_satisfy step exact ps s1"
      "run_steps step ps ((p, r) # lg) s1 = (lg', t)" by auto
    from Cons.IH[OF inv[OF ex(1)] ex(2,3)] obtain new where new: "lg' = new @ (p, r) # lg" "inv t"
      "\<And>u. inv u \<Longrightarrow> obs u = obs t \<Longrightarrow> inv (undo_steps undo new u) \<and> obs (undo_steps undo new u) = obs s1"
      by blast
    have "inv (undo_steps undo (new @ [(p, r)]) u) \<and> obs (undo_steps undo (new @ [(p, r)]) u) = obs s"
      if "inv u" "obs u = obs t" for u
      using undo_step[OF Cons.prems(1) ex(1) x[unfolded Some]] new(3)[OF that]
      by (simp add: undo_steps_def)
    with new(1,2) show ?thesis by (intro exI[of _ "new @ [(p, r)]"]) simp
  qed
qed

text \<open>A transaction that stops at the first failure and compensates leaves nothing behind.\<close>

lemma transaction_undone:
  assumes "inv s" "steps_satisfy step exact ps s" "run_steps step ps [] s = (lg, t)"
  shows "obs (undo_steps undo lg t) = obs s"
  using undo_run[OF assms] by auto

end

section \<open>Properties\<close>

lemma execute_action_total:
  "\<exists>x d'. execute_action str_of cap a d = (Inr x, d') \<and> cr_capability x = cd_id (ac_descriptor cap) \<and>
    (case accepted_action (ac_descriptor cap) (dget_or a ''action'' (VStr ''default'')) of
       None \<Rightarrow> d' = d \<and> \<not> cr_success x \<and> cr_code x = ''InvalidArgumentError''
     | Some n \<Rightarrow> d' = snd (ac_internal cap n a d) \<and>
        (case fst (ac_internal cap n a d) of
           Inr v \<Rightarrow> cr_success x \<and> cr_data x = v
         | Inl e \<Rightarrow> \<not> cr_success x \<and> cr_code x = capability_error_code (exn_cls e)))"
proof (cases "accepted_action (ac_descriptor cap) (dget_or a ''action'' (VStr ''default''))")
  case None
  then show ?thesis
    by (simp add: execute_action_def Let_def act_defs cap_failure_def capability_error_code_def)
next
  case (Some n)
  then show ?thesis
    by (cases "ac_internal cap n a d")
      (auto simp: execute_action_def Let_def act_defs cap_failure_def split: sum.splits)
qed

text \<open>
  A failing Android capability is a successful execution: when the runtime executes a registered
  Android adapter on a quiet bus, the execution is always reported as successful and completed,
  with the capability's own result as data; that result says that it failed exactly when the
  action was refused, which leaves the device untouched, or the capability raised.
\<close>

theorem android_failure_is_success:
  assumes cap: "map_of (s_caps s) (er_capability r) = Some (android_adapter str_of cap)"
    and valid: "er_execution r \<noteq> []" "er_capability r \<noteq> []" "er_arguments r = VDict a"
  shows "\<exists>res s' x. runtime_execute quiet names (IsExecution r) s = (Inr res, s') \<and>
    ex_success res \<and> ex_status res = ExCOMPLETED \<and> ex_data res = result_value x \<and>
    (case accepted_action (ac_descriptor cap) (dget_or a ''action'' (VStr ''default'')) of
       None \<Rightarrow> \<not> cr_success x \<and> s_dev s' = s_dev s
     | Some n \<Rightarrow> s_dev s' = snd (ac_internal cap n a (s_dev s)) \<and>
         (cr_success x \<longleftrightarrow> (\<exists>v. fst (ac_internal cap n a (s_dev s)) = Inr v)))"
proof -
  from execute_action_total[of str_of cap a "s_dev s"] obtain x d' where
    x: "execute_action str_of cap a (s_dev s) = (Inr x, d')" and
    t: "case accepted_action (ac_descriptor cap) (dget_or a ''action'' (VStr ''default'')) of
       None \<Rightarrow> d' = s_dev s \<and> \<not> cr_success x \<and> cr_code x = ''InvalidArgumentError''
     | Some n \<Rightarrow> d' = snd (ac_internal cap n a (s_dev s)) \<and>
        (case fst (ac_internal cap n a (s_dev s)) of
           Inr v \<Rightarrow> cr_success x \<and> cr_data x = v
         | Inl e \<Rightarrow> \<not> cr_success x \<and> cr_code x = capability_error_code (exn_cls e))" by blast
  from t have facts: "case accepted_action (ac_descriptor cap) (dget_or a ''action'' (VStr ''default'')) of
       None \<Rightarrow> \<not> cr_success x \<and> d' = s_dev s
     | Some n \<Rightarrow> d' = snd (ac_internal cap n a (s_dev s)) \<and>
         (cr_success x \<longleftrightarrow> (\<exists>v. fst (ac_internal cap n a (s_dev s)) = Inr v))"
    by (auto split: option.splits sum.splits)
  have "adapter_execute str_of cap r (s_dev s) = (Inr (result_value x), d')"
    using x valid(3) by (simp add: adapter_execute_def act_defs)
  then obtain res s' where "runtime_execute quiet names (IsExecution r) s = (Inr res, s')"
    "ex_success res" "ex_status res = ExCOMPLETED" "ex_data res = result_value x" "s_dev s' = d'"
    using cap valid
    by (auto simp: runtime_execute_def runtime_pipeline_def act_defs validate_request_def rt_dispatch_def
        lookup_def validate_arguments_def rt_execute_def on_dev_def android_adapter_def)
  with facts show ?thesis by blast
qed

text \<open>A capability of one counter, which cannot count below zero.\<close>

definition example_descriptor :: "string \<Rightarrow> descriptor" where
  "example_descriptor i = \<lparr>cd_id = i, cd_name = i, cd_description = [], cd_version = ''1'',
     cd_category = CatDEVICE, cd_security = SecLOW, cd_permissions = [], cd_requires_confirmation = False,
     cd_actions = [''down''], cd_dependencies = [], cd_conflicts = [], cd_mutation = True,
     cd_rollback = False, cd_audit = True, cd_level = OWNER_ONLY, cd_idempotent = False\<rparr>"

definition example_android :: "string \<Rightarrow> int android_cap" where
  "example_android i = \<lparr>ac_descriptor = example_descriptor i,
     ac_internal = (\<lambda>n a d. if d \<le> 0 then (Inl (Exn (Py PyValueError) ''empty''), d)
       else (Inr (VInt (d - 1)), d - 1)),
     ac_supports = None, ac_rollback = None\<rparr>"

theorem android_failure_is_success_witness:
  "\<exists>res s' x. runtime_execute quiet (\<lambda>c. []) (IsExecution \<lparr>er_execution = ''e'', er_capability = ''a'',
      er_arguments = VDict [(''action'', VStr ''down'')], er_metadata = []\<rparr>)
      (empty_sys\<lparr>s_caps := [(''a'', android_adapter (\<lambda>v. []) (example_android ''a''))]\<rparr>) = (Inr res, s') \<and>
    ex_success res \<and> ex_data res = result_value x \<and> \<not> cr_success x"
proof -
  let ?s = "empty_sys\<lparr>s_caps := [(''a'', android_adapter (\<lambda>v. []) (example_android ''a''))]\<rparr>"
  let ?r = "\<lparr>er_execution = ''e'', er_capability = ''a'',
      er_arguments = VDict [(''action'', VStr ''down'')], er_metadata = []\<rparr>"
  have "map_of (s_caps ?s) (er_capability ?r) = Some (android_adapter (\<lambda>v. []) (example_android ''a''))"
    by simp
  from android_failure_is_success[OF this, of "[(''action'', VStr ''down'')]" "\<lambda>c. []"] show ?thesis
    by (auto simp: example_android_def example_descriptor_def empty_sys_def)
qed

text \<open>Registering one capability on a quiet bus; what raises is logged by the manager.\<close>

lemma android_register_quiet:
  "\<exists>x s'. android_register quiet str_of c s = (x, s') \<and>
     (let i = cd_id (ac_descriptor c); new = (i \<noteq> [] \<and> map_of (an_caps s) i = None)
      in an_caps s' = (if new then AList.update i c (an_caps s) else an_caps s) \<and>
         s_caps s' = (if new \<and> map_of (s_caps s) i = None
           then AList.update i (android_adapter str_of c) (s_caps s) else s_caps s) \<and>
         an_status s' = an_status s \<and> an_started s' = an_started s \<and> s_dev s' = s_dev s)"
  by (simp add: android_register_def register_capability_def android_adapter_def adapter_metadata_def
      act_defs Let_def)

definition first_named :: "'d android_cap list \<Rightarrow> string \<Rightarrow> 'd android_cap option" where
  "first_named cs i = (if i = [] then None else find (\<lambda>c. cd_id (ac_descriptor c) = i) cs)"

lemma register_all_quiet:
  "\<exists>s'. register_all quiet str_of cs s = (Inr (), s') \<and>
     (\<forall>i. map_of (an_caps s') i = (case map_of (an_caps s) i of
         Some c \<Rightarrow> Some c | None \<Rightarrow> first_named cs i)) \<and>
     (\<forall>i. map_of (s_caps s') i = (case map_of (s_caps s) i of
         Some c \<Rightarrow> Some c
       | None \<Rightarrow> if map_of (an_caps s) i = None
           then map_option (android_adapter str_of) (first_named cs i) else None)) \<and>
     an_status s' = an_status s \<and> an_started s' = an_started s \<and> s_dev s' = s_dev s"
proof (induction cs arbitrary: s)
  case Nil
  then show ?case by (auto simp: ret_def first_named_def split: option.splits)
next
  case (Cons c cs)
  obtain x s1 where s1: "android_register quiet str_of c s = (x, s1)" and
    step: "let i = cd_id (ac_descriptor c); new = (i \<noteq> [] \<and> map_of (an_caps s) i = None)
      in an_caps s1 = (if new then AList.update i c (an_caps s) else an_caps s) \<and>
         s_caps s1 = (if new \<and> map_of (s_caps s) i = None
           then AList.update i (android_adapter str_of c) (s_caps s) else s_caps s) \<and>
         an_status s1 = an_status s \<and> an_started s1 = an_started s \<and> s_dev s1 = s_dev s"
    using android_register_quiet[of str_of c s] by blast
  let ?i = "cd_id (ac_descriptor c)" and ?ad = "android_adapter str_of"
  have run: "register_all quiet str_of (c # cs) s = register_all quiet str_of cs s1"
    using s1 by (cases x) (simp_all add: act_defs del: quiet_apply)
  have an: "map_of (an_caps s1) i = (case map_of (an_caps s) i of
      Some c' \<Rightarrow> Some c' | None \<Rightarrow> if i \<noteq> [] \<and> i = ?i then Some c else None)" for i
    using step by (simp add: Let_def split: option.split)
  have tools: "map_of (s_caps s1) i = (case map_of (s_caps s) i of Some c' \<Rightarrow> Some c'
      | None \<Rightarrow> if i \<noteq> [] \<and> i = ?i \<and> map_of (an_caps s) i = None then Some (?ad c) else None)" for i
    using step by (simp add: Let_def split: option.split)
  have first: "first_named (c # cs) i =
      (if i \<noteq> [] \<and> i = ?i then Some c else first_named cs i)" for i
    by (simp add: first_named_def)
  obtain s2 where s2: "register_all quiet str_of cs s1 = (Inr (), s2)"
    "\<And>i. map_of (an_caps s2) i = (case map_of (an_caps s1) i of
       Some c \<Rightarrow> Some c | None \<Rightarrow> first_named cs i)"
    "\<And>i. map_of (s_caps s2) i = (case map_of (s_caps s1) i of
         Some c \<Rightarrow> Some c
       | None \<Rightarrow> if map_of (an_caps s1) i = None then map_option ?ad (first_named cs i) else None)"
    "an_status s2 = an_status s1" "an_started s2 = an_started s1" "s_dev s2 = s_dev s1"
    using Cons.IH[of s1] by blast
  have "map_of (an_caps s2) i = (case map_of (an_caps s) i of
      Some c' \<Rightarrow> Some c' | None \<Rightarrow> first_named (c # cs) i)" for i
    using s2(2)[of i] an[of i] first[of i] by (cases "map_of (an_caps s) i"; cases "i = ?i"; cases "i = []") simp_all
  moreover have "map_of (s_caps s2) i = (case map_of (s_caps s) i of
      Some c' \<Rightarrow> Some c' | None \<Rightarrow> if map_of (an_caps s) i = None
        then map_option ?ad (first_named (c # cs) i) else None)" for i
    using s2(3)[of i] an[of i] tools[of i] first[of i]
    by (cases "map_of (s_caps s) i"; cases "map_of (an_caps s) i"; cases "i = ?i"; cases "i = []") simp_all
  ultimately show ?case using run s2 step by (simp add: Let_def del: quiet_apply)
qed

text \<open>
  Starting the Android runtime registers what it is given: on a quiet bus \<open>start\<close> never raises;
  afterwards the runtime is started and running, the Android registry holds for every non-empty
  identifier the first capability that has it, the tool registry resolves every such identifier to
  the adapter of that capability unless it had an entry before, and keeps its earlier entries;
  starting again changes nothing.
\<close>

theorem android_start_registers:
  assumes "\<not> an_started s" and "an_caps s = []"
  shows "\<exists>s'. android_start quiet str_of cs s = (Inr (), s') \<and>
    (\<forall>i. map_of (an_caps s') i = first_named cs i) \<and>
    (\<forall>i. map_of (s_caps s') i = (case map_of (s_caps s) i of
        Some c \<Rightarrow> Some c | None \<Rightarrow> map_option (android_adapter str_of) (first_named cs i))) \<and>
    h_state (android_health s') = RUNNING \<and> last (w_trace s') = EvAndroid AndroidRuntimeStarted \<and>
    s_dev s' = s_dev s \<and> android_start quiet str_of cs s' = (Inr (), s')"
proof -
  obtain s1 where s1: "update_status quiet RtINITIALIZING ''Starting up...'' s = (Inr (), s1)"
    "an_caps s1 = []" "s_caps s1 = s_caps s" "an_started s1 = an_started s"
    "an_status s1 = RtINITIALIZING" "s_dev s1 = s_dev s"
    using assms(2) by (cases "an_status s = RtINITIALIZING") (simp_all add: update_status_def)
  obtain s2 where s2: "register_all quiet str_of cs s1 = (Inr (), s2)" "an_status s2 = RtINITIALIZING"
    "\<And>i. map_of (an_caps s2) i = first_named cs i" "s_dev s2 = s_dev s"
    "\<And>i. map_of (s_caps s2) i = (case map_of (s_caps s) i of
        Some c \<Rightarrow> Some c | None \<Rightarrow> map_option (android_adapter str_of) (first_named cs i))"
    using register_all_quiet[of str_of cs s1] s1 by auto
  show ?thesis
    using assms(1) s1(1) s2
    by (simp add: android_start_def seqA_def bindA_def set_started_def update_status_def android_health_def)
qed

definition example_asys :: "int asys" where
  "example_asys = \<lparr>w_trace = [], w_uid = 0, s_caps = [], s_dev = 0, an_caps = [], an_status = RtSTOPPED,
     an_started = False\<rparr>"

theorem android_start_registers_witness:
  "\<exists>s'. android_start quiet (\<lambda>v. []) [example_android ''a'', example_android ''b'', example_android ''a'']
      example_asys = (Inr (), s') \<and>
    map_of (s_caps s') ''b'' = Some (android_adapter (\<lambda>v. []) (example_android ''b'')) \<and>
    map_of (an_caps s') ''c'' = None"
proof -
  have "\<not> an_started example_asys" "an_caps example_asys = []" "s_caps example_asys = []"
    by (simp_all add: example_asys_def)
  with android_start_registers[OF this(1,2), of "\<lambda>v. []"
      "[example_android ''a'', example_android ''b'', example_android ''a'']"]
  show ?thesis by (fastforce simp: first_named_def example_android_def example_descriptor_def)
qed


end
