(* ===== verification/System_Bridge.thy ===== *)
theory System_Bridge
  imports Android
begin

text \<open>
  The system bridge (core/android/bridge/system.py): flashlight, volume, brightness, vibration, do
  not disturb, rotation and screen timeout of the simulated device. A bridge is a function from an
  action and its arguments (\<open>[]\<close> when the source passes none) to a step of the device. The bridge
  stores orientation, mode and timeout as it is given them, without looking at their type.
\<close>

section \<open>Helpers for payloads\<close>

definition no_attribute :: "string \<Rightarrow> pyexn" where
  "no_attribute a = Exn (Py PyAttributeError) (''object has no attribute '' @ a)"

text \<open>\<open>v.get(k, dflt)\<close> and \<open>v[k]\<close> on a value of any type; lists and strings take no string index.\<close>

fun py_get :: "pyval \<Rightarrow> string \<Rightarrow> pyval \<Rightarrow> pyexn + pyval" where
  "py_get (VDict d) k dflt = Inr (dget_or d k dflt)"
| "py_get v k dflt = Inl (no_attribute ''get'')"

fun py_item :: "pyval \<Rightarrow> string \<Rightarrow> pyexn + pyval" where
  "py_item (VDict d) k = (case map_of d k of
     Some v \<Rightarrow> Inr v | None \<Rightarrow> Inl (Exn (Py PyKeyError) (quoted k)))"
| "py_item v k = Inl (Exn (Py PyTypeError) ''object cannot be indexed by a string'')"

text \<open>\<open>k in v\<close> for a mapping, a list or a string.\<close>

fun py_contains :: "pyval \<Rightarrow> string \<Rightarrow> pyexn + bool" where
  "py_contains (VDict d) k = Inr (has_key k d)"
| "py_contains (VList xs) k = Inr (VStr k \<in> set xs)"
| "py_contains (VStr s) k = Inr (contains k s)"
| "py_contains v k = Inl (Exn (Py PyTypeError) ''argument is not iterable'')"

section \<open>State\<close>

record sysdev =
  sd_flash :: bool
  sd_volume :: int
  sd_muted :: bool
  sd_brightness :: int
  sd_auto :: bool
  sd_vibrating :: bool
  sd_dnd :: pyval
  sd_locked :: bool
  sd_orientation :: pyval
  sd_timeout :: pyval

definition initial_sysdev :: sysdev where
  "initial_sysdev = \<lparr>sd_flash = False, sd_volume = 50, sd_muted = False, sd_brightness = 50,
     sd_auto = True, sd_vibrating = False, sd_dnd = VStr ''OFF'', sd_locked = False,
     sd_orientation = VStr ''PORTRAIT'', sd_timeout = VInt 60000\<rparr>"

definition supported_timeouts :: "int list" where
  "supported_timeouts = [15000, 30000, 60000, 120000, 300000, 600000, 1800000]"

definition clamp :: "int \<Rightarrow> int" where
  "clamp v = max 0 (min 100 v)"

section \<open>The groups of actions\<close>

definition flash_reply :: "sysdev \<Rightarrow> pyval" where
  "flash_reply s = VDict [(''enabled'', VBool (sd_flash s))]"

definition set_flash :: "(bool \<Rightarrow> bool) \<Rightarrow> (sysdev, pyval) act" where
  "set_flash f s = (let t = s\<lparr>sd_flash := f (sd_flash s)\<rparr> in (Inr (flash_reply t), t))"

definition volume_entries :: "sysdev \<Rightarrow> args" where
  "volume_entries s = [(''level'', VInt (sd_volume s)), (''muted'', VBool (sd_muted s))]"

text \<open>The reply of an action that changes volume or mute, with the state before it.\<close>

definition change_volume :: "(sysdev \<Rightarrow> sysdev) \<Rightarrow> (sysdev, pyval) act" where
  "change_volume f s = (Inr (VDict (volume_entries (f s) @
     [(''pre_state'', VDict (volume_entries s))])), f s)"

definition volume_set :: "args \<Rightarrow> (sysdev, pyval) act" where
  "volume_set a s = bindA (liftA (py_int (dget_or a ''value'' (VInt (sd_volume s))))) (\<lambda>v.
     change_volume (\<lambda>s. s\<lparr>sd_volume := clamp v\<rparr>)) s"

definition volume_up :: "args \<Rightarrow> (sysdev, pyval) act" where
  "volume_up a = bindA (liftA (py_int (dget_or a ''step'' (VInt 10)))) (\<lambda>k.
     change_volume (\<lambda>s. s\<lparr>sd_volume := min 100 (sd_volume s + k)\<rparr>))"

definition volume_down :: "args \<Rightarrow> (sysdev, pyval) act" where
  "volume_down a = bindA (liftA (py_int (dget_or a ''step'' (VInt 10)))) (\<lambda>k.
     change_volume (\<lambda>s. s\<lparr>sd_volume := max 0 (sd_volume s - k)\<rparr>))"

definition volume_mute :: "bool \<Rightarrow> (sysdev, pyval) act" where
  "volume_mute b = change_volume (\<lambda>s. s\<lparr>sd_muted := b\<rparr>)"

definition brightness_entries :: "sysdev \<Rightarrow> args" where
  "brightness_entries s = [(''level'', VInt (sd_brightness s)), (''auto'', VBool (sd_auto s))]"

definition change_brightness :: "(sysdev \<Rightarrow> sysdev) \<Rightarrow> (sysdev, pyval) act" where
  "change_brightness f s = (Inr (VDict (brightness_entries (f s) @
     [(''pre_state'', VDict (brightness_entries s))])), f s)"

definition brightness_set :: "args \<Rightarrow> (sysdev, pyval) act" where
  "brightness_set a s = bindA (liftA (py_int (dget_or a ''value'' (VInt (sd_brightness s))))) (\<lambda>v.
     change_brightness (\<lambda>s. s\<lparr>sd_brightness := clamp v\<rparr>)) s"

definition brightness_increase :: "args \<Rightarrow> (sysdev, pyval) act" where
  "brightness_increase a = bindA (liftA (py_int (dget_or a ''step'' (VInt 10)))) (\<lambda>k.
     change_brightness (\<lambda>s. s\<lparr>sd_brightness := min 100 (sd_brightness s + k)\<rparr>))"

definition brightness_decrease :: "args \<Rightarrow> (sysdev, pyval) act" where
  "brightness_decrease a = bindA (liftA (py_int (dget_or a ''step'' (VInt 10)))) (\<lambda>k.
     change_brightness (\<lambda>s. s\<lparr>sd_brightness := max 0 (sd_brightness s - k)\<rparr>))"

definition brightness_auto :: "bool \<Rightarrow> (sysdev, pyval) act" where
  "brightness_auto b = change_brightness (\<lambda>s. s\<lparr>sd_auto := b\<rparr>)"

definition vibrate :: "bool \<Rightarrow> (sysdev, pyval) act" where
  "vibrate b s = (Inr (VDict [(''success'', VBool True)]), s\<lparr>sd_vibrating := b\<rparr>)"

definition dnd_set :: "args \<Rightarrow> (sysdev, pyval) act" where
  "dnd_set a s = (let m = dget_or a ''mode'' (VStr ''OFF'') in
     (Inr (VDict [(''mode'', m), (''pre_state'', VDict [(''mode'', sd_dnd s)])]), s\<lparr>sd_dnd := m\<rparr>))"

definition rotation_entries :: "sysdev \<Rightarrow> args" where
  "rotation_entries s = [(''locked'', VBool (sd_locked s)), (''orientation'', sd_orientation s)]"

definition change_rotation :: "(sysdev \<Rightarrow> sysdev) \<Rightarrow> (sysdev, pyval) act" where
  "change_rotation f s = (Inr (VDict (rotation_entries (f s) @
     [(''pre_state'', VDict (rotation_entries s))])), f s)"

definition rotation_lock :: "args \<Rightarrow> (sysdev, pyval) act" where
  "rotation_lock a s = change_rotation (\<lambda>s. s\<lparr>sd_locked := True,
     sd_orientation := dget_or a ''orientation'' (sd_orientation s)\<rparr>) s"

definition rotation_unlock :: "(sysdev, pyval) act" where
  "rotation_unlock = change_rotation (\<lambda>s. s\<lparr>sd_locked := False\<rparr>)"

definition timeout_set :: "args \<Rightarrow> (sysdev, pyval) act" where
  "timeout_set a s = (let d = dget_or a ''duration_ms'' (sd_timeout s) in
     (Inr (VDict [(''duration_ms'', d), (''pre_state'', VDict [(''duration_ms'', sd_timeout s)])]),
      s\<lparr>sd_timeout := d\<rparr>))"

section \<open>The dispatcher\<close>

definition system_execute :: "string \<Rightarrow> args \<Rightarrow> (sysdev, pyval) act" where
  "system_execute action a s =
     (if action = ''battery.read''
      then (Inr (VDict [(''level'', VInt 85), (''is_charging'', VBool False)]), s)
      else if action = ''clipboard.read''
      then (Inr (VDict [(''text'', VStr ''mocked clipboard content'')]), s)
      else if action = ''system.flashlight.status'' then (Inr (flash_reply s), s)
      else if action = ''system.flashlight.on'' then set_flash (\<lambda>b. True) s
      else if action = ''system.flashlight.off'' then set_flash (\<lambda>b. False) s
      else if action = ''system.flashlight.toggle'' then set_flash Not s
      else if action = ''system.volume.get'' then (Inr (VDict (volume_entries s)), s)
      else if action = ''system.volume.set'' then volume_set a s
      else if action = ''system.volume.up'' then volume_up a s
      else if action = ''system.volume.down'' then volume_down a s
      else if action = ''system.volume.mute'' then volume_mute True s
      else if action = ''system.volume.unmute'' then volume_mute False s
      else if action = ''system.brightness.get'' then (Inr (VDict (brightness_entries s)), s)
      else if action = ''system.brightness.set'' then brightness_set a s
      else if action = ''system.brightness.increase'' then brightness_increase a s
      else if action = ''system.brightness.decrease'' then brightness_decrease a s
      else if action = ''system.brightness.auto_on'' then brightness_auto True s
      else if action = ''system.brightness.auto_off'' then brightness_auto False s
      else if action = ''system.vibrate.start'' then vibrate True s
      else if action = ''system.vibrate.cancel'' then vibrate False s
      else if action = ''system.dnd.get'' then (Inr (VDict [(''mode'', sd_dnd s)]), s)
      else if action = ''system.dnd.set'' then dnd_set a s
      else if action = ''system.rotation.get'' then (Inr (VDict (rotation_entries s)), s)
      else if action = ''system.rotation.lock'' then rotation_lock a s
      else if action = ''system.rotation.unlock'' then rotation_unlock s
      else if action = ''system.screen_timeout.get''
      then (Inr (VDict [(''duration_ms'', sd_timeout s)]), s)
      else if action = ''system.screen_timeout.get_supported''
      then (Inr (VDict [(''supported'', VList (map VInt supported_timeouts))]), s)
      else if action = ''system.screen_timeout.set'' then timeout_set a s
      else raise (InAndroid UnsupportedPlatformError)
             (''MockSystemBridge does not support action: '' @ action) s)"

text \<open>One rule for each action; the definition itself is not unfolded in proofs.\<close>

lemma system_execute_simps [simp]:
  "system_execute ''battery.read'' a s =
     (Inr (VDict [(''level'', VInt 85), (''is_charging'', VBool False)]), s)"
  "system_execute ''clipboard.read'' a s =
     (Inr (VDict [(''text'', VStr ''mocked clipboard content'')]), s)"
  "system_execute ''system.flashlight.status'' a s = (Inr (flash_reply s), s)"
  "system_execute ''system.flashlight.on'' a s = set_flash (\<lambda>b. True) s"
  "system_execute ''system.flashlight.off'' a s = set_flash (\<lambda>b. False) s"
  "system_execute ''system.flashlight.toggle'' a s = set_flash Not s"
  "system_execute ''system.volume.get'' a s = (Inr (VDict (volume_entries s)), s)"
  "system_execute ''system.volume.set'' a s = volume_set a s"
  "system_execute ''system.volume.up'' a s = volume_up a s"
  "system_execute ''system.volume.down'' a s = volume_down a s"
  "system_execute ''system.volume.mute'' a s = volume_mute True s"
  "system_execute ''system.volume.unmute'' a s = volume_mute False s"
  "system_execute ''system.brightness.get'' a s = (Inr (VDict (brightness_entries s)), s)"
  "system_execute ''system.brightness.set'' a s = brightness_set a s"
  "system_execute ''system.brightness.increase'' a s = brightness_increase a s"
  "system_execute ''system.brightness.decrease'' a s = brightness_decrease a s"
  "system_execute ''system.brightness.auto_on'' a s = brightness_auto True s"
  "system_execute ''system.brightness.auto_off'' a s = brightness_auto False s"
  "system_execute ''system.vibrate.start'' a s = vibrate True s"
  "system_execute ''system.vibrate.cancel'' a s = vibrate False s"
  "system_execute ''system.dnd.get'' a s = (Inr (VDict [(''mode'', sd_dnd s)]), s)"
  "system_execute ''system.dnd.set'' a s = dnd_set a s"
  "system_execute ''system.rotation.get'' a s = (Inr (VDict (rotation_entries s)), s)"
  "system_execute ''system.rotation.lock'' a s = rotation_lock a s"
  "system_execute ''system.rotation.unlock'' a s = rotation_unlock s"
  "system_execute ''system.screen_timeout.get'' a s =
     (Inr (VDict [(''duration_ms'', sd_timeout s)]), s)"
  "system_execute ''system.screen_timeout.get_supported'' a s =
     (Inr (VDict [(''supported'', VList (map VInt supported_timeouts))]), s)"
  "system_execute ''system.screen_timeout.set'' a s = timeout_set a s"
  "system_execute ''default'' a s = raise (InAndroid UnsupportedPlatformError)
     (''MockSystemBridge does not support action: default'') s"
  by (simp_all add: system_execute_def)

lemmas bridge_steps = set_flash_def flash_reply_def change_volume_def volume_entries_def volume_set_def
  volume_up_def volume_down_def volume_mute_def change_brightness_def brightness_entries_def
  brightness_set_def brightness_increase_def brightness_decrease_def brightness_auto_def vibrate_def
  dnd_set_def change_rotation_def rotation_entries_def rotation_lock_def rotation_unlock_def
  timeout_set_def

end
