(* ===== verification/Device_Controls.thy ===== *)
theory Device_Controls
  imports System_Bridge
begin

text \<open>
  The capabilities that go through the system bridge (core/android/capabilities: battery,
  clipboard, flashlight, volume, brightness, vibrate, do_not_disturb, rotation, screen_timeout).
  Each is a function of its bridge; the theorems run them on the bridge of theory System_Bridge.
  \<open>VNonFinite\<close> is read as NaN: \<open>int\<close> raises a \<open>ValueError\<close> on it.
\<close>

type_synonym 'd bridge = "string \<Rightarrow> args \<Rightarrow> ('d, pyval) act"

definition ignore_result :: "('d, 'a) act \<Rightarrow> ('d, unit) act" where
  "ignore_result m = bindA m (\<lambda>_. ret ())"

definition invalid_argument :: "string \<Rightarrow> ('d, 'a) act" where
  "invalid_argument m = raise (InAndroid InvalidArgumentError) m"

definition unsupported_action :: "string \<Rightarrow> ('d, 'a) act" where
  "unsupported_action n = invalid_argument (''Unsupported action: '' @ n)"

definition base_descriptor ::
  "string \<Rightarrow> string \<Rightarrow> string \<Rightarrow> capability_category \<Rightarrow> security_level \<Rightarrow> string list \<Rightarrow> descriptor" where
  "base_descriptor i n d c l acts = \<lparr>cd_id = i, cd_name = n, cd_description = d, cd_version = ''1.0.0'',
     cd_category = c, cd_security = l, cd_permissions = [], cd_requires_confirmation = False,
     cd_actions = acts, cd_dependencies = [], cd_conflicts = [], cd_mutation = False,
     cd_rollback = False, cd_audit = False, cd_level = NO_CONFIRMATION, cd_idempotent = False\<rparr>"

text \<open>What all capabilities that change the device declare.\<close>

definition mutating_descriptor :: "descriptor \<Rightarrow> descriptor" where
  "mutating_descriptor d = d\<lparr>cd_mutation := True, cd_rollback := True, cd_audit := True\<rparr>"

definition supports_actions :: "string list \<Rightarrow> args \<Rightarrow> pyexn + bool" where
  "supports_actions names a = in_strings (dget a ''action'') names"

text \<open>
  The snapshot a result carries: \<open>original.data.get("pre_state")\<close> if the original result has data,
  as volume and brightness read it.
\<close>

definition pre_state_of :: "pyval \<Rightarrow> pyexn + pyval" where
  "pre_state_of original = (case attr original ''data'' of
     None \<Rightarrow> Inr VNone | Some d \<Rightarrow> py_get d ''pre_state'' VNone)"

text \<open>
  The other capabilities test \<open>"pre_state" in original.data\<close> first and index then; \<open>None\<close> when
  there is no snapshot.
\<close>

definition pre_state_item :: "pyval \<Rightarrow> pyexn + pyval option" where
  "pre_state_item original = (case attr original ''data'' of
     None \<Rightarrow> Inr None
   | Some d \<Rightarrow> (case py_contains d ''pre_state'' of
       Inl e \<Rightarrow> Inl e
     | Inr False \<Rightarrow> Inr None
     | Inr True \<Rightarrow> (case py_item d ''pre_state'' of Inl e \<Rightarrow> Inl e | Inr v \<Rightarrow> Inr (Some v))))"

section \<open>Battery, clipboard, flashlight\<close>

definition battery :: "'d bridge \<Rightarrow> 'd android_cap" where
  "battery bridge = \<lparr>ac_descriptor = base_descriptor ''android.device.battery'' ''Battery Status''
       ''Reads device battery level and charging status.'' CatDEVICE SecLOW [''read'', ''default''],
     ac_internal = (\<lambda>n a. bridge ''battery.read'' a), ac_supports = None, ac_rollback = None\<rparr>"

definition clipboard :: "'d bridge \<Rightarrow> 'd android_cap" where
  "clipboard bridge = \<lparr>ac_descriptor = base_descriptor ''android.device.clipboard.read'' ''Clipboard Read''
       ''Reads the current text from the device clipboard.'' CatDEVICE SecLOW [''read'', ''default''],
     ac_internal = (\<lambda>n a. bridge ''clipboard.read'' a), ac_supports = None, ac_rollback = None\<rparr>"

definition flashlight_descriptor :: descriptor where
  "flashlight_descriptor = (mutating_descriptor (base_descriptor ''android.hardware.flashlight''
     ''Flashlight Control'' ''Controls the device flashlight'' CatDEVICE SecLOW
     [''system.flashlight.on'', ''system.flashlight.off'', ''system.flashlight.toggle'',
      ''system.flashlight.status'']))\<lparr>cd_level := USER\<rparr>"

text \<open>The flashlight compares its action with a tuple, which never raises.\<close>

definition flashlight_supports :: "args \<Rightarrow> pyexn + bool" where
  "flashlight_supports a = Inr (dget a ''action'' \<in> {VStr ''system.flashlight.on'',
     VStr ''system.flashlight.off'', VStr ''system.flashlight.toggle''})"

definition flashlight_rollback :: "'d bridge \<Rightarrow> args \<Rightarrow> pyval \<Rightarrow> ('d, unit) act" where
  "flashlight_rollback bridge a original = (let action = dget a ''action'' in
     if action = VStr ''system.flashlight.on'' then ignore_result (bridge ''system.flashlight.off'' [])
     else if action = VStr ''system.flashlight.off'' then ignore_result (bridge ''system.flashlight.on'' [])
     else if action = VStr ''system.flashlight.toggle''
     then ignore_result (bridge ''system.flashlight.toggle'' [])
     else ret ())"

definition flashlight :: "'d bridge \<Rightarrow> 'd android_cap" where
  "flashlight bridge = \<lparr>ac_descriptor = flashlight_descriptor, ac_internal = (\<lambda>n a. bridge n a),
     ac_supports = Some flashlight_supports, ac_rollback = Some (flashlight_rollback bridge)\<rparr>"

section \<open>Volume\<close>

definition volume_mutating :: "string list" where
  "volume_mutating = [''system.volume.set'', ''system.volume.up'', ''system.volume.down'',
     ''system.volume.mute'', ''system.volume.unmute'']"

definition volume_descriptor :: descriptor where
  "volume_descriptor = mutating_descriptor (base_descriptor ''android.device.volume'' ''Volume Control''
     (''Controls device media volume including absolute set, step up/down, '' @
      ''and mute/unmute. Supports precise rollback using pre-state capture.'') CatAUDIO SecNORMAL
     (''system.volume.get'' # volume_mutating))"

definition volume_internal :: "'d bridge \<Rightarrow> string \<Rightarrow> args \<Rightarrow> ('d, pyval) act" where
  "volume_internal bridge n a =
     (if n = ''system.volume.set''
      then case map_of a ''value'' of
          None \<Rightarrow> invalid_argument ''system.volume.set requires a 'value' argument (int 0-100).''
        | Some raw \<Rightarrow> bindA (liftA (py_int raw)) (\<lambda>v.
            if \<not> (0 \<le> v \<and> v \<le> 100)
            then invalid_argument (''system.volume.set 'value' must be 0-100, got '' @ str_of_int v @ ''.'')
            else bridge n a)
      else bridge n a)"

text \<open>Both branches for a mute call unmute, and both for an unmute call mute.\<close>

definition volume_rollback :: "'d bridge \<Rightarrow> args \<Rightarrow> pyval \<Rightarrow> ('d, unit) act" where
  "volume_rollback bridge a original = (let action = dget a ''action'' in
     bindA (liftA (pre_state_of original)) (\<lambda>pre.
     if action \<in> {VStr ''system.volume.set'', VStr ''system.volume.up'', VStr ''system.volume.down''}
     then if pre \<noteq> VNone
       then bindA (liftA (py_item pre ''level'')) (\<lambda>l.
         ignore_result (bridge ''system.volume.set'' [(''value'', l)]))
       else if action = VStr ''system.volume.up''
       then ignore_result (bridge ''system.volume.down'' [(''step'', dget_or a ''step'' (VInt 10))])
       else if action = VStr ''system.volume.down''
       then ignore_result (bridge ''system.volume.up'' [(''step'', dget_or a ''step'' (VInt 10))])
       else ret ()
     else if action = VStr ''system.volume.mute''
     then seqA (if pre \<noteq> VNone then ignore_result (liftA (py_get pre ''muted'' (VBool False))) else ret ())
       (ignore_result (bridge ''system.volume.unmute'' []))
     else if action = VStr ''system.volume.unmute''
     then seqA (if pre \<noteq> VNone then ignore_result (liftA (py_get pre ''muted'' (VBool True))) else ret ())
       (ignore_result (bridge ''system.volume.mute'' []))
     else ret ()))"

definition volume :: "'d bridge \<Rightarrow> 'd android_cap" where
  "volume bridge = \<lparr>ac_descriptor = volume_descriptor, ac_internal = volume_internal bridge,
     ac_supports = Some (supports_actions volume_mutating), ac_rollback = Some (volume_rollback bridge)\<rparr>"

section \<open>Brightness\<close>

definition brightness_mutating :: "string list" where
  "brightness_mutating = [''system.brightness.set'', ''system.brightness.increase'',
     ''system.brightness.decrease'', ''system.brightness.auto_on'', ''system.brightness.auto_off'']"

definition brightness_descriptor :: descriptor where
  "brightness_descriptor = mutating_descriptor (base_descriptor ''android.device.brightness''
     ''Brightness Control''
     (''Controls device screen brightness including absolute set, '' @
      ''step increase/decrease, and auto-brightness toggle. '' @
      ''Supports precise rollback using pre-state capture.'') CatDISPLAY SecLOW
     (''system.brightness.get'' # brightness_mutating))"

text \<open>\<open>isinstance(v, (int, float))\<close>; a bool is an int.\<close>

fun is_number :: "pyval \<Rightarrow> bool" where
  "is_number (VBool b) = True"
| "is_number (VInt i) = True"
| "is_number (VFloat m e) = True"
| "is_number VNonFinite = True"
| "is_number v = False"

definition brightness_internal :: "'d bridge \<Rightarrow> string \<Rightarrow> args \<Rightarrow> ('d, pyval) act" where
  "brightness_internal bridge n a =
     (if n = ''system.brightness.set''
      then case map_of a ''value'' of
          None \<Rightarrow> invalid_argument ''system.brightness.set requires a 'value' argument (int 0-100).''
        | Some raw \<Rightarrow>
            if \<not> is_number raw
            then invalid_argument (''system.brightness.set 'value' must be a number, got '' @
              class_name raw @ ''.'')
            else bindA (liftA (py_int raw)) (\<lambda>v.
              if \<not> (0 \<le> v \<and> v \<le> 100)
              then invalid_argument (''system.brightness.set 'value' must be 0-100, got '' @
                str_of_int v @ ''.'')
              else bridge n a)
      else bridge n a)"

definition brightness_rollback :: "'d bridge \<Rightarrow> args \<Rightarrow> pyval \<Rightarrow> ('d, unit) act" where
  "brightness_rollback bridge a original = (let action = dget a ''action'' in
     bindA (liftA (pre_state_of original)) (\<lambda>pre.
     if action \<in> {VStr ''system.brightness.set'', VStr ''system.brightness.increase'',
          VStr ''system.brightness.decrease''}
     then if pre \<noteq> VNone
       then bindA (liftA (py_item pre ''level'')) (\<lambda>l.
         ignore_result (bridge ''system.brightness.set'' [(''value'', l)]))
       else if action = VStr ''system.brightness.increase''
       then ignore_result (bridge ''system.brightness.decrease'' [(''step'', dget_or a ''step'' (VInt 10))])
       else if action = VStr ''system.brightness.decrease''
       then ignore_result (bridge ''system.brightness.increase'' [(''step'', dget_or a ''step'' (VInt 10))])
       else ret ()
     else if action = VStr ''system.brightness.auto_on''
     then seqA (if pre \<noteq> VNone then ignore_result (liftA (py_get pre ''auto'' (VBool True))) else ret ())
       (ignore_result (bridge ''system.brightness.auto_off'' []))
     else if action = VStr ''system.brightness.auto_off''
     then seqA (if pre \<noteq> VNone then ignore_result (liftA (py_get pre ''auto'' (VBool False))) else ret ())
       (ignore_result (bridge ''system.brightness.auto_on'' []))
     else ret ()))"

definition brightness :: "'d bridge \<Rightarrow> 'd android_cap" where
  "brightness bridge = \<lparr>ac_descriptor = brightness_descriptor, ac_internal = brightness_internal bridge,
     ac_supports = Some (supports_actions brightness_mutating),
     ac_rollback = Some (brightness_rollback bridge)\<rparr>"

section \<open>Vibration\<close>

definition vibrate_mutating :: "string list" where
  "vibrate_mutating = [''system.vibrate.start'', ''system.vibrate.cancel'']"

definition vibrate_descriptor :: descriptor where
  "vibrate_descriptor = (mutating_descriptor (base_descriptor ''android.device.vibrate'' ''Vibrate Control''
     ''Controls device vibration motor. Triggers ephemeral actions.'' CatDEVICE SecLOW vibrate_mutating))
     \<lparr>cd_permissions := [''VIBRATE'']\<rparr>"

text \<open>\<open>int\<close> of a value that is not a bool; \<open>ValueError\<close> and \<open>TypeError\<close> are caught by the caller.\<close>

definition strict_int :: "pyval \<Rightarrow> int option" where
  "strict_int v = (case v of VBool b \<Rightarrow> None
     | _ \<Rightarrow> (case py_int v of Inr i \<Rightarrow> Some i | Inl e \<Rightarrow> None))"

definition vibrate_internal :: "'d bridge \<Rightarrow> string \<Rightarrow> args \<Rightarrow> ('d, pyval) act" where
  "vibrate_internal bridge n a =
     (if n \<notin> set vibrate_mutating then unsupported_action n
      else if n = ''system.vibrate.start''
      then let v = dget a ''duration_ms'' in
        if v = VNone then invalid_argument ''duration_ms is required for start action''
        else (case strict_int v of
            None \<Rightarrow> invalid_argument ''duration_ms must be a positive integer''
          | Some i \<Rightarrow> if i \<le> 0 then invalid_argument ''duration_ms must be a positive integer''
              else bridge n [(''duration_ms'', VInt i)])
      else bridge n [])"

definition vibrate_rollback :: "'d bridge \<Rightarrow> args \<Rightarrow> pyval \<Rightarrow> ('d, unit) act" where
  "vibrate_rollback bridge a original =
     (if dget a ''action'' = VStr ''system.vibrate.start''
      then ignore_result (bridge ''system.vibrate.cancel'' []) else ret ())"

definition vibration :: "'d bridge \<Rightarrow> 'd android_cap" where
  "vibration bridge = \<lparr>ac_descriptor = vibrate_descriptor, ac_internal = vibrate_internal bridge,
     ac_supports = Some (supports_actions vibrate_mutating), ac_rollback = Some (vibrate_rollback bridge)\<rparr>"

section \<open>Do not disturb\<close>

definition valid_modes :: "string list" where
  "valid_modes = [''NORMAL'', ''PRIORITY'', ''ALARMS'', ''SILENT'']"

definition dnd_descriptor :: descriptor where
  "dnd_descriptor = (mutating_descriptor (base_descriptor ''android.device.dnd'' ''Do Not Disturb Control''
     ''Controls the device Do Not Disturb (DND) mode.'' CatAUDIO SecNORMAL
     [''system.dnd.get'', ''system.dnd.set'']))\<lparr>cd_permissions := [''ACCESS_NOTIFICATION_POLICY'']\<rparr>"

text \<open>The message lists the set of modes, whose order is that of the set's iteration.\<close>

definition dnd_internal :: "'d bridge \<Rightarrow> string \<Rightarrow> args \<Rightarrow> ('d, pyval) act" where
  "dnd_internal bridge n a =
     (if n = ''system.dnd.get'' then bridge n []
      else if n = ''system.dnd.set''
      then bindA (liftA (in_strings (dget a ''mode'') valid_modes)) (\<lambda>known.
        if \<not> known then invalid_argument (''mode must be one of: '' @ join '', '' valid_modes)
        else bridge n [(''mode'', dget a ''mode'')])
      else unsupported_action n)"

definition dnd_rollback :: "'d bridge \<Rightarrow> args \<Rightarrow> pyval \<Rightarrow> ('d, unit) act" where
  "dnd_rollback bridge a original =
     (if dget a ''action'' = VStr ''system.dnd.set''
      then bindA (liftA (pre_state_item original)) (\<lambda>pre. case pre of
          None \<Rightarrow> ignore_result (bridge ''system.dnd.set'' [(''mode'', VStr ''NORMAL'')])
        | Some v \<Rightarrow> bindA (liftA (py_contains v ''mode'')) (\<lambda>has.
            if has then bindA (liftA (py_item v ''mode'')) (\<lambda>m.
              ignore_result (bridge ''system.dnd.set'' [(''mode'', m)]))
            else ignore_result (bridge ''system.dnd.set'' [(''mode'', VStr ''NORMAL'')])))
      else ret ())"

definition do_not_disturb :: "'d bridge \<Rightarrow> 'd android_cap" where
  "do_not_disturb bridge = \<lparr>ac_descriptor = dnd_descriptor, ac_internal = dnd_internal bridge,
     ac_supports = Some (supports_actions [''system.dnd.set'']), ac_rollback = Some (dnd_rollback bridge)\<rparr>"

section \<open>Rotation\<close>

definition valid_orientations :: "string list" where
  "valid_orientations = [''PORTRAIT'', ''LANDSCAPE'']"

definition rotation_descriptor :: descriptor where
  "rotation_descriptor = mutating_descriptor (base_descriptor ''android.device.rotation''
     ''Rotation Control'' ''Controls the device screen rotation and orientation lock.'' CatDISPLAY SecLOW
     [''system.rotation.get'', ''system.rotation.lock'', ''system.rotation.unlock''])"

definition rotation_internal :: "'d bridge \<Rightarrow> string \<Rightarrow> args \<Rightarrow> ('d, pyval) act" where
  "rotation_internal bridge n a =
     (if n = ''system.rotation.get'' then bridge n []
      else if n = ''system.rotation.unlock'' then bridge n []
      else if n = ''system.rotation.lock''
      then bindA (liftA (in_strings (dget a ''orientation'') valid_orientations)) (\<lambda>known.
        if \<not> known
        then invalid_argument (''orientation must be one of: '' @ join '', '' valid_orientations)
        else bridge n [(''orientation'', dget a ''orientation'')])
      else unsupported_action n)"

definition rotation_rollback :: "'d bridge \<Rightarrow> args \<Rightarrow> pyval \<Rightarrow> ('d, unit) act" where
  "rotation_rollback bridge a original = (let action = dget a ''action'' in
     bindA (liftA (pre_state_item original)) (\<lambda>pre. case pre of
       Some v \<Rightarrow> bindA (liftA (py_get v ''locked'' VNone)) (\<lambda>locked.
         if truthy locked
         then bindA (liftA (py_get v ''orientation'' (VStr ''PORTRAIT''))) (\<lambda>o'.
           ignore_result (bridge ''system.rotation.lock'' [(''orientation'', o')]))
         else ignore_result (bridge ''system.rotation.unlock'' []))
     | None \<Rightarrow>
         if action = VStr ''system.rotation.lock'' then ignore_result (bridge ''system.rotation.unlock'' [])
         else if action = VStr ''system.rotation.unlock''
         then ignore_result (bridge ''system.rotation.lock'' [(''orientation'', VStr ''PORTRAIT'')])
         else ret ()))"

definition rotation :: "'d bridge \<Rightarrow> 'd android_cap" where
  "rotation bridge = \<lparr>ac_descriptor = rotation_descriptor, ac_internal = rotation_internal bridge,
     ac_supports = Some (supports_actions [''system.rotation.lock'', ''system.rotation.unlock'']),
     ac_rollback = Some (rotation_rollback bridge)\<rparr>"

section \<open>Screen timeout\<close>

definition timeout_descriptor :: descriptor where
  "timeout_descriptor = mutating_descriptor (base_descriptor ''android.device.screen_timeout''
     ''Screen Timeout Control'' ''Controls the device screen timeout duration.'' CatDISPLAY SecLOW
     [''system.screen_timeout.get'', ''system.screen_timeout.get_supported'',
      ''system.screen_timeout.set''])"

text \<open>\<open>v in xs\<close> when \<open>xs\<close> is what the bridge gave for its supported values.\<close>

fun value_in :: "pyval \<Rightarrow> pyval \<Rightarrow> pyexn + bool" where
  "value_in v (VList xs) = Inr (v \<in> set xs)"
| "value_in v w = Inl (Exn (Py PyTypeError) ''argument is not iterable'')"

definition timeout_internal ::
  "(pyval \<Rightarrow> string) \<Rightarrow> 'd bridge \<Rightarrow> string \<Rightarrow> args \<Rightarrow> ('d, pyval) act" where
  "timeout_internal str_of bridge n a =
     (if n \<in> {''system.screen_timeout.get'', ''system.screen_timeout.get_supported''} then bridge n []
      else if n = ''system.screen_timeout.set''
      then let v = dget a ''duration_ms'' in
        if v = VNone then invalid_argument ''duration_ms is required for set action''
        else (case strict_int v of
            None \<Rightarrow> invalid_argument ''duration_ms must be an integer''
          | Some i \<Rightarrow> bindA (bridge ''system.screen_timeout.get_supported'' []) (\<lambda>r.
              bindA (liftA (py_get r ''supported'' (VList []))) (\<lambda>ok.
              bindA (liftA (value_in (VInt i) ok)) (\<lambda>known.
              if \<not> known
              then invalid_argument (''duration_ms '' @ str_of_int i @
                '' is not supported. Supported values: '' @ str_of ok)
              else bridge n [(''duration_ms'', VInt i)]))))
      else unsupported_action n)"

definition timeout_rollback :: "'d bridge \<Rightarrow> args \<Rightarrow> pyval \<Rightarrow> ('d, unit) act" where
  "timeout_rollback bridge a original =
     (if dget a ''action'' = VStr ''system.screen_timeout.set''
      then bindA (liftA (pre_state_item original)) (\<lambda>pre. case pre of
          None \<Rightarrow> ret ()
        | Some v \<Rightarrow> bindA (liftA (py_contains v ''duration_ms'')) (\<lambda>has.
            if has then bindA (liftA (py_item v ''duration_ms'')) (\<lambda>m.
              ignore_result (bridge ''system.screen_timeout.set'' [(''duration_ms'', m)]))
            else ret ()))
      else ret ())"

definition screen_timeout :: "(pyval \<Rightarrow> string) \<Rightarrow> 'd bridge \<Rightarrow> 'd android_cap" where
  "screen_timeout str_of bridge = \<lparr>ac_descriptor = timeout_descriptor,
     ac_internal = timeout_internal str_of bridge,
     ac_supports = Some (supports_actions [''system.screen_timeout.set'']),
     ac_rollback = Some (timeout_rollback bridge)\<rparr>"

end
