(* ===== verification/Network_Bridge.thy ===== *)
theory Network_Bridge
  imports Device_Controls
begin

text \<open>
  The network bridge (core/android/bridge/network.py) and the capabilities that go through it
  (wifi, bluetooth, mobile_data, hotspot, airplane_mode). The bridge's state is a dictionary of
  dictionaries, kept as one; the list of paired devices is an object that copies of the bluetooth
  dictionary share, so its entry is the reference \<open>paired_ref\<close> and its contents are a component of
  their own. A list that comes in with a restore payload is stored by value.
\<close>

section \<open>State\<close>

record netdev =
  nd_state :: "(string, pyval) pydict"
  nd_paired :: "pyval list"

definition paired_ref :: pyval where
  "paired_ref = VObj ''list'' []"

definition initial_netdev :: netdev where
  "initial_netdev = \<lparr>nd_state =
     [(''wifi'', VDict [(''enabled'', VBool True), (''connected'', VBool False), (''ssid'', VNone)]),
      (''bluetooth'', VDict [(''enabled'', VBool False), (''paired_devices'', paired_ref)]),
      (''mobile_data'', VDict [(''enabled'', VBool True)]),
      (''hotspot'', VDict [(''enabled'', VBool False)]),
      (''airplane_mode'', VDict [(''enabled'', VBool False)])],
     nd_paired = []\<rparr>"

section \<open>Reading and writing the dictionary\<close>

definition radio :: "string \<Rightarrow> (netdev, pyval) act" where
  "radio r s = (case map_of (nd_state s) r of
     Some v \<Rightarrow> (Inr v, s) | None \<Rightarrow> (Inl (Exn (Py PyKeyError) (quoted r)), s))"

text \<open>\<open>v.copy()\<close>: shallow, of a dictionary or a list.\<close>

definition py_copy :: "pyval \<Rightarrow> (netdev, pyval) act" where
  "py_copy v s = (case v of
     VDict d \<Rightarrow> (Inr v, s)
   | VList xs \<Rightarrow> (Inr v, s)
   | _ \<Rightarrow> if v = paired_ref then (Inr (VList (nd_paired s)), s) else (Inl (no_attribute ''copy''), s))"

definition status_of :: "string \<Rightarrow> (netdev, pyval) act" where
  "status_of r = bindA (radio r) py_copy"

definition field :: "string \<Rightarrow> string \<Rightarrow> (netdev, pyval) act" where
  "field r k = bindA (radio r) (\<lambda>v. liftA (py_item v k))"

definition set_field :: "string \<Rightarrow> string \<Rightarrow> pyval \<Rightarrow> (netdev, unit) act" where
  "set_field r k x = bindA (radio r) (\<lambda>v s. case v of
     VDict d \<Rightarrow> (Inr (), s\<lparr>nd_state := AList.update r (VDict (AList.update k x d)) (nd_state s)\<rparr>)
   | _ \<Rightarrow> (Inl (Exn (Py PyTypeError) ''object does not support item assignment''), s))"

primrec copy_all :: "(string, pyval) pydict \<Rightarrow> (netdev, args) act" where
  "copy_all [] = ret []"
| "copy_all (kv # kvs) = bindA (py_copy (snd kv)) (\<lambda>v.
     bindA (copy_all kvs) (\<lambda>d. ret ((fst kv, v) # d)))"

definition full_state :: "(netdev, pyval) act" where
  "full_state s = bindA (copy_all (nd_state s)) (\<lambda>d. ret (VDict d)) s"

text \<open>The list of paired devices: its contents, and how they change in place.\<close>

definition paired_devices :: "(netdev, pyval list) act" where
  "paired_devices = bindA (field ''bluetooth'' ''paired_devices'') (\<lambda>v s.
     if v = paired_ref then (Inr (nd_paired s), s)
     else case v of VList xs \<Rightarrow> (Inr xs, s)
       | _ \<Rightarrow> (Inl (Exn (Py PyTypeError) ''paired devices are not a list''), s))"

definition set_paired :: "pyval list \<Rightarrow> (netdev, unit) act" where
  "set_paired xs = bindA (field ''bluetooth'' ''paired_devices'') (\<lambda>v.
     if v = paired_ref then (\<lambda>s. (Inr (), s\<lparr>nd_paired := xs\<rparr>))
     else set_field ''bluetooth'' ''paired_devices'' (VList xs))"

section \<open>The groups of actions\<close>

definition switch :: "string \<Rightarrow> bool \<Rightarrow> (netdev, pyval) act" where
  "switch r b = seqA (set_field r ''enabled'' (VBool b)) (status_of r)"

definition wifi_down :: "(netdev, unit) act" where
  "wifi_down = seqA (set_field ''wifi'' ''enabled'' (VBool False))
     (seqA (set_field ''wifi'' ''connected'' (VBool False)) (set_field ''wifi'' ''ssid'' VNone))"

definition wifi_connect :: "args \<Rightarrow> (netdev, pyval) act" where
  "wifi_connect a = bindA (field ''wifi'' ''enabled'') (\<lambda>e.
     if \<not> truthy e then raise (Py PyRuntimeError) ''Cannot connect to WiFi while it is disabled.''
     else seqA (set_field ''wifi'' ''connected'' (VBool True))
       (seqA (set_field ''wifi'' ''ssid'' (dget_or a ''ssid'' (VStr ''unknown''))) (status_of ''wifi'')))"

definition wifi_disconnect :: "(netdev, pyval) act" where
  "wifi_disconnect = seqA (set_field ''wifi'' ''connected'' (VBool False))
     (seqA (set_field ''wifi'' ''ssid'' VNone) (status_of ''wifi''))"

definition bluetooth_pair :: "args \<Rightarrow> (netdev, pyval) act" where
  "bluetooth_pair a = bindA (field ''bluetooth'' ''enabled'') (\<lambda>e.
     if \<not> truthy e then raise (Py PyRuntimeError) ''Cannot pair Bluetooth while it is disabled.''
     else let d = dget a ''device_id'' in
       seqA (if truthy d then bindA (paired_devices) (\<lambda>xs.
           if d \<notin> set xs then set_paired (xs @ [d]) else ret ()) else ret ())
         (status_of ''bluetooth''))"

definition bluetooth_unpair :: "args \<Rightarrow> (netdev, pyval) act" where
  "bluetooth_unpair a = (let d = dget a ''device_id'' in
     seqA (bindA (paired_devices) (\<lambda>xs. if d \<in> set xs then set_paired (remove1 d xs) else ret ()))
       (status_of ''bluetooth''))"

definition with_pre_state :: "string \<Rightarrow> (netdev, unit) act \<Rightarrow> (netdev, pyval) act" where
  "with_pre_state r m = bindA full_state (\<lambda>pre. seqA m (bindA (status_of r) (\<lambda>st.
     ret (VDict [(''status'', st), (''pre_state'', pre)]))))"

definition hotspot_enable :: "(netdev, pyval) act" where
  "hotspot_enable = with_pre_state ''hotspot''
     (seqA (set_field ''hotspot'' ''enabled'' (VBool True)) wifi_down)"

definition hotspot_disable :: "(netdev, pyval) act" where
  "hotspot_disable = with_pre_state ''hotspot'' (set_field ''hotspot'' ''enabled'' (VBool False))"

definition airplane_enable :: "(netdev, pyval) act" where
  "airplane_enable = with_pre_state ''airplane_mode''
     (seqA (set_field ''airplane_mode'' ''enabled'' (VBool True)) (seqA wifi_down
     (seqA (set_field ''bluetooth'' ''enabled'' (VBool False))
     (seqA (set_field ''mobile_data'' ''enabled'' (VBool False))
       (set_field ''hotspot'' ''enabled'' (VBool False))))))"

definition airplane_disable :: "(netdev, pyval) act" where
  "airplane_disable = with_pre_state ''airplane_mode'' (set_field ''airplane_mode'' ''enabled'' (VBool False))"

text \<open>Restoring goes through the payload in order and replaces the radios it knows.\<close>

primrec restore_radios :: "args \<Rightarrow> (netdev, unit) act" where
  "restore_radios [] = ret ()"
| "restore_radios (kv # kvs) = seqA
     (\<lambda>s. if has_key (fst kv) (nd_state s)
       then bindA (py_copy (snd kv)) (\<lambda>v s. (Inr (), s\<lparr>nd_state := AList.update (fst kv) v (nd_state s)\<rparr>)) s
       else (Inr (), s))
     (restore_radios kvs)"

definition state_restore :: "args \<Rightarrow> (netdev, pyval) act" where
  "state_restore a = seqA
     (let p = dget a ''state'' in
      if truthy p then case p of VDict d \<Rightarrow> restore_radios d
        | _ \<Rightarrow> liftA (Inl (no_attribute ''items'')) else ret ())
     (bindA full_state (\<lambda>st. ret (VDict [(''status'', VStr ''restored''), (''current_state'', st)])))"

section \<open>The dispatcher\<close>

definition network_execute :: "string \<Rightarrow> args \<Rightarrow> (netdev, pyval) act" where
  "network_execute action a =
     (if action = ''network.wifi.status'' then status_of ''wifi''
      else if action = ''network.wifi.enable'' then switch ''wifi'' True
      else if action = ''network.wifi.disable'' then seqA wifi_down (status_of ''wifi'')
      else if action = ''network.wifi.connect'' then wifi_connect a
      else if action = ''network.wifi.disconnect'' then wifi_disconnect
      else if action = ''network.bluetooth.status'' then status_of ''bluetooth''
      else if action = ''network.bluetooth.enable'' then switch ''bluetooth'' True
      else if action = ''network.bluetooth.disable'' then switch ''bluetooth'' False
      else if action = ''network.bluetooth.pair'' then bluetooth_pair a
      else if action = ''network.bluetooth.unpair'' then bluetooth_unpair a
      else if action = ''network.mobile_data.status'' then status_of ''mobile_data''
      else if action = ''network.mobile_data.enable'' then switch ''mobile_data'' True
      else if action = ''network.mobile_data.disable'' then switch ''mobile_data'' False
      else if action = ''network.hotspot.status'' then status_of ''hotspot''
      else if action = ''network.hotspot.enable'' then hotspot_enable
      else if action = ''network.hotspot.disable'' then hotspot_disable
      else if action = ''network.airplane.status'' then status_of ''airplane_mode''
      else if action = ''network.airplane.enable'' then airplane_enable
      else if action = ''network.airplane.disable'' then airplane_disable
      else if action = ''network.state.restore'' then state_restore a
      else if action = ''wifi.read''
      then ret (VDict [(''enabled'', VBool True), (''ssid'', VStr ''IRA_OS_WIFI'')])
      else if action = ''bluetooth.read'' then ret (VDict [(''enabled'', VBool False)])
      else raise (InAndroid UnsupportedPlatformError)
             (''MockNetworkBridge does not support action: '' @ action))"

lemma network_execute_simps [simp]:
  "network_execute ''network.wifi.status'' a = status_of ''wifi''"
  "network_execute ''network.wifi.enable'' a = switch ''wifi'' True"
  "network_execute ''network.wifi.disable'' a = seqA wifi_down (status_of ''wifi'')"
  "network_execute ''network.wifi.connect'' a = wifi_connect a"
  "network_execute ''network.wifi.disconnect'' a = wifi_disconnect"
  "network_execute ''network.bluetooth.status'' a = status_of ''bluetooth''"
  "network_execute ''network.bluetooth.enable'' a = switch ''bluetooth'' True"
  "network_execute ''network.bluetooth.disable'' a = switch ''bluetooth'' False"
  "network_execute ''network.bluetooth.pair'' a = bluetooth_pair a"
  "network_execute ''network.bluetooth.unpair'' a = bluetooth_unpair a"
  "network_execute ''network.mobile_data.status'' a = status_of ''mobile_data''"
  "network_execute ''network.mobile_data.enable'' a = switch ''mobile_data'' True"
  "network_execute ''network.mobile_data.disable'' a = switch ''mobile_data'' False"
  "network_execute ''network.hotspot.status'' a = status_of ''hotspot''"
  "network_execute ''network.hotspot.enable'' a = hotspot_enable"
  "network_execute ''network.hotspot.disable'' a = hotspot_disable"
  "network_execute ''network.airplane.status'' a = status_of ''airplane_mode''"
  "network_execute ''network.airplane.enable'' a = airplane_enable"
  "network_execute ''network.airplane.disable'' a = airplane_disable"
  "network_execute ''network.state.restore'' a = state_restore a"
  "network_execute ''wifi.read'' a =
     ret (VDict [(''enabled'', VBool True), (''ssid'', VStr ''IRA_OS_WIFI'')])"
  "network_execute ''bluetooth.read'' a = ret (VDict [(''enabled'', VBool False)])"
  by (simp_all add: network_execute_def)

section \<open>The capabilities\<close>

text \<open>
  \<open>isinstance(res, dict) and "pre_state" in res\<close>; otherwise the capability adds the snapshot of
  its own radio.
\<close>

fun with_snapshot :: "string \<Rightarrow> pyval \<Rightarrow> pyval \<Rightarrow> pyval" where
  "with_snapshot r (VDict d) pre = (if has_key ''pre_state'' d then VDict d
     else VDict [(''status'', VDict d), (''pre_state'', VDict [(r, pre)])])"
| "with_snapshot r res pre = VDict [(''status'', res), (''pre_state'', VDict [(r, pre)])]"

definition carries_pre_state :: "pyval \<Rightarrow> bool" where
  "carries_pre_state res = (case res of VDict d \<Rightarrow> has_key ''pre_state'' d | _ \<Rightarrow> False)"

text \<open>Wifi, bluetooth and mobile data read their status before the action.\<close>

definition snapshot_first ::
  "'d bridge \<Rightarrow> string \<Rightarrow> string \<Rightarrow> string list \<Rightarrow> string \<Rightarrow> args \<Rightarrow> ('d, pyval) act" where
  "snapshot_first bridge status r mut n a =
     (if n \<in> set mut then bindA (bridge status []) (\<lambda>pre. bindA (bridge n a) (\<lambda>res.
        ret (with_snapshot r res pre)))
      else bridge n a)"

text \<open>Hotspot and airplane mode rely on the bridge and read the status only if it gave none.\<close>

definition snapshot_last ::
  "'d bridge \<Rightarrow> string \<Rightarrow> string \<Rightarrow> string list \<Rightarrow> string \<Rightarrow> args \<Rightarrow> ('d, pyval) act" where
  "snapshot_last bridge status r mut n a =
     (if n \<in> set mut then bindA (bridge n a) (\<lambda>res.
        if carries_pre_state res then ret res
        else bindA (bridge status []) (\<lambda>pre. ret (with_snapshot r res pre)))
      else bridge n a)"

text \<open>The rollback; \<open>undo_map\<close> maps an action to the one that undoes it when there is no snapshot.\<close>

definition network_rollback ::
  "'d bridge \<Rightarrow> (string \<times> string) list \<Rightarrow> args \<Rightarrow> pyval \<Rightarrow> ('d, unit) act" where
  "network_rollback bridge undo_map a original =
     bindA (if truthy original then liftA (pre_state_item original) else ret None) (\<lambda>pre. case pre of
       Some v \<Rightarrow> ignore_result (bridge ''network.state.restore'' [(''state'', v)])
     | None \<Rightarrow> (case dget a ''action'' of
         VStr n \<Rightarrow> (case map_of undo_map n of
             Some m \<Rightarrow> ignore_result (bridge m []) | None \<Rightarrow> ret ())
       | _ \<Rightarrow> ret ()))"

definition network_descriptor ::
  "string \<Rightarrow> string \<Rightarrow> string \<Rightarrow> string list \<Rightarrow> string list \<Rightarrow> string list \<Rightarrow> descriptor" where
  "network_descriptor i n d perms acts conflicts =
     (mutating_descriptor (base_descriptor i n d CatNETWORK SecNORMAL acts))
       \<lparr>cd_permissions := perms, cd_conflicts := conflicts\<rparr>"

definition wifi_mutating :: "string list" where
  "wifi_mutating = [''network.wifi.enable'', ''network.wifi.disable'', ''network.wifi.connect'',
     ''network.wifi.disconnect'']"

definition wifi :: "'d bridge \<Rightarrow> 'd android_cap" where
  "wifi bridge = \<lparr>ac_descriptor = network_descriptor ''android.device.wifi'' ''Wi-Fi Control''
       ''Controls device Wi-Fi state and connections.'' [''ACCESS_WIFI_STATE'', ''CHANGE_WIFI_STATE'']
       (''network.wifi.status'' # wifi_mutating) [''hotspot'', ''airplane_mode''],
     ac_internal = snapshot_first bridge ''network.wifi.status'' ''wifi'' wifi_mutating,
     ac_supports = Some (supports_actions wifi_mutating),
     ac_rollback = Some (network_rollback bridge
       [(''network.wifi.enable'', ''network.wifi.disable''), (''network.wifi.disable'', ''network.wifi.enable''),
        (''network.wifi.connect'', ''network.wifi.disconnect'')])\<rparr>"

definition bluetooth_mutating :: "string list" where
  "bluetooth_mutating = [''network.bluetooth.enable'', ''network.bluetooth.disable'',
     ''network.bluetooth.pair'', ''network.bluetooth.unpair'']"

definition bluetooth :: "'d bridge \<Rightarrow> 'd android_cap" where
  "bluetooth bridge = \<lparr>ac_descriptor = network_descriptor ''android.device.bluetooth'' ''Bluetooth Control''
       ''Controls device Bluetooth state and pairing.'' [''BLUETOOTH'', ''BLUETOOTH_ADMIN'']
       (''network.bluetooth.status'' # bluetooth_mutating) [''airplane_mode''],
     ac_internal = snapshot_first bridge ''network.bluetooth.status'' ''bluetooth'' bluetooth_mutating,
     ac_supports = Some (supports_actions bluetooth_mutating),
     ac_rollback = Some (network_rollback bridge
       [(''network.bluetooth.enable'', ''network.bluetooth.disable''),
        (''network.bluetooth.disable'', ''network.bluetooth.enable'')])\<rparr>"

definition mobile_data_mutating :: "string list" where
  "mobile_data_mutating = [''network.mobile_data.enable'', ''network.mobile_data.disable'']"

definition mobile_data :: "'d bridge \<Rightarrow> 'd android_cap" where
  "mobile_data bridge = \<lparr>ac_descriptor = network_descriptor ''android.device.mobile_data''
       ''Mobile Data Control'' ''Controls device Mobile Data state.'' [''MODIFY_PHONE_STATE'']
       (''network.mobile_data.status'' # mobile_data_mutating) [''airplane_mode''],
     ac_internal = snapshot_first bridge ''network.mobile_data.status'' ''mobile_data'' mobile_data_mutating,
     ac_supports = Some (supports_actions mobile_data_mutating),
     ac_rollback = Some (network_rollback bridge
       [(''network.mobile_data.enable'', ''network.mobile_data.disable''),
        (''network.mobile_data.disable'', ''network.mobile_data.enable'')])\<rparr>"

definition hotspot_mutating :: "string list" where
  "hotspot_mutating = [''network.hotspot.enable'', ''network.hotspot.disable'']"

definition hotspot :: "'d bridge \<Rightarrow> 'd android_cap" where
  "hotspot bridge = \<lparr>ac_descriptor = network_descriptor ''android.device.hotspot'' ''Hotspot Control''
       ''Controls device Hotspot state.'' [''CHANGE_WIFI_STATE'']
       (''network.hotspot.status'' # hotspot_mutating) [''wifi'', ''airplane_mode''],
     ac_internal = snapshot_last bridge ''network.hotspot.status'' ''hotspot'' hotspot_mutating,
     ac_supports = Some (supports_actions hotspot_mutating),
     ac_rollback = Some (network_rollback bridge
       [(''network.hotspot.enable'', ''network.hotspot.disable''),
        (''network.hotspot.disable'', ''network.hotspot.enable'')])\<rparr>"

definition airplane_mutating :: "string list" where
  "airplane_mutating = [''network.airplane.enable'', ''network.airplane.disable'']"

definition airplane_mode :: "'d bridge \<Rightarrow> 'd android_cap" where
  "airplane_mode bridge = \<lparr>ac_descriptor = network_descriptor ''android.device.airplane_mode''
       ''Airplane Mode Control'' ''Controls device Airplane Mode.'' [''WRITE_SECURE_SETTINGS'']
       (''network.airplane.status'' # airplane_mutating)
       [''wifi'', ''bluetooth'', ''hotspot'', ''mobile_data''],
     ac_internal = snapshot_last bridge ''network.airplane.status'' ''airplane_mode'' airplane_mutating,
     ac_supports = Some (supports_actions airplane_mutating),
     ac_rollback = Some (network_rollback bridge
       [(''network.airplane.enable'', ''network.airplane.disable''),
        (''network.airplane.disable'', ''network.airplane.enable'')])\<rparr>"

definition network_caps :: "'d bridge \<Rightarrow> 'd android_cap list" where
  "network_caps bridge = [wifi bridge, bluetooth bridge, mobile_data bridge, hotspot bridge,
     airplane_mode bridge]"

end
