(* ===== verification/Device_Rollback.thy ===== *)
theory Device_Rollback
  imports Device_Controls
begin

text \<open>
  What the device controls guarantee on the simulated device: when volume and brightness stay in
  their range, and when rolling an action back restores the device. The interface of a
  compensable step (a locale) is what a client needs to undo a whole sequence of steps; the
  device controls provide it.
\<close>

section \<open>All controls of the system bridge\<close>

definition system_caps :: "(pyval \<Rightarrow> string) \<Rightarrow> 'd bridge \<Rightarrow> 'd android_cap list" where
  "system_caps str_of bridge = [battery bridge, clipboard bridge, flashlight bridge, volume bridge,
     brightness bridge, vibration bridge, do_not_disturb bridge, rotation bridge,
     screen_timeout str_of bridge]"

lemmas control_defs = battery_def clipboard_def flashlight_def volume_def brightness_def vibration_def
  do_not_disturb_def rotation_def screen_timeout_def

lemmas descriptor_defs = base_descriptor_def mutating_descriptor_def flashlight_descriptor_def
  volume_descriptor_def volume_mutating_def brightness_descriptor_def brightness_mutating_def
  vibrate_descriptor_def vibrate_mutating_def dnd_descriptor_def rotation_descriptor_def
  timeout_descriptor_def

lemmas internal_defs = volume_internal_def brightness_internal_def vibrate_internal_def
  dnd_internal_def rotation_internal_def timeout_internal_def invalid_argument_def
  unsupported_action_def

lemma accepted_action_eq:
  "accepted_action d v = Some n \<longleftrightarrow> v = VStr n \<and> (n \<in> set (cd_actions d) \<or> n = ''default'')"
  by (cases v) auto

lemma execute_action_state:
  "snd (execute_action str_of cap a s) =
     (case accepted_action (ac_descriptor cap) (dget_or a ''action'' (VStr ''default'')) of
        None \<Rightarrow> s | Some n \<Rightarrow> snd (ac_internal cap n a s))"
  by (cases "accepted_action (ac_descriptor cap) (dget_or a ''action'' (VStr ''default''))")
    (auto simp: execute_action_def Let_def act_defs split: prod.splits sum.splits)

section \<open>Volume and brightness stay in range\<close>

definition levels_ok :: "sysdev \<Rightarrow> bool" where
  "levels_ok s \<longleftrightarrow> 0 \<le> sd_volume s \<and> sd_volume s \<le> 100 \<and> 0 \<le> sd_brightness s \<and> sd_brightness s \<le> 100"

text \<open>A relative step that crosses the bound on the side the bridge does not clamp.\<close>

definition oversteps :: "string \<Rightarrow> args \<Rightarrow> sysdev \<Rightarrow> bool" where
  "oversteps n a s = (case py_int (dget_or a ''step'' (VInt 10)) of
     Inl e \<Rightarrow> False
   | Inr k \<Rightarrow> n = ''system.volume.up'' \<and> sd_volume s + k < 0 \<or>
       n = ''system.volume.down'' \<and> sd_volume s - k > 100 \<or>
       n = ''system.brightness.increase'' \<and> sd_brightness s + k < 0 \<or>
       n = ''system.brightness.decrease'' \<and> sd_brightness s - k > 100)"

lemma clamp_range [simp]: "0 \<le> clamp v" "clamp v \<le> 100"
  by (simp_all add: clamp_def)

lemma clamp_id: "0 \<le> v \<Longrightarrow> v \<le> 100 \<Longrightarrow> clamp v = v"
  by (simp add: clamp_def)

lemma oversteps_simps [simp]:
  "oversteps ''system.volume.up'' a s = (case py_int (dget_or a ''step'' (VInt 10)) of
     Inl e \<Rightarrow> False | Inr k \<Rightarrow> sd_volume s + k < 0)"
  "oversteps ''system.volume.down'' a s = (case py_int (dget_or a ''step'' (VInt 10)) of
     Inl e \<Rightarrow> False | Inr k \<Rightarrow> sd_volume s - k > 100)"
  "oversteps ''system.brightness.increase'' a s = (case py_int (dget_or a ''step'' (VInt 10)) of
     Inl e \<Rightarrow> False | Inr k \<Rightarrow> sd_brightness s + k < 0)"
  "oversteps ''system.brightness.decrease'' a s = (case py_int (dget_or a ''step'' (VInt 10)) of
     Inl e \<Rightarrow> False | Inr k \<Rightarrow> sd_brightness s - k > 100)"
  by (simp_all add: oversteps_def cong: sum.case_cong)

lemma oversteps_other [simp]:
  "n \<notin> {''system.volume.up'', ''system.volume.down'', ''system.brightness.increase'',
     ''system.brightness.decrease''} \<Longrightarrow> \<not> oversteps n a s"
  unfolding oversteps_def by (auto split: sum.split)

lemma levels_volume_step:
  assumes "levels_ok s"
  shows "levels_ok (snd (volume_set a s))"
    and "levels_ok (snd (volume_up a s)) \<longleftrightarrow> \<not> oversteps ''system.volume.up'' a s"
    and "levels_ok (snd (volume_down a s)) \<longleftrightarrow> \<not> oversteps ''system.volume.down'' a s"
  using assms
  by (auto simp: volume_set_def volume_up_def volume_down_def change_volume_def
      act_defs levels_ok_def split: sum.splits)

lemma levels_muted: "levels_ok s \<Longrightarrow> levels_ok (snd (volume_mute b s))"
  by (simp add: volume_mute_def change_volume_def levels_ok_def)

lemma levels_brightness_step:
  assumes "levels_ok s"
  shows "levels_ok (snd (brightness_set a s))"
    and "levels_ok (snd (brightness_increase a s)) \<longleftrightarrow> \<not> oversteps ''system.brightness.increase'' a s"
    and "levels_ok (snd (brightness_decrease a s)) \<longleftrightarrow> \<not> oversteps ''system.brightness.decrease'' a s"
  using assms
  by (auto simp: brightness_set_def brightness_increase_def brightness_decrease_def
      change_brightness_def act_defs levels_ok_def split: sum.splits)

lemma levels_auto: "levels_ok s \<Longrightarrow> levels_ok (snd (brightness_auto b s))"
  by (simp add: brightness_auto_def change_brightness_def levels_ok_def)

text \<open>The same for a whole capability: a guard in front of the bridge does not matter.\<close>

lemma volume_internal_cases:
  "volume_internal bridge n a s = bridge n a s \<or>
   n = ''system.volume.set'' \<and> snd (volume_internal bridge n a s) = s"
  by (auto simp: volume_internal_def invalid_argument_def act_defs split: option.splits sum.splits)

lemma brightness_internal_cases:
  "brightness_internal bridge n a s = bridge n a s \<or>
   n = ''system.brightness.set'' \<and> snd (brightness_internal bridge n a s) = s"
  by (auto simp: brightness_internal_def invalid_argument_def act_defs split: option.splits sum.splits)

lemma volume_levels:
  assumes "levels_ok s" "n \<in> set (''default'' # cd_actions volume_descriptor)"
  shows "levels_ok (snd (volume_internal system_execute n a s)) \<longleftrightarrow> \<not> oversteps n a s"
proof -
  have "n = ''default'' \<or> n = ''system.volume.get'' \<or> n \<in> set volume_mutating"
    using assms(2) by (simp add: volume_descriptor_def mutating_descriptor_def base_descriptor_def)
  then have "levels_ok (snd (system_execute n a s)) \<longleftrightarrow> \<not> oversteps n a s"
    unfolding volume_mutating_def set_simps insert_iff empty_iff
    using levels_volume_step[OF assms(1), of a] levels_muted[OF assms(1)] assms(1)
    by (elim disjE FalseE) (simp_all add: raise_def del: oversteps_simps)
  then show ?thesis
    using volume_internal_cases[of system_execute n a s] assms(1) by auto
qed

lemma brightness_levels:
  assumes "levels_ok s" "n \<in> set (''default'' # cd_actions brightness_descriptor)"
  shows "levels_ok (snd (brightness_internal system_execute n a s)) \<longleftrightarrow> \<not> oversteps n a s"
proof -
  have "n = ''default'' \<or> n = ''system.brightness.get'' \<or> n \<in> set brightness_mutating"
    using assms(2) by (simp add: brightness_descriptor_def mutating_descriptor_def base_descriptor_def)
  then have "levels_ok (snd (system_execute n a s)) \<longleftrightarrow> \<not> oversteps n a s"
    unfolding brightness_mutating_def set_simps insert_iff empty_iff
    using levels_brightness_step[OF assms(1), of a] levels_auto[OF assms(1)] assms(1)
    by (elim disjE FalseE) (simp_all add: raise_def del: oversteps_simps)
  then show ?thesis
    using brightness_internal_cases[of system_execute n a s] assms(1) by auto
qed

text \<open>The other controls touch neither level.\<close>

definition same_levels :: "sysdev \<Rightarrow> sysdev \<Rightarrow> bool" where
  "same_levels s t \<longleftrightarrow> sd_volume t = sd_volume s \<and> sd_brightness t = sd_brightness s"

lemma same_levels_refl [simp]: "same_levels s s"
  by (simp add: same_levels_def)

lemma other_levels:
  "same_levels s (snd (set_flash f s))" "same_levels s (snd (vibrate b s))"
  "same_levels s (snd (dnd_set a s))" "same_levels s (snd (rotation_lock a s))"
  "same_levels s (snd (rotation_unlock s))" "same_levels s (snd (timeout_set a s))"
  by (simp_all add: same_levels_def bridge_steps Let_def)

lemma flashlight_levels:
  "n \<in> set (''default'' # cd_actions flashlight_descriptor) \<Longrightarrow>
     same_levels s (snd (system_execute n a s))"
  unfolding flashlight_descriptor_def mutating_descriptor_def base_descriptor_def
  by (auto simp: other_levels raise_def)

lemma vibrate_levels: "same_levels s (snd (vibrate_internal system_execute n a s))"
  by (auto simp: vibrate_internal_def vibrate_mutating_def unsupported_action_def invalid_argument_def
      raise_def other_levels Let_def split: option.split)

lemma dnd_levels: "same_levels s (snd (dnd_internal system_execute n a s))"
  by (auto simp: dnd_internal_def unsupported_action_def invalid_argument_def
      act_defs other_levels split: sum.split)

lemma rotation_levels: "same_levels s (snd (rotation_internal system_execute n a s))"
  by (auto simp: rotation_internal_def unsupported_action_def invalid_argument_def
      act_defs other_levels split: sum.split)

lemma timeout_levels: "same_levels s (snd (timeout_internal str_of system_execute n a s))"
  by (auto simp: timeout_internal_def unsupported_action_def invalid_argument_def
      act_defs other_levels Let_def split: option.split sum.split)

lemma same_levels_ok: "same_levels s t \<Longrightarrow> levels_ok s \<Longrightarrow> levels_ok t"
  by (simp add: same_levels_def levels_ok_def)

lemma not_oversteps:
  "n \<in> set (''default'' # cd_actions (ac_descriptor cap)) \<Longrightarrow>
   cap \<in> {battery bridge, clipboard bridge, flashlight bridge, vibration bridge, do_not_disturb bridge,
     rotation bridge, screen_timeout str_of bridge} \<Longrightarrow> \<not> oversteps n a s"
  by (rule oversteps_other)
    (auto simp: control_defs base_descriptor_def mutating_descriptor_def flashlight_descriptor_def
      vibrate_descriptor_def vibrate_mutating_def dnd_descriptor_def rotation_descriptor_def
      timeout_descriptor_def)

lemma system_caps_levels:
  assumes "levels_ok s" "cap \<in> set (system_caps str_of system_execute)"
    and n: "n \<in> set (''default'' # cd_actions (ac_descriptor cap))"
  shows "levels_ok (snd (ac_internal cap n a s)) \<longleftrightarrow> \<not> oversteps n a s"
proof (cases "cap = volume system_execute \<or> cap = brightness system_execute")
  case True
  with volume_levels[OF assms(1), of n a] brightness_levels[OF assms(1), of n a] n show ?thesis
    by (auto simp: volume_def brightness_def simp del: set_simps)
next
  case False
  then have cap: "cap \<in> {battery system_execute, clipboard system_execute, flashlight system_execute,
      vibration system_execute, do_not_disturb system_execute, rotation system_execute,
      screen_timeout str_of system_execute}"
    using assms(2) unfolding system_caps_def by simp
  have "same_levels s (snd (ac_internal cap n a s))"
    using cap n flashlight_levels[of n s a] vibrate_levels[of s n a] dnd_levels[of s n a]
      rotation_levels[of s n a] timeout_levels[of s str_of n a]
    unfolding insert_iff empty_iff
    by (elim disjE FalseE) (simp_all add: control_defs del: set_simps)
  with not_oversteps[OF n cap] same_levels_ok[OF _ assms(1)] show ?thesis by blast
qed

lemma system_caps_in_range:
  assumes "levels_ok s" and "cap \<in> set (system_caps str_of system_execute)"
  shows "levels_ok (snd (execute_action str_of cap a s)) \<longleftrightarrow>
    \<not> (\<exists>n. accepted_action (ac_descriptor cap) (dget a ''action'') = Some n \<and> oversteps n a s)"
proof -
  let ?acc = "accepted_action (ac_descriptor cap)"
  have levels: "levels_ok (snd (ac_internal cap n a s)) \<longleftrightarrow> \<not> oversteps n a s"
    if "n \<in> set (''default'' # cd_actions (ac_descriptor cap))" for n
    using system_caps_levels[OF assms that] .
  show ?thesis
  proof (cases "map_of a ''action''")
    case None
    then show ?thesis
      using levels[of "''default''"] by (simp add: execute_action_state dget_def dget_or_def)
  next
    case (Some v)
    show ?thesis
    proof (cases "?acc v")
      case None
      with Some assms(1) show ?thesis by (simp add: execute_action_state dget_def dget_or_def)
    next
      case acc: (Some n)
      then have "n \<in> set (''default'' # cd_actions (ac_descriptor cap))"
        by (auto simp: accepted_action_eq)
      with Some acc levels[of n] show ?thesis
        by (simp add: execute_action_state dget_def dget_or_def)
    qed
  qed
qed

text \<open>
  C22. Volume and brightness stay between 0 and 100 exactly when no step crosses the open side: from
  levels in range, calling any control of the system bridge with any arguments leaves both levels
  in range, except for the accepted actions up and increase with a negative step larger than the
  level and down and decrease with a negative step beyond the room above, which leave the range.
\<close>

theorem levels_exact:
  assumes "levels_ok s" and "cap \<in> set (system_caps str_of system_execute)"
  shows "levels_ok (snd (execute_action str_of cap a s)) \<longleftrightarrow>
    \<not> (\<exists>n. accepted_action (ac_descriptor cap) (dget a ''action'') = Some n \<and> oversteps n a s)"
  by (rule system_caps_in_range[OF assms])

lemma initial_levels: "levels_ok initial_sysdev"
  by (simp add: levels_ok_def initial_sysdev_def)

theorem levels_exact_witness:
  "let out = snd (execute_action (\<lambda>v. []) (volume system_execute)
      [(''action'', VStr ''system.volume.up''), (''step'', VInt (- 60))] initial_sysdev)
   in \<not> levels_ok out"
proof -
  have "volume system_execute \<in> set (system_caps (\<lambda>v. []) system_execute)"
    by (simp add: system_caps_def)
  from levels_exact[OF initial_levels this,
      of "[(''action'', VStr ''system.volume.up''), (''step'', VInt (- 60))]"]
  show ?thesis
    by (simp add: volume_def volume_descriptor_def volume_mutating_def mutating_descriptor_def
        base_descriptor_def initial_sysdev_def)
qed


section \<open>Rolling one action back\<close>

text \<open>
  The actions whose rollback is exact: the switches that changed something, a lock from a locked
  state or with the orientation the device had, vibration of a device at rest, and every other
  action.
\<close>

definition undo_exact :: "string \<Rightarrow> args \<Rightarrow> sysdev \<Rightarrow> bool" where
  "undo_exact n a s =
     (if n = ''system.flashlight.on'' then \<not> sd_flash s
      else if n = ''system.flashlight.off'' then sd_flash s
      else if n = ''system.volume.mute'' then \<not> sd_muted s
      else if n = ''system.volume.unmute'' then sd_muted s
      else if n = ''system.brightness.auto_on'' then \<not> sd_auto s
      else if n = ''system.brightness.auto_off'' then sd_auto s
      else if n \<in> {''system.vibrate.start'', ''system.vibrate.cancel''} then \<not> sd_vibrating s
      else if n = ''system.rotation.lock''
      then sd_locked s \<or> dget a ''orientation'' = sd_orientation s
      else True)"

lemma undo_exact_simps [simp]:
  "undo_exact ''system.flashlight.on'' a s = (\<not> sd_flash s)"
  "undo_exact ''system.flashlight.off'' a s = sd_flash s"
  "undo_exact ''system.flashlight.toggle'' a s"
  "undo_exact ''system.volume.set'' a s" "undo_exact ''system.volume.up'' a s"
  "undo_exact ''system.volume.down'' a s"
  "undo_exact ''system.volume.mute'' a s = (\<not> sd_muted s)"
  "undo_exact ''system.volume.unmute'' a s = sd_muted s"
  "undo_exact ''system.brightness.set'' a s" "undo_exact ''system.brightness.increase'' a s"
  "undo_exact ''system.brightness.decrease'' a s"
  "undo_exact ''system.brightness.auto_on'' a s = (\<not> sd_auto s)"
  "undo_exact ''system.brightness.auto_off'' a s = sd_auto s"
  "undo_exact ''system.vibrate.start'' a s = (\<not> sd_vibrating s)"
  "undo_exact ''system.vibrate.cancel'' a s = (\<not> sd_vibrating s)"
  "undo_exact ''system.dnd.set'' a s"
  "undo_exact ''system.rotation.lock'' a s =
     (sd_locked s \<or> dget a ''orientation'' = sd_orientation s)"
  "undo_exact ''system.rotation.unlock'' a s" "undo_exact ''system.screen_timeout.set'' a s"
  by (simp_all add: undo_exact_def)

definition success_value :: "string \<Rightarrow> pyval \<Rightarrow> pyval" where
  "success_value i v = result_value \<lparr>cr_capability = i, cr_success = True, cr_data = v,
     cr_code = [], cr_message = []\<rparr>"

lemma attr_success [simp]: "attr (success_value i v) ''data'' = Some v"
  by (simp add: success_value_def result_value_def)

lemma pre_state_success [simp]:
  "pre_state_of (success_value i (VDict d)) = Inr (dget d ''pre_state'')"
  "pre_state_item (success_value i (VDict d)) = Inr (map_of d ''pre_state'')"
  by (auto simp: pre_state_of_def pre_state_item_def dget_def dget_or_def has_key_def
      split: option.split bool.split)

lemma execute_success:
  assumes "execute_action str_of cap a s = (Inr x, t)" "cr_success x"
  shows "\<exists>n v. dget_or a ''action'' (VStr ''default'') = VStr n \<and>
    (n \<in> set (cd_actions (ac_descriptor cap)) \<or> n = ''default'') \<and> ac_internal cap n a s = (Inr v, t) \<and>
    result_value x = success_value (cd_id (ac_descriptor cap)) v"
  using assms
  by (auto simp: execute_action_def Let_def act_defs cap_failure_def success_value_def accepted_action_eq
      split: option.splits prod.splits sum.splits)

lemma supports_action_name:
  "in_strings v names = Inr True \<longleftrightarrow> (\<exists>n. v = VStr n \<and> n \<in> set names)"
  by (cases v) auto

definition undone :: "'d android_cap \<Rightarrow> args \<Rightarrow> pyval \<Rightarrow> 'd \<Rightarrow> 'd \<Rightarrow> bool" where
  "undone cap a v t u \<longleftrightarrow>
     adapter_rollback cap a (success_value (cd_id (ac_descriptor cap)) v) t = (Inr (), u)"

lemma flashlight_undone:
  assumes "n \<in> {''system.flashlight.on'', ''system.flashlight.off'', ''system.flashlight.toggle''}"
    and "dget a ''action'' = VStr n" and "ac_internal (flashlight system_execute) n a s = (Inr v, t)"
  shows "\<exists>u. undone (flashlight system_execute) a v t u \<and> (u = s \<longleftrightarrow> undo_exact n a s)"
  using assms(1) unfolding insert_iff empty_iff
proof (elim disjE FalseE)
qed (use assms(2,3) in \<open>cases s; auto simp: undone_def adapter_rollback_def flashlight_def
  flashlight_rollback_def ignore_result_def act_defs set_flash_def flash_reply_def Let_def\<close>)+

lemma volume_undone:
  assumes "levels_ok s" "n \<in> set volume_mutating"
    and "dget a ''action'' = VStr n" and "ac_internal (volume system_execute) n a s = (Inr v, t)"
  shows "\<exists>u. undone (volume system_execute) a v t u \<and> (u = s \<longleftrightarrow> undo_exact n a s)"
proof -
  have run: "system_execute n a s = (Inr v, t)"
    using assms(4) unfolding volume_def
    by (auto simp: volume_internal_def invalid_argument_def act_defs split: option.splits sum.splits if_splits)
  have lv: "clamp (sd_volume s) = sd_volume s" using assms(1) by (simp add: levels_ok_def clamp_id)
  show ?thesis
    using assms(2) unfolding volume_mutating_def set_simps insert_iff empty_iff
  proof (elim disjE FalseE)
  qed (use run assms(3) lv in \<open>cases s; auto simp: undone_def adapter_rollback_def volume_def
    volume_rollback_def ignore_result_def act_defs volume_set_def volume_up_def volume_down_def
    volume_mute_def change_volume_def volume_entries_def Let_def split: sum.splits\<close>)+
qed

lemma brightness_undone:
  assumes "levels_ok s" "n \<in> set brightness_mutating"
    and "dget a ''action'' = VStr n" and "ac_internal (brightness system_execute) n a s = (Inr v, t)"
  shows "\<exists>u. undone (brightness system_execute) a v t u \<and> (u = s \<longleftrightarrow> undo_exact n a s)"
proof -
  have run: "system_execute n a s = (Inr v, t)"
    using assms(4) unfolding brightness_def
    by (auto simp: brightness_internal_def invalid_argument_def act_defs
        split: option.splits sum.splits if_splits)
  have lv: "clamp (sd_brightness s) = sd_brightness s" using assms(1) by (simp add: levels_ok_def clamp_id)
  show ?thesis
    using assms(2) unfolding brightness_mutating_def set_simps insert_iff empty_iff
  proof (elim disjE FalseE)
  qed (use run assms(3) lv in \<open>cases s; auto simp: undone_def adapter_rollback_def brightness_def
    brightness_rollback_def ignore_result_def act_defs brightness_set_def brightness_increase_def
    brightness_decrease_def brightness_auto_def change_brightness_def brightness_entries_def Let_def
    split: sum.splits\<close>)+
qed

lemma vibration_undone:
  assumes "n \<in> set vibrate_mutating"
    and "dget a ''action'' = VStr n" and "ac_internal (vibration system_execute) n a s = (Inr v, t)"
  shows "\<exists>u. undone (vibration system_execute) a v t u \<and> (u = s \<longleftrightarrow> undo_exact n a s)"
  using assms(1) unfolding vibrate_mutating_def set_simps insert_iff empty_iff
proof (elim disjE FalseE)
qed (use assms(2,3) in \<open>cases s; auto simp: undone_def adapter_rollback_def vibration_def
  vibrate_internal_def vibrate_mutating_def invalid_argument_def vibrate_rollback_def ignore_result_def
  act_defs vibrate_def Let_def split: if_splits option.splits\<close>)+

lemma dnd_undone:
  assumes "dget a ''action'' = VStr ''system.dnd.set''"
    and "ac_internal (do_not_disturb system_execute) ''system.dnd.set'' a s = (Inr v, t)"
  shows "undone (do_not_disturb system_execute) a v t s"
  using assms
  by (cases s) (auto simp: undone_def adapter_rollback_def do_not_disturb_def dnd_internal_def
      invalid_argument_def dnd_rollback_def ignore_result_def act_defs dnd_set_def Let_def
      split: if_splits sum.splits)

lemma rotation_undone:
  assumes "n \<in> {''system.rotation.lock'', ''system.rotation.unlock''}"
    and "dget a ''action'' = VStr n" and "ac_internal (rotation system_execute) n a s = (Inr v, t)"
  shows "\<exists>u. undone (rotation system_execute) a v t u \<and> (u = s \<longleftrightarrow> undo_exact n a s)"
  using assms(1) unfolding insert_iff empty_iff
proof (elim disjE FalseE)
qed (use assms(2,3) in \<open>cases s; auto simp: undone_def adapter_rollback_def rotation_def
  rotation_internal_def invalid_argument_def rotation_rollback_def ignore_result_def
  act_defs rotation_lock_def rotation_unlock_def change_rotation_def rotation_entries_def Let_def
  split: if_splits sum.splits\<close>)+

lemma timeout_undone:
  assumes "dget a ''action'' = VStr ''system.screen_timeout.set''"
    and "ac_internal (screen_timeout str_of system_execute) ''system.screen_timeout.set'' a s = (Inr v, t)"
  shows "undone (screen_timeout str_of system_execute) a v t s"
  using assms
  by (cases s) (auto simp: undone_def adapter_rollback_def screen_timeout_def timeout_internal_def
      invalid_argument_def timeout_rollback_def ignore_result_def act_defs timeout_set_def Let_def
      split: if_splits sum.splits option.splits)


lemma system_caps_undone:
  assumes s: "levels_ok s" and cap: "cap \<in> set (system_caps str_of system_execute)"
    and sup: "adapter_supports cap a = Inr True"
    and run: "dget a ''action'' = VStr n" "ac_internal cap n a s = (Inr v, t)"
  shows "\<exists>u. undone cap a v t u \<and> (u = s \<longleftrightarrow> undo_exact n a s)"
proof -
  consider "cap = flashlight system_execute" | "cap = volume system_execute"
    | "cap = brightness system_execute" | "cap = vibration system_execute"
    | "cap = do_not_disturb system_execute" | "cap = rotation system_execute"
    | "cap = screen_timeout str_of system_execute"
    using cap sup by (auto simp: system_caps_def battery_def clipboard_def adapter_supports_def)
  then show ?thesis
  proof cases
    case 1
    with sup run(1) have "n \<in> {''system.flashlight.on'', ''system.flashlight.off'', ''system.flashlight.toggle''}"
      by (auto simp: adapter_supports_def flashlight_def flashlight_supports_def)
    from flashlight_undone[OF this] run 1 show ?thesis by blast
  next
    case 2
    with sup run(1) have "n \<in> set volume_mutating"
      by (simp add: adapter_supports_def volume_def supports_actions_def)
    from volume_undone[OF s this] run 2 show ?thesis by blast
  next
    case 3
    with sup run(1) have "n \<in> set brightness_mutating"
      by (simp add: adapter_supports_def brightness_def supports_actions_def)
    from brightness_undone[OF s this] run 3 show ?thesis by blast
  next
    case 4
    with sup run(1) have "n \<in> set vibrate_mutating"
      by (simp add: adapter_supports_def vibration_def supports_actions_def)
    from vibration_undone[OF this] run 4 show ?thesis by blast
  next
    case 5
    with sup run(1) have n: "n = ''system.dnd.set''"
      by (simp add: adapter_supports_def do_not_disturb_def supports_actions_def)
    show ?thesis unfolding n 5 using dnd_undone run unfolding n 5 by auto
  next
    case 6
    with sup run(1) have "n \<in> {''system.rotation.lock'', ''system.rotation.unlock''}"
      by (simp add: adapter_supports_def rotation_def supports_actions_def)
    from rotation_undone[OF this] run 6 show ?thesis by blast
  next
    case 7
    with sup run(1) have n: "n = ''system.screen_timeout.set''"
      by (simp add: adapter_supports_def screen_timeout_def supports_actions_def)
    show ?thesis unfolding n 7 using timeout_undone run unfolding n 7 by auto
  qed
qed

lemma system_caps_rollback:
  assumes "levels_ok s" and "cap \<in> set (system_caps str_of system_execute)"
    and "adapter_supports cap a = Inr True"
    and "execute_action str_of cap a s = (Inr x, t)" and "cr_success x"
  shows "\<exists>n u. dget a ''action'' = VStr n \<and>
    adapter_rollback cap a (result_value x) t = (Inr (), u) \<and> (u = s \<longleftrightarrow> undo_exact n a s)"
proof -
  obtain n v where n: "dget_or a ''action'' (VStr ''default'') = VStr n"
    "ac_internal cap n a s = (Inr v, t)"
    "result_value x = success_value (cd_id (ac_descriptor cap)) v"
    using execute_success[OF assms(4,5)] by blast
  have "dget a ''action'' \<noteq> VNone"
    using assms(2,3) by (auto simp: system_caps_def control_defs adapter_supports_def
        flashlight_supports_def supports_actions_def)
  with n(1) have act: "dget a ''action'' = VStr n"
    by (simp add: dget_def dget_or_def split: option.splits)
  from system_caps_undone[OF assms(1-3) act n(2)] act n(3) show ?thesis
    unfolding undone_def by auto
qed

text \<open>
  C19. Rolling back restores the device exactly when it should have changed: after any successful
  mutating action of any control of the system bridge, from levels in range, rolling back with
  the original result never raises, and gives the device back unchanged except for switches that
  were already in the state asked for (a mute of a muted device is rolled back to unmuted), a
  rotation lock of an unlocked device to another orientation, and a vibrating device.
\<close>

theorem rollback_exact:
  assumes "levels_ok s" and "cap \<in> set (system_caps str_of system_execute)"
    and "adapter_supports cap a = Inr True"
    and "execute_action str_of cap a s = (Inr x, t)" and "cr_success x"
  shows "\<exists>n u. dget a ''action'' = VStr n \<and>
    adapter_rollback cap a (result_value x) t = (Inr (), u) \<and> (u = s \<longleftrightarrow> undo_exact n a s)"
  by (rule system_caps_rollback[OF assms])

theorem rollback_exact_witness:
  "\<exists>x t u. execute_action (\<lambda>v. []) (volume system_execute) [(''action'', VStr ''system.volume.mute'')]
      (initial_sysdev\<lparr>sd_muted := True\<rparr>) = (Inr x, t) \<and>
    adapter_rollback (volume system_execute) [(''action'', VStr ''system.volume.mute'')]
      (result_value x) t = (Inr (), u) \<and> u \<noteq> initial_sysdev\<lparr>sd_muted := True\<rparr>"
proof -
  let ?a = "[(''action'', VStr ''system.volume.mute'')]" and ?s = "initial_sysdev\<lparr>sd_muted := True\<rparr>"
  obtain x t where x: "execute_action (\<lambda>v. []) (volume system_execute) ?a ?s = (Inr x, t)" "cr_success x"
    by (simp add: execute_action_def volume_def volume_descriptor_def volume_mutating_def
        mutating_descriptor_def base_descriptor_def volume_internal_def volume_mute_def
        change_volume_def act_defs)
  have "levels_ok ?s" "volume system_execute \<in> set (system_caps (\<lambda>v. []) system_execute)"
    "adapter_supports (volume system_execute) ?a = Inr True"
    by (simp_all add: levels_ok_def initial_sysdev_def system_caps_def adapter_supports_def volume_def
        supports_actions_def volume_mutating_def)
  from rollback_exact[OF this x] x(1) show ?thesis by auto
qed


section \<open>Compensation\<close>

text \<open>Executing a call and undoing it, as a client with the adapter sees them.\<close>

definition control_step ::
  "(pyval \<Rightarrow> string) \<Rightarrow> 'd android_cap \<times> args \<Rightarrow> 'd \<Rightarrow> pyval option \<times> 'd" where
  "control_step str_of call s = (case execute_action str_of (fst call) (snd call) s of
     (Inr x, t) \<Rightarrow> (if cr_success x then Some (result_value x) else None, t)
   | (Inl e, t) \<Rightarrow> (None, t))"

definition control_undo :: "'d android_cap \<times> args \<Rightarrow> pyval \<Rightarrow> 'd \<Rightarrow> 'd" where
  "control_undo call v s = snd (adapter_rollback (fst call) (snd call) v s)"

lemma control_step_Some:
  assumes "control_step str_of call s = (Some v, t)"
  shows "\<exists>x. execute_action str_of (fst call) (snd call) s = (Inr x, t) \<and> cr_success x \<and> v = result_value x"
  using assms by (auto simp: control_step_def split: prod.splits sum.splits if_splits)

lemma control_step_None:
  assumes "control_step str_of call s = (None, t)"
    and "\<And>n e u. ac_internal (fst call) n (snd call) s = (Inl e, u) \<Longrightarrow> u = s"
  shows "t = s"
  using assms(1)
  by (auto simp: control_step_def execute_action_def Let_def act_defs dest: assms(2)
      split: prod.splits sum.splits if_splits option.splits)

lemma system_execute_fail: "system_execute n a s = (Inl e, t) \<Longrightarrow> t = s"
  unfolding system_execute_def
  by (auto simp: bridge_steps act_defs Let_def split: if_split_asm sum.split_asm)

lemma internal_fail:
  assumes "cap \<in> set (system_caps str_of system_execute)" "ac_internal cap n a s = (Inl e, t)"
  shows "t = s"
proof -
  have fails: "volume_set b s = (Inl e, t) \<Longrightarrow> t = s" "brightness_set b s = (Inl e, t) \<Longrightarrow> t = s"
    "vibrate x s = (Inl e, t) \<Longrightarrow> t = s" "dnd_set b s = (Inl e, t) \<Longrightarrow> t = s"
    "rotation_lock b s = (Inl e, t) \<Longrightarrow> t = s" "rotation_unlock s = (Inl e, t) \<Longrightarrow> t = s"
    "timeout_set b s = (Inl e, t) \<Longrightarrow> t = s" for b x
    by (auto simp: bridge_steps act_defs Let_def split: sum.split_asm)
  show ?thesis
    using assms unfolding system_caps_def set_simps insert_iff empty_iff
    by (elim disjE FalseE) (auto simp: control_defs volume_internal_def brightness_internal_def
      vibrate_internal_def dnd_internal_def rotation_internal_def timeout_internal_def
      invalid_argument_def unsupported_action_def bindA_def liftA_def raise_def Let_def
      dest: system_execute_fail fails
      split: if_split_asm sum.split_asm option.split_asm prod.split_asm)
qed

text \<open>A call whose rollback is exact and which does not cross an open bound.\<close>

definition exact_call :: "(pyval \<Rightarrow> string) \<Rightarrow> sysdev android_cap \<times> args \<Rightarrow> sysdev \<Rightarrow> bool" where
  "exact_call str_of call s \<longleftrightarrow> fst call \<in> set (system_caps str_of system_execute) \<and>
     adapter_supports (fst call) (snd call) = Inr True \<and>
     (\<forall>n. dget (snd call) ''action'' = VStr n \<longrightarrow>
        undo_exact n (snd call) s \<and> \<not> oversteps n (snd call) s)"

lemma exact_call_inv:
  assumes "levels_ok s" "exact_call str_of call s"
  shows "levels_ok (snd (control_step str_of call s))"
proof -
  have "snd (control_step str_of call s) = snd (execute_action str_of (fst call) (snd call) s)"
    by (auto simp: control_step_def split: prod.splits sum.splits)
  moreover have "\<not> (\<exists>n. accepted_action (ac_descriptor (fst call)) (dget (snd call) ''action'') = Some n \<and>
      oversteps n (snd call) s)"
    using assms(2) by (auto simp: exact_call_def accepted_action_eq)
  ultimately show ?thesis
    using system_caps_in_range[of s "fst call" str_of "snd call"] assms by (simp add: exact_call_def)
qed

interpretation controls: compensable "control_step str_of" control_undo "exact_call str_of" levels_ok id
  for str_of
proof unfold_locales
  fix s call v t u
  assume s: "levels_ok s" "exact_call str_of call s" "control_step str_of call s = (Some v, t)"
    and u: "levels_ok u" "id u = id t"
  obtain x where x: "execute_action str_of (fst call) (snd call) s = (Inr x, t)" "cr_success x"
    "v = result_value x" using control_step_Some[OF s(3)] by blast
  from system_caps_rollback[OF s(1) _ _ x(1,2)] s(2) x(3) u(2)
  have "control_undo call v u = s" by (auto simp: exact_call_def control_undo_def)
  with s(1) show "levels_ok (control_undo call v u) \<and> id (control_undo call v u) = id s" by simp
next
  fix s call
  assume "levels_ok s" "exact_call str_of call s"
  then show "levels_ok (snd (control_step str_of call s))" by (rule exact_call_inv)
next
  fix s call t
  assume "exact_call str_of call s" "control_step str_of call s = (None, t)"
  then show "id t = id s"
    using control_step_None[of str_of call s t] internal_fail by (auto simp: exact_call_def)
qed

text \<open>
  A transaction on the device controls: running any list of exact calls up to the first failure and
  rolling the executed ones back in reverse order restores the device.
\<close>

theorem controls_transaction:
  assumes "levels_ok s" "steps_satisfy (control_step str_of) (exact_call str_of) calls s"
    and "run_steps (control_step str_of) calls [] s = (done_calls, t)"
  shows "undo_steps control_undo done_calls t = s"
  using controls.transaction_undone[OF assms] by simp


end
