(* ===== verification/Network_State.thy ===== *)
theory Network_State
  imports Network_Bridge Device_Rollback
begin

text \<open>
  What the network bridge and its capabilities guarantee: the dictionary of the bridge always has
  its five radios with their fields and types, wifi is connected only while it is enabled, and
  rolling back an action restores every radio, but not the list of paired devices.
\<close>

section \<open>The typed view of the dictionary\<close>

record radios =
  ra_wifi :: bool
  ra_connected :: bool
  ra_ssid :: pyval
  ra_bluetooth :: bool
  ra_mobile :: bool
  ra_hotspot :: bool
  ra_airplane :: bool

definition wifi_dict :: "radios \<Rightarrow> pyval" where
  "wifi_dict r = VDict [(''enabled'', VBool (ra_wifi r)), (''connected'', VBool (ra_connected r)),
     (''ssid'', ra_ssid r)]"

definition bluetooth_dict :: "radios \<Rightarrow> pyval" where
  "bluetooth_dict r = VDict [(''enabled'', VBool (ra_bluetooth r)), (''paired_devices'', paired_ref)]"

definition enabled_dict :: "bool \<Rightarrow> pyval" where
  "enabled_dict b = VDict [(''enabled'', VBool b)]"

definition net_of :: "radios \<Rightarrow> (string, pyval) pydict" where
  "net_of r = [(''wifi'', wifi_dict r), (''bluetooth'', bluetooth_dict r),
     (''mobile_data'', enabled_dict (ra_mobile r)), (''hotspot'', enabled_dict (ra_hotspot r)),
     (''airplane_mode'', enabled_dict (ra_airplane r))]"

definition net :: "radios \<Rightarrow> pyval list \<Rightarrow> netdev" where
  "net r ps = \<lparr>nd_state = net_of r, nd_paired = ps\<rparr>"

definition radios_ok :: "radios \<Rightarrow> bool" where
  "radios_ok r \<longleftrightarrow> (ra_connected r \<longrightarrow> ra_wifi r) \<and> (\<not> ra_connected r \<longrightarrow> ra_ssid r = VNone)"

definition net_ok :: "netdev \<Rightarrow> bool" where
  "net_ok s \<longleftrightarrow> (\<exists>r ps. s = net r ps \<and> radios_ok r)"

lemma net_inject [simp]: "net r ps = net q qs \<longleftrightarrow> r = q \<and> ps = qs"
  by (cases r; cases q) (auto simp: net_def net_of_def wifi_dict_def bluetooth_dict_def enabled_dict_def)

lemma radio_net [simp]:
  "radio ''wifi'' (net r ps) = (Inr (wifi_dict r), net r ps)"
  "radio ''bluetooth'' (net r ps) = (Inr (bluetooth_dict r), net r ps)"
  "radio ''mobile_data'' (net r ps) = (Inr (enabled_dict (ra_mobile r)), net r ps)"
  "radio ''hotspot'' (net r ps) = (Inr (enabled_dict (ra_hotspot r)), net r ps)"
  "radio ''airplane_mode'' (net r ps) = (Inr (enabled_dict (ra_airplane r)), net r ps)"
  by (simp_all add: radio_def net_def net_of_def)

lemma copy_dicts [simp]:
  "py_copy (wifi_dict r) s = (Inr (wifi_dict r), s)"
  "py_copy (bluetooth_dict r) s = (Inr (bluetooth_dict r), s)"
  "py_copy (enabled_dict b) s = (Inr (enabled_dict b), s)"
  by (simp_all add: py_copy_def wifi_dict_def bluetooth_dict_def enabled_dict_def)

lemma status_net [simp]:
  "status_of ''wifi'' (net r ps) = (Inr (wifi_dict r), net r ps)"
  "status_of ''bluetooth'' (net r ps) = (Inr (bluetooth_dict r), net r ps)"
  "status_of ''mobile_data'' (net r ps) = (Inr (enabled_dict (ra_mobile r)), net r ps)"
  "status_of ''hotspot'' (net r ps) = (Inr (enabled_dict (ra_hotspot r)), net r ps)"
  "status_of ''airplane_mode'' (net r ps) = (Inr (enabled_dict (ra_airplane r)), net r ps)"
  by (simp_all add: status_of_def bindA_def)

lemma field_net [simp]:
  "field ''wifi'' ''enabled'' (net r ps) = (Inr (VBool (ra_wifi r)), net r ps)"
  "field ''bluetooth'' ''enabled'' (net r ps) = (Inr (VBool (ra_bluetooth r)), net r ps)"
  "field ''bluetooth'' ''paired_devices'' (net r ps) = (Inr paired_ref, net r ps)"
  by (simp_all add: field_def bindA_def liftA_def wifi_dict_def bluetooth_dict_def)

lemma set_field_net [simp]:
  "set_field ''wifi'' ''enabled'' (VBool b) (net r ps) = (Inr (), net (r\<lparr>ra_wifi := b\<rparr>) ps)"
  "set_field ''wifi'' ''connected'' (VBool b) (net r ps) = (Inr (), net (r\<lparr>ra_connected := b\<rparr>) ps)"
  "set_field ''wifi'' ''ssid'' v (net r ps) = (Inr (), net (r\<lparr>ra_ssid := v\<rparr>) ps)"
  "set_field ''bluetooth'' ''enabled'' (VBool b) (net r ps) = (Inr (), net (r\<lparr>ra_bluetooth := b\<rparr>) ps)"
  "set_field ''mobile_data'' ''enabled'' (VBool b) (net r ps) = (Inr (), net (r\<lparr>ra_mobile := b\<rparr>) ps)"
  "set_field ''hotspot'' ''enabled'' (VBool b) (net r ps) = (Inr (), net (r\<lparr>ra_hotspot := b\<rparr>) ps)"
  "set_field ''airplane_mode'' ''enabled'' (VBool b) (net r ps) = (Inr (), net (r\<lparr>ra_airplane := b\<rparr>) ps)"
  unfolding set_field_def bindA_def radio_net
  by (simp_all add: wifi_dict_def bluetooth_dict_def enabled_dict_def net_def net_of_def)

lemma paired_net [simp]:
  "paired_devices (net r ps) = (Inr ps, net r ps)"
  "set_paired qs (net r ps) = (Inr (), net r qs)"
  unfolding paired_devices_def set_paired_def bindA_def field_net
  by (simp_all add: net_def)

lemma full_state_net [simp]: "full_state (net r ps) = (Inr (VDict (net_of r)), net r ps)"
proof -
  have "copy_all (net_of r) s = (Inr (net_of r), s)" for s
    by (simp add: net_of_def bindA_def ret_def)
  then show ?thesis by (simp add: full_state_def bindA_def ret_def net_def)
qed

lemma wifi_down_net [simp]:
  "wifi_down (net r ps) = (Inr (), net (r\<lparr>ra_wifi := False, ra_connected := False, ra_ssid := VNone\<rparr>) ps)"
  by (simp add: wifi_down_def seqA_def bindA_def)

section \<open>Types and the connection invariant\<close>

text \<open>A value that a radio's entry may have, and a payload made of such values.\<close>

definition radio_value :: "string \<Rightarrow> pyval \<Rightarrow> bool" where
  "radio_value k v \<longleftrightarrow> (\<exists>r. radios_ok r \<and> map_of (net_of r) k = Some v)"

definition snapshot :: "pyval \<Rightarrow> bool" where
  "snapshot p \<longleftrightarrow> \<not> truthy p \<or> (\<exists>d. p = VDict d \<and>
     (\<forall>(k, v) \<in> set d. k \<in> fst ` set (net_of undefined) \<longrightarrow> radio_value k v))"

lemma net_of_keys: "map fst (net_of r) =
    [''wifi'', ''bluetooth'', ''mobile_data'', ''hotspot'', ''airplane_mode'']"
  by (simp add: net_of_def)

text \<open>The radios after an entry has been replaced by that of other radios.\<close>

definition take_radio :: "string \<Rightarrow> radios \<Rightarrow> radios \<Rightarrow> radios" where
  "take_radio k q r =
     (if k = ''wifi'' then r\<lparr>ra_wifi := ra_wifi q, ra_connected := ra_connected q, ra_ssid := ra_ssid q\<rparr>
      else if k = ''bluetooth'' then r\<lparr>ra_bluetooth := ra_bluetooth q\<rparr>
      else if k = ''mobile_data'' then r\<lparr>ra_mobile := ra_mobile q\<rparr>
      else if k = ''hotspot'' then r\<lparr>ra_hotspot := ra_hotspot q\<rparr>
      else if k = ''airplane_mode'' then r\<lparr>ra_airplane := ra_airplane q\<rparr>
      else r)"

lemma take_radio_ok: "radios_ok q \<Longrightarrow> radios_ok r \<Longrightarrow> radios_ok (take_radio k q r)"
  by (simp add: take_radio_def radios_ok_def)

lemma net_of_Some:
  "map_of (net_of q) k = Some v \<longleftrightarrow> k = ''wifi'' \<and> v = wifi_dict q \<or> k = ''bluetooth'' \<and> v = bluetooth_dict q \<or>
     k = ''mobile_data'' \<and> v = enabled_dict (ra_mobile q) \<or>
     k = ''hotspot'' \<and> v = enabled_dict (ra_hotspot q) \<or>
     k = ''airplane_mode'' \<and> v = enabled_dict (ra_airplane q)"
  by (simp add: net_of_def) (safe; simp)

lemma put_radio:
  assumes "map_of (net_of q) k = Some v"
  shows "(net r ps)\<lparr>nd_state := AList.update k v (nd_state (net r ps))\<rparr> = net (take_radio k q r) ps"
    and "py_copy v s = (Inr v, s)"
proof -
  show "(net r ps)\<lparr>nd_state := AList.update k v (nd_state (net r ps))\<rparr> = net (take_radio k q r) ps"
    using assms unfolding net_of_Some
    by (auto simp: net_def net_of_def take_radio_def wifi_dict_def bluetooth_dict_def)
  show "py_copy v s = (Inr v, s)"
    using assms unfolding net_of_Some by (elim disjE conjE) simp_all
qed

lemma restore_radios_ok:
  assumes "\<forall>(k, v) \<in> set d. k \<in> fst ` set (net_of undefined) \<longrightarrow> radio_value k v" "radios_ok r"
  shows "\<exists>q. restore_radios d (net r ps) = (Inr (), net q ps) \<and> radios_ok q"
  using assms
proof (induction d arbitrary: r)
  case Nil
  then show ?case by (auto simp: ret_def)
next
  case (Cons kv d)
  obtain k v where kv: "kv = (k, v)" by (cases kv)
  show ?case
  proof (cases "has_key k (nd_state (net r ps))")
    case False
    with Cons kv show ?thesis by (simp add: seqA_def bindA_def)
  next
    case True
    then have "k \<in> fst ` set (net_of undefined)"
      by (auto simp: has_key_def net_def net_of_def split: if_splits)
    with Cons.prems kv have "radio_value k v" by simp
    then obtain q where q: "map_of (net_of q) k = Some v" "radios_ok q"
      by (auto simp: radio_value_def)
    have "\<forall>(k, v) \<in> set d. k \<in> fst ` set (net_of undefined) \<longrightarrow> radio_value k v"
      using Cons.prems(1) by simp
    from Cons.IH[OF this take_radio_ok[OF q(2) Cons.prems(2), of k]] obtain q' where
      "restore_radios d (net (take_radio k q r) ps) = (Inr (), net q' ps)" "radios_ok q'" by blast
    with True kv put_radio[OF q(1)] show ?thesis by (auto simp: seqA_def bindA_def)
  qed
qed

lemma state_restore_reply:
  assumes "snapshot (dget a ''state'')" "radios_ok r"
  shows "\<exists>q. state_restore a (net r ps) =
    (Inr (VDict [(''status'', VStr ''restored''), (''current_state'', VDict (net_of q))]), net q ps) \<and>
    radios_ok q"
proof (cases "truthy (dget a ''state'')")
  case False
  with assms(2) show ?thesis by (auto simp: state_restore_def seqA_def bindA_def ret_def)
next
  case True
  with assms(1) obtain d where d: "dget a ''state'' = VDict d"
    "\<forall>(k, v) \<in> set d. k \<in> fst ` set (net_of undefined) \<longrightarrow> radio_value k v"
    by (auto simp: snapshot_def)
  from restore_radios_ok[OF d(2) assms(2), of ps] True d(1) show ?thesis
    by (auto simp: state_restore_def seqA_def bindA_def ret_def)
qed

text \<open>The effect of each action on the radios and on the list of paired devices.\<close>

lemma network_steps:
  "switch ''wifi'' b (net r ps) = (Inr (wifi_dict (r\<lparr>ra_wifi := b\<rparr>)), net (r\<lparr>ra_wifi := b\<rparr>) ps)"
  "switch ''bluetooth'' b (net r ps) =
     (Inr (bluetooth_dict (r\<lparr>ra_bluetooth := b\<rparr>)), net (r\<lparr>ra_bluetooth := b\<rparr>) ps)"
  "switch ''mobile_data'' b (net r ps) = (Inr (enabled_dict b), net (r\<lparr>ra_mobile := b\<rparr>) ps)"
  "wifi_connect a (net r ps) = (if ra_wifi r
     then let q = r\<lparr>ra_connected := True, ra_ssid := dget_or a ''ssid'' (VStr ''unknown'')\<rparr>
       in (Inr (wifi_dict q), net q ps)
     else (Inl (Exn (Py PyRuntimeError) ''Cannot connect to WiFi while it is disabled.''), net r ps))"
  "wifi_disconnect (net r ps) = (let q = r\<lparr>ra_connected := False, ra_ssid := VNone\<rparr>
     in (Inr (wifi_dict q), net q ps))"
  "bluetooth_pair a (net r ps) = (if ra_bluetooth r
     then (Inr (bluetooth_dict r), net r (let d = dget a ''device_id'' in
       if truthy d \<and> d \<notin> set ps then ps @ [d] else ps))
     else (Inl (Exn (Py PyRuntimeError) ''Cannot pair Bluetooth while it is disabled.''), net r ps))"
  "bluetooth_unpair a (net r ps) = (Inr (bluetooth_dict r), net r (remove1 (dget a ''device_id'') ps))"
  by (simp_all add: switch_def wifi_connect_def wifi_disconnect_def bluetooth_pair_def
      bluetooth_unpair_def seqA_def bindA_def raise_def ret_def Let_def remove1_idem)

lemma hotspot_steps:
  "hotspot_enable (net r ps) = (let q = r\<lparr>ra_hotspot := True, ra_wifi := False, ra_connected := False,
       ra_ssid := VNone\<rparr> in (Inr (VDict [(''status'', enabled_dict True),
       (''pre_state'', VDict (net_of r))]), net q ps))"
  "hotspot_disable (net r ps) = (Inr (VDict [(''status'', enabled_dict False),
       (''pre_state'', VDict (net_of r))]), net (r\<lparr>ra_hotspot := False\<rparr>) ps)"
  "airplane_enable (net r ps) = (let q = r\<lparr>ra_airplane := True, ra_wifi := False, ra_connected := False,
       ra_ssid := VNone, ra_bluetooth := False, ra_mobile := False, ra_hotspot := False\<rparr>
     in (Inr (VDict [(''status'', enabled_dict True), (''pre_state'', VDict (net_of r))]), net q ps))"
  "airplane_disable (net r ps) = (Inr (VDict [(''status'', enabled_dict False),
       (''pre_state'', VDict (net_of r))]), net (r\<lparr>ra_airplane := False\<rparr>) ps)"
  by (simp_all add: hotspot_enable_def hotspot_disable_def airplane_enable_def airplane_disable_def
      with_pre_state_def seqA_def bindA_def ret_def Let_def)

definition network_actions :: "string list" where
  "network_actions = [''network.wifi.status'', ''network.wifi.enable'', ''network.wifi.disable'',
     ''network.wifi.connect'', ''network.wifi.disconnect'', ''network.bluetooth.status'',
     ''network.bluetooth.enable'', ''network.bluetooth.disable'', ''network.bluetooth.pair'',
     ''network.bluetooth.unpair'', ''network.mobile_data.status'', ''network.mobile_data.enable'',
     ''network.mobile_data.disable'', ''network.hotspot.status'', ''network.hotspot.enable'',
     ''network.hotspot.disable'', ''network.airplane.status'', ''network.airplane.enable'',
     ''network.airplane.disable'', ''network.state.restore'', ''wifi.read'', ''bluetooth.read'']"

text \<open>The two actions that need their radio switched on, and unknown actions.\<close>

definition refused :: "string \<Rightarrow> netdev \<Rightarrow> bool" where
  "refused n s \<longleftrightarrow> n \<notin> set network_actions \<or>
     n = ''network.wifi.connect'' \<and> fst (field ''wifi'' ''enabled'' s) = Inr (VBool False) \<or>
     n = ''network.bluetooth.pair'' \<and> fst (field ''bluetooth'' ''enabled'' s) = Inr (VBool False)"

lemma unknown_network_action:
  "n \<notin> set network_actions \<Longrightarrow> network_execute n a = raise (InAndroid UnsupportedPlatformError)
     (''MockNetworkBridge does not support action: '' @ n)"
  unfolding network_actions_def set_simps insert_iff empty_iff de_Morgan_disj
  by (elim conjE) (simp only: network_execute_def if_False)

lemma refused_simps [simp]:
  "refused ''network.wifi.connect'' (net r ps) = (\<not> ra_wifi r)"
  "refused ''network.bluetooth.pair'' (net r ps) = (\<not> ra_bluetooth r)"
  "n \<in> set network_actions \<Longrightarrow> n \<noteq> ''network.wifi.connect'' \<Longrightarrow> n \<noteq> ''network.bluetooth.pair'' \<Longrightarrow>
     \<not> refused n s"
  by (auto simp: refused_def network_actions_def)

lemma initial_net_ok: "initial_netdev = net \<lparr>ra_wifi = True, ra_connected = False, ra_ssid = VNone,
    ra_bluetooth = False, ra_mobile = True, ra_hotspot = False, ra_airplane = False\<rparr> []"
  by (simp add: net_def net_of_def initial_netdev_def wifi_dict_def bluetooth_dict_def enabled_dict_def)

lemma initial_network_ok: "net_ok initial_netdev"
  unfolding initial_net_ok by (auto simp: net_ok_def radios_ok_def)

text \<open>
  What an action answers, the radios being \<open>r\<close> before and \<open>q\<close> after it, and what it does to the
  radios and to the list of paired devices. A restore takes the radios from its argument.
\<close>

definition status_and_before :: "bool \<Rightarrow> radios \<Rightarrow> pyval" where
  "status_and_before b r = VDict [(''status'', enabled_dict b), (''pre_state'', VDict (net_of r))]"

definition network_reply :: "string \<Rightarrow> radios \<Rightarrow> radios \<Rightarrow> pyval" where
  "network_reply n r q =
     (if n \<in> {''network.wifi.status'', ''network.wifi.enable'', ''network.wifi.disable'',
            ''network.wifi.connect'', ''network.wifi.disconnect''} then wifi_dict q
      else if n \<in> {''network.bluetooth.status'', ''network.bluetooth.enable'', ''network.bluetooth.disable'',
            ''network.bluetooth.pair'', ''network.bluetooth.unpair''} then bluetooth_dict q
      else if n \<in> {''network.mobile_data.status'', ''network.mobile_data.enable'',
            ''network.mobile_data.disable''} then enabled_dict (ra_mobile q)
      else if n = ''network.hotspot.status'' then enabled_dict (ra_hotspot q)
      else if n = ''network.hotspot.enable'' then status_and_before True r
      else if n = ''network.hotspot.disable'' then status_and_before False r
      else if n = ''network.airplane.status'' then enabled_dict (ra_airplane q)
      else if n = ''network.airplane.enable'' then status_and_before True r
      else if n = ''network.airplane.disable'' then status_and_before False r
      else if n = ''network.state.restore''
      then VDict [(''status'', VStr ''restored''), (''current_state'', VDict (net_of q))]
      else if n = ''wifi.read'' then VDict [(''enabled'', VBool True), (''ssid'', VStr ''IRA_OS_WIFI'')]
      else VDict [(''enabled'', VBool False)])"

definition radios_after :: "string \<Rightarrow> args \<Rightarrow> radios \<Rightarrow> radios" where
  "radios_after n a r =
     (if n = ''network.wifi.enable'' then r\<lparr>ra_wifi := True\<rparr>
      else if n = ''network.wifi.disable''
      then r\<lparr>ra_wifi := False, ra_connected := False, ra_ssid := VNone\<rparr>
      else if n = ''network.wifi.connect''
      then r\<lparr>ra_connected := True, ra_ssid := dget_or a ''ssid'' (VStr ''unknown'')\<rparr>
      else if n = ''network.wifi.disconnect'' then r\<lparr>ra_connected := False, ra_ssid := VNone\<rparr>
      else if n = ''network.bluetooth.enable'' then r\<lparr>ra_bluetooth := True\<rparr>
      else if n = ''network.bluetooth.disable'' then r\<lparr>ra_bluetooth := False\<rparr>
      else if n = ''network.mobile_data.enable'' then r\<lparr>ra_mobile := True\<rparr>
      else if n = ''network.mobile_data.disable'' then r\<lparr>ra_mobile := False\<rparr>
      else if n = ''network.hotspot.enable''
      then r\<lparr>ra_hotspot := True, ra_wifi := False, ra_connected := False, ra_ssid := VNone\<rparr>
      else if n = ''network.hotspot.disable'' then r\<lparr>ra_hotspot := False\<rparr>
      else if n = ''network.airplane.enable''
      then r\<lparr>ra_airplane := True, ra_wifi := False, ra_connected := False, ra_ssid := VNone,
              ra_bluetooth := False, ra_mobile := False, ra_hotspot := False\<rparr>
      else if n = ''network.airplane.disable'' then r\<lparr>ra_airplane := False\<rparr>
      else r)"

definition pairs_after :: "string \<Rightarrow> args \<Rightarrow> pyval list \<Rightarrow> pyval list" where
  "pairs_after n a ps = (let d = dget a ''device_id'' in
     if n = ''network.bluetooth.pair'' then if truthy d \<and> d \<notin> set ps then ps @ [d] else ps
     else if n = ''network.bluetooth.unpair'' then remove1 d ps else ps)"

lemma network_action_net:
  assumes "radios_ok r" "n \<in> set network_actions"
    and "n = ''network.state.restore'' \<longrightarrow> snapshot (dget a ''state'')"
  shows "if refused n (net r ps) then \<exists>e. network_execute n a (net r ps) = (Inl e, net r ps)
    else \<exists>q. network_execute n a (net r ps) = (Inr (network_reply n r q), net q (pairs_after n a ps)) \<and>
      radios_ok q \<and> (n \<noteq> ''network.state.restore'' \<longrightarrow> q = radios_after n a r)"
proof (cases "n = ''network.state.restore''")
  case True
  from assms True have sn: "snapshot (dget a ''state'')" by simp
  from state_restore_reply[OF sn assms(1), of ps] True refused_simps(3)[OF assms(2), of "net r ps"]
  show ?thesis by (auto simp: network_reply_def pairs_after_def)
next
  case False
  have no: "\<not> refused n (net r ps)" if "n \<noteq> ''network.wifi.connect''" "n \<noteq> ''network.bluetooth.pair''"
    using refused_simps(3)[OF assms(2) that] .
  show ?thesis
    using assms(2) False no assms(1) unfolding network_actions_def set_simps insert_iff empty_iff
    by (elim disjE FalseE)
      (simp_all add: network_steps hotspot_steps network_reply_def radios_after_def pairs_after_def
        status_and_before_def seqA_def bindA_def ret_def radios_ok_def Let_def)
qed




section \<open>Rolling back\<close>

lemma restore_cons:
  assumes "map_of (net_of q) k = Some v"
  shows "restore_radios ((k, v) # d) (net r ps) = restore_radios d (net (take_radio k q r) ps)"
proof -
  have "has_key k (nd_state (net r ps))"
    using assms unfolding net_of_Some by (auto simp: has_key_def net_def net_of_def)
  with put_radio[OF assms] show ?thesis by (simp add: seqA_def bindA_def)
qed

lemma restore_net [simp]:
  "restore_radios [(''wifi'', wifi_dict q)] (net r ps) = (Inr (), net (take_radio ''wifi'' q r) ps)"
  "restore_radios [(''bluetooth'', bluetooth_dict q)] (net r ps) =
     (Inr (), net (take_radio ''bluetooth'' q r) ps)"
  "restore_radios [(''mobile_data'', enabled_dict (ra_mobile q))] (net r ps) =
     (Inr (), net (take_radio ''mobile_data'' q r) ps)"
  by (simp_all add: restore_cons[where q = q] net_of_Some ret_def del: restore_radios.simps(2))

declare restore_radios.simps(2) [simp del]

lemma restore_all_net [simp]: "restore_radios (net_of q) (net r ps) = (Inr (), net q ps)"
proof -
  have "restore_radios (net_of q) (net r ps) = restore_radios [] (net (take_radio ''airplane_mode'' q
      (take_radio ''hotspot'' q (take_radio ''mobile_data'' q (take_radio ''bluetooth'' q
      (take_radio ''wifi'' q r))))) ps)"
    by (simp add: net_of_def[of q] restore_cons[where q = q] net_of_Some del: restore_radios.simps)
  then show ?thesis by (cases q) (simp add: take_radio_def ret_def)
qed

lemma net_of_not_Nil [simp]: "net_of r \<noteq> []"
  by (simp add: net_of_def)

text \<open>A result whose snapshot takes the state after the action back to the radios before it.\<close>

definition recovers :: "pyval \<Rightarrow> radios \<Rightarrow> netdev \<Rightarrow> bool" where
  "recovers v r t \<longleftrightarrow> (\<exists>e d r' ps. v = VDict e \<and> map_of e ''pre_state'' = Some (VDict d) \<and> d \<noteq> [] \<and>
     t = net r' ps \<and> (\<forall>qs. restore_radios d (net r' qs) = (Inr (), net r qs)))"

lemma recovers_net [simp]:
  "map_of e ''pre_state'' = Some (VDict d) \<Longrightarrow> d \<noteq> [] \<Longrightarrow>
   \<forall>qs. restore_radios d (net r' qs) = (Inr (), net r qs) \<Longrightarrow> recovers (VDict e) r (net r' ps)"
  unfolding recovers_def by blast

lemma with_snapshot_dicts [simp]:
  "with_snapshot k (wifi_dict q) pre = VDict [(''status'', wifi_dict q), (''pre_state'', VDict [(k, pre)])]"
  "with_snapshot k (bluetooth_dict q) pre =
     VDict [(''status'', bluetooth_dict q), (''pre_state'', VDict [(k, pre)])]"
  "with_snapshot k (enabled_dict b) pre =
     VDict [(''status'', enabled_dict b), (''pre_state'', VDict [(k, pre)])]"
  by (simp_all add: wifi_dict_def bluetooth_dict_def enabled_dict_def)

lemma own_radio_back [simp]:
  "take_radio ''wifi'' r (r\<lparr>ra_wifi := b\<rparr>) = r"
  "take_radio ''wifi'' r (r\<lparr>ra_wifi := b, ra_connected := c, ra_ssid := v\<rparr>) = r"
  "take_radio ''wifi'' r (r\<lparr>ra_connected := c, ra_ssid := v\<rparr>) = r"
  "take_radio ''bluetooth'' r (r\<lparr>ra_bluetooth := b\<rparr>) = r" "take_radio ''bluetooth'' r r = r"
  "take_radio ''mobile_data'' r (r\<lparr>ra_mobile := b\<rparr>) = r"
  by (simp_all add: take_radio_def)

lemma wifi_recovers:
  assumes "n \<in> set wifi_mutating" "ac_internal (wifi network_execute) n a (net r ps) = (Inr v, t)"
  shows "recovers v r t"
  using assms(1) unfolding wifi_mutating_def set_simps insert_iff empty_iff
proof (elim disjE FalseE)
qed (use assms(2) in \<open>clarsimp simp: wifi_def wifi_mutating_def snapshot_first_def network_steps
  seqA_def bindA_def ret_def Let_def split: if_splits\<close>)+

lemma bluetooth_recovers:
  assumes "n \<in> set bluetooth_mutating"
    and "ac_internal (bluetooth network_execute) n a (net r ps) = (Inr v, t)"
  shows "recovers v r t"
  using assms(1) unfolding bluetooth_mutating_def set_simps insert_iff empty_iff
proof (elim disjE FalseE)
qed (use assms(2) in \<open>clarsimp simp: bluetooth_def bluetooth_mutating_def snapshot_first_def network_steps
  seqA_def bindA_def ret_def Let_def split: if_splits\<close>)+

lemma mobile_data_recovers:
  assumes "n \<in> set mobile_data_mutating"
    and "ac_internal (mobile_data network_execute) n a (net r ps) = (Inr v, t)"
  shows "recovers v r t"
  using assms(1) unfolding mobile_data_mutating_def set_simps insert_iff empty_iff
proof (elim disjE FalseE)
qed (use assms(2) in \<open>clarsimp simp: mobile_data_def mobile_data_mutating_def snapshot_first_def network_steps
  seqA_def bindA_def ret_def Let_def\<close>)+

lemma hotspot_recovers:
  assumes "n \<in> set hotspot_mutating"
    and "ac_internal (hotspot network_execute) n a (net r ps) = (Inr v, t)"
  shows "recovers v r t"
  using assms(1) unfolding hotspot_mutating_def set_simps insert_iff empty_iff
proof (elim disjE FalseE)
qed (use assms(2) in \<open>clarsimp simp: hotspot_def hotspot_mutating_def snapshot_last_def hotspot_steps
  carries_pre_state_def seqA_def bindA_def ret_def Let_def\<close>)+

lemma airplane_recovers:
  assumes "n \<in> set airplane_mutating"
    and "ac_internal (airplane_mode network_execute) n a (net r ps) = (Inr v, t)"
  shows "recovers v r t"
  using assms(1) unfolding airplane_mutating_def set_simps insert_iff empty_iff
proof (elim disjE FalseE)
qed (use assms(2) in \<open>clarsimp simp: airplane_mode_def airplane_mutating_def snapshot_last_def hotspot_steps
  carries_pre_state_def seqA_def bindA_def ret_def Let_def\<close>)+

lemma network_caps_recover:
  assumes cap: "cap \<in> set (network_caps network_execute)" and sup: "adapter_supports cap a = Inr True"
    and run: "dget a ''action'' = VStr n" "ac_internal cap n a (net r ps) = (Inr v, t)"
  shows "recovers v r t"
proof -
  have sup_wifi: "adapter_supports (wifi b) a = Inr True \<Longrightarrow> n \<in> set wifi_mutating"
    and sup_bluetooth: "adapter_supports (bluetooth b) a = Inr True \<Longrightarrow> n \<in> set bluetooth_mutating"
    and sup_mobile: "adapter_supports (mobile_data b) a = Inr True \<Longrightarrow> n \<in> set mobile_data_mutating"
    and sup_hotspot: "adapter_supports (hotspot b) a = Inr True \<Longrightarrow> n \<in> set hotspot_mutating"
    and sup_airplane: "adapter_supports (airplane_mode b) a = Inr True \<Longrightarrow> n \<in> set airplane_mutating"
    for b :: "netdev bridge"
    using run(1) by (simp_all add: adapter_supports_def supports_actions_def wifi_def bluetooth_def
        mobile_data_def hotspot_def airplane_mode_def)
  have "cap = wifi network_execute \<or> cap = bluetooth network_execute \<or> cap = mobile_data network_execute \<or>
      cap = hotspot network_execute \<or> cap = airplane_mode network_execute"
    using cap unfolding network_caps_def by simp
  then show ?thesis
  proof (elim disjE)
    assume c: "cap = wifi network_execute"
    show ?thesis by (rule wifi_recovers[OF sup_wifi[OF sup[unfolded c]] run(2)[unfolded c]])
  next
    assume c: "cap = bluetooth network_execute"
    show ?thesis by (rule bluetooth_recovers[OF sup_bluetooth[OF sup[unfolded c]] run(2)[unfolded c]])
  next
    assume c: "cap = mobile_data network_execute"
    show ?thesis by (rule mobile_data_recovers[OF sup_mobile[OF sup[unfolded c]] run(2)[unfolded c]])
  next
    assume c: "cap = hotspot network_execute"
    show ?thesis by (rule hotspot_recovers[OF sup_hotspot[OF sup[unfolded c]] run(2)[unfolded c]])
  next
    assume c: "cap = airplane_mode network_execute"
    show ?thesis by (rule airplane_recovers[OF sup_airplane[OF sup[unfolded c]] run(2)[unfolded c]])
  qed
qed

lemma rollback_of_network_cap:
  assumes "cap \<in> set (network_caps bridge)"
  shows "\<exists>undo_map. ac_rollback cap = Some (network_rollback bridge undo_map)"
  using assms by (auto simp: network_caps_def wifi_def bluetooth_def mobile_data_def hotspot_def
      airplane_mode_def)

lemma truthy_success [simp]: "truthy (success_value i v)"
  by (simp add: success_value_def result_value_def)

lemma recovered:
  assumes "cap \<in> set (network_caps network_execute)" "recovers v r (net q ps)"
  shows "adapter_rollback cap a (success_value i v) (net q qs) = (Inr (), net r qs)"
proof -
  obtain e d where v: "v = VDict e" "map_of e ''pre_state'' = Some (VDict d)" "d \<noteq> []"
    "restore_radios d (net q qs) = (Inr (), net r qs)"
    using assms(2) unfolding recovers_def by auto
  with rollback_of_network_cap[OF assms(1)] show ?thesis
    by (auto simp: adapter_rollback_def network_rollback_def ignore_result_def state_restore_def
        seqA_def bindA_def ret_def liftA_def)
qed

lemma network_caps_rollback:
  assumes "net_ok s" and "cap \<in> set (network_caps network_execute)"
    and "adapter_supports cap a = Inr True"
    and "execute_action str_of cap a s = (Inr x, t)" and "cr_success x"
    and "net_ok t'" "nd_state t' = nd_state t"
  shows "\<exists>u. adapter_rollback cap a (result_value x) t' = (Inr (), u) \<and>
    nd_state u = nd_state s \<and> nd_paired u = nd_paired t' \<and> net_ok u"
proof -
  obtain r ps where s: "s = net r ps" "radios_ok r" using assms(1) by (auto simp: net_ok_def)
  obtain n v where n: "dget_or a ''action'' (VStr ''default'') = VStr n"
    "ac_internal cap n a s = (Inr v, t)" "result_value x = success_value (cd_id (ac_descriptor cap)) v"
    using execute_success[OF assms(4,5)] by blast
  have "dget a ''action'' \<noteq> VNone"
    using assms(2,3) by (auto simp: network_caps_def adapter_supports_def supports_actions_def wifi_def
        bluetooth_def mobile_data_def hotspot_def airplane_mode_def)
  with n(1) have act: "dget a ''action'' = VStr n"
    by (simp add: dget_def dget_or_def split: option.splits)
  have rec: "recovers v r t"
    using network_caps_recover[OF assms(2,3) act] n(2) s(1) by blast
  then obtain q qs where t: "t = net q qs" unfolding recovers_def by blast
  obtain qs' where t': "t' = net q qs'"
    using assms(6,7) t by (auto simp: net_ok_def net_def)
  from recovered[OF assms(2), of v r q qs a _ qs'] rec t t' n(3) s show ?thesis
    by (auto simp: net_ok_def net_def)
qed

section \<open>Compensation of network calls\<close>

lemma mutating_known:
  "n \<in> set wifi_mutating \<union> set bluetooth_mutating \<union> set mobile_data_mutating \<union> set hotspot_mutating \<union>
     set airplane_mutating \<Longrightarrow> n \<in> set network_actions \<and> n \<noteq> ''network.state.restore''"
  unfolding wifi_mutating_def bluetooth_mutating_def mobile_data_mutating_def hotspot_mutating_def
    airplane_mutating_def network_actions_def
  by auto

definition network_call :: "netdev android_cap \<times> args \<Rightarrow> bool" where
  "network_call call \<longleftrightarrow> fst call \<in> set (network_caps network_execute) \<and>
     adapter_supports (fst call) (snd call) = Inr True"

text \<open>Reading the status around an action changes neither its effect nor whether it raises.\<close>

lemma snapshot_first_effect:
  assumes "network_execute st [] (net r ps) = (Inr pre, net r ps)" "n \<in> set mut"
  shows "snd (snapshot_first network_execute st k mut n a (net r ps)) = snd (network_execute n a (net r ps))"
    and "fst (snapshot_first network_execute st k mut n a (net r ps)) = Inl e \<longleftrightarrow>
      fst (network_execute n a (net r ps)) = Inl e"
  using assms by (auto simp: snapshot_first_def bindA_def ret_def split: prod.split sum.split)

lemma snapshot_last_effect:
  assumes "\<And>q qs. \<exists>v. network_execute st [] (net q qs) = (Inr v, net q qs)" "n \<in> set mut"
    and "snd (network_execute n a (net r ps)) = net q qs"
  shows "snd (snapshot_last network_execute st k mut n a (net r ps)) = net q qs"
    and "fst (snapshot_last network_execute st k mut n a (net r ps)) = Inl e \<longleftrightarrow>
      fst (network_execute n a (net r ps)) = Inl e"
proof -
  obtain v where "network_execute st [] (net q qs) = (Inr v, net q qs)" using assms(1) by blast
  with assms(2,3) show "snd (snapshot_last network_execute st k mut n a (net r ps)) = net q qs"
    and "fst (snapshot_last network_execute st k mut n a (net r ps)) = Inl e \<longleftrightarrow>
      fst (network_execute n a (net r ps)) = Inl e"
    by (auto simp: snapshot_last_def bindA_def ret_def split: prod.splits sum.splits)
qed

text \<open>A step that keeps the radios well-formed and changes nothing when it raises.\<close>

definition sound_step :: "(netdev, pyval) act \<Rightarrow> radios \<Rightarrow> pyval list \<Rightarrow> bool" where
  "sound_step m r ps \<longleftrightarrow> (\<exists>q qs. snd (m (net r ps)) = net q qs \<and> radios_ok q \<and>
     ((\<exists>e. fst (m (net r ps)) = Inl e) \<longrightarrow> q = r \<and> qs = ps))"

lemma sound_action:
  assumes "radios_ok r" "n \<in> set wifi_mutating \<union> set bluetooth_mutating \<union> set mobile_data_mutating \<union>
      set hotspot_mutating \<union> set airplane_mutating"
  shows "sound_step (network_execute n a) r ps"
  using network_action_net[OF assms(1), of n a ps] mutating_known[OF assms(2)] assms(1)
  unfolding sound_step_def by (cases "refused n (net r ps)") auto

lemma sound_snapshot_first:
  assumes "sound_step (network_execute n a) r ps" "n \<in> set mut"
    and "network_execute st [] (net r ps) = (Inr pre, net r ps)"
  shows "sound_step (snapshot_first network_execute st k mut n a) r ps"
  using assms(1) snapshot_first_effect[OF assms(3,2), of k a] by (simp add: sound_step_def)

lemma sound_snapshot_last:
  assumes "sound_step (network_execute n a) r ps" "n \<in> set mut"
    and "\<And>q qs. \<exists>v. network_execute st [] (net q qs) = (Inr v, net q qs)"
  shows "sound_step (snapshot_last network_execute st k mut n a) r ps"
proof -
  obtain q qs where "snd (network_execute n a (net r ps)) = net q qs" "radios_ok q"
    "(\<exists>e. fst (network_execute n a (net r ps)) = Inl e) \<longrightarrow> q = r \<and> qs = ps"
    using assms(1) unfolding sound_step_def by blast
  with snapshot_last_effect[OF assms(3,2), of a r ps q qs k] show ?thesis by (simp add: sound_step_def)
qed

lemma sound_network_cap:
  assumes "cap \<in> set (network_caps network_execute)" "adapter_supports cap a = Inr True"
    and "dget a ''action'' = VStr n" "radios_ok r"
  shows "sound_step (ac_internal cap n a) r ps"
proof -
  have mut: "in_strings (dget a ''action'') m = Inr True \<longleftrightarrow> n \<in> set m" for m
    using assms(3) by simp
  note act = sound_action[OF assms(4), of n a ps]
  show ?thesis
    using assms(1,2) unfolding network_caps_def set_simps insert_iff empty_iff
    by (elim disjE FalseE)
      (simp_all add: adapter_supports_def supports_actions_def mut wifi_def bluetooth_def mobile_data_def
        hotspot_def airplane_mode_def sound_snapshot_first sound_snapshot_last act)
qed

text \<open>Only pairing and unpairing touch the list of paired devices.\<close>

lemma network_cap_pairs:
  assumes "cap \<in> set (network_caps network_execute)" "adapter_supports cap a = Inr True"
    and "dget a ''action'' = VStr n" "radios_ok r"
    and "n \<notin> {''network.bluetooth.pair'', ''network.bluetooth.unpair''}"
  shows "nd_paired (snd (ac_internal cap n a (net r ps))) = ps"
proof -
  have mut: "in_strings (dget a ''action'') m = Inr True \<longleftrightarrow> n \<in> set m" for m
    using assms(3) by simp
  have act: "\<exists>q. snd (network_execute n a (net r ps)) = net q ps"
    if "n \<in> set wifi_mutating \<union> set bluetooth_mutating \<union> set mobile_data_mutating \<union>
      set hotspot_mutating \<union> set airplane_mutating"
    using network_action_net[OF assms(4), of n a ps] mutating_known[OF that] assms(5)
    by (cases "refused n (net r ps)") (auto simp: pairs_after_def)
  have first: "\<exists>q. snd (snapshot_first network_execute st k m n a (net r ps)) = net q ps"
    if m: "n \<in> set m" "m = wifi_mutating \<or> m = bluetooth_mutating \<or> m = mobile_data_mutating"
      and st: "\<exists>pre. network_execute st [] (net r ps) = (Inr pre, net r ps)" for st k m
  proof -
    obtain pre where "network_execute st [] (net r ps) = (Inr pre, net r ps)" using st by blast
    from act snapshot_first_effect(1)[OF this m(1), of k a] m show ?thesis by auto
  qed
  have last: "\<exists>q. snd (snapshot_last network_execute st k m n a (net r ps)) = net q ps"
    if m: "n \<in> set m" "m = hotspot_mutating \<or> m = airplane_mutating"
      and st: "\<And>q qs. \<exists>v. network_execute st [] (net q qs) = (Inr v, net q qs)" for st k m
  proof -
    obtain q where "snd (network_execute n a (net r ps)) = net q ps" using act m by blast
    from snapshot_last_effect(1)[OF st m(1) this] show ?thesis by blast
  qed
  have "\<exists>q. snd (ac_internal cap n a (net r ps)) = net q ps"
    using assms(1,2) unfolding network_caps_def set_simps insert_iff empty_iff
    by (elim disjE FalseE)
      (simp_all add: adapter_supports_def supports_actions_def mut wifi_def bluetooth_def mobile_data_def
        hotspot_def airplane_mode_def first last)
  then show ?thesis by (auto simp: net_def)
qed

lemma network_call_effect:
  assumes "network_call call" "net_ok s" "control_step str_of call s = (v, t)"
  shows "net_ok t \<and> (v = None \<longrightarrow> t = s)"
proof -
  obtain r ps where s: "s = net r ps" "radios_ok r" using assms(2) by (auto simp: net_ok_def)
  let ?cap = "fst call" and ?a = "snd call"
  obtain n where n: "dget ?a ''action'' = VStr n"
    using assms(1) by (auto simp: network_call_def network_caps_def adapter_supports_def
        supports_actions_def supports_action_name wifi_def bluetooth_def mobile_data_def hotspot_def
        airplane_mode_def)
  then have d: "dget_or ?a ''action'' (VStr ''default'') = VStr n"
    by (simp add: dget_def dget_or_def split: option.splits)
  have "sound_step (ac_internal ?cap n ?a) r ps"
    using sound_network_cap[OF _ _ n s(2)] assms(1) by (simp add: network_call_def)
  then obtain q qs where q: "snd (ac_internal ?cap n ?a s) = net q qs" "radios_ok q"
    "(\<exists>e. fst (ac_internal ?cap n ?a s) = Inl e) \<longrightarrow> q = r \<and> qs = ps"
    unfolding sound_step_def s(1) by blast
  have "t = snd (execute_action str_of ?cap ?a s)"
    using assms(3) by (auto simp: control_step_def split: prod.splits sum.splits)
  then have t': "t = (if accepted_action (ac_descriptor ?cap) (VStr n) = None then s else net q qs)"
    using q(1) d by (auto simp: execute_action_state dest: accepted_action_eq[THEN iffD1]
        simp del: accepted_action.simps split: option.splits)
  then have t: "t = s \<or> t = net q qs" by presburger
  have "t = s" if v: "v = None"
  proof (cases "ac_internal ?cap n ?a s")
    case (Pair x u)
    have "accepted_action (ac_descriptor ?cap) (VStr n) = None \<or> (\<exists>e. x = Inl e)"
    proof (rule ccontr)
      assume "\<not> ?thesis"
      with Pair d show False
        using assms(3) v by (cases x) (auto simp: control_step_def execute_action_def Let_def act_defs
            dest: accepted_action_eq[THEN iffD1] split: option.splits simp del: accepted_action.simps)
    qed
    with t' Pair d q(1,3) s(1) show ?thesis by (auto simp del: accepted_action.simps)
  qed
  with t q(2) s assms(2) show ?thesis by (auto simp: net_ok_def)
qed

interpretation network: compensable "control_step str_of" control_undo "\<lambda>call s. network_call call" net_ok
    nd_state
  for str_of
proof unfold_locales
  fix s call v t u
  assume s: "net_ok s" "network_call call" "control_step str_of call s = (Some v, t)"
    and u: "net_ok u" "nd_state u = nd_state t"
  obtain x where x: "execute_action str_of (fst call) (snd call) s = (Inr x, t)" "cr_success x"
    "v = result_value x" using control_step_Some[OF s(3)] by blast
  have "fst call \<in> set (network_caps network_execute)" "adapter_supports (fst call) (snd call) = Inr True"
    using s(2) by (simp_all add: network_call_def)
  from network_caps_rollback[OF s(1) this x(1,2) u] x(3)
  show "net_ok (control_undo call v u) \<and> nd_state (control_undo call v u) = nd_state s"
    by (auto simp: control_undo_def)
next
  fix s call
  assume "net_ok s" "network_call call"
  then show "net_ok (snd (control_step str_of call s))"
    using network_call_effect by (metis prod.collapse)
next
  fix s call t
  assume "net_ok s" "network_call call" "control_step str_of call s = (None, t)"
  then show "nd_state t = nd_state s" using network_call_effect by blast
qed

text \<open>
  C14. Rolling back a network action restores every radio and no pairing: after any successful mutating
  action of wifi, bluetooth, mobile data, hotspot or airplane mode from a well-formed state,
  rolling back with the original result never raises and gives all five radios back as they
  were, but leaves the list of paired devices as the action left it, because the snapshot of the
  bluetooth radio shares that list.
\<close>

theorem network_rollback_exact:
  assumes "net_ok s" and "cap \<in> set (network_caps network_execute)"
    and "adapter_supports cap a = Inr True"
    and "execute_action str_of cap a s = (Inr x, t)" and "cr_success x"
  shows "\<exists>u. adapter_rollback cap a (result_value x) t = (Inr (), u) \<and>
    nd_state u = nd_state s \<and> nd_paired u = nd_paired t \<and> net_ok u"
proof -
  have "net_ok t"
    using network_call_effect[of "(cap, a)" s str_of "Some (result_value x)" t] assms
    by (simp add: network_call_def control_step_def)
  from network_caps_rollback[OF assms this refl] show ?thesis .
qed

theorem network_rollback_exact_witness:
  "\<exists>x t u. execute_action (\<lambda>v. []) (bluetooth network_execute)
      [(''action'', VStr ''network.bluetooth.pair''), (''device_id'', VStr ''headset'')]
      (snd (network_execute ''network.bluetooth.enable'' [] initial_netdev)) = (Inr x, t) \<and>
    adapter_rollback (bluetooth network_execute)
      [(''action'', VStr ''network.bluetooth.pair''), (''device_id'', VStr ''headset'')]
      (result_value x) t = (Inr (), u) \<and> nd_paired u = [VStr ''headset'']"
proof -
  let ?a = "[(''action'', VStr ''network.bluetooth.pair''), (''device_id'', VStr ''headset'')]"
  let ?r = "\<lparr>ra_wifi = True, ra_connected = False, ra_ssid = VNone, ra_bluetooth = True,
    ra_mobile = True, ra_hotspot = False, ra_airplane = False\<rparr>"
  have s: "snd (network_execute ''network.bluetooth.enable'' [] initial_netdev) = net ?r []"
    unfolding initial_net_ok by (simp add: network_steps)
  obtain x where x: "execute_action (\<lambda>v. []) (bluetooth network_execute) ?a (net ?r []) =
      (Inr x, net ?r [VStr ''headset''])" "cr_success x"
    by (simp add: execute_action_def bluetooth_def network_descriptor_def bluetooth_mutating_def
        mutating_descriptor_def base_descriptor_def snapshot_first_def network_steps act_defs)
  have "net_ok (net ?r [])" "bluetooth network_execute \<in> set (network_caps network_execute)"
    "adapter_supports (bluetooth network_execute) ?a = Inr True"
    by (auto simp: net_ok_def radios_ok_def network_caps_def adapter_supports_def bluetooth_def
        supports_actions_def bluetooth_mutating_def)
  from network_rollback_exact[OF this x] x(1) show ?thesis
    unfolding s by (auto simp: net_def)
qed

text \<open>
  Network transactions are atomic up to pairing: executing any list of mutating network calls from a
  well-formed state, stopping at the first that fails, and rolling the executed ones back in
  reverse order with their results restores all five radios.
\<close>

theorem network_transaction:
  assumes "net_ok s" and "\<forall>call\<in>set calls. network_call call"
    and "run_steps (control_step str_of) calls [] s = (done_calls, t)"
  shows "nd_state (undo_steps control_undo done_calls t) = nd_state s"
proof -
  have "steps_satisfy step (\<lambda>call s. network_call call) calls s" for step and s :: netdev
    using assms(2) by (induction calls arbitrary: s) (auto split: prod.split option.split)
  from network.transaction_undone[OF assms(1) this assms(3)] show ?thesis .
qed

theorem network_transaction_witness:
  "let calls = [(airplane_mode network_execute, [(''action'', VStr ''network.airplane.enable'')]),
       (wifi network_execute, [(''action'', VStr ''network.wifi.connect'')])];
     (done_calls, t) = run_steps (control_step (\<lambda>v. [])) calls [] initial_netdev
   in nd_state (undo_steps control_undo done_calls t) = nd_state initial_netdev"
proof -
  let ?calls = "[(airplane_mode network_execute, [(''action'', VStr ''network.airplane.enable'')]),
       (wifi network_execute, [(''action'', VStr ''network.wifi.connect'')])]"
  have ok: "net_ok initial_netdev" unfolding initial_net_ok by (auto simp: net_ok_def radios_ok_def)
  have "\<forall>call\<in>set ?calls. network_call call"
    by (simp add: network_call_def network_caps_def adapter_supports_def supports_actions_def
        wifi_def airplane_mode_def wifi_mutating_def airplane_mutating_def)
  from network_transaction[OF ok this] show ?thesis by (auto split: prod.splits)
qed

end
