(* ===== verification/Value_Store.thy ===== *)
theory Value_Store
  imports Device_Rollback
begin

text \<open>
  What the file, media and communication bridges share: dictionaries whose keys may be any value a
  caller passes, the small steps that read and write them, and the shapes of their capabilities. A
  stored dictionary keeps the key it was first stored under for display; look-ups compare hashes
  and so identify \<open>1\<close>, \<open>1.0\<close> and \<open>True\<close>. Values that go in and out are read at that moment:
  a stored dictionary that is handed out without a copy (downloads, gallery) is the value it has
  then.
\<close>

section \<open>Dictionaries with keys of any type\<close>

text \<open>The key under which a hashable value is found; \<open>m / 2 ^ e\<close> in lowest terms.\<close>

fun float_key :: "int \<Rightarrow> nat \<Rightarrow> pyval" where
  "float_key m 0 = VInt m"
| "float_key m (Suc e) = (if even m then float_key (m div 2) e else VFloat m (Suc e))"

fun hash_key :: "pyval \<Rightarrow> pyexn + pyval" where
  "hash_key (VBool b) = Inr (VInt (if b then 1 else 0))"
| "hash_key (VFloat m e) = Inr (float_key m e)"
| "hash_key (VList xs) = Inl (Exn (Py PyTypeError) ''unhashable type: list'')"
| "hash_key (VDict d) = Inl (Exn (Py PyTypeError) ''unhashable type: dict'')"
| "hash_key v = Inr v"

type_synonym vstore = "(pyval, pyval \<times> pyval) pydict"

definition vs_map :: "vstore \<Rightarrow> pyval \<Rightarrow> pyval option" where
  "vs_map d k = map_option snd (map_of d k)"

definition shown_keys :: "vstore \<Rightarrow> pyval list" where
  "shown_keys d = map (\<lambda>(k, shown, x). shown) d"

definition stored_values :: "vstore \<Rightarrow> pyval list" where
  "stored_values d = map (\<lambda>(k, shown, x). x) d"

definition vs_put :: "pyval \<Rightarrow> pyval \<Rightarrow> pyval \<Rightarrow> vstore \<Rightarrow> vstore" where
  "vs_put k v x d = AList.update k (case map_of d k of None \<Rightarrow> v | Some (shown, _) \<Rightarrow> shown, x) d"

lemma vs_map_put [simp]: "vs_map (vs_put k v x d) = (vs_map d)(k \<mapsto> x)"
  by (auto simp: vs_map_def vs_put_def fun_eq_iff)

lemma vs_map_delete [simp]: "vs_map (AList.delete k d) = (vs_map d)(k := None)"
  by (auto simp: vs_map_def fun_eq_iff)

lemma vs_map_Nil [simp]: "vs_map [] = Map.empty"
  by (simp add: vs_map_def fun_eq_iff)

lemma map_of_vs_map: "map_of d k = None \<longleftrightarrow> vs_map d k = None"
  by (simp add: vs_map_def)

text \<open>A string is its own key, and no other value shares it.\<close>

lemma hash_key_str [simp]: "hash_key v = Inr (VStr s) \<longleftrightarrow> v = VStr s"
proof -
  have "float_key m e \<noteq> VStr s" for m e
    by (induction m e rule: float_key.induct) simp_all
  then show ?thesis by (cases v) simp_all
qed

text \<open>The key of a key is itself, so a stored key is found again.\<close>

lemma hash_key_key: "hash_key v = Inr k \<Longrightarrow> hash_key k = Inr k"
proof -
  have "hash_key (float_key m e) = Inr (float_key m e)" for m e
    by (induction m e rule: float_key.induct) simp_all
  then show "hash_key v = Inr k \<Longrightarrow> hash_key k = Inr k" by (cases v) auto
qed

section \<open>Steps on a stored dictionary\<close>

text \<open>\<open>d.get(v)\<close> and \<open>v in d\<close>, \<open>d[v] = x\<close>, \<open>d.pop(v)\<close> on the dictionary a field of the state holds.\<close>

definition lookA :: "('s \<Rightarrow> vstore) \<Rightarrow> pyval \<Rightarrow> ('s, pyval option) act" where
  "lookA get v s = (case hash_key v of Inl e \<Rightarrow> (Inl e, s) | Inr k \<Rightarrow> (Inr (vs_map (get s) k), s))"

definition putA :: "((vstore \<Rightarrow> vstore) \<Rightarrow> 's \<Rightarrow> 's) \<Rightarrow> pyval \<Rightarrow> pyval \<Rightarrow> ('s, unit) act" where
  "putA upd v x s = (case hash_key v of
     Inl e \<Rightarrow> (Inl e, s) | Inr k \<Rightarrow> (Inr (), upd (vs_put k v x) s))"

text \<open>The message of a \<open>KeyError\<close> is the key as \<open>repr\<close> shows it.\<close>

definition key_error :: "(pyval \<Rightarrow> string) \<Rightarrow> pyval \<Rightarrow> pyexn" where
  "key_error str_of v = Exn (Py PyKeyError)
     (case v of VStr x \<Rightarrow> quoted x | _ \<Rightarrow> str_of v)"

definition popA ::
  "(pyval \<Rightarrow> string) \<Rightarrow> ('s \<Rightarrow> vstore) \<Rightarrow> ((vstore \<Rightarrow> vstore) \<Rightarrow> 's \<Rightarrow> 's) \<Rightarrow> pyval \<Rightarrow> ('s, pyval) act" where
  "popA str_of get upd v s = (case hash_key v of
     Inl e \<Rightarrow> (Inl e, s)
   | Inr k \<Rightarrow> (case vs_map (get s) k of
       None \<Rightarrow> (Inl (key_error str_of v), s)
     | Some x \<Rightarrow> (Inr x, upd (AList.delete k) s)))"

lemma lookA_Inr [simp]:
  "lookA get v s = (Inr x, t) \<longleftrightarrow> t = s \<and> (\<exists>k. hash_key v = Inr k \<and> x = vs_map (get s) k)"
  by (auto simp: lookA_def split: sum.splits)

lemma putA_Inr [simp]:
  "putA upd v x s = (Inr u, t) \<longleftrightarrow> (\<exists>k. hash_key v = Inr k \<and> t = upd (vs_put k v x) s)"
  by (auto simp: putA_def split: sum.splits)

lemma popA_Inr [simp]:
  "popA str_of get upd v s = (Inr x, t) \<longleftrightarrow>
     (\<exists>k. hash_key v = Inr k \<and> vs_map (get s) k = Some x \<and> t = upd (AList.delete k) s)"
  by (auto simp: popA_def split: sum.splits option.splits)

lemma store_steps_fail:
  "lookA get v s = (Inl e, t) \<Longrightarrow> t = s" "putA upd v x s = (Inl e, t) \<Longrightarrow> t = s"
  "popA str_of get upd v s = (Inl e, t) \<Longrightarrow> t = s"
  by (auto simp: lookA_def putA_def popA_def split: sum.splits option.splits)

text \<open>\<open>v.copy()\<close>, \<open>v[k] = x\<close> on a value and \<open>v.lower()\<close>.\<close>

fun copied :: "pyval \<Rightarrow> pyexn + pyval" where
  "copied (VDict d) = Inr (VDict d)"
| "copied (VList xs) = Inr (VList xs)"
| "copied v = Inl (no_attribute ''copy'')"

fun with_item :: "string \<Rightarrow> pyval \<Rightarrow> pyval \<Rightarrow> pyexn + pyval" where
  "with_item k x (VDict d) = Inr (VDict (AList.update k x d))"
| "with_item k x v = Inl (Exn (Py PyTypeError) ''object does not support item assignment'')"

fun lowered :: "pyval \<Rightarrow> pyexn + string" where
  "lowered (VStr s) = Inr (lower s)"
| "lowered v = Inl (no_attribute ''lower'')"

lemma copied_Inr: "copied v = Inr w \<Longrightarrow> w = v"
  by (cases v) simp_all

lemma copied_iff: "copied v = Inr w \<longleftrightarrow> w = v \<and> ((\<exists>d. v = VDict d) \<or> (\<exists>xs. v = VList xs))"
  by (cases v) auto

lemma with_item_Inr:
  "with_item k x v = Inr w \<longleftrightarrow> (\<exists>d. v = VDict d \<and> w = VDict (AList.update k x d))"
  by (cases v) auto

text \<open>A guard of a bridge that raises its own kind of error.\<close>

definition need :: "exn_class \<Rightarrow> bool \<Rightarrow> string \<Rightarrow> ('s, unit) act" where
  "need c b m = (if b then ret () else raise c m)"

lemma need_Inr [simp]: "need c b m s = (Inr u, t) \<longleftrightarrow> b \<and> t = s"
  by (auto simp: need_def act_defs)

lemma need_fail: "need c b m s = (Inl e, t) \<Longrightarrow> t = s"
  by (auto simp: need_def act_defs split: if_splits)

abbreviation adapter_error :: exn_class where
  "adapter_error \<equiv> InAndroid AndroidAdapterError"

lemma update_same: "map_of d k = Some v \<Longrightarrow> AList.update k v d = d"
  by (induction d) (auto split: if_splits)

section \<open>The shapes of the capabilities\<close>

text \<open>A capability that only reads, and the descriptor of one that writes.\<close>

definition read_capability ::
  "string \<Rightarrow> string \<Rightarrow> string \<Rightarrow> capability_category \<Rightarrow> string list \<Rightarrow> 'd bridge \<Rightarrow> 'd android_cap" where
  "read_capability i n d c acts bridge = \<lparr>ac_descriptor = (base_descriptor i n d c SecNORMAL acts)
       \<lparr>cd_idempotent := True\<rparr>,
     ac_internal = bridge, ac_supports = Some (\<lambda>a. Inr False), ac_rollback = None\<rparr>"

definition write_descriptor ::
  "string \<Rightarrow> string \<Rightarrow> string \<Rightarrow> capability_category \<Rightarrow> security_level \<Rightarrow> string list \<Rightarrow> descriptor" where
  "write_descriptor i n d c l acts = (mutating_descriptor (base_descriptor i n d c l acts))
     \<lparr>cd_level := USER\<rparr>"

text \<open>A capability that changes the device and never supports rollback.\<close>

definition irreversible_capability :: "descriptor \<Rightarrow> 'd bridge \<Rightarrow> 'd android_cap" where
  "irreversible_capability d bridge = \<lparr>ac_descriptor = d\<lparr>cd_rollback := False\<rparr>, ac_internal = bridge,
     ac_supports = Some (\<lambda>a. Inr False), ac_rollback = None\<rparr>"

text \<open>Comparing the action with a tuple or with \<open>==\<close> never raises.\<close>

definition action_in :: "string list \<Rightarrow> args \<Rightarrow> pyexn + bool" where
  "action_in names a = Inr (list_ex (\<lambda>n. dget a ''action'' = VStr n) names)"

text \<open>The data a rollback works on: the attribute \<open>data\<close> of the result, or the result if it is a dict.\<close>

definition rollback_data :: "pyval \<Rightarrow> pyval" where
  "rollback_data original = (case attr original ''data'' of
     Some d \<Rightarrow> d | None \<Rightarrow> (case original of VDict d \<Rightarrow> original | _ \<Rightarrow> VNone))"

text \<open>\<open>k in data\<close> for one key after the other, and \<open>data[k]\<close> of all.\<close>

fun has_all :: "pyval \<Rightarrow> string list \<Rightarrow> pyexn + bool" where
  "has_all v [] = Inr True"
| "has_all v (k # ks) = (case py_contains v k of
     Inl e \<Rightarrow> Inl e | Inr b \<Rightarrow> if b then has_all v ks else Inr False)"

fun all_items :: "pyval \<Rightarrow> string list \<Rightarrow> pyexn + pyval list" where
  "all_items v [] = Inr []"
| "all_items v (k # ks) = (case py_item v k of
     Inl e \<Rightarrow> Inl e
   | Inr x \<Rightarrow> (case all_items v ks of Inl e \<Rightarrow> Inl e | Inr xs \<Rightarrow> Inr (x # xs)))"

text \<open>
  If the data has the keys, call the bridge with a payload of their values under new names; the
  pairs are (name in the payload, key of the data).
\<close>

definition forward ::
  "'d bridge \<Rightarrow> string \<Rightarrow> (string \<times> string) list \<Rightarrow> pyval \<Rightarrow> ('d, unit) act" where
  "forward bridge action names data = bindA (liftA (has_all data (map snd names))) (\<lambda>b.
     if b then bindA (liftA (all_items data (map snd names))) (\<lambda>xs.
       ignore_result (bridge action (zip (map fst names) xs)))
     else ret ())"

lemma rollback_data_success [simp]: "rollback_data (success_value i v) = v"
  by (simp add: rollback_data_def)

lemma ignore_Inr: "ignore_result m s = (Inr u, t) \<longleftrightarrow> (\<exists>x. m s = (Inr x, t))"
  by (simp add: ignore_result_def bindA_eq_Inr ret_def)

lemma liftA_Inr: "liftA r s = (Inr x, t) \<longleftrightarrow> r = Inr x \<and> t = s"
  by (auto simp: liftA_def)

text \<open>How steps end, with a value and with an exception.\<close>

lemma liftA_Inl: "liftA r s = (Inl e, t) \<longleftrightarrow> r = Inl e \<and> t = s"
  by (auto simp: liftA_def)

lemmas step_eqs = seqA_def bindA_eq_Inr liftA_Inr ret_def raise_def

lemmas step_Inl = step_eqs bindA_eq_Inl liftA_Inl

lemma action_in_True:
  "action_in names a = Inr True \<longleftrightarrow> (\<exists>n \<in> set names. dget a ''action'' = VStr n)"
  by (auto simp: action_in_def list_ex_iff)

section \<open>Capabilities that can be undone\<close>

text \<open>
  What a capability offers a client that undoes its calls: calls that satisfy \<open>able\<close> are supported
  and name their action, a rollback with the reply of the bridge gives back what is observed of the
  state before, the invariant is kept, and a failing call shows nothing. Steps through the adapter
  are compensable then.
\<close>

locale undoable =
  fixes cap :: "'d android_cap"
    and able :: "args \<Rightarrow> 'd \<Rightarrow> bool"
    and inv :: "'d \<Rightarrow> bool"
    and obs :: "'d \<Rightarrow> 'o"
  assumes named: "able a s \<Longrightarrow> \<exists>n. dget a ''action'' = VStr n"
    and undone: "inv s \<Longrightarrow> able a s \<Longrightarrow> dget a ''action'' = VStr n \<Longrightarrow> ac_internal cap n a s = (Inr v, t) \<Longrightarrow>
      inv u \<Longrightarrow> obs u = obs t \<Longrightarrow>
      \<exists>u'. adapter_rollback cap a (success_value (cd_id (ac_descriptor cap)) v) u = (Inr (), u') \<and>
        inv u' \<and> obs u' = obs s"
    and kept: "inv s \<Longrightarrow> able a s \<Longrightarrow> dget a ''action'' = VStr n \<Longrightarrow> inv (snd (ac_internal cap n a s))"
    and failed: "inv s \<Longrightarrow> able a s \<Longrightarrow> dget a ''action'' = VStr n \<Longrightarrow> ac_internal cap n a s = (Inl e, t) \<Longrightarrow>
      obs t = obs s"
begin

lemma call_result_state:
  assumes "able a s" "dget a ''action'' = VStr n"
  shows "snd (execute_action str_of cap a s) = s \<or>
    snd (execute_action str_of cap a s) = snd (ac_internal cap n a s)"
  using assms by (auto simp: execute_action_state accepted_action_eq dget_def dget_or_def
      split: option.splits)

lemma call_kept: "inv s \<Longrightarrow> able a s \<Longrightarrow> inv (snd (execute_action str_of cap a s))"
  using named[of a s] call_result_state[of a s] kept[of s a] by metis

lemma call_undone:
  assumes "inv s" "able a s" "execute_action str_of cap a s = (Inr x, t)" "cr_success x"
    and "inv u" "obs u = obs t"
  shows "\<exists>u'. adapter_rollback cap a (result_value x) u = (Inr (), u') \<and> inv u' \<and> obs u' = obs s"
proof -
  obtain n where n: "dget a ''action'' = VStr n" using named[OF assms(2)] by blast
  obtain m v where m: "dget_or a ''action'' (VStr ''default'') = VStr m"
    "ac_internal cap m a s = (Inr v, t)"
    "result_value x = success_value (cd_id (ac_descriptor cap)) v"
    using execute_success[OF assms(3,4)] by blast
  have "m = n" using m(1) n by (simp add: dget_def dget_or_def split: option.splits)
  with undone[OF assms(1,2) n _ assms(5,6)] m(2,3) show ?thesis by simp
qed

lemma call_failed:
  assumes "inv s" "able a s" "execute_action str_of cap a s = (Inr x, t)" "\<not> cr_success x"
  shows "obs t = obs s"
proof -
  obtain n where n: "dget a ''action'' = VStr n" using named[OF assms(2)] by blast
  have "dget_or a ''action'' (VStr ''default'') = VStr n"
    using n by (simp add: dget_def dget_or_def split: option.splits)
  with assms(3,4) failed[OF assms(1,2) n] show ?thesis
    by (auto simp: execute_action_def Let_def act_defs accepted_action_eq
        split: option.splits prod.splits sum.splits if_splits)
qed

end

sublocale undoable \<subseteq> compensable "control_step str_of" control_undo
    "\<lambda>call s. fst call = cap \<and> able (snd call) s" inv obs
  for str_of
proof unfold_locales
  fix s call v t u
  assume s: "inv s" "fst call = cap \<and> able (snd call) s" "control_step str_of call s = (Some v, t)"
    and u: "inv u" "obs u = obs t"
  obtain x where x: "execute_action str_of (fst call) (snd call) s = (Inr x, t)" "cr_success x"
    "v = result_value x" using control_step_Some[OF s(3)] by blast
  with s(2) call_undone[OF s(1) _ _ _ u, of "snd call" str_of x]
  show "inv (control_undo call v u) \<and> obs (control_undo call v u) = obs s"
    by (auto simp: control_undo_def)
next
  fix s call
  assume "inv s" "fst call = cap \<and> able (snd call) s"
  moreover have "snd (control_step str_of call s) = snd (execute_action str_of (fst call) (snd call) s)"
    by (auto simp: control_step_def split: prod.splits sum.splits)
  ultimately show "inv (snd (control_step str_of call s))"
    using call_kept by (simp add:)
next
  fix s call t
  assume s: "inv s" "fst call = cap \<and> able (snd call) s" "control_step str_of call s = (None, t)"
  obtain x d where "execute_action str_of (fst call) (snd call) s = (Inr x, d)"
    using execute_action_total[of str_of "fst call" "snd call" s] by blast
  with s call_failed[OF s(1), of "snd call" str_of x t] show "obs t = obs s"
    by (auto simp: control_step_def split: if_splits)
qed

context undoable
begin

lemma steps_compensable:
  "compensable (control_step str_of) control_undo (\<lambda>call s. fst call = cap \<and> able (snd call) s) inv obs"
  by (rule compensable_axioms)

end

end
