(* ===== verification/File_Bridge.thy ===== *)
theory File_Bridge
  imports Value_Store
begin

text \<open>
  Files, downloads and gallery: the bridges core/android/bridge/files.py, downloads.py and
  gallery.py, each with its dispatcher, and the capabilities of the same names in
  core/android/capabilities. \<open>str_of\<close> is the text Python's \<open>str\<close> gives a value, \<open>uid\<close> the supply
  of \<open>uuid4\<close> values of the bridges that make identifiers.
\<close>

section \<open>Files\<close>

record filedev =
  fd_fs :: vstore

definition initial_filedev :: filedev where
  "initial_filedev = \<lparr>fd_fs = []\<rparr>"

text \<open>\<open>self._fs[path]\<close> after the guards on the path.\<close>

definition file_entry :: "(pyval \<Rightarrow> string) \<Rightarrow> pyval \<Rightarrow> (filedev, pyval) act" where
  "file_entry str_of path = bindA (lookA fd_fs path) (\<lambda>f. case f of
     None \<Rightarrow> raise adapter_error (''File not found: '' @ str_of path) | Some x \<Rightarrow> ret x)"

definition no_file :: "(pyval \<Rightarrow> string) \<Rightarrow> string \<Rightarrow> pyval \<Rightarrow> (filedev, unit) act" where
  "no_file str_of msg path = bindA (lookA fd_fs path) (\<lambda>f. need adapter_error (f = None) (msg @ str_of path))"

definition path_reply :: "pyval \<Rightarrow> args \<Rightarrow> pyval" where
  "path_reply path others = VDict ((''path'', path) # others)"

definition file_read :: "(pyval \<Rightarrow> string) \<Rightarrow> args \<Rightarrow> (filedev, pyval) act" where
  "file_read str_of a = (let path = dget a ''path'' in
     seqA (need adapter_error (truthy path) ''path is required'')
     (bindA (file_entry str_of path) (\<lambda>x.
      bindA (liftA (py_item x ''content'')) (\<lambda>c. ret (path_reply path [(''content'', c)])))))"

definition file_list :: "(filedev, pyval) act" where
  "file_list s = (Inr (VDict [(''files'', VList (shown_keys (fd_fs s)))]), s)"

definition file_create :: "(pyval \<Rightarrow> string) \<Rightarrow> args \<Rightarrow> (filedev, pyval) act" where
  "file_create str_of a = (let path = dget a ''path''; content = dget_or a ''content'' (VStr []) in
     seqA (need adapter_error (truthy path) ''path is required'')
     (seqA (no_file str_of ''File already exists: '' path)
     (seqA (putA fd_fs_update path (VDict [(''content'', content)]))
       (ret (path_reply path [])))))"

definition file_write :: "(pyval \<Rightarrow> string) \<Rightarrow> args \<Rightarrow> (filedev, pyval) act" where
  "file_write str_of a = (let path = dget a ''path''; content = dget_or a ''content'' (VStr []) in
     seqA (need adapter_error (truthy path) ''path is required'')
     (bindA (file_entry str_of path) (\<lambda>x.
      bindA (liftA (copied x)) (\<lambda>pre_state.
      bindA (liftA (with_item ''content'' content x)) (\<lambda>y.
      seqA (putA fd_fs_update path y) (ret (path_reply path [(''pre_state'', pre_state)])))))))"

text \<open>Rename and move are the same code: the entry leaves its place and goes to the end.\<close>

definition file_rename :: "(pyval \<Rightarrow> string) \<Rightarrow> args \<Rightarrow> (filedev, pyval) act" where
  "file_rename str_of a = (let src = dget a ''source''; dest = dget a ''destination'';
       names = [(''source'', src), (''destination'', dest)] in
     seqA (need adapter_error (truthy src \<and> truthy dest) ''source and destination are required'')
     (seqA (file_entry str_of src)
     (seqA (no_file str_of ''Destination exists: '' dest)
     (bindA (popA str_of fd_fs fd_fs_update src) (\<lambda>x.
      seqA (putA fd_fs_update dest x) (ret (VDict (names @ [(''pre_state'', VDict names)]))))))))"

definition file_delete :: "(pyval \<Rightarrow> string) \<Rightarrow> args \<Rightarrow> (filedev, pyval) act" where
  "file_delete str_of a = (let path = dget a ''path'' in
     seqA (need adapter_error (truthy path) ''path is required'')
     (seqA (file_entry str_of path)
     (bindA (popA str_of fd_fs fd_fs_update path) (\<lambda>pre_state.
      ret (path_reply path [(''pre_state'', pre_state)])))))"

definition success_reply :: pyval where
  "success_reply = VDict [(''success'', VBool True)]"

text \<open>The actions rollback uses: an entry is put back as it is given, a rename is turned around.\<close>

definition file_restore :: "args \<Rightarrow> (filedev, pyval) act" where
  "file_restore a = seqA (putA fd_fs_update (dget a ''path'') (dget a ''pre_state'')) (ret success_reply)"

definition file_restore_rename :: "(pyval \<Rightarrow> string) \<Rightarrow> args \<Rightarrow> (filedev, pyval) act" where
  "file_restore_rename str_of a = bindA (popA str_of fd_fs fd_fs_update (dget a ''destination''))
     (\<lambda>x. seqA (putA fd_fs_update (dget a ''source'') x) (ret success_reply))"

definition file_execute :: "(pyval \<Rightarrow> string) \<Rightarrow> string \<Rightarrow> args \<Rightarrow> (filedev, pyval) act" where
  "file_execute str_of action a =
     (if action = ''files.read'' then file_read str_of a
      else if action = ''files.list'' then file_list
      else if action = ''files.create'' then file_create str_of a
      else if action = ''files.write'' then file_write str_of a
      else if action = ''files.rename'' then file_rename str_of a
      else if action = ''files.move'' then file_rename str_of a
      else if action = ''files.delete'' then file_delete str_of a
      else if action = ''files.restore_delete'' then file_restore a
      else if action = ''files.restore_write'' then file_restore a
      else if action = ''files.restore_rename'' then file_restore_rename str_of a
      else if action = ''files.restore_move'' then file_restore_rename str_of a
      else raise adapter_error (''Unsupported action: '' @ action))"

definition file_mutating :: "string list" where
  "file_mutating = [''files.create'', ''files.write'', ''files.rename'', ''files.move'', ''files.delete'']"

definition files_read :: "'d bridge \<Rightarrow> 'd android_cap" where
  "files_read = read_capability ''android.device.files.read'' ''Files Read'' ''Reads and lists files.''
     CatDEVICE [''files.read'', ''files.list'']"

definition restore_names :: "'d bridge \<Rightarrow> string \<Rightarrow> pyval \<Rightarrow> ('d, unit) act" where
  "restore_names bridge action data = bindA (liftA (py_contains data ''pre_state'')) (\<lambda>b.
     if b then bindA (liftA (py_item data ''pre_state'')) (\<lambda>pre.
       bindA (liftA (all_items pre [''source'', ''destination''])) (\<lambda>xs.
         ignore_result (bridge action (zip [''source'', ''destination''] xs))))
     else ret ())"

definition files_rollback :: "'d bridge \<Rightarrow> args \<Rightarrow> pyval \<Rightarrow> ('d, unit) act" where
  "files_rollback bridge a original = (let action = dget a ''action''; data = rollback_data original;
       entry = [(''path'', ''path''), (''pre_state'', ''pre_state'')] in
     if \<not> truthy data then ret ()
     else if action = VStr ''files.create''
     then forward bridge ''files.delete'' [(''path'', ''path'')] data
     else if action = VStr ''files.write'' then forward bridge ''files.restore_write'' entry data
     else if action = VStr ''files.rename'' then restore_names bridge ''files.restore_rename'' data
     else if action = VStr ''files.move'' then restore_names bridge ''files.restore_move'' data
     else if action = VStr ''files.delete'' then forward bridge ''files.restore_delete'' entry data
     else ret ())"

definition files_write :: "'d bridge \<Rightarrow> 'd android_cap" where
  "files_write bridge = \<lparr>ac_descriptor = write_descriptor ''android.device.files.write'' ''Files Write''
       ''Creates, modifies, and deletes files.'' CatDEVICE SecHIGH file_mutating,
     ac_internal = bridge, ac_supports = Some (action_in file_mutating),
     ac_rollback = Some (files_rollback bridge)\<rparr>"

section \<open>Downloads\<close>

record downdev =
  dd_downloads :: vstore
  dd_uid :: nat

definition initial_downdev :: downdev where
  "initial_downdev = \<lparr>dd_downloads = [], dd_uid = 0\<rparr>"

text \<open>\<open>f"dl-{uuid.uuid4().hex[:8]}"\<close>: eight hexadecimal digits, which may repeat.\<close>

definition short_id :: "string \<Rightarrow> (nat \<Rightarrow> string) \<Rightarrow> nat \<Rightarrow> string" where
  "short_id prefix uid n = prefix @ take 8 (uuid_hex (uid n))"

definition download_status :: "(pyval \<Rightarrow> string) \<Rightarrow> args \<Rightarrow> (downdev, pyval) act" where
  "download_status str_of a = (let i = dget a ''download_id'' in
     seqA (need adapter_error (truthy i) ''download_id is required'')
     (bindA (lookA dd_downloads i) (\<lambda>d. case d of
        None \<Rightarrow> raise adapter_error (''Download not found: '' @ str_of i)
      | Some x \<Rightarrow> ret (VDict [(''download'', x)]))))"

definition download_start :: "(nat \<Rightarrow> string) \<Rightarrow> args \<Rightarrow> (downdev, pyval) act" where
  "download_start uid a = (let url = dget a ''url'' in
     seqA (need adapter_error (truthy url) ''url is required'')
     (\<lambda>s. let i = VStr (short_id ''dl-'' uid (dd_uid s)) in
        seqA (putA dd_downloads_update i
            (VDict [(''id'', i), (''url'', url), (''status'', VStr ''downloading'')]))
          (ret (VDict [(''download_id'', i)])) (s\<lparr>dd_uid := Suc (dd_uid s)\<rparr>)))"

text \<open>\<open>if not dl_id or dl_id not in self._downloads\<close>, then the stored dictionary.\<close>

definition valid_download :: "pyval \<Rightarrow> (downdev, pyval) act" where
  "valid_download i =
     (if \<not> truthy i then raise adapter_error ''Valid download_id is required''
      else bindA (lookA dd_downloads i) (\<lambda>d. case d of
        None \<Rightarrow> raise adapter_error ''Valid download_id is required'' | Some x \<Rightarrow> ret x))"

text \<open>Pause and resume: the status before is the snapshot, whatever it was.\<close>

definition download_switch :: "string \<Rightarrow> args \<Rightarrow> (downdev, pyval) act" where
  "download_switch status a = (let i = dget a ''download_id'' in
     bindA (valid_download i) (\<lambda>x.
     bindA (liftA (py_item x ''status'')) (\<lambda>pre_state.
     bindA (liftA (with_item ''status'' (VStr status) x)) (\<lambda>y.
     seqA (putA dd_downloads_update i y)
       (ret (VDict [(''download_id'', i), (''pre_state'', pre_state)]))))))"

definition download_cancel :: "args \<Rightarrow> (downdev, pyval) act" where
  "download_cancel a = (let i = dget a ''download_id'' in
     bindA (valid_download i) (\<lambda>x.
     bindA (liftA (with_item ''status'' (VStr ''cancelled'') x)) (\<lambda>y.
     seqA (putA dd_downloads_update i y) (ret (VDict [(''download_id'', i)])))))"

definition download_delete :: "(pyval \<Rightarrow> string) \<Rightarrow> args \<Rightarrow> (downdev, pyval) act" where
  "download_delete str_of a = (let i = dget a ''download_id'' in
     seqA (valid_download i)
     (seqA (popA str_of dd_downloads dd_downloads_update i) (ret (VDict [(''download_id'', i)]))))"

definition download_restore :: "args \<Rightarrow> (downdev, pyval) act" where
  "download_restore a = (let i = dget a ''download_id'' in
     bindA (lookA dd_downloads i) (\<lambda>d. seqA
       (case d of None \<Rightarrow> ret ()
        | Some x \<Rightarrow> bindA (liftA (with_item ''status'' (dget a ''pre_state'') x)) (putA dd_downloads_update i))
       (ret success_reply)))"

definition download_execute ::
  "(pyval \<Rightarrow> string) \<Rightarrow> (nat \<Rightarrow> string) \<Rightarrow> string \<Rightarrow> args \<Rightarrow> (downdev, pyval) act" where
  "download_execute str_of uid action a =
     (if action = ''downloads.list''
      then \<lambda>s. (Inr (VDict [(''downloads'', VList (stored_values (dd_downloads s)))]), s)
      else if action = ''downloads.status'' then download_status str_of a
      else if action = ''downloads.start'' then download_start uid a
      else if action = ''downloads.pause'' then download_switch ''paused'' a
      else if action = ''downloads.resume'' then download_switch ''downloading'' a
      else if action = ''downloads.cancel'' then download_cancel a
      else if action = ''downloads.delete'' then download_delete str_of a
      else if action = ''downloads.restore_status'' then download_restore a
      else raise adapter_error (''Unsupported action: '' @ action))"

definition download_reversible :: "string list" where
  "download_reversible = [''downloads.pause'', ''downloads.resume'']"

definition downloads_read :: "'d bridge \<Rightarrow> 'd android_cap" where
  "downloads_read = read_capability ''android.device.downloads.read'' ''Downloads Read''
     ''Reads download status and queue.'' CatDEVICE [''downloads.list'', ''downloads.status'']"

definition downloads_rollback :: "'d bridge \<Rightarrow> args \<Rightarrow> pyval \<Rightarrow> ('d, unit) act" where
  "downloads_rollback bridge a original =
     bindA (liftA (supports_actions download_reversible a)) (\<lambda>b.
       if \<not> b \<or> \<not> truthy (rollback_data original) then ret ()
       else forward bridge ''downloads.restore_status''
         [(''download_id'', ''download_id''), (''pre_state'', ''pre_state'')] (rollback_data original))"

definition downloads_write :: "'d bridge \<Rightarrow> 'd android_cap" where
  "downloads_write bridge = \<lparr>ac_descriptor = write_descriptor ''android.device.downloads.write''
       ''Downloads Write'' ''Manages downloads.'' CatDEVICE SecNORMAL
       [''downloads.start'', ''downloads.pause'', ''downloads.resume'', ''downloads.cancel'',
        ''downloads.delete''],
     ac_internal = bridge, ac_supports = Some (supports_actions download_reversible),
     ac_rollback = Some (downloads_rollback bridge)\<rparr>"

section \<open>Gallery\<close>

record gallerydev =
  gd_assets :: vstore
  gd_uid :: nat

definition initial_gallerydev :: gallerydev where
  "initial_gallerydev = \<lparr>gd_assets = [], gd_uid = 0\<rparr>"

definition gallery_add :: "(nat \<Rightarrow> string) \<Rightarrow> args \<Rightarrow> (gallerydev, pyval) act" where
  "gallery_add uid a s = (let i = VStr (short_id ''img-'' uid (gd_uid s)) in
     seqA (putA gd_assets_update i (VDict [(''id'', i), (''type'', dget_or a ''type'' (VStr ''image''))]))
       (ret (VDict [(''asset_id'', i)])) (s\<lparr>gd_uid := Suc (gd_uid s)\<rparr>))"

definition gallery_delete :: "(pyval \<Rightarrow> string) \<Rightarrow> args \<Rightarrow> (gallerydev, pyval) act" where
  "gallery_delete str_of a = (let i = dget a ''asset_id'' in
     seqA (need adapter_error (truthy i) ''asset_id is required'')
     (bindA (lookA gd_assets i) (\<lambda>x.
      seqA (need adapter_error (x \<noteq> None) (''Asset not found: '' @ str_of i))
      (bindA (popA str_of gd_assets gd_assets_update i) (\<lambda>pre_state.
        ret (VDict [(''asset_id'', i), (''pre_state'', pre_state)]))))))"

definition gallery_restore_add :: "(pyval \<Rightarrow> string) \<Rightarrow> args \<Rightarrow> (gallerydev, pyval) act" where
  "gallery_restore_add str_of a = (let i = dget a ''asset_id'' in
     bindA (lookA gd_assets i) (\<lambda>x. seqA
       (if x = None then ret VNone else popA str_of gd_assets gd_assets_update i)
       (ret success_reply)))"

definition gallery_restore_delete :: "args \<Rightarrow> (gallerydev, pyval) act" where
  "gallery_restore_delete a =
     seqA (putA gd_assets_update (dget a ''asset_id'') (dget a ''pre_state'')) (ret success_reply)"

definition gallery_execute ::
  "(pyval \<Rightarrow> string) \<Rightarrow> (nat \<Rightarrow> string) \<Rightarrow> string \<Rightarrow> args \<Rightarrow> (gallerydev, pyval) act" where
  "gallery_execute str_of uid action a =
     (if action = ''gallery.list''
      then \<lambda>s. (Inr (VDict [(''assets'', VList (stored_values (gd_assets s)))]), s)
      else if action = ''gallery.add'' then gallery_add uid a
      else if action = ''gallery.delete'' then gallery_delete str_of a
      else if action = ''gallery.restore_add'' then gallery_restore_add str_of a
      else if action = ''gallery.restore_delete'' then gallery_restore_delete a
      else raise adapter_error (''Unsupported action: '' @ action))"

definition gallery_read :: "'d bridge \<Rightarrow> 'd android_cap" where
  "gallery_read = read_capability ''android.device.gallery.read'' ''Gallery Read''
     ''Reads gallery assets.'' CatDEVICE [''gallery.list'']"

definition gallery_rollback :: "'d bridge \<Rightarrow> args \<Rightarrow> pyval \<Rightarrow> ('d, unit) act" where
  "gallery_rollback bridge a original = (let action = dget a ''action''; data = rollback_data original in
     if \<not> truthy data then ret ()
     else if action = VStr ''gallery.add''
     then forward bridge ''gallery.restore_add'' [(''asset_id'', ''asset_id'')] data
     else if action = VStr ''gallery.delete''
     then forward bridge ''gallery.restore_delete''
       [(''asset_id'', ''asset_id''), (''pre_state'', ''pre_state'')] data
     else ret ())"

definition gallery_write :: "'d bridge \<Rightarrow> 'd android_cap" where
  "gallery_write bridge = \<lparr>ac_descriptor = write_descriptor ''android.device.gallery.write''
       ''Gallery Write'' ''Adds or deletes gallery assets.'' CatDEVICE SecHIGH
       [''gallery.add'', ''gallery.delete''],
     ac_internal = bridge, ac_supports = Some (\<lambda>a. Inr True),
     ac_rollback = Some (gallery_rollback bridge)\<rparr>"

end
