(* ===== verification/File_Rollback.thy ===== *)
theory File_Rollback
  imports File_Bridge
begin

text \<open>
  What the file, download and gallery capabilities guarantee on their bridges: which calls succeed
  and what they do (as equivalences), that a failing call changes nothing, and that a sequence of
  reversible calls can be undone. What is restored is the mapping from keys to entries: an entry
  that is put back stands at the end of the listing.
\<close>

section \<open>Files\<close>

lemma file_entry_Inr [simp]:
  "file_entry str_of path s = (Inr x, t) \<longleftrightarrow>
     t = s \<and> (\<exists>k. hash_key path = Inr k \<and> vs_map (fd_fs s) k = Some x)"
  by (auto simp: file_entry_def step_eqs split: option.splits)

lemma no_file_Inr [simp]:
  "no_file str_of m path s = (Inr x, t) \<longleftrightarrow>
     t = s \<and> (\<exists>k. hash_key path = Inr k \<and> vs_map (fd_fs s) k = None)"
  by (auto simp: no_file_def bindA_eq_Inr)

lemma file_create_Inr:
  "file_create str_of a s = (Inr v, t) \<longleftrightarrow> (\<exists>k. truthy (dget a ''path'') \<and>
     hash_key (dget a ''path'') = Inr k \<and> vs_map (fd_fs s) k = None \<and> v = path_reply (dget a ''path'') [] \<and>
     t = s\<lparr>fd_fs := vs_put k (dget a ''path'')
       (VDict [(''content'', dget_or a ''content'' (VStr []))]) (fd_fs s)\<rparr>)"
  by (auto simp: file_create_def Let_def step_eqs)

lemma file_write_Inr:
  "file_write str_of a s = (Inr v, t) \<longleftrightarrow> (\<exists>k d. truthy (dget a ''path'') \<and>
     hash_key (dget a ''path'') = Inr k \<and> vs_map (fd_fs s) k = Some (VDict d) \<and>
     v = path_reply (dget a ''path'') [(''pre_state'', VDict d)] \<and>
     t = s\<lparr>fd_fs := vs_put k (dget a ''path'')
       (VDict (AList.update ''content'' (dget_or a ''content'' (VStr [])) d)) (fd_fs s)\<rparr>)"
  by (auto simp: file_write_def Let_def step_eqs with_item_Inr dest: copied_Inr)

lemma file_rename_Inr:
  "file_rename str_of a s = (Inr v, t) \<longleftrightarrow> (\<exists>k l x. truthy (dget a ''source'') \<and>
     truthy (dget a ''destination'') \<and> hash_key (dget a ''source'') = Inr k \<and>
     hash_key (dget a ''destination'') = Inr l \<and> vs_map (fd_fs s) k = Some x \<and> vs_map (fd_fs s) l = None \<and>
     v = VDict [(''source'', dget a ''source''), (''destination'', dget a ''destination''),
       (''pre_state'', VDict [(''source'', dget a ''source''), (''destination'', dget a ''destination'')])] \<and>
     t = s\<lparr>fd_fs := vs_put l (dget a ''destination'') x (AList.delete k (fd_fs s))\<rparr>)"
  by (auto simp: file_rename_def Let_def step_eqs)

lemma file_delete_Inr:
  "file_delete str_of a s = (Inr v, t) \<longleftrightarrow> (\<exists>k x. truthy (dget a ''path'') \<and>
     hash_key (dget a ''path'') = Inr k \<and> vs_map (fd_fs s) k = Some x \<and>
     v = path_reply (dget a ''path'') [(''pre_state'', x)] \<and> t = s\<lparr>fd_fs := AList.delete k (fd_fs s)\<rparr>)"
  by (auto simp: file_delete_def Let_def step_eqs)

lemma file_restores_Inr:
  "file_restore a s = (Inr v, t) \<longleftrightarrow> (\<exists>k. hash_key (dget a ''path'') = Inr k \<and> v = success_reply \<and>
     t = s\<lparr>fd_fs := vs_put k (dget a ''path'') (dget a ''pre_state'') (fd_fs s)\<rparr>)"
  "file_restore_rename str_of a s = (Inr v, t) \<longleftrightarrow> (\<exists>k l x. hash_key (dget a ''destination'') = Inr l \<and>
     vs_map (fd_fs s) l = Some x \<and> hash_key (dget a ''source'') = Inr k \<and> v = success_reply \<and>
     t = s\<lparr>fd_fs := vs_put k (dget a ''source'') x (AList.delete l (fd_fs s))\<rparr>)"
  by (auto simp: file_restore_def file_restore_rename_def step_eqs)

lemmas file_Inr = file_create_Inr file_write_Inr file_rename_Inr file_delete_Inr file_restores_Inr

text \<open>Undoing the action with its reply, from any state with the same files.\<close>

definition file_obs :: "filedev \<Rightarrow> pyval \<Rightarrow> pyval option" where
  "file_obs s = vs_map (fd_fs s)"

lemma file_undone:
  assumes "n \<in> set file_mutating" "dget a ''action'' = VStr n" "file_execute str_of n a s = (Inr v, t)"
    and "file_obs u = file_obs t"
  shows "\<exists>u'. files_rollback (file_execute str_of) a (success_value i v) u = (Inr (), u') \<and>
    file_obs u' = file_obs s"
  using assms(1) unfolding file_mutating_def set_simps insert_iff empty_iff
proof (elim disjE FalseE)
qed (use assms(2-4) in \<open>auto simp: file_execute_def files_rollback_def forward_def restore_names_def
  file_Inr file_obs_def path_reply_def ignore_Inr Let_def fun_eq_iff\<close>)

text \<open>A bridge function that fails has changed nothing.\<close>

lemma file_guards_fail:
  "file_entry str_of path u = (Inl e, w) \<Longrightarrow> w = u"
  "no_file str_of msg path u = (Inl e, w) \<Longrightarrow> w = u"
  by (auto simp: file_entry_def no_file_def step_Inl dest: store_steps_fail need_fail
      split: option.splits)

lemma file_fails:
  assumes "n \<in> set file_mutating" "file_execute str_of n a s = (Inl e, t)"
  shows "file_obs t = file_obs s"
proof -
  have put: "putA fd_fs_update v x u = (Inl e, w) \<Longrightarrow> \<nexists>k. hash_key v = Inr k" for v x u w
    by (auto simp: putA_def split: sum.splits)
  show ?thesis
    using assms(1) unfolding file_mutating_def set_simps insert_iff empty_iff
  proof (elim disjE FalseE)
  qed (use assms(2) in \<open>auto simp: file_execute_def file_create_def file_write_def file_rename_def
    file_delete_def step_Inl Let_def dest: store_steps_fail put need_fail file_guards_fail\<close>)
qed

interpretation files: undoable "files_write (file_execute str_of)"
  "\<lambda>a s. adapter_supports (files_write (file_execute str_of)) a = Inr True" "\<lambda>s. True" file_obs
  for str_of
proof unfold_locales
  fix a and s u t :: filedev and n v
  assume "adapter_supports (files_write (file_execute str_of)) a = Inr True" "dget a ''action'' = VStr n"
    "ac_internal (files_write (file_execute str_of)) n a s = (Inr v, t)" "file_obs u = file_obs t"
  with file_undone[of n a str_of s v t u] show "\<exists>u'. adapter_rollback (files_write (file_execute str_of)) a
      (success_value (cd_id (ac_descriptor (files_write (file_execute str_of)))) v) u = (Inr (), u') \<and>
      True \<and> file_obs u' = file_obs s"
    by (auto simp: adapter_supports_def adapter_rollback_def files_write_def action_in_True)
qed (auto simp: adapter_supports_def files_write_def action_in_True dest: file_fails)

section \<open>Downloads\<close>

lemma valid_download_Inr [simp]:
  "valid_download i s = (Inr x, t) \<longleftrightarrow>
     t = s \<and> truthy i \<and> (\<exists>k. hash_key i = Inr k \<and> vs_map (dd_downloads s) k = Some x)"
  by (auto simp: valid_download_def step_eqs split: option.splits)

lemma download_switch_Inr:
  "download_switch st a s = (Inr v, t) \<longleftrightarrow> (\<exists>k d p. truthy (dget a ''download_id'') \<and>
     hash_key (dget a ''download_id'') = Inr k \<and> vs_map (dd_downloads s) k = Some (VDict d) \<and>
     map_of d ''status'' = Some p \<and>
     v = VDict [(''download_id'', dget a ''download_id''), (''pre_state'', p)] \<and>
     t = s\<lparr>dd_downloads := vs_put k (dget a ''download_id'')
       (VDict (AList.update ''status'' (VStr st) d)) (dd_downloads s)\<rparr>)"
  by (auto simp: download_switch_def Let_def step_eqs with_item_Inr split: option.splits)

lemma download_restore_Inr:
  "download_restore a s = (Inr v, t) \<longleftrightarrow> v = success_reply \<and> (\<exists>k. hash_key (dget a ''download_id'') = Inr k \<and>
     (case vs_map (dd_downloads s) k of None \<Rightarrow> t = s
      | Some x \<Rightarrow> \<exists>d. x = VDict d \<and> t = s\<lparr>dd_downloads := vs_put k (dget a ''download_id'')
          (VDict (AList.update ''status'' (dget a ''pre_state'') d)) (dd_downloads s)\<rparr>))"
  by (cases "hash_key (dget a ''download_id'')")
    (auto simp: download_restore_def Let_def step_eqs with_item_Inr split: option.splits)

definition download_obs :: "downdev \<Rightarrow> pyval \<Rightarrow> pyval option" where
  "download_obs s = vs_map (dd_downloads s)"

lemma download_undone:
  assumes "n \<in> set download_reversible" "dget a ''action'' = VStr n"
    and "download_execute str_of uid n a s = (Inr v, t)" and "download_obs u = download_obs t"
  shows "\<exists>u'. downloads_rollback (download_execute str_of uid) a (success_value i v) u = (Inr (), u') \<and>
    download_obs u' = download_obs s"
  using assms(1) unfolding download_reversible_def set_simps insert_iff empty_iff
proof (elim disjE FalseE)
qed (use assms(2-4) in \<open>auto simp: download_execute_def downloads_rollback_def supports_actions_def
  download_reversible_def forward_def download_switch_Inr download_restore_Inr download_obs_def ignore_Inr
  Let_def fun_eq_iff update_same\<close>)

lemma download_fails:
  assumes "n \<in> set download_reversible" "download_execute str_of uid n a s = (Inl e, t)"
  shows "t = s"
proof -
  have valid: "valid_download i u = (Inl e, w) \<Longrightarrow> w = u" for i u w
    by (auto simp: valid_download_def step_Inl dest: store_steps_fail split: if_splits option.splits)
  show ?thesis
    using assms(1) unfolding download_reversible_def set_simps insert_iff empty_iff
  proof (elim disjE FalseE)
  qed (use assms(2) in \<open>auto simp: download_execute_def download_switch_def step_Inl Let_def
    dest: store_steps_fail valid\<close>)
qed

interpretation downloads: undoable "downloads_write (download_execute str_of uid)"
  "\<lambda>a s. adapter_supports (downloads_write (download_execute str_of uid)) a = Inr True" "\<lambda>s. True"
  download_obs for str_of uid
proof unfold_locales
  fix a and s u t :: downdev and n v
  assume "adapter_supports (downloads_write (download_execute str_of uid)) a = Inr True"
    "dget a ''action'' = VStr n" "ac_internal (downloads_write (download_execute str_of uid)) n a s = (Inr v, t)"
    "download_obs u = download_obs t"
  with download_undone[of n a str_of uid s v t u]
  show "\<exists>u'. adapter_rollback (downloads_write (download_execute str_of uid)) a
      (success_value (cd_id (ac_descriptor (downloads_write (download_execute str_of uid)))) v) u = (Inr (), u') \<and>
      True \<and> download_obs u' = download_obs s"
    by (auto simp: adapter_supports_def adapter_rollback_def downloads_write_def supports_actions_def
        supports_action_name)
qed (auto simp: adapter_supports_def downloads_write_def supports_actions_def supports_action_name
  dest: download_fails)

section \<open>Gallery\<close>

text \<open>Adding is undone only if the new identifier was free: it is eight digits of a random one.\<close>

definition gallery_able :: "(nat \<Rightarrow> string) \<Rightarrow> args \<Rightarrow> gallerydev \<Rightarrow> bool" where
  "gallery_able uid a s \<longleftrightarrow> dget a ''action'' = VStr ''gallery.delete'' \<or>
     dget a ''action'' = VStr ''gallery.add'' \<and>
     vs_map (gd_assets s) (VStr (short_id ''img-'' uid (gd_uid s))) = None"

definition gallery_obs :: "gallerydev \<Rightarrow> pyval \<Rightarrow> pyval option" where
  "gallery_obs s = vs_map (gd_assets s)"

lemma gallery_Inr:
  "gallery_add uid a s = (Inr v, t) \<longleftrightarrow> (let i = VStr (short_id ''img-'' uid (gd_uid s)) in
     v = VDict [(''asset_id'', i)] \<and>
     t = s\<lparr>gd_uid := Suc (gd_uid s), gd_assets := vs_put i i
       (VDict [(''id'', i), (''type'', dget_or a ''type'' (VStr ''image''))]) (gd_assets s)\<rparr>)"
  "gallery_delete str_of a s = (Inr v, t) \<longleftrightarrow> (\<exists>k x. truthy (dget a ''asset_id'') \<and>
     hash_key (dget a ''asset_id'') = Inr k \<and> vs_map (gd_assets s) k = Some x \<and>
     v = VDict [(''asset_id'', dget a ''asset_id''), (''pre_state'', x)] \<and>
     t = s\<lparr>gd_assets := AList.delete k (gd_assets s)\<rparr>)"
  "gallery_restore_delete a s = (Inr v, t) \<longleftrightarrow> v = success_reply \<and> (\<exists>k.
     hash_key (dget a ''asset_id'') = Inr k \<and>
     t = s\<lparr>gd_assets := vs_put k (dget a ''asset_id'') (dget a ''pre_state'') (gd_assets s)\<rparr>)"
  by (auto simp: gallery_add_def gallery_delete_def gallery_restore_delete_def Let_def step_eqs)

lemma gallery_restore_add_Inr:
  "gallery_restore_add str_of a s = (Inr v, t) \<longleftrightarrow> v = success_reply \<and> (\<exists>k.
     hash_key (dget a ''asset_id'') = Inr k \<and> (if vs_map (gd_assets s) k = None then t = s
       else t = s\<lparr>gd_assets := AList.delete k (gd_assets s)\<rparr>))"
  by (cases "hash_key (dget a ''asset_id'')"; cases "vs_map (gd_assets s) (projr (hash_key (dget a ''asset_id'')))")
    (auto simp: gallery_restore_add_def Let_def step_eqs)

lemma gallery_undone:
  assumes "gallery_able uid a s" "dget a ''action'' = VStr n"
    and "gallery_execute str_of uid n a s = (Inr v, t)" and "gallery_obs u = gallery_obs t"
  shows "\<exists>u'. gallery_rollback (gallery_execute str_of uid) a (success_value i v) u = (Inr (), u') \<and>
    gallery_obs u' = gallery_obs s"
  using assms by (auto simp: gallery_able_def gallery_execute_def gallery_rollback_def forward_def gallery_Inr
      gallery_restore_add_Inr gallery_obs_def ignore_Inr Let_def fun_eq_iff)

lemma gallery_fails:
  "gallery_able uid a s \<Longrightarrow> dget a ''action'' = VStr n \<Longrightarrow> gallery_execute str_of uid n a s = (Inl e, t) \<Longrightarrow>
    gallery_obs t = gallery_obs s"
  by (auto simp: gallery_able_def gallery_execute_def gallery_add_def gallery_delete_def step_Inl Let_def
      putA_def dest: store_steps_fail need_fail)

interpretation gallery: undoable "gallery_write (gallery_execute str_of uid)" "gallery_able uid"
  "\<lambda>s. True" gallery_obs for str_of uid
proof unfold_locales
  fix a and s u t :: gallerydev and n v
  assume "gallery_able uid a s" "dget a ''action'' = VStr n"
    "ac_internal (gallery_write (gallery_execute str_of uid)) n a s = (Inr v, t)" "gallery_obs u = gallery_obs t"
  with gallery_undone[of uid a s n str_of v t u]
  show "\<exists>u'. adapter_rollback (gallery_write (gallery_execute str_of uid)) a
      (success_value (cd_id (ac_descriptor (gallery_write (gallery_execute str_of uid)))) v) u = (Inr (), u') \<and>
      True \<and> gallery_obs u' = gallery_obs s"
    by (auto simp: adapter_rollback_def gallery_write_def)
next
  show "gallery_able uid a s \<Longrightarrow> \<exists>n. dget a ''action'' = VStr n" for a s
    by (auto simp: gallery_able_def)
qed (auto simp: gallery_write_def dest: gallery_fails)

end
