(* ===== verification/Media_Bridge.thy ===== *)
theory Media_Bridge
  imports File_Bridge
begin

text \<open>
  Storage, media player, microphone, camera and location: the bridges of these names in
  core/android/bridge and their capabilities in core/android/capabilities. None of their writes
  can be rolled back. What the bridges promise is kept by invariants over all sequences of calls.
\<close>

section \<open>Storage\<close>

record storagedev =
  sg_total :: int
  sg_used :: int
  sg_cache :: int

definition initial_storagedev :: storagedev where
  "initial_storagedev = \<lparr>sg_total = 128000000000, sg_used = 40000000000, sg_cache = 5000000000\<rparr>"

definition storage_info :: "storagedev \<Rightarrow> pyval" where
  "storage_info s = VDict [(''total'', VInt (sg_total s)), (''used'', VInt (sg_used s)),
     (''available'', VInt (sg_total s - sg_used s)), (''cache'', VInt (sg_cache s))]"

definition storage_clear :: "storagedev \<Rightarrow> storagedev" where
  "storage_clear s = (let used = sg_used s - sg_cache s in
     s\<lparr>sg_used := if used < 0 then 0 else used, sg_cache := 0\<rparr>)"

definition storage_execute :: "string \<Rightarrow> args \<Rightarrow> (storagedev, pyval) act" where
  "storage_execute action a s =
     (if action = ''storage.info'' then (Inr (storage_info s), s)
      else if action = ''storage.format'' then (Inr success_reply, s\<lparr>sg_used := 0, sg_cache := 0\<rparr>)
      else if action = ''storage.clear_cache'' then (Inr success_reply, storage_clear s)
      else raise adapter_error (''Unsupported action: '' @ action) s)"

definition storage_read :: "'d bridge \<Rightarrow> 'd android_cap" where
  "storage_read = read_capability ''android.device.storage.read'' ''Storage Read''
     ''Reads storage capacity info.'' CatDEVICE [''storage.info'']"

definition storage_write :: "'d bridge \<Rightarrow> 'd android_cap" where
  "storage_write = irreversible_capability (write_descriptor ''android.device.storage.write''
     ''Storage Write'' ''Destructive storage operations.'' CatDEVICE SecNORMAL
     [''storage.format'', ''storage.clear_cache''])"

section \<open>Media player\<close>

record mediadev =
  md_state :: string
  md_media :: pyval

definition initial_mediadev :: mediadev where
  "initial_mediadev = \<lparr>md_state = ''stopped'', md_media = VNone\<rparr>"

definition media_reply :: "(mediadev, pyval) act" where
  "media_reply s = (Inr (VDict [(''state'', VStr (md_state s))]), s)"

definition media_play :: "args \<Rightarrow> mediadev \<Rightarrow> mediadev" where
  "media_play a s = s\<lparr>md_state := ''playing'', md_media := dget_or a ''media_id'' (md_media s)\<rparr>"

definition media_execute :: "string \<Rightarrow> args \<Rightarrow> (mediadev, pyval) act" where
  "media_execute action a s =
     (if action = ''media.status''
      then (Inr (VDict [(''state'', VStr (md_state s)), (''media'', md_media s)]), s)
      else if action = ''media.play'' then media_reply (media_play a s)
      else if action = ''media.pause''
      then media_reply (if md_state s = ''playing'' then s\<lparr>md_state := ''paused''\<rparr> else s)
      else if action = ''media.stop'' then media_reply (s\<lparr>md_state := ''stopped''\<rparr>)
      else raise adapter_error (''Unsupported action: '' @ action) s)"

definition media_read :: "'d bridge \<Rightarrow> 'd android_cap" where
  "media_read = read_capability ''android.device.media.read'' ''Media Read''
     ''Reads media playback state.'' CatDEVICE [''media.status'']"

definition media_write :: "'d bridge \<Rightarrow> 'd android_cap" where
  "media_write = irreversible_capability ((write_descriptor ''android.device.media.write''
     ''Media Write'' ''Controls media playback.'' CatDEVICE SecNORMAL
     [''media.play'', ''media.pause'', ''media.stop''])\<lparr>cd_level := NO_CONFIRMATION\<rparr>)"

section \<open>Microphone\<close>

record micdev =
  mc_status :: string
  mc_recordings :: vstore
  mc_uid :: nat

definition initial_micdev :: micdev where
  "initial_micdev = \<lparr>mc_status = ''idle'', mc_recordings = [], mc_uid = 0\<rparr>"

definition record_start :: "(micdev, pyval) act" where
  "record_start s = (if mc_status s \<noteq> ''idle'' then raise adapter_error ''Microphone is already recording'' s
     else (Inr success_reply, s\<lparr>mc_status := ''recording''\<rparr>))"

definition record_stop :: "(nat \<Rightarrow> string) \<Rightarrow> (micdev, pyval) act" where
  "record_stop uid s =
     (if mc_status s \<noteq> ''recording'' then raise adapter_error ''Microphone is not recording'' s
      else let i = VStr (short_id ''rec-'' uid (mc_uid s)) in
        seqA (putA mc_recordings_update i (VDict [(''id'', i), (''status'', VStr ''completed'')]))
          (ret (VDict [(''recording_id'', i)]))
          (s\<lparr>mc_status := ''idle'', mc_uid := Suc (mc_uid s)\<rparr>))"

definition microphone_execute :: "(nat \<Rightarrow> string) \<Rightarrow> string \<Rightarrow> args \<Rightarrow> (micdev, pyval) act" where
  "microphone_execute uid action a s =
     (if action = ''microphone.status''
      then (Inr (VDict [(''status'', VStr (mc_status s))]), s)
      else if action = ''microphone.record.start'' then record_start s
      else if action = ''microphone.record.stop'' then record_stop uid s
      else raise adapter_error (''Unsupported action: '' @ action) s)"

definition microphone_read :: "'d bridge \<Rightarrow> 'd android_cap" where
  "microphone_read = read_capability ''android.device.microphone.read'' ''Microphone Read''
     ''Reads microphone state.'' CatDEVICE [''microphone.status'']"

definition microphone_write :: "'d bridge \<Rightarrow> 'd android_cap" where
  "microphone_write = irreversible_capability (write_descriptor ''android.device.microphone.write''
     ''Microphone Write'' ''Controls microphone recording.'' CatDEVICE SecHIGH
     [''microphone.record.start'', ''microphone.record.stop''])"

section \<open>Camera\<close>

record camdev =
  cm_status :: string
  cm_media :: vstore
  cm_uid :: nat

definition initial_camdev :: camdev where
  "initial_camdev = \<lparr>cm_status = ''idle'', cm_media = [], cm_uid = 0\<rparr>"

text \<open>The status is \<open>capturing\<close> only inside the step.\<close>

definition camera_capture :: "(nat \<Rightarrow> string) \<Rightarrow> (camdev, pyval) act" where
  "camera_capture uid s = (let i = VStr (short_id ''cam-'' uid (cm_uid s)) in
     seqA (putA cm_media_update i (VDict [(''id'', i), (''type'', VStr ''photo'')]))
       (\<lambda>t. (Inr (VDict [(''media_id'', i)]), t\<lparr>cm_status := ''idle''\<rparr>))
       (s\<lparr>cm_status := ''capturing'', cm_uid := Suc (cm_uid s)\<rparr>))"

definition camera_execute :: "(nat \<Rightarrow> string) \<Rightarrow> string \<Rightarrow> args \<Rightarrow> (camdev, pyval) act" where
  "camera_execute uid action a s =
     (if action = ''camera.status'' then (Inr (VDict [(''status'', VStr (cm_status s))]), s)
      else if action = ''camera.capture'' then camera_capture uid s
      else raise adapter_error (''Unsupported action: '' @ action) s)"

definition camera_read :: "'d bridge \<Rightarrow> 'd android_cap" where
  "camera_read = read_capability ''android.device.camera.read'' ''Camera Read'' ''Reads camera state.''
     CatDEVICE [''camera.status'']"

definition camera_write :: "'d bridge \<Rightarrow> 'd android_cap" where
  "camera_write = irreversible_capability (write_descriptor ''android.device.camera.write''
     ''Camera Write'' ''Captures photos or videos.'' CatDEVICE SecHIGH [''camera.capture''])"

section \<open>Location\<close>

text \<open>The coordinates are the doubles nearest to 37.7749 and -122.4194, as \<open>m / 2 ^ e\<close>.\<close>

definition location_execute :: "string \<Rightarrow> args \<Rightarrow> ('d, pyval) act" where
  "location_execute action a =
     (if action = ''location.coarse''
      then ret (VDict [(''lat'', VFloat 332271534304605 43), (''lon'', VFloat (- 538406215061445) 42)])
      else raise (InAndroid UnsupportedPlatformError)
             (''MockLocationBridge does not support action: '' @ action))"

definition location :: "'d bridge \<Rightarrow> 'd android_cap" where
  "location bridge = \<lparr>ac_descriptor = (base_descriptor ''android.device.location.coarse''
       ''Coarse Location'' ''Reads the current coarse device location.'' CatSENSORS SecHIGH
       [''read'', ''default''])\<lparr>cd_permissions := [''ACCESS_COARSE_LOCATION'']\<rparr>,
     ac_internal = (\<lambda>n a. bridge ''location.coarse'' a), ac_supports = None, ac_rollback = None\<rparr>"

section \<open>Sequences of calls\<close>

text \<open>Running calls one after the other, whatever they return; the log has the calls and their results.\<close>

fun run_calls :: "'d bridge \<Rightarrow> (string \<times> args) list \<Rightarrow> 'd \<Rightarrow> (string \<times> (pyexn + pyval)) list \<times> 'd" where
  "run_calls b [] s = ([], s)"
| "run_calls b (c # cs) s = (case b (fst c) (snd c) s of (r, t) \<Rightarrow>
     (case run_calls b cs t of (lg, u) \<Rightarrow> ((fst c, r) # lg, u)))"

text \<open>The results of the calls of one operation that succeeded, in order.\<close>

definition answers :: "string \<Rightarrow> (string \<times> (pyexn + pyval)) list \<Rightarrow> pyval list" where
  "answers n lg = concat (map (\<lambda>(m, r). if m = n then (case r of Inr v \<Rightarrow> [v] | Inl e \<Rightarrow> []) else []) lg)"

lemma answers_simps [simp]:
  "answers n [] = []"
  "answers n ((m, r) # lg) = (if m = n then (case r of Inr v \<Rightarrow> [v] | Inl e \<Rightarrow> []) else []) @ answers n lg"
  by (simp_all add: answers_def)

lemma run_calls_inv:
  assumes "\<And>n a s. P s \<Longrightarrow> P (snd (b n a s))" "P s"
  shows "P (snd (run_calls b cs s))"
  using assms(2)
proof (induction cs arbitrary: s)
  case (Cons c cs)
  obtain r t where t: "b (fst c) (snd c) s = (r, t)" by fastforce
  with assms(1)[OF Cons.prems, of "fst c" "snd c"] have "P t" by simp
  from Cons.IH[OF this] t show ?case by (cases "run_calls b cs t") simp
qed simp

text \<open>
  Which calls succeed, by a flag that says whether it records: a start when it does not, a stop when
  it does, and asking for the status always.
\<close>

fun turns :: "bool \<Rightarrow> string list \<Rightarrow> bool list" where
  "turns on [] = []"
| "turns on (c # cs) =
     (if c = ''microphone.record.start'' then (\<not> on) # turns True cs
      else if c = ''microphone.record.stop'' then on # turns False cs
      else (c = ''microphone.status'') # turns on cs)"

text \<open>
  The book after recordings are completed under the given identifiers one after the other: an
  identifier drawn again overwrites the recording it names, in its place.
\<close>

definition first_drawn :: "string list \<Rightarrow> string list" where
  "first_drawn is = rev (remdups (rev is))"

definition recording_book :: "string list \<Rightarrow> vstore" where
  "recording_book is = map (\<lambda>i. (VStr i, VStr i, VDict [(''id'', VStr i), (''status'', VStr ''completed'')]))
     (first_drawn is)"

definition drawn :: "(nat \<Rightarrow> string) \<Rightarrow> nat \<Rightarrow> string list" where
  "drawn uid n = map (short_id ''rec-'' uid) [0..<n]"

definition mic_ok :: "(nat \<Rightarrow> string) \<Rightarrow> nat \<Rightarrow> bool \<Rightarrow> micdev \<Rightarrow> bool" where
  "mic_ok uid n on s \<longleftrightarrow> mc_status s = (if on then ''recording'' else ''idle'') \<and> mc_uid s = n \<and>
     mc_recordings s = recording_book (drawn uid n)"

lemma vs_put_new: "k \<notin> set (map fst d) \<Longrightarrow> vs_put k v x d = d @ [(k, v, x)]"
proof -
  assume k: "k \<notin> set (map fst d)"
  then have "map_of d k = None" by (simp add: map_of_eq_None_iff)
  moreover have "AList.update k y d = d @ [(k, y)]" for y using k by (simp add: update_new_key)
  ultimately show ?thesis by (simp add: vs_put_def)
qed

lemma vs_put_same: "map_of d k = Some (v, x) \<Longrightarrow> vs_put k w x d = d"
proof -
  have "map_of d k = Some y \<Longrightarrow> AList.update k y d = d" for y by (induction d) auto
  then show "map_of d k = Some (v, x) \<Longrightarrow> vs_put k w x d = d" by (simp add: vs_put_def)
qed

lemma recording_book_put:
  "vs_put (VStr i) (VStr i) (VDict [(''id'', VStr i), (''status'', VStr ''completed'')]) (recording_book is) =
   recording_book (is @ [i])"
proof (cases "i \<in> set is")
  case True
  have "map_of (map (\<lambda>i. (VStr i, VStr i, VDict [(''id'', VStr i), (''status'', VStr ''completed'')])) js)
      (VStr i) = Some (VStr i, VDict [(''id'', VStr i), (''status'', VStr ''completed'')])"
    if "i \<in> set js" for js using that by (induction js) auto
  moreover have "first_drawn (is @ [i]) = first_drawn is" using True by (simp add: first_drawn_def)
  ultimately show ?thesis
    using True by (simp add: recording_book_def vs_put_same first_drawn_def)
next
  case False
  then have "first_drawn (is @ [i]) = first_drawn is @ [i]" by (simp add: first_drawn_def)
  with False show ?thesis
    by (subst vs_put_new) (auto simp: recording_book_def first_drawn_def)
qed

text \<open>One call.\<close>

lemma mic_step:
  assumes "mic_ok uid n on s"
  shows "\<exists>r t. microphone_execute uid c a s = (r, t) \<and>
    (if c = ''microphone.record.start'' then mic_ok uid n True t \<and> isl r = on
     else if c = ''microphone.record.stop'' then
       (if on then mic_ok uid (Suc n) False t \<and>
          r = Inr (VDict [(''recording_id'', VStr (short_id ''rec-'' uid n))])
        else mic_ok uid n False t \<and> isl r)
     else mic_ok uid n on t \<and> isl r = (c \<noteq> ''microphone.status''))"
  using assms recording_book_put[of "short_id ''rec-'' uid n" "drawn uid n"]
  by (auto simp: microphone_execute_def record_start_def record_stop_def mic_ok_def act_defs putA_def
      Let_def drawn_def)

text \<open>A run from any state that fits.\<close>

lemma mic_run:
  assumes "mic_ok uid n on s" "run_calls (microphone_execute uid) cs s = (lg, t)"
  shows "map fst lg = map fst cs \<and> map (\<lambda>e. \<not> isl (snd e)) lg = turns on (map fst cs) \<and>
    (\<exists>m on'. mic_ok uid (n + m) on' t \<and>
      answers ''microphone.record.stop'' lg =
        map (\<lambda>i. VDict [(''recording_id'', VStr (short_id ''rec-'' uid i))]) [n..<n + m] \<and>
      length (answers ''microphone.record.start'' lg) + (if on then 1 else 0) =
        m + (if on' then 1 else 0))"
  using assms
proof (induction cs arbitrary: n on s lg)
  case Nil
  then show ?case by (auto intro!: exI[of _ 0])
next
  case (Cons c cs)
  let ?stops = "\<lambda>n m. map (\<lambda>i. VDict [(''recording_id'', VStr (short_id ''rec-'' uid i))]) [n..<m]"
  obtain r u where step: "microphone_execute uid (fst c) (snd c) s = (r, u)"
    and kind: "if fst c = ''microphone.record.start'' then mic_ok uid n True u \<and> isl r = on
      else if fst c = ''microphone.record.stop'' then
        (if on then mic_ok uid (Suc n) False u \<and>
           r = Inr (VDict [(''recording_id'', VStr (short_id ''rec-'' uid n))])
         else mic_ok uid n False u \<and> isl r)
      else mic_ok uid n on u \<and> isl r = (fst c \<noteq> ''microphone.status'')"
    using mic_step[OF Cons.prems(1), of "fst c" "snd c"] by blast
  obtain lg' where lg: "run_calls (microphone_execute uid) cs u = (lg', t)" "lg = (fst c, r) # lg'"
    using Cons.prems(2) step by (auto split: prod.splits)
  note IH = Cons.IH[OF _ lg(1)]
  consider "fst c = ''microphone.record.start''" | "fst c = ''microphone.record.stop''" on
    | "fst c = ''microphone.record.stop''" "\<not> on"
    | "fst c \<noteq> ''microphone.record.start''" "fst c \<noteq> ''microphone.record.stop''" by blast
  then show ?case
  proof cases
    case 1
    with kind IH[of n True] lg(2) show ?thesis by (cases r) auto
  next
    case 2
    with kind have u: "mic_ok uid (Suc n) False u"
      "r = Inr (VDict [(''recording_id'', VStr (short_id ''rec-'' uid n))])" by simp_all
    from IH[OF u(1)] obtain m on' where m: "mic_ok uid (n + Suc m) on' t"
      "answers ''microphone.record.stop'' lg' = ?stops (Suc n) (n + Suc m)"
      "length (answers ''microphone.record.start'' lg') = m + (if on' then 1 else 0)"
      "map fst lg' = map fst cs" "map (\<lambda>e. \<not> isl (snd e)) lg' = turns False (map fst cs)" by auto
    have "?stops n (n + Suc m) = VDict [(''recording_id'', VStr (short_id ''rec-'' uid n))] #
        ?stops (Suc n) (n + Suc m)"
      by (subst upt_conv_Cons) simp_all
    with 2 m u(2) lg(2) show ?thesis by (intro conjI exI[of _ "Suc m"] exI[of _ on']) simp_all
  next
    case 3
    with kind IH[of n False] lg(2) show ?thesis by (cases r) auto
  next
    case 4
    with kind IH[of n on] lg(2) show ?thesis by (cases r) auto
  qed
qed

text \<open>
  C40. Recordings alternate: after any sequence of calls to the microphone, with any arguments and
  any identifiers drawn, exactly the starts that find it idle, the stops that find it recording and
  the questions for the status have succeeded, so the successful starts are as many as the
  successful stops, or one more while it records; each successful stop returned the identifier drawn
  for it, and the book is what completing the recordings under these identifiers one after the other
  makes: all of them, in order, but for a recording whose eight hex digits are drawn again, which is
  overwritten (so all are kept exactly if no identifier repeats).
\<close>

theorem recordings_alternate:
  assumes "run_calls (microphone_execute uid) cs initial_micdev = (lg, s)"
  shows "let n = length (answers ''microphone.record.stop'' lg); on = (mc_status s = ''recording'') in
    map fst lg = map fst cs \<and> map (\<lambda>e. \<not> isl (snd e)) lg = turns False (map fst cs) \<and>
    mc_status s \<in> {''idle'', ''recording''} \<and>
    length (answers ''microphone.record.start'' lg) = n + (if on then 1 else 0) \<and>
    answers ''microphone.record.stop'' lg =
      map (\<lambda>i. VDict [(''recording_id'', VStr i)]) (drawn uid n) \<and>
    mc_recordings s = recording_book (drawn uid n) \<and>
    (length (mc_recordings s) = n \<longleftrightarrow> distinct (drawn uid n))"
proof -
  have start: "mic_ok uid 0 False initial_micdev"
    by (simp add: mic_ok_def initial_micdev_def recording_book_def first_drawn_def drawn_def)
  obtain m on where m: "mic_ok uid m on s"
    "answers ''microphone.record.stop'' lg =
      map (\<lambda>i. VDict [(''recording_id'', VStr (short_id ''rec-'' uid i))]) [0..<m]"
    "length (answers ''microphone.record.start'' lg) = m + (if on then 1 else 0)"
    using mic_run[OF start assms] by auto
  have "length (recording_book is) = length is \<longleftrightarrow> distinct is" for "is"
    using length_remdups_eq[of "rev is"] remdups_id_iff_distinct[of "rev is"]
    by (simp add: recording_book_def first_drawn_def)
  from this[of "drawn uid m"] m mic_run[OF start assms] show ?thesis
    by (auto simp: Let_def mic_ok_def drawn_def)
qed

text \<open>Three recordings, the last under the identifier of the first: two are left.\<close>

theorem recordings_alternate_witness:
  "\<exists>lg s. run_calls (microphone_execute (\<lambda>n. if n = 1 then ''b'' else ''a''))
       (concat (replicate 3 [(''microphone.record.start'', []), (''microphone.record.stop'', []),
         (''microphone.record.stop'', [])])) initial_micdev = (lg, s) \<and>
     map (\<lambda>e. \<not> isl (snd e)) lg = [True, True, False, True, True, False, True, True, False] \<and>
     map fst (mc_recordings s) = [VStr ''rec-a'', VStr ''rec-b'']"
proof -
  let ?uid = "\<lambda>n::nat. if n = 1 then ''b'' else ''a''"
  let ?cs = "concat (replicate 3 [(''microphone.record.start'', []), (''microphone.record.stop'', []),
     (''microphone.record.stop'', [])]) :: (string \<times> args) list"
  obtain lg s where run: "run_calls (microphone_execute ?uid) ?cs initial_micdev = (lg, s)" by fastforce
  note all = recordings_alternate[OF run, unfolded Let_def]
  have oks: "map (\<lambda>e. \<not> isl (snd e)) lg = [True, True, False, True, True, False, True, True, False]"
    using all by (simp add: eval_nat_numeral)
  have "length (answers ''microphone.record.stop'' lg) = 3"
    using run by (auto simp: eval_nat_numeral microphone_execute_def record_start_def record_stop_def
        act_defs putA_def initial_micdev_def Let_def success_reply_def split: prod.splits)
  with all have "mc_recordings s = recording_book (drawn ?uid 3)" by simp
  then have "map fst (mc_recordings s) = [VStr ''rec-a'', VStr ''rec-b'']"
    by (simp add: recording_book_def first_drawn_def drawn_def short_id_def uuid_hex_def eval_nat_numeral)
  with run oks show ?thesis by (intro exI conjI)
qed

section \<open>Storage stays within its size\<close>

definition storage_ok :: "storagedev \<Rightarrow> bool" where
  "storage_ok s \<longleftrightarrow> 0 \<le> sg_used s \<and> sg_used s \<le> sg_total s \<and> 0 \<le> sg_cache s"

lemma storage_kept: "storage_ok s \<Longrightarrow> storage_ok (snd (storage_execute n a s))"
  by (auto simp: storage_execute_def storage_clear_def storage_ok_def Let_def raise_def)

lemma storage_bounds: "storage_ok (snd (run_calls storage_execute cs initial_storagedev))"
  by (rule run_calls_inv[where P = storage_ok and b = storage_execute, OF storage_kept])
    (simp_all add: storage_ok_def initial_storagedev_def)

end
