(* ===== verification/Comm_Bridge.thy ===== *)
theory Comm_Bridge
  imports Value_Store
begin

text \<open>
  Communication: phone calls, messages and contacts (core/android/bridge/telephony.py),
  notifications (core/android/bridge/notification.py), and their capabilities in
  core/android/capabilities (call, sms, contacts, notification). A dictionary value has string
  keys, so the snapshot of the active notifications shows other keys, which no bridge creates, by
  their text.
\<close>

abbreviation value_error :: exn_class where
  "value_error \<equiv> Py PyValueError"

definition not_supported :: "string \<Rightarrow> string \<Rightarrow> ('s, 'a) act" where
  "not_supported bridge action = raise (InAndroid UnsupportedPlatformError)
     (bridge @ '' does not support action: '' @ action)"

text \<open>\<open>(args.get("query") or "").lower()\<close>.\<close>

definition query_text :: "args \<Rightarrow> ('s, string) act" where
  "query_text a = (let q = dget a ''query'' in if truthy q then liftA (lowered q) else ret [])"

text \<open>\<open>[x.copy() for x in d.values()]\<close>, and with a condition that may raise.\<close>

primrec copies :: "pyval list \<Rightarrow> pyexn + pyval list" where
  "copies [] = Inr []"
| "copies (x # xs) = (case copied x of
     Inl e \<Rightarrow> Inl e
   | Inr y \<Rightarrow> (case copies xs of Inl e \<Rightarrow> Inl e | Inr ys \<Rightarrow> Inr (y # ys)))"

primrec copies_where :: "(pyval \<Rightarrow> pyexn + bool) \<Rightarrow> pyval list \<Rightarrow> pyexn + pyval list" where
  "copies_where p [] = Inr []"
| "copies_where p (x # xs) = (case p x of
     Inl e \<Rightarrow> Inl e
   | Inr b \<Rightarrow> (case if b then map_sum id (\<lambda>y. [y]) (copied x) else Inr [] of
       Inl e \<Rightarrow> Inl e
     | Inr y \<Rightarrow> (case copies_where p xs of Inl e \<Rightarrow> Inl e | Inr ys \<Rightarrow> Inr (y @ ys))))"

text \<open>A record stored under an identifier that must be there (and not be empty).\<close>

definition the_record ::
  "('s \<Rightarrow> vstore) \<Rightarrow> string \<Rightarrow> pyval \<Rightarrow> ('s, pyval) act" where
  "the_record get missing i = bindA (lookA get i) (\<lambda>x. case x of
     None \<Rightarrow> raise value_error missing
   | Some v \<Rightarrow> if truthy v then ret v else raise value_error missing)"

section \<open>Phone calls\<close>

record calldev =
  cl_status :: string
  cl_number :: pyval
  cl_history :: "pyval list"

definition initial_calldev :: calldev where
  "initial_calldev = \<lparr>cl_status = ''idle'', cl_number = VNone, cl_history = []\<rparr>"

definition call_state :: "calldev \<Rightarrow> args" where
  "call_state s = [(''status'', VStr (cl_status s)), (''number'', cl_number s)]"

definition call_event :: "string \<Rightarrow> pyval \<Rightarrow> pyval" where
  "call_event e n = VDict [(''event'', VStr e), (''number'', n)]"

definition call_place :: "args \<Rightarrow> (calldev, pyval) act" where
  "call_place a s = (let n = dget a ''number'' in
     if \<not> truthy n then raise value_error ''telephony.phone.call requires 'number' argument.'' s
     else let t = s\<lparr>cl_status := ''active'', cl_number := n,
                    cl_history := cl_history s @ [call_event ''call'' n]\<rparr>
          in (Inr (VDict (call_state t @ [(''pre_state'', VDict (call_state s))])), t))"

text \<open>Ending and rejecting differ in the event and in the status they leave.\<close>

definition call_close :: "string \<Rightarrow> string \<Rightarrow> (calldev, pyval) act" where
  "call_close event status s =
     (Inr (VDict [(''status'', VStr status), (''pre_state'', VDict (call_state s))]),
      s\<lparr>cl_history := cl_history s @ [call_event event (cl_number s)], cl_status := status,
        cl_number := VNone\<rparr>)"

definition call_execute :: "string \<Rightarrow> args \<Rightarrow> (calldev, pyval) act" where
  "call_execute action a s =
     (if action = ''telephony.phone.status'' then (Inr (VDict (call_state s)), s)
      else if action = ''telephony.phone.call'' then call_place a s
      else if action = ''telephony.phone.end'' then call_close ''end'' ''ended'' s
      else if action = ''telephony.phone.reject'' then call_close ''reject'' ''idle'' s
      else not_supported ''MockCallBridge'' action s)"

definition phone_read :: "'d bridge \<Rightarrow> 'd android_cap" where
  "phone_read = read_capability ''android.communication.phone.read'' ''Phone Status''
     ''Reads current phone call state.'' CatCOMMUNICATION [''telephony.phone.status'']"

text \<open>The source lists a frozen set, whose order is not fixed.\<close>

definition phone_write :: "'d bridge \<Rightarrow> 'd android_cap" where
  "phone_write = irreversible_capability ((write_descriptor ''android.communication.phone.write''
     ''Phone Call Control'' ''Places, ends, or rejects phone calls. All actions are irreversible.''
     CatCOMMUNICATION SecHIGH
     [''telephony.phone.call'', ''telephony.phone.end'', ''telephony.phone.reject''])
     \<lparr>cd_permissions := [''CALL_PHONE'', ''ANSWER_PHONE_CALLS'']\<rparr>)"

section \<open>Messages\<close>

record smsdev =
  sm_inbox :: vstore
  sm_sent :: "pyval list"
  sm_deleted :: vstore
  sm_uid :: nat

definition sms_message :: "string \<Rightarrow> string \<Rightarrow> string \<Rightarrow> pyval \<times> pyval \<times> pyval" where
  "sms_message i n b = (VStr i, VStr i,
     VDict [(''id'', VStr i), (''from'', VStr n), (''body'', VStr b)])"

definition initial_smsdev :: smsdev where
  "initial_smsdev = \<lparr>sm_inbox = [sms_message ''msg-001'' ''+1111111111'' ''Hello from IRA test'',
      sms_message ''msg-002'' ''+2222222222'' ''Test message 2''],
    sm_sent = [], sm_deleted = [], sm_uid = 0\<rparr>"

definition sms_read :: "(pyval \<Rightarrow> string) \<Rightarrow> args \<Rightarrow> (smsdev, pyval) act" where
  "sms_read str_of a = (let i = dget a ''message_id'' in
     if truthy i
     then bindA (the_record sm_inbox (''Message '' @ quoted (str_of i) @ '' not found.'') i)
            (\<lambda>m. liftA (copied m))
     else (\<lambda>s. (map_sum id VList (copies (stored_values (sm_inbox s))), s)))"

definition sms_matches :: "string \<Rightarrow> pyval \<Rightarrow> pyexn + bool" where
  "sms_matches q m = (case py_item m ''body'' of
     Inl e \<Rightarrow> Inl e | Inr b \<Rightarrow> map_sum id (contains q) (lowered b))"

definition sms_search :: "args \<Rightarrow> (smsdev, pyval) act" where
  "sms_search a = bindA (query_text a) (\<lambda>q s.
     (map_sum id VList (copies_where (sms_matches q) (stored_values (sm_inbox s))), s))"

definition sms_send :: "(nat \<Rightarrow> string) \<Rightarrow> args \<Rightarrow> (smsdev, pyval) act" where
  "sms_send uid a s = (let n = dget a ''number''; b = dget a ''body'' in
     if \<not> truthy n \<or> \<not> truthy b
     then raise value_error ''telephony.sms.send requires 'number' and 'body'.'' s
     else let m = VDict [(''id'', VStr (uid (sm_uid s))), (''to'', n), (''body'', b)]
          in (Inr (VDict [(''sent'', VBool True), (''message'', m)]),
              s\<lparr>sm_sent := sm_sent s @ [m], sm_uid := Suc (sm_uid s)\<rparr>))"

definition sms_delete :: "(pyval \<Rightarrow> string) \<Rightarrow> args \<Rightarrow> (smsdev, pyval) act" where
  "sms_delete str_of a = (let i = dget a ''message_id'' in
     seqA (need value_error (truthy i) ''telephony.sms.delete requires 'message_id'.'')
     (bindA (the_record sm_inbox (''Message '' @ quoted (str_of i) @ '' not found in inbox.'') i) (\<lambda>m.
      bindA (liftA (copied m)) (\<lambda>pre_state.
      seqA (popA str_of sm_inbox sm_inbox_update i)
      (seqA (putA sm_deleted_update i pre_state)
        (ret (VDict [(''deleted'', VBool True), (''message_id'', i), (''pre_state'', pre_state)])))))))"

text \<open>\<open>if i in d: del d[i]\<close>.\<close>

definition drop_if ::
  "(pyval \<Rightarrow> string) \<Rightarrow> ('s \<Rightarrow> vstore) \<Rightarrow> ((vstore \<Rightarrow> vstore) \<Rightarrow> 's \<Rightarrow> 's) \<Rightarrow> pyval \<Rightarrow> ('s, unit) act" where
  "drop_if str_of get upd i = bindA (lookA get i) (\<lambda>x.
     if x = None then ret () else ignore_result (popA str_of get upd i))"

definition sms_restore :: "(pyval \<Rightarrow> string) \<Rightarrow> args \<Rightarrow> (smsdev, pyval) act" where
  "sms_restore str_of a = (let i = dget a ''message_id''; m = dget a ''message'' in
     seqA (if truthy i \<and> truthy m
       then bindA (liftA (copied m)) (\<lambda>x.
         seqA (putA sm_inbox_update i x) (drop_if str_of sm_deleted sm_deleted_update i))
       else ret ())
     (ret (VDict [(''restored'', VBool True), (''message_id'', i)])))"

definition sms_execute ::
  "(pyval \<Rightarrow> string) \<Rightarrow> (nat \<Rightarrow> string) \<Rightarrow> string \<Rightarrow> args \<Rightarrow> (smsdev, pyval) act" where
  "sms_execute str_of uid action a =
     (if action = ''telephony.sms.read'' then sms_read str_of a
      else if action = ''telephony.sms.search'' then sms_search a
      else if action = ''telephony.sms.send'' then sms_send uid a
      else if action = ''telephony.sms.delete'' then sms_delete str_of a
      else if action = ''telephony.sms.restore'' then sms_restore str_of a
      else not_supported ''MockSMSBridge'' action)"

definition sms_reader :: "'d bridge \<Rightarrow> 'd android_cap" where
  "sms_reader = read_capability ''android.communication.sms.read'' ''SMS Read''
     ''Reads and searches the SMS inbox.'' CatCOMMUNICATION [''telephony.sms.read'', ''telephony.sms.search'']"

text \<open>The snapshot is read with \<open>get\<close>, from the data of the result or from the result itself.\<close>

definition sms_rollback :: "'d bridge \<Rightarrow> args \<Rightarrow> pyval \<Rightarrow> ('d, unit) act" where
  "sms_rollback bridge a original =
     (if dget a ''action'' = VStr ''telephony.sms.delete''
      then bindA (liftA (case attr original ''data'' of
            Some d \<Rightarrow> py_get d ''pre_state'' VNone
          | None \<Rightarrow> (case original of VDict d \<Rightarrow> Inr (dget d ''pre_state'') | _ \<Rightarrow> Inr VNone)))
        (\<lambda>pre. if truthy pre
          then bindA (liftA (py_item pre ''id'')) (\<lambda>i.
            ignore_result (bridge ''telephony.sms.restore'' [(''message_id'', i), (''message'', pre)]))
          else ret ())
      else ret ())"

definition sms_writer :: "'d bridge \<Rightarrow> 'd android_cap" where
  "sms_writer bridge = \<lparr>ac_descriptor = (write_descriptor ''android.communication.sms.write'' ''SMS Write''
       ''Sends or deletes SMS messages. Delete is reversible; send is not.'' CatCOMMUNICATION SecHIGH
       [''telephony.sms.send'', ''telephony.sms.delete''])\<lparr>cd_permissions := [''SEND_SMS'', ''READ_SMS'']\<rparr>,
     ac_internal = bridge, ac_supports = Some (action_in [''telephony.sms.delete'']),
     ac_rollback = Some (sms_rollback bridge)\<rparr>"

section \<open>Contacts\<close>

record contactdev =
  ct_contacts :: vstore
  ct_uid :: nat

definition contact_entry :: "string \<Rightarrow> string \<Rightarrow> string \<Rightarrow> pyval \<times> pyval \<times> pyval" where
  "contact_entry i n p = (VStr i, VStr i,
     VDict [(''id'', VStr i), (''name'', VStr n), (''number'', VStr p)])"

definition initial_contactdev :: contactdev where
  "initial_contactdev = \<lparr>ct_contacts = [contact_entry ''c-001'' ''Alice'' ''+1000000001'',
     contact_entry ''c-002'' ''Bob'' ''+1000000002''], ct_uid = 0\<rparr>"

definition contact_missing :: "(pyval \<Rightarrow> string) \<Rightarrow> pyval \<Rightarrow> string" where
  "contact_missing str_of i = ''Contact '' @ quoted (str_of i) @ '' not found.''"

definition contacts_read :: "(pyval \<Rightarrow> string) \<Rightarrow> args \<Rightarrow> (contactdev, pyval) act" where
  "contacts_read str_of a = (let i = dget a ''contact_id'' in
     if truthy i
     then bindA (the_record ct_contacts (contact_missing str_of i) i) (\<lambda>c. liftA (copied c))
     else (\<lambda>s. (map_sum id VList (copies (stored_values (ct_contacts s))), s)))"

text \<open>The name is compared in lower case, the number as it is and only if the name does not match.\<close>

definition contact_matches :: "string \<Rightarrow> pyval \<Rightarrow> pyexn + bool" where
  "contact_matches q c = (case py_item c ''name'' of
     Inl e \<Rightarrow> Inl e
   | Inr n \<Rightarrow> (case lowered n of
       Inl e \<Rightarrow> Inl e
     | Inr l \<Rightarrow> if contains q l then Inr True
         else (case py_item c ''number'' of Inl e \<Rightarrow> Inl e | Inr p \<Rightarrow> py_contains p q)))"

definition contacts_search :: "args \<Rightarrow> (contactdev, pyval) act" where
  "contacts_search a = bindA (query_text a) (\<lambda>q s.
     (map_sum id VList (copies_where (contact_matches q) (stored_values (ct_contacts s))), s))"

definition contact_create :: "(nat \<Rightarrow> string) \<Rightarrow> args \<Rightarrow> (contactdev, pyval) act" where
  "contact_create uid a = (let n = dget a ''name''; p = dget a ''number'' in
     seqA (need value_error (truthy n \<and> truthy p) ''telephony.contacts.create requires 'name' and 'number'.'')
     (\<lambda>s. let i = VStr (uid (ct_uid s)); c = VDict [(''id'', i), (''name'', n), (''number'', p)] in
       seqA (putA ct_contacts_update i c)
         (ret (VDict [(''created'', VBool True), (''contact'', c), (''contact_id'', i)]))
         (s\<lparr>ct_uid := Suc (ct_uid s)\<rparr>)))"

text \<open>\<open>if k in args: updated[k] = args[k]\<close>.\<close>

definition take_arg :: "string \<Rightarrow> args \<Rightarrow> pyval \<Rightarrow> pyexn + pyval" where
  "take_arg k a v = (case map_of a k of None \<Rightarrow> Inr v | Some x \<Rightarrow> with_item k x v)"

definition contact_update :: "(pyval \<Rightarrow> string) \<Rightarrow> args \<Rightarrow> (contactdev, pyval) act" where
  "contact_update str_of a = (let i = dget a ''contact_id'' in
     seqA (need value_error (truthy i) ''telephony.contacts.update requires 'contact_id'.'')
     (bindA (the_record ct_contacts (contact_missing str_of i) i) (\<lambda>c.
      bindA (liftA (copied c)) (\<lambda>pre_state.
      bindA (liftA (take_arg ''name'' a pre_state)) (\<lambda>named.
      bindA (liftA (take_arg ''number'' a named)) (\<lambda>updated.
      seqA (putA ct_contacts_update i updated)
        (ret (VDict [(''updated'', VBool True), (''contact'', updated), (''pre_state'', pre_state)]))))))))"

definition contact_delete :: "(pyval \<Rightarrow> string) \<Rightarrow> args \<Rightarrow> (contactdev, pyval) act" where
  "contact_delete str_of a = (let i = dget a ''contact_id'' in
     seqA (need value_error (truthy i) ''telephony.contacts.delete requires 'contact_id'.'')
     (bindA (the_record ct_contacts (contact_missing str_of i) i) (\<lambda>c.
      bindA (liftA (copied c)) (\<lambda>pre_state.
      seqA (popA str_of ct_contacts ct_contacts_update i)
        (ret (VDict [(''deleted'', VBool True), (''contact_id'', i), (''pre_state'', pre_state)]))))))"

definition contact_restore :: "args \<Rightarrow> (contactdev, pyval) act" where
  "contact_restore a = (let c = dget a ''contact'' in
     seqA (if truthy c
       then bindA (liftA (copied c)) (\<lambda>x. bindA (liftA (py_item c ''id'')) (\<lambda>i. putA ct_contacts_update i x))
       else ret ())
     (ret (VDict [(''restored'', VBool True)])))"

definition contact_remove :: "(pyval \<Rightarrow> string) \<Rightarrow> args \<Rightarrow> (contactdev, pyval) act" where
  "contact_remove str_of a = (let i = dget a ''contact_id'' in
     seqA (if truthy i then drop_if str_of ct_contacts ct_contacts_update i else ret ())
     (ret (VDict [(''removed'', VBool True), (''contact_id'', i)])))"

definition contacts_execute ::
  "(pyval \<Rightarrow> string) \<Rightarrow> (nat \<Rightarrow> string) \<Rightarrow> string \<Rightarrow> args \<Rightarrow> (contactdev, pyval) act" where
  "contacts_execute str_of uid action a =
     (if action = ''telephony.contacts.read'' then contacts_read str_of a
      else if action = ''telephony.contacts.search'' then contacts_search a
      else if action = ''telephony.contacts.create'' then contact_create uid a
      else if action = ''telephony.contacts.update'' then contact_update str_of a
      else if action = ''telephony.contacts.delete'' then contact_delete str_of a
      else if action = ''telephony.contacts.restore'' then contact_restore a
      else if action = ''telephony.contacts.remove'' then contact_remove str_of a
      else not_supported ''MockContactsBridge'' action)"

definition contact_mutating :: "string list" where
  "contact_mutating = [''telephony.contacts.create'', ''telephony.contacts.update'',
     ''telephony.contacts.delete'']"

definition contacts_reader :: "'d bridge \<Rightarrow> 'd android_cap" where
  "contacts_reader = read_capability ''android.communication.contacts.read'' ''Contacts Read''
     ''Reads and searches the contact book.'' CatCOMMUNICATION
     [''telephony.contacts.read'', ''telephony.contacts.search'']"

definition contacts_rollback :: "'d bridge \<Rightarrow> args \<Rightarrow> pyval \<Rightarrow> ('d, unit) act" where
  "contacts_rollback bridge a original = (let action = dget a ''action''; data = rollback_data original in
     if \<not> truthy data then ret ()
     else if action = VStr ''telephony.contacts.create''
     then forward bridge ''telephony.contacts.remove'' [(''contact_id'', ''contact_id'')] data
     else if action = VStr ''telephony.contacts.update''
     then forward bridge ''telephony.contacts.restore'' [(''contact'', ''pre_state'')] data
     else if action = VStr ''telephony.contacts.delete''
     then forward bridge ''telephony.contacts.restore'' [(''contact'', ''pre_state'')] data
     else ret ())"

definition contacts_writer :: "'d bridge \<Rightarrow> 'd android_cap" where
  "contacts_writer bridge = \<lparr>ac_descriptor = (write_descriptor ''android.communication.contacts.write''
       ''Contacts Write'' ''Creates, updates, or deletes contacts. All actions are reversible.''
       CatCOMMUNICATION SecNORMAL contact_mutating)\<lparr>cd_permissions := [''READ_CONTACTS'', ''WRITE_CONTACTS'']\<rparr>,
     ac_internal = bridge, ac_supports = Some (supports_actions contact_mutating),
     ac_rollback = Some (contacts_rollback bridge)\<rparr>"

section \<open>Notifications\<close>

record notifdev =
  nt_active :: vstore
  nt_dismissed :: vstore
  nt_snapshot :: "args option"

definition notification_entry :: "string \<Rightarrow> string \<Rightarrow> string \<Rightarrow> string \<Rightarrow> pyval \<times> pyval \<times> pyval" where
  "notification_entry i app title msg = (VStr i, VStr i, VDict [(''id'', VStr i), (''app'', VStr app),
     (''title'', VStr title), (''body'', VStr msg)])"

definition initial_notifdev :: notifdev where
  "initial_notifdev = \<lparr>nt_active = [
      notification_entry ''n-001'' ''com.ira.test'' ''IRA Test'' ''Hello'',
      notification_entry ''n-002'' ''com.ira.sms'' ''New SMS'' ''From +123'',
      notification_entry ''n-003'' ''com.ira.call'' ''Missed call'' ''+456''],
    nt_dismissed = [], nt_snapshot = None\<rparr>"

definition notification_dismiss :: "(pyval \<Rightarrow> string) \<Rightarrow> args \<Rightarrow> (notifdev, pyval) act" where
  "notification_dismiss str_of a = (let i = dget a ''notification_id'' in
     seqA (need value_error (truthy i) ''notification.dismiss requires 'notification_id'.'')
     (bindA (the_record nt_active (''Notification '' @ quoted (str_of i) @ '' not found.'') i) (\<lambda>n.
      bindA (liftA (copied n)) (\<lambda>pre_state.
      seqA (popA str_of nt_active nt_active_update i)
      (seqA (putA nt_dismissed_update i pre_state)
        (ret (VDict [(''dismissed'', VBool True), (''notification_id'', i), (''pre_state'', pre_state)])))))))"

definition key_text :: "(pyval \<Rightarrow> string) \<Rightarrow> pyval \<Rightarrow> string" where
  "key_text str_of k = (case k of VStr s \<Rightarrow> s | _ \<Rightarrow> str_of k)"

definition notification_clear :: "(pyval \<Rightarrow> string) \<Rightarrow> (notifdev, pyval) act" where
  "notification_clear str_of s = (case copies (stored_values (nt_active s)) of
     Inl e \<Rightarrow> (Inl e, s)
   | Inr xs \<Rightarrow> let pre_state = zip (map (key_text str_of) (shown_keys (nt_active s))) xs in
       (Inr (VDict [(''cleared'', VBool True), (''count'', VInt (int (length pre_state))),
          (''pre_state'', VDict pre_state)]),
        s\<lparr>nt_snapshot := Some pre_state, nt_active := []\<rparr>))"

definition notification_reply :: "args \<Rightarrow> (notifdev, pyval) act" where
  "notification_reply a = (let i = dget a ''notification_id''; t = dget a ''text'' in
     if \<not> truthy i \<or> \<not> truthy t
     then raise value_error ''notification.reply requires 'notification_id' and 'text'.''
     else ret (VDict [(''replied'', VBool True), (''notification_id'', i), (''text'', t)]))"

definition restored_reply :: pyval where
  "restored_reply = VDict [(''restored'', VBool True)]"

definition restore_dismissed :: "(pyval \<Rightarrow> string) \<Rightarrow> args \<Rightarrow> (notifdev, pyval) act" where
  "restore_dismissed str_of a = (let n = dget a ''notification'' in
     seqA (if truthy n
       then bindA (liftA (py_item n ''id'')) (\<lambda>i. bindA (liftA (copied n)) (\<lambda>x.
         seqA (putA nt_active_update i x) (drop_if str_of nt_dismissed nt_dismissed_update i)))
       else ret ())
     (ret restored_reply))"

definition restore_all :: "args \<Rightarrow> (notifdev, pyval) act" where
  "restore_all a = (let p = dget a ''snapshot'' in
     seqA (if truthy p
       then case p of
           VDict d \<Rightarrow> bindA (liftA (copies (map snd d))) (\<lambda>xs s.
             (Inr (), s\<lparr>nt_active := map (\<lambda>(k, x). (VStr k, VStr k, x)) (zip (map fst d) xs)\<rparr>))
         | _ \<Rightarrow> liftA (Inl (no_attribute ''items''))
       else ret ())
     (ret restored_reply))"

definition notification_execute :: "(pyval \<Rightarrow> string) \<Rightarrow> string \<Rightarrow> args \<Rightarrow> (notifdev, pyval) act" where
  "notification_execute str_of action a =
     (if action = ''notification.read''
      then \<lambda>s. (map_sum id VList (copies (stored_values (nt_active s))), s)
      else if action = ''notification.dismiss'' then notification_dismiss str_of a
      else if action = ''notification.clear'' then notification_clear str_of
      else if action = ''notification.reply'' then notification_reply a
      else if action = ''notification.restore_dismissed'' then restore_dismissed str_of a
      else if action = ''notification.restore_all'' then restore_all a
      else not_supported ''MockNotificationBridge'' action)"

definition notification_reversible :: "string list" where
  "notification_reversible = [''notification.dismiss'', ''notification.clear'']"

definition notification_reader :: "'d bridge \<Rightarrow> 'd android_cap" where
  "notification_reader = read_capability ''android.communication.notification.read'' ''Notification Read''
     ''Reads active notifications.'' CatCOMMUNICATION [''notification.read'']"

definition notification_rollback :: "'d bridge \<Rightarrow> args \<Rightarrow> pyval \<Rightarrow> ('d, unit) act" where
  "notification_rollback bridge a original = (let action = dget a ''action''; data = rollback_data original in
     if \<not> truthy data then ret ()
     else if action = VStr ''notification.dismiss''
     then forward bridge ''notification.restore_dismissed'' [(''notification'', ''pre_state'')] data
     else if action = VStr ''notification.clear''
     then forward bridge ''notification.restore_all'' [(''snapshot'', ''pre_state'')] data
     else ret ())"

definition notification_writer :: "'d bridge \<Rightarrow> 'd android_cap" where
  "notification_writer bridge = \<lparr>ac_descriptor = (write_descriptor
       ''android.communication.notification.write'' ''Notification Control''
       ''Dismisses or clears notifications. Both actions are reversible.'' CatCOMMUNICATION SecNORMAL
       notification_reversible)\<lparr>cd_level := NO_CONFIRMATION\<rparr>,
     ac_internal = bridge, ac_supports = Some (supports_actions notification_reversible),
     ac_rollback = Some (notification_rollback bridge)\<rparr>"

definition notification_replier :: "'d bridge \<Rightarrow> 'd android_cap" where
  "notification_replier = irreversible_capability (write_descriptor
     ''android.communication.notification.reply'' ''Notification Reply''
     ''Replies to a notification. This action is irreversible.'' CatCOMMUNICATION SecHIGH
     [''notification.reply''])"

section \<open>What searching the contacts returns\<close>

text \<open>
  What the search is to find, whatever is stored: a contact with a text as its name which has the
  query in it in lower case, or whose number has the query in it (a text as a part, a list as an
  element, a dictionary as a key).
\<close>

definition part_of :: "string \<Rightarrow> string \<Rightarrow> bool" where
  "part_of q t \<longleftrightarrow> (\<exists>u v. t = u @ q @ v)"

fun number_has :: "string \<Rightarrow> pyval \<Rightarrow> bool" where
  "number_has q (VStr p) = part_of q p"
| "number_has q (VList xs) = (VStr q \<in> set xs)"
| "number_has q (VDict d) = (q \<in> fst ` set d)"
| "number_has q v = False"

definition name_hit :: "string \<Rightarrow> pyval \<Rightarrow> bool" where
  "name_hit q c \<longleftrightarrow> (\<exists>d n. c = VDict d \<and> map_of d ''name'' = Some (VStr n) \<and> part_of q (lower n))"

definition contact_hit :: "string \<Rightarrow> pyval \<Rightarrow> bool" where
  "contact_hit q c \<longleftrightarrow> name_hit q c \<or>
     (\<exists>d n p. c = VDict d \<and> map_of d ''name'' = Some (VStr n) \<and> map_of d ''number'' = Some p \<and>
        number_has q p)"

text \<open>
  What the search breaks on: an entry that is no dictionary, one without a name, a name that is no
  text, and, only where the name does not match, a missing number or one that holds nothing (a
  number, a Boolean, \<open>None\<close>).
\<close>

inductive contact_breaks :: "string \<Rightarrow> pyval \<Rightarrow> exn_class \<Rightarrow> bool" for q where
  no_dict: "(\<And>d. c \<noteq> VDict d) \<Longrightarrow> contact_breaks q c (Py PyTypeError)"
| no_name: "map_of d ''name'' = None \<Longrightarrow> contact_breaks q (VDict d) (Py PyKeyError)"
| odd_name: "map_of d ''name'' = Some n \<Longrightarrow> (\<And>t. n \<noteq> VStr t) \<Longrightarrow>
    contact_breaks q (VDict d) (Py PyAttributeError)"
| no_number: "map_of d ''name'' = Some (VStr n) \<Longrightarrow> \<not> part_of q (lower n) \<Longrightarrow>
    map_of d ''number'' = None \<Longrightarrow> contact_breaks q (VDict d) (Py PyKeyError)"
| odd_number: "map_of d ''name'' = Some (VStr n) \<Longrightarrow> \<not> part_of q (lower n) \<Longrightarrow>
    map_of d ''number'' = Some p \<Longrightarrow> (\<And>t. p \<noteq> VStr t) \<Longrightarrow> (\<And>xs. p \<noteq> VList xs) \<Longrightarrow>
    (\<And>e. p \<noteq> VDict e) \<Longrightarrow> contact_breaks q (VDict d) (Py PyTypeError)"

inductive_simps contact_breaks_dict: "contact_breaks q (VDict d) x"

lemma is_prefix_split: "is_prefix p t \<Longrightarrow> \<exists>v. t = p @ v"
  by (induction p t rule: is_prefix.induct) auto

lemma part_of_contains: "part_of q t \<longleftrightarrow> contains q t"
proof
  show "part_of q t \<Longrightarrow> contains q t" by (auto simp: part_of_def)
next
  show "contains q t \<Longrightarrow> part_of q t"
  proof (induction t)
    case Nil
    then show ?case by (simp add: part_of_def)
  next
    case (Cons c t)
    show ?case
    proof (cases "is_prefix q (c # t)")
      case True
      then obtain v where "c # t = [] @ q @ v" using is_prefix_split by fastforce
      then show ?thesis unfolding part_of_def by blast
    next
      case False
      with Cons obtain u v where "c # t = (c # u) @ q @ v" by (auto simp: part_of_def)
      then show ?thesis unfolding part_of_def by blast
    qed
  qed
qed

lemma contact_verdict:
  "if \<exists>x. contact_breaks q c x
   then \<exists>e. contact_matches q c = Inl e \<and> contact_breaks q c (exn_cls e)
   else contact_matches q c = Inr (contact_hit q c) \<and> copied c = Inr c"
proof (cases c)
  case (VDict d)
  show ?thesis
  proof (cases "map_of d ''name''")
    case None
    then show ?thesis by (auto simp: VDict contact_breaks_dict contact_matches_def)
  next
    case (Some n)
    show ?thesis
    proof (cases "\<exists>t. n = VStr t")
      case False
      with Some show ?thesis
        by (cases n) (auto simp: VDict contact_breaks_dict contact_matches_def no_attribute_def)
    next
      case True
      then obtain t where t: "map_of d ''name'' = Some (VStr t)" using Some by blast
      show ?thesis
      proof (cases "map_of d ''number''")
        case None
        with t show ?thesis
          by (auto simp: VDict contact_breaks_dict contact_matches_def contact_hit_def name_hit_def
            part_of_contains)
      next
        case (Some p)
        with t show ?thesis
          by (cases p) (auto simp: VDict contact_breaks_dict contact_matches_def contact_hit_def
            name_hit_def part_of_contains has_key_def map_of_eq_None_iff)
      qed
    qed
  qed
qed (auto simp: contact_breaks.simps contact_matches_def)

lemma copies_where_book:
  "case find (\<lambda>c. \<exists>x. contact_breaks q c x) cs of
     Some c \<Rightarrow> \<exists>e. copies_where (contact_matches q) cs = Inl e \<and> contact_breaks q c (exn_cls e)
   | None \<Rightarrow> copies_where (contact_matches q) cs = Inr (filter (contact_hit q) cs)"
proof (induction cs)
  case (Cons c cs)
  note C = contact_verdict[of q c]
  show ?case
  proof (cases "\<exists>x. contact_breaks q c x")
    case True
    then have "find (\<lambda>c. \<exists>x. contact_breaks q c x) (c # cs) = Some c" by simp
    with C True show ?thesis by auto
  next
    case False
    then have "find (\<lambda>c. \<exists>x. contact_breaks q c x) (c # cs) = find (\<lambda>c. \<exists>x. contact_breaks q c x) cs"
      by auto
    moreover have "contact_matches q c = Inr (contact_hit q c)" "copied c = Inr c"
      using C False by simp_all
    ultimately show ?thesis
      using Cons.IH False by (cases "find (\<lambda>c. \<exists>x. contact_breaks q c x) cs") auto
  qed
qed simp

text \<open>The answer to a search for a text already in lower case.\<close>

definition search_answers :: "string \<Rightarrow> args \<Rightarrow> contactdev \<Rightarrow> bool" where
  "search_answers q a s \<longleftrightarrow> (let cs = stored_values (ct_contacts s) in
     case find (\<lambda>c. \<exists>x. contact_breaks q c x) cs of
       Some c \<Rightarrow> \<exists>e. contacts_search a s = (Inl e, s) \<and> contact_breaks q c (exn_cls e)
     | None \<Rightarrow> contacts_search a s = (Inr (VList (filter (contact_hit q) cs)), s))"

lemma search_answered:
  assumes "query_text a = (liftA (Inr q) :: (contactdev, string) act)"
  shows "search_answers q a s"
  using copies_where_book[of q "stored_values (ct_contacts s)"] assms
  by (auto simp: search_answers_def contacts_search_def Let_def split: option.splits)

text \<open>
  C37. Searching the contacts is exact, whatever values the book holds: a search for a text or with
  no query (which is searching for the empty text) leaves the book alone and either returns, in
  order, exactly the contacts whose name contains the query in lower case or whose number contains
  it as it is, or raises. It raises exactly when some contact breaks it, with the kind of error of
  the first one that does: a number that is neither text, list nor dictionary is a \<open>TypeError\<close> unless
  the name of its contact matches, an entry without a name (or without the number that is looked at)
  a \<open>KeyError\<close>, a name that is no text an \<open>AttributeError\<close>. A query that is neither a text nor false
  raises an \<open>AttributeError\<close>.
\<close>

theorem contacts_search_exact:
  "let v = dget a ''query'' in
   (\<forall>q. v = VStr q \<longrightarrow> search_answers (lower q) a s) \<and>
   (\<not> truthy v \<longrightarrow> search_answers [] a s) \<and>
   (truthy v \<and> (\<forall>q. v \<noteq> VStr q) \<longrightarrow>
      (\<exists>e. contacts_search a s = (Inl e, s) \<and> exn_cls e = Py PyAttributeError))"
proof -
  let ?v = "dget a ''query''"
  have "query_text a = (liftA (Inr (lower q)) :: (contactdev, string) act)" if "?v = VStr q" for q
    using that by (cases q) (simp_all add: query_text_def lower_def act_defs fun_eq_iff)
  moreover have "query_text a = (liftA (Inr []) :: (contactdev, string) act)" if "\<not> truthy ?v"
    using that by (simp add: query_text_def act_defs fun_eq_iff)
  moreover have "\<exists>e. contacts_search a s = (Inl e, s) \<and> exn_cls e = Py PyAttributeError"
    if "truthy ?v" "\<forall>q. ?v \<noteq> VStr q"
    using that by (cases ?v) (auto simp: contacts_search_def query_text_def act_defs no_attribute_def)
  ultimately show ?thesis by (auto simp: Let_def intro: search_answered)
qed

text \<open>A contact whose number is the integer 5 is found by its name and breaks other searches.\<close>

theorem contacts_search_exact_witness:
  "let s = initial_contactdev\<lparr>ct_contacts := [contact_entry ''c-001'' ''Alice'' ''+1'',
       (VStr ''7'', VStr ''7'', VDict [(''id'', VStr ''7''), (''name'', VStr ''Ali''), (''number'', VInt 5)])]\<rparr>
   in contacts_search [(''query'', VStr ''ALI'')] s =
        (Inr (VList (stored_values (ct_contacts s))), s) \<and>
      (\<exists>e. contacts_search [(''query'', VStr ''ce'')] s = (Inl e, s) \<and> exn_cls e = Py PyTypeError)"
proof -
  let ?odd = "VDict [(''id'', VStr ''7''), (''name'', VStr ''Ali''), (''number'', VInt 5)]"
  let ?s = "initial_contactdev\<lparr>ct_contacts := [contact_entry ''c-001'' ''Alice'' ''+1'',
    (VStr ''7'', VStr ''7'', ?odd)]\<rparr>"
  have cs: "stored_values (ct_contacts ?s) =
      [VDict [(''id'', VStr ''c-001''), (''name'', VStr ''Alice''), (''number'', VStr ''+1'')], ?odd]"
    by (simp add: stored_values_def contact_entry_def)
  have low: "lower ''ALI'' = ''ali''" "lower ''Alice'' = ''alice''" "lower ''Ali'' = ''ali''"
    "lower ''ce'' = ''ce''" by code_simp+
  have "search_answers ''ali'' [(''query'', VStr ''ALI'')] ?s"
    "search_answers ''ce'' [(''query'', VStr ''ce'')] ?s"
    using contacts_search_exact[of "[(''query'', VStr ''ALI'')]" ?s]
      contacts_search_exact[of "[(''query'', VStr ''ce'')]" ?s] by (simp_all add: low)
  moreover have "find (\<lambda>c. \<exists>x. contact_breaks ''ali'' c x) (stored_values (ct_contacts ?s)) = None"
    unfolding cs by (simp add: contact_breaks_dict part_of_contains low)
  moreover have "find (\<lambda>c. \<exists>x. contact_breaks ''ce'' c x) (stored_values (ct_contacts ?s)) = Some ?odd"
    unfolding cs by (simp add: contact_breaks_dict part_of_contains low)
  moreover have "filter (contact_hit ''ali'') (stored_values (ct_contacts ?s)) = stored_values (ct_contacts ?s)"
    unfolding cs by (simp add: contact_hit_def name_hit_def part_of_contains low)
  moreover have "contact_breaks ''ce'' ?odd x \<longleftrightarrow> x = Py PyTypeError" for x
    by (simp add: contact_breaks_dict part_of_contains low)
  ultimately show ?thesis
    by (simp only: search_answers_def Let_def option.case)
qed

end
