(* ===== verification/Comm_Rollback.thy ===== *)
theory Comm_Rollback
  imports Comm_Bridge
begin

text \<open>
  What the communication capabilities guarantee on their bridges: deleting a message, creating,
  updating and deleting contacts, dismissing and clearing notifications can be undone, from every
  state in which records stand under their own identifier. A search finds what it should while all
  texts are texts.
\<close>

section \<open>Records under their identifier\<close>

definition identified :: "vstore \<Rightarrow> bool" where
  "identified d \<longleftrightarrow> (\<forall>k m. vs_map d k = Some m \<longrightarrow>
     (\<exists>e i. m = VDict e \<and> map_of e ''id'' = Some i \<and> truthy i \<and> hash_key i = Inr k))"

lemma identifiedD:
  "identified d \<Longrightarrow> vs_map d k = Some m \<Longrightarrow>
     \<exists>e i. m = VDict e \<and> e \<noteq> [] \<and> map_of e ''id'' = Some i \<and> truthy i \<and> hash_key i = Inr k"
  unfolding identified_def by force

lemma identified_put:
  "identified d \<Longrightarrow> map_of e ''id'' = Some i \<Longrightarrow> truthy i \<Longrightarrow> hash_key i = Inr k \<Longrightarrow>
     identified (vs_put k v (VDict e) d)"
  unfolding identified_def by simp

lemma identified_delete: "identified d \<Longrightarrow> identified (AList.delete k d)"
  unfolding identified_def by simp

lemma identified_cong: "vs_map d = vs_map e \<Longrightarrow> identified d = identified e"
  unfolding identified_def by simp

text \<open>No key is in both dictionaries.\<close>

definition apart :: "vstore \<Rightarrow> vstore \<Rightarrow> bool" where
  "apart d e \<longleftrightarrow> (\<forall>k m. vs_map d k = Some m \<longrightarrow> vs_map e k = None)"

lemma the_record_Inr [simp]:
  "the_record get m i s = (Inr v, t) \<longleftrightarrow>
     t = s \<and> truthy v \<and> (\<exists>k. hash_key i = Inr k \<and> vs_map (get s) k = Some v)"
  by (auto simp: the_record_def step_eqs split: option.splits if_splits)

lemma the_record_fail: "the_record get m i s = (Inl e, t) \<Longrightarrow> t = s"
  by (auto simp: the_record_def step_Inl dest: store_steps_fail split: option.splits if_splits)

lemma drop_if_Inr:
  "drop_if str_of get upd i s = (Inr u, t) \<longleftrightarrow> (\<exists>k. hash_key i = Inr k \<and>
     t = (if vs_map (get s) k = None then s else upd (AList.delete k) s))"
  by (cases "hash_key i"; cases "vs_map (get s) (projr (hash_key i))")
    (auto simp: drop_if_def step_eqs ignore_Inr)

section \<open>Messages\<close>

definition sms_obs :: "smsdev \<Rightarrow> (pyval \<Rightarrow> pyval option) \<times> (pyval \<Rightarrow> pyval option) \<times> pyval list" where
  "sms_obs s = (vs_map (sm_inbox s), vs_map (sm_deleted s), sm_sent s)"

definition sms_ok :: "smsdev \<Rightarrow> bool" where
  "sms_ok s \<longleftrightarrow> identified (sm_inbox s) \<and> apart (sm_inbox s) (sm_deleted s)"

lemma sms_delete_Inr:
  "sms_delete str_of a s = (Inr v, t) \<longleftrightarrow> (\<exists>k m. truthy (dget a ''message_id'') \<and>
     hash_key (dget a ''message_id'') = Inr k \<and> vs_map (sm_inbox s) k = Some m \<and> truthy m \<and>
     ((\<exists>d. m = VDict d) \<or> (\<exists>xs. m = VList xs)) \<and> v = VDict [(''deleted'', VBool True),
       (''message_id'', dget a ''message_id''), (''pre_state'', m)] \<and>
     t = s\<lparr>sm_inbox := AList.delete k (sm_inbox s),
           sm_deleted := vs_put k (dget a ''message_id'') m (sm_deleted s)\<rparr>)"
  by (auto simp: sms_delete_def Let_def step_eqs copied_iff)

lemma sms_delete_fail:
  assumes "sms_delete str_of a s = (Inl e, t)"
  shows "t = s"
proof -
  have put: "putA sm_deleted_update v x u = (Inl e, w) \<Longrightarrow> \<nexists>k. hash_key v = Inr k" for v x u w
    by (auto simp: putA_def split: sum.splits)
  show ?thesis
    using assms by (auto simp: sms_delete_def Let_def step_Inl
        dest: store_steps_fail need_fail the_record_fail put)
qed

lemma sms_restore_Inr:
  "truthy (dget a ''message_id'') \<Longrightarrow> dget a ''message'' = VDict d \<Longrightarrow> d \<noteq> [] \<Longrightarrow>
   hash_key (dget a ''message_id'') = Inr k \<Longrightarrow>
   \<exists>t. sms_restore str_of a s = (Inr (VDict [(''restored'', VBool True), (''message_id'', dget a ''message_id'')]), t) \<and>
     vs_map (sm_inbox t) = (vs_map (sm_inbox s))(k \<mapsto> VDict d) \<and>
     vs_map (sm_deleted t) = (vs_map (sm_deleted s))(k := None) \<and> sm_sent t = sm_sent s"
  by (auto simp: sms_restore_def Let_def step_eqs drop_if_Inr fun_eq_iff)

lemma sms_undone:
  assumes "sms_ok s" "dget a ''action'' = VStr ''telephony.sms.delete''"
    and "sms_execute str_of uid ''telephony.sms.delete'' a s = (Inr v, t)" "sms_obs u = sms_obs t"
  shows "\<exists>u'. sms_rollback (sms_execute str_of uid) a (success_value i v) u = (Inr (), u') \<and>
    sms_ok u' \<and> sms_obs u' = sms_obs s"
proof -
  obtain k m where m: "hash_key (dget a ''message_id'') = Inr k" "vs_map (sm_inbox s) k = Some m"
    "v = VDict [(''deleted'', VBool True), (''message_id'', dget a ''message_id''), (''pre_state'', m)]"
    "t = s\<lparr>sm_inbox := AList.delete k (sm_inbox s),
           sm_deleted := vs_put k (dget a ''message_id'') m (sm_deleted s)\<rparr>"
    using assms(3) by (auto simp: sms_execute_def sms_delete_Inr)
  obtain e j where e: "m = VDict e" "e \<noteq> []" "map_of e ''id'' = Some j" "truthy j" "hash_key j = Inr k"
    using identifiedD[OF _ m(2)] assms(1) by (auto simp: sms_ok_def)
  let ?p = "[(''message_id'', j), (''message'', m)]"
  from sms_restore_Inr[of ?p e k str_of u] e obtain u' where u': "sms_restore str_of ?p u =
      (Inr (VDict [(''restored'', VBool True), (''message_id'', j)]), u')"
    "vs_map (sm_inbox u') = (vs_map (sm_inbox u))(k \<mapsto> m)"
    "vs_map (sm_deleted u') = (vs_map (sm_deleted u))(k := None)" "sm_sent u' = sm_sent u" by auto
  have "vs_map (sm_deleted s) k = None" using assms(1) m(2) by (auto simp: sms_ok_def apart_def)
  with u'(2-4) assms(4) m(2,4) have obs: "sms_obs u' = sms_obs s"
    by (auto simp: sms_obs_def fun_eq_iff)
  with assms(1) have "sms_ok u'"
    by (auto simp: sms_ok_def sms_obs_def apart_def cong: identified_cong)
  moreover have "sms_rollback (sms_execute str_of uid) a (success_value i v) u = (Inr (), u')"
    using assms(2) m(3) e(1-3) u'(1)
    by (simp add: sms_rollback_def sms_execute_def ignore_Inr)
  ultimately show ?thesis using obs by blast
qed

lemma sms_kept:
  assumes "sms_ok s"
  shows "sms_ok (snd (sms_delete str_of a s))"
proof (cases "sms_delete str_of a s")
  case (Pair r t)
  have "sms_ok t"
  proof (cases r)
    case (Inl e)
    with Pair assms show ?thesis using sms_delete_fail by blast
  next
    case (Inr v)
    with Pair assms show ?thesis
      by (auto simp: sms_delete_Inr sms_ok_def apart_def intro: identified_delete)
  qed
  with Pair show ?thesis by simp
qed

interpretation sms: undoable "sms_writer (sms_execute str_of uid)"
  "\<lambda>a s. adapter_supports (sms_writer (sms_execute str_of uid)) a = Inr True" sms_ok sms_obs
  for str_of uid
proof unfold_locales
  fix a and s u t :: smsdev and n v
  assume "sms_ok s" "adapter_supports (sms_writer (sms_execute str_of uid)) a = Inr True"
    "dget a ''action'' = VStr n" "ac_internal (sms_writer (sms_execute str_of uid)) n a s = (Inr v, t)"
    "sms_obs u = sms_obs t"
  with sms_undone[of s a str_of uid v t u]
  show "\<exists>u'. adapter_rollback (sms_writer (sms_execute str_of uid)) a
      (success_value (cd_id (ac_descriptor (sms_writer (sms_execute str_of uid)))) v) u = (Inr (), u') \<and>
      sms_ok u' \<and> sms_obs u' = sms_obs s"
    by (auto simp: adapter_supports_def adapter_rollback_def sms_writer_def action_in_True)
qed (auto simp: adapter_supports_def sms_writer_def action_in_True sms_execute_def
  dest: sms_kept sms_delete_fail)

section \<open>Contacts\<close>

definition contact_obs :: "contactdev \<Rightarrow> pyval \<Rightarrow> pyval option" where
  "contact_obs s = vs_map (ct_contacts s)"

definition contacts_ok :: "contactdev \<Rightarrow> bool" where
  "contacts_ok s \<longleftrightarrow> identified (ct_contacts s)"

text \<open>Creating can be undone if the new identifier is not empty and not taken.\<close>

definition contact_able :: "(nat \<Rightarrow> string) \<Rightarrow> args \<Rightarrow> contactdev \<Rightarrow> bool" where
  "contact_able uid a s \<longleftrightarrow> (\<exists>n. dget a ''action'' = VStr n \<and> n \<in> set contact_mutating \<and>
     (n = ''telephony.contacts.create'' \<longrightarrow>
        uid (ct_uid s) \<noteq> [] \<and> vs_map (ct_contacts s) (VStr (uid (ct_uid s))) = None))"

lemma take_arg_Inr:
  "take_arg k a v = Inr w \<longleftrightarrow> (case map_of a k of None \<Rightarrow> w = v
     | Some x \<Rightarrow> \<exists>d. v = VDict d \<and> w = VDict (AList.update k x d))"
  by (auto simp: take_arg_def with_item_Inr split: option.splits)

text \<open>The fields an update changes, and that the identifier is none of them.\<close>

definition updated_fields :: "args \<Rightarrow> args \<Rightarrow> args" where
  "updated_fields a d = (let d1 = (case map_of a ''name'' of None \<Rightarrow> d | Some x \<Rightarrow> AList.update ''name'' x d)
     in case map_of a ''number'' of None \<Rightarrow> d1 | Some x \<Rightarrow> AList.update ''number'' x d1)"

lemma updated_fields_id: "map_of (updated_fields a d) ''id'' = map_of d ''id''"
  by (simp add: updated_fields_def Let_def split: option.split)

lemma contact_create_Inr:
  "contact_create uid a s = (Inr v, t) \<longleftrightarrow> truthy (dget a ''name'') \<and> truthy (dget a ''number'') \<and>
     (let i = VStr (uid (ct_uid s)); c = VDict [(''id'', i), (''name'', dget a ''name''), (''number'', dget a ''number'')]
      in v = VDict [(''created'', VBool True), (''contact'', c), (''contact_id'', i)] \<and>
         t = s\<lparr>ct_uid := Suc (ct_uid s), ct_contacts := vs_put i i c (ct_contacts s)\<rparr>)"
  by (auto simp: contact_create_def Let_def step_eqs)

lemma take_args:
  "take_arg ''name'' a (VDict d) = Inr x \<Longrightarrow> take_arg ''number'' a x = Inr y \<Longrightarrow> y = VDict (updated_fields a d)"
  by (auto simp: take_arg_Inr updated_fields_def Let_def split: option.splits)

lemma contact_update_Inr:
  assumes "contact_update str_of a s = (Inr v, t)" "identified (ct_contacts s)"
  shows "\<exists>k d. hash_key (dget a ''contact_id'') = Inr k \<and> vs_map (ct_contacts s) k = Some (VDict d) \<and>
     v = VDict [(''updated'', VBool True), (''contact'', VDict (updated_fields a d)), (''pre_state'', VDict d)] \<and>
     t = s\<lparr>ct_contacts := vs_put k (dget a ''contact_id'') (VDict (updated_fields a d)) (ct_contacts s)\<rparr>"
proof -
  obtain k c p x y where c: "hash_key (dget a ''contact_id'') = Inr k" "vs_map (ct_contacts s) k = Some c"
    "copied c = Inr p" "take_arg ''name'' a p = Inr x" "take_arg ''number'' a x = Inr y"
    "v = VDict [(''updated'', VBool True), (''contact'', y), (''pre_state'', p)]"
    "t = s\<lparr>ct_contacts := vs_put k (dget a ''contact_id'') y (ct_contacts s)\<rparr>"
    using assms(1) by (auto simp: contact_update_def Let_def step_eqs)
  obtain d where "c = VDict d" using identifiedD[OF assms(2) c(2)] by blast
  with c take_args[of a d x y] show ?thesis by auto
qed

lemma contact_delete_Inr:
  "contact_delete str_of a s = (Inr v, t) \<longleftrightarrow> (\<exists>k c. truthy (dget a ''contact_id'') \<and>
     hash_key (dget a ''contact_id'') = Inr k \<and> vs_map (ct_contacts s) k = Some c \<and> truthy c \<and>
     ((\<exists>d. c = VDict d) \<or> (\<exists>xs. c = VList xs)) \<and>
     v = VDict [(''deleted'', VBool True), (''contact_id'', dget a ''contact_id''), (''pre_state'', c)] \<and>
     t = s\<lparr>ct_contacts := AList.delete k (ct_contacts s)\<rparr>)"
  by (auto simp: contact_delete_def Let_def step_eqs copied_iff)

lemma contact_restore_Inr:
  "dget a ''contact'' = VDict d \<Longrightarrow> map_of d ''id'' = Some i \<Longrightarrow> hash_key i = Inr k \<Longrightarrow>
   contact_restore a s = (Inr (VDict [(''restored'', VBool True)]),
     s\<lparr>ct_contacts := vs_put k i (VDict d) (ct_contacts s)\<rparr>)"
  by (cases d) (auto simp: contact_restore_def Let_def act_defs putA_def)

lemma contact_remove_Inr:
  "truthy (dget a ''contact_id'') \<Longrightarrow> hash_key (dget a ''contact_id'') = Inr k \<Longrightarrow>
   vs_map (ct_contacts s) k \<noteq> None \<Longrightarrow>
   contact_remove str_of a s = (Inr (VDict [(''removed'', VBool True), (''contact_id'', dget a ''contact_id'')]),
     s\<lparr>ct_contacts := AList.delete k (ct_contacts s)\<rparr>)"
  by (auto simp: contact_remove_def Let_def step_eqs drop_if_Inr)

lemma contact_undone:
  assumes ok: "contacts_ok s" and able: "contact_able uid a s" and n: "dget a ''action'' = VStr n"
    and run: "contacts_execute str_of uid n a s = (Inr v, t)" and u: "contact_obs u = contact_obs t"
  shows "\<exists>u'. contacts_rollback (contacts_execute str_of uid) a (success_value i v) u = (Inr (), u') \<and>
    contact_obs u' = contact_obs s"
proof -
  have restored: "\<exists>u'. contact_restore [(''contact'', VDict d)] u = (Inr (VDict [(''restored'', VBool True)]), u') \<and>
      contact_obs u' = contact_obs s"
    if d: "vs_map (ct_contacts s) k = Some (VDict d)" and k: "\<forall>l. l \<noteq> k \<longrightarrow> contact_obs u l = contact_obs s l"
    for k d
  proof -
    obtain j where j: "map_of d ''id'' = Some j" "hash_key j = Inr k"
      using identifiedD[OF ok[unfolded contacts_ok_def] d] by auto
    with d k show ?thesis
      using contact_restore_Inr[of "[(''contact'', VDict d)]" d j k u] by (auto simp: contact_obs_def fun_eq_iff)
  qed
  consider "n = ''telephony.contacts.create''" | "n = ''telephony.contacts.update''"
    | "n = ''telephony.contacts.delete''"
    using able n by (auto simp: contact_able_def contact_mutating_def)
  then show ?thesis
  proof cases
    case 1
    let ?i = "VStr (uid (ct_uid s))"
    have fresh: "uid (ct_uid s) \<noteq> []" "vs_map (ct_contacts s) ?i = None"
      using able n 1 by (auto simp: contact_able_def)
    have u': "vs_map (ct_contacts u) = (vs_map (ct_contacts s))(?i \<mapsto>
        VDict [(''id'', ?i), (''name'', dget a ''name''), (''number'', dget a ''number'')])"
      using run u 1 by (auto simp: contacts_execute_def contact_create_Inr Let_def contact_obs_def)
    with contact_remove_Inr[of "[(''contact_id'', ?i)]" ?i u str_of] fresh(1)
    have "contact_remove str_of [(''contact_id'', ?i)] u =
        (Inr (VDict [(''removed'', VBool True), (''contact_id'', ?i)]),
         u\<lparr>ct_contacts := AList.delete ?i (ct_contacts u)\<rparr>)" by simp
    with run n 1 u' fresh(2) show ?thesis
      by (auto simp: contacts_execute_def contacts_rollback_def forward_def contact_create_Inr Let_def
          ignore_Inr contact_obs_def fun_eq_iff)
  next
    case 2
    obtain k d where d: "vs_map (ct_contacts s) k = Some (VDict d)"
      "v = VDict [(''updated'', VBool True), (''contact'', VDict (updated_fields a d)), (''pre_state'', VDict d)]"
      "t = s\<lparr>ct_contacts := vs_put k (dget a ''contact_id'') (VDict (updated_fields a d)) (ct_contacts s)\<rparr>"
      using contact_update_Inr[of str_of a s v t] run ok 2
      by (auto simp: contacts_execute_def contacts_ok_def)
    from restored[OF d(1)] u d(3) n 2 d(2) show ?thesis
      by (auto simp: contacts_execute_def contacts_rollback_def forward_def ignore_Inr contact_obs_def)
  next
    case 3
    obtain k c where c: "vs_map (ct_contacts s) k = Some c"
      "v = VDict [(''deleted'', VBool True), (''contact_id'', dget a ''contact_id''), (''pre_state'', c)]"
      "t = s\<lparr>ct_contacts := AList.delete k (ct_contacts s)\<rparr>"
      using run 3 by (auto simp: contacts_execute_def contact_delete_Inr)
    obtain d where "c = VDict d" using identifiedD[OF ok[unfolded contacts_ok_def] c(1)] by auto
    with restored[of k d] u c n 3 show ?thesis
      by (auto simp: contacts_execute_def contacts_rollback_def forward_def ignore_Inr contact_obs_def)
  qed
qed

lemma contact_fails:
  "contact_create uid a s = (Inl e, t) \<Longrightarrow> contact_obs t = contact_obs s"
  "contact_update str_of a s = (Inl e, t) \<Longrightarrow> contact_obs t = contact_obs s"
  "contact_delete str_of a s = (Inl e, t) \<Longrightarrow> contact_obs t = contact_obs s"
  by (auto simp: contact_create_def contact_update_def contact_delete_def Let_def step_Inl putA_def
      dest: store_steps_fail need_fail the_record_fail)

lemma contact_obs_ok: "contact_obs s = contact_obs t \<Longrightarrow> contacts_ok s = contacts_ok t"
  by (simp add: contact_obs_def contacts_ok_def cong: identified_cong)

lemma contact_kept:
  assumes ok: "contacts_ok s" and able: "contact_able uid a s" and n: "dget a ''action'' = VStr n"
  shows "contacts_ok (snd (contacts_execute str_of uid n a s))"
proof (cases "contacts_execute str_of uid n a s")
  case (Pair r t)
  have n3: "n = ''telephony.contacts.create'' \<or> n = ''telephony.contacts.update'' \<or>
      n = ''telephony.contacts.delete''"
    using able n by (auto simp: contact_able_def contact_mutating_def)
  have "contacts_ok t"
  proof (cases r)
    case (Inl e)
    with Pair n3 have "contact_obs t = contact_obs s"
      by (auto simp: contacts_execute_def dest: contact_fails)
    with ok show ?thesis using contact_obs_ok by blast
  next
    case (Inr v)
    from n3 show ?thesis
    proof (elim disjE)
      assume n: "n = ''telephony.contacts.create''"
      with able assms(3) have "uid (ct_uid s) \<noteq> []" by (simp add: contact_able_def)
      with n Pair Inr ok show ?thesis
        by (auto simp: contacts_execute_def contact_create_Inr contacts_ok_def Let_def intro: identified_put)
    next
      assume n: "n = ''telephony.contacts.update''"
      with Pair Inr contact_update_Inr[of str_of a s v t] ok obtain k d where
        d: "vs_map (ct_contacts s) k = Some (VDict d)"
        "t = s\<lparr>ct_contacts := vs_put k (dget a ''contact_id'') (VDict (updated_fields a d)) (ct_contacts s)\<rparr>"
        by (auto simp: contacts_execute_def contacts_ok_def)
      from identifiedD[OF ok[unfolded contacts_ok_def] d(1)] d(2) ok show ?thesis
        by (auto simp: contacts_ok_def updated_fields_id intro!: identified_put)
    next
      assume "n = ''telephony.contacts.delete''"
      with Pair Inr ok show ?thesis
        by (auto simp: contacts_execute_def contact_delete_Inr contacts_ok_def intro: identified_delete)
    qed
  qed
  with Pair show ?thesis by simp
qed

interpretation contacts: undoable "contacts_writer (contacts_execute str_of uid)" "contact_able uid"
  contacts_ok contact_obs for str_of uid
proof unfold_locales
  fix a and s u t :: contactdev and n v
  assume a: "contacts_ok s" "contact_able uid a s" "dget a ''action'' = VStr n"
    "ac_internal (contacts_writer (contacts_execute str_of uid)) n a s = (Inr v, t)"
    "contact_obs u = contact_obs t"
  from a(4) have run: "contacts_execute str_of uid n a s = (Inr v, t)" by (simp add: contacts_writer_def)
  let ?cap = "contacts_writer (contacts_execute str_of uid)"
  obtain u' where u': "contacts_rollback (contacts_execute str_of uid) a
      (success_value (cd_id (ac_descriptor ?cap)) v) u = (Inr (), u')" "contact_obs u' = contact_obs s"
    using contact_undone[OF a(1-3) run a(5)] by blast
  show "\<exists>u'. adapter_rollback ?cap a (success_value (cd_id (ac_descriptor ?cap)) v) u = (Inr (), u') \<and>
      contacts_ok u' \<and> contact_obs u' = contact_obs s"
  proof (intro exI conjI)
    show "adapter_rollback ?cap a (success_value (cd_id (ac_descriptor ?cap)) v) u = (Inr (), u')"
      using u'(1) by (simp add: adapter_rollback_def contacts_writer_def)
    show "contacts_ok u'" using contact_obs_ok[OF u'(2)] a(1) by simp
  qed (rule u'(2))
next
  fix a s n assume "contacts_ok s" "contact_able uid a s" "dget a ''action'' = VStr n"
  then show "contacts_ok (snd (ac_internal (contacts_writer (contacts_execute str_of uid)) n a s))"
    by (simp add: contacts_writer_def contact_kept)
qed (auto simp: contact_able_def contacts_writer_def contact_mutating_def contacts_execute_def
  dest: contact_fails)

section \<open>Notifications\<close>

text \<open>Notifications stand under strings, and show them.\<close>

definition plain_entry :: "pyval \<times> pyval \<times> pyval \<Rightarrow> bool" where
  "plain_entry e \<longleftrightarrow> fst (snd e) = fst e \<and> (case fst e of VStr s \<Rightarrow> True | _ \<Rightarrow> False)"

definition string_keyed :: "vstore \<Rightarrow> bool" where
  "string_keyed d \<longleftrightarrow> distinct (map fst d) \<and> (\<forall>e \<in> set d. plain_entry e)"

definition notif_obs :: "notifdev \<Rightarrow> (pyval \<Rightarrow> pyval option) \<times> (pyval \<Rightarrow> pyval option)" where
  "notif_obs s = (vs_map (nt_active s), vs_map (nt_dismissed s))"

definition notif_ok :: "notifdev \<Rightarrow> bool" where
  "notif_ok s \<longleftrightarrow> string_keyed (nt_active s) \<and> identified (nt_active s) \<and> apart (nt_active s) (nt_dismissed s)"

lemma set_delete: "set (AList.delete k d) \<subseteq> set d"
  by (induction d) auto

lemma set_update: "set (AList.update k y d) \<subseteq> insert (k, y) (set d)"
  by (induction d) auto

lemma string_keyed_delete:
  assumes "string_keyed d"
  shows "string_keyed (AList.delete k d)"
proof -
  have "\<forall>e \<in> set (AList.delete k d). plain_entry e"
    using assms set_delete[of k d] unfolding string_keyed_def by blast
  with assms show ?thesis by (simp add: string_keyed_def AList.distinct_delete)
qed

lemma string_keyed_put:
  assumes "string_keyed d"
  shows "string_keyed (vs_put (VStr s) (VStr s) x d)"
proof -
  have "shown = VStr s" if "map_of d (VStr s) = Some (shown, z)" for shown z
    using assms map_of_SomeD[OF that] by (auto simp: string_keyed_def plain_entry_def)
  then have put: "vs_put (VStr s) (VStr s) x d = AList.update (VStr s) (VStr s, x) d"
    by (auto simp: vs_put_def split: option.split)
  have "plain_entry (VStr s, VStr s, x)" by (simp add: plain_entry_def)
  then have "\<forall>e \<in> set (AList.update (VStr s) (VStr s, x) d). plain_entry e"
    using assms set_update[of "VStr s" "(VStr s, x)" d] unfolding string_keyed_def by blast
  with assms put show ?thesis by (simp add: string_keyed_def AList.distinct_update)
qed

text \<open>The snapshot of a well-formed store rebuilds it.\<close>

lemma copies_dicts: "\<forall>x \<in> set xs. \<exists>d. x = VDict d \<Longrightarrow> copies xs = Inr xs"
  by (induction xs) auto

lemma stored_dicts:
  assumes "identified d" "distinct (map fst d)"
  shows "copies (stored_values d) = Inr (stored_values d)"
proof (rule copies_dicts)
  show "\<forall>x \<in> set (stored_values d). \<exists>e. x = VDict e"
  proof
    fix x assume "x \<in> set (stored_values d)"
    then obtain k shown where "(k, shown, x) \<in> set d" by (auto simp: stored_values_def)
    with assms(2) have "vs_map d k = Some x" by (simp add: vs_map_def)
    with assms(1) show "\<exists>e. x = VDict e" using identifiedD by blast
  qed
qed

lemma snapshot_rebuilds:
  "string_keyed d \<Longrightarrow> map (\<lambda>(k, x). (VStr k, VStr k, x))
     (zip (map (key_text str_of) (shown_keys d)) (stored_values d)) = d"
  by (induction d) (auto simp: string_keyed_def plain_entry_def key_text_def shown_keys_def
      stored_values_def split: pyval.splits)

lemma notification_dismiss_Inr:
  "notification_dismiss str_of a s = (Inr v, t) \<longleftrightarrow> (\<exists>k m. truthy (dget a ''notification_id'') \<and>
     hash_key (dget a ''notification_id'') = Inr k \<and> vs_map (nt_active s) k = Some m \<and> truthy m \<and>
     ((\<exists>d. m = VDict d) \<or> (\<exists>xs. m = VList xs)) \<and> v = VDict [(''dismissed'', VBool True),
       (''notification_id'', dget a ''notification_id''), (''pre_state'', m)] \<and>
     t = s\<lparr>nt_active := AList.delete k (nt_active s),
           nt_dismissed := vs_put k (dget a ''notification_id'') m (nt_dismissed s)\<rparr>)"
  by (auto simp: notification_dismiss_def Let_def step_eqs copied_iff)

lemma notification_fails:
  assumes "notification_dismiss str_of a s = (Inl e, t)"
  shows "t = s"
proof -
  have put: "putA nt_dismissed_update v x u = (Inl e, w) \<Longrightarrow> \<nexists>k. hash_key v = Inr k" for v x u w
    by (auto simp: putA_def split: sum.splits)
  show ?thesis
    using assms by (auto simp: notification_dismiss_def Let_def step_Inl
        dest: store_steps_fail need_fail the_record_fail put)
qed

lemma notification_clear_eq:
  assumes "notif_ok s"
  shows "notification_clear str_of s = (let p = zip (map (key_text str_of) (shown_keys (nt_active s)))
       (stored_values (nt_active s)) in
     (Inr (VDict [(''cleared'', VBool True), (''count'', VInt (int (length p))), (''pre_state'', VDict p)]),
      s\<lparr>nt_snapshot := Some p, nt_active := []\<rparr>))"
proof -
  have "identified (nt_active s)" "distinct (map fst (nt_active s))"
    using assms by (auto simp: notif_ok_def string_keyed_def)
  from stored_dicts[OF this] show ?thesis by (simp add: notification_clear_def)
qed

lemma restore_dismissed_run:
  "map_of d ''id'' = Some i \<Longrightarrow> hash_key i = Inr k \<Longrightarrow>
   \<exists>t. restore_dismissed str_of [(''notification'', VDict d)] s = (Inr restored_reply, t) \<and>
     nt_active t = vs_put k i (VDict d) (nt_active s) \<and>
     vs_map (nt_dismissed t) = (vs_map (nt_dismissed s))(k := None)"
  by (cases d) (auto simp: restore_dismissed_def step_eqs drop_if_Inr fun_eq_iff)

lemma dismiss_undone:
  assumes ok: "notif_ok s" "notif_ok u" and n: "dget a ''action'' = VStr ''notification.dismiss''"
    and run: "notification_dismiss str_of a s = (Inr v, t)" and u: "notif_obs u = notif_obs t"
  shows "\<exists>u'. notification_rollback (notification_execute str_of) a (success_value i v) u = (Inr (), u') \<and>
    notif_ok u' \<and> notif_obs u' = notif_obs s"
proof -
  obtain k m where m: "vs_map (nt_active s) k = Some m" "v = VDict [(''dismissed'', VBool True),
      (''notification_id'', dget a ''notification_id''), (''pre_state'', m)]"
    "t = s\<lparr>nt_active := AList.delete k (nt_active s),
       nt_dismissed := vs_put k (dget a ''notification_id'') m (nt_dismissed s)\<rparr>"
    using run by (auto simp: notification_dismiss_Inr)
  obtain d j where d: "m = VDict d" "map_of d ''id'' = Some j" "truthy j" "hash_key j = Inr k"
    using identifiedD[OF _ m(1)] ok(1) by (auto simp: notif_ok_def)
  obtain y where "map_of (nt_active s) k = Some y" using m(1) by (auto simp: vs_map_def)
  then have "plain_entry (k, y)" using ok(1) map_of_SomeD by (fastforce simp: notif_ok_def string_keyed_def)
  then obtain x where x: "k = VStr x" by (auto simp: plain_entry_def split: pyval.splits)
  with d(4) have j: "j = VStr x" by simp
  obtain u' where u': "restore_dismissed str_of [(''notification'', VDict d)] u = (Inr restored_reply, u')"
    "nt_active u' = vs_put k j (VDict d) (nt_active u)"
    "vs_map (nt_dismissed u') = (vs_map (nt_dismissed u))(k := None)"
    using restore_dismissed_run[OF d(2,4)] by blast
  have free: "vs_map (nt_dismissed s) k = None" using ok(1) m(1) by (simp add: notif_ok_def apart_def)
  have obs: "notif_obs u' = notif_obs s"
    using u u'(2,3) m(1,3) d(1) free by (auto simp: notif_obs_def fun_eq_iff)
  have "string_keyed (nt_active u')"
    using ok(2) string_keyed_put u'(2) x j by (simp add: notif_ok_def)
  moreover have "identified (nt_active u') \<and> apart (nt_active u') (nt_dismissed u')"
    using obs ok(1) by (simp add: notif_obs_def notif_ok_def apart_def cong: identified_cong)
  moreover have "notification_rollback (notification_execute str_of) a (success_value i v) u = (Inr (), u')"
    using n m(2) d(1) u'(1)
    by (simp add: notification_rollback_def notification_execute_def forward_def ignore_Inr)
  ultimately show ?thesis using obs by (auto simp: notif_ok_def)
qed

lemma clear_undone:
  assumes ok: "notif_ok s" "notif_ok u" and n: "dget a ''action'' = VStr ''notification.clear''"
    and run: "notification_clear str_of s = (Inr v, t)" and u: "notif_obs u = notif_obs t"
  shows "\<exists>u'. notification_rollback (notification_execute str_of) a (success_value i v) u = (Inr (), u') \<and>
    notif_ok u' \<and> notif_obs u' = notif_obs s"
proof -
  let ?d = "nt_active s"
  let ?p = "zip (map (key_text str_of) (shown_keys ?d)) (stored_values ?d)"
  have v: "v = VDict [(''cleared'', VBool True), (''count'', VInt (int (length ?p))), (''pre_state'', VDict ?p)]"
    "t = s\<lparr>nt_snapshot := Some ?p, nt_active := []\<rparr>"
    using run notification_clear_eq[OF ok(1)] by (auto simp: Let_def)
  have len: "length (shown_keys ?d) = length (stored_values ?d)"
    by (simp add: shown_keys_def stored_values_def)
  have copy: "copies (map snd ?p) = Inr (stored_values ?d)"
    using stored_dicts ok(1) len by (simp add: notif_ok_def string_keyed_def)
  have same: "nt_dismissed u = nt_dismissed u" "vs_map (nt_dismissed u) = vs_map (nt_dismissed s)"
    "vs_map (nt_active u) = Map.empty"
    using u v(2) by (simp_all add: notif_obs_def)
  let ?u = "if ?p = [] then u else u\<lparr>nt_active := ?d\<rparr>"
  have "restore_all [(''snapshot'', VDict ?p)] u = (Inr restored_reply, ?u)"
    using copy snapshot_rebuilds[of ?d str_of] ok(1) len
    by (auto simp: restore_all_def act_defs notif_ok_def)
  then have "notification_rollback (notification_execute str_of) a (success_value i v) u = (Inr (), ?u)"
    using n v(1) by (simp add: notification_rollback_def notification_execute_def forward_def ignore_Inr)
  moreover have empty: "?p = [] \<Longrightarrow> ?d = []"
    using len by (auto simp: shown_keys_def stored_values_def)
  then have obs: "notif_obs ?u = notif_obs s" using same by (auto simp: notif_obs_def)
  moreover have "notif_ok ?u" using ok same(2) by (auto simp: notif_ok_def apart_def)
  ultimately show ?thesis by blast
qed

lemma notification_kept:
  assumes ok: "notif_ok s"
  shows "notif_ok (snd (notification_dismiss str_of a s))" "notif_ok (snd (notification_clear str_of s))"
proof -
  show "notif_ok (snd (notification_clear str_of s))"
    using ok by (simp add: notification_clear_eq Let_def notif_ok_def string_keyed_def identified_def apart_def)
  show "notif_ok (snd (notification_dismiss str_of a s))"
  proof (cases "notification_dismiss str_of a s")
    case (Pair r t)
    have "notif_ok t"
    proof (cases r)
      case (Inl e)
      with Pair ok show ?thesis using notification_fails by blast
    next
      case (Inr v)
      with Pair ok show ?thesis
        by (auto simp: notification_dismiss_Inr notif_ok_def apart_def
            intro: identified_delete string_keyed_delete)
    qed
    with Pair show ?thesis by simp
  qed
qed

lemma notification_supported:
  "adapter_supports (notification_writer bridge) a = Inr True \<longleftrightarrow>
     dget a ''action'' = VStr ''notification.dismiss'' \<or> dget a ''action'' = VStr ''notification.clear''"
  by (auto simp: adapter_supports_def notification_writer_def supports_actions_def supports_action_name
      notification_reversible_def)

interpretation notifications: undoable "notification_writer (notification_execute str_of)"
  "\<lambda>a s. adapter_supports (notification_writer (notification_execute str_of)) a = Inr True"
  notif_ok notif_obs for str_of
proof unfold_locales
  let ?cap = "notification_writer (notification_execute str_of)"
  fix a and s u t :: notifdev and n v
  assume a: "notif_ok s" "adapter_supports ?cap a = Inr True" "dget a ''action'' = VStr n"
    "ac_internal ?cap n a s = (Inr v, t)" "notif_ok u" "notif_obs u = notif_obs t"
  have rb: "adapter_rollback ?cap = notification_rollback (notification_execute str_of)"
    by (simp add: adapter_rollback_def notification_writer_def fun_eq_iff)
  from a(2,3) consider "n = ''notification.dismiss''" | "n = ''notification.clear''"
    by (auto simp: notification_supported)
  then show "\<exists>u'. adapter_rollback ?cap a (success_value (cd_id (ac_descriptor ?cap)) v) u = (Inr (), u') \<and>
      notif_ok u' \<and> notif_obs u' = notif_obs s"
  proof cases
    case 1
    from dismiss_undone[OF a(1,5) a(3)[unfolded 1] _ a(6)] a(4) 1 show ?thesis
      unfolding rb by (simp add: notification_writer_def notification_execute_def)
  next
    case 2
    from clear_undone[OF a(1,5) a(3)[unfolded 2] _ a(6)] a(4) 2 show ?thesis
      unfolding rb by (simp add: notification_writer_def notification_execute_def)
  qed
next
  show "adapter_supports (notification_writer (notification_execute str_of)) a = Inr True \<Longrightarrow>
      \<exists>n. dget a ''action'' = VStr n" for a
    by (auto simp: notification_supported)
next
  let ?cap = "notification_writer (notification_execute str_of)"
  fix a s n
  assume a: "notif_ok s" "adapter_supports ?cap a = Inr True" "dget a ''action'' = VStr n"
  from a(2,3) consider "n = ''notification.dismiss''" | "n = ''notification.clear''"
    by (auto simp: notification_supported)
  then show "notif_ok (snd (ac_internal ?cap n a s))"
    by cases (simp_all add: notification_writer_def notification_execute_def notification_kept[OF a(1)])
next
  let ?cap = "notification_writer (notification_execute str_of)"
  fix a s n e t
  assume a: "notif_ok s" "adapter_supports ?cap a = Inr True" "dget a ''action'' = VStr n"
    "ac_internal ?cap n a s = (Inl e, t)"
  from a(2,3) consider "n = ''notification.dismiss''" | "n = ''notification.clear''"
    by (auto simp: notification_supported)
  then show "notif_obs t = notif_obs s"
  proof cases
    case 1
    with a(4) notification_fails[of str_of a s e t] show ?thesis
      by (simp add: notification_writer_def notification_execute_def)
  next
    case 2
    with a(4) notification_clear_eq[OF a(1), of str_of] show ?thesis
      by (simp add: notification_writer_def notification_execute_def Let_def)
  qed
qed

end
