(* ===== verification/Device.thy ===== *)
theory Device
  imports Network_State File_Rollback Media_Bridge Comm_Rollback
begin

text \<open>
  The whole device: the states of all bridges side by side, the capabilities the Android module
  builds on them (core/android/android_module.py, core/android/capabilities/__init__.py), and what
  holds of all of them together. A capability works on its own bridge only, and a sequence of calls
  on any capabilities can be undone.
\<close>

section \<open>Bridges as parts of a device\<close>

definition on_part :: "('s \<Rightarrow> 'p) \<Rightarrow> ('p \<Rightarrow> 's \<Rightarrow> 's) \<Rightarrow> ('p, 'a) act \<Rightarrow> ('s, 'a) act" where
  "on_part get put m s = (case m (get s) of (r, p) \<Rightarrow> (r, put p s))"

definition lift_bridge :: "('s \<Rightarrow> 'p) \<Rightarrow> ('p \<Rightarrow> 's \<Rightarrow> 's) \<Rightarrow> 'p bridge \<Rightarrow> 's bridge" where
  "lift_bridge get put b n a = on_part get put (b n a)"

definition lift_cap :: "('s \<Rightarrow> 'p) \<Rightarrow> ('p \<Rightarrow> 's \<Rightarrow> 's) \<Rightarrow> 'p android_cap \<Rightarrow> 's android_cap" where
  "lift_cap get put c = \<lparr>ac_descriptor = ac_descriptor c,
     ac_internal = (\<lambda>n a. on_part get put (ac_internal c n a)), ac_supports = ac_supports c,
     ac_rollback = map_option (\<lambda>f a r. on_part get put (f a r)) (ac_rollback c)\<rparr>"

text \<open>A component of a state that can be read and replaced.\<close>

locale state_part =
  fixes get :: "'s \<Rightarrow> 'p" and put :: "'p \<Rightarrow> 's \<Rightarrow> 's"
  assumes get_put [simp]: "get (put p s) = p"
    and put_get [simp]: "put (get s) s = s"
    and put_put [simp]: "put p (put q s) = put p s"
begin

lemma on_part_bind: "on_part get put (bindA m f) = bindA (on_part get put m) (\<lambda>x. on_part get put (f x))"
  by (auto simp: on_part_def bindA_def fun_eq_iff split: prod.splits sum.splits)

lemma on_part_basic: "on_part get put (ret x) = ret x" "on_part get put (raise c m) = raise c m"
  "on_part get put (liftA r) = liftA r"
  by (simp_all add: on_part_def act_defs fun_eq_iff)

lemma on_part_if: "on_part get put (if b then m else m') = (if b then on_part get put m else on_part get put m')"
  by simp

lemma on_part_ignore: "on_part get put (ignore_result m) = ignore_result (on_part get put m)"
  by (simp add: ignore_result_def on_part_bind on_part_basic)

lemma on_part_seq: "on_part get put (seqA m n) = seqA (on_part get put m) (on_part get put n)"
  by (simp add: seqA_def on_part_bind)

lemma on_part_catch: "on_part get put (catchA m h) = catchA (on_part get put m) (\<lambda>e. on_part get put (h e))"
  by (auto simp: on_part_def catchA_def fun_eq_iff split: prod.splits sum.splits)

lemma on_part_option:
  "on_part get put (case x of None \<Rightarrow> m | Some y \<Rightarrow> f y) =
     (case x of None \<Rightarrow> on_part get put m | Some y \<Rightarrow> on_part get put (f y))"
  by (cases x) simp_all

lemma on_part_bridge: "on_part get put (b n a) = lift_bridge get put b n a"
  by (simp add: lift_bridge_def)

lemmas on_part_eqs = on_part_bind on_part_basic on_part_if on_part_ignore on_part_seq on_part_option

text \<open>The base class on a part is the base class on the whole.\<close>

lemma execute_lifted:
  "execute_action str_of (lift_cap get put c) a = on_part get put (execute_action str_of c a)"
  by (simp add: execute_action_def Let_def lift_cap_def on_part_catch on_part_eqs cong: option.case_cong if_cong)

lemma rollback_lifted:
  "adapter_rollback (lift_cap get put c) a r = on_part get put (adapter_rollback c a r)"
  by (cases "ac_rollback c") (simp_all add: adapter_rollback_def lift_cap_def on_part_basic)

lemma supports_lifted: "adapter_supports (lift_cap get put c) = adapter_supports c"
  by (simp add: adapter_supports_def lift_cap_def fun_eq_iff)

end

section \<open>Building on a part of the device\<close>

lemmas reader_defs = files_read_def downloads_read_def gallery_read_def storage_read_def media_read_def
  microphone_read_def camera_read_def phone_read_def sms_reader_def contacts_reader_def
  notification_reader_def

lemmas irreversible_defs = storage_write_def media_write_def microphone_write_def camera_write_def
  phone_write_def notification_replier_def

text \<open>
  A capability made of the bridge of a part is the capability made of the bridge, working on the
  part; one lemma for each class.
\<close>

context state_part
begin

lemma lift_eta: "lift_bridge get put b n = (\<lambda>a. on_part get put (b n a))"
  "lift_bridge get put b = (\<lambda>n a. on_part get put (b n a))"
  by (simp_all add: lift_bridge_def fun_eq_iff)

lemma lift_forward:
  "forward (lift_bridge get put b) n ks d = on_part get put (forward b n ks d)"
  by (simp add: forward_def on_part_eqs on_part_bridge cong: if_cong)

lemma lift_read:
  "read_capability i n d c acts (lift_bridge get put b) = lift_cap get put (read_capability i n d c acts b)"
  by (simp add: read_capability_def lift_cap_def lift_eta)

lemma lift_irreversible:
  "irreversible_capability d (lift_bridge get put b) = lift_cap get put (irreversible_capability d b)"
  by (simp add: irreversible_capability_def lift_cap_def lift_eta)

lemma lift_rollbacks:
  "files_rollback (lift_bridge get put b) = (\<lambda>a r. on_part get put (files_rollback b a r))"
  "downloads_rollback (lift_bridge get put b) = (\<lambda>a r. on_part get put (downloads_rollback b a r))"
  "gallery_rollback (lift_bridge get put b) = (\<lambda>a r. on_part get put (gallery_rollback b a r))"
  "contacts_rollback (lift_bridge get put b) = (\<lambda>a r. on_part get put (contacts_rollback b a r))"
  "notification_rollback (lift_bridge get put b) = (\<lambda>a r. on_part get put (notification_rollback b a r))"
  "sms_rollback (lift_bridge get put b) = (\<lambda>a r. on_part get put (sms_rollback b a r))"
  by (rule ext, rule ext, simp add: files_rollback_def downloads_rollback_def gallery_rollback_def
      contacts_rollback_def notification_rollback_def sms_rollback_def restore_names_def Let_def
      lift_forward on_part_eqs on_part_bridge cong: if_cong)+

lemma lift_packs:
  "files_write (lift_bridge get put b) = lift_cap get put (files_write b)"
  "downloads_write (lift_bridge get put b) = lift_cap get put (downloads_write b)"
  "gallery_write (lift_bridge get put b) = lift_cap get put (gallery_write b)"
  "contacts_writer (lift_bridge get put b) = lift_cap get put (contacts_writer b)"
  "notification_writer (lift_bridge get put b) = lift_cap get put (notification_writer b)"
  "sms_writer (lift_bridge get put b) = lift_cap get put (sms_writer b)"
  by (simp_all add: files_write_def downloads_write_def gallery_write_def contacts_writer_def
      notification_writer_def sms_writer_def lift_cap_def lift_rollbacks lift_eta(2)[symmetric])

lemma lift_plain:
  "battery (lift_bridge get put b) = lift_cap get put (battery b)"
  "clipboard (lift_bridge get put b) = lift_cap get put (clipboard b)"
  "location (lift_bridge get put b) = lift_cap get put (location b)"
  by (simp_all add: battery_def clipboard_def location_def lift_cap_def lift_bridge_def fun_eq_iff)

lemma lift_readers:
  "files_read (lift_bridge get put b) = lift_cap get put (files_read b)"
  "downloads_read (lift_bridge get put b) = lift_cap get put (downloads_read b)"
  "gallery_read (lift_bridge get put b) = lift_cap get put (gallery_read b)"
  "storage_read (lift_bridge get put b) = lift_cap get put (storage_read b)"
  "media_read (lift_bridge get put b) = lift_cap get put (media_read b)"
  "microphone_read (lift_bridge get put b) = lift_cap get put (microphone_read b)"
  "camera_read (lift_bridge get put b) = lift_cap get put (camera_read b)"
  "phone_read (lift_bridge get put b) = lift_cap get put (phone_read b)"
  "sms_reader (lift_bridge get put b) = lift_cap get put (sms_reader b)"
  "contacts_reader (lift_bridge get put b) = lift_cap get put (contacts_reader b)"
  "notification_reader (lift_bridge get put b) = lift_cap get put (notification_reader b)"
  by (simp_all add: reader_defs lift_read)

lemma lift_irreversibles:
  "storage_write (lift_bridge get put b) = lift_cap get put (storage_write b)"
  "media_write (lift_bridge get put b) = lift_cap get put (media_write b)"
  "microphone_write (lift_bridge get put b) = lift_cap get put (microphone_write b)"
  "camera_write (lift_bridge get put b) = lift_cap get put (camera_write b)"
  "phone_write (lift_bridge get put b) = lift_cap get put (phone_write b)"
  "notification_replier (lift_bridge get put b) = lift_cap get put (notification_replier b)"
  by (simp_all add: irreversible_defs lift_irreversible)

text \<open>The controls guard their arguments before they call the bridge.\<close>

lemma lift_internals:
  "volume_internal (lift_bridge get put b) = (\<lambda>n a. on_part get put (volume_internal b n a))"
  "brightness_internal (lift_bridge get put b) = (\<lambda>n a. on_part get put (brightness_internal b n a))"
  "vibrate_internal (lift_bridge get put b) = (\<lambda>n a. on_part get put (vibrate_internal b n a))"
  "dnd_internal (lift_bridge get put b) = (\<lambda>n a. on_part get put (dnd_internal b n a))"
  "rotation_internal (lift_bridge get put b) = (\<lambda>n a. on_part get put (rotation_internal b n a))"
  "timeout_internal str_of (lift_bridge get put b) = (\<lambda>n a. on_part get put (timeout_internal str_of b n a))"
  by (rule ext, rule ext, simp add: internal_defs Let_def on_part_eqs on_part_bridge
      cong: if_cong option.case_cong)+

lemma lift_control_rollbacks:
  "flashlight_rollback (lift_bridge get put b) = (\<lambda>a r. on_part get put (flashlight_rollback b a r))"
  "volume_rollback (lift_bridge get put b) = (\<lambda>a r. on_part get put (volume_rollback b a r))"
  "brightness_rollback (lift_bridge get put b) = (\<lambda>a r. on_part get put (brightness_rollback b a r))"
  "vibrate_rollback (lift_bridge get put b) = (\<lambda>a r. on_part get put (vibrate_rollback b a r))"
  "dnd_rollback (lift_bridge get put b) = (\<lambda>a r. on_part get put (dnd_rollback b a r))"
  "rotation_rollback (lift_bridge get put b) = (\<lambda>a r. on_part get put (rotation_rollback b a r))"
  "timeout_rollback (lift_bridge get put b) = (\<lambda>a r. on_part get put (timeout_rollback b a r))"
  by (rule ext, rule ext, simp add: flashlight_rollback_def volume_rollback_def brightness_rollback_def
      vibrate_rollback_def dnd_rollback_def rotation_rollback_def timeout_rollback_def Let_def
      on_part_eqs on_part_bridge cong: if_cong option.case_cong)+

lemma lift_controls:
  "flashlight (lift_bridge get put b) = lift_cap get put (flashlight b)"
  "volume (lift_bridge get put b) = lift_cap get put (volume b)"
  "brightness (lift_bridge get put b) = lift_cap get put (brightness b)"
  "vibration (lift_bridge get put b) = lift_cap get put (vibration b)"
  "do_not_disturb (lift_bridge get put b) = lift_cap get put (do_not_disturb b)"
  "rotation (lift_bridge get put b) = lift_cap get put (rotation b)"
  "screen_timeout str_of (lift_bridge get put b) = lift_cap get put (screen_timeout str_of b)"
  by (simp_all add: control_defs lift_cap_def lift_internals lift_control_rollbacks
      lift_eta(2)[symmetric])

lemma lift_snapshots:
  "snapshot_first (lift_bridge get put b) st r mut = (\<lambda>n a. on_part get put (snapshot_first b st r mut n a))"
  "snapshot_last (lift_bridge get put b) st r mut = (\<lambda>n a. on_part get put (snapshot_last b st r mut n a))"
  by (rule ext, rule ext, simp add: snapshot_first_def snapshot_last_def on_part_eqs on_part_bridge
      cong: if_cong)+

lemma lift_network_rollback:
  "network_rollback (lift_bridge get put b) undo_map = (\<lambda>a r. on_part get put (network_rollback b undo_map a r))"
proof (rule ext, rule ext)
  fix a r
  have "on_part get put (case dget a ''action'' of VStr n \<Rightarrow>
        (case map_of undo_map n of Some m \<Rightarrow> ignore_result (b m []) | None \<Rightarrow> ret ()) | _ \<Rightarrow> ret ()) =
      (case dget a ''action'' of VStr n \<Rightarrow> (case map_of undo_map n of
         Some m \<Rightarrow> ignore_result (lift_bridge get put b m []) | None \<Rightarrow> ret ()) | _ \<Rightarrow> ret ())"
    by (simp add: on_part_eqs on_part_bridge split: pyval.split option.split)
  then show "network_rollback (lift_bridge get put b) undo_map a r =
      on_part get put (network_rollback b undo_map a r)"
    by (simp add: network_rollback_def on_part_eqs on_part_bridge cong: if_cong option.case_cong)
qed

lemma lift_network:
  "wifi (lift_bridge get put b) = lift_cap get put (wifi b)"
  "bluetooth (lift_bridge get put b) = lift_cap get put (bluetooth b)"
  "mobile_data (lift_bridge get put b) = lift_cap get put (mobile_data b)"
  "hotspot (lift_bridge get put b) = lift_cap get put (hotspot b)"
  "airplane_mode (lift_bridge get put b) = lift_cap get put (airplane_mode b)"
  by (simp_all add: wifi_def bluetooth_def mobile_data_def hotspot_def airplane_mode_def lift_cap_def
      lift_snapshots lift_network_rollback)

lemmas lift_all = lift_plain lift_controls lift_network lift_readers lift_irreversibles lift_packs

end

section \<open>The controls and radios can be undone\<close>

text \<open>The capabilities of the system bridge on calls whose rollback is exact (theory Device_Rollback).\<close>

definition exact_control :: "sysdev android_cap \<Rightarrow> args \<Rightarrow> sysdev \<Rightarrow> bool" where
  "exact_control cap a s \<longleftrightarrow> adapter_supports cap a = Inr True \<and>
     (\<exists>n. dget a ''action'' = VStr n \<and> n \<in> set (cd_actions (ac_descriptor cap)) \<and>
        undo_exact n a s \<and> \<not> oversteps n a s)"

lemma controls_undoable:
  assumes cap: "cap \<in> set (system_caps str_of system_execute)"
  shows "undoable cap (exact_control cap) levels_ok id"
proof unfold_locales
  show "\<exists>n. dget a ''action'' = VStr n" if "exact_control cap a s" for a s
    using that by (auto simp: exact_control_def)
next
  fix s a n v t u
  assume s: "levels_ok s" "exact_control cap a s" and n: "dget a ''action'' = VStr n"
    and run: "ac_internal cap n a s = (Inr v, t)" and u: "levels_ok u" "id u = id t"
  have ex: "adapter_supports cap a = Inr True" "undo_exact n a s" using s(2) n by (auto simp: exact_control_def)
  from system_caps_undone[OF s(1) cap ex(1) n run] ex(2) s(1) u(2)
  show "\<exists>u'. adapter_rollback cap a (success_value (cd_id (ac_descriptor cap)) v) u = (Inr (), u') \<and>
      levels_ok u' \<and> id u' = id s"
    by (auto simp: undone_def)
next
  fix s a n
  assume s: "levels_ok s" "exact_control cap a s" and n: "dget a ''action'' = VStr n"
  have "n \<in> set (''default'' # cd_actions (ac_descriptor cap))" "\<not> oversteps n a s"
    using s(2) n by (auto simp: exact_control_def)
  with system_caps_levels[OF s(1) cap] show "levels_ok (snd (ac_internal cap n a s))" by blast
next
  show "id t = id s" if "ac_internal cap n a s = (Inl e, t)" for s a n e t
    using internal_fail[OF cap that] by simp
qed

text \<open>
  The radios. Pairing and unpairing are left out: their rollback restores the radio but not the
  list of paired devices (theory Network_State). The other calls give the whole state back.
\<close>

definition radio_able :: "netdev android_cap \<Rightarrow> args \<Rightarrow> bool" where
  "radio_able cap a \<longleftrightarrow> adapter_supports cap a = Inr True \<and>
     dget a ''action'' \<notin> {VStr ''network.bluetooth.pair'', VStr ''network.bluetooth.unpair''}"

lemma radios_undoable:
  assumes cap: "cap \<in> set (network_caps network_execute)"
  shows "undoable cap (\<lambda>a s. radio_able cap a) net_ok id"
proof unfold_locales
  show "\<exists>n. dget a ''action'' = VStr n" if "radio_able cap a" for a
    using that cap by (auto simp: radio_able_def network_caps_def adapter_supports_def
        supports_actions_def supports_action_name wifi_def bluetooth_def mobile_data_def hotspot_def
        airplane_mode_def)
next
  fix s a n v t u
  assume s: "net_ok s" "radio_able cap a" "dget a ''action'' = VStr n"
    and run: "ac_internal cap n a s = (Inr v, t)" and u: "net_ok u" "id u = id t"
  have sup: "adapter_supports cap a = Inr True" using s(2) by (simp add: radio_able_def)
  obtain r ps where r: "s = net r ps" "radios_ok r" using s(1) by (auto simp: net_ok_def)
  have rec: "recovers v r t" using network_caps_recover[OF cap sup s(3)] run r(1) by blast
  then obtain q qs where t: "t = net q qs" unfolding recovers_def by blast
  have "nd_paired t = ps"
    using network_cap_pairs[OF cap sup s(3) r(2), of ps] s(2,3) run r(1) by (simp add: radio_able_def)
  with t have "t = net q ps" by (simp add: net_def)
  with recovered[OF cap, of v r q ps a "cd_id (ac_descriptor cap)" ps] rec u r
  show "\<exists>u'. adapter_rollback cap a (success_value (cd_id (ac_descriptor cap)) v) u = (Inr (), u') \<and>
      net_ok u' \<and> id u' = id s"
    by (auto simp: net_ok_def)
next
  fix s a n
  assume s: "net_ok s" "radio_able cap a" "dget a ''action'' = VStr n"
  obtain r ps where r: "s = net r ps" "radios_ok r" using s(1) by (auto simp: net_ok_def)
  from sound_network_cap[OF cap _ s(3) r(2), of ps] r(1) s(2) show "net_ok (snd (ac_internal cap n a s))"
    by (auto simp: sound_step_def net_ok_def radio_able_def)
next
  fix s a n e t
  assume s: "net_ok s" "radio_able cap a" "dget a ''action'' = VStr n"
    and run: "ac_internal cap n a s = (Inl e, t)"
  obtain r ps where r: "s = net r ps" "radios_ok r" using s(1) by (auto simp: net_ok_def)
  from sound_network_cap[OF cap _ s(3) r(2), of ps] r(1) run s(2) show "id t = id s"
    by (auto simp: sound_step_def radio_able_def)
qed

section \<open>The device\<close>

record device =
  dv_system :: sysdev
  dv_network :: netdev
  dv_call :: calldev
  dv_sms :: smsdev
  dv_contacts :: contactdev
  dv_notif :: notifdev
  dv_camera :: camdev
  dv_microphone :: micdev
  dv_files :: filedev
  dv_media :: mediadev
  dv_gallery :: gallerydev
  dv_downloads :: downdev
  dv_storage :: storagedev

definition initial_device :: device where
  "initial_device = \<lparr>dv_system = initial_sysdev, dv_network = initial_netdev,
     dv_call = initial_calldev, dv_sms = initial_smsdev, dv_contacts = initial_contactdev,
     dv_notif = initial_notifdev, dv_camera = initial_camdev, dv_microphone = initial_micdev,
     dv_files = initial_filedev, dv_media = initial_mediadev, dv_gallery = initial_gallerydev,
     dv_downloads = initial_downdev, dv_storage = initial_storagedev\<rparr>"

interpretation system_part: state_part dv_system "\<lambda>p. dv_system_update (\<lambda>_. p)" by unfold_locales simp_all
interpretation network_part: state_part dv_network "\<lambda>p. dv_network_update (\<lambda>_. p)" by unfold_locales simp_all
interpretation call_part: state_part dv_call "\<lambda>p. dv_call_update (\<lambda>_. p)" by unfold_locales simp_all
interpretation sms_part: state_part dv_sms "\<lambda>p. dv_sms_update (\<lambda>_. p)" by unfold_locales simp_all
interpretation contacts_part: state_part dv_contacts "\<lambda>p. dv_contacts_update (\<lambda>_. p)" by unfold_locales simp_all
interpretation notif_part: state_part dv_notif "\<lambda>p. dv_notif_update (\<lambda>_. p)" by unfold_locales simp_all
interpretation camera_part: state_part dv_camera "\<lambda>p. dv_camera_update (\<lambda>_. p)" by unfold_locales simp_all
interpretation microphone_part: state_part dv_microphone "\<lambda>p. dv_microphone_update (\<lambda>_. p)" by unfold_locales simp_all
interpretation files_part: state_part dv_files "\<lambda>p. dv_files_update (\<lambda>_. p)" by unfold_locales simp_all
interpretation media_part: state_part dv_media "\<lambda>p. dv_media_update (\<lambda>_. p)" by unfold_locales simp_all
interpretation gallery_part: state_part dv_gallery "\<lambda>p. dv_gallery_update (\<lambda>_. p)" by unfold_locales simp_all
interpretation downloads_part: state_part dv_downloads "\<lambda>p. dv_downloads_update (\<lambda>_. p)" by unfold_locales simp_all
interpretation storage_part: state_part dv_storage "\<lambda>p. dv_storage_update (\<lambda>_. p)" by unfold_locales simp_all

section \<open>What the Android module builds\<close>

datatype bridge_name = SystemBridge | NetworkBridge | LocationBridge | CallBridge | SMSBridge
  | ContactsBridge | NotificationBridge | CameraBridge | MicrophoneBridge | FileBridge | MediaBridge
  | GalleryBridge | DownloadBridge | StorageBridge

text \<open>One bridge of each kind, shared by the capabilities (registered as singletons).\<close>

definition system_bridge :: "device bridge" where
  "system_bridge = lift_bridge dv_system (\<lambda>p. dv_system_update (\<lambda>_. p)) system_execute"

definition network_bridge :: "device bridge" where
  "network_bridge = lift_bridge dv_network (\<lambda>p. dv_network_update (\<lambda>_. p)) network_execute"

definition location_bridge :: "device bridge" where
  "location_bridge = location_execute"

definition call_bridge :: "device bridge" where
  "call_bridge = lift_bridge dv_call (\<lambda>p. dv_call_update (\<lambda>_. p)) call_execute"

definition sms_bridge :: "(pyval \<Rightarrow> string) \<Rightarrow> (nat \<Rightarrow> string) \<Rightarrow> device bridge" where
  "sms_bridge str_of uid = lift_bridge dv_sms (\<lambda>p. dv_sms_update (\<lambda>_. p)) (sms_execute str_of uid)"

definition contacts_bridge :: "(pyval \<Rightarrow> string) \<Rightarrow> (nat \<Rightarrow> string) \<Rightarrow> device bridge" where
  "contacts_bridge str_of uid =
     lift_bridge dv_contacts (\<lambda>p. dv_contacts_update (\<lambda>_. p)) (contacts_execute str_of uid)"

definition notification_bridge :: "(pyval \<Rightarrow> string) \<Rightarrow> device bridge" where
  "notification_bridge str_of =
     lift_bridge dv_notif (\<lambda>p. dv_notif_update (\<lambda>_. p)) (notification_execute str_of)"

definition camera_bridge :: "(nat \<Rightarrow> string) \<Rightarrow> device bridge" where
  "camera_bridge uid = lift_bridge dv_camera (\<lambda>p. dv_camera_update (\<lambda>_. p)) (camera_execute uid)"

definition microphone_bridge :: "(nat \<Rightarrow> string) \<Rightarrow> device bridge" where
  "microphone_bridge uid =
     lift_bridge dv_microphone (\<lambda>p. dv_microphone_update (\<lambda>_. p)) (microphone_execute uid)"

definition file_bridge :: "(pyval \<Rightarrow> string) \<Rightarrow> device bridge" where
  "file_bridge str_of = lift_bridge dv_files (\<lambda>p. dv_files_update (\<lambda>_. p)) (file_execute str_of)"

definition media_bridge :: "device bridge" where
  "media_bridge = lift_bridge dv_media (\<lambda>p. dv_media_update (\<lambda>_. p)) media_execute"

definition gallery_bridge :: "(pyval \<Rightarrow> string) \<Rightarrow> (nat \<Rightarrow> string) \<Rightarrow> device bridge" where
  "gallery_bridge str_of uid =
     lift_bridge dv_gallery (\<lambda>p. dv_gallery_update (\<lambda>_. p)) (gallery_execute str_of uid)"

definition download_bridge :: "(pyval \<Rightarrow> string) \<Rightarrow> (nat \<Rightarrow> string) \<Rightarrow> device bridge" where
  "download_bridge str_of uid =
     lift_bridge dv_downloads (\<lambda>p. dv_downloads_update (\<lambda>_. p)) (download_execute str_of uid)"

definition storage_bridge :: "device bridge" where
  "storage_bridge = lift_bridge dv_storage (\<lambda>p. dv_storage_update (\<lambda>_. p)) storage_execute"

text \<open>
  The capabilities in the order of \<open>__all__\<close>, each with the bridge its constructor takes; \<open>uid\<close>
  gives every bridge its own supply of identifiers.
\<close>

definition pack_caps ::
  "(pyval \<Rightarrow> string) \<Rightarrow> (bridge_name \<Rightarrow> nat \<Rightarrow> string) \<Rightarrow> (bridge_name \<times> device android_cap) list" where
  "pack_caps str_of uid = (let sms = sms_bridge str_of (uid SMSBridge);
       contacts = contacts_bridge str_of (uid ContactsBridge); notif = notification_bridge str_of;
       cam = camera_bridge (uid CameraBridge); mic = microphone_bridge (uid MicrophoneBridge);
       fs = file_bridge str_of; gal = gallery_bridge str_of (uid GalleryBridge);
       down = download_bridge str_of (uid DownloadBridge) in
     [(SystemBridge, brightness system_bridge), (SystemBridge, flashlight system_bridge),
      (SystemBridge, volume system_bridge), (SystemBridge, vibration system_bridge),
      (SystemBridge, rotation system_bridge), (SystemBridge, screen_timeout str_of system_bridge),
      (SystemBridge, do_not_disturb system_bridge),
      (NetworkBridge, wifi network_bridge), (NetworkBridge, bluetooth network_bridge),
      (NetworkBridge, mobile_data network_bridge), (NetworkBridge, hotspot network_bridge),
      (NetworkBridge, airplane_mode network_bridge),
      (CallBridge, phone_read call_bridge), (CallBridge, phone_write call_bridge),
      (SMSBridge, sms_reader sms), (SMSBridge, sms_writer sms),
      (ContactsBridge, contacts_reader contacts), (ContactsBridge, contacts_writer contacts),
      (NotificationBridge, notification_reader notif), (NotificationBridge, notification_writer notif),
      (NotificationBridge, notification_replier notif),
      (CameraBridge, camera_read cam), (CameraBridge, camera_write cam),
      (MicrophoneBridge, microphone_read mic), (MicrophoneBridge, microphone_write mic),
      (FileBridge, files_read fs), (FileBridge, files_write fs),
      (MediaBridge, media_read media_bridge), (MediaBridge, media_write media_bridge),
      (GalleryBridge, gallery_read gal), (GalleryBridge, gallery_write gal),
      (DownloadBridge, downloads_read down), (DownloadBridge, downloads_write down),
      (StorageBridge, storage_read storage_bridge), (StorageBridge, storage_write storage_bridge)])"

definition other_caps :: "(bridge_name \<times> device android_cap) list" where
  "other_caps = [(LocationBridge, location location_bridge), (SystemBridge, clipboard system_bridge),
     (SystemBridge, battery system_bridge)]"

definition device_caps ::
  "(pyval \<Rightarrow> string) \<Rightarrow> (bridge_name \<Rightarrow> nat \<Rightarrow> string) \<Rightarrow> (bridge_name \<times> device android_cap) list" where
  "device_caps str_of uid = pack_caps str_of uid @ other_caps"

text \<open>
  What \<open>build_manager\<close> collects: the four legacy aliases are the read capabilities again, abstract
  classes are left out, and three empty classes (\<open>None\<close>) have no descriptor.
\<close>

definition module_caps ::
  "(pyval \<Rightarrow> string) \<Rightarrow> (bridge_name \<Rightarrow> nat \<Rightarrow> string) \<Rightarrow> device android_cap option list" where
  "module_caps str_of uid = map (Some \<circ> snd) (pack_caps str_of uid) @
     [Some (phone_read call_bridge), Some (sms_reader (sms_bridge str_of (uid SMSBridge))),
      Some (contacts_reader (contacts_bridge str_of (uid ContactsBridge))),
      Some (notification_reader (notification_bridge str_of)), None, None, None] @
     map (Some \<circ> snd) other_caps"

text \<open>
  Reading the descriptor of an empty class raises an \<open>AttributeError\<close> before anything is
  registered; the loop of the manager logs it and goes on.
\<close>

definition start_device ::
  "bus \<Rightarrow> (pyval \<Rightarrow> string) \<Rightarrow> (bridge_name \<Rightarrow> nat \<Rightarrow> string) \<Rightarrow> ((device, 'z) asys_scheme, unit) act" where
  "start_device mw str_of uid =
     android_start mw str_of (List.map_filter id (module_caps str_of uid))"

lemmas bridge_defs = system_bridge_def network_bridge_def call_bridge_def sms_bridge_def
  contacts_bridge_def notification_bridge_def camera_bridge_def microphone_bridge_def file_bridge_def
  media_bridge_def gallery_bridge_def download_bridge_def storage_bridge_def

lemmas lift_device = system_part.lift_all network_part.lift_all call_part.lift_all sms_part.lift_all contacts_part.lift_all notif_part.lift_all camera_part.lift_all microphone_part.lift_all files_part.lift_all media_part.lift_all gallery_part.lift_all downloads_part.lift_all storage_part.lift_all

section \<open>A capability works on its own bridge\<close>

text \<open>The state of a bridge is the same in two states of the device.\<close>

fun same_part :: "bridge_name \<Rightarrow> device \<Rightarrow> device \<Rightarrow> bool" where
  "same_part SystemBridge s t = (dv_system s = dv_system t)"
| "same_part NetworkBridge s t = (dv_network s = dv_network t)"
| "same_part LocationBridge s t = True"
| "same_part CallBridge s t = (dv_call s = dv_call t)"
| "same_part SMSBridge s t = (dv_sms s = dv_sms t)"
| "same_part ContactsBridge s t = (dv_contacts s = dv_contacts t)"
| "same_part NotificationBridge s t = (dv_notif s = dv_notif t)"
| "same_part CameraBridge s t = (dv_camera s = dv_camera t)"
| "same_part MicrophoneBridge s t = (dv_microphone s = dv_microphone t)"
| "same_part FileBridge s t = (dv_files s = dv_files t)"
| "same_part MediaBridge s t = (dv_media s = dv_media t)"
| "same_part GalleryBridge s t = (dv_gallery s = dv_gallery t)"
| "same_part DownloadBridge s t = (dv_downloads s = dv_downloads t)"
| "same_part StorageBridge s t = (dv_storage s = dv_storage t)"

definition confined :: "bridge_name \<Rightarrow> device android_cap \<Rightarrow> bool" where
  "confined b c \<longleftrightarrow> (\<forall>q s. q \<noteq> b \<longrightarrow>
     (\<forall>n a. same_part q s (snd (ac_internal c n a s))) \<and>
     (\<forall>f a r. ac_rollback c = Some f \<longrightarrow> same_part q s (snd (f a r s))))"

lemma confined_part:
  assumes "\<And>q s p. q \<noteq> b \<Longrightarrow> same_part q s (put p s)"
  shows "confined b (lift_cap get put c)"
  using assms by (auto simp: confined_def lift_cap_def on_part_def split: prod.split)

lemma same_part_refl [simp]: "same_part q s s"
  by (cases q) simp_all

lemma confined_location: "confined LocationBridge (location location_bridge)"
  by (simp add: confined_def location_def location_bridge_def location_execute_def act_defs)

lemma confined_parts:
  "confined SystemBridge (lift_cap dv_system (\<lambda>p. dv_system_update (\<lambda>_. p)) c_system)"
  "confined NetworkBridge (lift_cap dv_network (\<lambda>p. dv_network_update (\<lambda>_. p)) c_network)"
  "confined CallBridge (lift_cap dv_call (\<lambda>p. dv_call_update (\<lambda>_. p)) c_call)"
  "confined SMSBridge (lift_cap dv_sms (\<lambda>p. dv_sms_update (\<lambda>_. p)) c_sms)"
  "confined ContactsBridge (lift_cap dv_contacts (\<lambda>p. dv_contacts_update (\<lambda>_. p)) c_contacts)"
  "confined NotificationBridge (lift_cap dv_notif (\<lambda>p. dv_notif_update (\<lambda>_. p)) c_notif)"
  "confined CameraBridge (lift_cap dv_camera (\<lambda>p. dv_camera_update (\<lambda>_. p)) c_camera)"
  "confined MicrophoneBridge (lift_cap dv_microphone (\<lambda>p. dv_microphone_update (\<lambda>_. p)) c_microphone)"
  "confined FileBridge (lift_cap dv_files (\<lambda>p. dv_files_update (\<lambda>_. p)) c_files)"
  "confined MediaBridge (lift_cap dv_media (\<lambda>p. dv_media_update (\<lambda>_. p)) c_media)"
  "confined GalleryBridge (lift_cap dv_gallery (\<lambda>p. dv_gallery_update (\<lambda>_. p)) c_gallery)"
  "confined DownloadBridge (lift_cap dv_downloads (\<lambda>p. dv_downloads_update (\<lambda>_. p)) c_downloads)"
  "confined StorageBridge (lift_cap dv_storage (\<lambda>p. dv_storage_update (\<lambda>_. p)) c_storage)"
  by (rule confined_part, case_tac q; simp)+

lemma device_caps_confined:
  assumes "(b, c) \<in> set (device_caps str_of uid)"
  shows "confined b c"
proof -
  have "list_all (\<lambda>(b, c). confined b c) (device_caps str_of uid)"
    by (simp add: device_caps_def pack_caps_def other_caps_def Let_def bridge_defs lift_device
        confined_parts confined_location)
  with assms show ?thesis by (auto simp: list_all_iff)
qed

lemma confined_call:
  assumes "confined b c" "q \<noteq> b"
  shows "same_part q s (snd (execute_action str_of c a s))"
    and "same_part q s (snd (adapter_rollback c a r s))"
  using assms
  by (auto simp: execute_action_state adapter_rollback_def confined_def act_defs split: option.split)

section \<open>Starting the runtime registers every capability\<close>

definition cap_ids :: "(bridge_name \<times> device android_cap) list \<Rightarrow> string list" where
  "cap_ids cs = map (\<lambda>c. cd_id (ac_descriptor (snd c))) cs"

lemmas id_defs = cap_ids_def Let_def descriptor_defs control_defs network_descriptor_def wifi_def
  bluetooth_def mobile_data_def hotspot_def airplane_mode_def reader_defs irreversible_defs
  read_capability_def irreversible_capability_def write_descriptor_def files_write_def
  downloads_write_def gallery_write_def contacts_writer_def notification_writer_def sms_writer_def
  location_def

lemma cap_ids_pack:
  "cap_ids (pack_caps str_of uid) = [''android.device.brightness'', ''android.hardware.flashlight'',
     ''android.device.volume'', ''android.device.vibrate'', ''android.device.rotation'',
     ''android.device.screen_timeout'', ''android.device.dnd'', ''android.device.wifi'',
     ''android.device.bluetooth'', ''android.device.mobile_data'', ''android.device.hotspot'',
     ''android.device.airplane_mode'',
     ''android.communication.phone.read'', ''android.communication.phone.write'',
     ''android.communication.sms.read'', ''android.communication.sms.write'',
     ''android.communication.contacts.read'', ''android.communication.contacts.write'',
     ''android.communication.notification.read'', ''android.communication.notification.write'',
     ''android.communication.notification.reply'',
     ''android.device.camera.read'', ''android.device.camera.write'',
     ''android.device.microphone.read'', ''android.device.microphone.write'',
     ''android.device.files.read'', ''android.device.files.write'',
     ''android.device.media.read'', ''android.device.media.write'',
     ''android.device.gallery.read'', ''android.device.gallery.write'',
     ''android.device.downloads.read'', ''android.device.downloads.write'',
     ''android.device.storage.read'', ''android.device.storage.write'']"
  by (simp add: pack_caps_def id_defs)

lemma cap_ids_other:
  "cap_ids other_caps = [''android.device.location.coarse'', ''android.device.clipboard.read'',
     ''android.device.battery'']"
  by (simp add: other_caps_def id_defs)

lemma cap_ids_distinct: "distinct (cap_ids (device_caps str_of uid))"
proof -
  have "cap_ids (device_caps str_of uid) = cap_ids (pack_caps str_of uid) @ cap_ids other_caps"
    by (simp add: device_caps_def cap_ids_def)
  then show ?thesis unfolding cap_ids_pack cap_ids_other by simp
qed

lemma find_app: "find p (xs @ ys) = (case find p xs of None \<Rightarrow> find p ys | Some x \<Rightarrow> Some x)"
  by (induction xs) simp_all

lemma find_repeated:
  assumes "set ys \<subseteq> set xs"
  shows "find p (xs @ ys @ zs) = find p (xs @ zs)"
proof (cases "find p xs")
  case None
  with assms have "find p ys = None" by (auto simp: find_None_iff)
  with None show ?thesis by (simp add: find_app)
qed (simp add: find_app)

lemma find_distinct:
  "distinct (map f xs) \<Longrightarrow> x \<in> set xs \<Longrightarrow> find (\<lambda>y. f y = f x) xs = Some x"
  by (induction xs) (auto simp: image_iff)

lemma find_unnamed: "i \<notin> set (map f xs) \<Longrightarrow> find (\<lambda>y. f y = i) xs = None"
  by (auto simp: find_None_iff)

lemma module_caps_eq:
  "List.map_filter id (module_caps str_of uid) = map snd (pack_caps str_of uid) @
     [phone_read call_bridge, sms_reader (sms_bridge str_of (uid SMSBridge)),
      contacts_reader (contacts_bridge str_of (uid ContactsBridge)),
      notification_reader (notification_bridge str_of)] @ map snd other_caps"
proof -
  have "filter (\<lambda>x. x \<noteq> None) (map (Some \<circ> snd) xs) = map (Some \<circ> snd) xs" for xs :: "('a \<times> 'b) list"
    by (simp add: filter_id_conv)
  then show ?thesis by (simp add: module_caps_def List.map_filter_def comp_def)
qed

lemma aliases_known:
  "set [phone_read call_bridge, sms_reader (sms_bridge str_of (uid SMSBridge)),
      contacts_reader (contacts_bridge str_of (uid ContactsBridge)),
      notification_reader (notification_bridge str_of)] \<subseteq> set (map snd (pack_caps str_of uid))"
  by (simp add: pack_caps_def Let_def)

lemma first_named_device:
  "first_named (List.map_filter id (module_caps str_of uid)) i =
     (if i = [] then None else find (\<lambda>c. cd_id (ac_descriptor c) = i) (map snd (device_caps str_of uid)))"
  unfolding first_named_def module_caps_eq find_repeated[OF aliases_known] by (simp add: device_caps_def)

lemma cap_ids_nonempty: "[] \<notin> set (cap_ids (device_caps str_of uid))"
proof -
  have "cap_ids (device_caps str_of uid) = cap_ids (pack_caps str_of uid) @ cap_ids other_caps"
    by (simp add: device_caps_def cap_ids_def)
  then show ?thesis unfolding cap_ids_pack cap_ids_other by simp
qed

lemma first_named_known:
  assumes "(b, c) \<in> set (device_caps str_of uid)"
  shows "first_named (List.map_filter id (module_caps str_of uid)) (cd_id (ac_descriptor c)) = Some c"
proof -
  let ?xs = "map snd (device_caps str_of uid)"
  have "distinct (map (\<lambda>c. cd_id (ac_descriptor c)) ?xs)"
    using cap_ids_distinct by (simp add: cap_ids_def comp_def)
  moreover have "c \<in> set ?xs" using assms by force
  ultimately have "find (\<lambda>y. cd_id (ac_descriptor y) = cd_id (ac_descriptor c)) ?xs = Some c"
    by (rule find_distinct)
  moreover have "cd_id (ac_descriptor c) \<noteq> []"
    using cap_ids_nonempty[of str_of uid] assms by (force simp: cap_ids_def)
  ultimately show ?thesis by (simp add: first_named_device)
qed

lemma first_named_unknown:
  assumes "i \<notin> set (cap_ids (device_caps str_of uid))"
  shows "first_named (List.map_filter id (module_caps str_of uid)) i = None"
proof -
  have "find (\<lambda>c. cd_id (ac_descriptor c) = i) (map snd (device_caps str_of uid)) = None"
    by (rule find_unnamed) (use assms in \<open>auto simp: cap_ids_def\<close>)
  then show ?thesis by (simp add: first_named_device)
qed

lemma device_started:
  assumes "\<not> an_started s" and "an_caps s = []" and "s_caps s = []"
  shows "\<exists>s'. start_device quiet str_of uid s = (Inr (), s') \<and>
    h_state (android_health s') = RUNNING \<and> s_dev s' = s_dev s \<and>
    length (device_caps str_of uid) = 38 \<and>
    dom (map_of (s_caps s')) = set (cap_ids (device_caps str_of uid)) \<and>
    list_all (\<lambda>(b, c). map_of (s_caps s') (cd_id (ac_descriptor c)) = Some (android_adapter str_of c))
      (device_caps str_of uid)"
proof -
  let ?cs = "List.map_filter id (module_caps str_of uid)"
  obtain s' where s': "start_device quiet str_of uid s = (Inr (), s')"
    "\<And>i. map_of (s_caps s') i = map_option (android_adapter str_of) (first_named ?cs i)"
    "h_state (android_health s') = RUNNING" "s_dev s' = s_dev s"
    using android_start_registers[OF assms(1,2), of str_of ?cs] assms(3) by (auto simp: start_device_def)
  have "i \<in> dom (map_of (s_caps s')) \<longleftrightarrow> i \<in> set (cap_ids (device_caps str_of uid))" for i
  proof (cases "i \<in> set (cap_ids (device_caps str_of uid))")
    case True
    then obtain b c where "(b, c) \<in> set (device_caps str_of uid)" "i = cd_id (ac_descriptor c)"
      by (auto simp: cap_ids_def)
    with True first_named_known show ?thesis by (simp add: s'(2) domIff)
  next
    case False
    with first_named_unknown[OF False] show ?thesis by (simp add: s'(2) domIff)
  qed
  moreover have "list_all (\<lambda>(b, c). map_of (s_caps s') (cd_id (ac_descriptor c)) = Some (android_adapter str_of c))
      (device_caps str_of uid)"
    by (auto simp: list_all_iff s'(2) first_named_known)
  moreover have "length (device_caps str_of uid) = 38"
    by (simp add: device_caps_def pack_caps_def other_caps_def Let_def)
  ultimately show ?thesis using s' by blast
qed

text \<open>
  The device is complete after start: starting the Android runtime on empty registries with what
  its module collects never raises, aliases and empty classes included; the tool registry then holds
  exactly the 38 capabilities, each under its own identifier, none shadowed by another.
\<close>

theorem start_device_complete:
  assumes "\<not> an_started s" and "an_caps s = []" and "s_caps s = []"
  shows "\<exists>s'. start_device quiet str_of uid s = (Inr (), s') \<and>
    h_state (android_health s') = RUNNING \<and> s_dev s' = s_dev s \<and>
    length (device_caps str_of uid) = 38 \<and>
    dom (map_of (s_caps s')) = set (cap_ids (device_caps str_of uid)) \<and>
    list_all (\<lambda>(b, c). map_of (s_caps s') (cd_id (ac_descriptor c)) = Some (android_adapter str_of c))
      (device_caps str_of uid)"
  by (rule device_started[OF assms])

section \<open>Transactions on the device\<close>

text \<open>
  A part of a whole whose invariant and observation are made of those of its parts: replacing the part
  by one that looks as before makes the whole look as before.
\<close>

locale framed_part = state_part get put
  for get :: "'s \<Rightarrow> 'p" and put :: "'p \<Rightarrow> 's \<Rightarrow> 's" +
  fixes part_inv :: "'p \<Rightarrow> bool" and part_obs :: "'p \<Rightarrow> 'o"
    and whole_inv :: "'s \<Rightarrow> bool" and whole_obs :: "'s \<Rightarrow> 'w"
  assumes inv_get: "whole_inv s \<Longrightarrow> part_inv (get s)"
    and inv_put: "whole_inv s \<Longrightarrow> part_inv p \<Longrightarrow> whole_inv (put p s)"
    and obs_get: "whole_obs s = whole_obs t \<Longrightarrow> part_obs (get s) = part_obs (get t)"
    and obs_put: "whole_obs u = whole_obs (put q s) \<Longrightarrow> part_obs p = part_obs (get s) \<Longrightarrow>
      whole_obs (put p u) = whole_obs s"
begin

lemma lifted_undoable:
  assumes part: "undoable c able part_inv part_obs"
  shows "undoable (lift_cap get put c) (\<lambda>a s. able a (get s)) whole_inv whole_obs"
proof (rule undoable.intro)
  show "\<exists>n. dget a ''action'' = VStr n" if "able a (get s)" for a s
    using undoable.named[OF part that] .
next
  fix s a n v t u
  assume s: "whole_inv s" "able a (get s)" "dget a ''action'' = VStr n"
    and run: "ac_internal (lift_cap get put c) n a s = (Inr v, t)"
    and u: "whole_inv u" "whole_obs u = whole_obs t"
  obtain q where q: "ac_internal c n a (get s) = (Inr v, q)" "t = put q s"
    using run by (auto simp: lift_cap_def on_part_def split: prod.splits)
  have "part_obs (get u) = part_obs q" using obs_get[OF u(2)] q(2) by simp
  from undoable.undone[OF part inv_get[OF s(1)] s(2,3) q(1) inv_get[OF u(1)] this] obtain p where
    p: "adapter_rollback c a (success_value (cd_id (ac_descriptor c)) v) (get u) = (Inr (), p)"
      "part_inv p" "part_obs p = part_obs (get s)" by blast
  have "adapter_rollback (lift_cap get put c) a (success_value (cd_id (ac_descriptor c)) v) u = (Inr (), put p u)"
    by (simp add: rollback_lifted on_part_def p(1))
  moreover have "ac_descriptor (lift_cap get put c) = ac_descriptor c" by (simp add: lift_cap_def)
  ultimately show "\<exists>u'. adapter_rollback (lift_cap get put c) a
      (success_value (cd_id (ac_descriptor (lift_cap get put c))) v) u = (Inr (), u') \<and>
      whole_inv u' \<and> whole_obs u' = whole_obs s"
    using inv_put[OF u(1) p(2)] obs_put[OF u(2)[unfolded q(2)] p(3)] by simp
next
  fix s a n
  assume s: "whole_inv s" "able a (get s)" "dget a ''action'' = VStr n"
  have "snd (ac_internal (lift_cap get put c) n a s) = put (snd (ac_internal c n a (get s))) s"
    by (simp add: lift_cap_def on_part_def split: prod.split)
  with inv_put[OF s(1) undoable.kept[OF part inv_get[OF s(1)] s(2,3)]]
  show "whole_inv (snd (ac_internal (lift_cap get put c) n a s))" by simp
next
  fix s a n e t
  assume s: "whole_inv s" "able a (get s)" "dget a ''action'' = VStr n"
    and run: "ac_internal (lift_cap get put c) n a s = (Inl e, t)"
  obtain q where q: "ac_internal c n a (get s) = (Inl e, q)" "t = put q s"
    using run by (auto simp: lift_cap_def on_part_def split: prod.splits)
  from undoable.failed[OF part inv_get[OF s(1)] s(2,3) q(1)] q(2)
  show "whole_obs t = whole_obs s" using obs_put[of s "get s" s q] by simp
qed

end

text \<open>
  What is observed of the device: everything but the order of the entries of a dictionary, the
  supplies of new identifiers, and the snapshot that \<open>notification.clear\<close> keeps for itself and
  nothing reads. And the states in which records stand under their identifiers.
\<close>

definition device_obs where
  "device_obs s = (dv_system s, dv_network s, sms_obs (dv_sms s), contact_obs (dv_contacts s),
     notif_obs (dv_notif s), file_obs (dv_files s), gallery_obs (dv_gallery s),
     download_obs (dv_downloads s), dv_call s, dv_camera s, dv_microphone s, dv_media s, dv_storage s)"

definition device_ok :: "device \<Rightarrow> bool" where
  "device_ok s \<longleftrightarrow> levels_ok (dv_system s) \<and> net_ok (dv_network s) \<and> sms_ok (dv_sms s) \<and>
     contacts_ok (dv_contacts s) \<and> notif_ok (dv_notif s)"

interpretation framed_system: framed_part dv_system "\<lambda>p. dv_system_update (\<lambda>_. p)" "levels_ok" id device_ok device_obs
  by unfold_locales (auto simp: device_ok_def device_obs_def)

interpretation framed_network: framed_part dv_network "\<lambda>p. dv_network_update (\<lambda>_. p)" "net_ok" id device_ok device_obs
  by unfold_locales (auto simp: device_ok_def device_obs_def)

interpretation framed_sms: framed_part dv_sms "\<lambda>p. dv_sms_update (\<lambda>_. p)" "sms_ok" sms_obs device_ok device_obs
  by unfold_locales (auto simp: device_ok_def device_obs_def)

interpretation framed_contacts: framed_part dv_contacts "\<lambda>p. dv_contacts_update (\<lambda>_. p)" "contacts_ok" contact_obs device_ok device_obs
  by unfold_locales (auto simp: device_ok_def device_obs_def)

interpretation framed_notif: framed_part dv_notif "\<lambda>p. dv_notif_update (\<lambda>_. p)" "notif_ok" notif_obs device_ok device_obs
  by unfold_locales (auto simp: device_ok_def device_obs_def)

interpretation framed_files: framed_part dv_files "\<lambda>p. dv_files_update (\<lambda>_. p)" "\<lambda>p. True" file_obs device_ok device_obs
  by unfold_locales (auto simp: device_ok_def device_obs_def)

interpretation framed_gallery: framed_part dv_gallery "\<lambda>p. dv_gallery_update (\<lambda>_. p)" "\<lambda>p. True" gallery_obs device_ok device_obs
  by unfold_locales (auto simp: device_ok_def device_obs_def)

interpretation framed_downloads: framed_part dv_downloads "\<lambda>p. dv_downloads_update (\<lambda>_. p)" "\<lambda>p. True" download_obs device_ok device_obs
  by unfold_locales (auto simp: device_ok_def device_obs_def)

text \<open>
  The calls that can be undone: a control whose rollback is exact, any mutating call on a radio but
  pairing and unpairing, any on files, downloads, messages and notifications that its capability supports rolling back, deleting
  a gallery asset or contact, updating a contact, and adding one if its new identifier is free.
\<close>

definition reversible ::
  "(pyval \<Rightarrow> string) \<Rightarrow> (bridge_name \<Rightarrow> nat \<Rightarrow> string) \<Rightarrow> device android_cap \<Rightarrow>
   (args \<Rightarrow> device \<Rightarrow> bool) \<Rightarrow> bool" where
  "reversible str_of uid cap able \<longleftrightarrow>
     (\<exists>c \<in> set (system_caps str_of system_execute).
        cap = lift_cap dv_system (\<lambda>p. dv_system_update (\<lambda>_. p)) c \<and> able = (\<lambda>a s. exact_control c a (dv_system s))) \<or>
     (\<exists>c \<in> set (network_caps network_execute).
        cap = lift_cap dv_network (\<lambda>p. dv_network_update (\<lambda>_. p)) c \<and>
        able = (\<lambda>a s. radio_able c a)) \<or>
     cap \<in> {files_write (file_bridge str_of), downloads_write (download_bridge str_of (uid DownloadBridge)),
        sms_writer (sms_bridge str_of (uid SMSBridge)), notification_writer (notification_bridge str_of)} \<and>
        able = (\<lambda>a s. adapter_supports cap a = Inr True) \<or>
     cap = gallery_write (gallery_bridge str_of (uid GalleryBridge)) \<and>
        able = (\<lambda>a s. gallery_able (uid GalleryBridge) a (dv_gallery s)) \<or>
     cap = contacts_writer (contacts_bridge str_of (uid ContactsBridge)) \<and>
        able = (\<lambda>a s. contact_able (uid ContactsBridge) a (dv_contacts s))"

lemma file_undoable:
  "undoable (files_write (file_bridge str_of)) (\<lambda>a s. adapter_supports (files_write (file_bridge str_of)) a = Inr True) device_ok device_obs"
  using framed_files.lifted_undoable[OF files.undoable_axioms]
  by (simp add: bridge_defs lift_device files_part.supports_lifted)

lemma download_undoable:
  "undoable (downloads_write (download_bridge str_of uid)) (\<lambda>a s. adapter_supports (downloads_write (download_bridge str_of uid)) a = Inr True) device_ok device_obs"
  using framed_downloads.lifted_undoable[OF downloads.undoable_axioms]
  by (simp add: bridge_defs lift_device downloads_part.supports_lifted)

lemma message_undoable:
  "undoable (sms_writer (sms_bridge str_of uid)) (\<lambda>a s. adapter_supports (sms_writer (sms_bridge str_of uid)) a = Inr True) device_ok device_obs"
  using framed_sms.lifted_undoable[OF sms.undoable_axioms]
  by (simp add: bridge_defs lift_device sms_part.supports_lifted)

lemma notification_undoable:
  "undoable (notification_writer (notification_bridge str_of)) (\<lambda>a s. adapter_supports (notification_writer (notification_bridge str_of)) a = Inr True) device_ok device_obs"
  using framed_notif.lifted_undoable[OF notifications.undoable_axioms]
  by (simp add: bridge_defs lift_device notif_part.supports_lifted)

lemma asset_undoable:
  "undoable (gallery_write (gallery_bridge str_of uid)) (\<lambda>a s. gallery_able uid a (dv_gallery s)) device_ok device_obs"
  using framed_gallery.lifted_undoable[OF gallery.undoable_axioms] by (simp add: bridge_defs lift_device)

lemma contact_call_undoable:
  "undoable (contacts_writer (contacts_bridge str_of uid)) (\<lambda>a s. contact_able uid a (dv_contacts s))
     device_ok device_obs"
  using framed_contacts.lifted_undoable[OF contacts.undoable_axioms] by (simp add: bridge_defs lift_device)

lemmas packs_undoable = file_undoable download_undoable message_undoable notification_undoable
  asset_undoable contact_call_undoable

lemma reversible_undoable:
  assumes "reversible str_of uid cap able"
  shows "undoable cap able device_ok device_obs"
  using assms unfolding reversible_def insert_iff empty_iff
proof (elim disjE FalseE bexE conjE)
  fix c assume "c \<in> set (system_caps str_of system_execute)"
    and c: "cap = lift_cap dv_system (\<lambda>p. dv_system_update (\<lambda>_. p)) c" "able = (\<lambda>a s. exact_control c a (dv_system s))"
  from framed_system.lifted_undoable[OF controls_undoable[OF this(1)]] show ?thesis unfolding c .
next
  fix c assume "c \<in> set (network_caps network_execute)"
    and c: "cap = lift_cap dv_network (\<lambda>p. dv_network_update (\<lambda>_. p)) c"
      "able = (\<lambda>a s. radio_able c a)"
  from framed_network.lifted_undoable[OF radios_undoable[OF this(1)]] show ?thesis unfolding c .
qed (simp_all only: packs_undoable)

text \<open>Calls on several capabilities, each undoable on its own, are compensable together.\<close>

definition reversible_call ::
  "(pyval \<Rightarrow> string) \<Rightarrow> (bridge_name \<Rightarrow> nat \<Rightarrow> string) \<Rightarrow> device android_cap \<times> args \<Rightarrow> device \<Rightarrow> bool" where
  "reversible_call str_of uid call s \<longleftrightarrow> (\<exists>able. reversible str_of uid (fst call) able \<and> able (snd call) s)"

interpretation device: compensable "control_step str_of" control_undo "reversible_call str_of uid"
  device_ok device_obs for str_of uid
proof unfold_locales
  fix s call v t u
  assume s: "device_ok s" "reversible_call str_of uid call s" "control_step str_of call s = (Some v, t)"
    and u: "device_ok u" "device_obs u = device_obs t"
  obtain able where able: "reversible str_of uid (fst call) able" "able (snd call) s"
    using s(2) by (auto simp: reversible_call_def)
  from compensable.undo_step[OF undoable.steps_compensable[OF reversible_undoable[OF able(1)]] s(1) _ s(3) u] able(2)
  show "device_ok (control_undo call v u) \<and> device_obs (control_undo call v u) = device_obs s" by simp
next
  fix s call
  assume s: "device_ok s" "reversible_call str_of uid call s"
  obtain able where able: "reversible str_of uid (fst call) able" "able (snd call) s"
    using s(2) by (auto simp: reversible_call_def)
  from compensable.step_inv[OF undoable.steps_compensable[OF reversible_undoable[OF able(1)]] s(1)] able(2)
  show "device_ok (snd (control_step str_of call s))" by simp
next
  fix s call t
  assume s: "device_ok s" "reversible_call str_of uid call s" "control_step str_of call s = (None, t)"
  obtain able where able: "reversible str_of uid (fst call) able" "able (snd call) s"
    using s(2) by (auto simp: reversible_call_def)
  from compensable.step_fail[OF undoable.steps_compensable[OF reversible_undoable[OF able(1)]] s(1) _ s(3)] able(2)
  show "device_obs t = device_obs s" by simp
qed

text \<open>
  C10. Transactions across the device are atomic. Executing a list of reversible calls on any
  capabilities - controls whose rollback is exact, radios without pairing, files, downloads,
  gallery, messages, contacts, notifications - stopping at the first that fails, and rolling the
  executed ones back in reverse order with their results gives back the state of every bridge:
  all settings, radios and pairings, and every entry of every dictionary. Only the order of the
  entries, the supplies of new identifiers and the snapshot that \<open>notification.clear\<close> keeps for
  itself, which nothing reads, are not compared.
\<close>

theorem device_transaction:
  assumes "device_ok s" and "steps_satisfy (control_step str_of) (reversible_call str_of uid) calls s"
    and "run_steps (control_step str_of) calls [] s = (done_calls, t)"
  shows "device_obs (undo_steps control_undo done_calls t) = device_obs s"
  by (rule device.transaction_undone[OF assms])

lemma initial_device_ok: "device_ok initial_device"
proof -
  have "identified (sm_inbox initial_smsdev)" "identified (ct_contacts initial_contactdev)"
    "identified (nt_active initial_notifdev)"
    by (auto simp: identified_def vs_map_def initial_smsdev_def sms_message_def initial_contactdev_def
        contact_entry_def initial_notifdev_def notification_entry_def split: if_splits)
  moreover have "net_ok initial_netdev" unfolding initial_net_ok by (auto simp: net_ok_def radios_ok_def)
  ultimately show ?thesis
    by (simp add: device_ok_def initial_device_def initial_levels sms_ok_def contacts_ok_def notif_ok_def
        apart_def initial_smsdev_def sms_message_def initial_notifdev_def notification_entry_def
        string_keyed_def plain_entry_def vs_map_def)
qed

text \<open>A transaction whose last call fails: a file is created, the notifications are cleared, the file is created again.\<close>

definition bridge_uid :: "bridge_name \<Rightarrow> nat \<Rightarrow> string" where
  "bridge_uid b n = str_of_nat n"

definition example_calls :: "(device android_cap \<times> args) list" where
  "example_calls = (let create = (files_write (file_bridge (\<lambda>v. [])),
       [(''action'', VStr ''files.create''), (''path'', VStr ''/a'')]) in
     [create, (notification_writer (notification_bridge (\<lambda>v. [])), [(''action'', VStr ''notification.clear'')]),
      create])"

lemmas run_defs = control_step_def execute_action_def files_write_def file_mutating_def
  notification_writer_def notification_reversible_def write_descriptor_def mutating_descriptor_def
  base_descriptor_def bridge_defs lift_bridge_def on_part_def file_execute_def file_create_def
  no_file_def lookA_def putA_def need_def vs_put_def vs_map_def notification_execute_def
  notification_clear_def shown_keys_def stored_values_def notification_entry_def key_text_def
  initial_device_def initial_notifdev_def initial_filedev_def path_reply_def act_defs Let_def
  cap_failure_def

lemma reversible_pack:
  assumes "cap \<in> {files_write (file_bridge str_of), downloads_write (download_bridge str_of (uid DownloadBridge)),
        sms_writer (sms_bridge str_of (uid SMSBridge)), notification_writer (notification_bridge str_of)}"
    and "adapter_supports cap a = Inr True"
  shows "reversible_call str_of uid (cap, a) s"
  unfolding reversible_call_def fst_conv snd_conv
proof (intro exI conjI)
  show "reversible str_of uid cap (\<lambda>a s. adapter_supports cap a = Inr True)"
    unfolding reversible_def using assms(1) by blast
qed (rule assms(2))

lemma example_reversible:
  assumes "call \<in> set example_calls"
  shows "reversible_call (\<lambda>v. []) bridge_uid call s"
proof -
  have "adapter_supports (files_write b) [(''action'', VStr ''files.create''), (''path'', VStr ''/a'')] = Inr True"
    for b :: "device bridge"
    by (simp add: adapter_supports_def files_write_def action_in_def file_mutating_def)
  moreover have "adapter_supports (notification_writer b) [(''action'', VStr ''notification.clear'')] = Inr True"
    for b :: "device bridge"
    by (simp add: notification_supported)
  ultimately show ?thesis
    using assms unfolding example_calls_def Let_def set_simps insert_iff empty_iff
    by (elim disjE FalseE) (simp_all only: reversible_pack insert_iff simp_thms)
qed

lemma example_run:
  "\<exists>v w t. run_steps (control_step (\<lambda>v. [])) example_calls [] initial_device =
     ([(example_calls ! 1, w), (example_calls ! 0, v)], t) \<and>
     steps_satisfy (control_step (\<lambda>v. [])) (reversible_call (\<lambda>v. []) bridge_uid) example_calls initial_device \<and>
     file_obs (dv_files t) (VStr ''/a'') \<noteq> None \<and> nt_active (dv_notif t) = []"
proof -
  have "\<forall>call \<in> set example_calls. \<forall>s. reversible_call (\<lambda>v. []) bridge_uid call s"
    using example_reversible by blast
  then show ?thesis
    by (simp add: example_calls_def run_defs file_obs_def)
qed

theorem device_transaction_witness:
  "\<exists>done_calls t. run_steps (control_step (\<lambda>v. [])) example_calls [] initial_device = (done_calls, t) \<and>
     length done_calls = 2 \<and> device_obs t \<noteq> device_obs initial_device \<and>
     device_obs (undo_steps control_undo done_calls t) = device_obs initial_device"
proof -
  obtain v w t where t: "run_steps (control_step (\<lambda>v. [])) example_calls [] initial_device =
      ([(example_calls ! 1, w), (example_calls ! 0, v)], t)"
    "steps_satisfy (control_step (\<lambda>v. [])) (reversible_call (\<lambda>v. []) bridge_uid) example_calls initial_device"
    "file_obs (dv_files t) (VStr ''/a'') \<noteq> None"
    using example_run by blast
  have "device_obs t \<noteq> device_obs initial_device"
    using t(3) by (auto simp: device_obs_def initial_device_def initial_filedev_def file_obs_def)
  with device_transaction[OF initial_device_ok t(2,1)] t(1) show ?thesis by auto
qed

definition example_dsys :: "device asys" where
  "example_dsys = \<lparr>w_trace = [], w_uid = 0, s_caps = [], s_dev = initial_device, an_caps = [],
     an_status = RtSTOPPED, an_started = False\<rparr>"

theorem start_device_complete_witness:
  "\<exists>s'. start_device quiet (\<lambda>v. []) bridge_uid example_dsys = (Inr (), s') \<and>
    map_of (s_caps s') ''android.device.files.read'' \<noteq> None \<and> map_of (s_caps s') ''camera'' = None"
proof -
  have "\<not> an_started example_dsys" "an_caps example_dsys = []" "s_caps example_dsys = []"
    by (simp_all add: example_dsys_def)
  from start_device_complete[OF this, of "\<lambda>v. []" bridge_uid] obtain s' where
    s': "start_device quiet (\<lambda>v. []) bridge_uid example_dsys = (Inr (), s')"
    "dom (map_of (s_caps s')) = set (cap_ids (device_caps (\<lambda>v. []) bridge_uid))" by blast
  have ids: "cap_ids (device_caps (\<lambda>v. []) bridge_uid) =
      cap_ids (pack_caps (\<lambda>v. []) bridge_uid) @ cap_ids other_caps"
    by (simp add: device_caps_def cap_ids_def)
  have "''android.device.files.read'' \<in> dom (map_of (s_caps s'))" "''camera'' \<notin> dom (map_of (s_caps s'))"
    unfolding s'(2) ids cap_ids_pack cap_ids_other by simp_all
  with s'(1) show ?thesis by (simp add: domIff)
qed

end
