(* ===== verification/Device_Execution.thy ===== *)
theory Device_Execution
  imports Device Execution
begin

text \<open>
  The path of a command from the execution service (core/execution/service.py) to the device:
  classification, permission, dispatch to the adapter the Android module has registered, the base
  class and the bridge. The registry the runtime reads is the one the module has filled; the state
  of the Android runtime and that of the service are two views of it.
\<close>

section \<open>Adapters under the runtime\<close>

text \<open>The metadata of an adapter is of the core class, so the service classifies every call as a read.\<close>

lemma adapter_reads:
  assumes "lookup s (c_capability c) = Inr (android_adapter str_of cap)"
  shows "classify s c = READ"
proof (rule core_metadata_reads[OF assms])
  show "cap_metadata (android_adapter str_of cap) = Some (adapter_metadata (ac_descriptor cap))"
    by (simp add: android_adapter_def)
  show "cm_mutation (adapter_metadata (ac_descriptor cap)) = None \<or>
    (\<exists>meta. cm_mutation (adapter_metadata (ac_descriptor cap)) = Some (CoreMeta meta))"
    by (simp add: adapter_metadata_def)
qed

lemma adapter_executes:
  assumes "execute_action str_of cap a d = (Inr x, d')" and "er_arguments r = VDict a"
  shows "cap_execute (android_adapter str_of cap) r d = (Inr (result_value x), d')"
  using assms by (simp add: android_adapter_def adapter_execute_def act_defs)

text \<open>A command that is permitted without approval, on any registered Android capability.\<close>

lemma adapter_command_runs:
  assumes "xe_mw env = quiet" and "c_id c \<noteq> []" and "c_capability c \<noteq> []" and "xe_uid env (w_uid s) \<noteq> []"
    and "find_requirement (sm_policies (xe_security env)) (c_capability c) = Some q"
    and "trust_sufficient (command_trust c) (rq_trust q)" and "\<not> rq_approval q"
    and cap: "lookup s (c_capability c) = Inr (android_adapter str_of cap)"
  shows "\<exists>oc s' x. execute env menv (Some c) s = (Inr oc, s') \<and>
    execute_action str_of cap (c_arguments c) (s_dev s) = (Inr x, s_dev s') \<and>
    o_status oc = OUT_SUCCEEDED \<and> o_data oc = result_value x \<and> no_mutation s s'"
proof -
  obtain x d where x: "execute_action str_of cap (c_arguments c) (s_dev s) = (Inr x, d)"
    using execute_action_total[of str_of cap "c_arguments c" "s_dev s"] by blast
  let ?r = "\<lparr>er_execution = c_id c, er_capability = c_capability c,
           er_arguments = VDict (c_arguments c), er_metadata = c_metadata c\<rparr>"
  note cl = adapter_reads[OF cap]
  have "cap_execute (android_adapter str_of cap) ?r (s_dev s) = (Inr (result_value x), d)"
    by (rule adapter_executes[OF x]) simp
  from permitted_read_runs[OF assms(1-8) cl this, of menv] obtain oc s' where
    run: "execute env menv (Some c) s = (Inr oc, s')" "s_dev s' = d" "o_status oc = OUT_SUCCEEDED"
      "o_data oc = result_value x" by auto
  with read_skips_manager(2)[OF cl, of env menv] x show ?thesis by auto
qed

section \<open>From a command to the device\<close>

text \<open>
  C6. What a permitted command does on the device: after the Android module has started, a command
  for any of its 38 capabilities that a policy grants without approval runs that capability once, on
  its own bridge, and succeeds with the capability's result as data, a failure of the capability
  included; no bridge but its own changes. With or without a mutation manager it is the same: no
  confirmation is asked for, nothing is audited, whatever the descriptor of the capability demands.
\<close>

theorem device_command_executes:
  assumes "\<not> an_started a" and "an_caps a = []" and "s_caps a = []"
    and "start_device quiet str_of uid a = (Inr (), a')" and "s_caps s = s_caps a'"
    and "(b, cap) \<in> set (device_caps str_of uid)" and "c_capability c = cd_id (ac_descriptor cap)"
    and "xe_mw env = quiet" and "c_id c \<noteq> []" and "xe_uid env (w_uid s) \<noteq> []"
    and "find_requirement (sm_policies (xe_security env)) (c_capability c) = Some q"
    and "trust_sufficient (command_trust c) (rq_trust q)" and "\<not> rq_approval q"
  shows "\<exists>oc s' x. execute env menv (Some c) s = (Inr oc, s') \<and>
    execute_action str_of cap (c_arguments c) (s_dev s) = (Inr x, s_dev s') \<and>
    o_status oc = OUT_SUCCEEDED \<and> o_data oc = result_value x \<and> s_audit s' = s_audit s \<and>
    (\<forall>p. p \<noteq> b \<longrightarrow> same_part p (s_dev s) (s_dev s'))"
proof -
  have "map_of (s_caps a') (cd_id (ac_descriptor cap)) = Some (android_adapter str_of cap)"
    using device_started[OF assms(1-3), of str_of uid] assms(4,6) by (auto simp: list_all_iff)
  then have l: "lookup s (c_capability c) = Inr (android_adapter str_of cap)"
    using assms(5,7) by (simp add: lookup_def)
  have n: "c_capability c \<noteq> []"
    using assms(6,7) cap_ids_nonempty[of str_of uid] by (force simp: cap_ids_def)
  from adapter_command_runs[OF assms(8,9) n assms(10-13) l, of menv] obtain oc s' x where
    run: "execute env menv (Some c) s = (Inr oc, s')"
      "execute_action str_of cap (c_arguments c) (s_dev s) = (Inr x, s_dev s')"
      "o_status oc = OUT_SUCCEEDED" "o_data oc = result_value x" "no_mutation s s'" by blast
  have "same_part p (s_dev s) (s_dev s')" if "p \<noteq> b" for p
    using confined_call(1)[OF device_caps_confined[OF assms(6)] that, of "s_dev s" str_of] run(2)
    by (metis snd_conv)
  with run show ?thesis by (auto simp: no_mutation_def)
qed

text \<open>Formatting the storage, granted by a policy, without a confirmation.\<close>

definition storage_command :: command where
  "storage_command = \<lparr>c_id = ''1'', c_capability = ''android.device.storage.write'',
     c_arguments = [(''action'', VStr ''storage.format'')], c_metadata = []\<rparr>"

definition storage_env :: exec_env where
  "storage_env = \<lparr>xe_mw = quiet, xe_uid = (\<lambda>n. ''u''), xe_names = (\<lambda>c. ''Error''),
     xe_security = \<lparr>sm_policies = [(''p'', \<lparr>pp_id = ''p'', pp_requirements =
       [\<lparr>rq_capability = ''android.device.storage.write'', rq_trust = UNTRUSTED, rq_approval = False\<rparr>]\<rparr>)],
       sm_started = True\<rparr>,
     xe_confirmation = None\<rparr>"

theorem device_command_executes_witness:
  "\<exists>a' oc s'. start_device quiet (\<lambda>v. []) bridge_uid example_dsys = (Inr (), a') \<and>
    execute storage_env None (Some storage_command) \<lparr>w_trace = [], w_uid = 0, s_caps = s_caps a',
      s_dev = initial_device, s_audit = []\<rparr> = (Inr oc, s') \<and>
    o_status oc = OUT_SUCCEEDED \<and> sg_used (dv_storage (s_dev s')) = 0 \<and>
    dv_files (s_dev s') = dv_files initial_device"
proof -
  have empty: "\<not> an_started example_dsys" "an_caps example_dsys = []" "s_caps example_dsys = []"
    by (simp_all add: example_dsys_def)
  from device_started[OF this, of "\<lambda>v. []" bridge_uid] obtain a' where
    a': "start_device quiet (\<lambda>v. []) bridge_uid example_dsys = (Inr (), a')" by blast
  let ?cap = "storage_write storage_bridge :: device android_cap"
  let ?s = "\<lparr>w_trace = [], w_uid = 0, s_caps = s_caps a', s_dev = initial_device, s_audit = []\<rparr>"
  let ?q = "\<lparr>rq_capability = ''android.device.storage.write'', rq_trust = UNTRUSTED, rq_approval = False\<rparr>"
  have cap: "(StorageBridge, ?cap) \<in> set (device_caps (\<lambda>v. []) bridge_uid)"
    by (simp add: device_caps_def pack_caps_def Let_def)
  have i: "c_capability storage_command = cd_id (ac_descriptor ?cap)"
    by (simp add: storage_command_def storage_write_def irreversible_capability_def write_descriptor_def
        descriptor_defs)
  have q: "find_requirement (sm_policies (xe_security storage_env)) (c_capability storage_command) = Some ?q"
    by (simp add: storage_env_def storage_command_def find_requirement_def)
  have t: "trust_sufficient (command_trust storage_command) (rq_trust ?q)" "\<not> rq_approval ?q"
    by (simp_all add: trust_sufficient_def)
  have e: "xe_mw storage_env = quiet" "c_id storage_command \<noteq> []" "xe_uid storage_env (w_uid ?s) \<noteq> []"
    by (simp_all add: storage_env_def storage_command_def)
  have r: "s_caps ?s = s_caps a'" by simp
  from device_command_executes[OF empty a' r cap i e q t, where menv = None] obtain oc s' x where
    run: "execute storage_env None (Some storage_command) ?s = (Inr oc, s')" "o_status oc = OUT_SUCCEEDED"
      "execute_action (\<lambda>v. []) ?cap (c_arguments storage_command) initial_device = (Inr x, s_dev s')"
      "\<forall>p. p \<noteq> StorageBridge \<longrightarrow> same_part p initial_device (s_dev s')" by auto
  have "s_dev s' = initial_device\<lparr>dv_storage := dv_storage initial_device\<lparr>sg_used := 0, sg_cache := 0\<rparr>\<rparr>"
    using run(3) by (auto simp: execute_action_def storage_command_def storage_write_def act_defs
        irreversible_capability_def write_descriptor_def descriptor_defs dget_or_def Let_def
        storage_bridge_def lift_bridge_def on_part_def storage_execute_def)
  then have "sg_used (dv_storage (s_dev s')) = 0" by simp
  moreover have "dv_files (s_dev s') = dv_files initial_device"
    using run(4)[rule_format, of FileBridge] by simp
  ultimately show ?thesis using a' run(1,2) by blast
qed

end
