(* ===== verification/Plugins.thy ===== *)
theory Plugins
  imports Security
begin

text \<open>
  The plugin framework (core/plugins): manifests and descriptors, the in-memory registry, loader,
  validator and health tracker, and the manager that moves plugins through their states. What
  the loader finds is a list of metadata; the bundled loader finds one built-in plugin.
\<close>

section \<open>Models\<close>

datatype plugin_state = DISCOVERED | VALIDATED | REGISTERED | LOADED | ENABLED | DISABLED | IN_ERROR

fun plugin_state_text :: "plugin_state \<Rightarrow> string" where
  "plugin_state_text DISCOVERED = ''PluginState.DISCOVERED''"
| "plugin_state_text VALIDATED = ''PluginState.VALIDATED''"
| "plugin_state_text REGISTERED = ''PluginState.REGISTERED''"
| "plugin_state_text LOADED = ''PluginState.LOADED''"
| "plugin_state_text ENABLED = ''PluginState.ENABLED''"
| "plugin_state_text DISABLED = ''PluginState.DISABLED''"
| "plugin_state_text IN_ERROR = ''PluginState.ERROR''"

datatype plugin_type = BUILTIN | LOCAL | REMOTE

datatype plugin_status = HEALTHY | PLUGIN_DEGRADED | OFFLINE

record plugin_dependency =
  pd_id :: string
  pd_min_version :: string
  pd_optional :: bool

record plugin_capability =
  pc_id :: string
  pc_description :: string

record plugin_manifest =
  pm_id :: string
  pm_name :: string
  pm_version :: string
  pm_author :: string
  pm_description :: string
  pm_type :: plugin_type
  pm_dependencies :: "plugin_dependency list"
  pm_capabilities :: "plugin_capability list"
  pm_min_os :: string
  pm_api :: string

record plugin_metadata =
  pt_manifest :: "plugin_manifest option"
  pt_source :: string
  pt_checksum :: string

record plugin_descriptor =
  pl_id :: string
  pl_metadata :: plugin_metadata
  pl_state :: plugin_state
  pl_status :: plugin_status

record plugin_result =
  pr_id :: string
  pr_success :: bool
  pr_state :: plugin_state
  pr_error :: "string option"

record pluginsys = world +
  ps_plugins :: "(string, plugin_descriptor) pydict"
  ps_available :: bool

section \<open>Registry, health tracker, loader, validator\<close>

definition plugin_register :: "plugin_descriptor \<Rightarrow> ('z pluginsys_scheme, unit) act" where
  "plugin_register d s = (Inr (), s\<lparr>ps_plugins := AList.update (pl_id d) d (ps_plugins s)\<rparr>)"

definition plugin_unregister :: "string \<Rightarrow> ('z pluginsys_scheme, bool) act" where
  "plugin_unregister i s = (if map_of (ps_plugins s) i \<noteq> None
     then (Inr True, s\<lparr>ps_plugins := AList.delete i (ps_plugins s)\<rparr>) else (Inr False, s))"

definition plugin_lookup :: "string \<Rightarrow> 'z pluginsys_scheme \<Rightarrow> plugin_descriptor option" where
  "plugin_lookup i s = map_of (ps_plugins s) i"

definition plugins :: "'z pluginsys_scheme \<Rightarrow> plugin_descriptor list" where
  "plugins s = dict_values (ps_plugins s)"

definition plugin_health :: "'z pluginsys_scheme \<Rightarrow> component_health" where
  "plugin_health s = (if \<not> ps_available s
     then \<lparr>h_state = STOPPED, h_details = ''Plugin Framework is stopped.''\<rparr>
     else \<lparr>h_state = RUNNING, h_details = ''Plugin Framework is healthy.''\<rparr>)"

definition plugin_start :: "('z pluginsys_scheme, unit) act" where
  "plugin_start s = (Inr (), s\<lparr>ps_available := True\<rparr>)"

definition plugin_shutdown :: "('z pluginsys_scheme, unit) act" where
  "plugin_shutdown s = (Inr (), s\<lparr>ps_available := False\<rparr>)"

definition default_loader :: "plugin_metadata list" where
  "default_loader = [\<lparr>pt_manifest = Some \<lparr>pm_id = ''core.example.plugin'', pm_name = ''Example Plugin'',
     pm_version = ''1.0.0'', pm_author = ''IRA OS'', pm_description = ''A built-in example plugin'',
     pm_type = BUILTIN, pm_dependencies = [], pm_capabilities = [], pm_min_os = ''1.0.0'',
     pm_api = ''1.0''\<rparr>, pt_source = ''builtin://core.example.plugin'', pt_checksum = ''00000000''\<rparr>]"

definition invalid_plugin :: "string \<Rightarrow> pyexn" where
  "invalid_plugin m = Exn (InPlugins PluginValidationError) m"

text \<open>Identifiers are strings; metadata itself is always present where the manager validates.\<close>

definition validate_plugin :: "plugin_metadata \<Rightarrow> pyexn + bool" where
  "validate_plugin m = (case pt_manifest m of
     None \<Rightarrow> Inl (invalid_plugin ''Plugin manifest is missing.'')
   | Some f \<Rightarrow>
       if pm_id f = [] then Inl (invalid_plugin ''Plugin ID is required and must be a string.'')
       else if pm_version f = [] then Inl (invalid_plugin ''Plugin version is required.'')
       else Inr True)"

section \<open>The manager\<close>

text \<open>Only a \<open>PluginValidationError\<close> is caught; one that a middleware of the bus raises is too.\<close>

definition discover_one :: "bus \<Rightarrow> plugin_metadata \<Rightarrow> ('z pluginsys_scheme, unit) act" where
  "discover_one mw m = (case pt_manifest m of
     None \<Rightarrow> raise (Py PyAttributeError) ''NoneType object has no attribute id''
   | Some f \<Rightarrow> catchA
       (seqA (liftA (validate_plugin m))
       (seqA (plugin_register \<lparr>pl_id = pm_id f, pl_metadata = m, pl_state = DISCOVERED,
           pl_status = HEALTHY\<rparr>)
         (publish mw (EvPlugin (PluginDiscovered (pm_id f) (pm_name f) (pm_version f))))))
       (\<lambda>e. if exn_cls e = InPlugins PluginValidationError
          then publish mw (EvPlugin (PluginValidationFailed (pm_id f) (exn_msg e)))
          else (\<lambda>s. (Inl e, s))))"

primrec discover :: "bus \<Rightarrow> plugin_metadata list \<Rightarrow> ('z pluginsys_scheme, unit) act" where
  "discover mw [] = ret ()"
| "discover mw (m # ms) = seqA (discover_one mw m) (discover mw ms)"

definition plugin_missing :: "string \<Rightarrow> pyexn" where
  "plugin_missing i = Exn (InPlugins PluginNotFoundError) (''Plugin '' @ i @ '' not found in registry.'')"

definition state_error :: "string \<Rightarrow> plugin_state \<Rightarrow> pyexn" where
  "state_error m st = Exn (InPlugins PluginStateError) (m @ plugin_state_text st)"

text \<open>
  The common tail of the transitions: the descriptor is replaced by one in the new state, the
  event is published, the result returned. The descriptor is the one looked up at the start.
\<close>

definition plugin_move ::
  "bus \<Rightarrow> plugin_descriptor \<Rightarrow> plugin_state \<Rightarrow> (string \<Rightarrow> plugin_event) \<Rightarrow> string \<Rightarrow>
   ('z pluginsys_scheme, plugin_result) act" where
  "plugin_move mw d st ev i =
     seqA (plugin_register \<lparr>pl_id = pl_id d, pl_metadata = pl_metadata d, pl_state = st,
         pl_status = pl_status d\<rparr>)
     (seqA (publish mw (EvPlugin (ev i)))
       (ret \<lparr>pr_id = i, pr_success = True, pr_state = st, pr_error = None\<rparr>))"

definition plugin_load :: "bus \<Rightarrow> string \<Rightarrow> ('z pluginsys_scheme, plugin_result) act" where
  "plugin_load mw i s = (case plugin_lookup i s of
     None \<Rightarrow> (Inl (plugin_missing i), s)
   | Some d \<Rightarrow>
       if pl_state d \<noteq> DISCOVERED then (Inl (state_error ''Cannot load plugin in state '' (pl_state d)), s)
       else plugin_move mw d LOADED PluginLoaded (pl_id d) s)"

definition plugin_enable :: "bus \<Rightarrow> string \<Rightarrow> ('z pluginsys_scheme, plugin_result) act" where
  "plugin_enable mw i s = (case plugin_lookup i s of
     None \<Rightarrow> (Inl (plugin_missing i), s)
   | Some d \<Rightarrow>
       if pl_state d \<noteq> LOADED
       then (Inl (state_error ''Plugin must be LOADED to enable, currently '' (pl_state d)), s)
       else plugin_move mw d ENABLED PluginEnabled i s)"

definition plugin_disable :: "bus \<Rightarrow> string \<Rightarrow> ('z pluginsys_scheme, plugin_result) act" where
  "plugin_disable mw i s = (case plugin_lookup i s of
     None \<Rightarrow> (Inl (plugin_missing i), s)
   | Some d \<Rightarrow>
       if pl_state d \<noteq> ENABLED
       then (Inl (state_error ''Plugin must be ENABLED to disable, currently '' (pl_state d)), s)
       else plugin_move mw d LOADED PluginDisabled i s)"

definition plugin_unload :: "bus \<Rightarrow> string \<Rightarrow> ('z pluginsys_scheme, plugin_result) act" where
  "plugin_unload mw i s = (case plugin_lookup i s of
     None \<Rightarrow> (Inl (plugin_missing i), s)
   | Some d \<Rightarrow>
       seqA (if pl_state d = ENABLED then bindA (plugin_disable mw i) (\<lambda>_. ret ()) else ret ())
         (plugin_move mw d DISCOVERED PluginUnloaded i) s)"

definition plugin_status_of :: "string \<Rightarrow> 'z pluginsys_scheme \<Rightarrow> pyexn + plugin_status" where
  "plugin_status_of i s = (case plugin_lookup i s of
     None \<Rightarrow> Inl (Exn (InPlugins PluginNotFoundError) (''Plugin '' @ i @ '' not found.''))
   | Some d \<Rightarrow> Inr (pl_status d))"

section \<open>The event history determines the states\<close>

datatype plugin_op = Discover "plugin_metadata list" | Load string | Unload string | Enable string
  | Disable string | StartFramework | StopFramework

fun run_plugin_op :: "plugin_op \<Rightarrow> ('z pluginsys_scheme, unit) act" where
  "run_plugin_op (Discover ms) = discover quiet ms"
| "run_plugin_op (Load i) = bindA (plugin_load quiet i) (\<lambda>_. ret ())"
| "run_plugin_op (Unload i) = bindA (plugin_unload quiet i) (\<lambda>_. ret ())"
| "run_plugin_op (Enable i) = bindA (plugin_enable quiet i) (\<lambda>_. ret ())"
| "run_plugin_op (Disable i) = bindA (plugin_disable quiet i) (\<lambda>_. ret ())"
| "run_plugin_op StartFramework = plugin_start"
| "run_plugin_op StopFramework = plugin_shutdown"

definition no_plugins :: pluginsys where
  "no_plugins = \<lparr>w_trace = [], w_uid = 0, ps_plugins = [], ps_available = False\<rparr>"

inductive reachable_plugins :: "pluginsys \<Rightarrow> bool" where
  initial: "reachable_plugins no_plugins"
| step: "reachable_plugins s \<Longrightarrow> run_plugin_op p s = (r, t) \<Longrightarrow> reachable_plugins t"

inductive_cases reachable_pluginsE: "reachable_plugins s"

text \<open>What an event says about the state of one plugin, and the state a whole history gives.\<close>

fun plugin_effect :: "string \<Rightarrow> event \<Rightarrow> plugin_state option \<Rightarrow> plugin_state option" where
  "plugin_effect i (EvPlugin (PluginDiscovered j n v)) st = (if j = i then Some DISCOVERED else st)"
| "plugin_effect i (EvPlugin (PluginLoaded j)) st = (if j = i then Some LOADED else st)"
| "plugin_effect i (EvPlugin (PluginEnabled j)) st = (if j = i then Some ENABLED else st)"
| "plugin_effect i (EvPlugin (PluginDisabled j)) st = (if j = i then Some LOADED else st)"
| "plugin_effect i (EvPlugin (PluginUnloaded j)) st = (if j = i then Some DISCOVERED else st)"
| "plugin_effect i e st = st"

definition replay :: "string \<Rightarrow> event list \<Rightarrow> plugin_state option" where
  "replay i tr = fold (plugin_effect i) tr None"

lemma replay_snoc [simp]:
  "replay i (tr @ [e]) = plugin_effect i e (replay i tr)"
  "replay i (tr @ [e, f]) = plugin_effect i f (plugin_effect i e (replay i tr))"
  by (simp_all add: replay_def)

definition plugin_inv :: "'z pluginsys_scheme \<Rightarrow> bool" where
  "plugin_inv s \<longleftrightarrow> (\<forall>i d. plugin_lookup i s = Some d \<longrightarrow> pl_id d = i) \<and>
     (\<forall>i. map_option pl_state (plugin_lookup i s) = replay i (w_trace s))"

lemma plugin_invD:
  "plugin_inv s \<Longrightarrow> plugin_lookup i s = Some d \<Longrightarrow> pl_id d = i \<and> replay i (w_trace s) = Some (pl_state d)"
  unfolding plugin_inv_def by (metis option.map(2))

lemma plugin_lookup_update [simp]:
  "plugin_lookup j (s\<lparr>ps_plugins := AList.update i d (ps_plugins s), w_trace := tr\<rparr>) =
     (if j = i then Some d else plugin_lookup j s)"
  by (simp add: plugin_lookup_def)

text \<open>A transition of a stored plugin whose event says the new state.\<close>

lemma plugin_move_quiet:
  "plugin_move quiet d st ev i s = (Inr \<lparr>pr_id = i, pr_success = True, pr_state = st, pr_error = None\<rparr>,
     s\<lparr>ps_plugins := AList.update (pl_id d) (d\<lparr>pl_state := st\<rparr>) (ps_plugins s),
       w_trace := w_trace s @ [EvPlugin (ev i)]\<rparr>)"
  by (cases d) (simp add: plugin_move_def plugin_register_def seqA_def bindA_def ret_def)

lemma plugin_inv_move:
  assumes "plugin_inv s" "pl_id d = i"
    and "\<And>j st'. plugin_effect j (EvPlugin (ev i)) st' = (if i = j then Some st else st')"
  shows "plugin_inv (snd (plugin_move quiet d st ev i s))"
  using assms unfolding plugin_inv_def by (auto simp: plugin_move_quiet)

lemma plugin_inv_discover_one:
  assumes "plugin_inv s"
  shows "plugin_inv (snd (discover_one quiet m s))"
proof (cases "pt_manifest m")
  case None
  with assms show ?thesis by (simp add: discover_one_def raise_def)
next
  case (Some f)
  show ?thesis
  proof (cases "validate_plugin m")
    case (Inl e)
    with Some have "exn_cls e = InPlugins PluginValidationError"
      by (auto simp: validate_plugin_def invalid_plugin_def split: if_splits)
    with Some Inl assms show ?thesis
      by (simp add: discover_one_def catchA_def seqA_def bindA_def liftA_def plugin_inv_def plugin_lookup_def)
  next
    case (Inr b)
    with Some assms show ?thesis
      by (simp add: discover_one_def catchA_def seqA_def bindA_def liftA_def plugin_register_def
          plugin_inv_def)
  qed
qed

lemma plugin_inv_discover: "plugin_inv s \<Longrightarrow> plugin_inv (snd (discover quiet ms s))"
proof (induction ms arbitrary: s)
  case Nil
  then show ?case by (simp add: ret_def)
next
  case (Cons m ms)
  then show ?case
    using plugin_inv_discover_one[OF Cons.prems, of m]
    by (cases "discover_one quiet m s")
      (auto simp: seqA_def bindA_def split: sum.split simp del: quiet_apply)
qed

text \<open>Unloading an enabled plugin disables it first.\<close>

lemma plugin_unload_quiet:
  assumes "plugin_inv s" "plugin_lookup i s = Some d"
  shows "plugin_unload quiet i s = plugin_move quiet d DISCOVERED PluginUnloaded i
    (if pl_state d = ENABLED then snd (plugin_move quiet d LOADED PluginDisabled i s) else s)"
  using assms(2)
  by (simp add: plugin_unload_def plugin_disable_def seqA_def bindA_def ret_def plugin_move_quiet)

lemma plugin_inv_op: "plugin_inv s \<Longrightarrow> plugin_inv (snd (run_plugin_op p s))"
proof (cases p)
  case (Unload i)
  assume inv: "plugin_inv s"
  show ?thesis
  proof (cases "plugin_lookup i s")
    case None
    with Unload inv show ?thesis by (simp add: plugin_unload_def bindA_def)
  next
    case (Some d)
    let ?t = "if pl_state d = ENABLED then snd (plugin_move quiet d LOADED PluginDisabled i s) else s"
    have "plugin_inv ?t"
      using plugin_inv_move[OF inv, of d i PluginDisabled LOADED] plugin_invD[OF inv Some] inv by simp
    from plugin_inv_move[OF this, of d i PluginUnloaded DISCOVERED] plugin_invD[OF inv Some]
    have "plugin_inv (snd (plugin_unload quiet i s))"
      unfolding plugin_unload_quiet[OF inv Some] by simp
    with Unload show ?thesis
      by (cases "plugin_unload quiet i s") (auto simp: bindA_def ret_def split: sum.split)
  qed
next
  case (Load i)
  assume inv: "plugin_inv s"
  have "plugin_inv (snd (plugin_load quiet i s))"
    using plugin_inv_move[OF inv, of _ i PluginLoaded LOADED] inv plugin_invD[OF inv, of i]
    by (auto simp: plugin_load_def split: option.split)
  with Load show ?thesis
    by (cases "plugin_load quiet i s") (auto simp: bindA_def ret_def split: sum.split)
next
  case (Enable i)
  assume inv: "plugin_inv s"
  have "plugin_inv (snd (plugin_enable quiet i s))"
    using plugin_inv_move[OF inv, of _ i PluginEnabled ENABLED] inv plugin_invD[OF inv, of i]
    by (auto simp: plugin_enable_def split: option.split)
  with Enable show ?thesis
    by (cases "plugin_enable quiet i s") (auto simp: bindA_def ret_def split: sum.split)
next
  case (Disable i)
  assume inv: "plugin_inv s"
  have "plugin_inv (snd (plugin_disable quiet i s))"
    using plugin_inv_move[OF inv, of _ i PluginDisabled LOADED] inv plugin_invD[OF inv, of i]
    by (auto simp: plugin_disable_def split: option.split)
  with Disable show ?thesis
    by (cases "plugin_disable quiet i s") (auto simp: bindA_def ret_def split: sum.split)
next
  case (Discover ms)
  assume "plugin_inv s"
  with Discover show ?thesis by (simp add: plugin_inv_discover del: quiet_apply)
qed (simp_all add: plugin_start_def plugin_shutdown_def plugin_inv_def plugin_lookup_def)

text \<open>
  C30. The event history determines the plugins: in every state that any sequence of plugin operations
  reaches from an empty registry on a quiet bus, whatever succeeds or raises, the state of each
  plugin is what replaying the published events gives, a plugin is known exactly if it was
  announced, and the registry stores each descriptor under its own identifier.
\<close>

theorem plugin_history:
  assumes "reachable_plugins s"
  shows "(\<forall>i. map_option pl_state (plugin_lookup i s) = replay i (w_trace s)) \<and>
    (\<forall>i d. plugin_lookup i s = Some d \<longrightarrow> pl_id d = i)"
proof -
  from assms have "plugin_inv s"
  proof induction
    case initial
    then show ?case by (simp add: plugin_inv_def no_plugins_def plugin_lookup_def replay_def)
  next
    case (step s p r t)
    then show ?case using plugin_inv_op[of s p] by simp
  qed
  then show ?thesis unfolding plugin_inv_def by blast
qed

definition enabled_example :: pluginsys where
  "enabled_example = snd (run_plugin_op (Enable ''core.example.plugin'')
     (snd (run_plugin_op (Load ''core.example.plugin'')
     (snd (run_plugin_op (Discover default_loader) no_plugins)))))"

lemma reachable_run: "reachable_plugins s \<Longrightarrow> reachable_plugins (snd (run_plugin_op p s))"
  using reachable_plugins.step[of s p "fst (run_plugin_op p s)"] by simp

lemma reachable_enabled: "reachable_plugins enabled_example"
  unfolding enabled_example_def by (intro reachable_run reachable_plugins.initial)

theorem plugin_history_witness:
  "map_option pl_state (plugin_lookup ''core.example.plugin'' enabled_example) =
     replay ''core.example.plugin'' (w_trace enabled_example)"
  using plugin_history[OF reachable_enabled] by blast

text \<open>
  Discovery resets plugins without disabling them: discovering a valid manifest again, on a quiet bus,
  puts the plugin into the state DISCOVERED with the new metadata whatever state it was in, leaves
  all other plugins alone, and announces it as discovered only; no event says that an enabled
  plugin was disabled or unloaded, and enabling it again is refused until it is loaded again.
\<close>

theorem discovery_resets:
  assumes "pt_manifest m = Some f" and "validate_plugin m = Inr True"
  shows "\<exists>s'. discover quiet [m] s = (Inr (), s') \<and>
    plugin_lookup (pm_id f) s' = Some \<lparr>pl_id = pm_id f, pl_metadata = m, pl_state = DISCOVERED,
      pl_status = HEALTHY\<rparr> \<and>
    (\<forall>j. j \<noteq> pm_id f \<longrightarrow> plugin_lookup j s' = plugin_lookup j s) \<and>
    w_trace s' = w_trace s @ [EvPlugin (PluginDiscovered (pm_id f) (pm_name f) (pm_version f))] \<and>
    (\<exists>e. plugin_enable quiet (pm_id f) s' = (Inl e, s') \<and> exn_cls e = InPlugins PluginStateError)"
proof -
  let ?s' = "s\<lparr>ps_plugins := AList.update (pm_id f) \<lparr>pl_id = pm_id f, pl_metadata = m,
      pl_state = DISCOVERED, pl_status = HEALTHY\<rparr> (ps_plugins s),
    w_trace := w_trace s @ [EvPlugin (PluginDiscovered (pm_id f) (pm_name f) (pm_version f))]\<rparr>"
  have "discover quiet [m] s = (Inr (), ?s')"
    using assms by (simp add: discover_one_def catchA_def seqA_def bindA_def liftA_def ret_def
        plugin_register_def)
  then show ?thesis by (simp add: plugin_enable_def state_error_def)
qed

theorem discovery_resets_witness:
  "map_option pl_state (plugin_lookup ''core.example.plugin'' enabled_example) = Some ENABLED \<and>
   (\<exists>s'. discover quiet default_loader enabled_example = (Inr (), s') \<and>
      map_option pl_state (plugin_lookup ''core.example.plugin'' s') = Some DISCOVERED)"
proof -
  obtain m f where m: "default_loader = [m]" "pt_manifest m = Some f" "pm_id f = ''core.example.plugin''"
    "validate_plugin m = Inr True"
    by (simp add: default_loader_def validate_plugin_def)
  have "map_option pl_state (plugin_lookup ''core.example.plugin'' enabled_example) = Some ENABLED"
    by (simp add: enabled_example_def default_loader_def discover_one_def validate_plugin_def
        plugin_register_def plugin_load_def plugin_enable_def plugin_move_def plugin_lookup_def
        no_plugins_def act_defs)
  with discovery_resets[OF m(2,4), of enabled_example] m(1,3) show ?thesis by auto
qed


end
