(* ===== verification/Config.thy ===== *)
theory Config
  imports Prelude
begin

text \<open>
  The configuration system (core/config): the environment, providers and loader with its deep
  merge, the validator that builds typed sections from raw dictionaries, the schema with its
  defaults, and the configuration manager. Parameters: \<open>str_of\<close>, the text of values other than
  strings and secrets, and \<open>float_of\<close>, what \<open>float\<close> returns or raises. \<open>VNonFinite\<close> is read as
  NaN, which no comparison holds of. What a JSON file contains is the value \<open>json.load\<close> returns,
  or \<open>None\<close> when the file is missing or is not JSON.
\<close>

section \<open>Secrets and the environment\<close>

definition secret :: "string \<Rightarrow> pyval" where
  "secret s = VObj ''SecretValue'' [(''_value'', VStr s)]"

definition is_secret :: "pyval \<Rightarrow> bool" where
  "is_secret v \<longleftrightarrow> (\<exists>s. v = secret s)"

text \<open>\<open>str(v)\<close>: a secret prints as stars.\<close>

definition text_of :: "(pyval \<Rightarrow> string) \<Rightarrow> pyval \<Rightarrow> string" where
  "text_of str_of v = (case v of
     VStr s \<Rightarrow> s
   | VObj c as \<Rightarrow> if c = ''SecretValue'' then ''******'' else str_of v
   | _ \<Rightarrow> str_of v)"

datatype environment = DEVELOPMENT | TESTING | PRODUCTION

definition current_environment :: "(string \<times> string) list \<Rightarrow> environment" where
  "current_environment env =
     (let e = lower (case map_of env ''IRA_ENV'' of None \<Rightarrow> ''development'' | Some v \<Rightarrow> v) in
      if e = ''production'' then PRODUCTION
      else if e = ''testing'' \<or> e = ''test'' then TESTING else DEVELOPMENT)"

section \<open>Loader\<close>

text \<open>Values have no identity here, so the deep copies of the source are the values themselves.\<close>

fun deep_merge :: "args \<Rightarrow> args \<Rightarrow> args" where
  "deep_merge base [] = base"
| "deep_merge base ((k, v) # ov) =
     deep_merge (AList.update k
       (case v of
          VDict e \<Rightarrow> (case map_of base k of
              Some (VDict b) \<Rightarrow> VDict (deep_merge b e)
            | _ \<Rightarrow> v)
        | _ \<Rightarrow> v) base) ov"

text \<open>A provider that does not deliver a dictionary has no \<open>items\<close>.\<close>

fun merge_providers :: "args \<Rightarrow> pyval list \<Rightarrow> pyexn + args" where
  "merge_providers acc [] = Inr acc"
| "merge_providers acc (p # ps) = (case p of
     VDict d \<Rightarrow> merge_providers (deep_merge acc d) ps
   | _ \<Rightarrow> Inl (Exn (Py PyAttributeError) ''object has no attribute items''))"

definition load_raw :: "pyval list \<Rightarrow> pyexn + args" where
  "load_raw ps = merge_providers [] ps"

section \<open>Providers\<close>

definition json_provider :: "pyval option \<Rightarrow> pyval" where
  "json_provider content = (case content of None \<Rightarrow> VDict [] | Some v \<Rightarrow> v)"

text \<open>\<open>s.split('_', 1)\<close>: the part before the first underscore and, if there is one, the rest.\<close>

fun split_once :: "string \<Rightarrow> string \<times> string option" where
  "split_once [] = ([], None)"
| "split_once (c # cs) = (if c = CHR ''_'' then ([], Some cs)
     else (case split_once cs of (a, b) \<Rightarrow> (c # a, b)))"

definition env_assign :: "args \<Rightarrow> string \<Rightarrow> string \<Rightarrow> args" where
  "env_assign config name value = (case split_once (lower name) of
     (leaf, None) \<Rightarrow> AList.update leaf (VStr value) config
   | (part, Some leaf) \<Rightarrow> (case map_of config part of
        None \<Rightarrow> AList.update part (VDict [(leaf, VStr value)]) config
      | Some (VDict d) \<Rightarrow> AList.update part (VDict (AList.update leaf (VStr value) d)) config
      | Some v \<Rightarrow> config))"

definition env_step :: "string \<Rightarrow> string \<times> string \<Rightarrow> args \<Rightarrow> args" where
  "env_step prefix kv config = (if is_prefix prefix (fst kv)
     then env_assign config (drop (length prefix) (fst kv)) (snd kv) else config)"

definition env_provider :: "string \<Rightarrow> (string \<times> string) list \<Rightarrow> args" where
  "env_provider prefix env = fold (env_step prefix) env []"

section \<open>Validator\<close>

text \<open>
  The types the schema declares, and a dataclass with its fields in order: name, type and default
  (of a default factory, the value it makes).
\<close>

datatype field_type = TInt | TFloat | TStr | TBool | TStrList | TSecretOrNone | TSecretOrStr
  | TSection schema
and schema = Schema string "(string \<times> field_type \<times> pyval option) list"

fun type_text :: "field_type \<Rightarrow> string" where
  "type_text TInt = ''<class 'int'>''"
| "type_text TFloat = ''<class 'float'>''"
| "type_text TStr = ''<class 'str'>''"
| "type_text TBool = ''<class 'bool'>''"
| "type_text TStrList = ''list[str]''"
| "type_text TSecretOrNone = ''core.config.secrets.SecretValue | None''"
| "type_text TSecretOrStr = ''core.config.secrets.SecretValue | str''"
| "type_text (TSection (Schema c fs)) = ''<class '' @ quoted (''core.config.schema.'' @ c) @ ''>''"

definition config_error :: "string \<Rightarrow> pyexn" where
  "config_error m = Exn (InConfig ConfigValidationError) m"

definition mismatch_msg :: "string \<Rightarrow> field_type \<Rightarrow> pyval \<Rightarrow> pyexn \<Rightarrow> string" where
  "mismatch_msg path t v e = ''Type mismatch at '' @ quoted path @ '': expected '' @ type_text t @
     '', got '' @ class_name v @ ''. '' @ exn_msg e"

text \<open>\<open>s.split(',')\<close>.\<close>

fun split_commas :: "string \<Rightarrow> string list" where
  "split_commas [] = [[]]"
| "split_commas (c # cs) = (if c = CHR '','' then [] # split_commas cs
     else (case split_commas cs of [] \<Rightarrow> [[c]] | x # xs \<Rightarrow> (c # x) # xs))"

definition coerce ::
  "(pyval \<Rightarrow> string) \<Rightarrow> (pyval \<Rightarrow> pyexn + pyval) \<Rightarrow> pyval \<Rightarrow> field_type \<Rightarrow> pyexn + pyval" where
  "coerce str_of float_of v t = (case t of
     TStrList \<Rightarrow> (case v of
         VList xs \<Rightarrow> Inr (VList (map (\<lambda>x. VStr (text_of str_of x)) xs))
       | VStr s \<Rightarrow> Inr (VList (map (\<lambda>x. VStr (strip x)) (split_commas s)))
       | _ \<Rightarrow> Inl (Exn (Py PyValueError) ''Not a list''))
   | TInt \<Rightarrow> (case py_int v of Inl e \<Rightarrow> Inl e | Inr i \<Rightarrow> Inr (VInt i))
   | TFloat \<Rightarrow> float_of v
   | TStr \<Rightarrow> Inr (VStr (text_of str_of v))
   | TBool \<Rightarrow> Inr (VBool (truthy v))
   | _ \<Rightarrow> Inr v)"

text \<open>
  A union with a secret takes \<open>None\<close> as it is, whether or not the union has \<open>None\<close>, and wraps
  the text of anything else. A bool field reads strings by name.
\<close>

definition coerce_and_validate ::
  "(pyval \<Rightarrow> string) \<Rightarrow> (pyval \<Rightarrow> pyexn + pyval) \<Rightarrow> pyval \<Rightarrow> field_type \<Rightarrow> string \<Rightarrow> pyexn + pyval" where
  "coerce_and_validate str_of float_of v t path =
     (if t = TSecretOrNone \<or> t = TSecretOrStr
      then Inr (if v = VNone then VNone else secret (text_of str_of v))
      else (case (t, v) of
          (TBool, VStr s) \<Rightarrow>
            if lower s \<in> {''true'', ''1'', ''yes'', ''on''} then Inr (VBool True)
            else if lower s \<in> {''false'', ''0'', ''no'', ''off''} then Inr (VBool False)
            else Inl (config_error (''Invalid boolean string '' @ quoted s @ '' at '' @ quoted path))
        | _ \<Rightarrow> (case coerce str_of float_of v t of
            Inl e \<Rightarrow> Inl (config_error (mismatch_msg path t v e))
          | Inr w \<Rightarrow> Inr w)))"

definition is_less_zero :: "pyval \<Rightarrow> bool" where
  "is_less_zero v = (case v of VInt i \<Rightarrow> i < 0 | VFloat m e \<Rightarrow> m < 0 | _ \<Rightarrow> False)"

text \<open>The domain rules, on the fields of the instance that has just been built.\<close>

definition apply_rules :: "(pyval \<Rightarrow> string) \<Rightarrow> string \<Rightarrow> args \<Rightarrow> pyexn + unit" where
  "apply_rules str_of c fields =
     (if c = ''ServerConfig'' then
        (case dget fields ''port'' of
           VInt p \<Rightarrow>
             if \<not> (1 \<le> p \<and> p \<le> 65535)
             then Inl (config_error (''Port must be between 1 and 65535, got '' @ str_of_int p))
             else if is_less_zero (dget fields ''timeout'')
             then Inl (config_error (''Timeout must be >= 0, got '' @
                    text_of str_of (dget fields ''timeout'')))
             else Inr ()
         | _ \<Rightarrow> Inl (Exn (Py PyTypeError) ''not an integer''))
      else if c = ''KernelConfig'' then
        (case dget fields ''event_limit'' of
           VInt n \<Rightarrow>
             if n \<le> 0
             then Inl (config_error (''Event limit must be positive, got '' @ str_of_int n))
             else Inr ()
         | _ \<Rightarrow> Inl (Exn (Py PyTypeError) ''not an integer''))
      else Inr ())"

definition field_path :: "string \<Rightarrow> string \<Rightarrow> string" where
  "field_path path n = (if path = [] then n else path @ ''.'' @ n)"

function (sequential)
  validate_and_build ::
    "(pyval \<Rightarrow> string) \<Rightarrow> (pyval \<Rightarrow> pyexn + pyval) \<Rightarrow> schema \<Rightarrow> args \<Rightarrow> string \<Rightarrow> pyexn + pyval" and
  build_fields ::
    "(pyval \<Rightarrow> string) \<Rightarrow> (pyval \<Rightarrow> pyexn + pyval) \<Rightarrow> (string \<times> field_type \<times> pyval option) list \<Rightarrow>
     args \<Rightarrow> string \<Rightarrow> pyexn + args"
where
  "validate_and_build str_of float_of (Schema c fs) raw path =
     (case build_fields str_of float_of fs raw path of
        Inl e \<Rightarrow> Inl e
      | Inr fields \<Rightarrow> (case apply_rules str_of c fields of
          Inl e \<Rightarrow> Inl e | Inr u \<Rightarrow> Inr (VObj c fields)))"
| "build_fields str_of float_of [] raw path = Inr []"
| "build_fields str_of float_of ((n, t, dflt) # fs) raw path =
     (case (case map_of raw n of
          None \<Rightarrow> (case dflt of
              Some w \<Rightarrow> Inr w
            | None \<Rightarrow> Inl (config_error (''Missing required configuration section/field: '' @
                quoted (field_path path n))))
        | Some v \<Rightarrow> (case t of
            TSection sch \<Rightarrow> (case v of
                VDict d \<Rightarrow> validate_and_build str_of float_of sch d (field_path path n)
              | _ \<Rightarrow> Inl (config_error (''Expected dictionary for '' @ quoted (field_path path n) @
                  '', got '' @ class_name v)))
          | _ \<Rightarrow> coerce_and_validate str_of float_of v t (field_path path n))) of
        Inl e \<Rightarrow> Inl e
      | Inr w \<Rightarrow> (case build_fields str_of float_of fs raw path of
          Inl e \<Rightarrow> Inl e | Inr ws \<Rightarrow> Inr ((n, w) # ws)))"
  by pat_completeness auto
termination
  by (relation "measure (\<lambda>x. case x of Inl (str_of, float_of, sch, raw, path) \<Rightarrow> size sch
       | Inr (str_of, float_of, fs, raw, path) \<Rightarrow>
           size_list (size_prod (\<lambda>_. 0) (size_prod size (\<lambda>_. 0))) fs)") auto

section \<open>Schema and defaults\<close>

definition kernel_schema :: schema where
  "kernel_schema = Schema ''KernelConfig'' [(''event_limit'', TInt, None)]"

definition server_schema :: schema where
  "server_schema = Schema ''ServerConfig''
     [(''host'', TStr, None), (''port'', TInt, None), (''timeout'', TFloat, None)]"

definition logging_schema :: schema where
  "logging_schema = Schema ''LoggingConfig'' [(''level'', TStr, None), (''format'', TStr, None)]"

definition security_schema :: schema where
  "security_schema = Schema ''SecurityConfig''
     [(''api_key'', TSecretOrNone, Some VNone), (''allowed_origins'', TStrList, Some (VList []))]"

definition llm_schema :: schema where
  "llm_schema = Schema ''LLMConfig'' [(''model'', TStr, None), (''temperature'', TFloat, None),
     (''max_history'', TInt, None), (''provider_key'', TSecretOrNone, Some VNone)]"

definition database_schema :: schema where
  "database_schema = Schema ''DatabaseConfig''
     [(''connection_string'', TSecretOrStr, None), (''max_connections'', TInt, Some (VInt 10))]"

definition plugin_schema :: schema where
  "plugin_schema = Schema ''PluginConfig''
     [(''enabled'', TBool, Some (VBool True)), (''plugin_dir'', TStr, Some (VStr ''plugins''))]"

definition android_schema :: schema where
  "android_schema = Schema ''AndroidConfig''
     [(''enabled'', TBool, Some (VBool False)), (''sync_interval'', TInt, Some (VInt 60))]"

definition desktop_schema :: schema where
  "desktop_schema = Schema ''DesktopConfig''
     [(''enabled'', TBool, Some (VBool True)), (''theme'', TStr, Some (VStr ''dark''))]"

definition identity_schema :: schema where
  "identity_schema = Schema ''IdentityConfig'' [(''session_timeout'', TInt, None)]"

definition ira_schema :: schema where
  "ira_schema = Schema ''IRAConfig'' [(''kernel'', TSection kernel_schema, None),
     (''server'', TSection server_schema, None), (''logging'', TSection logging_schema, None),
     (''security'', TSection security_schema, None), (''llm'', TSection llm_schema, None),
     (''database'', TSection database_schema, None), (''plugin'', TSection plugin_schema, None),
     (''android'', TSection android_schema, None), (''desktop'', TSection desktop_schema, None),
     (''identity'', TSection identity_schema, None)]"

definition default_dict :: args where
  "default_dict =
     [(''kernel'', VDict [(''event_limit'', VInt 1000)]),
      (''server'', VDict [(''host'', VStr ''127.0.0.1''), (''port'', VInt 8080),
         (''timeout'', VFloat 30 0)]),
      (''logging'', VDict [(''level'', VStr ''INFO''),
         (''format'', VStr ''%(asctime)s - %(name)s - %(levelname)s - %(message)s'')]),
      (''security'', VDict [(''api_key'', VNone), (''allowed_origins'', VList [])]),
      (''llm'', VDict [(''model'', VStr ''gpt-4o''), (''temperature'', VFloat 3152519739159347 52),
         (''max_history'', VInt 50), (''provider_key'', VNone)]),
      (''database'', VDict [(''connection_string'', VStr ''sqlite:///:memory:''),
         (''max_connections'', VInt 10)]),
      (''plugin'', VDict [(''enabled'', VBool True), (''plugin_dir'', VStr ''plugins'')]),
      (''android'', VDict [(''enabled'', VBool False), (''sync_interval'', VInt 60)]),
      (''desktop'', VDict [(''enabled'', VBool True), (''theme'', VStr ''dark'')]),
      (''identity'', VDict [(''session_timeout'', VInt 86400)])]"

section \<open>The manager\<close>

record cfg_manager =
  cfg_config :: "pyval option"
  cfg_overrides :: args

definition new_manager :: cfg_manager where
  "new_manager = \<lparr>cfg_config = None, cfg_overrides = []\<rparr>"

text \<open>\<open>content\<close> is what the JSON file holds, \<open>env\<close> the process environment at the time of the call.\<close>

definition load_config ::
  "(pyval \<Rightarrow> string) \<Rightarrow> (pyval \<Rightarrow> pyexn + pyval) \<Rightarrow> pyval option \<Rightarrow> (string \<times> string) list \<Rightarrow>
   (cfg_manager, pyval) act" where
  "load_config str_of float_of content env m =
     (case load_raw [VDict default_dict, json_provider content, VDict (env_provider ''IRA_'' env),
          VDict (cfg_overrides m)] of
        Inl e \<Rightarrow> (Inl e, m)
      | Inr raw \<Rightarrow> (case validate_and_build str_of float_of ira_schema raw [] of
          Inl e \<Rightarrow> (Inl e, m)
        | Inr config \<Rightarrow> (Inr config, m\<lparr>cfg_config := Some config\<rparr>)))"

text \<open>The dry run loads into a manager of its own.\<close>

definition validate_config ::
  "(pyval \<Rightarrow> string) \<Rightarrow> (pyval \<Rightarrow> pyexn + pyval) \<Rightarrow> pyval option \<Rightarrow> (string \<times> string) list \<Rightarrow>
   (cfg_manager, unit) act" where
  "validate_config str_of float_of content env m =
     (case fst (load_config str_of float_of content env (new_manager\<lparr>cfg_overrides := cfg_overrides m\<rparr>)) of
        Inl e \<Rightarrow> (Inl e, m) | Inr c \<Rightarrow> (Inr (), m))"

definition override_config :: "args \<Rightarrow> (cfg_manager, unit) act" where
  "override_config ov m = (Inr (), m\<lparr>cfg_overrides := deep_merge (cfg_overrides m) ov\<rparr>)"

definition not_loaded :: pyexn where
  "not_loaded = Exn (Py PyRuntimeError) ''Configuration has not been loaded.''"

definition get_config :: "cfg_manager \<Rightarrow> pyexn + pyval" where
  "get_config m = (case cfg_config m of None \<Rightarrow> Inl not_loaded | Some c \<Rightarrow> Inr c)"

fun is_instance :: "string \<Rightarrow> pyval \<Rightarrow> bool" where
  "is_instance c (VObj d as) = (d = c)"
| "is_instance c v = False"

definition config_section :: "string \<Rightarrow> cfg_manager \<Rightarrow> pyexn + pyval" where
  "config_section c m = (case cfg_config m of
     None \<Rightarrow> Inl not_loaded
   | Some v \<Rightarrow> (case find (is_instance c) (case v of VObj d as \<Rightarrow> map snd as | _ \<Rightarrow> []) of
       Some x \<Rightarrow> Inr x
     | None \<Rightarrow> Inl (Exn (Py PyValueError) (''No configuration section of type '' @ c))))"

section \<open>The loader: the last provider that touches a path decides\<close>

text \<open>The value at a path of keys, and whether a dictionary says anything about it.\<close>

fun at :: "string list \<Rightarrow> args \<Rightarrow> pyval option" where
  "at [] d = Some (VDict d)"
| "at (k # ks) d = (case map_of d k of
     None \<Rightarrow> None
   | Some (VDict e) \<Rightarrow> at ks e
   | Some v \<Rightarrow> if ks = [] then Some v else None)"

fun touches :: "string list \<Rightarrow> args \<Rightarrow> bool" where
  "touches [] d = True"
| "touches (k # ks) d = (case map_of d k of
     None \<Rightarrow> False | Some (VDict e) \<Rightarrow> touches ks e | Some v \<Rightarrow> True)"

definition leaf :: "string list \<Rightarrow> args \<Rightarrow> pyval \<Rightarrow> bool" where
  "leaf ks d w \<longleftrightarrow> at ks d = Some w \<and> (\<forall>e. w \<noteq> VDict e)"

text \<open>A dictionary has each key once, at every level.\<close>

fun wf_args :: "args \<Rightarrow> bool" where
  "wf_args [] = True"
| "wf_args ((k, v) # d) = (k \<notin> set (map fst d) \<and> (case v of VDict e \<Rightarrow> wf_args e | _ \<Rightarrow> True) \<and> wf_args d)"

lemma wf_args_sub: "wf_args d \<Longrightarrow> map_of d k = Some (VDict e) \<Longrightarrow> wf_args e"
  by (induction d rule: wf_args.induct) (auto split: if_splits)

text \<open>What merging stores under a key.\<close>

definition merged_value :: "pyval option \<Rightarrow> pyval \<Rightarrow> pyval" where
  "merged_value old v = (case v of
     VDict e \<Rightarrow> (case old of Some (VDict b) \<Rightarrow> VDict (deep_merge b e) | _ \<Rightarrow> v) | _ \<Rightarrow> v)"

lemma merged_value_simps [simp]:
  "\<not> (\<exists>e. v = VDict e) \<Longrightarrow> merged_value old v = v" "merged_value None v = v"
  "merged_value (Some (VDict b)) (VDict e) = VDict (deep_merge b e)"
  by (auto simp: merged_value_def split: pyval.split)

lemma merge_lookup:
  "wf_args ov \<Longrightarrow> map_of (deep_merge base ov) k = (case map_of ov k of
     None \<Rightarrow> map_of base k | Some v \<Rightarrow> Some (merged_value (map_of base k) v))"
proof (induction ov arbitrary: base)
  case Nil
  then show ?case by simp
next
  case (Cons kv ov)
  obtain k' v where kv: "kv = (k', v)" by (cases kv)
  have "map_of ov k' = None" if "k' \<notin> fst ` set ov" using that by (simp add: map_of_eq_None_iff)
  with Cons kv show ?case
    by (auto simp: merged_value_def[of "map_of base k'" v, symmetric] split: option.split)
qed

lemma leaf_Cons:
  "leaf (k # ks) d w \<longleftrightarrow> (case map_of d k of
     None \<Rightarrow> False
   | Some v \<Rightarrow> (\<exists>e. v = VDict e \<and> leaf ks e w) \<or> (\<forall>e. v \<noteq> VDict e) \<and> ks = [] \<and> w = v)"
  by (auto simp: leaf_def split: option.split pyval.split)

lemma touches_Cons:
  "touches (k # ks) d \<longleftrightarrow> (case map_of d k of
     None \<Rightarrow> False | Some v \<Rightarrow> (\<forall>e. v = VDict e \<longrightarrow> touches ks e))"
  by (auto split: option.split pyval.split)

lemma leaf_touches: "leaf ks d w \<Longrightarrow> touches ks d"
proof (induction ks arbitrary: d)
  case Nil
  then show ?case by simp
next
  case (Cons k ks)
  then show ?case by (auto simp: leaf_Cons touches_Cons simp del: touches.simps(2) split: option.splits)
qed

lemma leaf_merge:
  assumes "wf_args ov" "ks \<noteq> []"
  shows "leaf ks (deep_merge base ov) w \<longleftrightarrow> (if touches ks ov then leaf ks ov w else leaf ks base w)"
  using assms
proof (induction ks arbitrary: base ov)
  case Nil
  then show ?case by simp
next
  case (Cons k ks)
  show ?case
  proof (cases "map_of ov k")
    case None
    then show ?thesis using Cons.prems by (simp add: leaf_Cons merge_lookup)
  next
    case ov: (Some v)
    show ?thesis
    proof (cases "\<exists>e b. v = VDict e \<and> map_of base k = Some (VDict b)")
      case True
      then obtain e b where v: "v = VDict e" "map_of base k = Some (VDict b)" by blast
      have e: "wf_args e" using wf_args_sub Cons.prems(1) ov v by blast
      show ?thesis
      proof (cases "ks = []")
        case True
        with ov v Cons.prems show ?thesis by (auto simp: leaf_Cons merge_lookup leaf_def)
      next
        case False
        from Cons.IH[OF e this, of b] ov v Cons.prems show ?thesis by (simp add: leaf_Cons merge_lookup)
      qed
    next
      case False
      then have m: "merged_value (map_of base k) v = v"
        by (auto simp: merged_value_def split: pyval.split option.split)
      have "ks \<noteq> []" if "\<not> touches ks e" for e using that by (cases ks) simp_all
      with ov m False Cons.prems leaf_touches[of ks _ w] show ?thesis
        by (cases "\<exists>e. v = VDict e")
          (auto simp: leaf_Cons touches_Cons merge_lookup simp del: touches.simps(2) split: option.splits)
    qed
  qed
qed

lemma merge_providers_dicts:
  "merge_providers acc ps = Inr raw \<Longrightarrow> \<exists>ds. ps = map VDict ds \<and> raw = fold (\<lambda>d acc. deep_merge acc d) ds acc"
proof (induction ps arbitrary: acc)
  case Nil
  then show ?case by simp
next
  case (Cons p ps)
  then obtain d where d: "p = VDict d" "merge_providers (deep_merge acc d) ps = Inr raw"
    by (cases p) auto
  from Cons.IH[OF d(2)] obtain ds where "ps = map VDict ds"
    "raw = fold (\<lambda>d acc. deep_merge acc d) ds (deep_merge acc d)" by blast
  with d(1) show ?case by (intro exI[of _ "d # ds"]) simp
qed

lemma leaf_merge_all:
  assumes "\<forall>d\<in>set ds. wf_args d" "ks \<noteq> []"
  shows "leaf ks (fold (\<lambda>d acc. deep_merge acc d) ds acc) w \<longleftrightarrow>
    (case find (touches ks) (rev ds) of None \<Rightarrow> leaf ks acc w | Some d \<Rightarrow> leaf ks d w)"
  using assms(1)
proof (induction ds rule: rev_induct)
  case Nil
  then show ?case by simp
next
  case (snoc d ds)
  then show ?case using leaf_merge[OF _ assms(2), of d] by simp
qed

lemma no_leaf_empty: "ks \<noteq> [] \<Longrightarrow> \<not> leaf ks [] w"
  by (cases ks) (simp_all add: leaf_Cons)

text \<open>
  C33. The last provider that touches a path decides its value: when all providers deliver dictionaries
  (otherwise loading raises), the merged configuration has the value w at a path below the root
  exactly if the last provider whose dictionary reaches the path, or puts something other than a
  dictionary on the way to it, has w there.
\<close>

theorem last_provider_decides:
  assumes "\<forall>d\<in>set ds. wf_args d" and "path \<noteq> []"
  shows "(\<exists>raw. load_raw (map VDict ds) = Inr raw \<and> (\<forall>w. leaf path raw w \<longleftrightarrow>
      (\<exists>d. find (touches path) (rev ds) = Some d \<and> leaf path d w))) \<and>
    (\<forall>ps raw. load_raw ps = Inr raw \<longrightarrow> (\<exists>es. ps = map VDict es))"
proof -
  have "merge_providers acc (map VDict ds) = Inr (fold (\<lambda>d acc. deep_merge acc d) ds acc)" for acc
    by (induction ds arbitrary: acc) simp_all
  then show ?thesis
    using leaf_merge_all[OF assms, of "[]"] no_leaf_empty[OF assms(2)] merge_providers_dicts
    by (fastforce simp: load_raw_def split: option.splits)
qed

theorem last_provider_decides_witness:
  "\<exists>raw. load_raw (map VDict [[(''server'', VDict [(''port'', VInt 1), (''host'', VStr ''a'')])],
      [(''server'', VDict [(''port'', VInt 2)])]]) = Inr raw \<and>
    leaf [''server'', ''port''] raw (VInt 2) \<and> leaf [''server'', ''host''] raw (VStr ''a'')"
proof -
  let ?ds = "[[(''server'', VDict [(''port'', VInt 1), (''host'', VStr ''a'')])],
      [(''server'', VDict [(''port'', VInt 2)])]]"
  have wf: "\<forall>d\<in>set ?ds. wf_args d" by simp
  from last_provider_decides[OF wf, of "[''server'', ''port'']"]
    last_provider_decides[OF wf, of "[''server'', ''host'']"]
  show ?thesis by (auto simp: leaf_Cons)
qed


section \<open>Type soundness\<close>

fun is_float :: "pyval \<Rightarrow> bool" where
  "is_float (VFloat m e) = True"
| "is_float VNonFinite = True"
| "is_float v = False"

fun is_text :: "pyval \<Rightarrow> bool" where
  "is_text (VStr s) = True"
| "is_text v = False"

text \<open>The values of a declared type.\<close>

fun scalar_type :: "field_type \<Rightarrow> pyval \<Rightarrow> bool" where
  "scalar_type TInt v = (\<exists>i. v = VInt i)"
| "scalar_type TFloat v = is_float v"
| "scalar_type TStr v = is_text v"
| "scalar_type TBool v = (\<exists>b. v = VBool b)"
| "scalar_type TStrList v = (\<exists>xs. v = VList xs \<and> list_all is_text xs)"
| "scalar_type TSecretOrNone v = (v = VNone \<or> is_secret v)"
| "scalar_type TSecretOrStr v = (is_secret v \<or> is_text v)"
| "scalar_type (TSection s) v = False"

definition rules_hold :: "string \<Rightarrow> args \<Rightarrow> bool" where
  "rules_hold c vals \<longleftrightarrow>
     (c = ''ServerConfig'' \<longrightarrow> (\<exists>p. dget vals ''port'' = VInt p \<and> 1 \<le> p \<and> p \<le> 65535) \<and>
        \<not> is_less_zero (dget vals ''timeout'')) \<and>
     (c = ''KernelConfig'' \<longrightarrow> (\<exists>n. dget vals ''event_limit'' = VInt n \<and> 0 < n))"

text \<open>
  Instances of a schema. With \<open>null_ok\<close> a field declared as a secret or a string may also hold
  \<open>None\<close>, which the validator lets pass although the declared type does not have it.
\<close>

inductive has_type :: "bool \<Rightarrow> field_type \<Rightarrow> pyval \<Rightarrow> bool"
  and has_schema :: "bool \<Rightarrow> schema \<Rightarrow> pyval \<Rightarrow> bool"
  and has_fields :: "bool \<Rightarrow> (string \<times> field_type \<times> pyval option) list \<Rightarrow> args \<Rightarrow> bool"
  for null_ok :: bool
where
  scalar: "scalar_type t v \<Longrightarrow> has_type null_ok t v"
| null: "null_ok \<Longrightarrow> has_type null_ok TSecretOrStr VNone"
| nested: "has_schema null_ok s v \<Longrightarrow> has_type null_ok (TSection s) v"
| instance_of: "has_fields null_ok fs vals \<Longrightarrow> rules_hold c vals \<Longrightarrow>
    has_schema null_ok (Schema c fs) (VObj c vals)"
| no_fields: "has_fields null_ok [] []"
| more_fields: "has_type null_ok t v \<Longrightarrow> has_fields null_ok fs vs \<Longrightarrow>
    has_fields null_ok ((n, t, d) # fs) ((n, v) # vs)"

inductive_simps has_schema_iff: "has_schema b (Schema c fs) v"
inductive_simps has_fields_Nil [simp]: "has_fields b [] vs"
inductive_simps has_fields_Cons [simp]: "has_fields b ((n, t, d) # fs) vs"
inductive_simps has_section [simp]: "has_type b (TSection s) v"
inductive_simps has_scalar: "has_type b t v"

text \<open>The defaults of a schema have the declared types.\<close>

inductive defaults_ok :: "schema \<Rightarrow> bool" and field_defaults_ok ::
  "(string \<times> field_type \<times> pyval option) list \<Rightarrow> bool"
where
  "field_defaults_ok fs \<Longrightarrow> defaults_ok (Schema c fs)"
| "field_defaults_ok []"
| "(\<And>v. d = Some v \<Longrightarrow> scalar_type t v) \<Longrightarrow> (\<And>s. t = TSection s \<Longrightarrow> defaults_ok s) \<Longrightarrow>
   field_defaults_ok fs \<Longrightarrow> field_defaults_ok ((n, t, d) # fs)"

inductive_simps defaults_ok_Schema [simp]: "defaults_ok (Schema c fs)"
inductive_simps field_defaults_Nil [simp]: "field_defaults_ok []"
inductive_simps field_defaults_Cons [simp]: "field_defaults_ok ((n, t, d) # fs)"

definition float_law :: "(pyval \<Rightarrow> pyexn + pyval) \<Rightarrow> bool" where
  "float_law float_of \<longleftrightarrow> (\<forall>v w. float_of v = Inr w \<longrightarrow> is_float w)"

lemma coerce_typed:
  assumes "float_law float_of" "\<forall>s. t \<noteq> TSection s"
    and "coerce_and_validate str_of float_of v t path = Inr w"
  shows "has_type True t w"
proof -
  have "scalar_type t w \<or> t = TSecretOrStr \<and> w = VNone"
    using assms by (cases t; cases v)
      (auto simp: coerce_and_validate_def coerce_def float_law_def is_secret_def list_all_iff
        split: if_splits sum.splits option.splits)
  then show ?thesis by (auto simp: has_scalar)
qed

lemma apply_rules_hold: "apply_rules str_of c vals = Inr u \<Longrightarrow> rules_hold c vals"
  by (auto simp: apply_rules_def rules_hold_def split: if_splits pyval.splits)

lemma validator_sound:
  shows "float_law float_of \<Longrightarrow> validate_and_build str_of float_of sch raw path = Inr v \<Longrightarrow>
      defaults_ok sch \<Longrightarrow> has_schema True sch v"
    and "float_law float_of \<Longrightarrow> build_fields str_of float_of fs raw path = Inr vs \<Longrightarrow>
      field_defaults_ok fs \<Longrightarrow> has_fields True fs vs"
proof (induction str_of float_of sch raw path and str_of float_of fs raw path
    arbitrary: v and vs rule: validate_and_build_build_fields.induct)
  case (1 str_of float_of c fs raw path)
  then show ?case
    by (auto simp: has_schema_iff dest: apply_rules_hold split: sum.splits)
next
  case (2 str_of float_of raw path)
  then show ?case by simp
next
  case (3 str_of float_of n t dflt fs raw path)
  have w: "has_type True t w" if run: "(case map_of raw n of
          None \<Rightarrow> (case dflt of
              Some w \<Rightarrow> Inr w
            | None \<Rightarrow> Inl (config_error (''Missing required configuration section/field: '' @
                quoted (field_path path n))))
        | Some v \<Rightarrow> (case t of
            TSection sch \<Rightarrow> (case v of
                VDict d \<Rightarrow> validate_and_build str_of float_of sch d (field_path path n)
              | _ \<Rightarrow> Inl (config_error (''Expected dictionary for '' @ quoted (field_path path n) @
                  '', got '' @ class_name v)))
          | _ \<Rightarrow> coerce_and_validate str_of float_of v t (field_path path n))) = Inr w" for w
  proof (cases "map_of raw n")
    case None
    with run 3(5) show ?thesis
      by (auto split: option.splits intro: has_type_has_schema_has_fields.scalar)
  next
    case (Some x)
    show ?thesis
    proof (cases "\<exists>s. t = TSection s")
      case True
      then obtain s d where "t = TSection s" "x = VDict d"
        "validate_and_build str_of float_of s d (field_path path n) = Inr w"
        using run Some by (auto split: pyval.splits)
      with 3(1)[OF Some] 3(3,5) show ?thesis by auto
    next
      case False
      with run Some have "coerce_and_validate str_of float_of x t (field_path path n) = Inr w"
        by (cases t) auto
      with False show ?thesis by (intro coerce_typed[OF 3(3)]) auto
    qed
  qed
  show ?case
    using 3(3-5) w 3(2) by (auto split: sum.splits)
qed

lemma schema_defaults [simp]: "defaults_ok ira_schema"
  by (auto simp: ira_schema_def kernel_schema_def server_schema_def logging_schema_def
      security_schema_def llm_schema_def database_schema_def plugin_schema_def android_schema_def
      desktop_schema_def identity_schema_def)

text \<open>The operations of the manager, in any order and with any file and environment.\<close>

datatype cfg_op = LoadCfg "pyval option" "(string \<times> string) list"
  | ValidateCfg "pyval option" "(string \<times> string) list" | OverrideCfg args

fun cfg_step ::
  "(pyval \<Rightarrow> string) \<Rightarrow> (pyval \<Rightarrow> pyexn + pyval) \<Rightarrow> cfg_op \<Rightarrow> cfg_manager \<Rightarrow> (pyexn + unit) \<times> cfg_manager"
where
  "cfg_step str_of float_of (LoadCfg content env) m =
     (case load_config str_of float_of content env m of
        (Inl e, m') \<Rightarrow> (Inl e, m') | (Inr c, m') \<Rightarrow> (Inr (), m'))"
| "cfg_step str_of float_of (ValidateCfg content env) m = validate_config str_of float_of content env m"
| "cfg_step str_of float_of (OverrideCfg ov) m = override_config ov m"

definition cfg_run ::
  "(pyval \<Rightarrow> string) \<Rightarrow> (pyval \<Rightarrow> pyexn + pyval) \<Rightarrow> cfg_op list \<Rightarrow> cfg_manager" where
  "cfg_run str_of float_of ops = fold (\<lambda>op m. snd (cfg_step str_of float_of op m)) ops new_manager"

definition cfg_typed :: "cfg_manager \<Rightarrow> bool" where
  "cfg_typed m \<longleftrightarrow> (\<forall>c. cfg_config m = Some c \<longrightarrow> has_schema True ira_schema c)"

lemma load_typed:
  assumes "float_law float_of"
  shows "load_config str_of float_of content env m = (Inr c, m') \<Longrightarrow>
      has_schema True ira_schema c \<and> m' = m\<lparr>cfg_config := Some c\<rparr>"
    and "load_config str_of float_of content env m = (Inl e, m') \<Longrightarrow> m' = m"
  using validator_sound(1)[OF assms _ schema_defaults]
  by (auto simp: load_config_def split: sum.splits)

lemma cfg_step_typed:
  assumes "float_law float_of" "cfg_typed m"
  shows "cfg_typed (snd (cfg_step str_of float_of op m))"
  using assms(2)
proof (cases op)
  case (LoadCfg content env)
  then show ?thesis
    using assms(2) by (auto simp: cfg_typed_def dest!: load_typed[OF assms(1)] split: prod.split sum.split)
next
  case (ValidateCfg content env)
  then show ?thesis using assms(2) by (simp add: validate_config_def split: sum.split)
next
  case (OverrideCfg ov)
  then show ?thesis using assms(2) by (simp add: override_config_def cfg_typed_def)
qed

lemma cfg_run_typed:
  assumes "float_law float_of"
  shows "cfg_typed (cfg_run str_of float_of ops)"
proof -
  have "cfg_typed m \<Longrightarrow> cfg_typed (fold (\<lambda>op m. snd (cfg_step str_of float_of op m)) ops m)" for m
    by (induction ops arbitrary: m) (simp_all add: cfg_step_typed[OF assms])
  from this[of new_manager] show ?thesis by (simp add: cfg_run_def cfg_typed_def new_manager_def)
qed

lemma cfg_step_failed:
  assumes "float_law float_of" "fst (cfg_step str_of float_of op m) = Inl e"
  shows "snd (cfg_step str_of float_of op m) = m"
proof (cases op)
  case (LoadCfg content env)
  then show ?thesis
    using load_typed(2)[OF assms(1)] assms(2) by (auto split: prod.splits sum.splits)
next
  case (ValidateCfg content env)
  then show ?thesis by (simp add: validate_config_def split: sum.split)
next
  case (OverrideCfg ov)
  then show ?thesis using assms(2) by (simp add: override_config_def)
qed

fun schema_class :: "schema \<Rightarrow> string" where
  "schema_class (Schema c fs) = c"

definition ira_sections :: "schema list" where
  "ira_sections = [kernel_schema, server_schema, logging_schema, security_schema, llm_schema,
     database_schema, plugin_schema, android_schema, desktop_schema, identity_schema]"

lemma has_schema_class: "has_schema b sch x \<Longrightarrow> \<exists>vals. x = VObj (schema_class sch) vals"
  by (cases sch) (auto simp: has_schema_iff)

lemma find_section:
  assumes "list_all2 (has_schema True) schs xs" "distinct (map schema_class schs)" "sch \<in> set schs"
  shows "\<exists>x. find (is_instance (schema_class sch)) xs = Some x \<and> has_schema True sch x"
  using assms
proof (induction schs xs rule: list_all2_induct)
  case Nil
  then show ?case by simp
next
  case (Cons s schs x xs)
  then show ?case using has_schema_class[of True s x] by fastforce
qed

lemma loaded_sections:
  assumes "cfg_typed m" "cfg_config m = Some c" "sch \<in> set ira_sections"
  shows "\<exists>x. config_section (schema_class sch) m = Inr x \<and> has_schema True sch x"
proof -
  have "has_schema True ira_schema c" using assms by (simp add: cfg_typed_def)
  then obtain vals where c: "c = VObj ''IRAConfig'' vals" "list_all2 (has_schema True) ira_sections (map snd vals)"
    by (auto simp: ira_schema_def ira_sections_def has_schema_iff)
  have "distinct (map schema_class ira_sections)"
    by (simp add: ira_sections_def kernel_schema_def server_schema_def logging_schema_def
      security_schema_def llm_schema_def database_schema_def plugin_schema_def android_schema_def
      desktop_schema_def identity_schema_def)
  from find_section[OF c(2) this assms(3)] show ?thesis
    using assms(2) c(1) by (auto simp: config_section_def)
qed

text \<open>
  Only the section of the database has a field of that kind: an instance of any section has exactly
  the declared types, or it is a database section whose connection string is \<open>None\<close>.
\<close>

definition section_typed :: "schema \<Rightarrow> pyval \<Rightarrow> bool" where
  "section_typed sch x \<longleftrightarrow> has_schema False sch x \<or>
     (sch = database_schema \<and> (\<exists>n. x = VObj ''DatabaseConfig''
        [(''connection_string'', VNone), (''max_connections'', VInt n)]))"

definition no_null :: "string \<times> field_type \<times> pyval option \<Rightarrow> bool" where
  "no_null f \<longleftrightarrow> (case fst (snd f) of TSecretOrStr \<Rightarrow> False | TSection s \<Rightarrow> False | _ \<Rightarrow> True)"

lemma no_null_fields: "list_all no_null fs \<Longrightarrow> has_fields True fs vs \<Longrightarrow> has_fields False fs vs"
proof (induction fs arbitrary: vs)
  case Nil
  then show ?case by simp
next
  case (Cons f fs)
  then show ?case
    by (cases f) (auto simp: no_null_def has_scalar split: field_type.splits)
qed

lemma no_null_schema:
  "list_all no_null fs \<Longrightarrow> has_schema True (Schema c fs) x \<Longrightarrow> has_schema False (Schema c fs) x"
  by (auto simp: has_schema_iff intro: no_null_fields)

lemma database_is_typed: "has_schema True database_schema x \<Longrightarrow> section_typed database_schema x"
  by (auto simp: section_typed_def database_schema_def has_schema_iff has_scalar)

lemma section_is_typed:
  assumes "sch \<in> set ira_sections" "has_schema True sch x"
  shows "section_typed sch x"
proof (cases "sch = database_schema")
  case True
  then show ?thesis using database_is_typed assms(2) by simp
next
  case False
  then have "\<exists>c fs. sch = Schema c fs \<and> list_all no_null fs"
    using assms(1) by (auto simp: ira_sections_def kernel_schema_def server_schema_def
      logging_schema_def security_schema_def llm_schema_def plugin_schema_def
      android_schema_def desktop_schema_def identity_schema_def no_null_def)
  then show ?thesis using assms(2) no_null_schema by (auto simp: section_typed_def)
qed

lemma config_is_typed:
  assumes "has_schema True ira_schema c"
  shows "\<exists>vals. c = VObj ''IRAConfig'' vals \<and> list_all2 section_typed ira_sections (map snd vals)"
proof -
  from assms obtain vals where "c = VObj ''IRAConfig'' vals"
    "list_all2 (has_schema True) ira_sections (map snd vals)"
    by (auto simp: ira_schema_def ira_sections_def has_schema_iff)
  then show ?thesis
    by (intro exI[of _ vals]) (auto intro: section_is_typed elim!: list.rel_mono_strong)
qed

lemma sections_typed:
  assumes "cfg_typed m" "cfg_config m = Some c" "sch \<in> set ira_sections"
  shows "\<exists>x. config_section (schema_class sch) m = Inr x \<and> section_typed sch x"
  using loaded_sections[OF assms] section_is_typed[OF assms(3)] by blast

text \<open>
  C16. A configuration that is there is well typed: whatever files, environments and overrides come
  in whatever order, every section the manager hands out by its class is an instance of that class
  whose fields have exactly the types the schema declares, with one exception: the connection string
  of the database, declared a secret or a string, may be \<open>None\<close>. A server section has its port in
  1 to 65535, an operation that raises leaves the manager as it was, and before the first successful
  load both accessors raise.
\<close>

theorem config_always_typed:
  assumes "float_law float_of"
  shows "let m = cfg_run str_of float_of ops in
    (case cfg_config m of
       None \<Rightarrow> get_config m = Inl not_loaded \<and> (\<forall>c. config_section c m = Inl not_loaded)
     | Some c \<Rightarrow> get_config m = Inr c \<and>
         (\<exists>vals. c = VObj ''IRAConfig'' vals \<and> list_all2 section_typed ira_sections (map snd vals)) \<and>
         (\<forall>sch\<in>set ira_sections. \<exists>x. config_section (schema_class sch) m = Inr x \<and> section_typed sch x) \<and>
         (\<exists>vals p. config_section ''ServerConfig'' m = Inr (VObj ''ServerConfig'' vals) \<and>
            dget vals ''port'' = VInt p \<and> 1 \<le> p \<and> p \<le> 65535)) \<and>
    (\<forall>op e. fst (cfg_step str_of float_of op m) = Inl e \<longrightarrow> snd (cfg_step str_of float_of op m) = m)"
proof -
  let ?m = "cfg_run str_of float_of ops"
  have typed: "cfg_typed ?m" by (rule cfg_run_typed[OF assms])
  have "\<exists>vals p. config_section ''ServerConfig'' ?m = Inr (VObj ''ServerConfig'' vals) \<and>
      dget vals ''port'' = VInt p \<and> 1 \<le> p \<and> p \<le> 65535" if "cfg_config ?m = Some c" for c
    using loaded_sections[OF typed that, of server_schema]
    by (auto simp: ira_sections_def server_schema_def has_schema_iff rules_hold_def)
  moreover have "\<exists>vals. c = VObj ''IRAConfig'' vals \<and> list_all2 section_typed ira_sections (map snd vals)"
    if "cfg_config ?m = Some c" for c
    using typed that config_is_typed unfolding cfg_typed_def by blast
  moreover have "\<exists>x. config_section (schema_class sch) ?m = Inr x \<and> section_typed sch x"
    if "cfg_config ?m = Some c" "sch \<in> set ira_sections" for c sch
    using typed that by (rule sections_typed)
  moreover have "get_config ?m = (case cfg_config ?m of None \<Rightarrow> Inl not_loaded | Some c \<Rightarrow> Inr c)"
    "cfg_config ?m = None \<Longrightarrow> config_section c ?m = Inl not_loaded" for c
    by (simp_all add: get_config_def config_section_def split: option.split)
  ultimately show ?thesis
    using cfg_step_failed[OF assms] unfolding Let_def by (cases "cfg_config ?m") auto
qed

text \<open>
  A port overridden at run time is loaded, and one out of range later changes nothing; a connection
  string overridden with \<open>None\<close> is loaded as well.
\<close>

definition sample_float :: "pyval \<Rightarrow> pyexn + pyval" where
  "sample_float v = (if is_float v then Inr v else Inl (config_error ''float''))"

definition sample_ops :: "cfg_op list" where
  "sample_ops = [OverrideCfg [(''server'', VDict [(''port'', VInt 443)])],
     OverrideCfg [(''database'', VDict [(''connection_string'', VNone)])], LoadCfg None [],
     OverrideCfg [(''server'', VDict [(''port'', VInt 70000)])], LoadCfg None []]"

lemmas sample_defs = sample_ops_def sample_float_def cfg_run_def new_manager_def override_config_def
  load_config_def load_raw_def default_dict_def json_provider_def env_provider_def
  coerce_and_validate_def coerce_def apply_rules_def is_less_zero_def ira_schema_def
  kernel_schema_def server_schema_def logging_schema_def
  security_schema_def llm_schema_def database_schema_def plugin_schema_def android_schema_def
  desktop_schema_def identity_schema_def text_of_def

lemma sample_port:
  "\<exists>vals. config_section ''ServerConfig'' (cfg_run (\<lambda>v. ''?'') sample_float sample_ops) =
     Inr (VObj ''ServerConfig'' vals) \<and> dget vals ''port'' = VInt 443"
  by (simp add: sample_defs config_section_def dget_def)

lemma sample_connection:
  "config_section ''DatabaseConfig'' (cfg_run (\<lambda>v. ''?'') sample_float sample_ops) =
     Inr (VObj ''DatabaseConfig'' [(''connection_string'', VNone), (''max_connections'', VInt 10)])"
  by (simp add: sample_defs config_section_def)

theorem config_always_typed_witness:
  "\<exists>c vals. cfg_config (cfg_run (\<lambda>v. ''?'') sample_float sample_ops) = Some (VObj ''IRAConfig'' c) \<and>
     list_all2 section_typed ira_sections (map snd c) \<and>
     config_section ''ServerConfig'' (cfg_run (\<lambda>v. ''?'') sample_float sample_ops) =
       Inr (VObj ''ServerConfig'' vals) \<and>
     dget vals ''port'' = VInt 443 \<and>
     config_section ''DatabaseConfig'' (cfg_run (\<lambda>v. ''?'') sample_float sample_ops) =
       Inr (VObj ''DatabaseConfig'' [(''connection_string'', VNone), (''max_connections'', VInt 10)])"
proof -
  have law: "float_law sample_float" by (simp add: float_law_def sample_float_def)
  from sample_port obtain vals where
    "config_section ''ServerConfig'' (cfg_run (\<lambda>v. ''?'') sample_float sample_ops) =
       Inr (VObj ''ServerConfig'' vals)" "dget vals ''port'' = VInt 443" by blast
  with config_always_typed[OF law, of "\<lambda>v. ''?''" sample_ops] sample_connection show ?thesis
    by (auto simp: Let_def split: option.splits)
qed

section \<open>Settings in environment variables\<close>

definition upper_char :: "char \<Rightarrow> char" where
  "upper_char c = (let n = (of_char c :: nat) in if 97 \<le> n \<and> n \<le> 122 then char_of (n - 32) else c)"

definition upper :: "string \<Rightarrow> string" where
  "upper s = map upper_char s"

text \<open>The variable a path of one or two keys is written to, and the paths that can be written.\<close>

fun var_name :: "string list \<Rightarrow> string" where
  "var_name [k] = ''IRA_'' @ upper k"
| "var_name [s, k] = ''IRA_'' @ upper s @ ''_'' @ upper k"
| "var_name _ = ''IRA_''"

fun writable :: "string list \<Rightarrow> bool" where
  "writable [k] = (lower k = k \<and> CHR ''_'' \<notin> set k)"
| "writable [s, k] = (lower s = s \<and> lower k = k \<and> CHR ''_'' \<notin> set s)"
| "writable _ = False"

lemma lower_upper_char: "lower_char (upper_char c) = lower_char c"
proof -
  have "(of_char c :: nat) < 256" by simp
  then show ?thesis by (auto simp: lower_char_def upper_char_def Let_def)
qed

lemma lower_upper [simp]: "lower (upper s) = lower s"
  by (simp add: lower_def upper_def lower_upper_char)

lemma lower_append: "lower (s @ t) = lower s @ lower t"
  by (simp add: lower_def)

lemma split_once_none: "CHR ''_'' \<notin> set s \<Longrightarrow> split_once s = (s, None)"
  by (induction s) auto

lemma split_once_some: "CHR ''_'' \<notin> set s \<Longrightarrow> split_once (s @ CHR ''_'' # t) = (s, Some t)"
  by (induction s) auto

lemma split_var:
  assumes "writable p"
  shows "is_prefix ''IRA_'' (var_name p)"
    and "split_once (lower (drop 4 (var_name p))) =
      (hd p, if tl p = [] then None else Some (hd (tl p)))"
proof -
  have "lower (CHR ''_'' # t) = CHR ''_'' # lower t" for t by (simp add: lower_def lower_char_def)
  with assms show "split_once (lower (drop 4 (var_name p))) =
      (hd p, if tl p = [] then None else Some (hd (tl p)))"
    by (cases p rule: writable.cases)
      (auto simp: lower_append split_once_none split_once_some)
  from assms show "is_prefix ''IRA_'' (var_name p)" by (cases p rule: writable.cases) auto
qed

text \<open>What the provider has built: strings, and dictionaries of strings.\<close>

definition env_shape :: "args \<Rightarrow> bool" where
  "env_shape cfg \<longleftrightarrow> (\<forall>k v. map_of cfg k = Some v \<longrightarrow>
     is_text v \<or> (\<exists>d. v = VDict d \<and> (\<forall>f x. map_of d f = Some x \<longrightarrow> is_text x)))"

text \<open>The paths that conflict with a path: the section as a value, or the value as a section.\<close>

definition conflict :: "string list \<Rightarrow> string list \<Rightarrow> bool" where
  "conflict p q \<longleftrightarrow> hd p = hd q \<and> (tl p = []) \<noteq> (tl q = [])"

lemma is_textD: "is_text v \<Longrightarrow> \<exists>s. v = VStr s"
  by (cases v) auto

lemma leaf_Nil [simp]: "\<not> leaf [] d w"
  by (auto simp: leaf_def)

lemma env_assign_value:
  assumes "env_shape cfg" and "\<forall>q w. leaf q cfg w \<longrightarrow> \<not> conflict [k] q"
  shows "env_shape (AList.update k (VStr x) cfg)"
    and "leaf path (AList.update k (VStr x) cfg) w \<longleftrightarrow> (if path = [k] then w = VStr x else leaf path cfg w)"
proof -
  show "env_shape (AList.update k (VStr x) cfg)"
    using assms(1) by (auto simp: env_shape_def update_conv')
  have "\<not> leaf (k # ks) cfg w" if "ks \<noteq> []" for ks
    using assms(2) that by (auto simp: conflict_def)
  then show "leaf path (AList.update k (VStr x) cfg) w \<longleftrightarrow>
      (if path = [k] then w = VStr x else leaf path cfg w)"
    by (cases path) (auto simp: leaf_Cons update_conv')
qed

text \<open>Setting a key of a section that holds strings.\<close>

lemma leaf_section:
  assumes "\<forall>f x. map_of d f = Some x \<longrightarrow> is_text x"
  shows "leaf ks (AList.update k (VStr x) d) w \<longleftrightarrow> (if ks = [k] then w = VStr x else leaf ks d w)"
proof (cases ks)
  case Nil
  then show ?thesis by simp
next
  case (Cons k' ks')
  have "\<not> (\<exists>e. map_of d k = Some (VDict e))" using assms by fastforce
  with Cons show ?thesis by (auto simp: leaf_Cons update_conv' split: option.split)
qed

lemma env_assign_section:
  assumes "env_shape cfg" and "\<forall>q w. leaf q cfg w \<longrightarrow> \<not> conflict [s, k] q"
    and d: "d = (case map_of cfg s of Some (VDict d) \<Rightarrow> d | _ \<Rightarrow> [])"
  shows "env_shape (AList.update s (VDict (AList.update k (VStr x) d)) cfg)"
    and "leaf path (AList.update s (VDict (AList.update k (VStr x) d)) cfg) w \<longleftrightarrow>
      (if path = [s, k] then w = VStr x else leaf path cfg w)"
    and "map_of cfg s = None \<or> map_of cfg s = Some (VDict d)"
proof -
  show old: "map_of cfg s = None \<or> map_of cfg s = Some (VDict d)"
  proof (rule ccontr)
    assume "\<not> ?thesis"
    then obtain v where v: "map_of cfg s = Some v" "v \<noteq> VDict d" by auto
    with assms(1) d have "is_text v" by (fastforce simp: env_shape_def)
    with v obtain t where "map_of cfg s = Some (VStr t)" by (auto dest!: is_textD)
    then have "leaf [s] cfg (VStr t)" by (simp add: leaf_Cons)
    with assms(2) show False by (fastforce simp: conflict_def)
  qed
  have strings: "\<forall>f x. map_of d f = Some x \<longrightarrow> is_text x"
    using assms(1) d by (fastforce simp: env_shape_def split: option.splits pyval.splits)
  then show "env_shape (AList.update s (VDict (AList.update k (VStr x) d)) cfg)"
    using assms(1) by (simp add: env_shape_def update_conv')
  show "leaf path (AList.update s (VDict (AList.update k (VStr x) d)) cfg) w \<longleftrightarrow>
      (if path = [s, k] then w = VStr x else leaf path cfg w)"
  proof (cases path)
    case (Cons k' ks)
    show ?thesis
    proof (cases "k' = s")
      case True
      have "leaf path cfg w \<longleftrightarrow> leaf ks d w"
      proof (cases "map_of cfg s")
        case None
        with Cons True d show ?thesis by (cases ks) (simp_all add: leaf_Cons)
      next
        case (Some v)
        with old have "v = VDict d" by simp
        with Some Cons True show ?thesis by (simp add: leaf_Cons)
      qed
      with Cons True leaf_section[OF strings] show ?thesis by (simp add: leaf_Cons update_conv')
    next
      case False
      with Cons show ?thesis by (simp add: leaf_Cons update_conv')
    qed
  qed simp
qed

lemma env_assign_leaf:
  assumes "writable p" "env_shape cfg"
    and "\<forall>q w. leaf q cfg w \<longrightarrow> \<not> conflict p q"
  shows "env_shape (env_assign cfg (drop 4 (var_name p)) x)"
    and "leaf path (env_assign cfg (drop 4 (var_name p)) x) w \<longleftrightarrow>
      (if path = p then w = VStr x else leaf path cfg w)"
proof -
  let ?new = "env_assign cfg (drop 4 (var_name p)) x"
  consider (one) k where "p = [k]" | (two) s k where "p = [s, k]"
    using assms(1) by (cases p rule: writable.cases) auto
  then have "env_shape ?new \<and> (leaf path ?new w \<longleftrightarrow> (if path = p then w = VStr x else leaf path cfg w))"
  proof cases
    case one
    with split_var(2)[OF assms(1)] have "?new = AList.update k (VStr x) cfg" by (simp add: env_assign_def)
    with env_assign_value[of cfg k] assms(2,3) one show ?thesis by simp
  next
    case two
    let ?d = "case map_of cfg s of Some (VDict d) \<Rightarrow> d | _ \<Rightarrow> []"
    note * = env_assign_section[OF assms(2) assms(3)[unfolded two] refl]
    have "?new = AList.update s (VDict (AList.update k (VStr x) ?d)) cfg"
      using split_var(2)[OF assms(1)] two *(3)
      by (cases "map_of cfg s") (auto simp: env_assign_def split: pyval.splits)
    with two *(1,2) show ?thesis by simp
  qed
  then show "env_shape ?new" and "leaf path ?new w \<longleftrightarrow> (if path = p then w = VStr x else leaf path cfg w)"
    by simp_all
qed

lemma env_fold_leaf:
  assumes "\<forall>p\<in>fst ` set settings. writable p" "distinct (map fst settings)"
    and "\<forall>p\<in>fst ` set settings. \<forall>q\<in>fst ` set settings. \<not> conflict p q"
    and "filter (\<lambda>kv. is_prefix ''IRA_'' (fst kv)) env = map (\<lambda>(p, x). (var_name p, x)) settings"
  shows "leaf path (env_provider ''IRA_'' env) w \<longleftrightarrow> (\<exists>x. (path, x) \<in> set settings \<and> w = VStr x)"
proof -
  have skip: "fold (env_step ''IRA_'') env cfg =
      fold (env_step ''IRA_'') (filter (\<lambda>kv. is_prefix ''IRA_'' (fst kv)) env) cfg" for cfg
    by (induction env arbitrary: cfg) (auto simp: env_step_def)
  let ?cfg = "\<lambda>ss. fold (env_step ''IRA_'') (map (\<lambda>(p, x). (var_name p, x)) ss) []"
  have "env_shape (?cfg settings) \<and>
      (\<forall>path w. leaf path (?cfg settings) w \<longleftrightarrow> (\<exists>x. (path, x) \<in> set settings \<and> w = VStr x))"
    using assms(1-3)
  proof (induction settings rule: rev_induct)
    case Nil
    have "\<not> leaf path [] w" for path w using no_leaf_empty by (cases "path = []") simp_all
    then show ?case by (simp add: env_shape_def)
  next
    case (snoc px ss)
    obtain p x where px: "px = (p, x)" by (cases px)
    have IH: "env_shape (?cfg ss)"
      "leaf path (?cfg ss) w \<longleftrightarrow> (\<exists>x. (path, x) \<in> set ss \<and> w = VStr x)" for path w
      using snoc by auto
    have p: "writable p" "is_prefix ''IRA_'' (var_name p)"
      using snoc.prems(1) px split_var(1) by auto
    have "\<forall>q w. leaf q (?cfg ss) w \<longrightarrow> \<not> conflict p q"
      using IH(2) snoc.prems(3) px by fastforce
    note new = env_assign_leaf[OF p(1) IH(1) this]
    have "?cfg (ss @ [px]) = env_assign (?cfg ss) (drop 4 (var_name p)) x"
      using p(2) px by (simp add: env_step_def eval_nat_numeral)
    with new snoc.prems(2) px IH(2) show ?case by (auto simp del: fold_append simp: image_iff)
  qed
  then show ?thesis by (simp add: env_provider_def skip assms(4))
qed

text \<open>
  C31. Settings survive the environment: when settings with lower-case paths of a section and a key
  (the section without an underscore), or of a key alone, are written to variables
  \<open>IRA_SECTION_KEY\<close>, among any other variables, the provider reads back exactly these settings, as
  strings: there is a value at a path if and only if the path was written, and it is the one that was
  written.
\<close>

theorem environment_round_trip:
  assumes "\<forall>p\<in>fst ` set settings. writable p" and "distinct (map fst settings)"
    and "\<forall>p\<in>fst ` set settings. \<forall>q\<in>fst ` set settings. \<not> conflict p q"
    and "filter (\<lambda>kv. is_prefix ''IRA_'' (fst kv)) env = map (\<lambda>(p, x). (var_name p, x)) settings"
  shows "leaf path (env_provider ''IRA_'' env) w \<longleftrightarrow> (\<exists>x. (path, x) \<in> set settings \<and> w = VStr x)"
  by (rule env_fold_leaf[OF assms])

theorem environment_round_trip_witness:
  "leaf [''security'', ''api_key''] (env_provider ''IRA_'' [(''PATH'', ''/bin''),
     (''IRA_SECURITY_API_KEY'', ''k''), (''IRA_ENV'', ''test'')]) (VStr ''k'') \<and>
   (\<forall>w. \<not> leaf [''path''] (env_provider ''IRA_'' [(''PATH'', ''/bin''),
     (''IRA_SECURITY_API_KEY'', ''k''), (''IRA_ENV'', ''test'')]) w)"
proof -
  let ?settings = "[([''security'', ''api_key''], ''k''), ([''env''], ''test'')]"
  have "\<forall>p\<in>fst ` set ?settings. writable p" by (simp add: lower_def lower_char_def)
  moreover have "distinct (map fst ?settings)" by simp
  moreover have "\<forall>p\<in>fst ` set ?settings. \<forall>q\<in>fst ` set ?settings. \<not> conflict p q"
    by (simp add: conflict_def)
  moreover have "filter (\<lambda>kv. is_prefix ''IRA_'' (fst kv)) [(''PATH'', ''/bin''),
      (''IRA_SECURITY_API_KEY'', ''k''), (''IRA_ENV'', ''test'')] =
      map (\<lambda>(p, x). (var_name p, x)) ?settings"
    by code_simp
  ultimately show ?thesis
    using environment_round_trip[of ?settings _ "[''security'', ''api_key'']" "VStr ''k''"]
      environment_round_trip[of ?settings _ "[''path'']"] by (simp del: filter.simps)
qed

end
