(* ===== verification/Brain.thy ===== *)
theory Brain
  imports Planner Identity Lifecycle
begin

text \<open>
  The brain (core/brain): requests, the reasoning engine, the decision engine, the pipeline of
  eight stages over the identity registry, the memory engine and the planner, and the manager that
  turns every outcome into a result. Time stamps of requests and turns, and log output, are not
  modelled; \<open>str\<close> of values other than strings is the parameter \<open>txt\<close>, as in theory Memory.
\<close>

section \<open>Models\<close>

definition brain_error :: "brain_exn \<Rightarrow> string \<Rightarrow> pyexn" where
  "brain_error c m = Exn (InBrain c) m"

definition immutable_mapping :: "pyval \<Rightarrow> pyexn + args" where
  "immutable_mapping v = (case v of
     VNone \<Rightarrow> Inr [] | VDict d \<Rightarrow> Inr d
   | _ \<Rightarrow> Inl (brain_error BrainValidationError ''Metadata must be a mapping.''))"

text \<open>Iterables among the values are lists and dictionaries (which iterate over their keys).\<close>

definition string_tuple :: "(pyval \<Rightarrow> string) \<Rightarrow> string \<Rightarrow> pyval \<Rightarrow> pyexn + string list" where
  "string_tuple txt field_name v = (case v of
     VNone \<Rightarrow> Inr []
   | VStr s \<Rightarrow> Inr [s]
   | VList xs \<Rightarrow> Inr (map (py_str txt) xs)
   | VDict d \<Rightarrow> Inr (map fst d)
   | _ \<Rightarrow> Inl (brain_error BrainValidationError
       (field_name @ '' must be a string or iterable of strings.'')))"

record brain_request =
  bq_id :: string
  bq_user :: string
  bq_payload :: pyval
  bq_metadata :: args

record brain_analysis =
  ba_text :: string
  ba_intent :: string
  ba_query :: string
  ba_tags :: "string list"
  ba_metadata :: args

record brain_identity =
  bi_id :: string
  bi_username :: string
  bi_display :: string
  bi_active :: bool
  bi_roles :: "string list"
  bi_metadata :: args

record planner_input =
  pi_goal :: string
  pi_request :: string
  pi_user :: string
  pi_text :: string
  pi_intent :: string
  pi_memory :: "string list"
  pi_metadata :: args

record plan_summary =
  su_goal :: string
  su_tasks :: "string list"
  su_steps :: nat
  su_created :: int

datatype decision_type = PLAN_READY | DECISION_FAILED

record brain_decision =
  bd_request :: string
  bd_user :: string
  bd_type :: decision_type
  bd_plan :: plan_summary
  bd_count :: nat
  bd_metadata :: args

record brain_result =
  bx_success :: bool
  bx_decision :: "brain_decision option"
  bx_error :: "string option"
  bx_request :: string

text \<open>The checks of \<open>__post_init__\<close>, where they can fail.\<close>

definition make_brain_request :: "string \<Rightarrow> string \<Rightarrow> pyval \<Rightarrow> pyval \<Rightarrow> pyexn + brain_request" where
  "make_brain_request i u p m =
     (if i = [] then Inl (brain_error BrainValidationError ''BrainRequest.request_id must not be empty.'')
      else if u = [] then Inl (brain_error BrainValidationError ''BrainRequest.user_id must not be empty.'')
      else if p = VNone then Inl (brain_error BrainValidationError ''BrainRequest.payload must not be None.'')
      else (case immutable_mapping m of
          Inl e \<Rightarrow> Inl e
        | Inr d \<Rightarrow> Inr \<lparr>bq_id = i, bq_user = u, bq_payload = p, bq_metadata = d\<rparr>))"

definition make_turn :: "string \<Rightarrow> string \<Rightarrow> pyval \<Rightarrow> pyexn + pyval" where
  "make_turn r c m = (if r = [] then Inl (brain_error BrainValidationError
        ''ConversationTurn.role must not be empty.'')
     else (case immutable_mapping m of
         Inl e \<Rightarrow> Inl e
       | Inr d \<Rightarrow> Inr (VObj ''ConversationTurn'' [(''role'', VStr r), (''content'', VStr c),
           (''metadata'', VDict d)])))"

fun role_name :: "role \<Rightarrow> string" where
  "role_name OWNER = ''OWNER''"
| "role_name ADMIN = ''ADMIN''"
| "role_name ASSISTANT = ''ASSISTANT''"
| "role_name GUEST = ''GUEST''"
| "role_name AUTOMATION = ''AUTOMATION''"
| "role_name DEVELOPER = ''DEVELOPER''"

definition from_identity :: "identity \<Rightarrow> pyexn + brain_identity" where
  "from_identity i = (if i_id i = []
     then Inl (brain_error BrainValidationError ''BrainIdentityContext.identity_id must not be empty.'')
     else Inr \<lparr>bi_id = i_id i, bi_username = i_username i, bi_display = i_display i,
       bi_active = i_active i, bi_roles = map role_name (i_roles i), bi_metadata = i_metadata i\<rparr>)"

definition make_summary :: "execution_plan \<Rightarrow> pyexn + plan_summary" where
  "make_summary p = (if g_id (pl_goal p) = []
     then Inl (brain_error BrainValidationError ''BrainPlanSummary.goal_id must not be empty.'')
     else Inr \<lparr>su_goal = g_id (pl_goal p), su_tasks = map t_id (pl_tasks p), su_steps = pl_steps p,
       su_created = pl_created p\<rparr>)"

section \<open>The context\<close>

record brain_context =
  bc_request :: brain_request
  bc_identity :: "brain_identity option"
  bc_turns :: "pyval list"
  bc_memory :: "search_result list"
  bc_analysis :: "brain_analysis option"
  bc_input :: "planner_input option"
  bc_output :: "plan_summary option"
  bc_decision :: "brain_decision option"
  bc_metadata :: args

definition context_of :: "brain_request \<Rightarrow> brain_context" where
  "context_of r = \<lparr>bc_request = r, bc_identity = None, bc_turns = [], bc_memory = [],
     bc_analysis = None, bc_input = None, bc_output = None, bc_decision = None,
     bc_metadata = [(''request_id'', VStr (bq_id r))]\<rparr>"

section \<open>Reasoning engine\<close>

text \<open>\<open>s.split()\<close>: the maximal runs of characters that are not white space.\<close>

function words :: "string \<Rightarrow> string list" where
  "words s = (let t = dropWhile is_ws s in
     if t = [] then [] else takeWhile (\<lambda>c. \<not> is_ws c) t # words (dropWhile (\<lambda>c. \<not> is_ws c) t))"
  by pat_completeness auto

termination
proof (relation "measure length", goal_cases)
  case (2 s t)
  then have "\<not> is_ws (hd t)" "t \<noteq> []" by (simp_all add: hd_dropWhile)
  then have "length (dropWhile (\<lambda>c. \<not> is_ws c) t) < length t"
    by (cases t) (auto simp: le_imp_less_Suc length_dropWhile_le)
  also have "\<dots> \<le> length s" using 2 by (simp add: length_dropWhile_le)
  finally show ?case by simp
qed simp

declare words.simps [simp del]

definition normalize_request :: "(pyval \<Rightarrow> string) \<Rightarrow> pyval \<Rightarrow> pyexn + string" where
  "normalize_request txt payload =
     (let n = (case payload of
          VStr s \<Rightarrow> join '' '' (words s)
        | VDict d \<Rightarrow> join '' '' (map (\<lambda>k. k @ ''='' @ py_str txt (dget d k)) (sort (map fst d)))
        | _ \<Rightarrow> strip (py_str txt payload))
      in if n = [] then Inl (brain_error BrainValidationError
           ''BrainRequest.payload must contain usable request content.'') else Inr n)"

definition question_words :: "string list" where
  "question_words = [''what '', ''why '', ''how '', ''when '', ''where '', ''who '']"

definition prepare_intent :: "(pyval \<Rightarrow> string) \<Rightarrow> args \<Rightarrow> string \<Rightarrow> string" where
  "prepare_intent txt md n =
     (let given = (case map_of md ''intent'' of None \<Rightarrow> [] | Some v \<Rightarrow> strip (py_str txt v)) in
      if given \<noteq> [] then given
      else if list_ex (\<lambda>w. is_prefix w (lower n)) question_words then ''answer''
      else ''coordinate'')"

definition analyze :: "(pyval \<Rightarrow> string) \<Rightarrow> brain_context \<Rightarrow> pyexn + brain_analysis" where
  "analyze txt c = (let r = bc_request c; md = bq_metadata r in
     case normalize_request txt (bq_payload r) of
       Inl e \<Rightarrow> Inl e
     | Inr n \<Rightarrow>
       (let query = strip (py_str txt (dget_or md ''memory_query'' (VStr n))) in
        case string_tuple txt ''BrainAnalysis.memory_tags'' (dget_or md ''memory_tags'' (VList [])) of
          Inl e \<Rightarrow> Inl e
        | Inr tags \<Rightarrow> Inr \<lparr>ba_text = n, ba_intent = prepare_intent txt md n,
            ba_query = (if query = [] then n else query), ba_tags = tags,
            ba_metadata = [(''payload_type'', VStr (class_name (bq_payload r))),
              (''conversation_turns'', VInt (int (length (bc_turns c))))]\<rparr>))"

text \<open>\<open>a or b\<close> on values.\<close>

definition py_or :: "pyval \<Rightarrow> pyval \<Rightarrow> pyval" where
  "py_or a b = (if truthy a then a else b)"

definition goal_of :: "(pyval \<Rightarrow> string) \<Rightarrow> args \<Rightarrow> string" where
  "goal_of txt md = strip (py_str txt
     (py_or (dget md ''planner_goal_id'') (py_or (dget md ''goal_id'') (VStr []))))"

definition prepare_planner_input ::
  "(pyval \<Rightarrow> string) \<Rightarrow> brain_context \<Rightarrow> pyexn + planner_input" where
  "prepare_planner_input txt c = (case (bc_identity c, bc_analysis c) of
     (None, _) \<Rightarrow> Inl (brain_error BrainProcessingError
       ''Identity context is required before preparing planner input.'')
   | (Some i, None) \<Rightarrow> Inl (brain_error BrainProcessingError
       ''Request analysis is required before preparing planner input.'')
   | (Some i, Some a) \<Rightarrow>
     (let g = goal_of txt (bq_metadata (bc_request c)) in
      if g = [] then Inl (brain_error BrainValidationError
        ''BrainRequest.metadata.goal_id must be provided for planner invocation.'')
      else Inr \<lparr>pi_goal = g, pi_request = bq_id (bc_request c), pi_user = bi_id i, pi_text = ba_text a,
        pi_intent = ba_intent a, pi_memory = map (\<lambda>x. mr_id (sr_record x)) (bc_memory c),
        pi_metadata = [(''memory_count'', VInt (int (length (bc_memory c)))),
          (''source'', VStr ''Brain'')]\<rparr>))"

text \<open>An item of the conversation: a turn is kept, a dictionary becomes one.\<close>

definition conversation_turn :: "(pyval \<Rightarrow> string) \<Rightarrow> pyval \<Rightarrow> pyexn + pyval" where
  "conversation_turn txt v = (case v of
     VDict d \<Rightarrow> make_turn (py_str txt (dget_or d ''role'' (VStr ''unknown'')))
       (py_str txt (dget_or d ''content'' (VStr []))) (dget_or d ''metadata'' (VDict []))
   | _ \<Rightarrow> if class_name v = ''ConversationTurn'' then Inr v
       else Inl (brain_error BrainValidationError
         ''Conversation context items must be ConversationTurn or mapping values.''))"

fun all_turns :: "(pyval \<Rightarrow> string) \<Rightarrow> pyval list \<Rightarrow> pyexn + pyval list" where
  "all_turns txt [] = Inr []"
| "all_turns txt (v # vs) = (case conversation_turn txt v of
     Inl e \<Rightarrow> Inl e
   | Inr t \<Rightarrow> (case all_turns txt vs of Inl e \<Rightarrow> Inl e | Inr ts \<Rightarrow> Inr (t # ts)))"

definition conversation_context :: "(pyval \<Rightarrow> string) \<Rightarrow> pyval \<Rightarrow> pyexn + pyval list" where
  "conversation_context txt raw = (case raw of
     VNone \<Rightarrow> Inr []
   | VList xs \<Rightarrow> all_turns txt xs
   | _ \<Rightarrow> Inl (brain_error BrainValidationError
       ''BrainRequest.metadata.conversation_context must be a sequence.''))"

section \<open>Decision engine\<close>

definition decide :: "brain_context \<Rightarrow> pyexn + brain_decision" where
  "decide c = (case bc_identity c of
     None \<Rightarrow> Inl (brain_error BrainDecisionError ''Identity context is required for decision generation.'')
   | Some i \<Rightarrow> (case bc_input c of
     None \<Rightarrow> Inl (brain_error BrainDecisionError ''Planner input is required for decision generation.'')
   | Some inp \<Rightarrow> (case bc_output c of
     None \<Rightarrow> Inl (brain_error BrainDecisionError ''Planner output is required for decision generation.'')
   | Some out \<Rightarrow> Inr \<lparr>bd_request = bq_id (bc_request c), bd_user = bi_id i, bd_type = PLAN_READY,
       bd_plan = out, bd_count = length (bc_memory c),
       bd_metadata = [(''intent'', VStr (pi_intent inp)), (''planner_goal_id'', VStr (pi_goal inp))]\<rparr>)))"

section \<open>Stages\<close>

text \<open>
  The state: the planner's (with the memory engine in it), the identity registry and whether the
  manager has been started. \<open>brain_env\<close> gathers what the components are built with; the module
  gives all of them the same bus.
\<close>

record brainsys = plansys +
  br_ids :: idsys
  br_started :: bool

record brain_env =
  be_uid :: "nat \<Rightarrow> string"
  be_txt :: "pyval \<Rightarrow> string"
  be_time :: "int \<Rightarrow> string"
  be_now :: int
  be_ord :: "string list \<Rightarrow> string list"
  be_bus :: "bus option"

type_synonym 'z stage = "brain_context \<Rightarrow> ('z brainsys_scheme, brain_context) act"

definition validate_request :: "'z stage" where
  "validate_request c = (let r = bc_request c in
     if bq_id r = [] then raise (InBrain BrainValidationError) ''BrainRequest.request_id must not be empty.''
     else if bq_user r = [] then raise (InBrain BrainValidationError) ''BrainRequest.user_id must not be empty.''
     else if bq_payload r = VNone
     then raise (InBrain BrainValidationError) ''BrainRequest.payload must not be None.''
     else ret c)"

definition conversation_stage :: "brain_env \<Rightarrow> 'z stage" where
  "conversation_stage env c = bindA
     (liftA (conversation_context (be_txt env) (dget (bq_metadata (bc_request c)) ''conversation_context'')))
     (\<lambda>ts. ret (c\<lparr>bc_turns := ts\<rparr>))"

definition resolve_identity :: "'z stage" where
  "resolve_identity c s = (case id_get (bq_user (bc_request c)) (br_ids s) of
     None \<Rightarrow> raise (InBrain BrainIdentityResolutionError) ''Brain identity could not be resolved.'' s
   | Some i \<Rightarrow> if \<not> i_active i
       then raise (InBrain BrainIdentityResolutionError) ''Brain identity is inactive.'' s
       else bindA (liftA (from_identity i)) (\<lambda>b. ret (c\<lparr>bc_identity := Some b\<rparr>)) s)"

definition analyze_stage :: "brain_env \<Rightarrow> 'z stage" where
  "analyze_stage env c = bindA (liftA (analyze (be_txt env) c)) (\<lambda>a. ret (c\<lparr>bc_analysis := Some a\<rparr>))"

text \<open>
  Only \<open>TypeError\<close> and \<open>ValueError\<close> of the limit, the only ones \<open>int\<close> raises here, become a
  validation error; what the query itself raises is not caught.
\<close>

definition memory_limit :: "args \<Rightarrow> pyexn + int" where
  "memory_limit md = (case py_int (dget_or md ''memory_limit'' (VInt 10)) of
     Inr n \<Rightarrow> Inr n
   | Inl e \<Rightarrow> if exn_cls e = Py PyTypeError \<or> exn_cls e = Py PyValueError
       then Inl (brain_error BrainValidationError ''BrainRequest.metadata.memory_limit must be an integer.'')
       else Inl e)"

definition memory_namespace :: "(pyval \<Rightarrow> string) \<Rightarrow> args \<Rightarrow> string option" where
  "memory_namespace txt md = (let v = dget md ''memory_namespace'' in
     if v = VNone then None else Some (py_str txt v))"

definition retrieve_memory :: "brain_env \<Rightarrow> 'z stage" where
  "retrieve_memory env c = (let md = bq_metadata (bc_request c) in case bc_analysis c of
     None \<Rightarrow> raise (InBrain BrainMemoryError) ''Request analysis is required before memory retrieval.''
   | Some a \<Rightarrow> bindA (liftA (memory_limit md)) (\<lambda>lim.
       bindA (liftA (make_query (ba_query a) (SeqTags (ba_tags a)) (memory_namespace (be_txt env) md) lim)) (\<lambda>q.
       bindA (catchA (\<lambda>s. (search_memory (be_txt env) (be_ord env) q (ms_index s), s))
           (\<lambda>e. raise (InBrain BrainMemoryError) ''Brain memory retrieval failed.'')) (\<lambda>rs.
       ret (c\<lparr>bc_memory := rs\<rparr>)))))"

definition build_input :: "brain_env \<Rightarrow> 'z stage" where
  "build_input env c = bindA (liftA (prepare_planner_input (be_txt env) c)) (\<lambda>i. ret (c\<lparr>bc_input := Some i\<rparr>))"

definition invoke_planner :: "brain_env \<Rightarrow> 'z stage" where
  "invoke_planner env c = (case bc_input c of
     None \<Rightarrow> raise (InBrain BrainPlannerError) ''Planner input is required before planner invocation.''
   | Some i \<Rightarrow> bindA (build_plan (be_uid env) (be_txt env) (be_time env) (be_now env) (be_bus env) (pi_goal i))
       (\<lambda>res. case (pr_success res, pr_plan res) of
          (True, Some p) \<Rightarrow> bindA (liftA (make_summary p)) (\<lambda>su. ret (c\<lparr>bc_output := Some su\<rparr>))
        | _ \<Rightarrow> raise (InBrain BrainPlannerError) ''Brain planner invocation failed.''))"

definition make_decision :: "'z stage" where
  "make_decision c = bindA (catchA (liftA (decide c)) (\<lambda>e.
     if exn_cls e = InBrain BrainDecisionError then liftA (Inl e)
     else raise (InBrain BrainDecisionError) ''Brain decision generation failed.''))
     (\<lambda>d. ret (c\<lparr>bc_decision := Some d\<rparr>))"

section \<open>Pipeline and manager\<close>

definition brain_stages :: "brain_env \<Rightarrow> 'z stage list" where
  "brain_stages env = [validate_request, conversation_stage env, resolve_identity, analyze_stage env,
     retrieve_memory env, build_input env, invoke_planner env, make_decision]"

fun run_stages :: "'z stage list \<Rightarrow> 'z stage" where
  "run_stages [] c = ret c"
| "run_stages (st # sts) c = bindA (st c) (run_stages sts)"

definition pipeline_execute ::
  "'z stage list \<Rightarrow> brain_request \<Rightarrow> ('z brainsys_scheme, brain_result) act" where
  "pipeline_execute sts r = bindA (run_stages sts (context_of r)) (\<lambda>c. case bc_decision c of
     None \<Rightarrow> raise (InBrain BrainDecisionError) ''Brain pipeline completed without a decision.''
   | Some d \<Rightarrow> ret \<lparr>bx_success = True, bx_decision = Some d, bx_error = None, bx_request = bq_id r\<rparr>)"

text \<open>What the manager is called with: a request, or another object with the attributes it has.\<close>

datatype brain_arg = IsBrainRequest brain_request | NotBrainRequest "string option" "string option"

definition or_unknown :: "string \<Rightarrow> string" where
  "or_unknown s = (if s = [] then ''unknown'' else s)"

fun request_id_of :: "brain_arg \<Rightarrow> string" where
  "request_id_of (IsBrainRequest r) = or_unknown (bq_id r)"
| "request_id_of (NotBrainRequest i u) = or_unknown (case i of None \<Rightarrow> [] | Some s \<Rightarrow> s)"

fun user_id_of :: "brain_arg \<Rightarrow> string" where
  "user_id_of (IsBrainRequest r) = or_unknown (bq_user r)"
| "user_id_of (NotBrainRequest i u) = or_unknown (case u of None \<Rightarrow> [] | Some s \<Rightarrow> s)"

definition brain_fail :: "bus option \<Rightarrow> string \<Rightarrow> string \<Rightarrow> ('w world_scheme, brain_result) act" where
  "brain_fail mb i msg = seqA (notify mb (EvBrain (BrainRequestFailed i msg)))
     (ret \<lparr>bx_success = False, bx_decision = None, bx_error = Some msg, bx_request = i\<rparr>)"

definition failed_msg :: string where
  "failed_msg = ''Brain request processing failed.''"

definition process_request :: "brain_env \<Rightarrow> brain_arg \<Rightarrow> ('z brainsys_scheme, brain_result) act" where
  "process_request env x = (let i = request_id_of x; u = user_id_of x in case x of
     NotBrainRequest _ _ \<Rightarrow> brain_fail (be_bus env) i ''Invalid BrainRequest object.''
   | IsBrainRequest r \<Rightarrow> seqA (notify (be_bus env) (EvBrain (BrainRequestStarted i u)))
       (catchA (bindA (pipeline_execute (brain_stages env) r) (\<lambda>res.
          seqA (notify (be_bus env) (EvBrain (BrainRequestCompleted i (bx_success res)))) (ret res)))
        (\<lambda>e. brain_fail (be_bus env) i failed_msg)))"

definition brain_start :: "('z brainsys_scheme, unit) act" where
  "brain_start s = (Inr (), s\<lparr>br_started := True\<rparr>)"

definition brain_shutdown :: "('z brainsys_scheme, unit) act" where
  "brain_shutdown s = (Inr (), s\<lparr>br_started := False\<rparr>)"

text \<open>Which dependencies the manager was given, and the stages of its pipeline.\<close>

record brain_deps =
  has_pipeline :: bool
  has_identity :: bool
  has_memory :: bool
  has_planner :: bool
  has_bus :: bool

definition brain_missing :: "brain_deps \<Rightarrow> string list" where
  "brain_missing d = (if has_pipeline d then [] else [''Pipeline'']) @
     (if has_identity d then [] else [''Identity'']) @ (if has_memory d then [] else [''Memory'']) @
     (if has_planner d then [] else [''Planner'']) @ (if has_bus d then [] else [''Event Bus''])"

definition brain_health :: "brain_deps \<Rightarrow> 'z brainsys_scheme \<Rightarrow> component_health" where
  "brain_health d s = (if \<not> br_started s then \<lparr>h_state = STOPPED, h_details = ''Brain is stopped.''\<rparr>
     else if brain_missing d \<noteq> []
     then \<lparr>h_state = FAILED,
       h_details = ''Missing kernel dependencies: '' @ join '', '' (brain_missing d) @ ''.''\<rparr>
     else \<lparr>h_state = RUNNING, h_details = ''Brain is available.''\<rparr>)"

section \<open>The pipeline answers exactly the answerable requests\<close>

text \<open>The search a request leads to.\<close>

definition request_query :: "(pyval \<Rightarrow> string) \<Rightarrow> brain_request \<Rightarrow> pyexn + search_query" where
  "request_query txt r = (let md = bq_metadata r in
     case analyze txt (context_of r) of
       Inl e \<Rightarrow> Inl e
     | Inr a \<Rightarrow> (case memory_limit md of
         Inl e \<Rightarrow> Inl e
       | Inr lim \<Rightarrow> make_query (ba_query a) (SeqTags (ba_tags a)) (memory_namespace txt md) lim))"

text \<open>A request is well formed in a state, and it can be answered.\<close>

definition well_formed :: "(pyval \<Rightarrow> string) \<Rightarrow> brain_request \<Rightarrow> 'z brainsys_scheme \<Rightarrow> bool" where
  "well_formed txt r s \<longleftrightarrow> bq_id r \<noteq> [] \<and> bq_user r \<noteq> [] \<and> bq_payload r \<noteq> VNone \<and>
     \<not> isl (conversation_context txt (dget (bq_metadata r) ''conversation_context'')) \<and>
     (\<exists>i. id_get (bq_user r) (br_ids s) = Some i \<and> i_active i \<and> i_id i \<noteq> []) \<and>
     \<not> isl (request_query txt r) \<and> goal_of txt (bq_metadata r) \<noteq> []"

definition answerable :: "(pyval \<Rightarrow> string) \<Rightarrow> brain_request \<Rightarrow> 'z brainsys_scheme \<Rightarrow> bool" where
  "answerable txt r s \<longleftrightarrow> well_formed txt r s \<and> plannable (goal_of txt (bq_metadata r)) s"

definition preparing :: "brain_env \<Rightarrow> 'z stage list" where
  "preparing env = [validate_request, conversation_stage env, resolve_identity, analyze_stage env,
     retrieve_memory env, build_input env]"

lemma run_stages_append: "run_stages (xs @ ys) c s = bindA (run_stages xs c) (run_stages ys) s"
proof (induction xs arbitrary: c s)
  case Nil
  then show ?case by simp
next
  case (Cons x xs)
  then show ?case by (auto simp: bindA_def split: prod.split sum.split)
qed

text \<open>The preparing stages change nothing.\<close>

lemma preparing_keeps: "snd (run_stages (preparing env) c s) = s"
proof -
  have keep: "keepsA (=) (st c)" if "st \<in> set (preparing env :: 'z stage list)" for st c
    using that
    by (auto simp: preparing_def validate_request_def conversation_stage_def resolve_identity_def
      analyze_stage_def retrieve_memory_def build_input_def keepsA_def act_defs Let_def
      split: option.split prod.split sum.split)
  have "keepsA (=) (run_stages sts c)" if "\<forall>st\<in>set sts. \<forall>c. keepsA (=) (st c)" for sts :: "'z stage list"
    using that by (induction sts arbitrary: c) (auto intro!: keepsA_bind keepsA_ret)
  with keep have "keepsA (=) (run_stages (preparing env) c :: ('z brainsys_scheme, _) act)" by blast
  then show ?thesis by (metis keepsA_def)
qed

lemma analyze_turns:
  "analyze txt c = (case analyze txt (context_of (bc_request c)) of
     Inl e \<Rightarrow> Inl e
   | Inr a \<Rightarrow> Inr (a\<lparr>ba_metadata := [(''payload_type'', VStr (class_name (bq_payload (bc_request c)))),
       (''conversation_turns'', VInt (int (length (bc_turns c))))]\<rparr>))"
  by (auto simp: analyze_def context_of_def Let_def split: sum.split)

text \<open>How many records a search returns.\<close>

lemma search_count:
  assumes "index_ok ix" "enumerates ord" "make_query t tags ns lim = Inr q"
  shows "\<exists>rs. search_memory txt ord q ix = Inr rs \<and>
    length rs = min (nat lim) (card {r. matches txt q ix r})"
proof -
  have lim: "sq_limit q = lim" "lim > 0"
    using assms(3) by (auto simp: make_query_def invalid_def split: if_splits tags_arg.splits)
  let ?hs = "hits txt q ix (ord (candidates q ix))"
  have "length ?hs = card (set ?hs)" using set_hits(2)[OF assms(1,2)] by (simp add: distinct_card)
  also have "\<dots> = card {r. matches txt q ix r}"
    unfolding set_hits(1)[OF assms(1,2)] by (rule card_image) (auto simp: inj_on_def result_of_def)
  finally show ?thesis using lim by (simp add: search_memory_def min.commute)
qed

text \<open>When each preparing stage returns, and what.\<close>

lemma stage_results:
  "validate_request c s = (Inr c', t) \<longleftrightarrow> c' = c \<and> t = s \<and> bq_id (bc_request c) \<noteq> [] \<and>
     bq_user (bc_request c) \<noteq> [] \<and> bq_payload (bc_request c) \<noteq> VNone"
  "conversation_stage env c s = (Inr c', t) \<longleftrightarrow> t = s \<and> (\<exists>ts. conversation_context (be_txt env)
     (dget (bq_metadata (bc_request c)) ''conversation_context'') = Inr ts \<and> c' = c\<lparr>bc_turns := ts\<rparr>)"
  "resolve_identity c s = (Inr c', t) \<longleftrightarrow> t = s \<and> (\<exists>i b. id_get (bq_user (bc_request c)) (br_ids s) = Some i \<and>
     i_active i \<and> from_identity i = Inr b \<and> c' = c\<lparr>bc_identity := Some b\<rparr>)"
  "analyze_stage env c s = (Inr c', t) \<longleftrightarrow> t = s \<and> (\<exists>a. analyze (be_txt env) c = Inr a \<and>
     c' = c\<lparr>bc_analysis := Some a\<rparr>)"
  "build_input env c s = (Inr c', t) \<longleftrightarrow> t = s \<and> (\<exists>i. prepare_planner_input (be_txt env) c = Inr i \<and>
     c' = c\<lparr>bc_input := Some i\<rparr>)"
  by (auto simp: validate_request_def conversation_stage_def resolve_identity_def analyze_stage_def
    build_input_def act_defs Let_def split: option.splits sum.splits)

lemma retrieve_result:
  "retrieve_memory env c s = (Inr c', t) \<longleftrightarrow> t = s \<and> (\<exists>a lim q rs. bc_analysis c = Some a \<and>
     memory_limit (bq_metadata (bc_request c)) = Inr lim \<and> make_query (ba_query a) (SeqTags (ba_tags a))
       (memory_namespace (be_txt env) (bq_metadata (bc_request c))) lim = Inr q \<and>
     search_memory (be_txt env) (be_ord env) q (ms_index s) = Inr rs \<and> c' = c\<lparr>bc_memory := rs\<rparr>)"
proof (cases "bc_analysis c")
  case None
  then show ?thesis by (simp add: retrieve_memory_def Let_def raise_def)
next
  case (Some a)
  then show ?thesis
    by (auto simp: retrieve_memory_def Let_def act_defs split: sum.splits prod.splits)
qed

lemma from_identity_Inr: "from_identity i = Inr b \<Longrightarrow> i_id i \<noteq> [] \<and> bi_id b = i_id i"
  by (auto simp: from_identity_def split: if_splits)

lemma planner_input_Inr:
  "prepare_planner_input txt c = Inr p \<longleftrightarrow> (\<exists>b a. bc_identity c = Some b \<and> bc_analysis c = Some a \<and>
     goal_of txt (bq_metadata (bc_request c)) \<noteq> [] \<and>
     p = \<lparr>pi_goal = goal_of txt (bq_metadata (bc_request c)), pi_request = bq_id (bc_request c),
       pi_user = bi_id b, pi_text = ba_text a, pi_intent = ba_intent a,
       pi_memory = map (\<lambda>x. mr_id (sr_record x)) (bc_memory c),
       pi_metadata = [(''memory_count'', VInt (int (length (bc_memory c)))), (''source'', VStr ''Brain'')]\<rparr>)"
  by (auto simp: prepare_planner_input_def Let_def split: option.split)

text \<open>What the context holds after the preparing stages.\<close>

definition prepared :: "brain_env \<Rightarrow> brain_request \<Rightarrow> 'z brainsys_scheme \<Rightarrow> brain_context \<Rightarrow> bool" where
  "prepared env r s c \<longleftrightarrow> bc_request c = r \<and>
     (\<exists>i b q inp. id_get (bq_user r) (br_ids s) = Some i \<and> bc_identity c = Some b \<and> bi_id b = i_id i \<and>
        request_query (be_txt env) r = Inr q \<and>
        search_memory (be_txt env) (be_ord env) q (ms_index s) = Inr (bc_memory c) \<and>
        bc_input c = Some inp \<and> pi_goal inp = goal_of (be_txt env) (bq_metadata r))"

lemma preparing_result:
  assumes "run_stages (preparing env) (context_of r) s = (Inr c, t)"
  shows "well_formed (be_txt env) r s \<and> prepared env r s c"
proof -
  obtain ts i b a lim q rs p where
    c: "c = (context_of r)\<lparr>bc_turns := ts, bc_identity := Some b, bc_analysis := Some a, bc_memory := rs,
      bc_input := Some p\<rparr>" and
    ok: "bq_id r \<noteq> []" "bq_user r \<noteq> []" "bq_payload r \<noteq> VNone"
    "conversation_context (be_txt env) (dget (bq_metadata r) ''conversation_context'') = Inr ts"
    "id_get (bq_user r) (br_ids s) = Some i" "i_active i" "from_identity i = Inr b" and
    a: "analyze (be_txt env) ((context_of r)\<lparr>bc_turns := ts, bc_identity := Some b\<rparr>) = Inr a" and
    q: "memory_limit (bq_metadata r) = Inr lim" "make_query (ba_query a) (SeqTags (ba_tags a))
       (memory_namespace (be_txt env) (bq_metadata r)) lim = Inr q"
    "search_memory (be_txt env) (be_ord env) q (ms_index s) = Inr rs" and
    p: "prepare_planner_input (be_txt env) ((context_of r)\<lparr>bc_turns := ts, bc_identity := Some b,
      bc_analysis := Some a, bc_memory := rs\<rparr>) = Inr p"
    using assms by (auto simp: preparing_def bindA_eq_Inr stage_results retrieve_result context_of_def ret_def)
  from a obtain a0 where "analyze (be_txt env) (context_of r) = Inr a0"
    "ba_query a0 = ba_query a" "ba_tags a0 = ba_tags a"
    by (subst (asm) analyze_turns) (auto simp: context_of_def split: sum.splits)
  with q have "request_query (be_txt env) r = Inr q" by (simp add: request_query_def Let_def)
  with c ok q(3) p from_identity_Inr[OF ok(7)] show ?thesis
    by (auto simp: well_formed_def prepared_def planner_input_Inr context_of_def)
qed

lemma preparing_runs:
  assumes "index_ok (ms_index s)" "enumerates (be_ord env)" "well_formed (be_txt env) r s"
  shows "\<exists>c. run_stages (preparing env) (context_of r) s = (Inr c, s)"
proof -
  let ?md = "bq_metadata r"
  obtain ts where ts: "conversation_context (be_txt env) (dget ?md ''conversation_context'') = Inr ts"
    using assms(3) by (cases "conversation_context (be_txt env) (dget ?md ''conversation_context'')")
      (auto simp: well_formed_def)
  obtain i where i: "id_get (bq_user r) (br_ids s) = Some i" "i_active i" "i_id i \<noteq> []"
    using assms(3) by (auto simp: well_formed_def)
  then obtain b where b: "from_identity i = Inr b" by (simp add: from_identity_def)
  obtain q where q: "request_query (be_txt env) r = Inr q"
    using assms(3) by (cases "request_query (be_txt env) r") (auto simp: well_formed_def)
  then obtain a0 lim where a0: "analyze (be_txt env) (context_of r) = Inr a0" "memory_limit ?md = Inr lim"
    "make_query (ba_query a0) (SeqTags (ba_tags a0)) (memory_namespace (be_txt env) ?md) lim = Inr q"
    by (auto simp: request_query_def Let_def split: sum.splits)
  obtain rs where rs: "search_memory (be_txt env) (be_ord env) q (ms_index s) = Inr rs"
    using search_count[OF assms(1,2) a0(3)] by blast
  obtain a where a: "analyze (be_txt env) ((context_of r)\<lparr>bc_turns := ts, bc_identity := Some b\<rparr>) = Inr a"
    "ba_query a = ba_query a0" "ba_tags a = ba_tags a0"
    using a0(1) analyze_turns[of "be_txt env" "(context_of r)\<lparr>bc_turns := ts, bc_identity := Some b\<rparr>"]
    by (simp add: context_of_def)
  have "goal_of (be_txt env) ?md \<noteq> []" using assms(3) by (simp add: well_formed_def)
  then obtain p where p: "prepare_planner_input (be_txt env) ((context_of r)\<lparr>bc_turns := ts,
      bc_identity := Some b, bc_analysis := Some a, bc_memory := rs\<rparr>) = Inr p"
    by (simp add: planner_input_Inr context_of_def)
  have v: "bq_id r \<noteq> [] \<and> bq_user r \<noteq> [] \<and> bq_payload r \<noteq> VNone"
    using assms(3) by (simp add: well_formed_def)
  have [simp]: "bc_request (context_of r) = r" by (simp add: context_of_def)
  show ?thesis
    unfolding preparing_def run_stages.simps bindA_eq_Inr
    using v ts i b a a0 q rs p
    by (fastforce simp: stage_results retrieve_result ret_def)
qed

lemma br_ids_base [simp]: "br_ids (s\<lparr>w_trace := x\<rparr>) = br_ids s"
  by (cases s) simp

lemma br_ids_stored [simp]: "br_ids (plan_stored g m p s) = br_ids s"
  by (cases s) (simp add: plan_stored_def)

lemma stored_simps [simp]:
  "ms_index (plan_stored g m p s) = index_add m (ms_index s)" "ps_goals (plan_stored g m p s) = ps_goals s"
  "ps_tasks (plan_stored g m p s) = ps_tasks s"
  "w_trace (plan_stored g m p s) = w_trace s @ [EvMemory (MemoryStored (mr_id m) g ''planner''),
     EvPlanner (PlanCreated g (mr_id m) (pl_steps p))]"
  by (simp_all add: plan_stored_def)

definition announced :: "event \<Rightarrow> 'z brainsys_scheme \<Rightarrow> 'z brainsys_scheme" where
  "announced e s = s\<lparr>w_trace := w_trace s @ [e]\<rparr>"

lemma announced_simps [simp]:
  "w_trace (announced e s) = w_trace s @ [e]" "w_uid (announced e s) = w_uid s"
  "ms_index (announced e s) = ms_index s" "ps_goals (announced e s) = ps_goals s"
  "ps_tasks (announced e s) = ps_tasks s" "br_ids (announced e s) = br_ids s"
  "planner_ok (announced e s) = planner_ok s" "goal_tasks g (announced e s) = goal_tasks g s"
  "plannable g (announced e s) = plannable g s" "well_formed txt r (announced e s) = well_formed txt r s"
  by (simp_all add: announced_def planner_ok_def goal_tasks_def task_list_def plannable_def well_formed_def)

lemma search_found:
  assumes "index_ok (ms_index s)" "enumerates (be_ord env)" "prepared env r s c"
  obtains q where "request_query (be_txt env) r = Inr q"
    "length (bc_memory c) = min (nat (sq_limit q)) (card {x. matches (be_txt env) q (ms_index s) x})"
proof -
  obtain q where q: "request_query (be_txt env) r = Inr q"
    "search_memory (be_txt env) (be_ord env) q (ms_index s) = Inr (bc_memory c)"
    using assms(3) by (auto simp: prepared_def)
  from q(1) obtain t tags ns lim where m: "make_query t tags ns lim = Inr q"
    by (auto simp: request_query_def Let_def split: sum.splits)
  then have "sq_limit q = lim" by (auto simp: make_query_def invalid_def split: if_splits tags_arg.splits)
  with search_count[OF assms(1,2) m, of "be_txt env"] q that show thesis by auto
qed

text \<open>The last two stages, from a prepared context.\<close>

definition finished :: "'z brainsys_scheme \<Rightarrow> brain_request \<Rightarrow> string \<Rightarrow> execution_plan \<Rightarrow> nat \<Rightarrow>
    brain_decision \<Rightarrow> bool" where
  "finished s r g p n d \<longleftrightarrow> bd_request d = bq_id r \<and> bd_type d = PLAN_READY \<and>
     (\<exists>i. id_get (bq_user r) (br_ids s) = Some i \<and> bd_user d = i_id i) \<and>
     su_tasks (bd_plan d) = map t_id (pl_tasks p) \<and> su_steps (bd_plan d) = pl_steps p \<and> bd_count d = n"

lemma planning_stages:
  assumes "prepared env r s c" "be_bus env = Some quiet" "planner_ok s"
    and g: "g = goal_of (be_txt env) (bq_metadata r)"
    and "memory_map (ms_index s) (''planner:'' @ g @ '':'' @ uuid_hex (be_uid env (w_uid s))) = None"
  shows "if plannable g s
    then \<exists>p m c' d. run_stages [invoke_planner env, make_decision] c s = (Inr c', plan_stored g m p s) \<and>
      bc_decision c' = Some d \<and> finished s r g p (length (bc_memory c)) d \<and>
      mset (pl_tasks p) = mset (goal_tasks g s) \<and> topo t_id t_deps (pl_tasks p) \<and>
      pl_steps p = length (goal_tasks g s) \<and> mr_namespace m = ''planner'' \<and> mr_owner m = g \<and>
      planner_ok (plan_stored g m p s) \<and>
      memory_map (index_add m (ms_index s)) = (memory_map (ms_index s))(mr_id m \<mapsto> m)
    else \<exists>e msg. run_stages [invoke_planner env, make_decision] c s =
      (Inl e, announced (EvPlanner (PlanFailed g msg)) s)"
proof -
  from assms(1) g obtain i b inp where c: "bc_request c = r" "id_get (bq_user r) (br_ids s) = Some i"
    "bc_identity c = Some b" "bi_id b = i_id i" "bc_input c = Some inp" "pi_goal inp = g"
    by (auto simp: prepared_def)
  show ?thesis
  proof (cases "plannable g s")
    case False
    from build_plan_refused[OF assms(3) False, of "be_uid env" "be_txt env" "be_time env" "be_now env"] c(5,6) False
    show ?thesis by (auto simp: invoke_planner_def bindA_def assms(2) raise_def announced_def)
  next
    case True
    obtain p m where run: "build_plan (be_uid env) (be_txt env) (be_time env) (be_now env) (Some quiet) g s =
        (Inr \<lparr>pr_success = True, pr_plan = Some p, pr_error = None\<rparr>, plan_stored g m p s)"
      and p: "mset (pl_tasks p) = mset (goal_tasks g s)" "topo t_id t_deps (pl_tasks p)"
      "pl_steps p = length (goal_tasks g s)" and goal: "g_id (pl_goal p) \<noteq> []"
      and m: "mr_namespace m = ''planner''" "mr_owner m = g" "planner_ok (plan_stored g m p s)"
      "memory_map (index_add m (ms_index s)) = (memory_map (ms_index s))(mr_id m \<mapsto> m)"
      by (rule build_plan_runs[where uid = "be_uid env" and i = g, OF assms(3) True assms(5),
          of "be_txt env" "be_time env" "be_now env"]) blast
    have "\<exists>c' d. run_stages [invoke_planner env, make_decision] c s = (Inr c', plan_stored g m p s) \<and>
        bc_decision c' = Some d \<and> finished s r g p (length (bc_memory c)) d"
      using run goal c
      by (simp add: invoke_planner_def make_decision_def decide_def make_summary_def finished_def
        assms(2) act_defs)
    with True p m show ?thesis by (simp only: if_True) blast
  qed
qed

lemma brain_stages_split: "brain_stages env = preparing env @ [invoke_planner env, make_decision]"
  by (simp add: brain_stages_def preparing_def)

text \<open>The manager around the pipeline: what it makes of a run that fails and of one that decides.\<close>

lemma process_request_run:
  assumes "be_bus env = Some quiet"
    and "run_stages (brain_stages env) (context_of r)
      (announced (EvBrain (BrainRequestStarted (or_unknown (bq_id r)) (or_unknown (bq_user r)))) s) = (x, t)"
  shows "x = Inl e \<Longrightarrow> process_request env (IsBrainRequest r) s =
      (Inr \<lparr>bx_success = False, bx_decision = None, bx_error = Some failed_msg,
        bx_request = or_unknown (bq_id r)\<rparr>,
       announced (EvBrain (BrainRequestFailed (or_unknown (bq_id r)) failed_msg)) t)"
    and "x = Inr c \<Longrightarrow> bc_decision c = Some d \<Longrightarrow> process_request env (IsBrainRequest r) s =
      (Inr \<lparr>bx_success = True, bx_decision = Some d, bx_error = None, bx_request = bq_id r\<rparr>,
       announced (EvBrain (BrainRequestCompleted (or_unknown (bq_id r)) True)) t)"
  using assms
  by (simp_all add: process_request_def pipeline_execute_def brain_fail_def notify_def act_defs
      announced_def Let_def)

text \<open>
  C2. The brain answers exactly the answerable requests: on a quiet bus, with consistent memory and
  planner state and a new identifier for the stored plan, processing a request never raises. It
  succeeds exactly if the request is well formed, its user registered and active, and its goal
  plannable. Then the decision names the request and the user, carries the identifiers of the goal's
  tasks in an order that respects their dependencies and the number of records the search found, up
  to the limit of the request; one record owned by the goal is added to the memory and four events
  are published. Otherwise the result is a failure, the memory is as it was, and the only events are
  the start, possibly a failed plan, and the failure. Identities, goals and tasks never change.
\<close>

theorem brain_answers:
  assumes "be_bus env = Some quiet" and "planner_ok s" and "enumerates (be_ord env)"
    and g: "g = goal_of (be_txt env) (bq_metadata r)"
    and "memory_map (ms_index s) (''planner:'' @ g @ '':'' @ uuid_hex (be_uid env (w_uid s))) = None"
  shows "\<exists>res s'. process_request env (IsBrainRequest r) s = (Inr res, s') \<and>
    bx_success res = answerable (be_txt env) r s \<and> planner_ok s' \<and> br_ids s' = br_ids s \<and>
    ps_goals s' = ps_goals s \<and> ps_tasks s' = ps_tasks s \<and>
    (if answerable (be_txt env) r s
     then \<exists>d q order m. bx_decision res = Some d \<and> bd_request d = bq_id r \<and>
       (\<exists>i. id_get (bq_user r) (br_ids s) = Some i \<and> bd_user d = i_id i) \<and>
       su_tasks (bd_plan d) = map t_id order \<and> mset order = mset (goal_tasks g s) \<and>
       topo t_id t_deps order \<and> request_query (be_txt env) r = Inr q \<and>
       bd_count d = min (nat (sq_limit q)) (card {x. matches (be_txt env) q (ms_index s) x}) \<and>
       mr_owner m = g \<and> memory_map (ms_index s') = (memory_map (ms_index s))(mr_id m \<mapsto> m) \<and>
       w_trace s' = w_trace s @ [EvBrain (BrainRequestStarted (bq_id r) (bq_user r)),
         EvMemory (MemoryStored (mr_id m) g ''planner''),
         EvPlanner (PlanCreated g (mr_id m) (length order)), EvBrain (BrainRequestCompleted (bq_id r) True)]
     else bx_error res = Some failed_msg \<and> memory_map (ms_index s') = memory_map (ms_index s) \<and>
       (\<exists>mid. w_trace s' = w_trace s @
          EvBrain (BrainRequestStarted (or_unknown (bq_id r)) (or_unknown (bq_user r))) # mid @
          [EvBrain (BrainRequestFailed (or_unknown (bq_id r)) failed_msg)] \<and>
          (mid = [] \<or> (\<exists>msg. mid = [EvPlanner (PlanFailed g msg)]))))"
proof -
  let ?txt = "be_txt env" and ?i = "or_unknown (bq_id r)"
  let ?s1 = "announced (EvBrain (BrainRequestStarted ?i (or_unknown (bq_user r)))) s"
  have ix: "index_ok (ms_index ?s1)" using assms(2) by (simp add: planner_ok_def)
  show ?thesis
  proof (cases "well_formed ?txt r s")
    case False
    then obtain e where e: "run_stages (preparing env) (context_of r) ?s1 = (Inl e, ?s1)"
      using preparing_keeps[of env "context_of r" ?s1] preparing_result[of env r ?s1]
      by (cases "run_stages (preparing env) (context_of r) ?s1"; cases "fst (run_stages (preparing env) (context_of r) ?s1)") auto
    then have "run_stages (brain_stages env) (context_of r) ?s1 = (Inl e, ?s1)"
      by (simp add: brain_stages_split run_stages_append bindA_def)
    from process_request_run(1)[OF assms(1) this refl] False assms(2) show ?thesis
      by (simp add: answerable_def)
  next
    case wf: True
    then obtain c where c: "run_stages (preparing env) (context_of r) ?s1 = (Inr c, ?s1)"
      using preparing_runs[OF ix assms(3)] by auto
    have prep: "prepared env r ?s1 c" using preparing_result[OF c] by simp
    have ids: "?i = bq_id r" "or_unknown (bq_user r) = bq_user r"
      using wf by (simp_all add: well_formed_def or_unknown_def)
    have all: "run_stages (brain_stages env) (context_of r) ?s1 =
        run_stages [invoke_planner env, make_decision] c ?s1"
      using c by (simp only: brain_stages_split run_stages_append bindA_def prod.case sum.case)
    have ok: "planner_ok ?s1" "memory_map (ms_index ?s1)
        (''planner:'' @ g @ '':'' @ uuid_hex (be_uid env (w_uid ?s1))) = None"
      using assms(2,5) by simp_all
    note plan = planning_stages[OF prep assms(1) ok(1) g ok(2)]
    show ?thesis
    proof (cases "plannable g s")
      case False
      with plan obtain e msg where "run_stages [invoke_planner env, make_decision] c ?s1 =
          (Inl e, announced (EvPlanner (PlanFailed g msg)) ?s1)" by auto
      from process_request_run(1)[OF assms(1) all[unfolded this] refl] False assms(2) g show ?thesis
        by (auto simp: answerable_def)
    next
      case True
      with plan obtain p m c' d where run: "run_stages [invoke_planner env, make_decision] c ?s1 =
          (Inr c', plan_stored g m p ?s1)" "bc_decision c' = Some d"
        and fin: "finished ?s1 r g p (length (bc_memory c)) d" and
        p: "mset (pl_tasks p) = mset (goal_tasks g s)" "topo t_id t_deps (pl_tasks p)"
        "pl_steps p = length (goal_tasks g s)" "mr_owner m = g" "planner_ok (plan_stored g m p ?s1)"
        "memory_map (index_add m (ms_index s)) = (memory_map (ms_index s))(mr_id m \<mapsto> m)" by auto
      obtain q where q: "request_query ?txt r = Inr q"
        "length (bc_memory c) = min (nat (sq_limit q)) (card {x. matches ?txt q (ms_index s) x})"
        using search_found[OF ix assms(3) prep] by auto
      have len: "length (pl_tasks p) = length (goal_tasks g s)" using p(1) by (rule mset_eq_length)
      have ans: "answerable ?txt r s" using wf True g by (simp add: answerable_def)
      from process_request_run(2)[OF assms(1) all[unfolded run(1)] refl run(2)] fin p q len ids
      show ?thesis
        by (simp add: ans finished_def) (intro exI[of _ "pl_tasks p"]; simp; blast)
    qed
  qed
qed

text \<open>A registered user asks for a plan of the example goal.\<close>

definition example_user :: identity where
  "example_user = \<lparr>i_id = ''u'', i_username = ''ann'', i_display = ''Ann'', i_email = None,
     i_roles = [OWNER], i_metadata = [], i_active = True\<rparr>"

definition example_brainsys :: brainsys where
  "example_brainsys = plansys.extend example_plansys \<lparr>br_ids = \<lparr>w_trace = [], w_uid = 0,
     is_by_id = [(''u'', example_user)], is_by_username = [(''ann'', example_user)], is_sessions = [],
     is_session = None, is_identity = None, is_stack = [], is_grants = [], is_tick = 0\<rparr>,
     br_started = True\<rparr>"

definition example_request :: brain_request where
  "example_request = \<lparr>bq_id = ''r'', bq_user = ''u'', bq_payload = VStr ''plan  it'',
     bq_metadata = [(''goal_id'', VStr ''g'')]\<rparr>"

definition example_env :: brain_env where
  "example_env = \<lparr>be_uid = str_of_nat, be_txt = (\<lambda>v. []), be_time = (\<lambda>t. []), be_now = 3,
     be_ord = rev, be_bus = Some quiet\<rparr>"

lemma example_query: "\<exists>q. request_query (\<lambda>v. []) example_request = Inr q"
  by (simp add: request_query_def example_request_def analyze_def context_of_def normalize_request_def
    words.simps is_ws_def Let_def py_str_def string_tuple_def memory_limit_def make_query_def)

theorem brain_answers_witness:
  "\<exists>res s'. process_request example_env (IsBrainRequest example_request) example_brainsys = (Inr res, s') \<and>
     bx_success res"
proof -
  let ?md = "bq_metadata example_request"
  have ok: "planner_ok example_brainsys"
    using example_planner_ok by (simp add: planner_ok_def example_brainsys_def plansys.defs)
  have g: "goal_of (be_txt example_env) ?md = ''g''"
    by (simp add: goal_of_def example_request_def py_or_def py_str_def strip_def is_ws_def)
  have fresh: "memory_map (ms_index example_brainsys) (''planner:'' @ ''g'' @ '':'' @
      uuid_hex (be_uid example_env (w_uid example_brainsys))) = None"
    by (simp add: example_brainsys_def plansys.defs example_plansys_def memory_map_def new_index_def)
  have "plannable ''g'' example_brainsys"
    using example_plannable
    by (simp add: plannable_def goal_tasks_def task_list_def example_brainsys_def plansys.defs)
  moreover have "well_formed (be_txt example_env) example_request example_brainsys"
    using example_query g
    by (auto simp: well_formed_def example_env_def)
      (simp_all add: example_request_def conversation_context_def example_brainsys_def plansys.defs
        id_get_def example_user_def)
  ultimately have "answerable (be_txt example_env) example_request example_brainsys"
    using g by (simp add: answerable_def)
  moreover have "be_bus example_env = Some quiet" "enumerates (be_ord example_env)"
    by (simp_all add: example_env_def enumerates_rev)
  ultimately show ?thesis using brain_answers[OF _ ok _ g[symmetric] fresh] by auto
qed

end
