(* ===== verification/Boot.thy ===== *)
theory Boot
  imports Config Logging Lifecycle
begin

text \<open>
  The kernel bootstrapper (core/lifecycle/bootstrap.py) as far as it makes the logging of the system:
  configuration first, then a logger factory with the configured level and no sinks, then the module
  that registers the root logger. The components it registers with the lifecycle are in theory
  Lifecycle.
\<close>

definition configured_level :: "pyval \<Rightarrow> pyexn + pyval" where
  "configured_level config = (case attr config ''logging'' of
     None \<Rightarrow> Inl (Exn (Py PyAttributeError) ''object has no attribute logging'')
   | Some section \<Rightarrow> (case attr section ''level'' of
       None \<Rightarrow> Inl (Exn (Py PyAttributeError) ''object has no attribute level'') | Some v \<Rightarrow> Inr v))"

definition boot_logging ::
  "(pyval \<Rightarrow> string) \<Rightarrow> (pyval \<Rightarrow> pyexn + pyval) \<Rightarrow> pyval option \<Rightarrow> (string \<times> string) list \<Rightarrow> log_env \<Rightarrow>
   (logsys, log_factory) act" where
  "boot_logging str_of float_of content env lenv =
     bindA (liftA (fst (load_config str_of float_of content env Config.new_manager))) (\<lambda>config.
     bindA (liftA (configured_level config)) (\<lambda>level.
     bindA (new_factory lenv level [] False False) (\<lambda>fa.
     seqA (logging_configure lenv fa) (ret fa))))"

text \<open>The configured level is a text, whatever the file and the environment say.\<close>

lemma configured_level_text:
  assumes "has_schema True ira_schema config"
  shows "\<exists>x. configured_level config = Inr (VStr x)"
proof -
  from assms obtain vals lg where c: "config = VObj ''IRAConfig'' vals" "map_of vals ''logging'' = Some lg"
    "has_schema True logging_schema lg"
    by (auto simp: ira_schema_def has_schema_iff)
  then obtain lvals x where "lg = VObj ''LoggingConfig'' lvals" "map_of lvals ''level'' = Some (VStr x)"
    by (auto simp: logging_schema_def has_schema_iff has_scalar elim!: is_text.elims(2))
  with c show ?thesis by (simp add: configured_level_def)
qed

lemma boot_logging_state:
  assumes "float_law float_of" "boot_logging str_of float_of content env lenv empty_logsys = (Inr fa, s)"
  shows "factory_ok fa s \<and> levels_are fa (\<lambda>n. lf_level fa) s \<and> (\<exists>x. lf_level fa = VStr x) \<and> 0 < lv_limit lenv"
proof -
  obtain config m where load: "load_config str_of float_of content env Config.new_manager = (Inr config, m)"
    using assms(2) by (cases "load_config str_of float_of content env Config.new_manager";
      cases "fst (load_config str_of float_of content env Config.new_manager)")
      (auto simp: boot_logging_def liftA_def)
  then have "has_schema True ira_schema config" using load_typed(1)[OF assms(1)] by blast
  then obtain x where x: "configured_level config = Inr (VStr x)" using configured_level_text by blast
  let ?fa = "\<lparr>lf_level = VStr x, lf_sinks = [0], lf_bus = False, lf_publish = False\<rparr>"
  let ?t = "empty_logsys\<lparr>ls_sinks := [\<lparr>sk_kind = ConsoleSink (HumanFormatter True), sk_closed = False, sk_lines = []\<rparr>]\<rparr>"
  have made: "new_factory lenv (VStr x) [] False False empty_logsys = (Inr ?fa, ?t)"
    by (simp add: new_factory_def new_sink_def empty_logsys_def act_defs)
  have eq: "boot_logging str_of float_of content env lenv empty_logsys =
      seqA (logging_configure lenv ?fa) (ret ?fa) ?t"
    by (simp only: boot_logging_def load fst_conv bind_lifted x bindA_step[where m = "new_factory lenv (VStr x) [] False False", OF made])
  have run: "seqA (logging_configure lenv ?fa) (ret ?fa) ?t = (Inr fa, s)" by (rule trans[OF eq[symmetric] assms(2)])
  obtain i where get: "factory_get lenv ?fa ''ira'' ?t = (Inr i, s)" and fa: "fa = ?fa"
    using run unfolding logging_configure_def seqA_def bindA_eq_Inr ret_def by blast
  have fresh: "fresh_factory ?fa ?t" by (simp add: fresh_factory_def empty_logsys_def)
  have "0 < lv_limit lenv"
    using get by (cases "lv_limit lenv") (simp_all add: factory_get_def empty_logsys_def liftA_def bindA_def)
  with factory_get_ok[OF fresh_factory_ok(1)[OF fresh], of lenv "''ira''"]
    levels_are_get[OF fresh_factory_ok[OF fresh], of lenv "''ira''"] get fa
  show ?thesis by simp
qed

lemma last_levels_kept: "(\<And>n l. OpLevel n l \<notin> set cs) \<Longrightarrow> last_levels f cs = f"
proof (induction cs)
  case (Cons c cs)
  have "last_levels f cs = f" by (rule Cons.IH) (use Cons.prems in auto)
  with Cons.prems show ?case by (cases c) auto
qed simp

text \<open>
  C21. Logging fails after the bootstrap: whatever configuration file and environment it is built from, the
  bootstrapped factory has the configured level, a text, as its level. Until somebody sets a level for
  the name, every call on every logger it hands out, at any level and with any message, raises a
  \<open>TypeError\<close> and logs nothing.
\<close>

theorem bootstrapped_logging_raises:
  assumes "float_law float_of" and "boot_logging str_of float_of content env lenv empty_logsys = (Inr fa, s0)"
    and "list_all (\<lambda>c. length (op_name c) < lv_limit lenv) ops" and "\<And>n l. OpLevel n l \<notin> set ops"
    and "s = run_log lenv fa ops s0" and "map_of (ls_names s) n = Some i"
  shows "\<exists>e. logger_call lenv i l msg pos kexc md s = (Inl e, s) \<and> exn_cls e = Py PyTypeError"
proof -
  note boot = boot_logging_state[OF assms(1,2)]
  then obtain x where x: "lf_level fa = VStr x" by blast
  have "levels_are fa (last_levels (\<lambda>m. lf_level fa) ops) s"
    unfolding assms(5) using boot by (intro run_log_levels assms(3)) auto
  then have "lo_level (ls_loggers s ! i) = VStr x"
    using last_levels_kept[OF assms(4), of "\<lambda>m. lf_level fa"] assms(6) x by (simp add: levels_are_def)
  then have "effective_level lenv s i = Inr (VStr x)"
    using boot by (cases "lv_limit lenv") (simp_all add: effective_level_def)
  from bad_threshold_raises[OF this, of l "not_comparable (VStr x)" msg pos kexc md]
  obtain e where "logger_call lenv i l msg pos kexc md s = (Inl e, s)"
    "e = not_comparable (VStr x) \<or> exn_cls e = Py PyTypeError" by auto
  then show ?thesis by (intro exI[of _ e]) (auto simp: not_comparable_def)
qed

theorem bootstrapped_logging_raises_witness:
  "\<exists>fa s e. boot_logging (\<lambda>v. ''?'') sample_float None [] example_log_env empty_logsys = (Inr fa, s) \<and>
     logger_call example_log_env 0 CriticalLevel ''hello'' [] None [] s = (Inl e, s) \<and>
     exn_cls e = Py PyTypeError"
proof -
  have law: "float_law sample_float" by (simp add: float_law_def sample_float_def)
  have "\<exists>fa s. boot_logging (\<lambda>v. ''?'') sample_float None [] example_log_env empty_logsys = (Inr fa, s) \<and>
      map_of (ls_names s) ''ira'' = Some 0"
    by (simp add: boot_logging_def sample_defs configured_level_def new_factory_def new_sink_def
        empty_logsys_def logging_configure_def factory_get_def before_dot_def example_log_env_def
        eval_nat_numeral act_defs)
  then obtain fa s where s: "boot_logging (\<lambda>v. ''?'') sample_float None [] example_log_env empty_logsys = (Inr fa, s)"
    "map_of (ls_names s) ''ira'' = Some 0" by blast
  from bootstrapped_logging_raises[OF law s(1), of "[]" s "''ira''" 0 CriticalLevel] s show ?thesis by auto
qed

end
