(* ===== verification/Container.thy ===== *)
theory Container
  imports Prelude
begin

text \<open>
  The dependency injection container (core/container): service descriptors, the resolver with its
  singleton and scope caches and its cycle check, the static validator, and the container and
  scope facades. A class or factory the container calls is code outside the container: a target
  is its signature together with the function \<open>t_call\<close> that says what calling it returns (given
  the number of constructions made before, so that two calls may yield two objects). The
  resolution modelled is that of one task; the lock of a singleton is then always free.
\<close>

type_synonym iface = string

datatype lifetime = SINGLETON | SCOPED | TRANSIENT

text \<open>The lifetime argument is not type-checked at run time: a caller may pass another value.\<close>

datatype lifetime_arg = Lifetime lifetime | NotALifetime pyval

record 'v param =
  p_name :: string
  p_type :: "iface option"
  p_default :: "'v option"

record 'v target =
  t_name :: string
  t_params :: "'v param list"
  t_call :: "nat \<Rightarrow> (string \<times> 'v) list \<Rightarrow> pyexn + 'v"

record 'v descriptor =
  d_lifetime :: lifetime_arg
  d_implementation :: "'v target option"
  d_instance :: "'v option"
  d_factory :: "'v target option"

type_synonym 'v registry = "(iface, 'v descriptor) pydict"

text \<open>\<open>ServiceDescriptor.__post_init__\<close>: exactly one of the three ways.\<close>

definition mk_descriptor ::
  "iface \<Rightarrow> lifetime_arg \<Rightarrow> 'v target option \<Rightarrow> 'v option \<Rightarrow> 'v target option \<Rightarrow>
   pyexn + 'v descriptor" where
  "mk_descriptor i lt impl inst fac =
     (let provided_ways = (if impl \<noteq> None then 1 else 0) + (if inst \<noteq> None then 1 else 0)
          + (if fac \<noteq> None then (1::nat) else 0) in
      if provided_ways \<noteq> 1
      then Inl (Exn (Py PyValueError) (''ServiceDescriptor for '' @ i @
        '' must provide exactly one of: implementation, instance, or factory.''))
      else Inr \<lparr>d_lifetime = lt, d_implementation = impl, d_instance = inst, d_factory = fac\<rparr>)"

definition d_target :: "'v descriptor \<Rightarrow> 'v target option" where
  "d_target d = (case d_factory d of Some f \<Rightarrow> Some f | None \<Rightarrow> d_implementation d)"

section \<open>The resolver\<close>

text \<open>
  \<open>singles\<close> and \<open>locks\<close> are the resolver's dictionaries, \<open>scoped\<close> the dictionary of the scope
  that resolves; \<open>built\<close> logs the interfaces whose target was called, in order.
\<close>

record 'v rstate =
  singles :: "(iface, 'v) pydict"
  locks :: "iface list"
  scoped :: "(iface, 'v) pydict"
  built :: "iface list"

definition cached :: "'v descriptor \<Rightarrow> iface \<Rightarrow> 'v rstate \<Rightarrow> 'v option" where
  "cached d i st = (case d_lifetime d of
     Lifetime SINGLETON \<Rightarrow> map_of (singles st) i
   | Lifetime SCOPED \<Rightarrow> map_of (scoped st) i
   | _ \<Rightarrow> None)"

definition get_singleton_lock :: "iface \<Rightarrow> 'v rstate \<Rightarrow> 'v rstate" where
  "get_singleton_lock i st = (if i \<in> set (locks st) then st else st\<lparr>locks := locks st @ [i]\<rparr>)"

definition evict_singleton :: "iface \<Rightarrow> 'v rstate \<Rightarrow> 'v rstate" where
  "evict_singleton i st = st\<lparr>singles := AList.delete i (singles st),
     locks := filter (\<lambda>j. j \<noteq> i) (locks st)\<rparr>"

text \<open>What the three ends of \<open>resolve\<close> store after a successful build.\<close>

definition store_built :: "'v descriptor \<Rightarrow> iface \<Rightarrow> 'v \<Rightarrow> 'v rstate \<Rightarrow> 'v rstate" where
  "store_built d i v st = (case d_lifetime d of
     Lifetime SINGLETON \<Rightarrow> st\<lparr>singles := AList.update i v (singles st)\<rparr>
   | Lifetime SCOPED \<Rightarrow> st\<lparr>scoped := AList.update i v (scoped st)\<rparr>
   | _ \<Rightarrow> st)"

definition circular_error :: "iface list \<Rightarrow> iface \<Rightarrow> pyexn" where
  "circular_error chain i = Exn (InContainer CircularDependencyError)
     (''Circular dependency detected: '' @ join '' -> '' chain @ '' -> '' @ i)"

abbreviation resolution_error :: "string \<Rightarrow> pyexn" where
  "resolution_error m \<equiv> Exn (InContainer ResolutionError) m"

definition no_annotation_msg :: "string \<Rightarrow> 'v target \<Rightarrow> string" where
  "no_annotation_msg n t = ''Parameter '' @ quoted n @ '' in '' @ t_name t @ '' lacks type annotation.''"

definition cannot_resolve_msg :: "string \<Rightarrow> iface \<Rightarrow> 'v target \<Rightarrow> string" where
  "cannot_resolve_msg n ty t =
     ''Cannot resolve parameter '' @ quoted n @ '' of type '' @ ty @ '' for '' @ t_name t"

text \<open>
  Every nested resolution adds a registered interface to the chain that was not on it, so the
  number of registered interfaces off the chain bounds the depth.
\<close>

definition off_chain :: "'v registry \<Rightarrow> iface list \<Rightarrow> nat" where
  "off_chain reg chain = card (set (map fst reg) - set chain)"

lemma off_chain_snoc:
  assumes "map_of reg i = Some d" "i \<notin> set chain"
  shows "off_chain reg (chain @ [i]) < off_chain reg chain"
proof -
  have "i \<in> set (map fst reg)" using assms(1) by (simp add: dict_in_keys del: set_map)
  then show ?thesis
    unfolding off_chain_def using assms(2) by (intro psubset_card_mono) auto
qed

function
  resolve :: "'v registry \<Rightarrow> iface \<Rightarrow> iface list \<Rightarrow> ('v rstate, 'v) act" and
  build :: "'v registry \<Rightarrow> 'v descriptor \<Rightarrow> iface \<Rightarrow> iface list \<Rightarrow> ('v rstate, 'v) act" and
  build_args :: "'v registry \<Rightarrow> 'v target \<Rightarrow> 'v param list \<Rightarrow> iface list \<Rightarrow>
     (string \<times> 'v) list \<Rightarrow> ('v rstate, (string \<times> 'v) list) act"
where
  "resolve reg i chain st =
     (if i \<in> set chain then (Inl (circular_error chain i), st)
      else case map_of reg i of
        None \<Rightarrow> (Inl (resolution_error (''No registration found for '' @ i)), st)
      | Some d \<Rightarrow>
        (case cached d i st of
          Some v \<Rightarrow> (Inr v, st)
        | None \<Rightarrow>
          (case d_instance d of
            Some v \<Rightarrow> (Inr v, st)
          | None \<Rightarrow>
            (let st1 = (if d_lifetime d = Lifetime SINGLETON then get_singleton_lock i st else st) in
             case (if d_lifetime d = Lifetime SINGLETON then map_of (singles st1) i else None) of
               Some v \<Rightarrow> (Inr v, st1)
             | None \<Rightarrow>
               (case build reg d i (chain @ [i]) st1 of
                 (Inl e, st2) \<Rightarrow> (Inl e, st2)
               | (Inr v, st2) \<Rightarrow> (Inr v, store_built d i v st2))))))"
| "build reg d i chain st =
     (case d_target d of
        None \<Rightarrow> (Inl (resolution_error (''ServiceDescriptor for '' @ i @
                  '' lacks implementation or factory.'')), st)
      | Some t \<Rightarrow>
        (case build_args reg t (t_params t) chain [] st of
          (Inl e, st') \<Rightarrow> (Inl e, st')
        | (Inr kw, st') \<Rightarrow>
            (t_call t (length (built st')) kw, st'\<lparr>built := built st' @ [i]\<rparr>)))"
| "build_args reg t ps chain kw st =
     (case ps of
        [] \<Rightarrow> (Inr kw, st)
      | p # ps' \<Rightarrow>
        if p_name p = ''self'' then build_args reg t ps' chain kw st
        else (case p_type p of
          None \<Rightarrow> (Inl (resolution_error (no_annotation_msg (p_name p) t)), st)
        | Some ty \<Rightarrow>
          (case resolve reg ty chain st of
            (Inr v, st') \<Rightarrow> build_args reg t ps' chain (kw @ [(p_name p, v)]) st'
          | (Inl e, st') \<Rightarrow>
            if exn_cls e = InContainer CircularDependencyError then (Inl e, st')
            else if is_resolution_error (exn_cls e) then
              (case p_default p of
                Some v \<Rightarrow> build_args reg t ps' chain (kw @ [(p_name p, v)]) st'
              | None \<Rightarrow> (Inl (resolution_error (cannot_resolve_msg (p_name p) ty t)), st'))
            else (Inl e, st'))))"
  by pat_completeness auto

termination
  by (relation "measures [
       \<lambda>x. case x of Inl (reg, i, chain, st) \<Rightarrow> off_chain reg chain
         | Inr (Inl (reg, d, i, chain, st)) \<Rightarrow> off_chain reg chain
         | Inr (Inr (reg, t, ps, chain, kw, st)) \<Rightarrow> off_chain reg chain,
       \<lambda>x. case x of Inl (reg, i, chain, st) \<Rightarrow> 0
         | Inr (Inl (reg, d, i, chain, st)) \<Rightarrow>
             2 + (case d_target d of None \<Rightarrow> 0 | Some t \<Rightarrow> length (t_params t))
         | Inr (Inr (reg, t, ps, chain, kw, st)) \<Rightarrow> 1 + length ps]")
     (auto intro: off_chain_snoc)

declare resolve.simps [simp del] build.simps [simp del] build_args.simps [simp del]

lemma build_args_Nil [simp]: "build_args reg t [] chain kw st = (Inr kw, st)"
  by (simp add: build_args.simps)

lemma build_args_Cons:
  "build_args reg t (p # ps') chain kw st =
     (if p_name p = ''self'' then build_args reg t ps' chain kw st
        else (case p_type p of
          None \<Rightarrow> (Inl (resolution_error (no_annotation_msg (p_name p) t)), st)
        | Some ty \<Rightarrow>
          (case resolve reg ty chain st of
            (Inr v, st') \<Rightarrow> build_args reg t ps' chain (kw @ [(p_name p, v)]) st'
          | (Inl e, st') \<Rightarrow>
            if exn_cls e = InContainer CircularDependencyError then (Inl e, st')
            else if is_resolution_error (exn_cls e) then
              (case p_default p of
                Some v \<Rightarrow> build_args reg t ps' chain (kw @ [(p_name p, v)]) st'
              | None \<Rightarrow> (Inl (resolution_error (cannot_resolve_msg (p_name p) ty t)), st'))
            else (Inl e, st'))))"
  by (simp add: build_args.simps[of reg t "p # ps'"])

section \<open>The validator\<close>

definition circular_text :: string where
  "circular_text = ''Circular dependency detected''"

definition validation_circular_msg :: "iface list \<Rightarrow> iface \<Rightarrow> string" where
  "validation_circular_msg chain i = circular_text @ '': '' @ join '' -> '' chain @ '' -> '' @ i"

text \<open>\<open>Some m\<close> is the \<open>ValidationError\<close> with message \<open>m\<close>, \<open>None\<close> a normal return.\<close>

function
  validate_node :: "'v registry \<Rightarrow> iface \<Rightarrow> iface list \<Rightarrow> string option" and
  validate_params :: "'v registry \<Rightarrow> 'v target \<Rightarrow> 'v param list \<Rightarrow> iface list \<Rightarrow> string option"
where
  "validate_node reg i chain =
     (if i \<in> set chain then Some (validation_circular_msg chain i)
      else case map_of reg i of
        None \<Rightarrow> Some (''Missing dependency: No registration found for '' @ i)
      | Some d \<Rightarrow>
        (case d_instance d of
          Some v \<Rightarrow> None
        | None \<Rightarrow>
          (case d_target d of
            None \<Rightarrow> Some (''ServiceDescriptor for '' @ i @ '' lacks implementation or factory.'')
          | Some t \<Rightarrow> validate_params reg t (t_params t) (chain @ [i]))))"
| "validate_params reg t ps chain =
     (case ps of
        [] \<Rightarrow> None
      | p # ps' \<Rightarrow>
        if p_name p = ''self'' then validate_params reg t ps' chain
        else (case p_type p of
          None \<Rightarrow> Some (no_annotation_msg (p_name p) t)
        | Some ty \<Rightarrow>
          if map_of reg ty = None \<and> p_default p \<noteq> None then validate_params reg t ps' chain
          else (case validate_node reg ty chain of
            None \<Rightarrow> validate_params reg t ps' chain
          | Some m \<Rightarrow>
            if contains circular_text m then Some m
            else if p_default p \<noteq> None then validate_params reg t ps' chain
            else Some (cannot_resolve_msg (p_name p) ty t @ ''. Cause: '' @ m))))"
  by pat_completeness auto
termination
  by (relation "measures [
       \<lambda>x. case x of Inl (reg, i, chain) \<Rightarrow> off_chain reg chain
         | Inr (reg, t, ps, chain) \<Rightarrow> off_chain reg chain,
       \<lambda>x. case x of Inl (reg, i, chain) \<Rightarrow> 0 | Inr (reg, t, ps, chain) \<Rightarrow> 1 + length ps]")
     (auto intro: off_chain_snoc)

declare validate_node.simps [simp del] validate_params.simps [simp del]

lemma validate_params_Nil [simp]: "validate_params reg t [] chain = None"
  by (simp add: validate_params.simps)

lemma validate_params_Cons:
  "validate_params reg t (p # ps') chain =
     (if p_name p = ''self'' then validate_params reg t ps' chain
        else (case p_type p of
          None \<Rightarrow> Some (no_annotation_msg (p_name p) t)
        | Some ty \<Rightarrow>
          if map_of reg ty = None \<and> p_default p \<noteq> None then validate_params reg t ps' chain
          else (case validate_node reg ty chain of
            None \<Rightarrow> validate_params reg t ps' chain
          | Some m \<Rightarrow>
            if contains circular_text m then Some m
            else if p_default p \<noteq> None then validate_params reg t ps' chain
            else Some (cannot_resolve_msg (p_name p) ty t @ ''. Cause: '' @ m))))"
  by (simp add: validate_params.simps[of reg t "p # ps'"])

definition validate :: "'v registry \<Rightarrow> string list" where
  "validate reg = concat (map (\<lambda>i. case validate_node reg i [] of None \<Rightarrow> [] | Some m \<Rightarrow> [m])
     (map fst reg))"


section \<open>Validation is sound for resolution\<close>

text \<open>No constructor or factory raises.\<close>

definition calls_ok :: "'v registry \<Rightarrow> bool" where
  "calls_ok reg \<longleftrightarrow> (\<forall>(i, d) \<in> set reg. \<forall>t n kw. d_target d = Some t \<longrightarrow>
     (\<exists>v. t_call t n kw = Inr v))"

text \<open>Every parameter of every target that may be built has a type that is registered or a default.\<close>

definition param_ok :: "'v registry \<Rightarrow> 'v param \<Rightarrow> bool" where
  "param_ok reg p \<longleftrightarrow> p_name p = ''self'' \<or>
     (\<exists>ty. p_type p = Some ty \<and> (map_of reg ty \<noteq> None \<or> p_default p \<noteq> None))"

definition params_ok :: "'v registry \<Rightarrow> bool" where
  "params_ok reg \<longleftrightarrow> (\<forall>i d. map_of reg i = Some d \<longrightarrow> d_instance d = None \<longrightarrow>
     (\<exists>t. d_target d = Some t \<and> (\<forall>p \<in> set (t_params t). param_ok reg p)))"

lemma params_okD:
  "params_ok reg \<Longrightarrow> map_of reg i = Some d \<Longrightarrow> d_instance d = None \<Longrightarrow>
     \<exists>t. d_target d = Some t \<and> (\<forall>p \<in> set (t_params t). param_ok reg p)"
  unfolding params_ok_def by blast

lemma contains_circular [simp]: "contains circular_text (validation_circular_msg chain i)"
  using contains_append[of circular_text "[]"] by (simp add: validation_circular_msg_def)

lemma validate_params_None_params_ok:
  "validate_params reg t ps chain = None \<Longrightarrow> \<forall>p \<in> set ps. param_ok reg p"
proof (induction ps)
  case Nil
  show ?case by simp
next
  case (Cons p ps)
  have step: "validate_params reg t ps chain = None \<and> param_ok reg p"
    using Cons.prems
    by (subst (asm) validate_params.simps)
       (auto simp: param_ok_def validate_node.simps[of reg _ chain]
          split: if_splits option.splits)
  with Cons.IH show ?case by simp
qed

lemma validate_params_ok:
  assumes "\<And>i. map_of reg i \<noteq> None \<Longrightarrow> validate_node reg i [] = None"
  shows "params_ok reg"
  unfolding params_ok_def
proof (intro allI impI)
  fix i d
  assume d: "map_of reg i = Some d" "d_instance d = None"
  with assms[of i] have "validate_node reg i [] = None" by simp
  with d show "\<exists>t. d_target d = Some t \<and> (\<forall>p \<in> set (t_params t). param_ok reg p)"
    by (subst (asm) validate_node.simps)
       (auto dest: validate_params_None_params_ok split: option.splits)
qed

text \<open>With all parameters well formed, the only error the validator can report is a cycle.\<close>

lemma validate_only_circular:
  shows "params_ok reg \<Longrightarrow> map_of reg i \<noteq> None \<Longrightarrow> validate_node reg i chain = Some m \<Longrightarrow>
           contains circular_text m"
    and "params_ok reg \<Longrightarrow> \<forall>p \<in> set ps. param_ok reg p \<Longrightarrow>
           validate_params reg t ps chain = Some m' \<Longrightarrow> contains circular_text m'"
proof (induction reg i chain and reg t ps chain arbitrary: m and m'
    rule: validate_node_validate_params.induct)
  case (1 reg i chain)
  show ?case
  proof (cases "i \<in> set chain")
    case True
    with "1.prems" show ?thesis by (auto simp: validate_node.simps[of reg i chain])
  next
    case False
    from "1.prems"(2) obtain d where d: "map_of reg i = Some d" by auto
    with False "1.prems"(3) have inst: "d_instance d = None"
      by (simp add: validate_node.simps[of reg i chain] split: option.splits)
    with "1.prems"(1) d obtain t where t: "d_target d = Some t"
      "\<forall>p \<in> set (t_params t). param_ok reg p" using params_okD by blast
    with False d inst "1.prems"(3) have "validate_params reg t (t_params t) (chain @ [i]) = Some m"
      by (simp add: validate_node.simps[of reg i chain])
    with "1.IH"[OF False d inst t(1) "1.prems"(1) t(2)] show ?thesis by blast
  qed
next
  case (2 reg t ps chain)
  show ?case
  proof (cases ps)
    case Nil
    with "2.prems" show ?thesis by simp
  next
    case (Cons p ps')
    note unf = validate_params_Cons
    show ?thesis
    proof (cases "p_name p = ''self''")
      case True
      with Cons "2.prems" "2.IH"(1)[OF Cons True] show ?thesis by (simp add: unf)
    next
      case False
      with Cons "2.prems"(2) obtain ty where ty: "p_type p = Some ty"
        "map_of reg ty \<noteq> None \<or> p_default p \<noteq> None" by (auto simp: param_ok_def)
      show ?thesis
      proof (cases "map_of reg ty = None \<and> p_default p \<noteq> None")
        case True
        with Cons False ty "2.prems" "2.IH"(2)[OF Cons False ty(1) True]
        show ?thesis by (simp add: unf)
      next
        case reg: False
        with ty have ty_reg: "map_of reg ty \<noteq> None" by auto
        show ?thesis
        proof (cases "validate_node reg ty chain")
          case None
          with Cons False ty reg "2.prems" "2.IH"(4)[OF Cons False ty(1) reg None]
          show ?thesis by (auto simp: unf split: if_splits)
        next
          case (Some m1)
          then have "contains circular_text m1"
            using "2.IH"(3)[OF Cons False ty(1) reg "2.prems"(1) ty_reg] by blast
          with Cons False ty reg Some "2.prems"(3) show ?thesis
            by (auto simp: unf split: if_splits)
        qed
      qed
    qed
  qed
qed

text \<open>So a clean report leaves every registered parameter type valid below its owner.\<close>

lemma validate_params_None_types:
  assumes "params_ok reg" "validate_params reg t ps chain = None" "p \<in> set ps"
    "p_name p \<noteq> ''self''" "p_type p = Some ty" "map_of reg ty \<noteq> None"
  shows "validate_node reg ty chain = None"
  using assms(2,3)
proof (induction ps)
  case Nil
  then show ?case by simp
next
  case (Cons q ps)
  have rest: "validate_params reg t ps chain = None"
    using Cons.prems(1) by (subst (asm) validate_params.simps) (auto split: if_splits option.splits)
  show ?case
  proof (cases "p \<in> set ps")
    case True
    with rest Cons.IH show ?thesis by blast
  next
    case False
    with Cons.prems have "q = p" by simp
    then have "validate_node reg ty chain = None \<or>
        (\<exists>m. validate_node reg ty chain = Some m \<and> \<not> contains circular_text m)"
      using Cons.prems(1) assms(4-6)
      by (subst (asm) validate_params.simps) (auto split: if_splits option.splits)
    with validate_only_circular(1)[OF assms(1,6)] show ?thesis by blast
  qed
qed

text \<open>A valid node resolves, from any state of the caches.\<close>

lemma valid_resolves:
  shows "params_ok reg \<Longrightarrow> calls_ok reg \<Longrightarrow> map_of reg i \<noteq> None \<Longrightarrow>
           \<forall>j \<in> set chain. map_of reg j \<noteq> None \<Longrightarrow> validate_node reg i chain = None \<Longrightarrow>
           \<exists>v st'. resolve reg i chain st = (Inr v, st')"
    and "params_ok reg \<Longrightarrow> calls_ok reg \<Longrightarrow> map_of reg i = Some d \<Longrightarrow> d_instance d = None \<Longrightarrow>
           \<forall>j \<in> set chain. map_of reg j \<noteq> None \<Longrightarrow>
           (\<And>t. d_target d = Some t \<Longrightarrow> validate_params reg t (t_params t) chain = None) \<Longrightarrow>
           \<exists>v st'. build reg d i chain st = (Inr v, st')"
    and "params_ok reg \<Longrightarrow> calls_ok reg \<Longrightarrow> \<forall>p \<in> set ps. param_ok reg p \<Longrightarrow>
           \<forall>j \<in> set chain. map_of reg j \<noteq> None \<Longrightarrow>
           (\<And>p ty. p \<in> set ps \<Longrightarrow> p_name p \<noteq> ''self'' \<Longrightarrow> p_type p = Some ty \<Longrightarrow>
              map_of reg ty \<noteq> None \<Longrightarrow> validate_node reg ty chain = None) \<Longrightarrow>
           \<exists>kw' st'. build_args reg t ps chain kw st = (Inr kw', st')"
proof (induction reg i chain st and reg d i chain st and reg t ps chain kw st
    rule: resolve_build_build_args.induct)
  case (1 reg i chain st)
  from "1.prems"(5) have notin: "i \<notin> set chain"
    by (auto simp: validate_node.simps[of reg i chain] split: if_splits)
  from "1.prems"(3) obtain d where d: "map_of reg i = Some d" by auto
  let ?st1 = "if d_lifetime d = Lifetime SINGLETON then get_singleton_lock i st else st"
  consider (hit) v where "cached d i st = Some v"
    | (inst) v where "cached d i st = None" "d_instance d = Some v"
    | (again) v where "cached d i st = None" "d_instance d = None"
        "(if d_lifetime d = Lifetime SINGLETON then map_of (singles ?st1) i else None) = Some v"
    | (build) "cached d i st = None" "d_instance d = None"
        "(if d_lifetime d = Lifetime SINGLETON then map_of (singles ?st1) i else None) = None"
    by (metis not_None_eq)
  then show ?case
  proof cases
    case build
    have "\<And>t. d_target d = Some t \<Longrightarrow> validate_params reg t (t_params t) (chain @ [i]) = None"
      using "1.prems"(5) notin d build(2) by (simp add: validate_node.simps[of reg i chain])
    moreover have "\<forall>j \<in> set (chain @ [i]). map_of reg j \<noteq> None"
      using "1.prems"(3,4) by auto
    ultimately obtain v st2 where "build reg d i (chain @ [i]) ?st1 = (Inr v, st2)"
      using "1.IH"[OF notin d build(1,2) refl build(3) "1.prems"(1,2) d build(2)] by blast
    with build notin d show ?thesis by (simp add: resolve.simps[of reg i chain st] Let_def)
  qed (use notin d in \<open>simp_all add: resolve.simps[of reg i chain st] Let_def\<close>)
next
  case (2 reg d i chain st)
  from "2.prems"(1,3,4) obtain t where t: "d_target d = Some t"
    "\<forall>p \<in> set (t_params t). param_ok reg p" using params_okD by blast
  have types: "\<And>p ty. p \<in> set (t_params t) \<Longrightarrow> p_name p \<noteq> ''self'' \<Longrightarrow> p_type p = Some ty \<Longrightarrow>
      map_of reg ty \<noteq> None \<Longrightarrow> validate_node reg ty chain = None"
    using validate_params_None_types[OF "2.prems"(1) "2.prems"(6)[OF t(1)]] by blast
  then obtain kw st' where a: "build_args reg t (t_params t) chain [] st = (Inr kw, st')"
    using "2.IH"[OF t(1) "2.prems"(1,2) t(2) "2.prems"(5)] by blast
  from "2.prems"(2,3) t(1) obtain v where "t_call t (length (built st')) kw = Inr v"
    unfolding calls_ok_def by (fastforce dest: map_of_SomeD)
  with a t(1) show ?case by (simp add: build.simps[of reg d i chain st])
next
  case (3 reg t ps chain kw st)
  note unf = build_args_Cons
  show ?case
  proof (cases ps)
    case Nil
    then show ?thesis by simp
  next
    case (Cons p ps')
    have ok': "\<forall>p \<in> set ps'. param_ok reg p" using "3.prems"(3) Cons by simp
    have types': "\<And>p ty. p \<in> set ps' \<Longrightarrow> p_name p \<noteq> ''self'' \<Longrightarrow> p_type p = Some ty \<Longrightarrow>
        map_of reg ty \<noteq> None \<Longrightarrow> validate_node reg ty chain = None"
      by (rule "3.prems"(5)) (simp_all add: Cons)
    show ?thesis
    proof (cases "p_name p = ''self''")
      case True
      with "3.IH"(1)[OF Cons True "3.prems"(1,2) ok' "3.prems"(4) types'] Cons
      show ?thesis by (simp add: unf)
    next
      case self: False
      with Cons "3.prems"(3) obtain ty where ty: "p_type p = Some ty"
        "map_of reg ty \<noteq> None \<or> p_default p \<noteq> None" by (auto simp: param_ok_def)
      show ?thesis
      proof (cases "map_of reg ty = None")
        case True
        with "3.prems"(4) have "ty \<notin> set chain" by auto
        with True have r: "resolve reg ty chain st =
            (Inl (resolution_error (''No registration found for '' @ ty)), st)"
          by (simp add: resolve.simps[of reg ty chain st])
        from True ty(2) obtain v where v: "p_default p = Some v" by auto
        have "\<exists>kw' st'. build_args reg t ps' chain (kw @ [(p_name p, v)]) st = (Inr kw', st')"
          using "3.IH"(3)[OF Cons self ty(1) r[symmetric] refl _ _ v "3.prems"(1,2) ok' "3.prems"(4) types']
          by simp
        with Cons self ty(1) r v show ?thesis by (simp add: unf)
      next
        case False
        then have "validate_node reg ty chain = None"
          using "3.prems"(5)[of p ty] Cons self ty(1) by simp
        with "3.IH"(2)[OF Cons self ty(1) "3.prems"(1,2) False "3.prems"(4)]
        obtain v st' where r: "resolve reg ty chain st = (Inr v, st')" by blast
        from "3.IH"(4)[OF Cons self ty(1) r[symmetric] refl "3.prems"(1,2) ok' "3.prems"(4) types']
        show ?thesis using Cons self ty(1) r by (simp add: unf)
      qed
    qed
  qed
qed


section \<open>The container and its scopes\<close>

record 'v container =
  c_registry :: "'v registry"
  c_resolver :: "'v rstate"
  c_is_shutdown :: bool
  c_disposed :: "'v list"

record 'v scope =
  s_instances :: "(iface, 'v) pydict"
  s_is_disposed :: bool

definition new_container :: "'v container" where
  "new_container = \<lparr>c_registry = [],
     c_resolver = \<lparr>singles = [], locks = [], scoped = [], built = []\<rparr>,
     c_is_shutdown = False, c_disposed = []\<rparr>"

definition set_descriptor ::
  "iface \<Rightarrow> pyexn + 'v descriptor \<Rightarrow> ('v container, unit) act" where
  "set_descriptor i r c = (case r of
     Inl e \<Rightarrow> (Inl e, c)
   | Inr d \<Rightarrow> (Inr (), c\<lparr>c_registry := AList.update i d (c_registry c)\<rparr>))"

text \<open>\<open>self\<close> is the interface class itself as a target (\<open>implementation or interface\<close>).\<close>

definition impl_or :: "'v target \<Rightarrow> 'v target option \<Rightarrow> 'v target" where
  "impl_or self impl = (case impl of Some t \<Rightarrow> t | None \<Rightarrow> self)"

definition register_singleton ::
  "iface \<Rightarrow> 'v target \<Rightarrow> 'v target option \<Rightarrow> ('v container, unit) act" where
  "register_singleton i self impl =
     set_descriptor i (mk_descriptor i (Lifetime SINGLETON) (Some (impl_or self impl)) None None)"

definition register_scoped ::
  "iface \<Rightarrow> 'v target \<Rightarrow> 'v target option \<Rightarrow> ('v container, unit) act" where
  "register_scoped i self impl =
     set_descriptor i (mk_descriptor i (Lifetime SCOPED) (Some (impl_or self impl)) None None)"

definition register_transient ::
  "iface \<Rightarrow> 'v target \<Rightarrow> 'v target option \<Rightarrow> ('v container, unit) act" where
  "register_transient i self impl =
     set_descriptor i (mk_descriptor i (Lifetime TRANSIENT) (Some (impl_or self impl)) None None)"

definition register_instance :: "iface \<Rightarrow> 'v option \<Rightarrow> ('v container, unit) act" where
  "register_instance i inst = set_descriptor i (mk_descriptor i (Lifetime SINGLETON) None inst None)"

definition register_factory ::
  "iface \<Rightarrow> 'v target option \<Rightarrow> lifetime_arg \<Rightarrow> ('v container, unit) act" where
  "register_factory i fac lt = set_descriptor i (mk_descriptor i lt None None fac)"

definition container_remove :: "iface \<Rightarrow> 'v container \<Rightarrow> 'v container" where
  "container_remove i c = c\<lparr>c_registry := AList.delete i (c_registry c),
     c_resolver := evict_singleton i (c_resolver c)\<rparr>"

definition container_replace :: "iface \<Rightarrow> 'v descriptor \<Rightarrow> 'v container \<Rightarrow> 'v container" where
  "container_replace i d c = c\<lparr>c_registry := AList.update i d (c_registry c)\<rparr>"

definition container_has :: "iface \<Rightarrow> 'v container \<Rightarrow> bool" where
  "container_has i c = (map_of (c_registry c) i \<noteq> None)"

definition create_scope :: "('v container, 'v scope) act" where
  "create_scope c =
     (if c_is_shutdown c
      then (Inl (Exn (Py PyRuntimeError) ''Cannot create scope from a shutdown container.''), c)
      else (Inr \<lparr>s_instances = [], s_is_disposed = False\<rparr>, c))"

text \<open>Root resolution uses an empty dictionary of scoped instances and drops it.\<close>

definition container_resolve :: "iface \<Rightarrow> ('v container, 'v) act" where
  "container_resolve i c =
     (if c_is_shutdown c
      then (Inl (Exn (Py PyRuntimeError) ''Cannot resolve from a shutdown container.''), c)
      else let (r, st) = resolve (c_registry c) i [] ((c_resolver c)\<lparr>scoped := []\<rparr>)
           in (r, c\<lparr>c_resolver := st\<lparr>scoped := []\<rparr>\<rparr>))"

definition container_try_resolve :: "iface \<Rightarrow> ('v container, 'v option) act" where
  "container_try_resolve i = catchA (bindA (container_resolve i) (\<lambda>v. ret (Some v))) (\<lambda>_. ret None)"

definition container_resolve_all :: "iface \<Rightarrow> ('v container, 'v list) act" where
  "container_resolve_all i c =
     (if container_has i c then bindA (container_resolve i) (\<lambda>v. ret [v]) c else ret [] c)"

text \<open>A scope shares the resolver of its container and brings its own instances.\<close>

definition scope_resolve :: "iface \<Rightarrow> ('v scope \<times> 'v container, 'v) act" where
  "scope_resolve i sc = (case sc of (s, c) \<Rightarrow>
     if s_is_disposed s
     then (Inl (Exn (Py PyRuntimeError) ''Cannot resolve from a disposed scope.''), sc)
     else let (r, st) = resolve (c_registry c) i [] ((c_resolver c)\<lparr>scoped := s_instances s\<rparr>)
          in (r, (s\<lparr>s_instances := scoped st\<rparr>, c\<lparr>c_resolver := st\<lparr>scoped := []\<rparr>\<rparr>)))"

definition scope_try_resolve :: "iface \<Rightarrow> ('v scope \<times> 'v container, 'v option) act" where
  "scope_try_resolve i = catchA (bindA (scope_resolve i) (\<lambda>v. ret (Some v))) (\<lambda>_. ret None)"

text \<open>
  Disposal calls \<open>dispose\<close> on every instance that has it and swallows what it raises; the list
  logs the calls.
\<close>

fun dispose_all ::
  "('v \<Rightarrow> bool) \<Rightarrow> ('v \<Rightarrow> pyexn + unit) \<Rightarrow> 'v list \<Rightarrow> 'v list \<Rightarrow> 'v list" where
  "dispose_all disposable dispose [] log = log"
| "dispose_all disposable dispose (v # vs) log =
     (if disposable v
      then (case dispose v of
              Inl e \<Rightarrow> dispose_all disposable dispose vs (log @ [v])
            | Inr _ \<Rightarrow> dispose_all disposable dispose vs (log @ [v]))
      else dispose_all disposable dispose vs log)"

definition scope_dispose ::
  "('v \<Rightarrow> bool) \<Rightarrow> ('v \<Rightarrow> pyexn + unit) \<Rightarrow> 'v scope \<times> 'v container \<Rightarrow> 'v scope \<times> 'v container" where
  "scope_dispose disposable dispose sc = (case sc of (s, c) \<Rightarrow>
     if s_is_disposed s then sc
     else (s\<lparr>s_is_disposed := True, s_instances := []\<rparr>,
           c\<lparr>c_disposed := dispose_all disposable dispose (map snd (s_instances s)) (c_disposed c)\<rparr>))"

definition resolver_shutdown :: "'v rstate \<Rightarrow> 'v rstate" where
  "resolver_shutdown st = st\<lparr>singles := [], locks := []\<rparr>"

definition container_shutdown ::
  "('v \<Rightarrow> bool) \<Rightarrow> ('v \<Rightarrow> pyexn + unit) \<Rightarrow> 'v container \<Rightarrow> 'v container" where
  "container_shutdown disposable dispose c =
     (if c_is_shutdown c then c
      else c\<lparr>c_is_shutdown := True,
             c_disposed := dispose_all disposable dispose (map snd (singles (c_resolver c)))
               (c_disposed c),
             c_resolver := resolver_shutdown (c_resolver c),
             c_registry := []\<rparr>)"

section \<open>Properties of the container\<close>

lemma dispose_all_eq: "dispose_all disposable dispose vs log = log @ filter disposable vs"
  by (induction vs arbitrary: log) (auto split: sum.splits)

text \<open>An instance in the singleton cache stays there whatever else is resolved.\<close>

lemma singles_store:
  "map_of (singles (store_built d i v st)) j =
     (if d_lifetime d = Lifetime SINGLETON \<and> j = i then Some v else map_of (singles st) j)"
  by (auto simp: store_built_def split: lifetime_arg.splits lifetime.splits)

lemma singles_lock [simp]: "singles (get_singleton_lock i st) = singles st"
  by (simp add: get_singleton_lock_def)

lemma resolve_keeps_singles:
  shows "map_of (singles st) j = Some v \<Longrightarrow> map_of (singles (snd (resolve reg i chain st))) j = Some v"
    and "map_of (singles st) j = Some v \<Longrightarrow> map_of (singles (snd (build reg d i chain st))) j = Some v"
    and "map_of (singles st) j = Some v \<Longrightarrow>
           map_of (singles (snd (build_args reg t ps chain kw st))) j = Some v"
proof (induction reg i chain st and reg d i chain st and reg t ps chain kw st
    rule: resolve_build_build_args.induct)
  case (1 reg i chain st)
  note unf = resolve.simps[of reg i chain st]
  show ?case
  proof (cases "i \<in> set chain \<or> map_of reg i = None")
    case True
    with "1.prems" show ?thesis by (auto simp: unf)
  next
    case False
    then obtain d where d: "i \<notin> set chain" "map_of reg i = Some d" by auto
    let ?st1 = "if d_lifetime d = Lifetime SINGLETON then get_singleton_lock i st else st"
    show ?thesis
    proof (cases "cached d i st = None \<and> d_instance d = None \<and>
        (if d_lifetime d = Lifetime SINGLETON then map_of (singles ?st1) i else None) = None")
      case True
      then have miss: "cached d i st = None" "d_instance d = None"
        "(if d_lifetime d = Lifetime SINGLETON then map_of (singles ?st1) i else None) = None"
        by auto
      then have ji: "d_lifetime d = Lifetime SINGLETON \<Longrightarrow> j \<noteq> i" using "1.prems" by auto
      have "map_of (singles ?st1) j = Some v" using "1.prems" by simp
      then have "map_of (singles (snd (build reg d i (chain @ [i]) ?st1))) j = Some v"
        by (rule "1.IH"[OF d(1,2) miss(1,2) refl miss(3)])
      with d miss ji show ?thesis
        by (auto simp: unf Let_def singles_store split: prod.splits sum.splits)
    next
      case False
      with d "1.prems" show ?thesis by (auto simp: unf Let_def split: option.splits)
    qed
  qed
next
  case (2 reg d i chain st)
  show ?case
  proof (cases "d_target d")
    case None
    with "2.prems" show ?thesis by (simp add: build.simps[of reg d i chain st])
  next
    case (Some t)
    with "2.IH"[OF Some "2.prems"] show ?thesis
      by (auto simp: build.simps[of reg d i chain st] split: prod.splits sum.splits)
  qed
next
  case (3 reg t ps chain kw st)
  show ?case
  proof (cases ps)
    case Nil
    with "3.prems" show ?thesis by simp
  next
    case (Cons p ps')
    note unf = build_args_Cons
    show ?thesis
    proof (cases "p_name p = ''self'' \<or> p_type p = None")
      case True
      with "3.IH"(1)[OF Cons] "3.prems" show ?thesis by (auto simp: unf Cons)
    next
      case False
      then obtain ty where ty: "p_name p \<noteq> ''self''" "p_type p = Some ty" by auto
      obtain r st' where r: "resolve reg ty chain st = (r, st')" by (cases "resolve reg ty chain st")
      from "3.IH"(2)[OF Cons ty] "3.prems" r have keep: "map_of (singles st') j = Some v" by simp
      show ?thesis
      proof (cases r)
        case (Inr w)
        from "3.IH"(4)[OF Cons ty r[symmetric] Inr keep] ty r Inr show ?thesis by (simp add: unf Cons)
      next
        case (Inl e)
        show ?thesis
        proof (cases "exn_cls e \<noteq> InContainer CircularDependencyError \<and>
            is_resolution_error (exn_cls e) \<and> p_default p \<noteq> None")
          case True
          then obtain w where w: "exn_cls e \<noteq> InContainer CircularDependencyError"
            "is_resolution_error (exn_cls e)" "p_default p = Some w" by auto
          from "3.IH"(3)[OF Cons ty r[symmetric] Inl w keep] ty r Inl w
          show ?thesis by (simp add: unf Cons)
        next
          case False
          with ty r Inl keep show ?thesis by (auto simp: unf Cons split: option.splits)
        qed
      qed
    qed
  qed
qed

lemma resolve_singleton_cached:
  assumes "map_of reg i = Some d" "d_lifetime d = Lifetime SINGLETON"
    "map_of (singles st) i = Some v"
  shows "resolve reg i [] st = (Inr v, st)"
  using assms by (simp add: resolve.simps[of reg i "[]" st] cached_def)

lemma resolve_singleton_stores:
  assumes "map_of reg i = Some d" "d_lifetime d = Lifetime SINGLETON" "d_instance d = None"
    "resolve reg i [] st = (Inr v, st')"
  shows "map_of (singles st') i = Some v"
  using assms
  by (auto simp: resolve.simps[of reg i "[]" st] cached_def singles_store Let_def
      split: option.splits prod.splits sum.splits if_splits)

lemma fold_resolve_keeps_singles:
  "map_of (singles st) j = Some v \<Longrightarrow>
   map_of (singles (fold (\<lambda>i s. snd (resolve reg i [] s)) is st)) j = Some v"
  by (induction "is" arbitrary: st) (auto intro: resolve_keeps_singles)

text \<open>
  C24. Validation is sound: if \<open>validate\<close> reports no error and no constructor or factory raises,
  then resolving any registered interface succeeds, whatever the caches hold. A missing
  dependency, a missing annotation or a cycle can then never surface at run time.
\<close>

theorem validate_sound:
  assumes "validate reg = []" and "calls_ok reg" and "map_of reg i \<noteq> None"
  shows "\<exists>v st'. resolve reg i [] st = (Inr v, st')"
proof -
  have nodes: "validate_node reg j [] = None" if "map_of reg j \<noteq> None" for j
    using assms(1) that by (force simp: validate_def dest: map_of_SomeD split: option.splits)
  with assms show ?thesis
    by (intro valid_resolves(1) validate_params_ok) auto
qed

text \<open>A registry with a service that needs another service and has an unregistered parameter
  with a default, for the witnesses below.\<close>

definition example_registry :: "nat registry" where
  "example_registry =
    [(''Store'', \<lparr>d_lifetime = Lifetime SINGLETON, d_implementation = Some \<lparr>t_name = ''Store'',
        t_params = [\<lparr>p_name = ''index'', p_type = Some ''Index'', p_default = None\<rparr>,
                    \<lparr>p_name = ''clock'', p_type = Some ''Clock'', p_default = Some 7\<rparr>],
        t_call = (\<lambda>n kw. Inr (100 + n))\<rparr>, d_instance = None, d_factory = None\<rparr>),
     (''Index'', \<lparr>d_lifetime = Lifetime TRANSIENT, d_implementation = Some \<lparr>t_name = ''Index'',
        t_params = [], t_call = (\<lambda>n kw. Inr (200 + n))\<rparr>, d_instance = None, d_factory = None\<rparr>)]"

definition empty_rstate :: "'v rstate" where
  "empty_rstate = \<lparr>singles = [], locks = [], scoped = [], built = []\<rparr>"

lemma example_registry_valid: "validate example_registry = []"
  by (simp add: validate_def example_registry_def validate_node.simps validate_params.simps
      d_target_def)

lemma example_registry_calls_ok: "calls_ok example_registry"
  by (simp add: calls_ok_def example_registry_def d_target_def)

theorem validate_sound_witness:
  "\<exists>v st'. resolve example_registry ''Store'' [] empty_rstate = (Inr v, st')"
  by (rule validate_sound[OF example_registry_valid example_registry_calls_ok])
     (simp add: example_registry_def)

text \<open>
  A singleton is built once: after one successful resolution of a service registered with the
  \<open>SINGLETON\<close> lifetime, any number of other resolutions later the same object is returned and
  no target is called for it.
\<close>

theorem singleton_built_once:
  assumes "map_of reg i = Some d" and "d_lifetime d = Lifetime SINGLETON" and "d_instance d = None"
    and "resolve reg i [] st = (Inr v, st1)"
    and "st2 = fold (\<lambda>j s. snd (resolve reg j [] s)) js st1"
  shows "resolve reg i [] st2 = (Inr v, st2)"
  using resolve_singleton_cached[OF assms(1,2)] fold_resolve_keeps_singles
    resolve_singleton_stores[OF assms(1-4)] assms(5) by metis

theorem singleton_built_once_witness:
  "let st1 = snd (resolve example_registry ''Store'' [] empty_rstate);
       st2 = snd (resolve example_registry ''Index'' [] st1)
   in resolve example_registry ''Store'' [] st2 = (Inr (101::nat), st2)"
proof -
  let ?d = "the (map_of example_registry ''Store'')"
  let ?st1 = "snd (resolve example_registry ''Store'' [] empty_rstate)"
  have 1: "map_of example_registry ''Store'' = Some ?d" "d_lifetime ?d = Lifetime SINGLETON"
    "d_instance ?d = None" by (simp_all add: example_registry_def)
  have 2: "resolve example_registry ''Store'' [] empty_rstate = (Inr 101, ?st1)"
    by (simp add: example_registry_def empty_rstate_def resolve.simps build.simps build_args.simps
        cached_def d_target_def get_singleton_lock_def store_built_def)
  show ?thesis
    using singleton_built_once[OF 1 2, of _ "[''Index'']"] by (simp add: Let_def)
qed

text \<open>
  A factory registered with a lifetime that is not a member of \<open>Lifetime\<close> (IdentityModule
  passes the integer 1) is never cached: each resolution that succeeds calls its target again.
\<close>

theorem foreign_lifetime_rebuilds:
  assumes "map_of reg i = Some d" and "d_lifetime d = NotALifetime x" and "d_instance d = None"
    and "d_target d = Some t" and "t_params t = []"
  shows "resolve reg i [] st =
    (t_call t (length (built st)) [], st\<lparr>built := built st @ [i]\<rparr>)"
  using assms
  by (cases "t_call t (length (built st)) []")
     (simp_all add: resolve.simps[of reg i "[]" st] cached_def build.simps store_built_def)

theorem foreign_lifetime_rebuilds_witness:
  "resolve [(''M'', \<lparr>d_lifetime = NotALifetime (VInt 1), d_implementation = None, d_instance = None,
       d_factory = Some \<lparr>t_name = ''build'', t_params = [], t_call = (\<lambda>n kw. Inr n)\<rparr>\<rparr>)]
     ''M'' [] empty_rstate = (Inr 0, empty_rstate\<lparr>built := [''M'']\<rparr>)"
  using foreign_lifetime_rebuilds[of "[(''M'', \<lparr>d_lifetime = NotALifetime (VInt 1),
       d_implementation = None, d_instance = None,
       d_factory = Some \<lparr>t_name = ''build'', t_params = [], t_call = (\<lambda>n kw. Inr n)\<rparr>\<rparr>)]" "''M''"
     "\<lparr>d_lifetime = NotALifetime (VInt 1), d_implementation = None, d_instance = None,
       d_factory = Some \<lparr>t_name = ''build'', t_params = [], t_call = (\<lambda>n kw. Inr n)\<rparr>\<rparr>"
     "VInt 1" "\<lparr>t_name = ''build'', t_params = [], t_call = (\<lambda>n kw. Inr n)\<rparr>" empty_rstate]
  by (simp add: d_target_def empty_rstate_def)

text \<open>
  Shutting the container down disposes every disposable singleton exactly once, in insertion
  order, whichever disposals raise; it is idempotent, and afterwards nothing can be resolved.
\<close>

theorem shutdown_disposes_once:
  assumes "\<not> c_is_shutdown c"
  shows "c_disposed (container_shutdown disposable dispose c) =
           c_disposed c @ filter disposable (map snd (singles (c_resolver c))) \<and>
         container_shutdown disposable dispose (container_shutdown disposable dispose c) =
           container_shutdown disposable dispose c \<and>
         fst (container_resolve i (container_shutdown disposable dispose c)) =
           Inl (Exn (Py PyRuntimeError) ''Cannot resolve from a shutdown container.'') \<and>
         c_registry (container_shutdown disposable dispose c) = []"
  using assms by (simp add: container_shutdown_def dispose_all_eq container_resolve_def)

definition example_container :: "nat container" where
  "example_container = \<lparr>c_registry = example_registry,
     c_resolver = empty_rstate\<lparr>singles := [(''A'', 1), (''B'', 2), (''C'', 3)]\<rparr>,
     c_is_shutdown = False, c_disposed = []\<rparr>"

theorem shutdown_disposes_once_witness:
  "c_disposed (container_shutdown (\<lambda>v. v \<noteq> 2) (\<lambda>v. Inl (Exn (Py PyValueError) ''boom''))
     example_container) = [1, 3]"
proof -
  have "\<not> c_is_shutdown example_container" by (simp add: example_container_def)
  from shutdown_disposes_once[OF this, of "\<lambda>v. v \<noteq> 2" "\<lambda>v. Inl (Exn (Py PyValueError) ''boom'')"]
  show ?thesis by (simp add: example_container_def empty_rstate_def)
qed

section \<open>The depth of validation\<close>

text \<open>
  The validator with the depth of nested node validations limited to \<open>n\<close>, as Python's recursion
  limit does: \<open>None\<close> when the limit is hit.
\<close>

fun node_within :: "nat \<Rightarrow> 'v registry \<Rightarrow> iface \<Rightarrow> iface list \<Rightarrow> string option option" and
  params_within :: "nat \<Rightarrow> 'v registry \<Rightarrow> 'v target \<Rightarrow> 'v param list \<Rightarrow> iface list \<Rightarrow> string option option"
where
  "node_within 0 reg i chain = None"
| "node_within (Suc n) reg i chain =
     (if i \<in> set chain then Some (Some (validation_circular_msg chain i))
      else case map_of reg i of
        None \<Rightarrow> Some (Some (''Missing dependency: No registration found for '' @ i))
      | Some d \<Rightarrow>
        (case d_instance d of
          Some v \<Rightarrow> Some None
        | None \<Rightarrow>
          (case d_target d of
            None \<Rightarrow> Some (Some (''ServiceDescriptor for '' @ i @ '' lacks implementation or factory.''))
          | Some t \<Rightarrow> params_within n reg t (t_params t) (chain @ [i]))))"
| "params_within n reg t [] chain = Some None"
| "params_within n reg t (p # ps) chain =
     (if p_name p = ''self'' then params_within n reg t ps chain
      else (case p_type p of
        None \<Rightarrow> Some (Some (no_annotation_msg (p_name p) t))
      | Some ty \<Rightarrow>
        if map_of reg ty = None \<and> p_default p \<noteq> None then params_within n reg t ps chain
        else (case node_within n reg ty chain of
          None \<Rightarrow> None
        | Some None \<Rightarrow> params_within n reg t ps chain
        | Some (Some m) \<Rightarrow>
          if contains circular_text m then Some (Some m)
          else if p_default p \<noteq> None then params_within n reg t ps chain
          else Some (Some (cannot_resolve_msg (p_name p) ty t @ ''. Cause: '' @ m)))))"

lemma within_enough:
  shows "off_chain reg chain < n \<Longrightarrow> node_within n reg i chain = Some (validate_node reg i chain)"
    and "off_chain reg chain < n \<Longrightarrow> params_within n reg t ps chain = Some (validate_params reg t ps chain)"
proof (induction n reg i chain and n reg t ps chain rule: node_within_params_within.induct)
  case (2 n reg i chain)
  then show ?case
    using off_chain_snoc[of reg i _ chain]
    by (fastforce simp: validate_node.simps[of reg i chain] split: option.split)
next
  case (4 n reg t p ps chain)
  then show ?case by (auto simp: validate_params_Cons split: option.split)
qed simp_all

text \<open>
  C28. Validation always returns, whatever the registrations, cyclic ones included: with nesting
  limited to one more than the number of registered interfaces it gives the same answer as without
  a limit.
\<close>

theorem validate_terminates:
  "node_within (Suc (length reg)) reg i [] = Some (validate_node reg i [])"
proof (rule within_enough(1))
  have "card (set (map fst reg)) \<le> length reg" using card_length[of "map fst reg"] by simp
  then show "off_chain reg [] < Suc (length reg)" by (simp add: off_chain_def del: set_map)
qed

end
