(* ===== verification/Wiring.thy ===== *)
theory Wiring
  imports Container
begin

text \<open>
  The dependency injection modules (the files ending in \<open>_module.py\<close> of core) and the resolution of
  what they register. Their factories are closures that call the container back: each \<open>await
  container.resolve(...)\<close> starts a resolution of its own, with an empty chain. Theory Container
  models the resolver for targets that do not call back; here the same resolver runs factories whose
  bodies are given as lists of steps. A resolution may then wait for ever, for the lock its own task
  holds: \<open>None\<close> is a resolution that has not returned with the fuel it was given, \<open>Some\<close> one that
  returned or raised.
\<close>

section \<open>Objects, factories and registrations\<close>

text \<open>The statements the bodies of the factories consist of; the first argument is the variable.\<close>

datatype step =
    Await string iface
  | AwaitIfHas string iface
  | GetLogger string string string
  | Build string string "(string \<times> string) list"
  | Call string string string

text \<open>
  What the container hands out: objects the host made, objects a constructor made with its
  arguments (numbered in the order of construction), loggers of a factory, an object after a method
  call, \<open>None\<close>, and the coroutine of a factory that still has to run: its body and the variable it
  returns.
\<close>

datatype wobj =
    Given string
  | Made nat string "(string \<times> wobj) list"
  | LoggerOf wobj string
  | After wobj string wobj
  | NoObject
  | Coroutine "step list" string

datatype class_sig = Class string "(string \<times> iface) list"

datatype factory = Closure string "(string \<times> iface) list" "step list" string

abbreviation singleton :: lifetime_arg where
  "singleton \<equiv> Lifetime SINGLETON"

text \<open>The calls of the container a module's \<open>configure\<close> makes.\<close>

datatype registration =
    Singleton iface class_sig
  | Instance iface wobj
  | Factory iface factory lifetime_arg

definition annotated :: "(string \<times> iface) list \<Rightarrow> wobj param list" where
  "annotated ps = map (\<lambda>(n, ty). \<lparr>p_name = n, p_type = Some ty, p_default = None\<rparr>) ps"

fun class_target :: "class_sig \<Rightarrow> wobj target" where
  "class_target (Class name ps) =
     \<lparr>t_name = name, t_params = annotated ps, t_call = (\<lambda>n kw. Inr (Made n name kw))\<rparr>"

fun factory_target :: "factory \<Rightarrow> wobj target" where
  "factory_target (Closure name ps steps res) =
     \<lparr>t_name = name, t_params = annotated ps, t_call = (\<lambda>n kw. Inr (Coroutine steps res))\<rparr>"

fun register :: "registration \<Rightarrow> (wobj container, unit) act" where
  "register (Singleton i c) = register_singleton i (class_target c) (Some (class_target c))"
| "register (Instance i v) = register_instance i (Some v)"
| "register (Factory i f lt) = register_factory i (Some (factory_target f)) lt"

text \<open>\<open>container.install(module)\<close>: the module's registrations in order.\<close>

fun install :: "registration list \<Rightarrow> (wobj container, unit) act" where
  "install [] = ret ()"
| "install (r # rs) = seqA (register r) (install rs)"

section \<open>Resolution with factories that call back\<close>

record wstate =
  ws_cache :: "wobj rstate"
  ws_held :: "iface list"
  ws_made :: nat

type_synonym 'a wout = "((pyexn + 'a) \<times> wstate) option"

type_synonym resolver = "iface \<Rightarrow> iface list \<Rightarrow> wstate \<Rightarrow> wobj wout"

definition name_error :: "string \<Rightarrow> pyexn" where
  "name_error x = Exn (Py (PyOther ''NameError'')) (''name '' @ quoted x @ '' is not defined'')"

definition var :: "string \<Rightarrow> (string, wobj) pydict \<Rightarrow> pyexn + wobj" where
  "var x env = (case map_of env x of None \<Rightarrow> Inl (name_error x) | Some v \<Rightarrow> Inr v)"

fun args_of :: "(string \<times> string) list \<Rightarrow> (string, wobj) pydict \<Rightarrow> pyexn + (string \<times> wobj) list" where
  "args_of [] env = Inr []"
| "args_of ((p, x) # ps) env = (case var x env of
     Inl e \<Rightarrow> Inl e
   | Inr v \<Rightarrow> (case args_of ps env of Inl e \<Rightarrow> Inl e | Inr vs \<Rightarrow> Inr ((p, v) # vs)))"

text \<open>\<open>await container.resolve(i)\<close> inside a factory: no chain, and instances of its own scope.\<close>

definition call_back :: "resolver \<Rightarrow> iface \<Rightarrow> wstate \<Rightarrow> wobj wout" where
  "call_back rec i st = map_option
     (\<lambda>(r, st'). (r, st'\<lparr>ws_cache := (ws_cache st')\<lparr>scoped := scoped (ws_cache st)\<rparr>\<rparr>))
     (rec i [] (st\<lparr>ws_cache := (ws_cache st)\<lparr>scoped := []\<rparr>\<rparr>))"

definition bound :: "string \<Rightarrow> pyexn + wobj \<Rightarrow> (string, wobj) pydict \<Rightarrow> pyexn + (string, wobj) pydict" where
  "bound x r env = map_sum id (\<lambda>v. (x, v) # env) r"

fun run_step ::
  "resolver \<Rightarrow> wobj registry \<Rightarrow> step \<Rightarrow> (string, wobj) pydict \<Rightarrow> wstate \<Rightarrow> (string, wobj) pydict wout" where
  "run_step rec reg (Await x i) env st =
     map_option (\<lambda>(r, st'). (bound x r env, st')) (call_back rec i st)"
| "run_step rec reg (AwaitIfHas x i) env st =
     (if map_of reg i = None then Some (Inr ((x, NoObject) # env), st)
      else map_option (\<lambda>(r, st'). (bound x r env, st')) (call_back rec i st))"
| "run_step rec reg (GetLogger x f name) env st =
     Some (bound x (map_sum id (\<lambda>v. LoggerOf v name) (var f env)) env, st)"
| "run_step rec reg (Build x cls ps) env st = (case args_of ps env of
     Inl e \<Rightarrow> Some (Inl e, st)
   | Inr kw \<Rightarrow> Some (Inr ((x, Made (ws_made st) cls kw) # env), st\<lparr>ws_made := Suc (ws_made st)\<rparr>))"
| "run_step rec reg (Call x meth y) env st =
     Some (case var x env of
         Inl e \<Rightarrow> Inl e
       | Inr v \<Rightarrow> bound x (map_sum id (\<lambda>w. After v meth w) (var y env)) env, st)"

primrec run_steps ::
  "resolver \<Rightarrow> wobj registry \<Rightarrow> step list \<Rightarrow> (string, wobj) pydict \<Rightarrow> wstate \<Rightarrow>
   (string, wobj) pydict wout" where
  "run_steps rec reg [] env st = Some (Inr env, st)"
| "run_steps rec reg (s # ss) env st = (case run_step rec reg s env st of
     Some (Inr env', st') \<Rightarrow> run_steps rec reg ss env' st'
   | r \<Rightarrow> r)"

definition run_body ::
  "resolver \<Rightarrow> wobj registry \<Rightarrow> step list \<Rightarrow> string \<Rightarrow> (string, wobj) pydict \<Rightarrow> wstate \<Rightarrow> wobj wout" where
  "run_body rec reg steps res env st = (case run_steps rec reg steps env st of
     None \<Rightarrow> None
   | Some (Inl e, st') \<Rightarrow> Some (Inl e, st')
   | Some (Inr env', st') \<Rightarrow> Some (var res env', st'))"

text \<open>The arguments of a target, and building it, as \<open>build_args\<close> and \<open>build\<close> of theory Container.\<close>

primrec args_with ::
  "resolver \<Rightarrow> wobj target \<Rightarrow> wobj param list \<Rightarrow> iface list \<Rightarrow> (string \<times> wobj) list \<Rightarrow> wstate \<Rightarrow>
   (string \<times> wobj) list wout" where
  "args_with rec t [] chain kw st = Some (Inr kw, st)"
| "args_with rec t (p # ps) chain kw st =
     (if p_name p = ''self'' then args_with rec t ps chain kw st
      else (case p_type p of
        None \<Rightarrow> Some (Inl (resolution_error (no_annotation_msg (p_name p) t)), st)
      | Some ty \<Rightarrow> (case rec ty chain st of
          None \<Rightarrow> None
        | Some (Inr v, st') \<Rightarrow> args_with rec t ps chain (kw @ [(p_name p, v)]) st'
        | Some (Inl e, st') \<Rightarrow>
            if exn_cls e = InContainer CircularDependencyError then Some (Inl e, st')
            else if is_resolution_error (exn_cls e) then (case p_default p of
                Some v \<Rightarrow> args_with rec t ps chain (kw @ [(p_name p, v)]) st'
              | None \<Rightarrow> Some (Inl (resolution_error (cannot_resolve_msg (p_name p) ty t)), st'))
            else Some (Inl e, st'))))"

definition log_built :: "iface \<Rightarrow> wstate \<Rightarrow> wstate" where
  "log_built i st = st\<lparr>ws_cache := (ws_cache st)\<lparr>built := built (ws_cache st) @ [i]\<rparr>,
     ws_made := Suc (ws_made st)\<rparr>"

definition build_with ::
  "resolver \<Rightarrow> wobj registry \<Rightarrow> wobj descriptor \<Rightarrow> iface \<Rightarrow> iface list \<Rightarrow> wstate \<Rightarrow> wobj wout" where
  "build_with rec reg d i chain st = (case d_target d of
     None \<Rightarrow> Some (Inl (resolution_error (''ServiceDescriptor for '' @ i @
               '' lacks implementation or factory.'')), st)
   | Some t \<Rightarrow> (case args_with rec t (t_params t) chain [] st of
       None \<Rightarrow> None
     | Some (Inl e, st') \<Rightarrow> Some (Inl e, st')
     | Some (Inr kw, st') \<Rightarrow> (case t_call t (ws_made st') kw of
         Inr (Coroutine steps res) \<Rightarrow> run_body rec reg steps res kw (log_built i st')
       | r \<Rightarrow> Some (r, log_built i st'))))"

text \<open>
  A singleton is built under its lock; a task that asks for the lock it holds never gets it.
\<close>

definition under_lock :: "iface \<Rightarrow> (wstate \<Rightarrow> wobj wout) \<Rightarrow> wstate \<Rightarrow> wobj wout" where
  "under_lock i m st = (let st1 = st\<lparr>ws_cache := get_singleton_lock i (ws_cache st)\<rparr> in
     if i \<in> set (ws_held st) then None
     else map_option (\<lambda>(r, st'). (r, st'\<lparr>ws_held := ws_held st\<rparr>)) (m (st1\<lparr>ws_held := i # ws_held st\<rparr>)))"

definition keep_built :: "wobj descriptor \<Rightarrow> iface \<Rightarrow> wobj wout \<Rightarrow> wobj wout" where
  "keep_built d i r = (case r of
     Some (Inr v, st) \<Rightarrow> Some (Inr v, st\<lparr>ws_cache := store_built d i v (ws_cache st)\<rparr>)
   | r \<Rightarrow> r)"

primrec resolve_within :: "nat \<Rightarrow> wobj registry \<Rightarrow> resolver" where
  "resolve_within 0 reg = (\<lambda>i chain st. None)"
| "resolve_within (Suc n) reg = (\<lambda>i chain st.
     if i \<in> set chain then Some (Inl (circular_error chain i), st)
     else (case map_of reg i of
       None \<Rightarrow> Some (Inl (resolution_error (''No registration found for '' @ i)), st)
     | Some d \<Rightarrow> (case cached d i (ws_cache st) of
         Some v \<Rightarrow> Some (Inr v, st)
       | None \<Rightarrow> (case d_instance d of
           Some v \<Rightarrow> Some (Inr v, st)
         | None \<Rightarrow> (let make = (\<lambda>st. keep_built d i
               (build_with (resolve_within n reg) reg d i (chain @ [i]) st)) in
             if d_lifetime d = Lifetime SINGLETON
             then under_lock i (\<lambda>st. case map_of (singles (ws_cache st)) i of
                 Some v \<Rightarrow> Some (Inr v, st) | None \<Rightarrow> make st) st
             else make st)))))"

text \<open>Installing several modules, and \<open>container.resolve\<close> with factories that call back.\<close>

fun install_all :: "registration list list \<Rightarrow> (wobj container, unit) act" where
  "install_all [] = ret ()"
| "install_all (m # ms) = seqA (install m) (install_all ms)"

definition ask :: "nat \<Rightarrow> wobj container \<Rightarrow> iface \<Rightarrow> wstate \<Rightarrow> wobj wout" where
  "ask n c i st =
     (if c_is_shutdown c
      then Some (Inl (Exn (Py PyRuntimeError) ''Cannot resolve from a shutdown container.''), st)
      else call_back (resolve_within n (c_registry c)) i st)"

section \<open>What a module registers\<close>

fun key :: "registration \<Rightarrow> iface" where
  "key (Singleton i c) = i"
| "key (Instance i v) = i"
| "key (Factory i f lt) = i"

fun described :: "registration \<Rightarrow> wobj descriptor" where
  "described (Singleton i c) = \<lparr>d_lifetime = singleton, d_implementation = Some (class_target c),
     d_instance = None, d_factory = None\<rparr>"
| "described (Instance i v) = \<lparr>d_lifetime = singleton, d_implementation = None, d_instance = Some v,
     d_factory = None\<rparr>"
| "described (Factory i f lt) = \<lparr>d_lifetime = lt, d_implementation = None, d_instance = None,
     d_factory = Some (factory_target f)\<rparr>"

lemma register_eq:
  "register r c = (Inr (), c\<lparr>c_registry := AList.update (key r) (described r) (c_registry c)\<rparr>)"
  by (cases r) (simp_all add: register_singleton_def register_instance_def register_factory_def
    mk_descriptor_def set_descriptor_def impl_or_def)

text \<open>The later registration of an interface wins.\<close>

fun offers :: "registration list \<Rightarrow> iface \<Rightarrow> wobj descriptor option" where
  "offers [] i = None"
| "offers (r # rs) i = (case offers rs i of Some d \<Rightarrow> Some d
     | None \<Rightarrow> if key r = i then Some (described r) else None)"

lemma offers_dom: "offers rs i \<noteq> None \<longleftrightarrow> i \<in> key ` set rs"
  by (induction rs) (auto split: option.splits)

lemma install_eq:
  "\<exists>reg. install rs c = (Inr (), c\<lparr>c_registry := reg\<rparr>) \<and>
     (\<forall>i. map_of reg i = (case offers rs i of Some d \<Rightarrow> Some d | None \<Rightarrow> map_of (c_registry c) i))"
proof (induction rs arbitrary: c)
  case Nil
  show ?case by (intro exI[of _ "c_registry c"]) (simp add: ret_def)
next
  case (Cons r rs)
  let ?c = "c\<lparr>c_registry := AList.update (key r) (described r) (c_registry c)\<rparr>"
  from Cons.IH[of ?c] obtain reg where r: "install rs ?c = (Inr (), ?c\<lparr>c_registry := reg\<rparr>)"
    "\<forall>i. map_of reg i = (case offers rs i of Some d \<Rightarrow> Some d | None \<Rightarrow> map_of (c_registry ?c) i)" by blast
  then show ?case
    by (intro exI[of _ reg]) (simp add: register_eq seqA_def bindA_def update_conv' split: option.splits)
qed

definition apart :: "registration list list \<Rightarrow> bool" where
  "apart ms \<longleftrightarrow> distinct (concat (map (\<lambda>m. remdups (map key m)) ms))"

definition offered :: "registration list list \<Rightarrow> iface \<Rightarrow> wobj descriptor option" where
  "offered ms = offers (concat ms)"

lemma offers_append:
  "offers (rs @ qs) i = (case offers qs i of Some d \<Rightarrow> Some d | None \<Rightarrow> offers rs i)"
  by (induction rs) (auto split: option.splits)

lemma offered_by:
  assumes "apart ms" and "m \<in> set ms" and "i \<in> key ` set m"
  shows "offered ms i = offers m i"
  using assms
proof (induction ms)
  case (Cons q ms)
  have out: "offered ms i = None \<longleftrightarrow> i \<notin> key ` set (concat ms)" for i
    using offers_dom[of "concat ms" i] by (auto simp: offered_def)
  show ?case
  proof (cases "m \<in> set ms")
    case True
    with Cons have "offered ms i = offers m i" "offers m i \<noteq> None"
      using offers_dom[of m i] by (simp_all add: apart_def)
    then show ?thesis by (auto simp: offered_def offers_append split: option.splits)
  next
    case False
    with Cons.prems have "m = q" "i \<notin> key ` set (concat ms)" by (auto simp: apart_def)
    with out[of i] show ?thesis by (simp add: offered_def offers_append)
  qed
qed simp

lemma install_all_eq:
  assumes "apart ms" and "set qs \<subseteq> set ms"
  shows "\<exists>reg. install_all qs c = (Inr (), c\<lparr>c_registry := reg\<rparr>) \<and> (\<forall>i. map_of reg i =
    (if \<exists>m \<in> set qs. i \<in> key ` set m then offered ms i else map_of (c_registry c) i))"
  using assms(2)
proof (induction qs arbitrary: c)
  case Nil
  show ?case by (intro exI[of _ "c_registry c"]) (simp add: ret_def)
next
  case (Cons q qs)
  from install_eq[of q c] obtain reg where
    q: "install q c = (Inr (), c\<lparr>c_registry := reg\<rparr>)"
    and m: "\<And>i. map_of reg i = (case offers q i of Some d \<Rightarrow> Some d | None \<Rightarrow> map_of (c_registry c) i)"
    by blast
  have "q \<in> set ms" "set qs \<subseteq> set ms" using Cons.prems by auto
  from Cons.IH[OF this(2), of "c\<lparr>c_registry := reg\<rparr>"] obtain reg' where
    r: "install_all qs (c\<lparr>c_registry := reg\<rparr>) = (Inr (), c\<lparr>c_registry := reg'\<rparr>)"
    "\<And>i. map_of reg' i = (if \<exists>m \<in> set qs. i \<in> key ` set m then offered ms i else map_of reg i)" by auto
  have "map_of reg' i = (if \<exists>m \<in> set (q # qs). i \<in> key ` set m then offered ms i
      else map_of (c_registry c) i)" for i
    using offered_by[OF assms(1) \<open>q \<in> set ms\<close>, of i] offers_dom[of q i] m[of i] r(2)[of i]
    by (auto split: option.splits)
  with q r(1) show ?case by (intro exI[of _ reg']) (simp add: seqA_def bindA_def)
qed

section \<open>A layered registry serves every interface\<close>

fun awaited :: "step list \<Rightarrow> iface list" where
  "awaited [] = []"
| "awaited (Await x i # ss) = i # awaited ss"
| "awaited (AwaitIfHas x i # ss) = i # awaited ss"
| "awaited (s # ss) = awaited ss"

fun well_bound :: "string list \<Rightarrow> step list \<Rightarrow> string \<Rightarrow> bool" where
  "well_bound xs [] res = (res \<in> set xs)"
| "well_bound xs (Await x i # ss) res = well_bound (x # xs) ss res"
| "well_bound xs (AwaitIfHas x i # ss) res = well_bound (x # xs) ss res"
| "well_bound xs (GetLogger x f n # ss) res = (f \<in> set xs \<and> well_bound (x # xs) ss res)"
| "well_bound xs (Build x c ps # ss) res = (snd ` set ps \<subseteq> set xs \<and> well_bound (x # xs) ss res)"
| "well_bound xs (Call x m y # ss) res = (x \<in> set xs \<and> y \<in> set xs \<and> well_bound (x # xs) ss res)"

fun needs :: "registration \<Rightarrow> iface list" where
  "needs (Singleton i (Class n ps)) = map snd ps"
| "needs (Instance i v) = []"
| "needs (Factory i (Closure n ps steps res) lt) = map snd ps @ awaited steps"

fun well_formed :: "registration \<Rightarrow> bool" where
  "well_formed (Factory i (Closure n ps steps res) lt) =
     (''self'' \<notin> set (map fst ps) \<and> well_bound (map fst ps) steps res)"
| "well_formed r = True"

fun layered :: "iface list \<Rightarrow> registration list \<Rightarrow> bool" where
  "layered seen [] = True"
| "layered seen (r # rs) = (key r \<notin> set seen \<and> set (needs r) \<subseteq> set seen \<and> well_formed r \<and>
     layered (key r # seen) rs)"

text \<open>
  What a resolution keeps: the locks, the singletons there are, and everything about the interfaces it
  cannot build.
\<close>

definition is_instance :: "wobj registry \<Rightarrow> iface \<Rightarrow> bool" where
  "is_instance reg i = (case map_of reg i of None \<Rightarrow> False | Some d \<Rightarrow> d_instance d \<noteq> None)"

definition kept :: "wobj registry \<Rightarrow> iface set \<Rightarrow> wstate \<Rightarrow> wstate \<Rightarrow> bool" where
  "kept reg S st st' \<longleftrightarrow> ws_held st' = ws_held st \<and> ws_made st \<le> ws_made st' \<and>
     (\<forall>j v. map_of (singles (ws_cache st)) j = Some v \<longrightarrow> map_of (singles (ws_cache st')) j = Some v) \<and>
     (\<forall>j. j \<notin> S \<or> is_instance reg j \<longrightarrow>
       map_of (singles (ws_cache st')) j = map_of (singles (ws_cache st)) j)"

definition serves :: "wobj registry \<Rightarrow> resolver \<Rightarrow> iface set \<Rightarrow> bool" where
  "serves reg rec S \<longleftrightarrow> (\<forall>i \<in> S. \<forall>chain st. set chain \<inter> S = {} \<longrightarrow> set (ws_held st) \<inter> S = {} \<longrightarrow>
     (\<exists>v st'. rec i chain st = Some (Inr v, st') \<and> kept reg S st st'))"

lemma kept_refl [simp]: "kept reg S st st"
  by (simp add: kept_def)

lemma kept_trans: "kept reg S a b \<Longrightarrow> kept reg S b c \<Longrightarrow> kept reg S a c"
  by (simp add: kept_def)

lemma kept_mono: "kept reg S a b \<Longrightarrow> S \<subseteq> T \<Longrightarrow> kept reg T a b"
  by (auto simp: kept_def)

lemma kept_scoped [simp]:
  "kept reg S (st\<lparr>ws_cache := (ws_cache st)\<lparr>scoped := x\<rparr>\<rparr>) st' = kept reg S st st'"
  "kept reg S st (st'\<lparr>ws_cache := (ws_cache st')\<lparr>scoped := x\<rparr>\<rparr>) = kept reg S st st'"
  by (simp_all add: kept_def)

lemma kept_log_built [simp]: "kept reg S st (log_built i st)"
  by (simp add: kept_def log_built_def)

lemma serves_elem:
  "serves reg rec S \<Longrightarrow> i \<in> S \<Longrightarrow> set chain \<inter> S = {} \<Longrightarrow> set (ws_held st) \<inter> S = {} \<Longrightarrow>
     \<exists>v st'. rec i chain st = Some (Inr v, st') \<and> kept reg S st st'"
  by (simp add: serves_def)

lemma serves_callback:
  assumes "serves reg rec S" and "i \<in> S" and "set (ws_held st) \<inter> S = {}"
  shows "\<exists>v st'. call_back rec i st = Some (Inr v, st') \<and> kept reg S st st'"
proof -
  from serves_elem[OF assms(1,2), of "[]" "st\<lparr>ws_cache := (ws_cache st)\<lparr>scoped := []\<rparr>\<rparr>"] assms(3)
  obtain v st' where "rec i [] (st\<lparr>ws_cache := (ws_cache st)\<lparr>scoped := []\<rparr>\<rparr>) = Some (Inr v, st')"
    "kept reg S st st'" by auto
  then show ?thesis by (simp add: call_back_def)
qed

lemma var_bound: "x \<in> fst ` set env \<Longrightarrow> \<exists>v. var x env = Inr v"
  by (auto simp: var_def map_of_eq_None_iff split: option.splits)

lemma args_bound: "snd ` set ps \<subseteq> fst ` set env \<Longrightarrow> \<exists>kw. args_of ps env = Inr kw"
proof (induction ps)
  case (Cons p ps)
  then show ?case using var_bound[of "snd p" env] by (cases p) auto
qed simp

lemma run_steps_ok:
  assumes "serves reg rec S" and "set (awaited ss) \<subseteq> S" and "well_bound (map fst env) ss res"
    and "set (ws_held st) \<inter> S = {}"
  shows "\<exists>env' st'. run_steps rec reg ss env st = Some (Inr env', st') \<and> kept reg S st st' \<and> res \<in> fst ` set env'"
  using assms(2-4)
proof (induction ss arbitrary: env st)
  case Nil
  then show ?case by simp
next
  case (Cons s ss)
  have "\<exists>env1 st1. run_step rec reg s env st = Some (Inr env1, st1) \<and> kept reg S st st1 \<and>
      set (awaited ss) \<subseteq> S \<and> well_bound (map fst env1) ss res"
  proof (cases s)
    case (Await x i)
    with Cons.prems serves_callback[OF assms(1), of i st] show ?thesis by (auto simp: bound_def)
  next
    case (AwaitIfHas x i)
    with Cons.prems serves_callback[OF assms(1), of i st] show ?thesis by (auto simp: bound_def)
  next
    case (GetLogger x f n)
    with Cons.prems var_bound[of f env] show ?thesis by (auto simp: bound_def)
  next
    case (Build x c ps)
    with Cons.prems args_bound[of ps env] show ?thesis by (auto simp: kept_def)
  next
    case (Call x m y)
    with Cons.prems var_bound[of x env] var_bound[of y env] show ?thesis by (auto simp: bound_def)
  qed
  then obtain env1 st1 where s: "run_step rec reg s env st = Some (Inr env1, st1)" "kept reg S st st1"
    "set (awaited ss) \<subseteq> S" "well_bound (map fst env1) ss res" by blast
  moreover have "set (ws_held st1) \<inter> S = {}" using s(2) Cons.prems(3) by (simp add: kept_def)
  ultimately obtain env' st' where "run_steps rec reg ss env1 st1 = Some (Inr env', st')" "kept reg S st1 st'"
    "res \<in> fst ` set env'" using Cons.IH[of env1 st1] by blast
  with s(1,2) show ?case by (auto intro: kept_trans)
qed

lemma args_with_ok:
  assumes "serves reg rec S" and "snd ` set ps \<subseteq> S" and "set (ws_held st) \<inter> S = {}" and "set chain \<inter> S = {}"
  shows "\<exists>kw' st'. args_with rec t (annotated ps) chain kw st = Some (Inr (kw @ kw'), st') \<and> kept reg S st st' \<and>
    map fst kw' = filter (\<lambda>x. x \<noteq> ''self'') (map fst ps)"
  using assms(2,3)
proof (induction ps arbitrary: kw st)
  case Nil
  then show ?case by (simp add: annotated_def)
next
  case (Cons p ps)
  obtain x ty where p: "p = (x, ty)" by (cases p)
  show ?case
  proof (cases "x = ''self''")
    case True
    with Cons p show ?thesis by (simp add: annotated_def)
  next
    case False
    from serves_elem[OF assms(1) _ assms(4) Cons.prems(2), of ty] Cons.prems(1) p
    obtain v st1 where v: "rec ty chain st = Some (Inr v, st1)" "kept reg S st st1" by auto
    then have "set (ws_held st1) \<inter> S = {}" using Cons.prems(2) by (simp add: kept_def)
    with Cons.IH[of st1 "kw @ [(x, v)]"] Cons.prems(1) obtain kw' st' where
      "args_with rec t (annotated ps) chain (kw @ [(x, v)]) st1 = Some (Inr ((kw @ [(x, v)]) @ kw'), st')"
      "kept reg S st1 st'" "map fst kw' = filter (\<lambda>x. x \<noteq> ''self'') (map fst ps)" by auto
    with v False p kept_trans[OF v(2)] show ?thesis
      by (intro exI[of _ "(x, v) # kw'"] exI[of _ st']) (simp add: annotated_def)
  qed
qed

definition registered_in :: "wobj registry \<Rightarrow> registration \<Rightarrow> bool" where
  "registered_in reg r \<longleftrightarrow> map_of reg (key r) = Some (described r)"

lemma build_with_ok:
  assumes "serves reg rec S" and "set (needs r) \<subseteq> S" and "well_formed r" and "d_instance (described r) = None"
    and "set (ws_held st) \<inter> S = {}" and "set chain \<inter> S = {}"
  shows "\<exists>v st'. build_with rec reg (described r) (key r) chain st = Some (Inr v, st') \<and> kept reg S st st'"
proof (cases r)
  case (Singleton i c)
  obtain n ps where c: "c = Class n ps" by (cases c)
  from assms(2) Singleton c have "snd ` set ps \<subseteq> S" by simp
  from args_with_ok[OF assms(1) this assms(5,6), of "class_target c" "[]"] obtain kw st1 where
    "args_with rec (class_target c) (annotated ps) chain [] st = Some (Inr kw, st1)" "kept reg S st st1" by auto
  with Singleton c kept_trans[OF _ kept_log_built] show ?thesis
    by (simp add: build_with_def d_target_def)
next
  case (Factory i f lt)
  obtain n ps steps res where f: "f = Closure n ps steps res" by (cases f)
  let ?t = "factory_target f"
  from assms(2,3) Factory f have ps: "snd ` set ps \<subseteq> S" and ss: "set (awaited steps) \<subseteq> S"
    and w: "''self'' \<notin> set (map fst ps)" "well_bound (map fst ps) steps res" by auto
  from args_with_ok[OF assms(1) ps assms(5,6), of ?t "[]"] obtain kw st1 where
    a: "args_with rec ?t (annotated ps) chain [] st = Some (Inr kw, st1)" "kept reg S st st1"
    "map fst kw = filter (\<lambda>x. x \<noteq> ''self'') (map fst ps)" by auto
  moreover have "filter (\<lambda>x. x \<noteq> ''self'') (map fst ps) = map fst ps"
    using w(1) by (force simp: filter_id_conv)
  ultimately have "well_bound (map fst kw) steps res" using w(2) by simp
  moreover have "set (ws_held (log_built i st1)) \<inter> S = {}"
    using a(2) assms(5) by (simp add: kept_def log_built_def)
  ultimately obtain env st2 where
    r: "run_steps rec reg steps kw (log_built i st1) = Some (Inr env, st2)" "kept reg S (log_built i st1) st2"
    "res \<in> fst ` set env" using run_steps_ok[OF assms(1) ss] by blast
  from var_bound[OF r(3)] obtain v where "var res env = Inr v" by blast
  moreover have "kept reg S st st2" by (rule kept_trans[OF a(2) kept_trans[OF kept_log_built r(2)]])
  ultimately show ?thesis using Factory f a(1) r(1) by (simp add: build_with_def d_target_def run_body_def)
qed (use assms(4) in simp)

lemma kept_outside: "kept reg S st st' \<Longrightarrow> i \<notin> S \<or> is_instance reg i \<Longrightarrow> map_of (singles (ws_cache st')) i = map_of (singles (ws_cache st)) i"
  by (simp add: kept_def)

lemma kept_keep_built:
  assumes "kept reg S st st'" and "cached d i (ws_cache st) = None" and "i \<notin> S" and "\<not> is_instance reg i"
  shows "kept reg (insert i S) st (st'\<lparr>ws_cache := store_built d i v (ws_cache st')\<rparr>)"
  using assms kept_outside[OF assms(1), of i]
  by (auto simp: kept_def store_built_def cached_def update_conv' split: lifetime_arg.splits lifetime.splits)

text \<open>One more interface: its resolution with one more unit of fuel returns.\<close>

lemma resolve_one:
  assumes "serves reg (resolve_within n reg) S" and "registered_in reg r" and "set (needs r) \<subseteq> S"
    and "well_formed r" and "key r \<notin> S" and "set chain \<inter> insert (key r) S = {}"
    and "set (ws_held st) \<inter> insert (key r) S = {}"
  shows "\<exists>v st'. resolve_within (Suc n) reg (key r) chain st = Some (Inr v, st') \<and>
    kept reg (insert (key r) S) st st'"
proof -
  let ?d = "described r" and ?i = "key r" and ?rec = "resolve_within n reg"
  let ?one = "resolve_within (Suc n) reg (key r) chain st"
  from assms(2,6) have reg: "map_of reg ?i = Some ?d" "?i \<notin> set chain" by (auto simp: registered_in_def)
  consider (hit) v where "cached ?d ?i (ws_cache st) = Some v"
    | (inst) v where "cached ?d ?i (ws_cache st) = None" "d_instance ?d = Some v"
    | (build) "cached ?d ?i (ws_cache st) = None" "d_instance ?d = None"
    by (metis not_None_eq)
  then show ?thesis
  proof cases
    case build
    have ninst: "\<not> is_instance reg ?i" using reg(1) build(2) by (simp add: is_instance_def)
    let ?locked = "st\<lparr>ws_cache := get_singleton_lock ?i (ws_cache st), ws_held := ?i # ws_held st\<rparr>"
    have chain: "set (chain @ [?i]) \<inter> S = {}" using assms(5,6) by auto
    have "set (ws_held st) \<inter> S = {}" "set (ws_held ?locked) \<inter> S = {}" using assms(5,7) by auto
    from build_with_ok[OF assms(1,3,4) build(2) this(1) chain] build_with_ok[OF assms(1,3,4) build(2) this(2) chain]
    obtain v st' v' st'' where
      b: "build_with ?rec reg ?d ?i (chain @ [?i]) st = Some (Inr v, st')" "kept reg S st st'" and
      b': "build_with ?rec reg ?d ?i (chain @ [?i]) ?locked = Some (Inr v', st'')" "kept reg S ?locked st''" by blast
    show ?thesis
    proof (cases "d_lifetime ?d = Lifetime SINGLETON")
      case True
      let ?out = "st''\<lparr>ws_held := ws_held st\<rparr>"
      have "kept reg S st ?out" using b'(2) by (simp add: kept_def)
      from kept_keep_built[OF this build(1) assms(5) ninst, of v'] True
      have "kept reg (insert ?i S) st (st''\<lparr>ws_cache := store_built ?d ?i v' (ws_cache st''), ws_held := ws_held st\<rparr>)"
        by (simp add: kept_def)
      moreover have "map_of (singles (ws_cache st)) ?i = None" using build(1) True by (simp add: cached_def)
      ultimately show ?thesis using reg build True b'(1) assms(7)
        by (simp add: under_lock_def keep_built_def Let_def)
    next
      case False
      with reg build b(1) kept_keep_built[OF b(2) build(1) assms(5) ninst, of v] show ?thesis
        by (simp add: keep_built_def)
    qed
  qed (use reg in simp_all)
qed

lemma serves_insert:
  assumes "serves reg (resolve_within n reg) S" and "registered_in reg r" and "set (needs r) \<subseteq> S"
    and "well_formed r" and "key r \<notin> S" and "serves reg (resolve_within (Suc n) reg) S"
  shows "serves reg (resolve_within (Suc n) reg) (insert (key r) S)"
  unfolding serves_def
proof (intro ballI allI impI)
  fix i chain and st :: wstate
  assume i: "i \<in> insert (key r) S" and free: "set chain \<inter> insert (key r) S = {}"
    "set (ws_held st) \<inter> insert (key r) S = {}"
  show "\<exists>v st'. resolve_within (Suc n) reg i chain st = Some (Inr v, st') \<and> kept reg (insert (key r) S) st st'"
  proof (cases "i = key r")
    case True
    with resolve_one[OF assms(1-5) free] show ?thesis by simp
  next
    case False
    with i have "i \<in> S" by simp
    with serves_elem[OF assms(6), of i chain st] free show ?thesis by (auto intro: kept_mono)
  qed
qed

text \<open>
  With the registrations in an order in which each needs earlier ones only, as much fuel as there
  are registrations serves them all.
\<close>

lemma layered_serves:
  assumes "layered seen rs" and "list_all (registered_in reg) rs"
    and "\<And>n. m \<le> n \<Longrightarrow> serves reg (resolve_within n reg) (set seen)"
    and "m + length rs \<le> n"
  shows "serves reg (resolve_within n reg) (set seen \<union> key ` set rs)"
  using assms
proof (induction rs arbitrary: seen m)
  case (Cons r rs)
  have "serves reg (resolve_within k reg) (set (key r # seen))" if "Suc m \<le> k" for k
  proof -
    from that obtain k' where "k = Suc k'" "m \<le> k'" by (cases k) auto
    with serves_insert[OF Cons.prems(3)[of k'], of r] Cons.prems(1,2) Cons.prems(3)[of k] show ?thesis by simp
  qed
  from Cons.IH[OF _ _ this] Cons.prems(1,2,4) show ?case by simp
qed simp

text \<open>
  To check the layers, interfaces are compared by numbers: \<open>name_code\<close> is injective, and the numerals
  it evaluates to differ early.
\<close>

fun name_code :: "string \<Rightarrow> nat" where
  "name_code [] = 0"
| "name_code (c # s) = Suc (of_char c) + 512 * name_code s"

lemma digit_inj: "a < 256 \<Longrightarrow> b < 256 \<Longrightarrow> (Suc a + 512 * x = Suc b + 512 * y) = (a = b \<and> x = (y::nat))"
proof (rule iffI)
  assume a: "a < 256" "b < 256" and e: "Suc a + 512 * x = Suc b + 512 * y"
  have "(Suc a + 512 * x) mod 512 = Suc a" "(Suc b + 512 * y) mod 512 = Suc b"
    using a by (simp_all only: mod_mult_self2) simp_all
  with e show "a = b \<and> x = y" by simp
qed simp

lemma name_code_inj: "name_code s = name_code t \<longleftrightarrow> s = t"
proof (induction s arbitrary: t)
  case Nil
  show ?case by (cases t) simp_all
next
  case (Cons c s)
  then show ?case by (cases t) (simp_all add: digit_inj del: add_Suc)
qed

fun layered_codes :: "nat list \<Rightarrow> (nat \<times> nat list) list \<Rightarrow> bool" where
  "layered_codes seen [] = True"
| "layered_codes seen ((k, ns) # rs) = (k \<notin> set seen \<and> set ns \<subseteq> set seen \<and> layered_codes (k # seen) rs)"

definition shape :: "registration list \<Rightarrow> (nat \<times> nat list) list" where
  "shape rs = map (\<lambda>r. (name_code (key r), map name_code (needs r))) rs"

lemma name_code_mem: "name_code i \<in> name_code ` S \<longleftrightarrow> i \<in> S"
    and name_code_sub: "name_code ` T \<subseteq> name_code ` S \<longleftrightarrow> T \<subseteq> S"
  by (auto simp: name_code_inj)

lemma layered_by_codes:
  "layered_codes (map name_code seen) (shape rs) \<Longrightarrow> list_all well_formed rs \<Longrightarrow> layered seen rs"
proof (induction rs arbitrary: seen)
  case (Cons r rs)
  then show ?case using Cons.IH[of "key r # seen"] by (simp add: shape_def name_code_mem name_code_sub)
qed simp

lemma layered_distinct: "layered seen rs \<Longrightarrow> distinct (map key rs) \<and> set seen \<inter> key ` set rs = {}"
  by (induction rs arbitrary: seen) fastforce+

lemma offers_elem:
  "r \<in> set rs \<Longrightarrow> inj_on key (set rs) \<Longrightarrow> offers rs (key r) = Some (described r)"
proof (induction rs)
  case (Cons q rs)
  show ?case
  proof (cases "r \<in> set rs")
    case True
    with Cons show ?thesis by simp
  next
    case False
    with Cons.prems have "r = q" "key r \<notin> key ` set rs" by (auto simp: inj_on_def)
    with offers_dom[of rs "key r"] show ?thesis by simp
  qed
qed simp

lemma well_bound_awaits:
  "well_bound xs (map (\<lambda>(x, c). Await x (f c)) es @ ss) res = well_bound (rev (map fst es) @ xs) ss res"
proof (induction es arbitrary: xs)
  case (Cons e es)
  then show ?case by (cases e) simp
qed simp

lemma exports_bound: "snd ` set (map (\<lambda>(x, c). (x, x)) es) \<subseteq> set (rev (map fst es) @ xs)"
  by (simp add: image_image case_prod_unfold)


section \<open>Which objects are shared\<close>

text \<open>Objects are numbered upwards.\<close>

definition counts :: "resolver \<Rightarrow> bool" where
  "counts rec \<longleftrightarrow> (\<forall>i chain st r st'. rec i chain st = Some (r, st') \<longrightarrow> ws_made st \<le> ws_made st')"

lemma counts_callback: "counts rec \<Longrightarrow> call_back rec i st = Some (r, st') \<Longrightarrow> ws_made st \<le> ws_made st'"
  by (fastforce simp: counts_def call_back_def)

lemma counts_step: "counts rec \<Longrightarrow> run_step rec reg s env st = Some (r, st') \<Longrightarrow> ws_made st \<le> ws_made st'"
  by (cases s) (auto dest: counts_callback split: if_splits sum.splits)

lemma counts_steps: "counts rec \<Longrightarrow> run_steps rec reg ss env st = Some (r, st') \<Longrightarrow> ws_made st \<le> ws_made st'"
  by (induction ss arbitrary: env st)
     (fastforce dest: counts_step split: option.splits prod.splits sum.splits)+

lemma counts_args:
  "counts rec \<Longrightarrow> args_with rec t ps chain kw st = Some (r, st') \<Longrightarrow> ws_made st \<le> ws_made st'"
proof (induction ps arbitrary: kw st)
  case (Cons p ps)
  have "ws_made st \<le> ws_made st1" if "rec ty chain st = Some (q, st1)" for ty q st1
    using Cons.prems(1) that unfolding counts_def by blast
  with Cons show ?case by (auto split: if_splits option.splits prod.splits sum.splits; meson le_trans)
qed simp

lemma made_log_built [simp]: "ws_made (log_built i st) = Suc (ws_made st)"
  by (simp add: log_built_def)

lemma counts_build:
  assumes "counts rec" and "build_with rec reg d i chain st = Some (r, st')"
  shows "ws_made st \<le> ws_made st'"
  using assms(2) counts_args[OF assms(1)] counts_steps[OF assms(1)]
  by (auto simp: build_with_def run_body_def split: option.splits prod.splits sum.splits wobj.splits; fastforce)

lemma counts_resolve: "counts (resolve_within n reg)"
proof (induction n)
  case (Suc n)
  note B = counts_build[OF Suc]
  show ?case
    unfolding counts_def
    by (auto simp: under_lock_def keep_built_def Let_def dest: B split: if_splits option.splits prod.splits sum.splits)
qed (simp add: counts_def)

text \<open>A factory that ends by building what it returns, registered with a foreign lifetime, makes a new object.\<close>

fun makes_anew :: "registration \<Rightarrow> bool" where
  "makes_anew (Factory i (Closure n ps steps res) lt) = ((\<exists>x. lt = NotALifetime x) \<and> steps \<noteq> [] \<and>
     (case last steps of Build x c qs \<Rightarrow> x = res | s \<Rightarrow> False))"
| "makes_anew r = False"

lemma run_steps_append:
  "run_steps rec reg (ss @ ts) env st = (case run_steps rec reg ss env st of
     Some (Inr env', st') \<Rightarrow> run_steps rec reg ts env' st' | r \<Rightarrow> r)"
  by (induction ss arbitrary: env st) (auto split: option.splits prod.splits sum.splits)

lemma made_anew:
  assumes "makes_anew r" and "registered_in reg r"
    and "resolve_within n reg (key r) [] st = Some (Inr v, st')"
  shows "\<exists>k c kw. v = Made k c kw \<and> ws_made st \<le> k \<and> k < ws_made st'"
proof -
  obtain i nm ps steps res lx where r: "r = Factory i (Closure nm ps steps res) (NotALifetime lx)"
    using assms(1) by (auto elim: makes_anew.elims)
  with assms(1) obtain ss c qs where "steps = ss @ [Build res c qs]"
    by (cases steps rule: rev_cases) (auto split: step.splits)
  with r have r: "r = Factory i (Closure nm ps (ss @ [Build res c qs]) res) (NotALifetime lx)" by simp
  from assms(3) obtain m where n: "n = Suc m" by (cases n) auto
  let ?rec = "resolve_within m reg" and ?t = "factory_target (Closure nm ps (ss @ [Build res c qs]) res)"
  from assms(2,3) obtain kw st1 where
    a: "args_with ?rec ?t (annotated ps) [i] [] st = Some (Inr kw, st1)" and
    b: "run_body ?rec reg (ss @ [Build res c qs]) res kw (log_built i st1) = Some (Inr v, st')"
    by (auto simp: r n registered_in_def cached_def build_with_def d_target_def
        keep_built_def store_built_def split: option.splits prod.splits sum.splits)
  obtain env st2 where s: "run_steps ?rec reg ss kw (log_built i st1) = Some (Inr env, st2)"
    using b by (cases "run_steps ?rec reg ss kw (log_built i st1)")
      (simp_all add: run_body_def run_steps_append split: prod.splits sum.splits)
  with b obtain as where as: "args_of qs env = Inr as"
    by (cases "args_of qs env") (simp_all add: run_body_def run_steps_append)
  with b s have "v = Made (ws_made st2) c as" "ws_made st' = Suc (ws_made st2)"
    by (auto simp: run_body_def run_steps_append var_def)
  with counts_args[OF counts_resolve a] counts_steps[OF counts_resolve s] show ?thesis
    by (intro exI[of _ "ws_made st2"] exI[of _ c] exI[of _ as]) simp
qed

text \<open>A singleton that was resolved is stored, and found again.\<close>

lemma resolved_stored:
  assumes "map_of reg i = Some d" and "d_lifetime d = Lifetime SINGLETON" and "d_instance d = None"
    and "resolve_within n reg i chain st = Some (Inr v, st')"
  shows "map_of (singles (ws_cache st')) i = Some v"
proof -
  from assms(4) obtain m where "n = Suc m" by (cases n) auto
  with assms show ?thesis
    by (auto simp: under_lock_def keep_built_def cached_def store_built_def Let_def update_conv'
        split: if_splits option.splits prod.splits sum.splits)
qed

lemma stored_found:
  assumes "map_of reg i = Some d" and "d_lifetime d = Lifetime SINGLETON"
    and "map_of (singles (ws_cache st)) i = Some v" and "0 < n" and "i \<notin> set chain"
  shows "resolve_within n reg i chain st = Some (Inr v, st)"
  using assms by (cases n) (simp_all add: cached_def)

lemma instance_found:
  assumes "map_of reg i = Some d" and "d_lifetime d = Lifetime SINGLETON" and "d_instance d = Some w"
    and "0 < n" and "i \<notin> set chain"
  shows "resolve_within n reg i chain st =
    Some (Inr (case map_of (singles (ws_cache st)) i of Some v \<Rightarrow> v | None \<Rightarrow> w), st)"
  using assms by (cases n) (simp_all add: cached_def split: option.splits)

text \<open>Any resolutions, one after the other, whatever they return.\<close>

fun ask_all :: "nat \<Rightarrow> wobj container \<Rightarrow> iface list \<Rightarrow> wstate \<Rightarrow> wstate option" where
  "ask_all n c [] st = Some st"
| "ask_all n c (i # is) st = (case ask n c i st of None \<Rightarrow> None | Some (r, st') \<Rightarrow> ask_all n c is st')"

lemma call_back_inner:
  assumes "call_back rec i st = Some (r, st')"
  shows "\<exists>st1. rec i [] (st\<lparr>ws_cache := (ws_cache st)\<lparr>scoped := []\<rparr>\<rparr>) = Some (r, st1) \<and>
    singles (ws_cache st') = singles (ws_cache st1) \<and> ws_made st' = ws_made st1"
  using assms by (auto simp: call_back_def)

lemma ask_unknown:
  assumes "\<not> container_has i c" and "\<not> c_is_shutdown c" and "0 < n"
  shows "\<exists>e st'. ask n c i st = Some (Inl e, st') \<and> kept reg S st st'"
  using assms by (cases n) (simp_all add: ask_def call_back_def container_has_def)

definition fresh_wiring :: wstate where
  "fresh_wiring = \<lparr>ws_cache = empty_rstate, ws_held = [], ws_made = 0\<rparr>"

section \<open>A cycle through factories\<close>

text \<open>A singleton made by a factory without parameters whose body begins by resolving \<open>j\<close>.\<close>

definition begins_with :: "iface \<Rightarrow> wobj descriptor \<Rightarrow> bool" where
  "begins_with j d \<longleftrightarrow> (\<exists>f x ss res. d = \<lparr>d_lifetime = singleton, d_implementation = None,
     d_instance = None, d_factory = Some (factory_target (Closure f [] (Await x j # ss) res))\<rparr>)"

lemma hangs_on:
  assumes "map_of reg i = Some d" and "begins_with j d" and "i \<notin> set chain"
    and "map_of (singles (ws_cache st)) i = None"
    and "\<And>st'. singles (ws_cache st') = singles (ws_cache st) \<Longrightarrow> resolve_within n reg j [] st' = None"
  shows "resolve_within (Suc n) reg i chain st = None"
proof -
  from assms(2) obtain f x ss res where d: "d = \<lparr>d_lifetime = singleton, d_implementation = None,
     d_instance = None, d_factory = Some (factory_target (Closure f [] (Await x j # ss) res))\<rparr>"
    by (auto simp: begins_with_def)
  have none: "call_back (resolve_within n reg) j st' = None"
    if "singles (ws_cache st') = singles (ws_cache st)" for st'
    using that assms(5) by (simp add: call_back_def)
  let ?locked = "st\<lparr>ws_cache := get_singleton_lock i (ws_cache st), ws_held := i # ws_held st\<rparr>"
  have "singles (ws_cache (log_built i ?locked)) = singles (ws_cache st)"
    by (simp add: log_built_def get_singleton_lock_def)
  from none[OF this] assms(1,3,4) show ?thesis
    by (simp add: d cached_def under_lock_def build_with_def d_target_def annotated_def run_body_def keep_built_def
        Let_def get_singleton_lock_def split: if_splits)
qed

lemma cycle_hangs:
  assumes "map_of reg i = Some d" and "map_of reg j = Some d'" and "begins_with j d" and "begins_with i d'"
  shows "map_of (singles (ws_cache st)) i = None \<Longrightarrow> map_of (singles (ws_cache st)) j = None \<Longrightarrow>
      resolve_within n reg i [] st = None \<and> resolve_within n reg j [] st = None"
proof (induction n arbitrary: st)
  case (Suc n)
  have step: "resolve_within n reg i [] st' = None \<and> resolve_within n reg j [] st' = None"
    if "singles (ws_cache st') = singles (ws_cache st)" for st'
    using Suc.IH[of st'] Suc.prems that by simp
  from hangs_on[OF assms(1,3) _ Suc.prems(1), of "[]" n] hangs_on[OF assms(2,4) _ Suc.prems(2), of "[]" n] step
  show ?case by simp
qed simp

text \<open>
  C27. A cycle through the bodies of factories is found by neither check: when the factories of two
  singletons begin by resolving each other, resolving one of them never returns, however long it may
  run - the inner resolution starts with an empty chain and waits for the lock the outer one holds -
  and the validator reports nothing about either.
\<close>

theorem factory_cycle_hangs:
  assumes "map_of (c_registry c) i = Some d" and "map_of (c_registry c) j = Some d'"
    and "begins_with j d" and "begins_with i d'" and "\<not> c_is_shutdown c"
    and "map_of (singles (ws_cache st)) i = None" and "map_of (singles (ws_cache st)) j = None"
  shows "(\<forall>n. ask n c i st = None) \<and> validate_node (c_registry c) i [] = None \<and>
    validate_node (c_registry c) j [] = None"
proof -
  have "ask n c i st = None" for n
    using cycle_hangs[OF assms(1-4), of "st\<lparr>ws_cache := (ws_cache st)\<lparr>scoped := []\<rparr>\<rparr>" n] assms(5-7)
    by (simp add: ask_def call_back_def)
  moreover from assms(3,4) have "validate_node (c_registry c) i [] = None" "validate_node (c_registry c) j [] = None"
    using assms(1,2) by (auto simp: begins_with_def validate_node.simps d_target_def annotated_def)
  ultimately show ?thesis by simp
qed

lemma begins_with_factory:
  "begins_with j (described (Factory i (Closure f [] (Await x j # ss) res) singleton))"
  by (auto simp: begins_with_def)

definition cyclic_container :: "wobj container" where
  "cyclic_container = snd (install
     [Factory ''A'' (Closure ''build_a'' [] [Await ''b'' ''B'', Build ''a'' ''A'' [(''b'', ''b'')]] ''a'') singleton,
      Factory ''B'' (Closure ''build_b'' [] [Await ''a'' ''A'', Build ''b'' ''B'' [(''a'', ''a'')]] ''b'') singleton]
     new_container)"

theorem factory_cycle_hangs_witness:
  "ask 1000 cyclic_container ''A'' fresh_wiring = None \<and> validate (c_registry cyclic_container) = []"
proof -
  have up: "\<not> c_is_shutdown cyclic_container"
    by (simp add: cyclic_container_def register_eq seqA_def bindA_def ret_def new_container_def del: register.simps)
  let ?a = "Factory ''A'' (Closure ''build_a'' [] [Await ''b'' ''B'', Build ''a'' ''A'' [(''b'', ''b'')]] ''a'') singleton"
  let ?b = "Factory ''B'' (Closure ''build_b'' [] [Await ''a'' ''A'', Build ''b'' ''B'' [(''a'', ''a'')]] ''b'') singleton"
  have reg: "c_registry cyclic_container = [(''A'', described ?a), (''B'', described ?b)]"
    by (simp add: cyclic_container_def register_eq seqA_def bindA_def ret_def new_container_def
        del: register.simps described.simps factory_target.simps)
  have "map_of (c_registry cyclic_container) ''A'' = Some (described ?a)"
    "map_of (c_registry cyclic_container) ''B'' = Some (described ?b)"
    by (simp_all add: reg del: described.simps factory_target.simps)
  from factory_cycle_hangs[OF this begins_with_factory begins_with_factory up, of fresh_wiring]
  have "(\<forall>n. ask n cyclic_container ''A'' fresh_wiring = None) \<and>
    validate_node (c_registry cyclic_container) ''A'' [] = None \<and>
    validate_node (c_registry cyclic_container) ''B'' [] = None"
    by (simp add: fresh_wiring_def empty_rstate_def)
  then show ?thesis by (simp add: validate_def reg)
qed

section \<open>Without call-backs this is the resolver of theory Container\<close>

definition callback_free :: "wobj registry \<Rightarrow> bool" where
  "callback_free reg \<longleftrightarrow> (\<forall>i d t n kw ss res. map_of reg i = Some d \<longrightarrow> d_target d = Some t \<longrightarrow>
     t_call t n kw \<noteq> Inr (Coroutine ss res))"

fun lifted :: "wstate \<Rightarrow> (pyexn + 'a) \<times> wobj rstate \<Rightarrow> (pyexn + 'a) \<times> wstate" where
  "lifted w (r, c) = (r, w\<lparr>ws_cache := c, ws_made := length (built c)\<rparr>)"

definition counted :: "wstate \<Rightarrow> bool" where
  "counted w \<longleftrightarrow> ws_made w = length (built (ws_cache w))"

lemma built_store [simp]: "built (store_built d i v st) = built st"
  by (simp add: store_built_def split: lifetime_arg.splits lifetime.splits)

lemma built_lock [simp]: "built (get_singleton_lock i st) = built st"
  by (simp add: get_singleton_lock_def)

lemma lifted_self: "counted w \<Longrightarrow> lifted w (r, ws_cache w) = (r, w)"
  by (simp add: counted_def)

lemma agrees:
  shows "callback_free reg \<Longrightarrow> set (ws_held w) \<subseteq> set chain \<Longrightarrow> counted w \<Longrightarrow> off_chain reg chain < n \<Longrightarrow>
      ws_cache w = st \<Longrightarrow> resolve_within n reg i chain w = Some (lifted w (resolve reg i chain st))"
    and "callback_free reg \<Longrightarrow> set (ws_held w) \<subseteq> set chain \<Longrightarrow> counted w \<Longrightarrow> off_chain reg chain < n \<Longrightarrow>
      ws_cache w = st \<Longrightarrow> map_of reg i = Some d \<Longrightarrow>
      build_with (resolve_within n reg) reg d i chain w = Some (lifted w (build reg d i chain st))"
    and "callback_free reg \<Longrightarrow> set (ws_held w) \<subseteq> set chain \<Longrightarrow> counted w \<Longrightarrow> off_chain reg chain < n \<Longrightarrow>
      ws_cache w = st \<Longrightarrow>
      args_with (resolve_within n reg) t ps chain kw w = Some (lifted w (build_args reg t ps chain kw st))"
proof (induction reg i chain st and reg d i chain st and reg t ps chain kw st arbitrary: w n and w n and w n
    rule: resolve_build_build_args.induct)
  case (1 reg i chain st)
  from "1.prems"(4) obtain m where n: "n = Suc m" by (cases n) auto
  show ?case
  proof (cases "i \<in> set chain \<or> map_of reg i = None")
    case True
    with n "1.prems"(3,5) show ?thesis by (auto simp: resolve.simps[of reg i] counted_def)
  next
    case False
    then obtain d where d: "i \<notin> set chain" "map_of reg i = Some d" by auto
    consider (hit) v where "cached d i st = Some v"
      | (inst) v where "cached d i st = None" "d_instance d = Some v"
      | (build) "cached d i st = None" "d_instance d = None" by (metis not_None_eq)
    then show ?thesis
    proof cases
      case build
      let ?st1 = "if d_lifetime d = Lifetime SINGLETON then get_singleton_lock i st else st"
      let ?w1 = "if d_lifetime d = Lifetime SINGLETON
        then w\<lparr>ws_cache := get_singleton_lock i st, ws_held := i # ws_held w\<rparr> else w"
      have free: "i \<notin> set (ws_held w)" using d(1) "1.prems"(2) by blast
      have none: "(if d_lifetime d = Lifetime SINGLETON then map_of (singles ?st1) i else None) = None"
        using build(1) by (simp add: cached_def get_singleton_lock_def split: lifetime_arg.splits lifetime.splits)
      have less: "off_chain reg (chain @ [i]) < m" using off_chain_snoc[OF d(2,1)] "1.prems"(4) n by simp
      have "set (ws_held ?w1) \<subseteq> set (chain @ [i])" "counted ?w1" "ws_cache ?w1 = ?st1"
        using "1.prems"(2,3,5) by (auto simp: counted_def)
      from "1.IH"[OF d build refl none "1.prems"(1) this(1,2) less this(3) d(2)]
      have "build_with (resolve_within m reg) reg d i (chain @ [i]) ?w1 =
        Some (lifted ?w1 (build reg d i (chain @ [i]) ?st1))" .
      with n d build none free "1.prems"(5) show ?thesis
        by (cases "build reg d i (chain @ [i]) ?st1"; cases "fst (build reg d i (chain @ [i]) ?st1)")
          (auto simp: resolve.simps[of reg i] Let_def under_lock_def keep_built_def split: if_splits)
    qed (use n d "1.prems"(3,5) in \<open>simp_all add: resolve.simps[of reg i] counted_def\<close>)
  qed
next
  case (2 reg d i chain st)
  show ?case
  proof (cases "d_target d")
    case None
    with "2.prems"(3,5) show ?thesis by (simp add: build.simps build_with_def counted_def)
  next
    case (Some t)
    obtain r c where a: "build_args reg t (t_params t) chain [] st = (r, c)" by fastforce
    with "2.IH"[OF Some "2.prems"(1-5)]
    have w: "args_with (resolve_within n reg) t (t_params t) chain [] w =
      Some (r, w\<lparr>ws_cache := c, ws_made := length (built c)\<rparr>)" by simp
    have "t_call t k kw \<noteq> Inr (Coroutine ss res)" for k kw ss res
      using "2.prems"(1,6) Some by (auto simp: callback_free_def)
    with a w Some show ?thesis
      by (cases r) (auto simp: build.simps build_with_def log_built_def split: sum.splits wobj.splits)
  qed
next
  case (3 reg t ps chain kw st)
  show ?case
  proof (cases ps)
    case Nil
    with "3.prems"(3,5) show ?thesis by (simp add: counted_def)
  next
    case (Cons p ps')
    show ?thesis
    proof (cases "p_name p = ''self''")
      case True
      with "3.IH"(1)[OF Cons True "3.prems"] Cons show ?thesis by (simp add: build_args_Cons)
    next
      case self: False
      show ?thesis
      proof (cases "p_type p")
        case None
        with Cons self "3.prems"(3,5) show ?thesis by (simp add: build_args_Cons counted_def)
      next
        case (Some ty)
        obtain r c where a: "resolve reg ty chain st = (r, c)" by fastforce
        let ?w = "w\<lparr>ws_cache := c, ws_made := length (built c)\<rparr>"
        from "3.IH"(2)[OF Cons self Some "3.prems"] a
        have rec: "resolve_within n reg ty chain w = Some (r, ?w)" by simp
        have w: "set (ws_held ?w) \<subseteq> set chain" "counted ?w" "ws_cache ?w = c"
          using "3.prems"(2) by (simp_all add: counted_def)
        show ?thesis
        proof (cases r)
          case (Inr v)
          from "3.IH"(4)[OF Cons self Some a[symmetric, unfolded Inr] _ "3.prems"(1) w(1,2) "3.prems"(4) w(3)] Cons self Some a rec Inr
          show ?thesis by (cases "build_args reg t ps' chain (kw @ [(p_name p, v)]) c") (simp add: build_args_Cons)
        next
          case (Inl e)
          show ?thesis
          proof (cases "exn_cls e \<noteq> InContainer CircularDependencyError \<and> is_resolution_error (exn_cls e) \<and> p_default p \<noteq> None")
            case True
            then obtain v where v: "p_default p = Some v" by auto
            from "3.IH"(3)[OF Cons self Some a[symmetric, unfolded Inl] _ _ _ v "3.prems"(1) w(1,2) "3.prems"(4) w(3)]
              True Cons self Some a rec Inl v
            show ?thesis by (cases "build_args reg t ps' chain (kw @ [(p_name p, v)]) c") (simp add: build_args_Cons)
          next
            case False
            with Cons self Some a rec Inl show ?thesis by (auto simp: build_args_Cons split: option.splits)
          qed
        qed
      qed
    qed
  qed
qed

end
