(* ===== verification/Modules.thy ===== *)
theory Modules
  imports Wiring
begin

text \<open>
  The modules themselves, as the lists of their registrations, and what installing them all gives.
  The order of the sections is the order the docs install them in; theory Wiring has the resolver.
\<close>

section \<open>The modules\<close>

text \<open>What several factories begin with or end with.\<close>

definition await_logger :: "string \<Rightarrow> step list" where
  "await_logger name = [Await ''logger_factory'' ''LoggerFactory'', GetLogger ''logger'' ''logger_factory'' name]"

definition same_names :: "string list \<Rightarrow> (string \<times> string) list" where
  "same_names xs = map (\<lambda>x. (x, x)) xs"

text \<open>What the host and its configuration bring: \<open>ConfigModule\<close> and \<open>LoggingModule\<close> register instances.\<close>

definition host_instances :: "registration list" where
  "host_instances = map (\<lambda>i. Instance i (Given i)) [''ContainerProtocol'', ''ConfigurationManager'', ''EventBus'']"

definition config_module :: "registration list" where
  "config_module = map (\<lambda>i. Instance i (Given i))
     [''IRAConfig'', ''KernelConfig'', ''ServerConfig'', ''LoggingConfig'', ''SecurityConfig'', ''LLMConfig'',
      ''DatabaseConfig'', ''PluginConfig'', ''AndroidConfig'', ''DesktopConfig'', ''IdentityConfig'']"

definition logging_module :: "registration list" where
  "logging_module = [Instance ''LoggerFactory'' (Given ''LoggerFactory''),
     Instance ''Logger'' (LoggerOf (Given ''LoggerFactory'') ''ira'')]"

definition security_module :: "registration list" where
  "security_module =
     [Singleton ''PermissionValidator'' (Class ''DefaultPermissionValidator'' []),
      Singleton ''PermissionAuthorizer'' (Class ''DefaultPermissionAuthorizer'' []),
      Factory ''PolicyEvaluator'' (Closure ''build_policy_evaluator'' []
        [Build ''evaluator'' ''DefaultPolicyEvaluator'' []] ''evaluator'') singleton,
      Factory ''PermissionManager'' (Closure ''build_manager'' []
        ([Await ''validator'' ''PermissionValidator'', Await ''policy_evaluator'' ''PolicyEvaluator'',
          Await ''authorizer'' ''PermissionAuthorizer'', Await ''event_bus'' ''EventBus''] @
         await_logger ''core.security'' @
         [Build ''manager'' ''SecurityManager'' (same_names
           [''validator'', ''policy_evaluator'', ''authorizer'', ''event_bus'', ''logger''])])
        ''manager'') singleton]"

definition runtime_module :: "registration list" where
  "runtime_module =
     [Singleton ''Validator'' (Class ''RuntimeValidator'' []),
      Singleton ''Dispatcher'' (Class ''RuntimeDispatcher'' []),
      Singleton ''Executor'' (Class ''RuntimeExecutor'' []),
      Factory ''CapabilityRegistry'' (Closure ''build_registry'' []
        [Await ''event_bus'' ''EventBus'',
         Build ''registry'' ''InMemoryCapabilityRegistry'' [(''event_bus'', ''event_bus'')]] ''registry'') singleton,
      Factory ''RuntimeManager'' (Closure ''build_manager'' []
        ([Await ''validator'' ''Validator'', Await ''registry'' ''CapabilityRegistry'',
          Await ''dispatcher'' ''Dispatcher'', Await ''executor'' ''Executor'', Await ''event_bus'' ''EventBus''] @
         await_logger ''core.runtime'' @
         [Build ''manager'' ''RuntimeManager'' (same_names
           [''validator'', ''registry'', ''dispatcher'', ''executor'', ''event_bus'', ''logger''])])
        ''manager'') singleton]"

definition mutation_module :: "registration list" where
  "mutation_module =
     [Factory ''AuditManager'' (Closure ''build_audit_manager'' []
        (await_logger ''core.mutation.audit'' @
         [Build ''manager'' ''AuditManager'' [(''logger'', ''logger'')],
          Build ''sink'' ''InMemoryAuditSink'' [], Call ''manager'' ''register_sink'' ''sink'']) ''manager'') singleton,
      Factory ''ConfirmationManager'' (Closure ''build_confirmation_manager'' []
        (await_logger ''core.mutation.confirmation'' @
         [Build ''manager'' ''ConfirmationManager'' [(''logger'', ''logger'')],
          Build ''provider'' ''DenyByDefaultProvider'' [], Call ''manager'' ''register_provider'' ''provider''])
        ''manager'') singleton,
      Factory ''MutationManager'' (Closure ''build_mutation_manager'' []
        ([Await ''registry'' ''CapabilityRegistry'', Await ''confirmation_manager'' ''ConfirmationManager'',
          Await ''audit_manager'' ''AuditManager'', Await ''event_bus'' ''EventBus''] @
         await_logger ''core.mutation'' @
         [Build ''manager'' ''DefaultMutationManager'' ((''capability_registry'', ''registry'') #
           same_names [''confirmation_manager'', ''audit_manager'', ''event_bus'', ''logger''])])
        ''manager'') singleton]"

definition execution_module :: "registration list" where
  "execution_module =
     [Factory ''ExecutionClassifier'' (Closure ''build_classifier'' []
        [Await ''registry'' ''CapabilityRegistry'',
         Build ''classifier'' ''DefaultExecutionClassifier'' [(''registry'', ''registry'')]] ''classifier'') singleton,
      Factory ''ProtectedDispatcher'' (Closure ''build_protected_dispatcher'' []
        ([Await ''permission_manager'' ''PermissionManager'', Await ''registry'' ''CapabilityRegistry'',
          Await ''dispatcher'' ''Dispatcher'', Await ''executor'' ''Executor'', Await ''event_bus'' ''EventBus''] @
         await_logger ''core.execution.dispatcher'' @
         [Await ''confirmation_manager'' ''ConfirmationManager'',
          Build ''protected'' ''DefaultProtectedDispatcher'' (same_names
           [''permission_manager'', ''registry'', ''dispatcher'', ''executor'', ''event_bus'', ''logger'',
            ''confirmation_manager''])]) ''protected'') singleton,
      Factory ''ExecutionService'' (Closure ''build_execution_service'' []
        ([Await ''classifier'' ''ExecutionClassifier'', Await ''protected_dispatcher'' ''ProtectedDispatcher'',
          Await ''mutation_manager'' ''MutationManager'', Await ''event_bus'' ''EventBus''] @
         await_logger ''core.execution'' @
         [Build ''service'' ''DefaultExecutionService'' (same_names
           [''classifier'', ''protected_dispatcher'', ''mutation_manager'', ''event_bus'', ''logger''])])
        ''service'') singleton]"

definition workflow_module :: "registration list" where
  "workflow_module =
     [Singleton ''WorkflowScheduler'' (Class ''DefaultWorkflowScheduler'' []),
      Singleton ''WorkflowQueue'' (Class ''InMemoryWorkflowQueue'' []),
      Factory ''WorkflowExecutor'' (Closure ''build_executor'' []
        [Await ''execution_service'' ''ExecutionService'',
         Build ''executor'' ''DefaultWorkflowExecutor'' [(''execution_service'', ''execution_service'')]]
        ''executor'') singleton,
      Factory ''WorkflowManager'' (Closure ''build_manager'' []
        ([Await ''scheduler'' ''WorkflowScheduler'', Await ''queue'' ''WorkflowQueue'',
          Await ''executor'' ''WorkflowExecutor'', Await ''event_bus'' ''EventBus''] @
         await_logger ''core.workflow'' @
         [Build ''manager'' ''WorkflowManagerImpl'' (same_names
           [''scheduler'', ''queue'', ''executor'', ''event_bus'', ''logger''])]) ''manager'') singleton]"

text \<open>The retention manager is made when the module is, before anything is resolved.\<close>

definition memory_module :: "wobj \<Rightarrow> registration list" where
  "memory_module retention =
     [Singleton ''MemoryIndex'' (Class ''MemoryIndex'' []),
      Singleton ''MemoryStore'' (Class ''MemoryStore'' [(''index'', ''MemoryIndex'')]),
      Singleton ''SearchEngine'' (Class ''SearchEngine'' [(''index'', ''MemoryIndex'')]),
      Instance ''RetentionManager'' retention,
      Factory ''MemoryManager'' (Closure ''build_memory_manager'' []
        ([Await ''store'' ''MemoryStore'', Await ''search_engine'' ''SearchEngine'',
          Await ''retention_manager'' ''RetentionManager''] @
         await_logger ''core.memory'' @
         [AwaitIfHas ''event_bus'' ''EventBus'',
          Build ''manager'' ''MemoryManager'' (same_names
           [''store'', ''search_engine'', ''retention_manager'', ''logger'', ''event_bus''])]) ''manager'') singleton]"

definition planner_module :: "registration list" where
  "planner_module =
     [Singleton ''GoalManager'' (Class ''GoalManager'' []),
      Singleton ''TaskManager'' (Class ''TaskManager'' []),
      Singleton ''ExecutionGraph'' (Class ''ExecutionGraph'' []),
      Singleton ''RuleBasedPlanner'' (Class ''RuleBasedPlanner'' [(''graph_builder'', ''ExecutionGraph'')]),
      Factory ''Planner'' (Closure ''build_planner'' []
        [Await ''graph'' ''ExecutionGraph'', Await ''strategy'' ''RuleBasedPlanner'',
         Build ''planner'' ''Planner'' [(''strategy'', ''strategy'')]] ''planner'') singleton,
      Factory ''PlannerManager'' (Closure ''build_planner_manager'' []
        ([Await ''goal_manager'' ''GoalManager'', Await ''task_manager'' ''TaskManager'',
          Await ''planner'' ''Planner'', Await ''memory_manager'' ''MemoryManager''] @
         await_logger ''core.planner'' @
         [AwaitIfHas ''event_bus'' ''EventBus'',
          Build ''manager'' ''PlannerManager'' (same_names
           [''goal_manager'', ''task_manager'', ''planner'', ''memory_manager'', ''logger'', ''event_bus''])])
        ''manager'') singleton]"

text \<open>
  The factories of the identity module take the container as an annotated parameter, and their
  lifetime is the integer 1: a container has no attribute \<open>Scope\<close>.
\<close>

definition container_param :: "(string \<times> iface) list" where
  "container_param = [(''container'', ''ContainerProtocol'')]"

definition identity_lifetime :: lifetime_arg where
  "identity_lifetime = NotALifetime (VInt 1)"

definition identity_module :: "registration list" where
  "identity_module =
     [Singleton ''IdentityRegistry'' (Class ''IdentityRegistry'' []),
      Singleton ''SessionRegistry'' (Class ''SessionRegistry'' []),
      Singleton ''PermissionPolicy'' (Class ''DefaultPermissionPolicy'' []),
      Factory ''AuthenticationManager'' (Closure ''_build_authentication_manager'' container_param
        [Await ''id_reg'' ''IdentityRegistry'', Await ''sess_reg'' ''SessionRegistry'',
         Await ''config'' ''ConfigurationManager'', AwaitIfHas ''event_bus'' ''EventBus'',
         Build ''manager'' ''AuthenticationManager'' [(''identity_registry'', ''id_reg''),
           (''session_registry'', ''sess_reg''), (''config'', ''config''), (''event_bus'', ''event_bus'')]]
        ''manager'') identity_lifetime,
      Factory ''AuthorizationManager'' (Closure ''_build_authorization_manager'' container_param
        [Await ''policy'' ''PermissionPolicy'', AwaitIfHas ''event_bus'' ''EventBus'',
         Build ''manager'' ''AuthorizationManager'' (same_names [''policy'', ''event_bus''])]
        ''manager'') identity_lifetime,
      Factory ''IdentityManager'' (Closure ''_build_identity_manager'' container_param
        [Await ''registry'' ''IdentityRegistry'', Await ''auth'' ''AuthenticationManager'',
         Await ''authz'' ''AuthorizationManager'', Await ''log_factory'' ''LoggerFactory'',
         GetLogger ''logger'' ''log_factory'' ''core.identity'', AwaitIfHas ''event_bus'' ''EventBus'',
         Build ''manager'' ''IdentityManager'' [(''registry'', ''registry''), (''authentication'', ''auth''),
           (''authorization'', ''authz''), (''logger'', ''logger''), (''event_bus'', ''event_bus'')]]
        ''manager'') identity_lifetime]"

definition plugin_module :: "registration list" where
  "plugin_module =
     [Singleton ''PluginHealthTracker'' (Class ''DefaultPluginHealthTracker'' []),
      Singleton ''PluginLoader'' (Class ''DefaultPluginLoader'' []),
      Singleton ''PluginRegistry'' (Class ''InMemoryPluginRegistry'' []),
      Singleton ''PluginValidator'' (Class ''DefaultPluginValidator'' []),
      Factory ''PluginManager'' (Closure ''build_manager'' []
        ([Await ''loader'' ''PluginLoader'', Await ''registry'' ''PluginRegistry'',
          Await ''validator'' ''PluginValidator'', Await ''health'' ''PluginHealthTracker'',
          Await ''event_bus'' ''EventBus''] @
         await_logger ''core.plugins'' @
         [Build ''manager'' ''PluginManagerImpl'' [(''loader'', ''loader''), (''registry'', ''registry''),
           (''validator'', ''validator''), (''health_tracker'', ''health''), (''event_bus'', ''event_bus''),
           (''logger'', ''logger'')]]) ''manager'') singleton]"

text \<open>
  What \<open>core.android.capabilities\<close> exports: a name and the class it stands for, with the bridge its
  constructor takes; \<open>None\<close> is an abstract class, which \<open>inspect.isabstract\<close> skips.
\<close>

definition capability_exports :: "(string \<times> class_sig option) list" where
  "capability_exports = [
     (''BrightnessCapability'', Some (Class ''BrightnessCapability'' [(''bridge'', ''SystemBridge'')])),
     (''FlashlightCapability'', Some (Class ''FlashlightCapability'' [(''bridge'', ''SystemBridge'')])),
     (''VolumeCapability'', Some (Class ''VolumeCapability'' [(''bridge'', ''SystemBridge'')])),
     (''VibrateCapability'', Some (Class ''VibrateCapability'' [(''bridge'', ''SystemBridge'')])),
     (''RotationCapability'', Some (Class ''RotationCapability'' [(''bridge'', ''SystemBridge'')])),
     (''ScreenTimeoutCapability'', Some (Class ''ScreenTimeoutCapability'' [(''bridge'', ''SystemBridge'')])),
     (''DoNotDisturbCapability'', Some (Class ''DoNotDisturbCapability'' [(''bridge'', ''SystemBridge'')])),
     (''WifiCapability'', Some (Class ''WifiCapability'' [(''bridge'', ''NetworkBridge'')])),
     (''BluetoothCapability'', Some (Class ''BluetoothCapability'' [(''bridge'', ''NetworkBridge'')])),
     (''MobileDataCapability'', Some (Class ''MobileDataCapability'' [(''bridge'', ''NetworkBridge'')])),
     (''HotspotCapability'', Some (Class ''HotspotCapability'' [(''bridge'', ''NetworkBridge'')])),
     (''AirplaneModeCapability'', Some (Class ''AirplaneModeCapability'' [(''bridge'', ''NetworkBridge'')])),
     (''PhoneReadCapability'', Some (Class ''PhoneReadCapability'' [(''bridge'', ''CallBridge'')])),
     (''PhoneWriteCapability'', Some (Class ''PhoneWriteCapability'' [(''bridge'', ''CallBridge'')])),
     (''SmsReadCapability'', Some (Class ''SmsReadCapability'' [(''bridge'', ''SMSBridge'')])),
     (''SmsWriteCapability'', Some (Class ''SmsWriteCapability'' [(''bridge'', ''SMSBridge'')])),
     (''ContactsReadCapability'', Some (Class ''ContactsReadCapability'' [(''bridge'', ''ContactsBridge'')])),
     (''ContactsWriteCapability'', Some (Class ''ContactsWriteCapability'' [(''bridge'', ''ContactsBridge'')])),
     (''NotificationReadCapability'', Some (Class ''NotificationReadCapability'' [(''bridge'', ''NotificationBridge'')])),
     (''NotificationWriteCapability'', Some (Class ''NotificationWriteCapability'' [(''bridge'', ''NotificationBridge'')])),
     (''NotificationReplyCapability'', Some (Class ''NotificationReplyCapability'' [(''bridge'', ''NotificationBridge'')])),
     (''CameraReadCapability'', Some (Class ''CameraReadCapability'' [(''bridge'', ''CameraBridge'')])),
     (''CameraWriteCapability'', Some (Class ''CameraWriteCapability'' [(''bridge'', ''CameraBridge'')])),
     (''MicrophoneReadCapability'', Some (Class ''MicrophoneReadCapability'' [(''bridge'', ''MicrophoneBridge'')])),
     (''MicrophoneWriteCapability'', Some (Class ''MicrophoneWriteCapability'' [(''bridge'', ''MicrophoneBridge'')])),
     (''FilesReadCapability'', Some (Class ''FilesReadCapability'' [(''bridge'', ''FileBridge'')])),
     (''FilesWriteCapability'', Some (Class ''FilesWriteCapability'' [(''bridge'', ''FileBridge'')])),
     (''MediaReadCapability'', Some (Class ''MediaReadCapability'' [(''bridge'', ''MediaBridge'')])),
     (''MediaWriteCapability'', Some (Class ''MediaWriteCapability'' [(''bridge'', ''MediaBridge'')])),
     (''GalleryReadCapability'', Some (Class ''GalleryReadCapability'' [(''bridge'', ''GalleryBridge'')])),
     (''GalleryWriteCapability'', Some (Class ''GalleryWriteCapability'' [(''bridge'', ''GalleryBridge'')])),
     (''DownloadsReadCapability'', Some (Class ''DownloadsReadCapability'' [(''bridge'', ''DownloadBridge'')])),
     (''DownloadsWriteCapability'', Some (Class ''DownloadsWriteCapability'' [(''bridge'', ''DownloadBridge'')])),
     (''StorageReadCapability'', Some (Class ''StorageReadCapability'' [(''bridge'', ''StorageBridge'')])),
     (''StorageWriteCapability'', Some (Class ''StorageWriteCapability'' [(''bridge'', ''StorageBridge'')])),
     (''CallCapability'', Some (Class ''PhoneReadCapability'' [(''bridge'', ''CallBridge'')])),
     (''SmsCapability'', Some (Class ''SmsReadCapability'' [(''bridge'', ''SMSBridge'')])),
     (''ContactsCapability'', Some (Class ''ContactsReadCapability'' [(''bridge'', ''ContactsBridge'')])),
     (''NotificationCapability'', Some (Class ''NotificationReadCapability'' [(''bridge'', ''NotificationBridge'')])),
     (''AlarmCapability'', None),
     (''CalendarCapability'', None),
     (''CameraCapability'', Some (Class ''CameraCapability'' [])),
     (''FilesCapability'', Some (Class ''FilesCapability'' [])),
     (''MediaCapability'', Some (Class ''MediaCapability'' [])),
     (''LocationCapability'', Some (Class ''LocationCapability'' [(''bridge'', ''LocationBridge'')])),
     (''ApplicationCapability'', None),
     (''ClipboardCapability'', Some (Class ''ClipboardCapability'' [(''bridge'', ''SystemBridge'')])),
     (''BatteryCapability'', Some (Class ''BatteryCapability'' [(''bridge'', ''SystemBridge'')])),
     (''DeviceCapability'', None)]"

definition concrete_exports :: "(string \<times> class_sig) list" where
  "concrete_exports = List.map_filter (\<lambda>(x, c). map_option (Pair x) c) capability_exports"

fun class_key :: "class_sig \<Rightarrow> iface" where
  "class_key (Class name ps) = name"

definition android_services :: "registration list" where
  "android_services =
     [Factory ''AndroidRegistry'' (Closure ''build_registry'' []
        [Await ''event_bus'' ''EventBus'', Await ''tool_registry'' ''CapabilityRegistry'',
         Build ''registry'' ''InMemoryAndroidRegistry'' (same_names [''event_bus'', ''tool_registry''])]
        ''registry'') singleton,
      Factory ''AndroidHealthTracker'' (Closure ''build_health_tracker'' []
        [Await ''event_bus'' ''EventBus'', Await ''registry'' ''AndroidRegistry'',
         Build ''tracker'' ''AndroidHealthTracker'' (same_names [''event_bus'', ''registry''])]
        ''tracker'') singleton,
      Factory ''AndroidRuntime'' (Closure ''build_manager'' []
        ([Await ''registry'' ''AndroidRegistry'', Await ''health_tracker'' ''AndroidHealthTracker'',
          Await ''event_bus'' ''EventBus''] @
         await_logger ''core.android'' @
         map (\<lambda>(x, c). Await x (class_key c)) concrete_exports @
         [Build ''capabilities'' ''list'' (map (\<lambda>(x, c). (x, x)) concrete_exports),
          Build ''manager'' ''AndroidRuntimeManager'' (same_names
           [''registry'', ''health_tracker'', ''event_bus'', ''logger'', ''capabilities''])])
        ''manager'') singleton]"

definition bridge_services :: "registration list" where
  "bridge_services = map (\<lambda>(i, c). Singleton i (Class c []))
     [(''SystemBridge'', ''MockSystemBridge''), (''NetworkBridge'', ''MockNetworkBridge''),
      (''LocationBridge'', ''MockLocationBridge''), (''CallBridge'', ''MockCallBridge''),
      (''SMSBridge'', ''MockSMSBridge''), (''ContactsBridge'', ''MockContactsBridge''),
      (''NotificationBridge'', ''MockNotificationBridge''), (''CameraBridge'', ''MockCameraBridge''),
      (''MicrophoneBridge'', ''MockMicrophoneBridge''), (''FileBridge'', ''MockFileBridge''),
      (''MediaBridge'', ''MockMediaBridge''), (''GalleryBridge'', ''MockGalleryBridge''),
      (''DownloadBridge'', ''MockDownloadBridge''), (''StorageBridge'', ''MockStorageBridge'')]"

definition android_module :: "registration list" where
  "android_module = android_services @ bridge_services @
     map (\<lambda>(x, c). Singleton (class_key c) c) concrete_exports"

definition brain_module :: "registration list" where
  "brain_module =
     [Singleton ''ReasoningEngine'' (Class ''ReasoningEngine'' []),
      Singleton ''DecisionEngine'' (Class ''DecisionEngine'' []),
      Factory ''BrainPipeline'' (Closure ''build_pipeline'' []
        ([Await ''reasoning_engine'' ''ReasoningEngine'', Await ''decision_engine'' ''DecisionEngine'',
          Await ''identity_manager'' ''IdentityManager'', Await ''memory_manager'' ''MemoryManager'',
          Await ''planner_manager'' ''PlannerManager''] @
         await_logger ''core.brain.pipeline'' @
         [Build ''validate'' ''ValidateRequestStage'' [],
          Build ''context'' ''ConversationContextStage'' [(''0'', ''reasoning_engine'')],
          Build ''identity'' ''ResolveIdentityStage'' [(''0'', ''identity_manager'')],
          Build ''analyze'' ''AnalyzeRequestStage'' [(''0'', ''reasoning_engine'')],
          Build ''memory'' ''RetrieveMemoryStage'' [(''0'', ''memory_manager'')],
          Build ''input'' ''BuildPlannerInputStage'' [(''0'', ''reasoning_engine'')],
          Build ''plan'' ''InvokePlannerStage'' [(''0'', ''planner_manager'')],
          Build ''decide'' ''MakeDecisionStage'' [(''0'', ''decision_engine'')],
          Build ''stages'' ''tuple'' (same_names
           [''validate'', ''context'', ''identity'', ''analyze'', ''memory'', ''input'', ''plan'', ''decide'']),
          Build ''pipeline'' ''BrainPipeline'' (same_names [''stages'', ''logger''])]) ''pipeline'') singleton,
      Factory ''BrainManager'' (Closure ''build_brain_manager'' []
        (Await ''pipeline'' ''BrainPipeline'' # await_logger ''core.brain'' @
         [AwaitIfHas ''event_bus'' ''EventBus'', AwaitIfHas ''identity_manager'' ''IdentityManager'',
          AwaitIfHas ''memory_manager'' ''MemoryManager'', AwaitIfHas ''planner_manager'' ''PlannerManager'',
          Build ''manager'' ''BrainManager'' (same_names
           [''pipeline'', ''logger'', ''event_bus'', ''identity_manager'', ''memory_manager'', ''planner_manager''])])
        ''manager'') singleton]"

definition ira_modules :: "registration list list" where
  "ira_modules = [host_instances, config_module, logging_module, security_module, runtime_module,
     mutation_module, execution_module, workflow_module, memory_module (Given ''RetentionManager''),
     planner_module, identity_module, plugin_module, android_module, brain_module]"


section \<open>The modules are layered\<close>

text \<open>The exports under the name of their class: an alias registers a class that has its own export.\<close>

definition own_exports :: "(string \<times> class_sig) list" where
  "own_exports = filter (\<lambda>(x, c). x = class_key c) concrete_exports"

definition wired_order :: "registration list" where
  "wired_order = host_instances @ config_module @ logging_module @ security_module @ runtime_module @
     mutation_module @ execution_module @ workflow_module @ memory_module (Given ''RetentionManager'') @
     planner_module @ identity_module @ plugin_module @ bridge_services @
     map (\<lambda>(x, c). Singleton (class_key c) c) own_exports @ android_services @ brain_module"

lemmas module_defs = host_instances_def config_module_def logging_module_def security_module_def
  runtime_module_def mutation_module_def execution_module_def workflow_module_def memory_module_def
  planner_module_def identity_module_def plugin_module_def bridge_services_def android_services_def
  brain_module_def await_logger_def same_names_def container_param_def

lemmas exports_eval = concrete_exports_def[unfolded capability_exports_def, simplified]

lemma aliased: "list_all (\<lambda>(x, c). if x = class_key c then True else (class_key c, c) \<in> set concrete_exports)
    concrete_exports"
  by (simp add: exports_eval)

lemma own_exports_set:
  "(\<lambda>(x, c). Singleton (class_key c) c) ` set own_exports = (\<lambda>(x, c). Singleton (class_key c) c) ` set concrete_exports"
proof
  show "(\<lambda>(x, c). Singleton (class_key c) c) ` set concrete_exports \<subseteq> (\<lambda>(x, c). Singleton (class_key c) c) ` set own_exports"
  proof
    fix r
    assume "r \<in> (\<lambda>(x, c). Singleton (class_key c) c) ` set concrete_exports"
    then obtain x c where r: "(x, c) \<in> set concrete_exports" "r = Singleton (class_key c) c" by auto
    with aliased have "(class_key c, c) \<in> set own_exports"
      by (auto simp: list_all_iff own_exports_def split: if_splits)
    with r(2) show "r \<in> (\<lambda>(x, c). Singleton (class_key c) c) ` set own_exports" by force
  qed
qed (auto simp: own_exports_def)

lemma wired_order_set: "set wired_order = set (concat ira_modules)"
proof -
  have "set android_module = set (bridge_services @ map (\<lambda>(x, c). Singleton (class_key c) c) own_exports @
      android_services)"
    by (simp add: android_module_def own_exports_set Un_commute Un_left_commute)
  then show ?thesis by (simp add: wired_order_def ira_modules_def Un_assoc)
qed

lemma own_exports_keys:
  "(\<lambda>x. class_key (snd x)) ` set concrete_exports = (\<lambda>x. class_key (snd x)) ` set own_exports"
  using arg_cong[OF own_exports_set, of "image key"] by (simp add: image_image case_prod_unfold)

lemma modules_well_formed: "list_all well_formed wired_order"
proof -
  have "list_all well_formed (map (\<lambda>(x, c). Singleton (class_key c) c) own_exports)"
    by (auto simp: list_all_iff)
  then show ?thesis
    using exports_bound[of concrete_exports "[''logger'', ''logger_factory'', ''event_bus'', ''health_tracker'', ''registry'']"]
    by (simp add: wired_order_def module_defs well_bound_awaits)
qed

lemma modules_layered: "layered [] wired_order"
  by (rule layered_by_codes[OF _ modules_well_formed]) (simp add: shape_def wired_order_def module_defs own_exports_def exports_eval)

lemmas wired_distinct = layered_distinct[OF modules_layered, THEN conjunct1]

lemma modules_apart: "apart ira_modules"
proof -
  have "distinct (map key wired_order)" by (rule wired_distinct)
  then show ?thesis
    by (simp add: apart_def ira_modules_def wired_order_def android_module_def Int_Un_distrib Int_Un_distrib2
        inf_commute image_Un image_image case_prod_unfold own_exports_keys)
qed

text \<open>The registry after the modules were installed, in any order and any number of times.\<close>

definition installed :: "registration list list \<Rightarrow> wobj container" where
  "installed ms = snd (install_all ms new_container)"

lemma installed_registry:
  assumes "set ms = set ira_modules"
  shows "map_of (c_registry (installed ms)) = offered ira_modules" and "\<not> c_is_shutdown (installed ms)"
proof -
  from install_all_eq[OF modules_apart, of ms new_container] assms obtain reg where
    "install_all ms new_container = (Inr (), new_container\<lparr>c_registry := reg\<rparr>)"
    "\<And>i. map_of reg i = (if \<exists>m \<in> set ms. i \<in> key ` set m then offered ira_modules i else None)"
    by (auto simp: new_container_def)
  moreover have "offered ira_modules i = None" if "\<not> (\<exists>m \<in> set ms. i \<in> key ` set m)" for i
    using that assms offers_dom[of "concat ira_modules" i] by (auto simp: offered_def)
  ultimately show "map_of (c_registry (installed ms)) = offered ira_modules" "\<not> c_is_shutdown (installed ms)"
    by (auto simp: installed_def new_container_def fun_eq_iff)
qed

lemma wired_registered:
  assumes "set ms = set ira_modules" and "r \<in> set wired_order"
  shows "map_of (c_registry (installed ms)) (key r) = Some (described r)"
  using offers_elem[of r "concat ira_modules"] wired_distinct assms(2)
  by (simp add: installed_registry(1)[OF assms(1)] offered_def wired_order_set distinct_map)

lemma wired_length:
  assumes "set ms = set ira_modules"
  shows "length wired_order \<le> length (c_registry (installed ms))"
proof -
  let ?reg = "c_registry (installed ms)"
  have "length wired_order = card (key ` set wired_order)"
    using distinct_card[OF wired_distinct] by simp
  also have "key ` set wired_order \<subseteq> set (map fst ?reg)"
    using wired_registered[OF assms] by (force dest: map_of_SomeD)
  then have "card (key ` set wired_order) \<le> card (set (map fst ?reg))" by (intro card_mono) simp_all
  also have "\<dots> \<le> length ?reg" using card_length[of "map fst ?reg"] by simp
  finally show ?thesis .
qed

lemma wired_serves:
  assumes "set ms = set ira_modules" and "length (c_registry (installed ms)) \<le> n"
  shows "serves (c_registry (installed ms)) (resolve_within n (c_registry (installed ms))) (key ` set wired_order)"
proof -
  have "list_all (registered_in (c_registry (installed ms))) wired_order"
    using wired_registered[OF assms(1)] by (simp add: list_all_iff registered_in_def)
  from layered_serves[OF modules_layered this, of 0 n] wired_length[OF assms(1)] assms(2)
  show ?thesis by (simp add: serves_def)
qed

lemma wired_has:
  assumes "set ms = set ira_modules"
  shows "container_has i (installed ms) \<longleftrightarrow> i \<in> key ` set wired_order"
  using offers_dom[of "concat ira_modules" i]
  by (simp add: container_has_def installed_registry(1)[OF assms] offered_def wired_order_set)

lemma ask_wired:
  assumes "set ms = set ira_modules" and "length (c_registry (installed ms)) \<le> n"
    and "container_has i (installed ms)" and "ws_held st = []"
  shows "\<exists>v st'. ask n (installed ms) i st = Some (Inr v, st') \<and>
    kept (c_registry (installed ms)) (key ` set wired_order) st st'"
  using serves_callback[OF wired_serves[OF assms(1,2)], of i st] assms(3,4)
  by (simp add: ask_def wired_has[OF assms(1)] installed_registry(2)[OF assms(1)])

text \<open>
  C4. The modules wire a complete system: installed in any order into a container that has the
  instances of the host, every interface any of them registers resolves to an object - no
  registration is missing, no resolution runs into itself, none waits for a lock it holds - whatever
  was resolved before.
\<close>

theorem every_service_resolves:
  assumes "set ms = set ira_modules" and "container_has i (installed ms)"
    and "length (c_registry (installed ms)) \<le> n" and "ws_held st = []"
  shows "\<exists>v st'. ask n (installed ms) i st = Some (Inr v, st')"
  using ask_wired[OF assms(1,3,2,4)] by blast

theorem every_service_resolves_witness:
  "\<exists>v st'. ask (length (c_registry (installed (rev ira_modules)))) (installed (rev ira_modules))
     ''BrainManager'' fresh_wiring = Some (Inr v, st')"
proof -
  have "''BrainManager'' \<in> key ` set wired_order"
    by (simp add: wired_order_def brain_module_def)
  then have "container_has ''BrainManager'' (installed (rev ira_modules))" by (simp add: wired_has)
  from every_service_resolves[OF _ this] show ?thesis by (simp add: fresh_wiring_def)
qed

lemma ask_all_wired:
  assumes "set ms = set ira_modules" and "length (c_registry (installed ms)) \<le> n" and "ws_held st = []"
  shows "\<exists>st'. ask_all n (installed ms) is st = Some st' \<and>
    kept (c_registry (installed ms)) (key ` set wired_order) st st'"
  using assms(3)
proof (induction "is" arbitrary: st)
  case (Cons i "is")
  let ?c = "installed ms"
  have n: "0 < n" using wired_length[OF assms(1)] assms(2) by (simp add: wired_order_def host_instances_def)
  have "\<exists>r st1. ask n ?c i st = Some (r, st1) \<and> kept (c_registry ?c) (key ` set wired_order) st st1"
  proof (cases "container_has i ?c")
    case True
    from ask_wired[OF assms(1,2) True Cons.prems] show ?thesis by blast
  next
    case False
    from ask_unknown[OF False installed_registry(2)[OF assms(1)] n] show ?thesis by blast
  qed
  then obtain r st1 where a: "ask n ?c i st = Some (r, st1)" "kept (c_registry ?c) (key ` set wired_order) st st1"
    by blast
  then have "ws_held st1 = []" using Cons.prems by (simp add: kept_def)
  from Cons.IH[OF this] a show ?case by (auto intro: kept_trans)
qed simp

text \<open>The interfaces whose factories the container calls anew for every resolution.\<close>

definition unshared_services :: "iface list" where
  "unshared_services = [''AuthenticationManager'', ''AuthorizationManager'', ''IdentityManager'']"

definition lifetime_known :: "registration \<Rightarrow> bool" where
  "lifetime_known r = (if key r \<in> set unshared_services then makes_anew r
     else d_lifetime (described r) = singleton)"

lemma lifetimes_known: "list_all lifetime_known wired_order"
proof -
  have "list_all lifetime_known (map (\<lambda>(x, c). Singleton (class_key c) c) own_exports)"
    by (simp add: own_exports_def exports_eval lifetime_known_def unshared_services_def)
  then show ?thesis
    by (simp add: wired_order_def module_defs lifetime_known_def unshared_services_def identity_lifetime_def)
qed

lemma ask_again:
  assumes "set ms = set ira_modules" and "length (c_registry (installed ms)) \<le> n"
    and "ask n (installed ms) i st = Some (Inr v, st1)"
    and "kept (c_registry (installed ms)) S st1 st2"
    and "ask n (installed ms) i st2 = Some (Inr v', st3)"
  shows "v' = v \<longleftrightarrow> i \<notin> set unshared_services"
proof -
  let ?reg = "c_registry (installed ms)" and ?clear = "\<lambda>st. st\<lparr>ws_cache := (ws_cache st)\<lparr>scoped := []\<rparr>\<rparr>"
  note up = installed_registry(2)[OF assms(1)]
  from assms(3) obtain t1 where
    1: "resolve_within n ?reg i [] (?clear st) = Some (Inr v, t1)" "singles (ws_cache st1) = singles (ws_cache t1)"
    "ws_made st1 = ws_made t1" by (auto simp: ask_def up dest: call_back_inner)
  from assms(5) obtain t2 where
    2: "resolve_within n ?reg i [] (?clear st2) = Some (Inr v', t2)"
    by (auto simp: ask_def up dest: call_back_inner)
  have n: "0 < n" using 1(1) by (cases n) auto
  have "container_has i (installed ms)"
    using 1(1) by (cases n) (auto simp: container_has_def split: option.splits)
  then obtain r where r: "r \<in> set wired_order" "i = key r" by (auto simp: wired_has[OF assms(1)])
  note reg = wired_registered[OF assms(1) r(1)]
  have known: "lifetime_known r" using lifetimes_known r(1) by (simp add: list_all_iff)
  show ?thesis
  proof (cases "i \<in> set unshared_services")
    case True
    with known r(2) have anew: "makes_anew r" by (simp add: lifetime_known_def)
    from made_anew[OF anew _ 1(1)[unfolded r(2)]] made_anew[OF anew _ 2[unfolded r(2)]] reg
    obtain k k' c c' kw kw' where "v = Made k c kw" "k < ws_made t1" "v' = Made k' c' kw'" "ws_made st2 \<le> k'"
      by (auto simp: registered_in_def)
    with 1(3) assms(4) True show ?thesis by (auto simp: kept_def)
  next
    case False
    with known r(2) have single: "d_lifetime (described r) = Lifetime SINGLETON" by (simp add: lifetime_known_def)
    have "v' = v"
    proof (cases "d_instance (described r)")
      case None
      from resolved_stored[OF reg single None] 1(1) r(2) have "map_of (singles (ws_cache st1)) i = Some v"
        by (simp add: 1(2))
      with assms(4) have "map_of (singles (ws_cache (?clear st2))) i = Some v" by (simp add: kept_def)
      with stored_found[OF reg single _ n, of "?clear st2" v "[]"] 2 r(2) show ?thesis by simp
    next
      case (Some w)
      have "is_instance ?reg i" using reg Some r(2) by (simp add: is_instance_def)
      with assms(4) have "map_of (singles (ws_cache st2)) i = map_of (singles (ws_cache st1)) i"
        by (simp add: kept_def)
      with instance_found[OF reg single Some n, of "[]"] 1 2 r(2) show ?thesis by auto
    qed
    with False show ?thesis by simp
  qed
qed

text \<open>
  C25. What is shared: when an interface is resolved, then any others in any number, then the same
  interface again, the second resolution returns the same object for every interface the modules
  register - except the three managers of the identity module, of which each resolution makes
  another one.
\<close>

theorem services_shared:
  assumes "set ms = set ira_modules" and "container_has i (installed ms)"
    and "length (c_registry (installed ms)) \<le> n" and "ws_held st = []"
  shows "\<exists>v st1 st2 v' st3. ask n (installed ms) i st = Some (Inr v, st1) \<and>
    ask_all n (installed ms) is st1 = Some st2 \<and> ask n (installed ms) i st2 = Some (Inr v', st3) \<and>
    (v' = v \<longleftrightarrow> i \<notin> set unshared_services)"
proof -
  from ask_wired[OF assms(1,3,2,4)] obtain v st1 where
    1: "ask n (installed ms) i st = Some (Inr v, st1)" "ws_held st1 = []" using assms(4) by (auto simp: kept_def)
  from ask_all_wired[OF assms(1,3) 1(2)] obtain st2 where
    2: "ask_all n (installed ms) is st1 = Some st2" "kept (c_registry (installed ms)) (key ` set wired_order) st1 st2"
    by blast
  then have "ws_held st2 = []" using 1(2) by (simp add: kept_def)
  from ask_wired[OF assms(1,3,2) this] obtain v' st3 where "ask n (installed ms) i st2 = Some (Inr v', st3)"
    by blast
  with 1 2 ask_again[OF assms(1,3) 1(1) 2(2)] show ?thesis by blast
qed

theorem services_shared_witness:
  "\<exists>n v st1 st2 v' st3. ask n (installed ira_modules) ''IdentityManager'' fresh_wiring = Some (Inr v, st1) \<and>
    ask_all n (installed ira_modules) [''BrainManager''] st1 = Some st2 \<and>
    ask n (installed ira_modules) ''IdentityManager'' st2 = Some (Inr v', st3) \<and> v' \<noteq> v"
proof -
  have "''IdentityManager'' \<in> key ` set wired_order"
    by (simp add: wired_order_def identity_module_def)
  then have "container_has ''IdentityManager'' (installed ira_modules)" by (simp add: wired_has)
  from services_shared[OF refl this order_refl, of fresh_wiring "[''BrainManager'']"] show ?thesis
    by (simp only: fresh_wiring_def unshared_services_def wstate.simps) (simp, blast)
qed

section \<open>The container of the bootstrapper\<close>

text \<open>
  \<open>Bootstrap.build\<close> registers the loggers and the event bus, but neither the container itself nor the
  configuration: in such a container the factories of the identity module fail on their parameter.
\<close>

definition bootstrap_instances :: "registration list" where
  "bootstrap_instances = logging_module @ [Instance ''EventBus'' (Given ''EventBus'')]"

fun takes_container :: "registration \<Rightarrow> bool" where
  "takes_container (Factory i (Closure f ps steps res) lt) = (ps = container_param \<and> lt = identity_lifetime)"
| "takes_container r = False"

lemma offers_none: "i \<notin> key ` set rs \<Longrightarrow> offers rs i = None"
  using offers_dom[of rs i] by blast

lemma identity_needs_container:
  assumes "i \<in> set unshared_services" and "1 < n"
  shows "\<exists>e st'. ask n (snd (install (bootstrap_instances @ identity_module) new_container)) i st = Some (Inl e, st') \<and>
    exn_cls e = InContainer ResolutionError"
proof -
  let ?rs = "bootstrap_instances @ identity_module"
  from install_eq[of ?rs new_container] obtain reg where
    r: "install ?rs new_container = (Inr (), new_container\<lparr>c_registry := reg\<rparr>)"
    "\<forall>i. map_of reg i = (case offers ?rs i of Some d \<Rightarrow> Some d | None \<Rightarrow> map_of (c_registry new_container) i)"
    by blast
  have "c_registry (new_container :: wobj container) = []" by (simp add: new_container_def)
  with r(2) have reg: "map_of reg i = offers ?rs i" for i by (cases "offers ?rs i") simp_all
  have c: "snd (install ?rs new_container) = new_container\<lparr>c_registry := reg\<rparr>" by (simp only: r(1) snd_conv)
  obtain m where n: "n = Suc (Suc m)" using assms(2) less_iff_Suc_add[of 1 n] by auto
  have none: "map_of reg ''ContainerProtocol'' = None"
    by (simp add: reg offers_none bootstrap_instances_def logging_module_def identity_module_def)
  have known: "distinct (map key ?rs)" "list_all (\<lambda>r. key r \<in> set unshared_services \<longrightarrow> takes_container r) ?rs"
    "set unshared_services \<subseteq> key ` set ?rs"
    by (simp_all add: bootstrap_instances_def logging_module_def identity_module_def unshared_services_def)
  from known(3) assms(1) obtain r where r': "r \<in> set ?rs" "i = key r" by blast
  with known(2) assms(1) have "takes_container r" by (simp add: list_all_iff)
  then obtain f steps res where f: "r = Factory i (Closure f container_param steps res) identity_lifetime"
    using r'(2) by (auto elim: takes_container.elims)
  have "offers ?rs (key r) = Some (described r)"
    by (rule offers_elem[OF r'(1)]) (use known(1) in \<open>simp only: distinct_map\<close>)
  then have "map_of reg i = Some (described r)" by (simp only: reg r'(2))
  with f have d: "map_of reg i = Some (described (Factory i (Closure f container_param steps res) identity_lifetime))"
    by (simp only:)
  from assms(1) have "i \<noteq> ''ContainerProtocol''" by (auto simp: unshared_services_def)
  with d none show ?thesis unfolding c
    by (simp add: new_container_def ask_def call_back_def n identity_lifetime_def cached_def build_with_def
        d_target_def container_param_def annotated_def keep_built_def)
qed

end
