(* ===== verification/Concurrency.thy ===== *)
theory Concurrency
  imports Modules "HOL-Library.Multiset_Order" "HOL-Library.Product_Lexorder"
begin

text \<open>
  Several tasks resolving at once (core/container/resolver.py). A resolution suspends where it waits
  for a singleton's lock and where a factory or constructor it awaits suspends; the step relation lets
  the tasks change over between any two steps of a resolution, which includes those. A task is the
  stack of its nested resolutions, and a nested one is of a parameter of a target or of an interface a
  factory body resolves. Objects are numbered. Chains are not modelled: the registries considered are
  layered, as those of the modules are (theory Modules), so no chain closes.
\<close>

section \<open>What is resolved how\<close>

datatype sharing = Shared | Anew | Prebuilt

fun sharing_of :: "registration \<Rightarrow> sharing" where
  "sharing_of (Instance i v) = Prebuilt"
| "sharing_of (Singleton i c) = Shared"
| "sharing_of (Factory i f lt) = (if lt = singleton then Shared else Anew)"

type_synonym table = "iface \<Rightarrow> (sharing \<times> iface list) option"

fun table_of :: "registration list \<Rightarrow> table" where
  "table_of [] i = None"
| "table_of (r # rs) i = (if key r = i then Some (sharing_of r, needs r) else table_of rs i)"

section \<open>Tasks and their steps\<close>

text \<open>
  A frame resolves an interface: it is about to look at the cache, about to ask for the lock, or
  building, with the interfaces its target still has to resolve.
\<close>

datatype frame = Enter iface | Acquire iface | Building iface "iface list"

fun about :: "frame \<Rightarrow> iface" where
  "about (Enter i) = i"
| "about (Acquire i) = i"
| "about (Building i js) = i"

record tasks =
  tk_stack :: "nat \<Rightarrow> frame list"
  tk_owner :: "iface \<Rightarrow> nat option"
  tk_stored :: "iface \<Rightarrow> nat option"
  tk_made :: nat
  tk_returned :: "(nat \<times> iface \<times> nat) list"

definition continue_with :: "nat \<Rightarrow> frame list \<Rightarrow> tasks \<Rightarrow> tasks" where
  "continue_with t fs s = s\<lparr>tk_stack := (tk_stack s)(t := fs)\<rparr>"

definition returns :: "nat \<Rightarrow> iface \<Rightarrow> nat \<Rightarrow> frame list \<Rightarrow> tasks \<Rightarrow> tasks" where
  "returns t i v fs s = (continue_with t fs s)\<lparr>tk_returned := (t, i, v) # tk_returned s\<rparr>"

text \<open>
  The steps of task \<open>t\<close>, in the order of \<open>Resolver.resolve\<close>: the cache, an instance, the lock with the
  second look at the cache, the arguments one by one, the call of the target, which stores the
  singleton and releases the lock - or raises, and the exception leaves all resolutions of the task
  and releases their locks.
\<close>

inductive task_step :: "table \<Rightarrow> tasks \<Rightarrow> tasks \<Rightarrow> bool" for T where
  hit: "tk_stack s t = Enter i # fs \<Longrightarrow> T i = Some (Shared, js) \<Longrightarrow> tk_stored s i = Some v \<Longrightarrow>
     task_step T s (returns t i v fs s)"
| miss: "tk_stack s t = Enter i # fs \<Longrightarrow> T i = Some (Shared, js) \<Longrightarrow> tk_stored s i = None \<Longrightarrow>
     task_step T s (continue_with t (Acquire i # fs) s)"
| ready: "tk_stack s t = Enter i # fs \<Longrightarrow> T i = Some (Prebuilt, js) \<Longrightarrow>
     task_step T s (continue_with t fs s)"
| anew: "tk_stack s t = Enter i # fs \<Longrightarrow> T i = Some (Anew, js) \<Longrightarrow>
     task_step T s (continue_with t (Building i js # fs) s)"
| hit_locked: "tk_stack s t = Acquire i # fs \<Longrightarrow> tk_owner s i = None \<Longrightarrow> tk_stored s i = Some v \<Longrightarrow>
     task_step T s (returns t i v fs s)"
| locked: "tk_stack s t = Acquire i # fs \<Longrightarrow> T i = Some (Shared, js) \<Longrightarrow> tk_owner s i = None \<Longrightarrow>
     tk_stored s i = None \<Longrightarrow>
     task_step T s ((continue_with t (Building i js # fs) s)\<lparr>tk_owner := (tk_owner s)(i := Some t)\<rparr>)"
| argument: "tk_stack s t = Building i (j # js) # fs \<Longrightarrow>
     task_step T s (continue_with t (Enter j # Building i js # fs) s)"
| stored: "tk_stack s t = Building i [] # fs \<Longrightarrow> T i = Some (Shared, js) \<Longrightarrow>
     task_step T s ((returns t i (tk_made s) fs s)\<lparr>tk_made := Suc (tk_made s),
       tk_stored := (tk_stored s)(i := Some (tk_made s)), tk_owner := (tk_owner s)(i := None)\<rparr>)"
| made: "tk_stack s t = Building i [] # fs \<Longrightarrow> T i = Some (Anew, js) \<Longrightarrow>
     task_step T s ((returns t i (tk_made s) fs s)\<lparr>tk_made := Suc (tk_made s)\<rparr>)"
| raised: "tk_stack s t = Building i [] # fs \<Longrightarrow>
     task_step T s ((continue_with t [] s)\<lparr>tk_owner := (\<lambda>j. if tk_owner s j = Some t then None else tk_owner s j)\<rparr>)"

definition idle :: tasks where
  "idle = \<lparr>tk_stack = (\<lambda>t. []), tk_owner = (\<lambda>i. None), tk_stored = (\<lambda>i. None), tk_made = 0, tk_returned = []\<rparr>"

text \<open>At any time one of the \<open>n\<close> tasks that has nothing to do may resolve another interface.\<close>

inductive reachable_tasks :: "table \<Rightarrow> nat \<Rightarrow> tasks \<Rightarrow> bool" for T n where
  at_first: "reachable_tasks T n idle"
| request: "reachable_tasks T n s \<Longrightarrow> t < n \<Longrightarrow> tk_stack s t = [] \<Longrightarrow> T i \<noteq> None \<Longrightarrow>
     reachable_tasks T n (continue_with t [Enter i] s)"
| goes_on: "reachable_tasks T n s \<Longrightarrow> task_step T s s' \<Longrightarrow> reachable_tasks T n s'"

section \<open>Layers\<close>

definition ranked :: "table \<Rightarrow> (iface \<Rightarrow> nat) \<Rightarrow> bool" where
  "ranked T rank \<longleftrightarrow> (\<forall>i k js. T i = Some (k, js) \<longrightarrow> (\<forall>j \<in> set js. T j \<noteq> None \<and> rank j < rank i))"

lemma table_dom: "table_of rs i \<noteq> None \<longleftrightarrow> i \<in> key ` set rs"
  by (induction rs) auto

lemma layered_ranked:
  assumes "layered [] rs"
  shows "\<exists>rank. ranked (table_of rs) rank"
proof -
  have "\<exists>rank. \<forall>i k js. table_of rs i = Some (k, js) \<longrightarrow>
      (\<forall>j \<in> set js. j \<in> set seen \<or> (table_of rs j \<noteq> None \<and> rank j < rank i)) \<and> 0 < (rank i :: nat)"
    if "layered seen rs" for seen
    using that
  proof (induction rs arbitrary: seen)
    case (Cons r rs)
    then obtain rank where rank: "\<And>i k js. table_of rs i = Some (k, js) \<Longrightarrow>
        (\<forall>j \<in> set js. j \<in> set (key r # seen) \<or> (table_of rs j \<noteq> None \<and> rank j < rank i)) \<and> 0 < (rank i :: nat)"
      by (meson layered.simps(2))
    have out: "table_of rs (key r) = None"
      using table_dom[of rs "key r"] layered_distinct[OF Cons.prems] by auto
    have needs: "set (needs r) \<subseteq> set seen" using Cons.prems by simp
    define rank' where "rank' i = (if i = key r then 1 else Suc (rank i))" for i
    have "(\<forall>j \<in> set js. j \<in> set seen \<or> (table_of (r # rs) j \<noteq> None \<and> rank' j < rank' i)) \<and> 0 < rank' i"
      if i: "table_of (r # rs) i = Some (k, js)" for i k js
    proof (cases "key r = i")
      case True
      with i needs show ?thesis by (auto simp: rank'_def)
    next
      case False
      with i have "table_of rs i = Some (k, js)" by simp
      from rank[OF this] out False show ?thesis by (auto simp: rank'_def)
    qed
    then show ?case by blast
  qed simp
  from this[OF assms] obtain rank where r: "\<And>i k js. table_of rs i = Some (k, js) \<Longrightarrow>
      (\<forall>j \<in> set js. j \<in> set [] \<or> (table_of rs j \<noteq> None \<and> rank j < rank i)) \<and> 0 < (rank i :: nat)" by blast
  have "ranked (table_of rs) rank"
    unfolding ranked_def
  proof (intro allI impI ballI)
    fix i k js j
    assume "table_of rs i = Some (k, js)" "j \<in> set js"
    with r[of i k js] show "table_of rs j \<noteq> None \<and> rank j < rank i" by simp
  qed
  then show ?thesis by blast
qed

section \<open>The invariant\<close>

fun frame_ok :: "table \<Rightarrow> frame \<Rightarrow> bool" where
  "frame_ok T (Enter i) = (T i \<noteq> None)"
| "frame_ok T (Acquire i) = (\<exists>js. T i = Some (Shared, js))"
| "frame_ok T (Building i js) = (\<exists>k ks. T i = Some (k, ks) \<and> k \<noteq> Prebuilt \<and> set js \<subseteq> set ks)"

definition builds :: "frame list \<Rightarrow> iface \<Rightarrow> bool" where
  "builds fs i \<longleftrightarrow> (\<exists>js. Building i js \<in> set fs)"

definition shared :: "table \<Rightarrow> iface \<Rightarrow> bool" where
  "shared T i \<longleftrightarrow> (\<exists>js. T i = Some (Shared, js))"

definition stack_ok :: "table \<Rightarrow> (iface \<Rightarrow> nat) \<Rightarrow> frame list \<Rightarrow> bool" where
  "stack_ok T rank fs \<longleftrightarrow> sorted_wrt (\<lambda>f g. rank (about f) < rank (about g)) fs \<and> list_all (frame_ok T) fs \<and>
     list_all (\<lambda>f. builds [f] (about f)) (tl fs)"

definition fields_ok :: "table \<Rightarrow> (iface \<Rightarrow> nat) \<Rightarrow> (nat \<Rightarrow> frame list) \<Rightarrow> (iface \<Rightarrow> nat option) \<Rightarrow>
    (iface \<Rightarrow> nat option) \<Rightarrow> (nat \<times> iface \<times> nat) list \<Rightarrow> bool" where
  "fields_ok T rank stacks owner store rets \<longleftrightarrow> (\<forall>t. stack_ok T rank (stacks t)) \<and>
     (\<forall>i t. owner i = Some t \<longleftrightarrow> shared T i \<and> builds (stacks t) i) \<and>
     (\<forall>i t. owner i = Some t \<longrightarrow> store i = None) \<and>
     (\<forall>t i v. (t, i, v) \<in> set rets \<longrightarrow> shared T i \<longrightarrow> store i = Some v)"

definition tasks_ok :: "table \<Rightarrow> (iface \<Rightarrow> nat) \<Rightarrow> tasks \<Rightarrow> bool" where
  "tasks_ok T rank s = fields_ok T rank (tk_stack s) (tk_owner s) (tk_stored s) (tk_returned s)"

lemma builds_simps [simp]:
  "builds [] i = False"
  "builds (Enter j # fs) i = builds fs i"
  "builds (Acquire j # fs) i = builds fs i"
  "builds (Building j js # fs) i = (i = j \<or> builds fs i)"
  by (auto simp: builds_def)

lemma builds_rank:
  "stack_ok T rank (f # fs) \<Longrightarrow> builds fs i \<Longrightarrow> rank (about f) < rank i"
  by (fastforce simp: stack_ok_def builds_def)

lemma stack_pop [simp]: "stack_ok T rank (f # fs) \<Longrightarrow> stack_ok T rank fs"
  by (cases fs) (auto simp: stack_ok_def)

lemma stack_top:
  "stack_ok T rank (f # fs) \<Longrightarrow> about g = about f \<Longrightarrow> frame_ok T g \<Longrightarrow> stack_ok T rank (g # fs)"
  by (auto simp: stack_ok_def)

lemma stack_push:
  "ranked T rank \<Longrightarrow> stack_ok T rank (Building i (j # js) # fs) \<Longrightarrow> stack_ok T rank (Enter j # Building i js # fs)"
  by (auto simp: stack_ok_def ranked_def builds_def) (meson less_trans subset_eq)+

lemma stack_frame: "stack_ok T rank (f # fs) \<Longrightarrow> frame_ok T f"
  by (simp add: stack_ok_def)

lemma shared_eq: "T i = Some (Shared, js) \<Longrightarrow> shared T i" "T i = Some (Anew, js) \<Longrightarrow> \<not> shared T i"
  by (auto simp: shared_def)

lemma fields_okI:
  assumes "\<And>t. stack_ok T rank (stacks t)"
    and "\<And>i t. owner i = Some t \<longleftrightarrow> shared T i \<and> builds (stacks t) i"
    and "\<And>i t. owner i = Some t \<Longrightarrow> store i = None"
    and "\<And>t i v. (t, i, v) \<in> set rets \<Longrightarrow> shared T i \<Longrightarrow> store i = Some v"
  shows "fields_ok T rank stacks owner store rets"
  unfolding fields_ok_def using assms by blast

lemma fields_okD:
  assumes "fields_ok T rank stacks owner store rets"
  shows "stack_ok T rank (stacks t)"
    and "owner i = Some t \<longleftrightarrow> shared T i \<and> builds (stacks t) i"
    and "owner i = Some t \<Longrightarrow> store i = None"
    and "(t, i, v) \<in> set rets \<Longrightarrow> shared T i \<Longrightarrow> store i = Some v"
  using assms unfolding fields_ok_def by blast+

lemma tasks_okD:
  assumes "tasks_ok T rank s"
  shows "stack_ok T rank (tk_stack s t)"
    and "tk_owner s i = Some t \<longleftrightarrow> shared T i \<and> builds (tk_stack s t) i"
    and "tk_owner s i = Some t \<Longrightarrow> tk_stored s i = None"
    and "(t, i, v) \<in> set (tk_returned s) \<Longrightarrow> shared T i \<Longrightarrow> tk_stored s i = Some v"
  using fields_okD[OF assms[unfolded tasks_ok_def]] by blast+

lemmas fields_simps = tasks_ok_def returns_def continue_with_def

text \<open>A step that changes the stack of one task, but nothing it builds under a lock.\<close>

lemma tasks_ok_continue:
  assumes "tasks_ok T rank s" and fs: "stack_ok T rank fs"
    and same: "\<And>j. shared T j \<Longrightarrow> builds fs j = builds (tk_stack s t) j"
  shows "tasks_ok T rank (continue_with t fs s)"
proof -
  note D = tasks_okD[OF assms(1)]
  have a: "stack_ok T rank (((tk_stack s)(t := fs)) u)" for u using D(1)[of u] fs by simp
  have b: "tk_owner s i = Some u \<longleftrightarrow> shared T i \<and> builds (((tk_stack s)(t := fs)) u) i" for i u
    using D(2)[of i u] same[of i] by auto
  have "fields_ok T rank ((tk_stack s)(t := fs)) (tk_owner s) (tk_stored s) (tk_returned s)"
    by (rule fields_okI) (fact a b D(3) D(4))+
  then show ?thesis by (simp add: fields_simps)
qed

lemma tasks_ok_returns:
  assumes "tasks_ok T rank (continue_with t fs s)" and v: "shared T i \<Longrightarrow> tk_stored s i = Some v"
  shows "tasks_ok T rank (returns t i v fs s)"
proof -
  have "fields_ok T rank ((tk_stack s)(t := fs)) (tk_owner s) (tk_stored s) (tk_returned s)"
    using assms(1) by (simp add: fields_simps)
  note D = fields_okD[OF this]
  have d: "(u, j, w) \<in> set ((t, i, v) # tk_returned s) \<Longrightarrow> shared T j \<Longrightarrow> tk_stored s j = Some w" for u j w
    using D(4)[of u j w] v by auto
  have "fields_ok T rank ((tk_stack s)(t := fs)) (tk_owner s) (tk_stored s) ((t, i, v) # tk_returned s)"
    by (rule fields_okI) (fact D(1,2,3) d)+
  then show ?thesis by (simp add: fields_simps)
qed

lemma tasks_ok_made: "tasks_ok T rank (s\<lparr>tk_made := n\<rparr>) = tasks_ok T rank s"
  by (simp add: tasks_ok_def)

lemma not_locked_not_built:
  "tasks_ok T rank s \<Longrightarrow> tk_owner s i = None \<Longrightarrow> shared T i \<Longrightarrow> \<not> builds (tk_stack s t) i"
  using tasks_okD(2)[of T rank s i t] by auto

lemma tasks_ok_locked:
  assumes ok: "tasks_ok T rank s" and top: "tk_stack s t = Acquire i # fs" and i: "T i = Some (Shared, js)"
    and free: "tk_owner s i = None" "tk_stored s i = None"
  shows "tasks_ok T rank ((continue_with t (Building i js # fs) s)\<lparr>tk_owner := (tk_owner s)(i := Some t)\<rparr>)"
proof -
  note D = tasks_okD[OF ok] and i' = shared_eq(1)[of T, OF i]
  have "stack_ok T rank (Building i js # fs)"
    using stack_top[of T rank "Acquire i" fs "Building i js"] D(1)[of t] top i by simp
  then have a: "stack_ok T rank (((tk_stack s)(t := Building i js # fs)) u)" for u using D(1)[of u] by simp
  have b: "((tk_owner s)(i := Some t)) j = Some u \<longleftrightarrow>
      shared T j \<and> builds (((tk_stack s)(t := Building i js # fs)) u) j" for j u
    using D(2)[of j u] top i' not_locked_not_built[OF ok free(1) i', of u] by auto
  have c: "((tk_owner s)(i := Some t)) j = Some u \<Longrightarrow> tk_stored s j = None" for j u
    using D(3)[of j u] free(2) by (auto split: if_splits)
  have "fields_ok T rank ((tk_stack s)(t := Building i js # fs)) ((tk_owner s)(i := Some t)) (tk_stored s) (tk_returned s)"
    by (rule fields_okI) (fact a b c D(4))+
  then show ?thesis by (simp add: fields_simps)
qed

lemma tasks_ok_stored:
  assumes ok: "tasks_ok T rank s" and top: "tk_stack s t = Building i [] # fs" and i: "T i = Some (Shared, js)"
  shows "tasks_ok T rank ((returns t i v fs s)\<lparr>tk_made := n,
    tk_stored := (tk_stored s)(i := Some v), tk_owner := (tk_owner s)(i := None)\<rparr>)"
proof -
  note D = tasks_okD[OF ok] and i' = shared_eq(1)[of T, OF i]
  have st: "stack_ok T rank (Building i [] # fs)" using D(1)[of t] top by simp
  have own: "tk_owner s i = Some t" using D(2)[of i t] top i' by simp
  then have none: "tk_stored s i = None" by (rule D(3))
  have not: "\<not> builds fs i" using builds_rank[OF st, of i] by auto
  have a: "stack_ok T rank (((tk_stack s)(t := fs)) u)" for u using st D(1)[of u] by simp
  have b: "((tk_owner s)(i := None)) j = Some u \<longleftrightarrow> shared T j \<and> builds (((tk_stack s)(t := fs)) u) j" for j u
    using D(2)[of j u] D(2)[of i u] top own not i' by (auto split: if_splits)
  have c: "((tk_owner s)(i := None)) j = Some u \<Longrightarrow> ((tk_stored s)(i := Some v)) j = None" for j u
    using D(3)[of j u] by (auto split: if_splits)
  have d: "(u, j, w) \<in> set ((t, i, v) # tk_returned s) \<Longrightarrow> shared T j \<Longrightarrow> ((tk_stored s)(i := Some v)) j = Some w"
    for u j w using D(4)[of u j w] none by auto
  have "fields_ok T rank ((tk_stack s)(t := fs)) ((tk_owner s)(i := None)) ((tk_stored s)(i := Some v))
      ((t, i, v) # tk_returned s)"
    by (rule fields_okI) (fact a b c d)+
  then show ?thesis by (simp add: fields_simps)
qed

lemma tasks_ok_raised:
  assumes "tasks_ok T rank s"
  shows "tasks_ok T rank ((continue_with t [] s)\<lparr>tk_owner := (\<lambda>j. if tk_owner s j = Some t then None else tk_owner s j)\<rparr>)"
proof -
  note D = tasks_okD[OF assms]
  let ?own = "\<lambda>j. if tk_owner s j = Some t then None else tk_owner s j"
  have a: "stack_ok T rank (((tk_stack s)(t := [])) u)" for u using D(1)[of u] by (simp add: stack_ok_def)
  have b: "?own i = Some u \<longleftrightarrow> shared T i \<and> builds (((tk_stack s)(t := [])) u) i" for i u
    using D(2)[of i u] by auto
  have c: "?own i = Some u \<Longrightarrow> tk_stored s i = None" for i u using D(3)[of i u] by (simp split: if_splits)
  have "fields_ok T rank ((tk_stack s)(t := [])) ?own (tk_stored s) (tk_returned s)"
    by (rule fields_okI) (fact a b c D(4))+
  then show ?thesis by (simp add: fields_simps)
qed

lemma step_keeps_ok:
  assumes "ranked T rank" and "task_step T s s'" and ok: "tasks_ok T rank s"
  shows "tasks_ok T rank s'"
  using assms(2)
proof cases
  case (hit t i fs js v)
  with tasks_okD(1)[OF ok, of t] show ?thesis
    by (auto intro!: tasks_ok_returns tasks_ok_continue ok)
next
  case (miss t i fs js)
  then have "stack_ok T rank (Acquire i # fs)"
    using stack_top[of T rank "Enter i" fs "Acquire i"] tasks_okD(1)[OF ok, of t] by simp
  with miss show ?thesis by (auto intro!: tasks_ok_continue ok)
next
  case (ready t i fs js)
  with tasks_okD(1)[OF ok, of t] show ?thesis by (auto intro!: tasks_ok_continue ok)
next
  case (anew t i fs js)
  then have "stack_ok T rank (Building i js # fs)"
    using stack_top[of T rank "Enter i" fs "Building i js"] tasks_okD(1)[OF ok, of t] by simp
  with anew show ?thesis by (auto intro!: tasks_ok_continue ok simp: shared_def)
next
  case (hit_locked t i fs v)
  with tasks_okD(1)[OF ok, of t] show ?thesis by (auto intro!: tasks_ok_returns tasks_ok_continue ok)
next
  case (locked t i fs js)
  with tasks_ok_locked[OF ok] show ?thesis by simp
next
  case (argument t i j js fs)
  then have "stack_ok T rank (Enter j # Building i js # fs)"
    using stack_push[OF assms(1)] tasks_okD(1)[OF ok, of t] by simp
  with argument show ?thesis by (auto intro!: tasks_ok_continue ok)
next
  case (stored t i fs js)
  with tasks_ok_stored[OF ok] show ?thesis by simp
next
  case (made t i fs js)
  then have "\<not> shared T i" by (simp add: shared_eq)
  with made tasks_okD(1)[OF ok, of t] show ?thesis
    by (auto simp: tasks_ok_made intro!: tasks_ok_returns tasks_ok_continue ok)
next
  case (raised t i fs)
  with tasks_ok_raised[OF ok] show ?thesis by simp
qed

lemma reachable_ok:
  assumes "ranked T rank" and "reachable_tasks T n s"
  shows "tasks_ok T rank s \<and> (\<forall>t. n \<le> t \<longrightarrow> tk_stack s t = [])"
  using assms(2)
proof induction
  case at_first
  show ?case by (simp add: idle_def tasks_ok_def fields_ok_def stack_ok_def)
next
  case (request s t i)
  have "stack_ok T rank [Enter i]" using request.hyps by (simp add: stack_ok_def)
  with request tasks_ok_continue[of "T" rank s "[Enter i]" t] show ?case by (simp add: continue_with_def)
next
  case (goes_on s s')
  from goes_on(2) have "\<forall>t. tk_stack s t = [] \<longrightarrow> tk_stack s' t = []"
    by cases (auto simp: continue_with_def returns_def)
  with goes_on step_keeps_ok[OF assms(1) goes_on(2)] show ?case by simp
qed

text \<open>
  C26. One object for each singleton: however the resolutions of any number of tasks interleave, and
  whichever constructions raise, any two resolutions of an interface registered as a singleton that
  return, return the same object.
\<close>

theorem one_object_each:
  assumes "layered [] rs" and "reachable_tasks (table_of rs) n s"
    and "(t, i, v) \<in> set (tk_returned s)" and "(t', i, v') \<in> set (tk_returned s)"
    and "table_of rs i = Some (Shared, js)"
  shows "v = v'"
proof -
  obtain rank where "ranked (table_of rs) rank" using layered_ranked[OF assms(1)] by blast
  with assms(2) have "tasks_ok (table_of rs) rank s" using reachable_ok by blast
  from tasks_okD(4)[OF this] assms(3,4) shared_eq(1)[of "table_of rs", OF assms(5)]
  have "tk_stored s i = Some v" "tk_stored s i = Some v'" by blast+
  then show ?thesis by simp
qed

lemma table_elem:
  "r \<in> set rs \<Longrightarrow> distinct (map key rs) \<Longrightarrow> table_of rs (key r) = Some (sharing_of r, needs r)"
  by (induction rs) auto

theorem one_object_each_witness:
  "\<exists>s v. reachable_tasks (table_of wired_order) 2 s \<and> (0, ''Validator'', v) \<in> set (tk_returned s) \<and>
    (1, ''Validator'', v) \<in> set (tk_returned s)"
proof -
  let ?T = "table_of wired_order" and ?i = "''Validator''"
  let ?r = "Singleton ''Validator'' (Class ''RuntimeValidator'' [])"
  have "?r \<in> set wired_order" by (simp add: wired_order_def runtime_module_def)
  from table_elem[OF this wired_distinct] have T: "?T ?i = Some (Shared, [])" by simp
  let ?s1 = "continue_with 0 [Enter ?i] idle"
  let ?s2 = "continue_with 1 [Enter ?i] ?s1"
  let ?s3 = "continue_with 0 [Acquire ?i] ?s2" and ?s4 = "continue_with 1 [Acquire ?i]"
  have 2: "reachable_tasks ?T 2 ?s2"
    by (rule reachable_tasks.request[OF reachable_tasks.request[OF reachable_tasks.at_first]])
      (simp_all add: T idle_def continue_with_def)
  have 4: "reachable_tasks ?T 2 (?s4 ?s3)"
    by (rule goes_on[OF goes_on[OF 2 miss[where t = 0]] miss[where t = 1]])
      (simp_all add: T idle_def continue_with_def)
  let ?s5 = "(continue_with 0 [Building ?i []] (?s4 ?s3))\<lparr>tk_owner := (tk_owner (?s4 ?s3))(?i := Some 0)\<rparr>"
  have 5: "reachable_tasks ?T 2 ?s5"
    by (rule goes_on[OF 4 locked]) (simp_all add: T idle_def continue_with_def)
  let ?s6 = "(returns 0 ?i (tk_made ?s5) [] ?s5)\<lparr>tk_made := Suc (tk_made ?s5),
    tk_stored := (tk_stored ?s5)(?i := Some (tk_made ?s5)), tk_owner := (tk_owner ?s5)(?i := None)\<rparr>"
  have 6: "reachable_tasks ?T 2 ?s6"
    by (rule goes_on[OF 5 stored]) (simp_all add: T idle_def continue_with_def)
  let ?s7 = "returns 1 ?i (tk_made ?s5) [] ?s6"
  have 7: "reachable_tasks ?T 2 ?s7"
    by (rule goes_on[OF 6 hit_locked]) (simp_all add: T idle_def continue_with_def returns_def)
  obtain v v' where v: "(0, ?i, v) \<in> set (tk_returned ?s7)" "(1, ?i, v') \<in> set (tk_returned ?s7)"
    by (auto simp: returns_def continue_with_def)
  with one_object_each[OF modules_layered 7 v T] 7 show ?thesis by blast
qed

section \<open>No resolution waits for ever\<close>

lemma unblocked:
  assumes "tasks_ok T rank s" and "tk_stack s t = f # fs" and "\<And>i. f \<noteq> Acquire i"
  shows "\<exists>s'. task_step T s s'"
proof -
  have ok: "frame_ok T f" using stack_frame tasks_okD(1)[OF assms(1), of t] assms(2) by metis
  show ?thesis
  proof (cases f)
    case (Enter i)
    with ok obtain k js where T: "T i = Some (k, js)" by auto
    with Enter assms(2) show ?thesis
      by (cases k; cases "tk_stored s i") (blast intro: task_step.intros)+
  next
    case (Acquire i)
    with assms(3)[of i] show ?thesis by simp
  next
    case (Building i js)
    with ok obtain k ks where T: "T i = Some (k, ks)" "k \<noteq> Prebuilt" by auto
    with Building assms(2) show ?thesis
      by (cases js; cases k) (blast intro: task_step.intros)+
  qed
qed

text \<open>Whoever holds the lock that is waited for is building something below, or can go on.\<close>

lemma some_task_steps:
  assumes ok: "tasks_ok T rank s"
  shows "tk_stack s t = f # fs \<Longrightarrow> \<exists>s'. task_step T s s'"
proof (induction "rank (about f)" arbitrary: t f fs rule: less_induct)
  case less
  show ?case
  proof (cases "\<exists>i. f = Acquire i")
    case False
    with unblocked[OF ok less.prems] show ?thesis by blast
  next
    case True
    then obtain i where f: "f = Acquire i" by blast
    then obtain js where T: "T i = Some (Shared, js)"
      using stack_frame[of T rank f fs] tasks_okD(1)[OF ok, of t] less.prems by auto
    show ?thesis
    proof (cases "tk_owner s i")
      case None
      with f T less.prems show ?thesis by (cases "tk_stored s i") (blast intro: task_step.intros)+
    next
      case (Some u)
      then have b: "builds (tk_stack s u) i" using tasks_okD(2)[OF ok] by blast
      then obtain g gs where g: "tk_stack s u = g # gs" by (cases "tk_stack s u") auto
      show ?thesis
      proof (cases "\<exists>js. g = Building i js")
        case True
        with unblocked[OF ok g] show ?thesis by blast
      next
        case False
        with b g have "builds gs i" by (cases g) auto
        then have "rank (about g) < rank (about f)"
          using builds_rank[of T rank g gs i] tasks_okD(1)[OF ok, of u] g f by simp
        from less.hyps[OF this g] show ?thesis .
      qed
    qed
  qed
qed

text \<open>Every step makes the stacks smaller: a frame gives way to later stages and lower interfaces.\<close>

fun weight :: "(iface \<Rightarrow> nat) \<Rightarrow> frame \<Rightarrow> nat \<times> nat \<times> nat" where
  "weight rank (Enter i) = (rank i, 2, 0)"
| "weight rank (Acquire i) = (rank i, 1, 0)"
| "weight rank (Building i js) = (rank i, 0, length js)"

definition load :: "(iface \<Rightarrow> nat) \<Rightarrow> frame list \<Rightarrow> (nat \<times> nat \<times> nat) multiset" where
  "load rank fs = mset (map (weight rank) fs)"

lemma load_replace:
  assumes "\<And>g. g \<in> set gs \<Longrightarrow> weight rank g < weight rank f"
  shows "load rank (gs @ fs) < load rank (f # fs)"
proof -
  have "mset (map (weight rank) gs) < {#weight rank f#}"
    using assms by (intro ex_gt_imp_less_multiset) auto
  then show ?thesis by (simp add: load_def)
qed

lemma load_empty: "load rank [] < load rank (f # fs)"
  by (simp add: load_def)

text \<open>A step replaces the stack of one task by a lighter one.\<close>

lemma step_lighter:
  assumes "ranked T rank" and "tasks_ok T rank s" and "task_step T s s'"
  shows "\<exists>t fs. tk_stack s' = (tk_stack s)(t := fs) \<and> load rank fs < load rank (tk_stack s t)"
  using assms(3)
proof cases
  case (hit t i fs js v)
  with load_replace[of "[]" rank "Enter i" fs] show ?thesis
    by (intro exI[of _ t] exI[of _ fs]) (simp add: returns_def continue_with_def)
next
  case (miss t i fs js)
  with load_replace[of "[Acquire i]" rank "Enter i" fs] show ?thesis
    by (intro exI[of _ t] exI[of _ "Acquire i # fs"]) (simp add: continue_with_def less_prod_def')
next
  case (ready t i fs js)
  with load_replace[of "[]" rank "Enter i" fs] show ?thesis
    by (intro exI[of _ t] exI[of _ fs]) (simp add: continue_with_def)
next
  case (anew t i fs js)
  with load_replace[of "[Building i js]" rank "Enter i" fs] show ?thesis
    by (intro exI[of _ t] exI[of _ "Building i js # fs"]) (simp add: continue_with_def less_prod_def')
next
  case (hit_locked t i fs v)
  with load_replace[of "[]" rank "Acquire i" fs] show ?thesis
    by (intro exI[of _ t] exI[of _ fs]) (simp add: returns_def continue_with_def)
next
  case (locked t i fs js)
  with load_replace[of "[Building i js]" rank "Acquire i" fs] show ?thesis
    by (intro exI[of _ t] exI[of _ "Building i js # fs"]) (simp add: continue_with_def less_prod_def')
next
  case (argument t i j js fs)
  have "frame_ok T (Building i (j # js))"
    using stack_frame tasks_okD(1)[OF assms(2), of t] argument(2) by metis
  with assms(1) have "rank j < rank i" by (auto simp: ranked_def)
  then have "load rank ([Enter j, Building i js] @ fs) < load rank (Building i (j # js) # fs)"
    by (intro load_replace) (auto simp: less_prod_def')
  with argument show ?thesis
    by (intro exI[of _ t] exI[of _ "Enter j # Building i js # fs"]) (simp add: continue_with_def)
next
  case (stored t i fs js)
  with load_replace[of "[]" rank "Building i []" fs] show ?thesis
    by (intro exI[of _ t] exI[of _ fs]) (simp add: returns_def continue_with_def)
next
  case (made t i fs js)
  with load_replace[of "[]" rank "Building i []" fs] show ?thesis
    by (intro exI[of _ t] exI[of _ fs]) (simp add: returns_def continue_with_def)
next
  case (raised t i fs)
  with load_empty[of rank "Building i []" fs] show ?thesis
    by (intro exI[of _ t] exI[of _ "[]"]) (simp add: continue_with_def)
qed

definition total :: "(iface \<Rightarrow> nat) \<Rightarrow> nat \<Rightarrow> tasks \<Rightarrow> (nat \<times> nat \<times> nat) multiset" where
  "total rank n s = (\<Sum>t<n. load rank (tk_stack s t))"

lemma total_less:
  assumes "ranked T rank" and "tasks_ok T rank s" and "\<forall>t. n \<le> t \<longrightarrow> tk_stack s t = []" and "task_step T s s'"
  shows "total rank n s' < total rank n s"
proof -
  from step_lighter[OF assms(1,2,4)] obtain t fs where
    s': "tk_stack s' = (tk_stack s)(t := fs)" "load rank fs < load rank (tk_stack s t)" by blast
  have t: "t \<in> {..<n}"
  proof (rule ccontr)
    assume "t \<notin> {..<n}"
    with assms(3) have "tk_stack s t = []" by simp
    with s'(2) show False by (simp add: load_def)
  qed
  have "(\<Sum>u \<in> {..<n} - {t}. load rank (tk_stack s' u)) = (\<Sum>u \<in> {..<n} - {t}. load rank (tk_stack s u))"
    by (rule sum.cong) (simp_all add: s'(1))
  moreover have "total rank n x = load rank (tk_stack x t) + (\<Sum>u \<in> {..<n} - {t}. load rank (tk_stack x u))" for x
    unfolding total_def using t by (intro sum.remove) simp_all
  ultimately show ?thesis using s' by simp
qed

lemma steps_reachable: "rtranclp (task_step T) s s' \<Longrightarrow> reachable_tasks T n s \<Longrightarrow> reachable_tasks T n s'"
  by (induction rule: rtranclp_induct) (auto intro: goes_on)

text \<open>
  C5. No deadlock and no livelock: when the registrations can be ordered in layers, as those of the
  modules can, then from every state that any number of tasks reach, whatever they resolve and however
  they interleave, every run of steps ends, and it ends with no task waiting: as long as a task is
  resolving something, some task can go on.
\<close>

theorem resolutions_finish:
  assumes "layered [] rs" and "reachable_tasks (table_of rs) n s"
  shows "(\<nexists>f. f 0 = s \<and> (\<forall>k. task_step (table_of rs) (f k) (f (Suc k)))) \<and>
    (\<forall>s'. rtranclp (task_step (table_of rs)) s s' \<longrightarrow>
      (\<exists>s''. task_step (table_of rs) s' s'') \<or> (\<forall>t. tk_stack s' t = []))"
proof -
  let ?T = "table_of rs"
  obtain rank where rank: "ranked ?T rank" using layered_ranked[OF assms(1)] by blast
  note ok = reachable_ok[OF rank]
  have "\<not> (f 0 = s \<and> (\<forall>k. task_step ?T (f k) (f (Suc k))))" for f
  proof
    assume f: "f 0 = s \<and> (\<forall>k. task_step ?T (f k) (f (Suc k)))"
    have reach: "reachable_tasks ?T n (f k)" for k
    proof (induction k)
      case (Suc k)
      from goes_on[OF Suc] f show ?case by blast
    qed (use f assms(2) in simp)
    have "total rank n (f (Suc k)) < total rank n (f k)" for k
      using total_less[OF rank, of "f k" n "f (Suc k)"] ok[OF reach[of k]] f by simp
    then have "\<exists>g. \<forall>k. (g (Suc k), g k) \<in> {(x, y). x < (y :: (nat \<times> nat \<times> nat) multiset)}"
      by (intro exI[of _ "\<lambda>k. total rank n (f k)"]) simp
    moreover have "wf {(x, y). x < (y :: (nat \<times> nat \<times> nat) multiset)}" by (rule wf)
    ultimately show False unfolding wf_iff_no_infinite_down_chain by blast
  qed
  moreover have "(\<exists>s''. task_step ?T s' s'') \<or> (\<forall>t. tk_stack s' t = [])"
    if "rtranclp (task_step ?T) s s'" for s'
  proof (rule disjCI)
    assume "\<not> (\<forall>t. tk_stack s' t = [])"
    then obtain t f fs where "tk_stack s' t = f # fs" by (meson neq_Nil_conv)
    from some_task_steps[OF ok[OF steps_reachable[OF that assms(2)], THEN conjunct1] this]
    show "\<exists>s''. task_step ?T s' s''" .
  qed
  ultimately show ?thesis by blast
qed

theorem resolutions_finish_witness:
  "\<exists>s. task_step (table_of wired_order) (continue_with 0 [Enter ''BrainManager''] idle) s"
proof -
  let ?s = "continue_with 0 [Enter ''BrainManager''] idle"
  have "''BrainManager'' \<in> key ` set wired_order" by (simp add: wired_order_def brain_module_def)
  then have "table_of wired_order ''BrainManager'' \<noteq> None" using table_dom by blast
  with reachable_tasks.request[OF reachable_tasks.at_first, of 0 1 "table_of wired_order" "''BrainManager''"]
  have "reachable_tasks (table_of wired_order) 1 ?s" by (simp add: idle_def)
  from resolutions_finish[OF modules_layered this] have
    "(\<exists>s. task_step (table_of wired_order) ?s s) \<or> (\<forall>t. tk_stack ?s t = [])" by blast
  moreover have "tk_stack ?s 0 \<noteq> []" by (simp add: continue_with_def)
  ultimately show ?thesis by blast
qed

end
