(* ===== verification/Spec2Isabelle.thy ===== *)
theory Spec2Isabelle
  imports Lifecycle Execution Workflow Memory Planner Identity Device_Execution Plugins Config Brain Boot
    Concurrency
begin

text \<open>
  IRA OS, the Python package src/core: an assistant operating system in which every action of the
  assistant is a command to a capability, authorised by a permission kernel, executed by a tool
  runtime, and, when it mutates a device, guarded by confirmation, audit and rollback.

  Parts and how they interact. \<open>core/execution\<close> is the entrance: the service classifies a command,
  sends reads through the protected dispatcher (which asks \<open>core/security\<close>) to \<open>core/runtime\<close>, and
  mutations through the manager of \<open>core/mutation\<close>, whose execution delegate is that dispatcher.
  \<open>core/android\<close> provides the capabilities of a device: a base class, an adapter that makes a
  runtime capability of each, and bridges to the (simulated) hardware. \<open>core/workflow\<close> queues
  requests and submits them to the execution service, \<open>core/memory\<close> stores records under four
  indexes, \<open>core/planner\<close> orders tasks and stores its plans in memory, \<open>core/identity\<close> keeps users,
  sessions and permissions, \<open>core/plugins\<close> plug-in states, \<open>core/config\<close> the typed configuration.
  \<open>core/brain\<close> turns a request of a user into an answer, by way of identity, memory and planner.
  All publish on the bus of \<open>core/events\<close>, are wired by the container of \<open>core/container\<close>, and are
  started and stopped by \<open>core/lifecycle\<close>.

  Conventions. A Python value is a \<open>pyval\<close>, a dictionary an association list in insertion order, an
  exception a value of \<open>pyexn\<close> with its class and message. An operation is a step
  \<open>('s, 'a) act = 's \<Rightarrow> (pyexn + 'a) \<times> 's\<close> on the record of the state it works on; a coroutine is one
  such step; the interleavings of several tasks inside one operation are modelled for the resolver of
  the container only (Concurrency). The bus of
  a component is a parameter that says what publishing an event raises; \<open>quiet\<close> means nothing (no
  component of the repository installs a middleware or subscribes). Published events are the
  \<open>trace\<close> of the state. Clocks and identifiers are supplies. What Python's \<open>str\<close> or \<open>float\<close> give
  for values outside the model is a parameter.

  Theories, each with the source directory or file it models. The base: Prelude (values, exceptions,
  steps, dictionaries, the named collections; the exception hierarchies of all packages), Events
  (\<open>core/events\<close>: subscription, selection of handlers, isolation of failures, middleware; the event
  classes of all packages), Graph (Kahn's algorithm shared by Lifecycle and Planner, and its locale).
  The kernel: Container (\<open>core/container\<close>), Wiring (its resolver again, for factories that resolve
  through the container), Modules (the eleven files \<open>*_module.py\<close> that register all services),
  Concurrency (several tasks resolving at once), Lifecycle (\<open>core/lifecycle\<close>), Logging
  (\<open>core/logging\<close>: levels, context, formatters, sinks, loggers, factory), Boot (what the bootstrapper
  makes of configuration and logging). Execution: Security (\<open>core/security\<close>), Runtime
  (\<open>core/runtime\<close>), Mutation (\<open>core/mutation\<close>, models of \<open>core/execution\<close>), Execution
  (\<open>core/execution\<close>), Workflow (\<open>core/workflow\<close>). Services: Memory (\<open>core/memory\<close>), Planner
  (\<open>core/planner\<close>), Identity (\<open>core/identity\<close>), Plugins (\<open>core/plugins\<close>), Config (\<open>core/config\<close>), Brain
  (\<open>core/brain\<close>: reasoning, decision and the pipeline of eight stages, over the states of Identity,
  Memory and Planner). Devices: Android (\<open>core/android\<close>: models, base class, adapter, registry,
  manager; the locale of compensable steps); for the bridges of \<open>core/android/bridge\<close> and the
  capabilities on them System_Bridge and Device_Controls (system), Network_Bridge (network), Value_Store
  (what stores of Python values share), File_Bridge (files, downloads, gallery), Media_Bridge (storage,
  media, microphone, camera, location) and Comm_Bridge (calls, messages, contacts, notifications); what
  rolling them back restores in Device_Rollback, Network_State, File_Rollback and Comm_Rollback; Device
  (all bridges as the parts of one device, with every capability of the module) and Device_Execution
  (that device below the execution service).

  What the lemmas show. Safety of execution: what no policy permits never reaches a device, whatever
  command, capability and middleware (Execution, Security); a mutation that is not confirmed never
  executes, one that is to be audited leaves one record that agrees with its outcome whatever bus and
  sinks do, a failed one is rolled back once (Mutation); every execution returns a result that agrees
  with its event (Runtime, Workflow). Lifecycle: the start order is the greedy topological order and
  exists exactly for acyclic dependencies; start-up and shutdown are compared with a reference run of
  the hooks (\<open>worked\<close>: which components are attempted, in which order, which hook raises), so that
  start-up is all or rolled back and shutdown reaches everything in reverse. Container: validation is
  sound for resolution and always returns, the modules wire a system in which every service resolves, which services are shared, and
  with any number of tasks every singleton is one object and no resolution waits for ever. Logging:
  every accepted entry is written once to every sink of the factory, a call whose keywords clash raises
  and writes nothing, a JSON line can be read back, and the loggers of the bootstrapper raise. Data:
  memory and identity registry refine finite maps, answers and errors included, with the renaming of a
  memory record onto an identifier in use as the one way to corrupt the indexes; search, clean-up,
  planning and permission checks are characterised exactly, and building a plan is all or nothing. Devices:
  which calls keep levels in bounds, for which calls rollback restores the state, what the network
  bridge replies and does, that a sequence of reversible calls that is undone leaves the device as it was
  (\<open>device_obs\<close>: everything but the order of dictionary entries, the supplies of identifiers and the
  snapshot \<open>notification.clear\<close> keeps for itself), what a search of the contacts finds, which recordings
  are kept, and that a granted command runs once on its device. Configuration: merging is decided
  by the last provider, what is loaded has its declared types but for a null connection string of the
  database, which the validator lets pass, and the environment is read back exactly. Brain: a
  request is answered exactly when it is answerable, and nothing it meets escapes as an exception. Where the
  code does not do what it means to, the theorem states what it does (sessions logged out in order,
  renamed memory records, plug-ins discovered again, undone pairings, failing Android capabilities,
  identity managers made anew, cycles of factories).

  Bounds and termination. All functions terminate: recursion on lists, on the size of a schema
  (Config), on the number of registered interfaces that are not on the resolution chain (Container),
  on the number of vertices left (Graph). Fuel stands for Python's recursion limit in \<open>node_within\<close> of
  Container, where one more than the number of registrations is enough, and in Logging (\<open>lv_limit\<close>), where
  running out is the \<open>RecursionError\<close> Python raises and a limit above the length of the names and the
  number of loggers is enough. In Wiring running out of fuel is \<open>None\<close>, a resolution that has not returned:
  with the modules as much as there are registrations is enough, and a cycle of factories has none.

  Assumptions of the models. The loggers of the components have a \<open>LogLevel\<close> as their level, so that log
  calls raise nothing; the one call that raises all the same, for a keyword that clashes with the
  logger's own (\<open>logger_call\<close> has all such clashes), is modelled in Mutation, and what a
  level that is no \<open>LogLevel\<close> does in Logging and Boot.
  Values a bridge hands out without copying them (downloads, the gallery) are those of that moment, and
  the keys of a snapshot of notifications are texts. The constructors of the classes the modules
  register return. The registries of Concurrency are layered, so no chain of resolutions closes, and a
  task that waits for a lock gets it in no particular order.

  Not modelled. Abstract contracts hold no behaviour; locks elsewhere than in the container, log output
  of the components and time stamps nobody reads; several tasks inside one operation of the other
  components. Nothing in the repository opens a socket, a model or a real device: the bridges are the
  simulated ones the source has.
\<close>

end
